(* ===== verification/Prelude.thy ===== *)
theory Prelude
  imports Main "HOL-Library.Char_ord" "HOL-Library.List_Lexorder" "HOL-Library.Sublist"
begin

text \<open>
  Shared vocabulary of the loopd development: the error values of the Go code, the
  combinator that models \<open>if err != nil { return err }\<close>, the list-backed tables that
  stand for SQL tables keyed by a primary key, and the generic lemmas and automation the
  component theories use. Every string is a Go string, that is a list of bytes
  (\<^typ>\<open>char list\<close>); strings are ordered bytewise, as Go and the database order them.
\<close>

section \<open>Errors as values\<close>

text \<open>
  The sentinel errors of the repository (packages \<^verbatim>\<open>repo\<close>, \<^verbatim>\<open>service\<close>, \<^verbatim>\<open>lock\<close>, \<^verbatim>\<open>k8s\<close>,
  \<^verbatim>\<open>domain\<close>, \<^verbatim>\<open>harness\<close>, \<^verbatim>\<open>context\<close>). An error that wraps a sentinel with \<^verbatim>\<open>%w\<close> is
  identified with that sentinel, because every caller tests errors with \<^verbatim>\<open>errors.Is\<close>;
  an error without a sentinel keeps a short text. \<open>GormNotFound\<close> and \<open>GormDuplicated\<close>
  are the database layer's own errors, before \<^verbatim>\<open>mapError\<close> turns them into the repository's;
  the \<open>Kube\<close> errors are the API server's not-found, conflict and already-exists, the
  \<open>Bridge\<close> errors those of the AgentUE event bridge. \<open>GoPanic\<close> is a run-time panic (a failed
  type assertion, a nil dereference), so that no branch of the code is lost.
\<close>

datatype err =
    ErrNotFound | ErrConflict | ErrContentTooLarge | ErrInvalidContent
  | ErrInvalidHuman | ErrForbidden
  | SvcInvalid | SvcConflict | SvcUnavailable
  | ErrLocked | ErrLost
  | ErrHumanConflict
  | ErrHarnessCapacity
  | ErrNotParticipant | ErrInvalidCommit
  | ErrRecoveryUnsupported
  | CtxCanceled | CtxDeadlineExceeded
  | ErrObservation string
  | ErrText string
  | GormNotFound | GormDuplicated
  | KubeNotFound | KubeConflict | KubeExists
  | BridgeNotFound | BridgeConflict
  | GoPanic

type_synonym 'a result = "err + 'a"

definition bindR :: "'e + 'a \<Rightarrow> ('a \<Rightarrow> 'e + 'b) \<Rightarrow> 'e + 'b" where
  "bindR m f = (case m of Inl e \<Rightarrow> Inl e | Inr x \<Rightarrow> f x)"

lemma bindR_Inl [simp]: "bindR (Inl e) f = Inl e"
  by (simp add: bindR_def)

lemma bindR_Inr [simp]: "bindR (Inr x) f = f x"
  by (simp add: bindR_def)

lemma bindR_eq_Inr: "bindR m f = Inr y \<longleftrightarrow> (\<exists>x. m = Inr x \<and> f x = Inr y)"
  by (cases m) auto

lemma bindR_eq_Inl: "bindR m f = Inl e \<longleftrightarrow> m = Inl e \<or> (\<exists>x. m = Inr x \<and> f x = Inl e)"
  by (cases m) auto

lemma bindR_obtain:
  assumes "bindR m f = Inr y"
  obtains x where "m = Inr x" "f x = Inr y"
  using assms bindR_eq_Inr [of m f y] by blast

lemma bindR_pair:
  assumes "bindR m (\<lambda>(a, b). f a b) = Inr y"
  obtains a b where "m = Inr (a, b)" "f a b = Inr y"
  using bindR_obtain [OF assms] by (metis case_prod_conv surj_pair)

lemma bindR_triple:
  assumes "bindR m (\<lambda>(a, b, c). f a b c) = Inr y"
  obtains a b c where "m = Inr (a, b, c)" "f a b c = Inr y"
  using bindR_obtain [OF assms] by (metis case_prod_conv surj_pair)

lemma bindR_cong [fundef_cong]:
  "m = m' \<Longrightarrow> (\<And>x. m' = Inr x \<Longrightarrow> f x = f' x) \<Longrightarrow> bindR m f = bindR m' f'"
  by (cases m') auto

definition guardR :: "bool \<Rightarrow> 'e \<Rightarrow> 'e + unit" where
  "guardR b e = (if b then Inr () else Inl e)"

lemma guardR_True [simp]: "guardR True e = Inr ()"
  by (simp add: guardR_def)

lemma guardR_False [simp]: "guardR False e = Inl e"
  by (simp add: guardR_def)

lemma guardR_eq_Inr [simp]: "guardR b e = Inr u \<longleftrightarrow> b"
  by (simp add: guardR_def)

lemma guardR_eq_Inl [simp]: "guardR b e = Inl e' \<longleftrightarrow> \<not> b \<and> e' = e"
  by (auto simp: guardR_def)

text \<open>The facts that open a successful run of a chain of fallible steps.\<close>

named_theorems run_simps "simplification of successful runs of fallible code"

lemmas [run_simps] = bindR_eq_Inr guardR_eq_Inr

definition option_or :: "'e \<Rightarrow> 'a option \<Rightarrow> 'e + 'a" where
  "option_or e x = (case x of None \<Rightarrow> Inl e | Some y \<Rightarrow> Inr y)"

lemma option_or_None [simp]: "option_or e None = Inl e"
  by (simp add: option_or_def)

lemma option_or_Some [simp]: "option_or e (Some x) = Inr x"
  by (simp add: option_or_def)

lemma option_or_eq_Inr [simp, run_simps]: "option_or e x = Inr y \<longleftrightarrow> x = Some y"
  by (cases x) auto

text \<open>A loop that stops at the first error.\<close>

fun foldR :: "('s \<Rightarrow> 'a \<Rightarrow> 'e + 's) \<Rightarrow> 's \<Rightarrow> 'a list \<Rightarrow> 'e + 's" where
  "foldR f s [] = Inr s"
| "foldR f s (x # xs) = bindR (f s x) (\<lambda>s'. foldR f s' xs)"

lemma foldR_append:
  "foldR f s (xs @ ys) = bindR (foldR f s xs) (\<lambda>s'. foldR f s' ys)"
proof (induction xs arbitrary: s)
  case (Cons x xs)
  then show ?case by (cases "f s x") auto
qed simp

lemma foldR_cong [fundef_cong]:
  assumes "s = s'" and "xs = xs'" and "\<And>t x. x \<in> set xs' \<Longrightarrow> f t x = g t x"
  shows "foldR f s xs = foldR g s' xs'"
proof -
  have "foldR f s' xs' = foldR g s' xs'" using assms(3)
  proof (induction xs' arbitrary: s')
    case (Cons x xs)
    have IH: "\<And>t. foldR f t xs = foldR g t xs" using Cons by simp
    show ?case using Cons.prems [of x] by (simp add: IH)
  qed simp
  then show ?thesis using assms(1,2) by simp
qed

lemma foldR_invariant:
  assumes "foldR f s xs = Inr s'" and "P s"
    and "\<And>t t' x. x \<in> set xs \<Longrightarrow> P t \<Longrightarrow> f t x = Inr t' \<Longrightarrow> P t'"
  shows "P s'"
  using assms
proof (induction xs arbitrary: s)
  case (Cons x xs)
  then obtain t where t: "f s x = Inr t" "foldR f t xs = Inr s'"
    by (auto simp: bindR_eq_Inr)
  have "P t" using Cons.prems(2,3) t(1) by auto
  with Cons.IH [OF t(2)] Cons.prems(3) show ?case by auto
qed simp

fun mapR :: "('a \<Rightarrow> 'e + 'b) \<Rightarrow> 'a list \<Rightarrow> 'e + 'b list" where
  "mapR f [] = Inr []"
| "mapR f (x # xs) = bindR (f x) (\<lambda>y. bindR (mapR f xs) (\<lambda>ys. Inr (y # ys)))"

lemma mapR_Inr: "(\<And>x. x \<in> set xs \<Longrightarrow> f x = Inr (g x)) \<Longrightarrow> mapR f xs = Inr (map g xs)"
  by (induction xs) auto

lemma mapR_length: "mapR f xs = Inr ys \<Longrightarrow> length ys = length xs"
  by (induction xs arbitrary: ys) (auto simp: bindR_eq_Inr)

section \<open>Tables\<close>

text \<open>
  A SQL table is the list of its rows in insertion order. \<open>key\<close> reads a row's primary
  key; an \<^verbatim>\<open>UPDATE ... WHERE id = ?\<close> is \<open>tbl_put\<close>, a lookup by primary key is
  \<open>tbl_find\<close>, \<^verbatim>\<open>DELETE\<close> is a filter.
\<close>

fun tbl_find :: "('r \<Rightarrow> 'k) \<Rightarrow> 'k \<Rightarrow> 'r list \<Rightarrow> 'r option" where
  "tbl_find key k [] = None"
| "tbl_find key k (r # rs) = (if key r = k then Some r else tbl_find key k rs)"

definition tbl_put :: "('r \<Rightarrow> 'k) \<Rightarrow> 'r \<Rightarrow> 'r list \<Rightarrow> 'r list" where
  "tbl_put key r rs = map (\<lambda>x. if key x = key r then r else x) rs"

lemma tbl_put_Nil [simp]: "tbl_put key r [] = []"
  by (simp add: tbl_put_def)

lemma tbl_put_Cons [simp]:
  "tbl_put key r (x # xs) = (if key x = key r then r else x) # tbl_put key r xs"
  by (simp add: tbl_put_def)

lemma tbl_find_key: "tbl_find key k rs = Some r \<Longrightarrow> key r = k"
  by (induction rs) (auto split: if_splits)

lemma tbl_find_mem: "tbl_find key k rs = Some r \<Longrightarrow> r \<in> set rs"
  by (induction rs) (auto split: if_splits)

lemma tbl_find_None: "tbl_find key k rs = None \<longleftrightarrow> k \<notin> key ` set rs"
  by (induction rs) auto

lemma tbl_find_distinct:
  "distinct (map key rs) \<Longrightarrow> r \<in> set rs \<Longrightarrow> tbl_find key (key r) rs = Some r"
  by (induction rs) (auto simp: rev_image_eqI)

lemma tbl_find_put_same:
  "tbl_find key (key r) rs = Some r0 \<Longrightarrow> tbl_find key (key r) (tbl_put key r rs) = Some r"
  by (induction rs) auto

lemma tbl_find_put_other:
  "k \<noteq> key r \<Longrightarrow> tbl_find key k (tbl_put key r rs) = tbl_find key k rs"
  by (induction rs) auto

lemma tbl_find_put:
  "tbl_find key k (tbl_put key r rs) =
     (if k = key r then map_option (\<lambda>_. r) (tbl_find key k rs) else tbl_find key k rs)"
  by (induction rs) auto

lemma tbl_find_append:
  "tbl_find key k (rs @ ss) =
     (case tbl_find key k rs of None \<Rightarrow> tbl_find key k ss | Some r \<Rightarrow> Some r)"
  by (induction rs) auto

lemma tbl_find_filter_other:
  "(\<And>r. key r = k \<Longrightarrow> P r) \<Longrightarrow> tbl_find key k (filter P rs) = tbl_find key k rs"
  by (induction rs) auto

lemma map_key_tbl_put [simp]: "map key (tbl_put key r rs) = map key rs"
  by (induction rs) auto

lemma length_tbl_put [simp]: "length (tbl_put key r rs) = length rs"
  by (simp add: tbl_put_def)

lemma set_tbl_put: "set (tbl_put key r rs) \<subseteq> insert r (set rs)"
  by (auto simp: tbl_put_def)

text \<open>
  The contract a component relies on when it reads and rewrites one kind of row in the
  store: a lookup by key, an in-place update, an insertion of a fresh key.
\<close>

locale row_store =
  fixes find_row :: "'k \<Rightarrow> 's \<Rightarrow> 'r option"
    and put_row :: "'r \<Rightarrow> 's \<Rightarrow> 's"
    and key :: "'r \<Rightarrow> 'k"
  assumes find_key: "find_row k s = Some r \<Longrightarrow> key r = k"
    and find_put: "find_row k (put_row r s) =
          (if k = key r then map_option (\<lambda>_. r) (find_row k s) else find_row k s)"
begin

lemma find_put_same [simp]:
  "find_row (key r) s = Some r0 \<Longrightarrow> find_row (key r) (put_row r s) = Some r"
  by (simp add: find_put)

lemma find_put_other [simp]: "k \<noteq> key r \<Longrightarrow> find_row k (put_row r s) = find_row k s"
  by (simp add: find_put)

text \<open>A property of all rows survives an update by a row that has it.\<close>

lemma put_all_rows:
  assumes "\<And>k x. find_row k s = Some x \<Longrightarrow> P x" and "P r"
    and "find_row k (put_row r s) = Some x"
  shows "P x"
  using assms by (auto simp: find_put split: if_splits)

text \<open>
  A relation between a row before and after holds of every row when it is reflexive and
  holds of the row that was written.
\<close>

lemma put_row_relation:
  assumes "find_row (key r) s = Some r0" and "R r0 r" and "\<And>x. R x x"
    and "find_row k s = Some x"
  shows "\<exists>y. find_row k (put_row r s) = Some y \<and> R x y"
  using assms by (auto simp: find_put)

end

section \<open>Association lists in key order\<close>

text \<open>
  A Go map with string keys, kept as an association list. \<open>al_set\<close> updates in place or
  appends, so the list keeps one entry per key.
\<close>

fun al_set :: "'k \<Rightarrow> 'v \<Rightarrow> ('k \<times> 'v) list \<Rightarrow> ('k \<times> 'v) list" where
  "al_set k v [] = [(k, v)]"
| "al_set k v ((k', v') # kvs) = (if k' = k then (k, v) # kvs else (k', v') # al_set k v kvs)"

lemma map_of_al_set [simp]: "map_of (al_set k v kvs) = (map_of kvs)(k \<mapsto> v)"
  by (induction k v kvs rule: al_set.induct) (auto simp: fun_eq_iff)

lemma keys_al_set: "fst ` set (al_set k v kvs) = insert k (fst ` set kvs)"
  by (induction k v kvs rule: al_set.induct) auto

lemma distinct_al_set: "distinct (map fst kvs) \<Longrightarrow> distinct (map fst (al_set k v kvs))"
  by (induction k v kvs rule: al_set.induct) (auto simp: keys_al_set [simplified])

lemma map_fst_al_set_present:
  "k \<in> fst ` set kvs \<Longrightarrow> map fst (al_set k v kvs) = map fst kvs"
  by (induction k v kvs rule: al_set.induct) force+

lemma map_fst_al_set_absent:
  "k \<notin> fst ` set kvs \<Longrightarrow> map fst (al_set k v kvs) = map fst kvs @ [k]"
  by (induction k v kvs rule: al_set.induct) auto

lemma al_set_same: "map_of kvs k = Some v \<Longrightarrow> al_set k v kvs = kvs"
  by (induction k v kvs rule: al_set.induct) (auto split: if_splits)

lemma al_set_twice [simp]: "al_set k v (al_set k w kvs) = al_set k v kvs"
  by (induction k v kvs rule: al_set.induct) auto

lemma al_set_swap:
  "k \<noteq> k' \<Longrightarrow> map_of kvs k \<noteq> None \<Longrightarrow> al_set k v (al_set k' w kvs) = al_set k' w (al_set k v kvs)"
  by (induction k v kvs rule: al_set.induct) auto

end
