(* ===== verification/GoStd.thy ===== *)
theory GoStd
  imports Prelude
begin

text \<open>
  The functions of Go's standard library that the modelled code calls on strings:
  \<^verbatim>\<open>strings.TrimSpace\<close>, \<^verbatim>\<open>strings.Cut\<close>, \<^verbatim>\<open>strings.Join\<close>, \<^verbatim>\<open>strings.Split\<close>,
  \<^verbatim>\<open>strings.HasPrefix\<close>, \<^verbatim>\<open>strconv.ParseUint\<close>, \<^verbatim>\<open>strconv.Atoi\<close> and decimal formatting,
  all on byte strings.
\<close>

section \<open>TrimSpace\<close>

text \<open>
  \<^verbatim>\<open>unicode.IsSpace\<close> on the UTF-8 encodings of its runes: the one-byte ones, the
  two-byte U+0085 and U+00A0, and the three-byte U+1680, U+2000--U+200A, U+2028, U+2029,
  U+202F, U+205F and U+3000.
\<close>

definition sp1 :: "char \<Rightarrow> bool" where
  "sp1 a \<longleftrightarrow> a = CHR 0x09 \<or> a = CHR 0x0A \<or> a = CHR 0x0B \<or> a = CHR 0x0C \<or> a = CHR 0x0D \<or> a = CHR 0x20"

definition sp2 :: "char \<Rightarrow> char \<Rightarrow> bool" where
  "sp2 a b \<longleftrightarrow> a = CHR 0xC2 \<and> (b = CHR 0x85 \<or> b = CHR 0xA0)"

definition sp3 :: "char \<Rightarrow> char \<Rightarrow> char \<Rightarrow> bool" where
  "sp3 a b c \<longleftrightarrow>
     (a = CHR 0xE1 \<and> b = CHR 0x9A \<and> c = CHR 0x80) \<or>
     (a = CHR 0xE2 \<and> b = CHR 0x80 \<and>
        (CHR 0x80 \<le> c \<and> c \<le> CHR 0x8A \<or> c = CHR 0xA8 \<or> c = CHR 0xA9 \<or> c = CHR 0xAF)) \<or>
     (a = CHR 0xE2 \<and> b = CHR 0x81 \<and> c = CHR 0x9F) \<or>
     (a = CHR 0xE3 \<and> b = CHR 0x80 \<and> c = CHR 0x80)"

fun trim_left :: "string \<Rightarrow> string" where
  "trim_left [] = []"
| "trim_left [a] = (if sp1 a then [] else [a])"
| "trim_left [a, b] = (if sp1 a then trim_left [b] else if sp2 a b then [] else [a, b])"
| "trim_left (a # b # c # s) =
     (if sp1 a then trim_left (b # c # s)
      else if sp2 a b then trim_left (c # s)
      else if sp3 a b c then trim_left s
      else a # b # c # s)"

text \<open>The same on the reversed string, where the last byte comes first.\<close>

fun trim_rev :: "string \<Rightarrow> string" where
  "trim_rev [] = []"
| "trim_rev [a] = (if sp1 a then [] else [a])"
| "trim_rev [b, a] = (if sp1 b then trim_rev [a] else if sp2 a b then [] else [b, a])"
| "trim_rev (c # b # a # s) =
     (if sp1 c then trim_rev (b # a # s)
      else if sp2 b c then trim_rev (a # s)
      else if sp3 a b c then trim_rev s
      else c # b # a # s)"

definition trim_space :: "string \<Rightarrow> string" where
  "trim_space s = rev (trim_rev (rev (trim_left s)))"

lemma trim_left_suffix: "suffix (trim_left s) s"
  by (induction s rule: trim_left.induct) (auto simp: suffix_Cons)

lemma trim_rev_suffix: "suffix (trim_rev s) s"
  by (induction s rule: trim_rev.induct) (auto simp: suffix_Cons)

lemma length_trim_left: "length (trim_left s) \<le> length s"
  by (rule suffix_length_le [OF trim_left_suffix])

lemma length_trim_rev: "length (trim_rev s) \<le> length s"
  by (rule suffix_length_le [OF trim_rev_suffix])

lemma length_trim_space: "length (trim_space s) \<le> length s"
proof -
  have "length (trim_rev (rev (trim_left s))) \<le> length (trim_left s)"
    using length_trim_rev [of "rev (trim_left s)"] by simp
  also have "\<dots> \<le> length s" by (rule length_trim_left)
  finally show ?thesis by (simp add: trim_space_def)
qed

lemma trim_space_Nil [simp]: "trim_space [] = []"
  by (simp add: trim_space_def)

definition blank :: "string \<Rightarrow> bool" where
  "blank s \<longleftrightarrow> trim_space s = []"

lemma blank_Nil [simp]: "blank []"
  by (simp add: blank_def)

section \<open>Prefixes, cutting, joining\<close>

definition has_prefix :: "string \<Rightarrow> string \<Rightarrow> bool" where
  "has_prefix s p \<longleftrightarrow> take (length p) s = p"

lemma has_prefix_iff: "has_prefix s p \<longleftrightarrow> (\<exists>t. s = p @ t)"
  unfolding has_prefix_def by (metis append_eq_conv_conj append_take_drop_id)

definition trim_prefix :: "string \<Rightarrow> string \<Rightarrow> string" where
  "trim_prefix s p = (if has_prefix s p then drop (length p) s else s)"

definition has_suffix :: "string \<Rightarrow> string \<Rightarrow> bool" where
  "has_suffix s p \<longleftrightarrow> length p \<le> length s \<and> drop (length s - length p) s = p"

definition trim_suffix :: "string \<Rightarrow> string \<Rightarrow> string" where
  "trim_suffix s p = (if has_suffix s p then take (length s - length p) s else s)"

text \<open>\<^verbatim>\<open>strings.Cut\<close> at a one-byte separator: \<open>None\<close> when the separator is absent.\<close>

fun cut_at :: "char \<Rightarrow> string \<Rightarrow> (string \<times> string) option" where
  "cut_at c [] = None"
| "cut_at c (x # xs) =
     (if x = c then Some ([], xs) else map_option (\<lambda>(a, b). (x # a, b)) (cut_at c xs))"

lemma cut_at_Some: "cut_at c s = Some (a, b) \<Longrightarrow> s = a @ c # b \<and> c \<notin> set a"
  by (induction s arbitrary: a b) (auto split: if_splits)

lemma cut_at_append: "c \<notin> set a \<Longrightarrow> cut_at c (a @ c # b) = Some (a, b)"
  by (induction a) auto

fun split_at :: "char \<Rightarrow> string \<Rightarrow> string list" where
  "split_at c [] = [[]]"
| "split_at c (x # xs) =
     (if x = c then [] # split_at c xs
      else (case split_at c xs of [] \<Rightarrow> [[x]] | y # ys \<Rightarrow> (x # y) # ys))"

lemma split_at_nonempty: "split_at c s \<noteq> []"
  by (cases s) (auto split: list.splits)

fun join_with :: "string \<Rightarrow> string list \<Rightarrow> string" where
  "join_with sep [] = []"
| "join_with sep [x] = x"
| "join_with sep (x # y # ys) = x @ sep @ join_with sep (y # ys)"

lemma join_split_at: "join_with [c] (split_at c s) = s"
proof (induction s)
  case (Cons x s)
  obtain y ys where y: "split_at c s = y # ys"
    using split_at_nonempty [of c s] by (cases "split_at c s") auto
  show ?case using Cons y by (cases ys) auto
qed simp

section \<open>Literals\<close>

definition newline :: string where
  "newline = [CHR 0x0A]"

text \<open>The bytes of a literal that is not ASCII.\<close>

definition utf8 :: "nat list \<Rightarrow> string" where
  "utf8 bs = map char_of bs"

section \<open>Decimal numbers\<close>

definition digit_char :: "nat \<Rightarrow> char" where
  "digit_char d = char_of (48 + d)"

definition digit_val :: "char \<Rightarrow> nat option" where
  "digit_val c = (let n = of_char c in if 48 \<le> n \<and> n \<le> 57 then Some (n - 48) else None)"

fun nat_str :: "nat \<Rightarrow> string" where
  "nat_str n = (if n < 10 then [digit_char n] else nat_str (n div 10) @ [digit_char (n mod 10)])"

declare nat_str.simps [simp del]

fun digits_val :: "nat \<Rightarrow> string \<Rightarrow> nat option" where
  "digits_val acc [] = Some acc"
| "digits_val acc (c # cs) =
     (case digit_val c of None \<Rightarrow> None | Some d \<Rightarrow> digits_val (10 * acc + d) cs)"

text \<open>
  \<^verbatim>\<open>strconv.ParseUint(s, 10, 64)\<close>: at least one digit, digits only, below \<open>2 ^ 64\<close>.
  \<^verbatim>\<open>strconv.Atoi\<close> takes an optional sign and the range of a 64-bit \<^verbatim>\<open>int\<close>.
\<close>

definition parse_uint64 :: "string \<Rightarrow> nat option" where
  "parse_uint64 s =
     (if s = [] then None
      else case digits_val 0 s of None \<Rightarrow> None | Some n \<Rightarrow> if n < 2 ^ 64 then Some n else None)"

definition atoi :: "string \<Rightarrow> int option" where
  "atoi s =
     (let neg = has_prefix s ''-'';
          body = (if neg \<or> has_prefix s ''+'' then tl s else s)
      in if body = [] then None
         else case digits_val 0 body of
           None \<Rightarrow> None
         | Some n \<Rightarrow>
             (let v = (if neg then - int n else int n)
              in if - (2 ^ 63) \<le> v \<and> v < 2 ^ 63 then Some v else None))"

lemma digit_val_char: "d < 10 \<Longrightarrow> digit_val (digit_char d) = Some d"
  by (simp add: digit_val_def digit_char_def)

lemma digits_val_append:
  "digits_val a (s @ t) = (case digits_val a s of None \<Rightarrow> None | Some b \<Rightarrow> digits_val b t)"
  by (induction s arbitrary: a) (auto split: option.splits)

lemma digits_val_nat_str: "digits_val 0 (nat_str n) = Some n"
proof (induction n rule: nat_str.induct)
  case (1 n)
  show ?case
  proof (cases "n < 10")
    case True
    then show ?thesis by (subst nat_str.simps) (simp add: digit_val_char)
  next
    case False
    then have "digits_val 0 (nat_str (n div 10)) = Some (n div 10)" by (rule 1)
    then show ?thesis using False
      by (subst nat_str.simps) (simp add: digits_val_append digit_val_char)
  qed
qed

lemma nat_str_nonempty: "nat_str n \<noteq> []"
  by (subst nat_str.simps) simp

lemma parse_uint64_nat_str: "n < 2 ^ 64 \<Longrightarrow> parse_uint64 (nat_str n) = Some n"
  by (simp add: parse_uint64_def nat_str_nonempty digits_val_nat_str)

lemma nat_str_digits: "c \<in> set (nat_str n) \<Longrightarrow> 48 \<le> (of_char c :: nat) \<and> (of_char c :: nat) \<le> 57"
proof (induction n rule: nat_str.induct)
  case (1 n)
  have d: "\<And>k. k < 10 \<Longrightarrow> 48 \<le> (of_char (digit_char k) :: nat) \<and> (of_char (digit_char k) :: nat) \<le> 57"
    by (simp add: digit_char_def)
  show ?case
  proof (cases "n < 10")
    case True
    with 1 d show ?thesis by (auto simp: nat_str.simps [of n])
  next
    case False
    with 1 d [of "n mod 10"] show ?thesis by (auto simp: nat_str.simps [of n])
  qed
qed

lemma of_char_minus_plus: "of_char (CHR ''-'') = (45::nat)" "of_char (CHR ''+'') = (43::nat)"
  by simp_all

lemma nat_str_no_sep: "\<not> (48 \<le> (of_char c :: nat) \<and> (of_char c :: nat) \<le> 57) \<Longrightarrow> c \<notin> set (nat_str n)"
  using nat_str_digits by blast

lemma nat_str_inj: "nat_str m = nat_str n \<Longrightarrow> m = n"
  by (metis digits_val_nat_str option.inject)

lemma atoi_nat_str:
  assumes "n < 2 ^ 63" shows "atoi (nat_str n) = Some (int n)"
proof -
  have neg: "\<not> has_prefix (nat_str n) ''-''" "\<not> has_prefix (nat_str n) ''+''"
    using nat_str_no_sep [of "CHR ''-''" n] nat_str_no_sep [of "CHR ''+''" n]
    by (simp_all add: has_prefix_iff of_char_minus_plus) (metis append_Cons list.set_intros(1))+
  have "int n < 2 ^ 63" using assms by (metis of_nat_less_iff of_nat_numeral of_nat_power)
  moreover have "(- (2 ^ 63) :: int) \<le> int n" by (rule order_trans [of _ 0]) auto
  ultimately show ?thesis using neg
    by (simp add: atoi_def Let_def nat_str_nonempty digits_val_nat_str)
qed

end
