(* ===== verification/Json.thy ===== *)
theory Json
  imports GoStd
begin

text \<open>
  JSON values as \<^verbatim>\<open>encoding/json\<close> decodes them into \<^verbatim>\<open>any\<close> (with \<^verbatim>\<open>UseNumber\<close>: a number keeps
  its literal), their encoding as bytes, and content columns. A column (a \<^verbatim>\<open>json.RawMessage\<close>
  or a JSON column of the database) is its bytes together with their parse, which is
  \<open>None\<close> when the bytes are not one JSON document. Member names are matched exactly.
\<close>

section \<open>UTF-8\<close>

definition bt :: "char \<Rightarrow> nat" where
  "bt c = of_char c"

definition cont :: "char \<Rightarrow> bool" where
  "cont c \<longleftrightarrow> 0x80 \<le> bt c \<and> bt c \<le> 0xBF"

text \<open>The width of the rune at the head of a byte string, 0 when the bytes are not valid UTF-8.\<close>

fun utf8_width :: "string \<Rightarrow> nat" where
  "utf8_width [] = 0"
| "utf8_width (a # s) =
     (let n = bt a in
      if n < 0x80 then 1
      else if 0xC2 \<le> n \<and> n \<le> 0xDF then
        (case s of b # _ \<Rightarrow> if cont b then 2 else 0 | [] \<Rightarrow> 0)
      else if 0xE0 \<le> n \<and> n \<le> 0xEF then
        (case s of
           b # c # _ \<Rightarrow>
             if cont b \<and> cont c \<and> (n = 0xE0 \<longrightarrow> 0xA0 \<le> bt b) \<and> (n = 0xED \<longrightarrow> bt b \<le> 0x9F) then 3 else 0
         | _ \<Rightarrow> 0)
      else if 0xF0 \<le> n \<and> n \<le> 0xF4 then
        (case s of
           b # c # d # _ \<Rightarrow>
             if cont b \<and> cont c \<and> cont d \<and> (n = 0xF0 \<longrightarrow> 0x90 \<le> bt b) \<and> (n = 0xF4 \<longrightarrow> bt b \<le> 0x8F)
             then 4 else 0
         | _ \<Rightarrow> 0)
      else 0)"

declare utf8_width.simps [simp del]

lemma utf8_width_ascii: "bt a < 0x80 \<Longrightarrow> utf8_width (a # s) = 1"
  by (simp add: utf8_width.simps)

text \<open>\<^verbatim>\<open>strings.ToValidUTF8(s, "")\<close> drops the invalid bytes.\<close>

function to_valid_utf8 :: "string \<Rightarrow> string" where
  "to_valid_utf8 [] = []"
| "to_valid_utf8 (a # s) =
     (let w = utf8_width (a # s) in
      if w = 0 then to_valid_utf8 s
      else take w (a # s) @ to_valid_utf8 (drop w (a # s)))"
  by pat_completeness auto
termination by (relation "measure length") auto

lemma length_to_valid_utf8: "length (to_valid_utf8 s) \<le> length s"
proof (induction s rule: to_valid_utf8.induct)
  case (2 a s)
  let ?w = "utf8_width (a # s)"
  show ?case
  proof (cases "?w = 0")
    case True
    with 2(1) show ?thesis by simp
  next
    case False
    then have "length (to_valid_utf8 (drop ?w (a # s))) \<le> length (drop ?w (a # s))"
      using 2(2) by simp
    with False show ?thesis by (simp add: Let_def)
  qed
qed simp

section \<open>Values\<close>

datatype json =
    JNull
  | JBool bool
  | JNum string
  | JStr string
  | JArr "json list"
  | JObj "(string \<times> json) list"

fun jget :: "string \<Rightarrow> json \<Rightarrow> json option" where
  "jget k (JObj kvs) = map_of kvs k"
| "jget k _ = None"

fun jset :: "string \<Rightarrow> json \<Rightarrow> json \<Rightarrow> json" where
  "jset k v (JObj kvs) = JObj (al_set k v kvs)"
| "jset k v j = j"

fun jstr :: "json option \<Rightarrow> string option" where
  "jstr (Some (JStr s)) = Some s"
| "jstr _ = None"

fun is_obj :: "json \<Rightarrow> bool" where
  "is_obj (JObj _) = True"
| "is_obj _ = False"

text \<open>The blocks of a UI model.\<close>

definition jblocks :: "json \<Rightarrow> json list" where
  "jblocks v = (case jget ''blocks'' v of Some (JArr bs) \<Rightarrow> bs | _ \<Rightarrow> [])"

text \<open>The string field of a Go struct decoded from an object: absent or null reads as empty.\<close>

definition jfield :: "string \<Rightarrow> json \<Rightarrow> string" where
  "jfield k v = (case jget k v of Some (JStr s) \<Rightarrow> s | _ \<Rightarrow> [])"

lemma jget_jset: "is_obj v \<Longrightarrow> jget k (jset k' x v) = (if k = k' then Some x else jget k v)"
  by (cases v) auto

lemma is_obj_jset [simp]: "is_obj (jset k x v) = is_obj v"
  by (cases v) auto

section \<open>Encoding\<close>

definition hex_digit :: "nat \<Rightarrow> char" where
  "hex_digit d = (if d < 10 then char_of (48 + d) else char_of (87 + d))"

text \<open>
  The encoder's default escapes: quote and backslash, the short escapes, the other control
  bytes and the HTML characters as \<^verbatim>\<open>\u00xx\<close>, U+2028 and U+2029, and U+FFFD for an invalid
  byte.
\<close>

definition esc1 :: "char \<Rightarrow> string" where
  "esc1 a =
     (let n = bt a in
      if n = 0x22 \<or> n = 0x5C then [CHR 0x5C, a]
      else if n = 0x08 then [CHR 0x5C, CHR ''b'']
      else if n = 0x0C then [CHR 0x5C, CHR ''f'']
      else if n = 0x0A then [CHR 0x5C, CHR ''n'']
      else if n = 0x0D then [CHR 0x5C, CHR ''r'']
      else if n = 0x09 then [CHR 0x5C, CHR ''t'']
      else if n < 0x20 \<or> n = 0x3C \<or> n = 0x3E \<or> n = 0x26 then
        CHR 0x5C # ''u00'' @ [hex_digit (n div 16), hex_digit (n mod 16)]
      else [a])"

definition esc_wide :: "string \<Rightarrow> string" where
  "esc_wide r =
     (if r = [CHR 0xE2, CHR 0x80, CHR 0xA8] then CHR 0x5C # ''u2028''
      else if r = [CHR 0xE2, CHR 0x80, CHR 0xA9] then CHR 0x5C # ''u2029''
      else r)"

function json_escape :: "string \<Rightarrow> string" where
  "json_escape [] = []"
| "json_escape (a # s) =
     (let w = utf8_width (a # s) in
      if w = 0 then CHR 0x5C # ''ufffd'' @ json_escape s
      else if w = 1 then esc1 a @ json_escape s
      else esc_wide (take w (a # s)) @ json_escape (drop w (a # s)))"
  by pat_completeness auto
termination by (relation "measure length") auto

definition json_quote :: "string \<Rightarrow> string" where
  "json_quote s = CHR 0x22 # json_escape s @ [CHR 0x22]"

fun json_print :: "json \<Rightarrow> string" where
  "json_print JNull = ''null''"
| "json_print (JBool b) = (if b then ''true'' else ''false'')"
| "json_print (JNum s) = s"
| "json_print (JStr s) = json_quote s"
| "json_print (JArr vs) = ''['' @ join_with '','' (map json_print vs) @ '']''"
| "json_print (JObj kvs) =
     CHR 0x7B # join_with '','' (map (\<lambda>(k, v). json_quote k @ '':'' @ json_print v) kvs) @ [CHR 0x7D]"

section \<open>Content columns\<close>

datatype content = Content (c_val: "json option") (c_raw: string)

definition c_len :: "content \<Rightarrow> nat" where
  "c_len c = length (c_raw c)"

text \<open>\<^verbatim>\<open>json.Marshal\<close>.\<close>

definition marshal :: "json \<Rightarrow> content" where
  "marshal v = Content (Some v) (json_print v)"

definition jlen :: "json \<Rightarrow> nat" where
  "jlen v = length (json_print v)"

lemma c_val_marshal [simp]: "c_val (marshal v) = Some v"
  by (simp add: marshal_def)

lemma c_raw_marshal [simp]: "c_raw (marshal v) = json_print v"
  by (simp add: marshal_def)

lemma c_len_marshal [simp]: "c_len (marshal v) = jlen v"
  by (simp add: c_len_def jlen_def)

text \<open>
  Decoding a column into \<^verbatim>\<open>map[string]any\<close>: an object is taken as it is, the literal null
  leaves an empty map, anything else (or invalid bytes, or trailing content) is an error.
\<close>

definition decode_object :: "content \<Rightarrow> json result" where
  "decode_object c =
     (case c_val c of
        Some (JObj kvs) \<Rightarrow> Inr (JObj kvs)
      | Some JNull \<Rightarrow> Inr (JObj [])
      | _ \<Rightarrow> Inl (ErrText ''json''))"

lemma decode_object_is_obj: "decode_object c = Inr v \<Longrightarrow> is_obj v"
  by (auto simp: decode_object_def split: option.splits json.splits)

lemma decode_marshal: "is_obj v \<Longrightarrow> decode_object (marshal v) = Inr v"
  by (cases v) (auto simp: decode_object_def)

text \<open>
  Decoding into a Go struct: an absent or null member leaves the field empty, a member of
  another type is an error.
\<close>

definition jfield_str :: "string \<Rightarrow> json \<Rightarrow> string result" where
  "jfield_str k v =
     (case jget k v of
        None \<Rightarrow> Inr []
      | Some JNull \<Rightarrow> Inr []
      | Some (JStr s) \<Rightarrow> Inr s
      | Some _ \<Rightarrow> Inl (ErrText ''json''))"

text \<open>A struct with one slice field \<^verbatim>\<open>blocks\<close>.\<close>

definition struct_blocks :: "json option \<Rightarrow> json list result" where
  "struct_blocks v =
     (case v of
        Some JNull \<Rightarrow> Inr []
      | Some (JObj kvs) \<Rightarrow>
          (case map_of kvs ''blocks'' of
             None \<Rightarrow> Inr []
           | Some JNull \<Rightarrow> Inr []
           | Some (JArr bs) \<Rightarrow> Inr bs
           | Some _ \<Rightarrow> Inl (ErrText ''json''))
      | _ \<Rightarrow> Inl (ErrText ''json''))"

text \<open>\<^verbatim>\<open>DisallowUnknownFields\<close>.\<close>

definition only_fields :: "string list \<Rightarrow> json \<Rightarrow> bool" where
  "only_fields ks v = (case v of JObj kvs \<Rightarrow> list_all (\<lambda>kv. fst kv \<in> set ks) kvs | _ \<Rightarrow> True)"

text \<open>A struct element of such a slice: an object, or null for the zero value.\<close>

definition is_struct :: "json \<Rightarrow> bool" where
  "is_struct v \<longleftrightarrow> v = JNull \<or> is_obj v"

end
