(* ===== verification/Contract.thy ===== *)
theory Contract
  imports Json
begin

text \<open>
  The public collaboration contract (\<^verbatim>\<open>pkg/contract\<close>): actor identities, message and call
  lifecycles, Human requests and replies, Harness results. The string enums of the code
  are open, so they stay strings; the closed enum of call phases is a datatype.
\<close>

section \<open>Actors\<close>

abbreviation ActorKindUser :: string where "ActorKindUser \<equiv> ''user''"
abbreviation ActorKindHarness :: string where "ActorKindHarness \<equiv> ''harness''"
abbreviation ActorKindOperator :: string where "ActorKindOperator \<equiv> ''operator''"

record actor_ref =
  ar_kind :: string
  ar_key :: string

definition no_actor :: actor_ref where
  "no_actor = \<lparr>ar_kind = [], ar_key = []\<rparr>"

definition kind_valid :: "string \<Rightarrow> bool" where
  "kind_valid kind \<longleftrightarrow> kind \<noteq> [] \<and> length kind \<le> 128 \<and> trim_space kind = kind"

definition ref_valid :: "actor_ref \<Rightarrow> bool" where
  "ref_valid ref \<longleftrightarrow> kind_valid (ar_kind ref) \<and> trim_space (ar_key ref) = ar_key ref
     \<and> ar_key ref \<noteq> [] \<and> length (ar_key ref) \<le> 128"

definition valid_target :: "actor_ref \<Rightarrow> bool" where
  "valid_target ref \<longleftrightarrow> ref_valid ref \<and> ar_kind ref \<noteq> ActorKindUser"

definition is_operator :: "string \<Rightarrow> bool" where
  "is_operator kind \<longleftrightarrow>
     kind = ActorKindOperator \<or> (kind_valid kind \<and> has_prefix kind ''operator/'')"

lemma no_actor_sel [simp]: "ar_kind no_actor = []" "ar_key no_actor = []"
  by (simp_all add: no_actor_def)

lemma not_valid_no_actor [simp]: "\<not> ref_valid no_actor" "\<not> valid_target no_actor"
  by (simp_all add: ref_valid_def valid_target_def kind_valid_def)

lemma valid_target_ref_valid: "valid_target r \<Longrightarrow> ref_valid r"
  by (simp add: valid_target_def)

lemma actor_ref_eqI:
  fixes a b :: actor_ref
  shows "ar_kind a = ar_kind b \<Longrightarrow> ar_key a = ar_key b \<Longrightarrow> a = b"
  by simp

section \<open>Message lifecycle\<close>

abbreviation MessageStatusStreaming :: string where "MessageStatusStreaming \<equiv> ''streaming''"
abbreviation MessageStatusCompleted :: string where "MessageStatusCompleted \<equiv> ''completed''"
abbreviation MessageStatusFailed :: string where "MessageStatusFailed \<equiv> ''failed''"
abbreviation MessageStatusCancelled :: string where "MessageStatusCancelled \<equiv> ''cancelled''"
abbreviation MessageStatusExpired :: string where "MessageStatusExpired \<equiv> ''expired''"

definition status_terminal :: "string \<Rightarrow> bool" where
  "status_terminal status \<longleftrightarrow>
     status = MessageStatusCompleted \<or> status = MessageStatusFailed
     \<or> status = MessageStatusCancelled \<or> status = MessageStatusExpired"

lemma status_terminal_simps [simp]:
  "status_terminal MessageStatusCompleted" "status_terminal MessageStatusFailed"
  "status_terminal MessageStatusCancelled" "status_terminal MessageStatusExpired"
  "\<not> status_terminal MessageStatusStreaming" "\<not> status_terminal []"
  by (simp_all add: status_terminal_def)

record cmessage =
  cm_id :: string
  cm_conv :: string
  cm_task :: string
  cm_source :: actor_ref
  cm_target :: actor_ref
  cm_reply_to :: string
  cm_status :: string
  cm_revision :: nat
  cm_content :: content
  cm_created :: int
  cm_updated :: int

record message_info =
  mi_id :: string
  mi_conv :: string
  mi_task :: string
  mi_source :: actor_ref
  mi_target :: actor_ref
  mi_reply_to :: string
  mi_status :: string
  mi_revision :: nat
  mi_created :: int
  mi_updated :: int

definition info :: "cmessage \<Rightarrow> message_info" where
  "info m = \<lparr>mi_id = cm_id m, mi_conv = cm_conv m, mi_task = cm_task m,
     mi_source = cm_source m, mi_target = cm_target m, mi_reply_to = cm_reply_to m,
     mi_status = cm_status m, mi_revision = cm_revision m,
     mi_created = cm_created m, mi_updated = cm_updated m\<rparr>"

definition ended :: "cmessage \<Rightarrow> bool" where
  "ended m \<longleftrightarrow> status_terminal (cm_status m)"

record message_query =
  mq_ids :: "string list"
  mq_before :: string
  mq_after :: string
  mq_order :: string
  mq_limit :: int
  mq_statuses :: "string list"

record message_page =
  mp_data :: "message_info list"
  mp_next :: string

record speak_request =
  sr_status :: string
  sr_key :: string
  sr_actor :: actor_ref
  sr_target :: actor_ref
  sr_reply_to :: string
  sr_content :: content

record block_page =
  bp_revision :: nat
  bp_data :: "json list"
  bp_next :: string

record poll_request =
  pr_actor :: actor_ref
  pr_limit :: int
  pr_after :: string

record poll_result =
  po_end_offset :: string
  po_committed :: string
  po_messages :: "cmessage list"
  po_position :: string

record commit_request =
  cr_actor :: actor_ref
  cr_through :: string

section \<open>Harness calls\<close>

datatype call_phase =
    CallPending | CallStarting | CallRunning | CallWaitingInput
  | CallSucceeded | CallFailed | CallCancelled | CallUnknown | CallTimedOut

fun phase_terminal :: "call_phase \<Rightarrow> bool" where
  "phase_terminal CallSucceeded = True"
| "phase_terminal CallFailed = True"
| "phase_terminal CallCancelled = True"
| "phase_terminal CallUnknown = True"
| "phase_terminal CallTimedOut = True"
| "phase_terminal _ = False"

fun phase_str :: "call_phase \<Rightarrow> string" where
  "phase_str CallPending = ''pending''"
| "phase_str CallStarting = ''starting''"
| "phase_str CallRunning = ''running''"
| "phase_str CallWaitingInput = ''waiting_input''"
| "phase_str CallSucceeded = ''succeeded''"
| "phase_str CallFailed = ''failed''"
| "phase_str CallCancelled = ''cancelled''"
| "phase_str CallUnknown = ''unknown''"
| "phase_str CallTimedOut = ''timed_out''"

lemma phase_str_inj: "phase_str p = phase_str q \<longleftrightarrow> p = q"
  by (cases p; cases q) simp_all

record tool =
  tl_name :: string
  tl_description :: string
  tl_schema :: content

record harness_result =
  hr_format :: string
  hr_content :: content

record harness_call =
  hc_conv :: string
  hc_id :: string
  hc_effect :: string
  hc_target :: string
  hc_phase :: call_phase
  hc_result :: "harness_result option"
  hc_message :: string
  hc_deadline :: int
  hc_error :: string
  hc_created :: int
  hc_updated :: int

record harness_run_request =
  rr_conv :: string
  rr_idempotency :: string
  rr_effect :: string
  rr_target :: string
  rr_text :: string
  rr_tools :: "tool list"
  rr_actor :: "actor_ref option"
  rr_recipient :: actor_ref
  rr_timeout :: int
  rr_meta :: "json option"

abbreviation ResultBlockType :: string where "ResultBlockType \<equiv> ''result''"

definition text_result :: "string \<Rightarrow> harness_result" where
  "text_result t = \<lparr>hr_format = ''text'', hr_content = marshal (JStr t)\<rparr>"

definition result_validate :: "harness_result \<Rightarrow> unit result" where
  "result_validate r =
     (case c_val (hr_content r) of
        None \<Rightarrow> Inl (ErrText ''result content must be valid JSON'')
      | Some v \<Rightarrow>
          if hr_format r = ''json'' then Inr ()
          else if hr_format r = ''text''
             \<and> (v = JNull \<or> jstr (Some v) \<noteq> None) \<and> c_raw (hr_content r) \<noteq> ''null''
          then Inr ()
          else Inl (ErrText ''result format must be text with a string content, or json''))"

definition result_text :: "harness_result option \<Rightarrow> string" where
  "result_text r =
     (case r of
        None \<Rightarrow> []
      | Some r \<Rightarrow>
          if hr_format r = ''text''
          then (case c_val (hr_content r) of Some (JStr s) \<Rightarrow> s | _ \<Rightarrow> [])
          else c_raw (hr_content r))"

text \<open>
  \<^verbatim>\<open>Block\<close> decodes the content without \<^verbatim>\<open>UseNumber\<close>, so its numbers pass through
  \<^verbatim>\<open>float64\<close>: \<open>fl\<close> is the literal that \<^verbatim>\<open>encoding/json\<close> prints for the nearest float.
\<close>

fun num_map :: "(string \<Rightarrow> string) \<Rightarrow> json \<Rightarrow> json" where
  "num_map fl (JNum s) = JNum (fl s)"
| "num_map fl (JArr vs) = JArr (map (num_map fl) vs)"
| "num_map fl (JObj kvs) = JObj (map (\<lambda>(k, v). (k, num_map fl v)) kvs)"
| "num_map fl v = v"

definition result_block :: "(string \<Rightarrow> string) \<Rightarrow> harness_result \<Rightarrow> json result" where
  "result_block fl r =
     bindR (result_validate r) (\<lambda>_.
       Inr (JObj [(''content'', num_map fl (the (c_val (hr_content r)))),
                  (''format'', JStr (hr_format r)),
                  (''id'', JStr ''result''),
                  (''type'', JStr ResultBlockType)]))"

text \<open>One block decoded as \<^verbatim>\<open>struct { Type string; HarnessResult }\<close>.\<close>

definition block_result :: "json \<Rightarrow> (string \<times> harness_result) result" where
  "block_result b =
     (if \<not> is_struct b then Inl (ErrText ''json'')
      else bindR (jfield_str ''type'' b) (\<lambda>t.
           bindR (jfield_str ''format'' b) (\<lambda>f.
             Inr (t, \<lparr>hr_format = f,
                      hr_content = (case jget ''content'' b of
                                      Some v \<Rightarrow> marshal v | None \<Rightarrow> Content None [])\<rparr>))))"

fun extract_loop :: "harness_result option \<Rightarrow> json list \<Rightarrow> harness_result option result" where
  "extract_loop acc [] = Inr acc"
| "extract_loop acc (b # bs) =
     bindR (block_result b) (\<lambda>(t, r).
       if t \<noteq> ResultBlockType then extract_loop acc bs
       else if acc \<noteq> None then Inl (ErrText ''multiple result blocks'')
       else bindR (result_validate r) (\<lambda>_. extract_loop (Some r) bs))"

definition extract_result :: "content \<Rightarrow> harness_result option result" where
  "extract_result c = bindR (struct_blocks (c_val c)) (extract_loop None)"

section \<open>Human requests\<close>

abbreviation HumanPending :: string where "HumanPending \<equiv> ''pending''"
abbreviation HumanSuccess :: string where "HumanSuccess \<equiv> ''success''"
abbreviation HumanDismissed :: string where "HumanDismissed \<equiv> ''dismissed''"
abbreviation HumanTimeout :: string where "HumanTimeout \<equiv> ''timeout''"
abbreviation HumanFailure :: string where "HumanFailure \<equiv> ''failure''"

definition human_terminal :: "string \<Rightarrow> bool" where
  "human_terminal s \<longleftrightarrow> s \<noteq> HumanPending \<and> s \<noteq> []"

record human_choice =
  ch_value :: string
  ch_label :: string
  ch_description :: string

text \<open>\<open>hq_choices\<close> distinguishes a nil slice (\<open>None\<close>) from an explicit empty one.\<close>

record human_request =
  hq_conv :: string
  hq_actor :: actor_ref
  hq_target :: actor_ref
  hq_reply_to :: string
  hq_effect :: string
  hq_type :: string
  hq_title :: string
  hq_prompt :: string
  hq_timeout :: int
  hq_choices :: "human_choice list option"
  hq_allow_other :: bool
  hq_confirm :: string
  hq_decline :: string

definition choice_list :: "human_request \<Rightarrow> human_choice list" where
  "choice_list r = (case hq_choices r of None \<Rightarrow> [] | Some cs \<Rightarrow> cs)"

fun choices_ok :: "string list \<Rightarrow> human_choice list \<Rightarrow> bool" where
  "choices_ok seen [] = True"
| "choices_ok seen (c # cs) =
     (if blank (ch_value c) \<or> blank (ch_label c) \<or> ch_value c \<in> set seen then False
      else choices_ok (ch_value c # seen) cs)"

definition human_validate :: "human_request \<Rightarrow> unit result" where
  "human_validate r =
     (if blank (hq_conv r) \<or> blank (hq_effect r) \<or> blank (hq_title r) \<or> blank (hq_prompt r)
         \<or> hq_timeout r \<le> 0
      then Inl (ErrText ''conversation_id, effect_key, title, prompt and positive timeout are required'')
      else if \<not> ref_valid (hq_actor r) \<or> \<not> is_operator (ar_kind (hq_actor r))
         \<or> \<not> ref_valid (hq_target r) \<or> ar_kind (hq_target r) \<noteq> ActorKindUser
      then Inl (ErrText ''conversation Human request requires an operator sender and user recipient'')
      else if hq_type r = ''ask'' then
        (if hq_confirm r \<noteq> [] \<or> hq_decline r \<noteq> []
         then Inl (ErrText ''ask does not accept confirmation labels'')
         else if hq_choices r = Some [] \<or> (\<not> hq_allow_other r \<and> choice_list r = [])
         then Inl (ErrText ''ask requires choices or allow_other'')
         else if \<not> choices_ok [] (choice_list r)
         then Inl (ErrText ''choice values must be nonempty and unique; labels are required'')
         else Inr ())
      else if hq_type r = ''confirm'' then
        (if hq_choices r \<noteq> None \<or> hq_allow_other r
         then Inl (ErrText ''confirm accepts only accepted or declined'')
         else Inr ())
      else Inl (ErrText ''unknown Human action''))"

record human_reply =
  hy_reply_to :: string
  hy_outcome :: string
  hy_value :: string

definition validate_reply :: "human_request \<Rightarrow> human_reply \<Rightarrow> unit result" where
  "validate_reply r reply =
     (if hy_reply_to reply = [] then Inl (ErrText ''reply_to_id is required'')
      else if hy_outcome reply = HumanDismissed \<and> hy_value reply = [] then Inr ()
      else if hy_outcome reply \<noteq> HumanSuccess
      then Inl (ErrText ''reply must be success(value) or dismissed'')
      else if hq_type r = ''confirm'' then
        (if hy_value reply = ''accepted'' \<or> hy_value reply = ''declined'' then Inr ()
         else Inl (ErrText ''answer does not match the declared Human request''))
      else if hy_value reply \<in> ch_value ` set (choice_list r) then Inr ()
      else if hq_allow_other r \<and> \<not> blank (hy_value reply) then Inr ()
      else Inl (ErrText ''answer does not match the declared Human request''))"

text \<open>\<^verbatim>\<open>IsHumanReply\<close>: a content that does not decode is not a card answer.\<close>

definition is_human_reply :: "content \<Rightarrow> bool" where
  "is_human_reply c =
     (case bindR (struct_blocks (c_val c))
             (mapR (\<lambda>b. if is_struct b then jfield_str ''type'' b else Inl (ErrText ''json''))) of
        Inl _ \<Rightarrow> False
      | Inr types \<Rightarrow> ''human_reply'' \<in> set types)"

record human_block =
  hb_id :: string
  hb_type :: string
  hb_title :: string
  hb_prompt :: string
  hb_choices :: "human_choice list option"
  hb_allow_other :: bool
  hb_confirm :: string
  hb_decline :: string
  hb_status :: string
  hb_deadline :: int
  hb_reason :: string
  hb_selected :: "string option"

record human_result =
  hs_message :: cmessage
  hs_reply :: "cmessage option"
  hs_status :: string
  hs_value :: string
  hs_reason :: string
  hs_deadline :: int

section \<open>Facts\<close>

lemma choices_ok_iff:
  "choices_ok seen cs \<longleftrightarrow>
     distinct (map ch_value cs) \<and> ch_value ` set cs \<inter> set seen = {}
     \<and> (\<forall>c \<in> set cs. \<not> blank (ch_value c) \<and> \<not> blank (ch_label c))"
  by (induction cs arbitrary: seen) auto

lemma validate_reply_success_value:
  assumes "validate_reply r y = Inr u" and "hy_outcome y = HumanSuccess"
  shows "hq_type r = ''confirm'' \<and> hy_value y \<in> {''accepted'', ''declined''}
       \<or> hq_type r \<noteq> ''confirm'' \<and> (hy_value y \<in> ch_value ` set (choice_list r)
           \<or> hq_allow_other r \<and> \<not> blank (hy_value y))"
  using assms by (auto simp: validate_reply_def split: if_splits)

lemma validate_reply_outcome:
  "validate_reply r y = Inr u \<Longrightarrow> hy_outcome y = HumanSuccess \<or> hy_outcome y = HumanDismissed"
  by (auto simp: validate_reply_def split: if_splits)

lemma validate_reply_terminal: "validate_reply r y = Inr u \<Longrightarrow> human_terminal (hy_outcome y)"
  using validate_reply_outcome by (fastforce simp: human_terminal_def)

lemma result_validate_val: "result_validate r = Inr u \<Longrightarrow> \<exists>v. c_val (hr_content r) = Some v"
  by (auto simp: result_validate_def split: option.splits)

lemma extract_loop_no_result:
  assumes "\<And>b. b \<in> set bs \<Longrightarrow> \<exists>t r. block_result b = Inr (t, r) \<and> t \<noteq> ResultBlockType"
  shows "extract_loop acc bs = Inr acc"
  using assms by (induction bs) force+

lemma extract_loop_append:
  "extract_loop acc (xs @ ys) = bindR (extract_loop acc xs) (\<lambda>a. extract_loop a ys)"
proof (induction xs arbitrary: acc)
  case (Cons b bs)
  show ?case
  proof (cases "block_result b")
    case (Inr p)
    obtain t r where p: "p = (t, r)" by (cases p)
    show ?thesis
      by (cases "result_validate r") (simp_all add: Inr p Cons)
  qed simp
qed simp

end
