(* ===== verification/HumanDomain.thy ===== *)
theory HumanDomain
  imports Contract
begin

text \<open>
  The state machine of one Human question (\<^verbatim>\<open>server/internal/domain/human.go\<close>): it is
  created pending with a deadline, times out at the deadline, and is resolved by at most
  one reply.
\<close>

section \<open>The question\<close>

record human_question =
  qn_request :: human_request
  qn_status :: string
  qn_deadline :: int
  qn_reason :: string

record human_answer =
  an_actor :: string
  an_outcome :: string
  an_value :: string

definition new_human_question :: "human_request \<Rightarrow> int \<Rightarrow> human_question" where
  "new_human_question r now =
     \<lparr>qn_request = r, qn_status = HumanPending, qn_deadline = now + hq_timeout r, qn_reason = []\<rparr>"

text \<open>\<^verbatim>\<open>Expire\<close> updates the receiver in place and reports whether it did.\<close>

definition expire :: "int \<Rightarrow> human_question \<Rightarrow> human_question \<times> bool" where
  "expire now q =
     (if qn_status q \<noteq> HumanPending \<or> now < qn_deadline q then (q, False)
      else (q\<lparr>qn_status := HumanTimeout\<rparr>, True))"

definition resolve ::
    "human_reply \<Rightarrow> string \<Rightarrow> human_answer option \<Rightarrow> human_question
     \<Rightarrow> (human_question \<times> bool) result" where
  "resolve reply actor previous q =
     bindR (validate_reply (qn_request q) reply) (\<lambda>_.
       if qn_status q \<noteq> HumanPending then
         (case previous of
            Some p \<Rightarrow>
              if an_actor p = actor \<and> an_outcome p = hy_outcome reply \<and> an_value p = hy_value reply
              then Inr (q, False) else Inl ErrHumanConflict
          | None \<Rightarrow> Inl ErrHumanConflict)
       else Inr (q\<lparr>qn_status := hy_outcome reply\<rparr>, True))"

section \<open>Steps and reachable questions\<close>

text \<open>
  The repository calls \<^verbatim>\<open>Resolve\<close> after \<^verbatim>\<open>Expire\<close> in one transaction. A step is a clock
  reading with an expiry, or an expiry followed by an accepted reply.
\<close>

inductive question_step :: "human_question \<Rightarrow> human_question \<Rightarrow> bool" where
  expiry: "expire now q = (q', b) \<Longrightarrow> question_step q q'"
| reply: "expire now q = (q1, b) \<Longrightarrow> resolve r actor prev q1 = Inr (q', c) \<Longrightarrow> question_step q q'"

inductive_cases question_stepE: "question_step q q'"

inductive question_run :: "human_question \<Rightarrow> human_question \<Rightarrow> bool" for q0 where
  start: "question_run q0 q0"
| step: "question_run q0 q \<Longrightarrow> question_step q q' \<Longrightarrow> question_run q0 q'"

lemma expire_cases:
  "expire now q = (q', b) \<Longrightarrow>
     (q' = q \<and> \<not> b) \<or>
     (b \<and> qn_status q = HumanPending \<and> qn_deadline q \<le> now \<and> q' = q\<lparr>qn_status := HumanTimeout\<rparr>)"
  by (auto simp: expire_def split: if_splits)

lemma resolve_cases:
  "resolve r a p q = Inr (q', c) \<Longrightarrow>
     (q' = q \<and> \<not> c \<and> qn_status q \<noteq> HumanPending) \<or>
     (c \<and> qn_status q = HumanPending \<and> q' = q\<lparr>qn_status := hy_outcome r\<rparr>
        \<and> validate_reply (qn_request q) r = Inr ())"
  by (auto simp: resolve_def bindR_eq_Inr split: if_splits option.splits)

lemma question_step_frozen:
  assumes "question_step q q'"
  shows "qn_request q' = qn_request q \<and> qn_deadline q' = qn_deadline q"
  using assms by cases (auto dest!: expire_cases resolve_cases)

lemma question_step_terminal:
  assumes "question_step q q'" and "qn_status q \<noteq> HumanPending"
  shows "q' = q"
  using assms by cases (auto dest!: expire_cases resolve_cases)

lemma question_step_status:
  assumes "question_step q q'" and "qn_status q = HumanPending"
  shows "qn_status q' \<in> {HumanPending, HumanTimeout, HumanSuccess, HumanDismissed}"
  using assms
  by cases (auto dest!: expire_cases resolve_cases dest: validate_reply_outcome)

lemma question_run_frozen:
  "question_run q0 q \<Longrightarrow> qn_request q = qn_request q0 \<and> qn_deadline q = qn_deadline q0"
  by (induction rule: question_run.induct) (auto dest: question_step_frozen)

lemma question_run_status:
  assumes "question_run (new_human_question r now) q"
  shows "qn_status q \<in> {HumanPending, HumanTimeout, HumanSuccess, HumanDismissed}"
  using assms
proof (induction rule: question_run.induct)
  case start
  then show ?case by (simp add: new_human_question_def)
next
  case (step q q')
  then show ?case
    by (cases "qn_status q = HumanPending") (auto dest: question_step_status question_step_terminal)
qed

lemma question_run_terminal:
  "question_run q0 q \<Longrightarrow> qn_status q0 \<noteq> HumanPending \<Longrightarrow> q = q0"
  by (induction rule: question_run.induct) (auto dest: question_step_terminal)

lemma question_run_trans:
  "question_run q1 q2 \<Longrightarrow> question_run q0 q1 \<Longrightarrow> question_run q0 q2"
  by (induction rule: question_run.induct) (auto intro: question_run.step)

end
