(* ===== verification/Store.thy ===== *)
theory Store
  imports HumanDomain
begin

text \<open>
  The persisted state of the server (\<^verbatim>\<open>server/internal/model\<close>): one record per table row and
  one list per table, with the insertions, lookups and updates the repository issues. A
  transaction is a function of the store that returns an error or the new store, so a
  failed transaction changes nothing.

  The record \<open>env\<close> holds what the code takes from outside the repository: the AgentUE
  \<^verbatim>\<open>ui\<close> and \<^verbatim>\<open>storage\<close> packages, the UUID generator, the SHA-256 digest, and the
  standard library's textual forms of floats, times and errors. The clock is
  an argument \<open>now\<close> of every operation that reads it, in nanoseconds. Counters declared
  \<^verbatim>\<open>uint64\<close> are natural numbers.
\<close>

section \<open>Parameters\<close>

datatype ui_op = OpStart | OpSet | OpAppend | OpEnd | OpPing | OpOther string

record event =
  ev_op :: ui_op
  ev_seq :: nat
  ev_mask :: string
  ev_block :: "json option"
  ev_meta :: "json option"
  ev_timestamp :: "int option"
  ev_stream :: string

definition no_event :: event where
  "no_event = \<lparr>ev_op = OpSet, ev_seq = 0, ev_mask = [], ev_block = None, ev_meta = None,
     ev_timestamp = None, ev_stream = []\<rparr>"

record env =
  e_sha :: "string \<Rightarrow> string"
  e_uuid :: "nat \<Rightarrow> string"
  e_valid_model :: "json \<Rightarrow> bool"
  e_valid_block :: "json \<Rightarrow> bool"
  e_apply :: "json \<Rightarrow> event \<Rightarrow> json result"
  e_marshal :: "event \<Rightarrow> string result"
  e_parse :: "content \<Rightarrow> event result"
  e_start :: "content \<Rightarrow> nat \<Rightarrow> event result"
  e_end :: "nat \<Rightarrow> event"
  e_frame :: "json \<Rightarrow> nat \<Rightarrow> json list result"
  e_unframe :: "json list \<Rightarrow> json result"
  e_frame_type :: string
  e_version :: string
  e_float :: "string \<Rightarrow> string"
  e_err_text :: "err \<Rightarrow> string"
  e_time :: "int \<Rightarrow> string"
  e_untime :: "string \<Rightarrow> int option"

text \<open>\<^verbatim>\<open>uuid.V7\<close> identifiers are distinct and ordered by the time they were drawn.\<close>

definition uuid_ok :: "env \<Rightarrow> bool" where
  "uuid_ok e \<longleftrightarrow> (\<forall>i j. i < j \<longrightarrow> e_uuid e i < e_uuid e j)"

lemma uuid_ok_less: "uuid_ok e \<Longrightarrow> i < j \<Longrightarrow> e_uuid e i < e_uuid e j"
  by (simp add: uuid_ok_def)

lemma uuid_ok_eq: "uuid_ok e \<Longrightarrow> e_uuid e i = e_uuid e j \<longleftrightarrow> i = j"
  by (metis less_irrefl linorder_neqE_nat uuid_ok_less)

section \<open>Rows\<close>

record conversation =
  cv_id :: string
  cv_name :: string
  cv_actor :: actor_ref
  cv_parent :: "string option"
  cv_created :: int
  cv_updated :: int

record message =
  m_id :: string
  m_conv :: string
  m_task :: string
  m_source :: actor_ref
  m_target :: actor_ref
  m_status :: string
  m_dispatch :: bool
  m_output_key :: "string option"
  m_reply_to :: string
  m_revision :: nat
  m_human_due :: "int option"
  m_wake :: bool
  m_content :: content
  m_created :: int
  m_updated :: int

definition new_message :: message where
  "new_message = \<lparr>m_id = [], m_conv = [], m_task = [], m_source = no_actor, m_target = no_actor,
     m_status = [], m_dispatch = False, m_output_key = None, m_reply_to = [], m_revision = 0,
     m_human_due = None, m_wake = False, m_content = Content None [], m_created = 0, m_updated = 0\<rparr>"

record message_part =
  p_id :: string
  p_message :: string
  p_group :: string
  p_content :: content
  p_size :: nat

record harness_run =
  hn_id :: string
  hn_conv :: string
  hn_message :: string
  hn_effect :: string
  hn_request :: harness_run_request
  hn_request_hash :: string
  hn_submission_key :: string
  hn_target :: string
  hn_phase :: call_phase
  hn_exec_ref :: string
  hn_replay_hash :: string
  hn_checkpoint :: nat
  hn_error :: string
  hn_deadline :: int
  hn_next_attempt :: int
  hn_cancel :: bool
  hn_created :: int
  hn_updated :: int

record resource_lock =
  rl_resource :: string
  rl_locker :: string
  rl_expires :: int
  rl_updated :: int

record registration =
  rg_id :: string
  rg_key :: string
  rg_name :: string
  rg_description :: string
  rg_expires :: int
  rg_created :: int
  rg_updated :: int

record store =
  st_convs :: "conversation list"
  st_msgs :: "message list"
  st_parts :: "message_part list"
  st_runs :: "harness_run list"
  st_locks :: "resource_lock list"
  st_operators :: "registration list"
  st_harnesses :: "registration list"
  st_uuid :: nat

definition empty_store :: store where
  "empty_store = \<lparr>st_convs = [], st_msgs = [], st_parts = [], st_runs = [], st_locks = [],
     st_operators = [], st_harnesses = [], st_uuid = 0\<rparr>"

text \<open>
  The store's configuration: \<^verbatim>\<open>messageInlineBlocks\<close>, \<^verbatim>\<open>contentMaxBytes\<close>, and whether the
  database counts only changed rows as affected (MySQL) or every matched row (SQLite).
\<close>

record config =
  cf_inline :: nat
  cf_max :: nat
  cf_changed_rows :: bool

definition fresh_id :: "env \<Rightarrow> store \<Rightarrow> string" where
  "fresh_id e s = e_uuid e (st_uuid s)"

definition draw :: "store \<Rightarrow> store" where
  "draw s = s\<lparr>st_uuid := Suc (st_uuid s)\<rparr>"

section \<open>Database errors\<close>

definition map_error :: "err \<Rightarrow> err" where
  "map_error er = (case er of GormNotFound \<Rightarrow> ErrNotFound | GormDuplicated \<Rightarrow> ErrConflict | _ \<Rightarrow> er)"

definition mapped :: "'a result \<Rightarrow> 'a result" where
  "mapped r = (case r of Inl er \<Rightarrow> Inl (map_error er) | Inr x \<Rightarrow> Inr x)"

lemma mapped_Inr [simp]: "mapped (Inr x) = Inr x"
  by (simp add: mapped_def)

lemma mapped_Inl [simp]: "mapped (Inl er) = Inl (map_error er)"
  by (simp add: mapped_def)

lemma mapped_eq_Inr [simp, run_simps]: "mapped r = Inr x \<longleftrightarrow> r = Inr x"
  by (cases r) auto

section \<open>Access to the tables\<close>

definition get_conv :: "string \<Rightarrow> store \<Rightarrow> conversation option" where
  "get_conv i s = tbl_find cv_id i (st_convs s)"

definition get_msg :: "string \<Rightarrow> store \<Rightarrow> message option" where
  "get_msg i s = tbl_find m_id i (st_msgs s)"

definition put_msg :: "message \<Rightarrow> store \<Rightarrow> store" where
  "put_msg m s = s\<lparr>st_msgs := tbl_put m_id m (st_msgs s)\<rparr>"

definition get_run :: "string \<Rightarrow> store \<Rightarrow> harness_run option" where
  "get_run i s = tbl_find hn_id i (st_runs s)"

definition put_run :: "harness_run \<Rightarrow> store \<Rightarrow> store" where
  "put_run r s = s\<lparr>st_runs := tbl_put hn_id r (st_runs s)\<rparr>"

definition get_lock :: "string \<Rightarrow> store \<Rightarrow> resource_lock option" where
  "get_lock i s = tbl_find rl_resource i (st_locks s)"

definition put_lock :: "resource_lock \<Rightarrow> store \<Rightarrow> store" where
  "put_lock l s = s\<lparr>st_locks := tbl_put rl_resource l (st_locks s)\<rparr>"

text \<open>
  Insertions respect the unique indexes of the schema. \<^verbatim>\<open>Create\<close> fills the column defaults
  (status \<^verbatim>\<open>completed\<close>, revision 1) and the timestamps of a row that does not set them.
\<close>

definition insert_conv :: "int \<Rightarrow> conversation \<Rightarrow> store \<Rightarrow> store result" where
  "insert_conv now c s =
     (if get_conv (cv_id c) s \<noteq> None
        \<or> (cv_parent c \<noteq> None
           \<and> (\<exists>d \<in> set (st_convs s). cv_parent d = cv_parent c \<and> cv_actor d = cv_actor c))
      then Inl GormDuplicated
      else Inr (s\<lparr>st_convs := st_convs s @ [c\<lparr>cv_created := now, cv_updated := now\<rparr>]\<rparr>))"

definition message_defaults :: "int \<Rightarrow> message \<Rightarrow> message" where
  "message_defaults now m =
     m\<lparr>m_status := (if m_status m = [] then MessageStatusCompleted else m_status m),
       m_revision := (if m_revision m = 0 then 1 else m_revision m),
       m_created := (if m_created m = 0 then now else m_created m),
       m_updated := (if m_updated m = 0 then now else m_updated m)\<rparr>"

definition insert_msg :: "message \<Rightarrow> store \<Rightarrow> store result" where
  "insert_msg m s =
     (if get_msg (m_id m) s \<noteq> None
        \<or> (m_output_key m \<noteq> None \<and> (\<exists>x \<in> set (st_msgs s). m_output_key x = m_output_key m))
      then Inl GormDuplicated
      else Inr (s\<lparr>st_msgs := st_msgs s @ [m]\<rparr>))"

definition insert_part :: "message_part \<Rightarrow> store \<Rightarrow> store result" where
  "insert_part p s =
     (if p_id p \<in> p_id ` set (st_parts s) then Inl GormDuplicated
      else Inr (s\<lparr>st_parts := st_parts s @ [p]\<rparr>))"

definition insert_run :: "int \<Rightarrow> harness_run \<Rightarrow> store \<Rightarrow> store result" where
  "insert_run now r s =
     (if \<exists>x \<in> set (st_runs s). hn_id x = hn_id r \<or> hn_message x = hn_message r
           \<or> hn_submission_key x = hn_submission_key r
      then Inl GormDuplicated
      else Inr (s\<lparr>st_runs := st_runs s @ [r\<lparr>hn_created := now, hn_updated := now\<rparr>]\<rparr>))"

interpretation msgs: row_store get_msg put_msg m_id
  by unfold_locales (auto simp: get_msg_def put_msg_def tbl_find_put dest: tbl_find_key)

interpretation runs: row_store get_run put_run hn_id
  by unfold_locales (auto simp: get_run_def put_run_def tbl_find_put dest: tbl_find_key)

interpretation locks: row_store get_lock put_lock rl_resource
  by unfold_locales (auto simp: get_lock_def put_lock_def tbl_find_put dest: tbl_find_key)

section \<open>Frame facts\<close>

text \<open>Which tables an update leaves alone.\<close>

named_theorems frame_simps "unchanged parts of the store"

lemma get_msg_frame [frame_simps, simp]:
  "get_msg i (put_run r s) = get_msg i s" "get_msg i (put_lock l s) = get_msg i s"
  "get_msg i (draw s) = get_msg i s" "get_msg i (s\<lparr>st_parts := ps\<rparr>) = get_msg i s"
  "get_msg i (s\<lparr>st_convs := cs\<rparr>) = get_msg i s" "get_msg i (s\<lparr>st_runs := rs\<rparr>) = get_msg i s"
  "get_msg i (s\<lparr>st_uuid := n\<rparr>) = get_msg i s" "get_msg i (s\<lparr>st_locks := ls\<rparr>) = get_msg i s"
  by (simp_all add: get_msg_def put_run_def put_lock_def draw_def)

lemma get_run_frame [frame_simps, simp]:
  "get_run i (put_msg m s) = get_run i s" "get_run i (put_lock l s) = get_run i s"
  "get_run i (draw s) = get_run i s" "get_run i (s\<lparr>st_parts := ps\<rparr>) = get_run i s"
  "get_run i (s\<lparr>st_convs := cs\<rparr>) = get_run i s" "get_run i (s\<lparr>st_msgs := ms\<rparr>) = get_run i s"
  "get_run i (s\<lparr>st_uuid := n\<rparr>) = get_run i s" "get_run i (s\<lparr>st_locks := ls\<rparr>) = get_run i s"
  by (simp_all add: get_run_def put_msg_def put_lock_def draw_def)

lemma get_lock_frame [frame_simps, simp]:
  "get_lock i (put_msg m s) = get_lock i s" "get_lock i (put_run r s) = get_lock i s"
  "get_lock i (draw s) = get_lock i s" "get_lock i (s\<lparr>st_parts := ps\<rparr>) = get_lock i s"
  "get_lock i (s\<lparr>st_convs := cs\<rparr>) = get_lock i s" "get_lock i (s\<lparr>st_msgs := ms\<rparr>) = get_lock i s"
  "get_lock i (s\<lparr>st_uuid := n\<rparr>) = get_lock i s" "get_lock i (s\<lparr>st_runs := rs\<rparr>) = get_lock i s"
  by (simp_all add: get_lock_def put_msg_def put_run_def draw_def)

lemma get_conv_frame [frame_simps, simp]:
  "get_conv i (put_msg m s) = get_conv i s" "get_conv i (put_run r s) = get_conv i s"
  "get_conv i (put_lock l s) = get_conv i s" "get_conv i (draw s) = get_conv i s"
  "get_conv i (s\<lparr>st_parts := ps\<rparr>) = get_conv i s" "get_conv i (s\<lparr>st_msgs := ms\<rparr>) = get_conv i s"
  "get_conv i (s\<lparr>st_runs := rs\<rparr>) = get_conv i s" "get_conv i (s\<lparr>st_uuid := n\<rparr>) = get_conv i s"
  by (simp_all add: get_conv_def put_msg_def put_run_def put_lock_def draw_def)

lemma put_msg_fields [simp]:
  "st_convs (put_msg m s) = st_convs s" "st_parts (put_msg m s) = st_parts s"
  "st_runs (put_msg m s) = st_runs s" "st_locks (put_msg m s) = st_locks s"
  "st_uuid (put_msg m s) = st_uuid s"
  by (simp_all add: put_msg_def)

lemma put_run_fields [simp]:
  "st_convs (put_run r s) = st_convs s" "st_parts (put_run r s) = st_parts s"
  "st_msgs (put_run r s) = st_msgs s" "st_locks (put_run r s) = st_locks s"
  "st_uuid (put_run r s) = st_uuid s"
  by (simp_all add: put_run_def)

lemma get_msg_append:
  "get_msg i (s\<lparr>st_msgs := st_msgs s @ [m]\<rparr>) =
     (case get_msg i s of Some x \<Rightarrow> Some x | None \<Rightarrow> if m_id m = i then Some m else None)"
  by (simp add: get_msg_def tbl_find_append split: option.splits)

lemma insert_msg_get:
  "insert_msg m s = Inr s' \<Longrightarrow>
     get_msg i s' = (if i = m_id m then Some m else get_msg i s) \<and> get_msg (m_id m) s = None"
  by (auto simp: insert_msg_def get_msg_append split: if_splits option.splits)

lemma insert_msg_frame:
  assumes "insert_msg m s = Inr s'"
  shows "st_parts s' = st_parts s" "st_runs s' = st_runs s" "st_convs s' = st_convs s"
    "st_locks s' = st_locks s" "st_uuid s' = st_uuid s" "st_msgs s' = st_msgs s @ [m]"
  using assms by (auto simp: insert_msg_def split: if_splits)

lemma insert_run_get:
  assumes "insert_run now r s = Inr s'"
  shows "get_run i s' = (if i = hn_id r then Some (r\<lparr>hn_created := now, hn_updated := now\<rparr>)
                         else get_run i s)"
proof -
  from assms have s': "s' = s\<lparr>st_runs := st_runs s @ [r\<lparr>hn_created := now, hn_updated := now\<rparr>]\<rparr>"
    and "\<forall>x \<in> set (st_runs s). hn_id x \<noteq> hn_id r"
    by (auto simp: insert_run_def split: if_splits)
  then have "tbl_find hn_id (hn_id r) (st_runs s) = None"
    by (auto simp: tbl_find_None)
  with s' show ?thesis
    by (auto simp: get_run_def tbl_find_append split: option.splits)
qed

lemma insert_run_frame:
  assumes "insert_run now r s = Inr s'"
  shows "st_msgs s' = st_msgs s" "st_parts s' = st_parts s" "st_convs s' = st_convs s"
    "st_locks s' = st_locks s" "st_uuid s' = st_uuid s"
    "st_runs s' = st_runs s @ [r\<lparr>hn_created := now, hn_updated := now\<rparr>]"
  using assms by (auto simp: insert_run_def split: if_splits)

lemma insert_conv_frame:
  assumes "insert_conv now c s = Inr s'"
  shows "st_msgs s' = st_msgs s" "st_parts s' = st_parts s" "st_runs s' = st_runs s"
    "st_locks s' = st_locks s" "st_uuid s' = st_uuid s"
    "st_convs s' = st_convs s @ [c\<lparr>cv_created := now, cv_updated := now\<rparr>]"
  using assms by (auto simp: insert_conv_def split: if_splits)

lemma get_msg_cong: "st_msgs s' = st_msgs s \<Longrightarrow> get_msg i s' = get_msg i s"
  by (simp add: get_msg_def)

lemma get_run_cong: "st_runs s' = st_runs s \<Longrightarrow> get_run i s' = get_run i s"
  by (simp add: get_run_def)

lemma get_conv_cong: "st_convs s' = st_convs s \<Longrightarrow> get_conv i s' = get_conv i s"
  by (simp add: get_conv_def)

end
