(* ===== verification/Locks.thy ===== *)
theory Locks
  imports Store
begin

text \<open>
  Renewable resource leases (\<^verbatim>\<open>server/internal/repo/resource_lock.go\<close>): each SQL statement is
  a function of the store, \<open>acquire\<close>, \<open>renew\<close> and \<open>unlock\<close> compose them as the code does,
  and \<open>fence\<close> is the check every protected transaction starts with. The statements of one \<open>acquire\<close> run
  without others between them; its locker identifier is new, so no other statement names it.
\<close>

section \<open>Tokens and statements\<close>

record token =
  tk_resource :: string
  tk_locker :: string
  tk_ttl :: int

text \<open>\<^verbatim>\<open>UPDATE resource_locks ... WHERE resource = ? AND expires_at <= ?\<close>: the new store and the number of rows.\<close>

definition lock_takeover :: "int \<Rightarrow> token \<Rightarrow> store \<Rightarrow> store \<times> nat" where
  "lock_takeover now t s =
     (case get_lock (tk_resource t) s of
        Some l \<Rightarrow>
          if rl_expires l \<le> now
          then (put_lock (l\<lparr>rl_locker := tk_locker t, rl_expires := now + tk_ttl t, rl_updated := now\<rparr>) s, 1)
          else (s, 0)
      | None \<Rightarrow> (s, 0))"

text \<open>\<^verbatim>\<open>INSERT ... ON CONFLICT DO NOTHING\<close>.\<close>

definition lock_insert :: "int \<Rightarrow> token \<Rightarrow> store \<Rightarrow> store" where
  "lock_insert now t s =
     (case get_lock (tk_resource t) s of
        Some _ \<Rightarrow> s
      | None \<Rightarrow> s\<lparr>st_locks := st_locks s @
          [\<lparr>rl_resource = tk_resource t, rl_locker = tk_locker t,
            rl_expires = now + tk_ttl t, rl_updated = now\<rparr>]\<rparr>)"

definition lock_holds :: "token \<Rightarrow> store \<Rightarrow> bool" where
  "lock_holds t s =
     (case get_lock (tk_resource t) s of Some l \<Rightarrow> rl_locker l = tk_locker t | None \<Rightarrow> False)"

definition acquire :: "env \<Rightarrow> int \<Rightarrow> string \<Rightarrow> int \<Rightarrow> store \<Rightarrow> (token \<times> store) result" where
  "acquire e now resource ttl s =
     (if resource = [] \<or> ttl < 3000000
      then Inl (ErrText ''resource and lease TTL >= 3ms required'')
      else
        let t = \<lparr>tk_resource = resource, tk_locker = fresh_id e s, tk_ttl = ttl\<rparr>;
            s0 = draw s;
            (s1, n) = lock_takeover now t s0
        in if n = 1 then Inr (t, s1)
           else let s2 = lock_insert now t s1
                in if lock_holds t s2 then Inr (t, s2) else Inl ErrLocked)"

text \<open>A token is live when its row names it and has not expired.\<close>

definition lease_live :: "token \<Rightarrow> int \<Rightarrow> store \<Rightarrow> bool" where
  "lease_live t now s =
     (case get_lock (tk_resource t) s of
        Some l \<Rightarrow> rl_locker l = tk_locker t \<and> now < rl_expires l
      | None \<Rightarrow> False)"

text \<open>
  \<^verbatim>\<open>Renew\<close>. MySQL counts the rows that changed: a renewal that writes the values the row has is lost.
\<close>

definition renew :: "config \<Rightarrow> int \<Rightarrow> token \<Rightarrow> store \<Rightarrow> store result" where
  "renew cf now t s =
     (case get_lock (tk_resource t) s of
        Some l \<Rightarrow>
          if rl_locker l = tk_locker t \<and> now < rl_expires l
             \<and> \<not> (cf_changed_rows cf \<and> rl_expires l = now + tk_ttl t \<and> rl_updated l = now)
          then Inr (put_lock (l\<lparr>rl_expires := now + tk_ttl t, rl_updated := now\<rparr>) s)
          else Inl ErrLost
      | None \<Rightarrow> Inl ErrLost)"

definition unlock :: "token \<Rightarrow> store \<Rightarrow> store" where
  "unlock t s =
     s\<lparr>st_locks := filter (\<lambda>l. \<not> (rl_resource l = tk_resource t \<and> rl_locker l = tk_locker t)) (st_locks s)\<rparr>"

text \<open>
  \<^verbatim>\<open>fence\<close> writes \<^verbatim>\<open>updated_at\<close> to take the row lock. MySQL reports no affected row when the
  value does not change, which is why the code counts the row again.
\<close>

definition fence_touch :: "config \<Rightarrow> int \<Rightarrow> token \<Rightarrow> store \<Rightarrow> store \<times> nat" where
  "fence_touch cf now t s =
     (case get_lock (tk_resource t) s of
        Some l \<Rightarrow>
          if rl_locker l = tk_locker t \<and> now < rl_expires l
          then (put_lock (l\<lparr>rl_updated := now\<rparr>) s,
                if cf_changed_rows cf \<and> rl_updated l = now then 0 else 1)
          else (s, 0)
      | None \<Rightarrow> (s, 0))"

definition fence_count :: "int \<Rightarrow> token \<Rightarrow> store \<Rightarrow> nat" where
  "fence_count now t s =
     length (filter (\<lambda>l. rl_resource l = tk_resource t \<and> rl_locker l = tk_locker t \<and> now < rl_expires l)
       (st_locks s))"

definition fence :: "config \<Rightarrow> int \<Rightarrow> token \<Rightarrow> store \<Rightarrow> store result" where
  "fence cf now t s =
     (let (s1, n) = fence_touch cf now t s
      in if n = 0 \<and> fence_count now t s1 \<noteq> 1 then Inl ErrLost else Inr s1)"

section \<open>The lock table\<close>

text \<open>The primary key of the table: one row per resource.\<close>

definition locks_keyed :: "store \<Rightarrow> bool" where
  "locks_keyed s \<longleftrightarrow> distinct (map rl_resource (st_locks s))"

lemma get_lock_Some_mem: "get_lock r s = Some l \<Longrightarrow> l \<in> set (st_locks s) \<and> rl_resource l = r"
  by (auto simp: get_lock_def dest: tbl_find_mem tbl_find_key)

lemma locks_keyed_put [simp]: "locks_keyed (put_lock l s) = locks_keyed s"
  by (simp add: locks_keyed_def put_lock_def)

lemma locks_keyed_draw [simp]: "locks_keyed (draw s) = locks_keyed s"
  by (simp add: locks_keyed_def draw_def)

lemma get_lock_insert:
  "get_lock r (lock_insert now t s) =
     (case get_lock r s of
        Some l \<Rightarrow> Some l
      | None \<Rightarrow> if r = tk_resource t
               then Some \<lparr>rl_resource = r, rl_locker = tk_locker t, rl_expires = now + tk_ttl t, rl_updated = now\<rparr>
               else None)"
  by (auto simp: lock_insert_def get_lock_def tbl_find_append split: option.splits)

lemma locks_keyed_insert: "locks_keyed s \<Longrightarrow> locks_keyed (lock_insert now t s)"
  by (auto simp: lock_insert_def locks_keyed_def get_lock_def tbl_find_None split: option.splits)

lemma locks_keyed_unlock: "locks_keyed s \<Longrightarrow> locks_keyed (unlock t s)"
  by (auto simp: locks_keyed_def unlock_def distinct_map inj_on_def)

lemma fence_count_live:
  assumes "locks_keyed s"
  shows "fence_count now t s = (if lease_live t now s then 1 else 0)"
proof -
  let ?P = "\<lambda>l. rl_resource l = tk_resource t \<and> rl_locker l = tk_locker t \<and> now < rl_expires l"
  have "length (filter ?P ls) =
      (case tbl_find rl_resource (tk_resource t) ls of
         Some l \<Rightarrow> if rl_locker l = tk_locker t \<and> now < rl_expires l then 1 else 0 | None \<Rightarrow> 0)"
    if "distinct (map rl_resource ls)" for ls
    using that
  proof (induction ls)
    case (Cons l ls)
    have "filter ?P ls = []" if "rl_resource l = tk_resource t"
      using Cons.prems that by (auto simp: filter_empty_conv image_iff)
    then show ?case using Cons by auto
  qed simp
  from this [of "st_locks s"] assms show ?thesis
    by (auto simp: fence_count_def lease_live_def get_lock_def locks_keyed_def split: option.splits)
qed

text \<open>
  The result of \<open>fence\<close> does not depend on how the database counts affected rows: it is
  the liveness of the token.
\<close>

lemma fence_touch_cases:
  assumes "fence_touch cf now t s = (s1, n)"
  obtains (dead) "\<not> lease_live t now s" "s1 = s" "n = 0"
  | (live) l where "lease_live t now s" "get_lock (tk_resource t) s = Some l"
      "rl_resource l = tk_resource t" "s1 = put_lock (l\<lparr>rl_updated := now\<rparr>) s"
  using assms
  by (cases "get_lock (tk_resource t) s")
    (auto simp: fence_touch_def lease_live_def dest: locks.find_key split: if_splits)

lemma fence_touch_live:
  assumes "fence_touch cf now t s = (s1, n)"
  shows "lease_live t now s1 = lease_live t now s" and "n \<noteq> 0 \<Longrightarrow> lease_live t now s"
    and "locks_keyed s1 = locks_keyed s"
  using assms
  by (auto elim!: fence_touch_cases simp: lease_live_def locks.find_put split: option.splits)

lemma fence_iff_live:
  assumes "locks_keyed s"
  shows "(\<exists>s'. fence cf now t s = Inr s') \<longleftrightarrow> lease_live t now s"
proof -
  obtain s1 n where p: "fence_touch cf now t s = (s1, n)" by (cases "fence_touch cf now t s")
  note f = fence_touch_live [OF p]
  have "fence_count now t s1 = (if lease_live t now s then 1 else 0)"
    using fence_count_live [of s1 now t] f(1,3) assms by simp
  then show ?thesis using f(2) by (auto simp: fence_def p)
qed

lemma fence_live: "locks_keyed s \<Longrightarrow> fence cf now t s = Inr s' \<Longrightarrow> lease_live t now s"
  using fence_iff_live by blast

lemma fence_store:
  assumes "fence cf now t s = Inr s'"
  shows "st_convs s' = st_convs s" "st_msgs s' = st_msgs s" "st_parts s' = st_parts s"
    "st_runs s' = st_runs s" "st_uuid s' = st_uuid s" "locks_keyed s' = locks_keyed s"
  using assms
  by (auto simp: fence_def fence_touch_def put_lock_def locks_keyed_def split: option.splits if_splits prod.splits)

section \<open>Lost leases stay lost\<close>

text \<open>A run of timed steps: the clock never goes back.\<close>

inductive timed_run :: "(int \<Rightarrow> 's \<Rightarrow> 's \<Rightarrow> bool) \<Rightarrow> int \<times> 's \<Rightarrow> int \<times> 's \<Rightarrow> bool" for step where
  start: "timed_run step (now, s) (now, s)"
| wait: "timed_run step c (now, s) \<Longrightarrow> now \<le> now' \<Longrightarrow> timed_run step c (now', s)"
| step: "timed_run step c (now, s) \<Longrightarrow> step now s s' \<Longrightarrow> timed_run step c (now, s')"

text \<open>
  What a client of leases relies on: a live token was live at every earlier reading of
  the clock against the same store, and no step makes an issued token live again.
\<close>

locale lease_system =
  fixes live :: "'t \<Rightarrow> int \<Rightarrow> 's \<Rightarrow> bool"
    and issued :: "'t \<Rightarrow> 's \<Rightarrow> bool"
    and step :: "int \<Rightarrow> 's \<Rightarrow> 's \<Rightarrow> bool"
  assumes live_earlier: "live t now s \<Longrightarrow> now0 \<le> now \<Longrightarrow> live t now0 s"
    and issued_step: "issued t s \<Longrightarrow> step now s s' \<Longrightarrow> issued t s'"
    and no_revival: "issued t s \<Longrightarrow> \<not> live t now s \<Longrightarrow> step now s s' \<Longrightarrow> \<not> live t now s'"
begin

lemma issued_run: "timed_run step c d \<Longrightarrow> issued t (snd c) \<Longrightarrow> issued t (snd d)"
  by (induction rule: timed_run.induct) (auto intro: issued_step)

lemma lost_forever:
  "timed_run step c d \<Longrightarrow> issued t (snd c) \<Longrightarrow> \<not> live t (fst c) (snd c) \<Longrightarrow> \<not> live t (fst d) (snd d)"
proof (induction rule: timed_run.induct)
  case (wait c now s now')
  then have "\<not> live t now s" by simp
  with wait.hyps(2) have "\<not> live t now' s" by (blast dest: live_earlier)
  then show ?case by simp
next
  case (step c now s s')
  then have "\<not> live t now s" by simp
  moreover have "issued t s" using issued_run [OF step.hyps(1)] step.prems(1) by simp
  ultimately have "\<not> live t now s'" using step.hyps(2) no_revival by blast
  then show ?case by simp
qed simp

end

text \<open>The steps of the lock table, by any number of servers.\<close>

inductive lease_step :: "env \<Rightarrow> int \<Rightarrow> store \<Rightarrow> store \<Rightarrow> bool" for e now s where
  acquire: "acquire e now r ttl s = Inr (t, s') \<Longrightarrow> lease_step e now s s'"
| renew: "renew cf now t s = Inr s' \<Longrightarrow> lease_step e now s s'"
| unlock: "lease_step e now s (unlock t s)"
| fence: "fence cf now t s = Inr s' \<Longrightarrow> lease_step e now s s'"

definition issued_token :: "env \<Rightarrow> token \<Rightarrow> store \<Rightarrow> bool" where
  "issued_token e t s \<longleftrightarrow> uuid_ok e \<and> locks_keyed s \<and> (\<exists>i < st_uuid s. tk_locker t = e_uuid e i)"

lemma acquire_cases:
  assumes "acquire e now r ttl s = Inr (t, s')"
  obtains (takeover) l where "get_lock r s = Some l" "rl_resource l = r" "rl_expires l \<le> now"
      "s' = put_lock (l\<lparr>rl_locker := fresh_id e s, rl_expires := now + ttl, rl_updated := now\<rparr>) (draw s)"
      "t = \<lparr>tk_resource = r, tk_locker = fresh_id e s, tk_ttl = ttl\<rparr>" "3000000 \<le> ttl"
  | (create) "get_lock r s = None" "s' = lock_insert now t (draw s)"
      "t = \<lparr>tk_resource = r, tk_locker = fresh_id e s, tk_ttl = ttl\<rparr>" "3000000 \<le> ttl"
  | (own) l where "get_lock r s = Some l" "now < rl_expires l" "rl_locker l = fresh_id e s"
      "s' = draw s" "t = \<lparr>tk_resource = r, tk_locker = fresh_id e s, tk_ttl = ttl\<rparr>" "3000000 \<le> ttl"
proof (cases "get_lock r s")
  case None
  with assms have "s' = lock_insert now t (draw s)"
    "t = \<lparr>tk_resource = r, tk_locker = fresh_id e s, tk_ttl = ttl\<rparr>" "3000000 \<le> ttl"
    by (auto simp: acquire_def Let_def lock_takeover_def split: if_splits)
  then show thesis by (rule create [OF None])
next
  case (Some l)
  show thesis
  proof (cases "rl_expires l \<le> now")
    case True
    with assms Some have
      "s' = put_lock (l\<lparr>rl_locker := fresh_id e s, rl_expires := now + ttl, rl_updated := now\<rparr>) (draw s)"
      "t = \<lparr>tk_resource = r, tk_locker = fresh_id e s, tk_ttl = ttl\<rparr>" "3000000 \<le> ttl"
      by (auto simp: acquire_def Let_def lock_takeover_def split: if_splits)
    then show thesis by (rule takeover [OF Some locks.find_key [OF Some] True])
  next
    case False
    with assms Some have "rl_locker l = fresh_id e s" "s' = draw s"
      "t = \<lparr>tk_resource = r, tk_locker = fresh_id e s, tk_ttl = ttl\<rparr>" "3000000 \<le> ttl"
      by (auto simp: acquire_def Let_def lock_takeover_def lock_insert_def lock_holds_def split: if_splits)
    with False show thesis by (intro own [OF Some]) auto
  qed
qed

lemma st_uuid_put_lock [simp]: "st_uuid (put_lock l s) = st_uuid s"
  by (simp add: put_lock_def)

lemma st_uuid_lock_insert [simp]: "st_uuid (lock_insert now t s) = st_uuid s"
  by (simp add: lock_insert_def split: option.splits)

lemma st_uuid_draw [simp]: "st_uuid (draw s) = Suc (st_uuid s)"
  by (simp add: draw_def)

lemma acquire_uuid: "acquire e now r ttl s = Inr (t, s') \<Longrightarrow> st_uuid s' = Suc (st_uuid s)"
  by (erule acquire_cases) simp_all

lemma acquire_keyed: "acquire e now r ttl s = Inr (t, s') \<Longrightarrow> locks_keyed s \<Longrightarrow> locks_keyed s'"
  by (erule acquire_cases) (simp_all add: locks_keyed_insert)

text \<open>The token that was just acquired is live.\<close>

lemma acquire_live:
  assumes "acquire e now r ttl s = Inr (t, s')"
  shows "lease_live t now s'"
  using assms
  by (cases rule: acquire_cases) (auto simp: lease_live_def locks.find_put get_lock_insert)

text \<open>While some other token is live, nobody else acquires the resource.\<close>

lemma acquire_excluded:
  assumes "uuid_ok e" and "lease_live t now s" and "tk_resource t = r"
    and "\<exists>i < st_uuid s. tk_locker t = e_uuid e i"
  shows "\<nexists>t' s'. acquire e now r ttl s = Inr (t', s')"
proof
  assume "\<exists>t' s'. acquire e now r ttl s = Inr (t', s')"
  then obtain t' s' where a: "acquire e now r ttl s = Inr (t', s')" by blast
  have fresh: "tk_locker t \<noteq> fresh_id e s"
    using assms(1,4) by (auto simp: fresh_id_def uuid_ok_eq)
  from a show False
    by (cases rule: acquire_cases) (use assms(2,3) fresh in \<open>auto simp: lease_live_def\<close>)
qed

lemma lease_step_issued:
  assumes "lease_step e now s s'" and "issued_token e t s"
  shows "issued_token e t s'"
proof -
  have "locks_keyed s' \<and> st_uuid s \<le> st_uuid s'"
    using assms(1)
  proof cases
    case (acquire r ttl u)
    then show ?thesis using assms(2) acquire_keyed acquire_uuid
      by (fastforce simp: issued_token_def)
  next
    case (renew cf u)
    then show ?thesis using assms(2)
      by (auto simp: issued_token_def renew_def split: option.splits if_splits)
  next
    case (unlock u)
    then show ?thesis using assms(2)
      by (auto simp: issued_token_def locks_keyed_unlock) (simp add: unlock_def)
  next
    case (fence cf u)
    then show ?thesis using assms(2) fence_store [OF fence] by (simp add: issued_token_def)
  qed
  with assms(2) show ?thesis by (fastforce simp: issued_token_def dest: less_le_trans)
qed

lemma lease_live_unlock: "locks_keyed s \<Longrightarrow> lease_live t now (unlock u s) \<Longrightarrow> lease_live t now s"
proof -
  assume k: "locks_keyed s" and l: "lease_live t now (unlock u s)"
  from l obtain x where x: "get_lock (tk_resource t) (unlock u s) = Some x"
    "rl_locker x = tk_locker t" "now < rl_expires x"
    by (auto simp: lease_live_def split: option.splits)
  then have "x \<in> set (st_locks s)" "rl_resource x = tk_resource t"
    using get_lock_Some_mem [OF x(1)] by (auto simp: unlock_def)
  then have "get_lock (tk_resource t) s = Some x"
    using k tbl_find_distinct [of rl_resource "st_locks s" x] by (simp add: get_lock_def locks_keyed_def)
  with x show ?thesis by (simp add: lease_live_def)
qed

lemma lease_step_no_revival:
  assumes "lease_step e now s s'" and "issued_token e t s" and "\<not> lease_live t now s"
  shows "\<not> lease_live t now s'"
  using assms(1)
proof cases
  case (acquire r ttl u)
  have "tk_locker t \<noteq> fresh_id e s"
    using assms(2) by (auto simp: issued_token_def fresh_id_def uuid_ok_eq)
  with assms(3) show ?thesis
    by (cases rule: acquire_cases [OF acquire])
      (auto simp: lease_live_def locks.find_put get_lock_insert split: option.splits if_splits)
next
  case (renew cf u)
  then obtain l where l: "get_lock (tk_resource u) s = Some l" "rl_locker l = tk_locker u"
    "now < rl_expires l" "s' = put_lock (l\<lparr>rl_expires := now + tk_ttl u, rl_updated := now\<rparr>) s"
    by (auto simp: renew_def split: option.splits if_splits)
  then have "rl_resource l = tk_resource u" by (auto dest: locks.find_key)
  with l assms(3) show ?thesis
    by (auto simp: lease_live_def locks.find_put split: option.splits if_splits)
next
  case (unlock u)
  with assms(2,3) show ?thesis by (auto simp: issued_token_def dest: lease_live_unlock)
next
  case (fence cf u)
  then obtain n where f: "fence_touch cf now u s = (s', n)"
    by (auto simp: fence_def split: prod.splits if_splits)
  from f show ?thesis
    by (cases rule: fence_touch_cases)
      (use assms(3) in \<open>auto simp: lease_live_def locks.find_put split: option.splits if_splits\<close>)
qed

interpretation lease: lease_system lease_live "issued_token e" "lease_step e"
proof unfold_locales
  show "lease_live t now s \<Longrightarrow> now0 \<le> now \<Longrightarrow> lease_live t now0 s" for t now now0 s
    by (auto simp: lease_live_def split: option.splits)
qed (blast intro: lease_step_issued, blast dest: lease_step_no_revival)

end
