(* ===== verification/Parts.thy ===== *)
theory Parts
  imports Locks
begin

text \<open>
  Physical layout of message content (\<^verbatim>\<open>server/internal/repo/message_part.go\<close>). A message
  row keeps a bounded JSON snapshot; blocks that do not fit move into parts and leave a
  reference \<open>{id, ref}\<close> behind. \<open>open_content\<close> parses a snapshot, \<open>place\<close> routes one block
  to a part, \<open>pack_content\<close> decides what stays inline, \<open>persist\<close> writes the dirty parts,
  \<open>save_message\<close> composes them in the owning transaction and \<open>hydrate_messages\<close> resolves
  the references again. \<open>mc_uuid\<close> is the next identifier \<^verbatim>\<open>uuid.V7\<close> returns.
\<close>

section \<open>Blocks and snapshots\<close>

definition bid :: "json \<Rightarrow> string" where
  "bid b = (case jget ''id'' b of Some (JStr i) \<Rightarrow> i | _ \<Rightarrow> [])"

definition bref :: "json \<Rightarrow> string option" where
  "bref b = jstr (jget ''ref'' b)"

definition has_ref :: "json \<Rightarrow> bool" where
  "has_ref b \<longleftrightarrow> jget ''ref'' b \<noteq> None"

definition btype_is :: "string \<Rightarrow> json \<Rightarrow> bool" where
  "btype_is t b \<longleftrightarrow> jget ''type'' b = Some (JStr t)"

definition ref_block :: "string \<Rightarrow> string \<Rightarrow> json" where
  "ref_block i r = JObj [(''id'', JStr i), (''ref'', JStr r)]"

text \<open>The type assertions the code makes on a validated snapshot.\<close>

definition block_shape :: "json \<Rightarrow> bool" where
  "block_shape b \<longleftrightarrow> is_obj b \<and> jstr (jget ''id'' b) \<noteq> None"

definition snapshot_shape :: "json \<Rightarrow> bool" where
  "snapshot_shape v \<longleftrightarrow>
     (case jget ''blocks'' v of Some (JArr bs) \<Rightarrow> list_all block_shape bs | _ \<Rightarrow> False)"

definition set_blocks :: "json list \<Rightarrow> json \<Rightarrow> json" where
  "set_blocks bs v = jset ''blocks'' (JArr bs) v"

record cpart =
  cp_group :: string
  cp_owner :: string
  cp_blocks :: "json list"
  cp_dirty :: bool

record mcontent =
  mc_owner :: string
  mc_snap :: json
  mc_pos :: "(string \<times> nat) list"
  mc_refs :: "(string \<times> string) list"
  mc_parts :: "(string \<times> cpart) list"
  mc_tail :: string
  mc_uuid :: nat

section \<open>Opening\<close>

fun scan_blocks :: "nat \<Rightarrow> json list \<Rightarrow> mcontent \<Rightarrow> mcontent" where
  "scan_blocks i [] c = c"
| "scan_blocks i (b # bs) c =
     (let c1 = c\<lparr>mc_pos := al_set (bid b) i (mc_pos c)\<rparr>
      in scan_blocks (Suc i) bs
           (case bref b of
              Some r \<Rightarrow> c1\<lparr>mc_refs := al_set (bid b) r (mc_refs c1), mc_tail := r\<rparr>
            | None \<Rightarrow> c1))"

definition open_content :: "env \<Rightarrow> string \<Rightarrow> content \<Rightarrow> nat \<Rightarrow> mcontent result" where
  "open_content e owner content n =
     bindR (decode_object content) (\<lambda>snap.
       if \<not> e_valid_model e snap then Inl (ErrText ''content'')
       else if \<not> snapshot_shape snap then Inl GoPanic
       else Inr (scan_blocks 0 (jblocks snap)
              \<lparr>mc_owner = owner, mc_snap = snap, mc_pos = [], mc_refs = [], mc_parts = [],
               mc_tail = [], mc_uuid = n\<rparr>))"

section \<open>Parts\<close>

text \<open>The accumulator of \<^verbatim>\<open>decodePart\<close>: seen ids, frames, complete blocks.\<close>

fun decode_blocks ::
    "env \<Rightarrow> json list \<Rightarrow> string list \<times> json list \<times> json list
     \<Rightarrow> (string list \<times> json list \<times> json list) result" where
  "decode_blocks e [] acc = Inr acc"
| "decode_blocks e (b # bs) (ids, frames, blocks) =
     (if \<not> e_valid_block e b then Inl (ErrText ''block'')
      else if has_ref b then Inl (ErrText ''nested reference'')
      else if \<not> block_shape b then Inl GoPanic
      else if bid b \<in> set ids then Inl (ErrText ''duplicate block'')
      else if btype_is (e_frame_type e) b
      then decode_blocks e bs (bid b # ids, frames @ [b], blocks)
      else decode_blocks e bs (bid b # ids, frames, blocks @ [b]))"

definition body_blocks :: "content \<Rightarrow> json list result" where
  "body_blocks c = bindR (struct_blocks (c_val c))
     (\<lambda>bs. if list_all is_struct bs then Inr (map (\<lambda>b. if b = JNull then JObj [] else b) bs)
           else Inl (ErrText ''json''))"

fun decode_rows ::
    "env \<Rightarrow> message_part \<Rightarrow> message_part list \<Rightarrow> string list \<times> json list \<times> json list
     \<Rightarrow> (string list \<times> json list \<times> json list) result" where
  "decode_rows e r0 [] acc = Inr acc"
| "decode_rows e r0 (r # rs) acc =
     (if p_message r \<noteq> p_message r0 \<or> p_group r \<noteq> p_group r0
      then Inl (ErrText ''mixed part ownership'')
      else bindR (body_blocks (p_content r)) (\<lambda>bs.
           bindR (decode_blocks e bs acc) (decode_rows e r0 rs)))"

definition decode_part :: "env \<Rightarrow> message_part list \<Rightarrow> cpart result" where
  "decode_part e rows =
     (case rows of
        [] \<Rightarrow> Inl (ErrText ''missing stored part group'')
      | r0 # _ \<Rightarrow>
          if p_group r0 = [] then Inl (ErrText ''part has no group'')
          else bindR (decode_rows e r0 rows ([], [], [])) (\<lambda>(ids, frames, blocks).
            let p = \<lparr>cp_group = p_group r0, cp_owner = p_message r0, cp_blocks = blocks, cp_dirty = False\<rparr>
            in if frames = [] then Inr p
               else if blocks \<noteq> [] then Inl (ErrText ''mixed frames and complete blocks'')
               else bindR (e_unframe e frames) (\<lambda>b.
                 if is_obj b then Inr (p\<lparr>cp_blocks := [b]\<rparr>) else Inl (ErrText ''json''))))"

definition group_rows :: "store \<Rightarrow> string \<Rightarrow> string \<Rightarrow> message_part list" where
  "group_rows s owner key = filter (\<lambda>r. p_group r = key \<and> p_message r = owner) (st_parts s)"

definition load_part :: "env \<Rightarrow> store \<Rightarrow> string \<Rightarrow> mcontent \<Rightarrow> (cpart \<times> mcontent) result" where
  "load_part e s key c =
     (case map_of (mc_parts c) key of
        Some p \<Rightarrow> Inr (p, c)
      | None \<Rightarrow>
          bindR (decode_part e (group_rows s (mc_owner c) key)) (\<lambda>p.
            Inr (p, c\<lparr>mc_parts := al_set key p (mc_parts c)\<rparr>)))"

definition find_block :: "string \<Rightarrow> json list \<Rightarrow> json option" where
  "find_block i bs = find (\<lambda>b. jget ''id'' b = Some (JStr i)) bs"

fun index_of :: "string \<Rightarrow> json list \<Rightarrow> nat option" where
  "index_of i [] = None"
| "index_of i (b # bs) =
     (if jget ''id'' b = Some (JStr i) then Some 0 else map_option Suc (index_of i bs))"

definition materialize :: "env \<Rightarrow> store \<Rightarrow> string \<Rightarrow> mcontent \<Rightarrow> mcontent result" where
  "materialize e s i c =
     (case map_of (mc_pos c) i of
        None \<Rightarrow> Inr c
      | Some k \<Rightarrow>
          (case bref (jblocks (mc_snap c) ! k) of
             None \<Rightarrow> Inr c
           | Some ref \<Rightarrow>
               bindR (load_part e s ref c) (\<lambda>(p, c1).
                 case find_block i (cp_blocks p) of
                   Some body \<Rightarrow>
                     Inr (c1\<lparr>mc_snap := set_blocks ((jblocks (mc_snap c1))[k := body]) (mc_snap c1)\<rparr>)
                 | None \<Rightarrow> Inl (ErrText ''part does not contain block''))))"

section \<open>Placing and packing\<close>

definition new_part :: "env \<Rightarrow> json \<Rightarrow> mcontent \<Rightarrow> string \<times> mcontent" where
  "new_part e b c =
     (let i = e_uuid e (mc_uuid c)
      in (i, c\<lparr>mc_parts := al_set i \<lparr>cp_group = i, cp_owner = mc_owner c, cp_blocks = [b], cp_dirty = True\<rparr>
                              (mc_parts c),
               mc_tail := i, mc_uuid := Suc (mc_uuid c)\<rparr>))"

definition part_body :: "json list \<Rightarrow> json" where
  "part_body bs = JObj [(''blocks'', JArr bs)]"

definition part_bytes :: "json list \<Rightarrow> nat" where
  "part_bytes bs = jlen (part_body bs)"

definition put_part :: "string \<Rightarrow> cpart \<Rightarrow> json list \<Rightarrow> mcontent \<Rightarrow> mcontent" where
  "put_part key p bs c =
     c\<lparr>mc_parts := al_set key (p\<lparr>cp_blocks := bs, cp_dirty := True\<rparr>) (mc_parts c)\<rparr>"

definition remove_at :: "nat \<Rightarrow> 'a list \<Rightarrow> 'a list" where
  "remove_at i xs = take i xs @ drop (Suc i) xs"

definition orig_ref :: "mcontent \<Rightarrow> string \<Rightarrow> string" where
  "orig_ref c i = (case map_of (mc_refs c) i of Some r \<Rightarrow> r | None \<Rightarrow> [])"

definition place :: "env \<Rightarrow> store \<Rightarrow> nat \<Rightarrow> json \<Rightarrow> mcontent \<Rightarrow> (string \<times> mcontent) result" where
  "place e s maxb b c =
     (let key = orig_ref c (bid b)
      in if key \<noteq> [] then
           bindR (load_part e s key c) (\<lambda>(p, c1).
             case index_of (bid b) (cp_blocks p) of
               None \<Rightarrow> Inl (ErrText ''part does not contain block'')
             | Some i \<Rightarrow>
                 let bs = (cp_blocks p)[i := b]
                 in if part_bytes bs \<le> maxb \<or> length bs = 1
                    then Inr (key, put_part key p bs c1)
                    else Inr (new_part e b (put_part key p (remove_at i bs) c1)))
         else if mc_tail c \<noteq> [] then
           bindR (load_part e s (mc_tail c) c) (\<lambda>(p, c1).
             let candidate = cp_blocks p @ [b]
             in if part_bytes candidate \<le> maxb
                then Inr (cp_group p, put_part (mc_tail c) p candidate c1)
                else Inr (new_part e b c1))
         else Inr (new_part e b c))"

text \<open>
  The forward pass of \<^verbatim>\<open>packContent\<close>: the inline prefix is bounded in number and bytes, and
  once a block is external every later one is.
\<close>

fun pack_forward ::
    "env \<Rightarrow> store \<Rightarrow> config \<Rightarrow> nat \<Rightarrow> nat \<Rightarrow> bool \<Rightarrow> json list \<Rightarrow> mcontent
     \<Rightarrow> (json list \<times> bool \<times> mcontent) result" where
  "pack_forward e s cf count bytes external [] c = Inr ([], external, c)"
| "pack_forward e s cf count bytes external (b # bs) c =
     (if has_ref b then
        bindR (pack_forward e s cf count bytes True bs c) (\<lambda>(bs', x, c'). Inr (b # bs', x, c'))
      else if \<not> external \<and> orig_ref c (bid b) = [] \<and> count < cf_inline cf
              \<and> bytes + jlen b \<le> cf_max cf then
        bindR (pack_forward e s cf (Suc count) (bytes + jlen b) False bs c)
          (\<lambda>(bs', x, c'). Inr (b # bs', x, c'))
      else
        bindR (place e s (cf_max cf) b c) (\<lambda>(ref, c1).
          bindR (pack_forward e s cf count bytes True bs c1)
            (\<lambda>(bs', x, c'). Inr (ref_block (bid b) ref # bs', x, c'))))"

definition set_version :: "env \<Rightarrow> json \<Rightarrow> json" where
  "set_version e v = jset ''version'' (JStr (e_version e)) v"

text \<open>The backward pass: externalize inline suffixes until the whole root fits.\<close>

fun pack_backward :: "env \<Rightarrow> store \<Rightarrow> config \<Rightarrow> nat \<Rightarrow> mcontent \<Rightarrow> mcontent result" where
  "pack_backward e s cf 0 c = Inr c"
| "pack_backward e s cf (Suc i) c =
     (if jlen (mc_snap c) \<le> cf_max cf then Inr c
      else
        let bs = jblocks (mc_snap c); b = bs ! i
        in if has_ref b then pack_backward e s cf i c
           else bindR (place e s (cf_max cf) b c) (\<lambda>(ref, c1).
             pack_backward e s cf i
               (c1\<lparr>mc_snap := set_version e (set_blocks (bs[i := ref_block (bid b) ref]) (mc_snap c1))\<rparr>)))"

definition pack_content :: "env \<Rightarrow> store \<Rightarrow> config \<Rightarrow> mcontent \<Rightarrow> (content \<times> mcontent) result" where
  "pack_content e s cf c =
     bindR (pack_forward e s cf 0 0 False (jblocks (mc_snap c)) c) (\<lambda>(bs, external, c1).
       let snap = set_blocks bs (mc_snap c1);
           c2 = c1\<lparr>mc_snap := (if external then set_version e snap else snap)\<rparr>
       in bindR (pack_backward e s cf (length bs) c2) (\<lambda>c3.
            if cf_max cf < jlen (mc_snap c3) then Inl ErrContentTooLarge
            else Inr (marshal (mc_snap c3), c3)))"

section \<open>Persisting\<close>

definition part_payloads :: "env \<Rightarrow> config \<Rightarrow> json list \<Rightarrow> json list result" where
  "part_payloads e cf bs =
     (if part_bytes bs \<le> cf_max cf then Inr [part_body bs]
      else case bs of
        [b] \<Rightarrow> (case e_frame e b (cf_max cf - 13) of
                  Inl _ \<Rightarrow> Inl ErrContentTooLarge
                | Inr fs \<Rightarrow> Inr (map (\<lambda>f. part_body [f]) fs))
      | _ \<Rightarrow> Inl ErrContentTooLarge)"

text \<open>The first payload takes the group's own identifier, later ones fresh ones.\<close>

fun insert_payloads ::
    "env \<Rightarrow> config \<Rightarrow> string \<Rightarrow> string \<Rightarrow> bool \<Rightarrow> json list \<Rightarrow> store \<Rightarrow> store result" where
  "insert_payloads e cf owner grp first [] s = Inr s"
| "insert_payloads e cf owner grp first (v # vs) s =
     (if cf_max cf < jlen v then Inl ErrContentTooLarge
      else
        let i = (if first then grp else fresh_id e s);
            s1 = (if first then s else draw s)
        in bindR (insert_part \<lparr>p_id = i, p_message = owner, p_group = grp,
                               p_content = marshal v, p_size = jlen v\<rparr> s1)
             (insert_payloads e cf owner grp False vs))"

definition delete_group :: "string \<Rightarrow> string \<Rightarrow> store \<Rightarrow> store" where
  "delete_group owner grp s =
     s\<lparr>st_parts := filter (\<lambda>r. \<not> (p_message r = owner \<and> p_group r = grp)) (st_parts s)\<rparr>"

definition persist_part :: "env \<Rightarrow> config \<Rightarrow> string \<Rightarrow> store \<Rightarrow> cpart \<Rightarrow> store result" where
  "persist_part e cf owner s p =
     (if \<not> cp_dirty p then Inr s
      else bindR (part_payloads e cf (cp_blocks p)) (\<lambda>vs.
        insert_payloads e cf owner (cp_group p) True vs (delete_group owner (cp_group p) s)))"

definition persist :: "env \<Rightarrow> config \<Rightarrow> mcontent \<Rightarrow> store \<Rightarrow> store result" where
  "persist e cf c s = foldR (persist_part e cf (mc_owner c)) s (map snd (mc_parts c))"

section \<open>Saving a message\<close>

text \<open>
  The blocks still referenced, by group; parts drop the bodies of the others. A part is
  marked dirty only when it loses a block.
\<close>

definition kept_refs :: "json list \<Rightarrow> (string \<times> string) list" where
  "kept_refs bs = map (\<lambda>b. (the (bref b), bid b)) (filter (\<lambda>b. bref b \<noteq> None) bs)"

definition prune_part ::
    "env \<Rightarrow> store \<Rightarrow> (string \<times> string) list \<Rightarrow> mcontent \<Rightarrow> string \<Rightarrow> mcontent result" where
  "prune_part e s kept c key =
     bindR (load_part e s key c) (\<lambda>(p, c1).
       let filtered = filter (\<lambda>b. (key, bid b) \<in> set kept) (cp_blocks p)
       in if length filtered \<noteq> length (cp_blocks p) then Inr (put_part key p filtered c1)
          else Inr c1)"

definition delete_unkept :: "string \<Rightarrow> string list \<Rightarrow> store \<Rightarrow> store" where
  "delete_unkept owner keys s =
     s\<lparr>st_parts := filter (\<lambda>r. \<not> (p_message r = owner \<and> p_group r \<notin> set keys)) (st_parts s)\<rparr>"

definition open_logical :: "env \<Rightarrow> message \<Rightarrow> nat \<Rightarrow> mcontent result" where
  "open_logical e m n =
     (case open_content e (m_id m) (m_content m) n of
        Inl GoPanic \<Rightarrow> Inl GoPanic
      | Inl _ \<Rightarrow> Inl ErrInvalidContent
      | Inr c \<Rightarrow>
          if mc_refs c \<noteq> [] then Inl ErrInvalidContent
          else if list_ex (btype_is (e_frame_type e)) (jblocks (mc_snap c)) then Inl ErrInvalidContent
          else Inr c)"

definition adopt_layout :: "env \<Rightarrow> message \<Rightarrow> bool \<Rightarrow> store \<Rightarrow> mcontent \<Rightarrow> mcontent result" where
  "adopt_layout e m create s c =
     (if create then Inr c
      else bindR (option_or GormNotFound (get_msg (m_id m) s)) (\<lambda>previous.
        bindR (open_content e (m_id previous) (m_content previous) 0) (\<lambda>old.
          Inr (c\<lparr>mc_refs := mc_refs old, mc_tail := mc_tail old\<rparr>))))"

definition write_row :: "int \<Rightarrow> message \<Rightarrow> bool \<Rightarrow> store \<Rightarrow> (message \<times> store) result" where
  "write_row now m create s =
     (if create then
        let m1 = message_defaults now m in bindR (insert_msg m1 s) (\<lambda>s1. Inr (m1, s1))
      else let m1 = m\<lparr>m_updated := now\<rparr> in Inr (m1, put_msg m1 s))"

definition full_content :: "env \<Rightarrow> json option \<Rightarrow> content \<Rightarrow> mcontent \<Rightarrow> content result" where
  "full_content e version full c =
     (if jget ''version'' (mc_snap c) = version then Inr full
      else bindR (decode_object full) (\<lambda>v.
        Inr (marshal (case jget ''version'' (mc_snap c) of
                        Some x \<Rightarrow> jset ''version'' x v | None \<Rightarrow> v))))"

definition save_message ::
    "env \<Rightarrow> config \<Rightarrow> int \<Rightarrow> message \<Rightarrow> bool \<Rightarrow> store \<Rightarrow> (message \<times> store) result" where
  "save_message e cf now m create s =
     bindR (open_logical e m (st_uuid s)) (\<lambda>c0.
     bindR (adopt_layout e m create s c0) (\<lambda>c.
     bindR (pack_content e s cf c) (\<lambda>(packed, c1).
       let full = m_content m;
           stored = (if mc_parts c1 = [] \<and> mc_refs c1 = [] \<and> c_len full \<le> cf_max cf
                     then full else packed)
       in bindR (write_row now (m\<lparr>m_content := stored\<rparr>) create (s\<lparr>st_uuid := mc_uuid c1\<rparr>)) (\<lambda>(m1, s1).
          let kept = kept_refs (jblocks (mc_snap c1));
              keys = remdups (map fst kept)
          in bindR (foldR (prune_part e s1 kept) c1 keys) (\<lambda>c2.
             bindR (persist e cf c2 s1) (\<lambda>s2.
             bindR (full_content e (jget ''version'' (mc_snap c)) full c1) (\<lambda>content.
               Inr (m1\<lparr>m_content := content\<rparr>, delete_unkept (m_id m) keys s2))))))))"

section \<open>Reading\<close>

text \<open>
  One reference of an opened message: its part comes from the groups read for the whole
  batch and is cached, so \<open>materialize\<close> finds it without reading the store.
\<close>

definition hydrate_step ::
    "env \<Rightarrow> store \<Rightarrow> (string \<times> cpart) list \<Rightarrow> mcontent \<Rightarrow> string \<times> string \<Rightarrow> mcontent result" where
  "hydrate_step e s parts c ir =
     (case map_of parts (snd ir) of
        None \<Rightarrow> Inl (ErrText ''missing part'')
      | Some p \<Rightarrow>
          if cp_owner p \<noteq> mc_owner c then Inl (ErrText ''missing part'')
          else materialize e s (fst ir) (c\<lparr>mc_parts := al_set (snd ir) p (mc_parts c)\<rparr>))"

definition hydrate_one ::
    "env \<Rightarrow> store \<Rightarrow> (string \<times> cpart) list \<Rightarrow> message \<times> mcontent \<Rightarrow> message result" where
  "hydrate_one e s parts mc =
     (if mc_refs (snd mc) = [] then Inr (fst mc)
      else bindR (foldR (hydrate_step e s parts) (snd mc) (mc_refs (snd mc))) (\<lambda>c.
        Inr ((fst mc)\<lparr>m_content := marshal (mc_snap c)\<rparr>)))"

definition owned_rows :: "store \<Rightarrow> string list \<Rightarrow> message_part list" where
  "owned_rows s owners = filter (\<lambda>r. p_message r \<in> set owners) (st_parts s)"

definition group_parts ::
    "env \<Rightarrow> message_part list \<Rightarrow> (string \<times> cpart) list result" where
  "group_parts e rows =
     mapR (\<lambda>g. bindR (decode_part e (filter (\<lambda>r. p_group r = g) rows)) (\<lambda>p. Inr (g, p)))
       (remdups (map p_group rows))"

definition hydrate_messages :: "env \<Rightarrow> store \<Rightarrow> message list \<Rightarrow> message list result" where
  "hydrate_messages e s ms =
     bindR (mapR (\<lambda>m. open_content e (m_id m) (m_content m) (st_uuid s)) ms) (\<lambda>cs.
       let owners = map mc_owner (filter (\<lambda>c. mc_refs c \<noteq> []) cs)
       in if owners = [] then Inr ms
          else bindR (group_parts e (owned_rows s owners)) (\<lambda>parts.
                 mapR (hydrate_one e s parts) (zip ms cs)))"

definition hydrate_message :: "env \<Rightarrow> store \<Rightarrow> message \<Rightarrow> message result" where
  "hydrate_message e s m = bindR (hydrate_messages e s [m]) (\<lambda>ms. Inr (hd ms))"

section \<open>Block pages\<close>

definition max_block_page_bytes :: nat where
  "max_block_page_bytes = 1048576"

text \<open>
  \<^verbatim>\<open>MessageBlocks\<close>. The loop starts at \<open>i\<close> with \<open>n\<close> blocks left; \<open>single\<close> says that a block id
  was asked for.
\<close>

fun page_loop ::
    "env \<Rightarrow> store \<Rightarrow> nat \<Rightarrow> bool \<Rightarrow> nat \<Rightarrow> nat \<Rightarrow> nat \<Rightarrow> json list \<Rightarrow> mcontent
     \<Rightarrow> (json list \<times> string) result" where
  "page_loop e s revn single 0 i tot data c = Inr (data, [])"
| "page_loop e s revn single (Suc n) i tot data c =
     bindR (materialize e s (bid (jblocks (mc_snap c) ! i)) c) (\<lambda>c1.
       let raw = jblocks (mc_snap c1) ! i
       in if 100 \<le> length data \<or> (data \<noteq> [] \<and> max_block_page_bytes < tot + jlen raw)
          then Inr (data, nat_str revn @ '':'' @ nat_str i)
          else if single then Inr (data @ [raw], [])
          else page_loop e s revn single n (Suc i) (tot + jlen raw) (data @ [raw]) c1)"

definition parse_block_cursor :: "string \<Rightarrow> (nat \<times> nat) result" where
  "parse_block_cursor cursor =
     (if cursor = [] then Inr (0, 0)
      else case cut_at CHR '':'' cursor of
             None \<Rightarrow> Inl ErrInvalidContent
           | Some (a, b) \<Rightarrow>
               (case parse_uint64 a of
                  None \<Rightarrow> Inl ErrInvalidContent
                | Some revn \<Rightarrow>
                    (case atoi b of
                       None \<Rightarrow> Inl ErrInvalidContent
                     | Some pos \<Rightarrow> if pos < 0 then Inl ErrInvalidContent else Inr (revn, nat pos))))"

definition message_blocks ::
    "env \<Rightarrow> string \<Rightarrow> string \<Rightarrow> string \<Rightarrow> string \<Rightarrow> store \<Rightarrow> block_page result" where
  "message_blocks e conv i block cursor s =
     bindR (parse_block_cursor cursor) (\<lambda>(revn, pos0). mapped (
       case find (\<lambda>m. m_conv m = conv \<and> m_id m = i) (st_msgs s) of
         None \<Rightarrow> Inl GormNotFound
       | Some m \<Rightarrow>
           if cursor \<noteq> [] \<and> revn \<noteq> m_revision m then Inl ErrConflict
           else bindR (open_content e (m_id m) (m_content m) (st_uuid s)) (\<lambda>c.
             bindR (if block = [] then Inr pos0
                    else option_or ErrNotFound (map_of (mc_pos c) block)) (\<lambda>pos.
               let n = length (jblocks (mc_snap c))
               in if n < pos then Inl ErrInvalidContent
                  else bindR (page_loop e s (m_revision m) (block \<noteq> []) (n - pos) pos 0 [] c)
                         (\<lambda>(data, next). Inr \<lparr>bp_revision = m_revision m, bp_data = data,
                                               bp_next = next\<rparr>)))))"

end
