(* ===== verification/Conversations.thy ===== *)
theory Conversations
  imports Parts
begin

text \<open>
  Conversations and message reads of the repository (\<^verbatim>\<open>conversation.go\<close>, \<^verbatim>\<open>message.go\<close>,
  \<^verbatim>\<open>inbox.go\<close>, \<^verbatim>\<open>chat.go\<close> under \<^verbatim>\<open>server/internal/repo\<close>). A SQL query is a filter, a sort by
  identifier and a limit over a table; identifiers compare bytewise, as the binary
  collation of an ASCII UUID column does.
\<close>

section \<open>Queries\<close>

definition first_row :: "('r \<Rightarrow> string) \<Rightarrow> 'r list \<Rightarrow> 'r option" where
  "first_row key rows = (case sort_key key rows of [] \<Rightarrow> None | r # _ \<Rightarrow> Some r)"

definition asc_limit :: "('r \<Rightarrow> string) \<Rightarrow> nat \<Rightarrow> 'r list \<Rightarrow> 'r list" where
  "asc_limit key n rows = take n (sort_key key rows)"

definition desc_limit :: "('r \<Rightarrow> string) \<Rightarrow> nat \<Rightarrow> 'r list \<Rightarrow> 'r list" where
  "desc_limit key n rows = take n (rev (sort_key key rows))"

lemma first_row_Some: "first_row key rows = Some r \<Longrightarrow> r \<in> set rows \<and> (\<forall>x \<in> set rows. key r \<le> key x)"
proof -
  assume a: "first_row key rows = Some r"
  then obtain rs where rs: "sort_key key rows = r # rs"
    by (auto simp: first_row_def split: list.splits)
  then have "set rows = set (r # rs)" by (metis set_sort)
  moreover have "sorted (map key (r # rs))" using rs sorted_sort_key [of key rows] by simp
  ultimately show ?thesis by auto
qed

lemma first_row_None [simp]: "first_row key rows = None \<longleftrightarrow> rows = []"
  by (auto simp: first_row_def split: list.splits) (metis length_0_conv length_sort list.size(3))

lemma asc_limit_subset: "set (asc_limit key n rows) \<subseteq> set rows"
  by (auto simp: asc_limit_def dest: in_set_takeD)

lemma desc_limit_subset: "set (desc_limit key n rows) \<subseteq> set rows"
  by (auto simp: desc_limit_def dest: in_set_takeD)

lemma length_asc_limit: "length (asc_limit key n rows) \<le> n"
  by (simp add: asc_limit_def)

lemma asc_limit_sorted: "sorted (map key (asc_limit key n rows))"
proof -
  have "map key (asc_limit key n rows) = take n (map key (sort_key key rows))"
    by (simp add: asc_limit_def take_map)
  then show ?thesis by (simp add: sorted_wrt_take)
qed

text \<open>What a page leaves out comes after everything in it.\<close>

lemma asc_limit_skipped:
  assumes "r \<in> set rows" and "r \<notin> set (asc_limit key n rows)" and "x \<in> set (asc_limit key n rows)"
  shows "key x \<le> key r"
proof -
  let ?s = "sort_key key rows"
  have "sorted (map key (take n ?s @ drop n ?s))" by simp
  then have "\<forall>a \<in> set (take n ?s). \<forall>b \<in> set (drop n ?s). key a \<le> key b"
    unfolding map_append sorted_append by auto
  moreover have "r \<in> set (drop n ?s)"
    using assms(1,2) by (metis Un_iff append_take_drop_id asc_limit_def set_append set_sort)
  ultimately show ?thesis using assms(3) by (auto simp: asc_limit_def)
qed

lemma asc_limit_full:
  assumes "length (asc_limit key n rows) < n"
  shows "set (asc_limit key n rows) = set rows"
proof -
  have "length rows < n" using assms by (auto simp: asc_limit_def min_def split: if_splits)
  then show ?thesis by (simp add: asc_limit_def)
qed

section \<open>Conversations\<close>

definition find_actor_conversation ::
    "string \<Rightarrow> string \<Rightarrow> string \<Rightarrow> store \<Rightarrow> conversation result" where
  "find_actor_conversation parent kind key s =
     mapped (option_or GormNotFound
       (first_row cv_id (filter (\<lambda>d. cv_parent d = Some parent \<and> cv_actor d = \<lparr>ar_kind = kind, ar_key = key\<rparr>)
          (st_convs s))))"

definition root_conversation :: "conversation \<Rightarrow> bool" where
  "root_conversation c \<longleftrightarrow> cv_parent c = None \<and> ar_kind (cv_actor c) = ActorKindUser"

definition list_conversations :: "string \<Rightarrow> nat \<Rightarrow> store \<Rightarrow> conversation list" where
  "list_conversations before limit s =
     desc_limit cv_id limit
       (filter (\<lambda>c. root_conversation c \<and> (before \<noteq> [] \<longrightarrow> cv_id c < before)) (st_convs s))"

definition create_conversation :: "int \<Rightarrow> conversation \<Rightarrow> store \<Rightarrow> (conversation \<times> store) result" where
  "create_conversation now c s =
     bindR (mapped (insert_conv now c s)) (\<lambda>s1. Inr (c\<lparr>cv_created := now, cv_updated := now\<rparr>, s1))"

definition get_conversation :: "string \<Rightarrow> store \<Rightarrow> conversation result" where
  "get_conversation i s = mapped (option_or GormNotFound (get_conv i s))"

definition participant_conversation :: "string \<Rightarrow> actor_ref \<Rightarrow> store \<Rightarrow> string result" where
  "participant_conversation i actor s =
     (if \<not> valid_target actor then Inr []
      else bindR (get_conversation i s) (\<lambda>parent.
        if \<not> root_conversation parent then Inr []
        else bindR (find_actor_conversation i (ar_kind actor) (ar_key actor) s) (\<lambda>d. Inr (cv_id d))))"

text \<open>The UTF-8 bytes of the name the code gives to a detail conversation.\<close>

definition detail_name :: string where
  "detail_name = [CHR 0xE5, CHR 0xA4, CHR 0x84, CHR 0xE7, CHR 0x90, CHR 0x86,
                  CHR 0xE8, CHR 0xAF, CHR 0xA6, CHR 0xE6, CHR 0x83, CHR 0x85]"

definition detail_conversation :: "env \<Rightarrow> store \<Rightarrow> conversation \<Rightarrow> actor_ref \<Rightarrow> conversation" where
  "detail_conversation e s parent actor =
     \<lparr>cv_id = fresh_id e s, cv_name = detail_name, cv_actor = actor,
      cv_parent = Some (cv_id parent), cv_created = 0, cv_updated = 0\<rparr>"

definition ensure_participant_conversation ::
    "env \<Rightarrow> int \<Rightarrow> conversation \<Rightarrow> actor_ref \<Rightarrow> store \<Rightarrow> store result" where
  "ensure_participant_conversation e now parent actor s =
     (if \<not> root_conversation parent \<or> \<not> valid_target actor then Inr s
      else if \<exists>d \<in> set (st_convs s). cv_parent d = Some (cv_id parent) \<and> cv_actor d = actor then Inr s
      else insert_conv now (detail_conversation e s parent actor) (draw s))"

section \<open>Message queries\<close>

definition no_content :: "message \<Rightarrow> message" where
  "no_content m = m\<lparr>m_content := Content None []\<rparr>"

definition query_messages :: "string \<Rightarrow> message_query \<Rightarrow> store \<Rightarrow> message list" where
  "query_messages conv q s =
     (let rows = filter (\<lambda>m. m_conv m = conv
                   \<and> (mq_ids q \<noteq> [] \<longrightarrow> m_id m \<in> set (mq_ids q))
                   \<and> (mq_after q \<noteq> [] \<longrightarrow> mq_after q < m_id m)
                   \<and> (mq_before q \<noteq> [] \<longrightarrow> m_id m < mq_before q)
                   \<and> (mq_statuses q \<noteq> [] \<longrightarrow> m_status m \<in> set (mq_statuses q))) (st_msgs s)
      in map no_content
           (if mq_order q = ''desc'' then desc_limit m_id (nat (mq_limit q)) rows
            else asc_limit m_id (nat (mq_limit q)) rows))"

definition find_in_conv :: "string \<Rightarrow> string \<Rightarrow> store \<Rightarrow> message option" where
  "find_in_conv conv i s = find (\<lambda>m. m_conv m = conv \<and> m_id m = i) (st_msgs s)"

definition message_info_row :: "string \<Rightarrow> string \<Rightarrow> store \<Rightarrow> message result" where
  "message_info_row conv i s =
     mapped (option_or GormNotFound (map_option no_content (find_in_conv conv i s)))"

definition read_messages :: "env \<Rightarrow> store \<Rightarrow> message list \<Rightarrow> message list result" where
  "read_messages e s rows = mapped (hydrate_messages e s rows)"

definition one_message :: "message list result \<Rightarrow> message result" where
  "one_message r = bindR r (\<lambda>rows. case rows of [] \<Rightarrow> Inl ErrNotFound | m # _ \<Rightarrow> Inr m)"

definition message_snapshot :: "env \<Rightarrow> string \<Rightarrow> string \<Rightarrow> store \<Rightarrow> message result" where
  "message_snapshot e conv i s =
     one_message (read_messages e s (take 1 (filter (\<lambda>m. m_conv m = conv \<and> m_id m = i) (st_msgs s))))"

definition get_message :: "env \<Rightarrow> string \<Rightarrow> store \<Rightarrow> message result" where
  "get_message e i s =
     one_message (read_messages e s (take 1 (filter (\<lambda>m. m_id m = i) (st_msgs s))))"

definition list_root_messages_by_task :: "env \<Rightarrow> string \<Rightarrow> store \<Rightarrow> message list result" where
  "list_root_messages_by_task e task s =
     read_messages e s (sort_key m_id
       (filter (\<lambda>m. m_task m = task
          \<and> (case get_conv (m_conv m) s of Some c \<Rightarrow> cv_parent c = None | None \<Rightarrow> False)) (st_msgs s)))"

definition list_messages :: "env \<Rightarrow> string \<Rightarrow> string \<Rightarrow> nat \<Rightarrow> store \<Rightarrow> message list result" where
  "list_messages e conv after limit s =
     read_messages e s (asc_limit m_id limit
       (filter (\<lambda>m. m_conv m = conv \<and> (after \<noteq> [] \<longrightarrow> after < m_id m)) (st_msgs s)))"

definition get_messages :: "env \<Rightarrow> string \<Rightarrow> string list \<Rightarrow> store \<Rightarrow> message list result" where
  "get_messages e conv ids s =
     (if ids = [] then Inr []
      else read_messages e s (filter (\<lambda>m. m_conv m = conv \<and> m_id m \<in> set ids) (st_msgs s)))"

record message_state =
  ms_id :: string
  ms_conv :: string
  ms_revision :: nat
  ms_status :: string
  ms_ended :: bool
  ms_due :: "int option"

definition state_of :: "bool \<Rightarrow> message \<Rightarrow> message_state" where
  "state_of due m =
     \<lparr>ms_id = m_id m, ms_conv = m_conv m, ms_revision = m_revision m, ms_status = m_status m,
      ms_ended = status_terminal (m_status m), ms_due = (if due then m_human_due m else None)\<rparr>"

definition get_message_state :: "string \<Rightarrow> store \<Rightarrow> message_state result" where
  "get_message_state i s =
     mapped (option_or GormNotFound (map_option (state_of False) (get_msg i s)))"

definition get_message_states :: "string \<Rightarrow> string list \<Rightarrow> store \<Rightarrow> message_state list" where
  "get_message_states conv ids s =
     (if ids = [] then []
      else map (state_of True) (filter (\<lambda>m. m_conv m = conv \<and> m_id m \<in> set ids) (st_msgs s)))"

definition latest_message_id :: "string \<Rightarrow> store \<Rightarrow> string" where
  "latest_message_id conv s =
     (case desc_limit m_id 1 (filter (\<lambda>m. m_conv m = conv) (st_msgs s)) of
        [] \<Rightarrow> [] | m # _ \<Rightarrow> m_id m)"

definition list_stream_messages ::
    "env \<Rightarrow> string \<Rightarrow> string \<Rightarrow> string \<Rightarrow> nat \<Rightarrow> store \<Rightarrow> message list result" where
  "list_stream_messages e conv after watermark limit s =
     read_messages e s (asc_limit m_id limit
       (filter (\<lambda>m. m_conv m = conv \<and> after < m_id m
          \<and> (after < watermark \<longrightarrow>
               watermark < m_id m \<or> m_status m = MessageStatusStreaming \<or> m_human_due m \<noteq> None))
          (st_msgs s)))"

section \<open>Inbox\<close>

definition addressed :: "actor_ref \<Rightarrow> message \<Rightarrow> bool" where
  "addressed actor m \<longleftrightarrow> (m_target m = actor \<or> m_target m = no_actor) \<and> m_source m \<noteq> actor"

definition inbox_rows :: "string \<Rightarrow> actor_ref \<Rightarrow> string \<Rightarrow> store \<Rightarrow> message list" where
  "inbox_rows conv actor after s =
     filter (\<lambda>m. m_conv m = conv \<and> after < m_id m \<and> addressed actor m) (st_msgs s)"

definition list_inbox ::
    "env \<Rightarrow> string \<Rightarrow> actor_ref \<Rightarrow> string \<Rightarrow> nat \<Rightarrow> store \<Rightarrow> message list result" where
  "list_inbox e conv actor after limit s =
     mapped (read_messages e s (asc_limit m_id limit (inbox_rows conv actor after s)))"

definition pending_dispatches :: "env \<Rightarrow> nat \<Rightarrow> store \<Rightarrow> message list result" where
  "pending_dispatches e limit s =
     mapped (read_messages e s (asc_limit m_id limit (filter m_dispatch (st_msgs s))))"

definition update_msg :: "string \<Rightarrow> (message \<Rightarrow> message) \<Rightarrow> store \<Rightarrow> store" where
  "update_msg i f s = (case get_msg i s of None \<Rightarrow> s | Some m \<Rightarrow> put_msg (f m) s)"

definition acknowledge_dispatch :: "string \<Rightarrow> store \<Rightarrow> store" where
  "acknowledge_dispatch i s = update_msg i (\<lambda>m. m\<lparr>m_dispatch := False\<rparr>) s"

text \<open>\<^verbatim>\<open>GetDeliveryInput\<close> (\<^verbatim>\<open>chat.go\<close>): the user message that opened a stream.\<close>

definition get_delivery_input :: "env \<Rightarrow> string \<Rightarrow> store \<Rightarrow> message result" where
  "get_delivery_input e task s =
     one_message (read_messages e s (asc_limit m_id 1
       (filter (\<lambda>m. m_task m = task \<and> ar_kind (m_source m) = ActorKindUser) (st_msgs s))))"

section \<open>Facts\<close>

text \<open>
  The unique index on a child conversation's parent and actor: every insertion keeps it.
\<close>

definition convs_unique :: "store \<Rightarrow> bool" where
  "convs_unique s \<longleftrightarrow>
     distinct (map cv_id (st_convs s))
     \<and> (\<forall>c \<in> set (st_convs s). \<forall>d \<in> set (st_convs s).
          cv_parent c \<noteq> None \<and> cv_parent c = cv_parent d \<and> cv_actor c = cv_actor d \<longrightarrow> cv_id c = cv_id d)"

lemma insert_conv_unique:
  assumes "insert_conv now c s = Inr s'" and "convs_unique s"
  shows "convs_unique s'"
proof -
  let ?c = "c\<lparr>cv_created := now, cv_updated := now\<rparr>"
  have s': "st_convs s' = st_convs s @ [?c]"
    and none: "get_conv (cv_id c) s = None"
    and fresh: "cv_parent c \<noteq> None \<Longrightarrow> d \<in> set (st_convs s) \<Longrightarrow> cv_parent d = cv_parent c \<Longrightarrow>
                  cv_actor d \<noteq> cv_actor c" for d
    using assms(1) by (auto simp: insert_conv_def split: if_splits)
  have "cv_id c \<notin> cv_id ` set (st_convs s)"
    using none by (simp add: get_conv_def tbl_find_None)
  then have "distinct (map cv_id (st_convs s'))"
    using assms(2) by (simp add: s' convs_unique_def)
  moreover have "cv_id a = cv_id b"
    if ab: "a \<in> set (st_convs s')" "b \<in> set (st_convs s')"
      "cv_parent a \<noteq> None" "cv_parent a = cv_parent b" "cv_actor a = cv_actor b" for a b
  proof -
    consider "a \<in> set (st_convs s)" "b \<in> set (st_convs s)" | "a = ?c" "b = ?c"
      | "a = ?c" "b \<in> set (st_convs s)" | "b = ?c" "a \<in> set (st_convs s)"
      using ab(1,2) unfolding s' set_append list.set by blast
    then show ?thesis
    proof cases
      case 1
      then show ?thesis using assms(2) ab(3-5) unfolding convs_unique_def by blast
    next
      case 2
      then show ?thesis by (simp only:)
    next
      case 3
      have "cv_parent c \<noteq> None" "cv_parent b = cv_parent c" "cv_actor b = cv_actor c"
        using ab(3-5) unfolding 3(1) by simp_all
      then show ?thesis using fresh 3(2) by blast
    next
      case 4
      have "cv_parent c \<noteq> None" "cv_parent a = cv_parent c" "cv_actor a = cv_actor c"
        using ab(3-5) unfolding 4(1) by simp_all
      then show ?thesis using fresh 4(2) by blast
    qed
  qed
  ultimately show ?thesis unfolding convs_unique_def by blast
qed

lemma detail_conversation_sel [simp]:
  "cv_id (detail_conversation e s parent actor) = fresh_id e s"
  "cv_parent (detail_conversation e s parent actor) = Some (cv_id parent)"
  "cv_actor (detail_conversation e s parent actor) = actor"
  by (simp_all add: detail_conversation_def)

lemma ensure_participant_split:
  assumes "ensure_participant_conversation e now parent actor s = Inr s'"
  shows "s' = s \<or> (root_conversation parent \<and> valid_target actor
           \<and> insert_conv now (detail_conversation e s parent actor) (draw s) = Inr s')"
  using assms by (simp add: ensure_participant_conversation_def split: if_splits)

lemmas ensure_participant_cases = ensure_participant_split [THEN disjE]

lemma draw_frame [simp]:
  "st_msgs (draw s) = st_msgs s" "st_parts (draw s) = st_parts s" "st_runs (draw s) = st_runs s"
  "st_convs (draw s) = st_convs s" "st_locks (draw s) = st_locks s" "st_uuid (draw s) = Suc (st_uuid s)"
  by (simp_all add: draw_def)

lemma ensure_participant_frame:
  assumes "ensure_participant_conversation e now parent actor s = Inr s'"
  shows "st_msgs s' = st_msgs s" "st_parts s' = st_parts s" "st_runs s' = st_runs s"
    "st_locks s' = st_locks s" "st_uuid s \<le> st_uuid s'" "\<exists>cs. st_convs s' = st_convs s @ cs"
proof -
  have "s' = s \<or> (\<exists>c. insert_conv now c (draw s) = Inr s')"
    using assms
    by (rule ensure_participant_cases) blast+
  then have "st_msgs s' = st_msgs s \<and> st_parts s' = st_parts s \<and> st_runs s' = st_runs s
      \<and> st_locks s' = st_locks s \<and> st_uuid s \<le> st_uuid s' \<and> (\<exists>cs. st_convs s' = st_convs s @ cs)"
  proof
    assume "\<exists>c. insert_conv now c (draw s) = Inr s'"
    then obtain c where "insert_conv now c (draw s) = Inr s'" ..
    note f = insert_conv_frame [OF this]
    show ?thesis by (simp add: f)
  qed simp
  then show "st_msgs s' = st_msgs s" "st_parts s' = st_parts s" "st_runs s' = st_runs s"
    "st_locks s' = st_locks s" "st_uuid s \<le> st_uuid s'" "\<exists>cs. st_convs s' = st_convs s @ cs"
    by blast+
qed

lemma convs_unique_draw [simp]: "convs_unique (draw s) = convs_unique s"
  by (simp add: convs_unique_def)

lemma ensure_participant_unique:
  assumes "ensure_participant_conversation e now parent actor s = Inr s'" and "convs_unique s"
  shows "convs_unique s'"
  using ensure_participant_split [OF assms(1)] insert_conv_unique assms(2) convs_unique_draw by blast

lemma ensure_participant_exists:
  assumes "ensure_participant_conversation e now parent actor s = Inr s'"
    and "root_conversation parent" and "valid_target actor"
  shows "\<exists>d \<in> set (st_convs s'). cv_parent d = Some (cv_id parent) \<and> cv_actor d = actor"
  using assms
  by (auto simp: ensure_participant_conversation_def split: if_splits dest!: insert_conv_frame)

lemma get_msg_update_msg:
  "(\<And>m. m_id (f m) = m_id m) \<Longrightarrow>
     get_msg i (update_msg j f s) = (if i = j then map_option f (get_msg i s) else get_msg i s)"
  by (auto simp: update_msg_def msgs.find_put dest: msgs.find_key split: option.splits)

end
