(* ===== verification/Layout.thy ===== *)
theory Layout
  imports Conversations
begin

text \<open>
  Correctness of the physical layout (\<open>Parts\<close>). A part is seen through its \<open>part_view\<close>: the
  cached version if it was loaded, the decoded rows otherwise. \<open>view_ok\<close> says that every
  block lives in one part only, the one its reference names; \<open>place\<close> keeps it and adds one
  block, so packing keeps what the snapshot resolves to; \<open>persist\<close> makes the rows agree with
  the view; reading the rows back gives the logical blocks.
\<close>

section \<open>What is assumed of the UI and storage packages\<close>

definition logical :: "env \<Rightarrow> json \<Rightarrow> bool" where
  "logical e b \<longleftrightarrow> block_shape b \<and> e_valid_block e b \<and> \<not> has_ref b \<and> \<not> btype_is (e_frame_type e) b"

definition frame_ok :: "env \<Rightarrow> json \<Rightarrow> bool" where
  "frame_ok e f \<longleftrightarrow> block_shape f \<and> e_valid_block e f \<and> \<not> has_ref f \<and> btype_is (e_frame_type e) f"

text \<open>Replacing bodies by references.\<close>

definition externalized :: "json list \<Rightarrow> json list \<Rightarrow> bool" where
  "externalized bs bs' \<longleftrightarrow>
     list_all2 (\<lambda>b b'. b' = b \<or> (\<not> has_ref b \<and> (\<exists>r. r \<noteq> [] \<and> b' = ref_block (bid b) r))) bs bs'"

definition ui_laws :: "env \<Rightarrow> bool" where
  "ui_laws e \<longleftrightarrow>
     (\<forall>v. e_valid_model e v \<longrightarrow> snapshot_shape v \<and> distinct (map bid (jblocks v))
        \<and> (\<forall>b \<in> set (jblocks v). if has_ref b then \<exists>r. bref b = Some r \<and> r \<noteq> [] else e_valid_block e b))
   \<and> (\<forall>v bs. e_valid_model e v \<and> externalized (jblocks v) bs
        \<longrightarrow> e_valid_model e (set_version e (set_blocks bs v)))
   \<and> (\<forall>b n fs. e_frame e b n = Inr fs
        \<longrightarrow> fs \<noteq> [] \<and> list_all (frame_ok e) fs \<and> distinct (map bid fs) \<and> e_unframe e fs = Inr b)
   \<and> (\<forall>n. e_uuid e n \<noteq> []) \<and> uuid_ok e"

lemma ui_laws_model:
  assumes "ui_laws e" and "e_valid_model e v"
  shows "snapshot_shape v" "distinct (map bid (jblocks v))"
    "\<And>b. b \<in> set (jblocks v) \<Longrightarrow> \<not> has_ref b \<Longrightarrow> e_valid_block e b"
    "\<And>b. b \<in> set (jblocks v) \<Longrightarrow> has_ref b \<Longrightarrow> \<exists>r. bref b = Some r \<and> r \<noteq> []"
proof -
  have all: "snapshot_shape v \<and> distinct (map bid (jblocks v))
        \<and> (\<forall>b \<in> set (jblocks v). if has_ref b then \<exists>r. bref b = Some r \<and> r \<noteq> [] else e_valid_block e b)"
    using assms unfolding ui_laws_def by blast
  then show "snapshot_shape v" "distinct (map bid (jblocks v))" by blast+
  fix b assume "b \<in> set (jblocks v)"
  then have b: "if has_ref b then \<exists>r. bref b = Some r \<and> r \<noteq> [] else e_valid_block e b" using all by blast
  show "e_valid_block e b" if "\<not> has_ref b" using b that by simp
  show "\<exists>r. bref b = Some r \<and> r \<noteq> []" if "has_ref b" using b that by simp
qed

lemma ui_laws_external:
  "ui_laws e \<Longrightarrow> e_valid_model e v \<Longrightarrow> externalized (jblocks v) bs \<Longrightarrow>
     e_valid_model e (set_version e (set_blocks bs v))"
  unfolding ui_laws_def by blast

lemma ui_laws_frame:
  assumes "ui_laws e" and "e_frame e b n = Inr fs"
  shows "fs \<noteq> []" "list_all (frame_ok e) fs" "distinct (map bid fs)" "e_unframe e fs = Inr b"
  using assms unfolding ui_laws_def by blast+

lemma ui_laws_uuid: "ui_laws e \<Longrightarrow> e_uuid e n \<noteq> []" "ui_laws e \<Longrightarrow> uuid_ok e"
  unfolding ui_laws_def by blast+

section \<open>Blocks\<close>

lemma block_shape_id: "block_shape b \<Longrightarrow> jget ''id'' b = Some (JStr (bid b))"
  by (auto simp: block_shape_def bid_def split: option.splits elim!: jstr.elims)

lemma jget_id_iff: "block_shape b \<Longrightarrow> jget ''id'' b = Some (JStr i) \<longleftrightarrow> bid b = i"
  by (simp add: block_shape_id)

lemma ref_block_simps [simp]:
  "bid (ref_block i r) = i" "bref (ref_block i r) = Some r" "has_ref (ref_block i r)"
  "block_shape (ref_block i r)"
  by (simp_all add: ref_block_def bid_def bref_def has_ref_def block_shape_def)

lemma bref_has_ref: "bref b \<noteq> None \<Longrightarrow> has_ref b"
  by (cases "jget ''ref'' b") (simp_all add: bref_def has_ref_def)

lemma not_has_ref_bref: "\<not> has_ref b \<Longrightarrow> bref b = None"
  by (auto simp: bref_def has_ref_def)

lemma logical_shape: "logical e b \<Longrightarrow> block_shape b"
  by (simp add: logical_def)

lemma find_block_member:
  assumes "list_all block_shape bs" and "distinct (map bid bs)" and "b \<in> set bs"
  shows "find_block (bid b) bs = Some b"
  using assms
proof (induction bs)
  case (Cons x xs)
  then have "block_shape x" by simp
  then have "jget ''id'' x = Some (JStr (bid b)) \<longleftrightarrow> bid x = bid b"
    by (rule jget_id_iff)
  moreover have "x = b" if "bid x = bid b"
  proof (rule ccontr)
    assume "x \<noteq> b"
    then have "b \<in> set xs" using Cons.prems(3) by simp
    then have "bid b \<in> bid ` set xs" by simp
    then show False using Cons.prems(2) that by simp
  qed
  ultimately show ?case
    using Cons by (cases "bid x = bid b") (auto simp: find_block_def)
qed simp

lemma index_of_Some:
  "index_of i bs = Some k \<Longrightarrow> k < length bs \<and> jget ''id'' (bs ! k) = Some (JStr i)"
  by (induction bs arbitrary: k) (auto split: if_splits)

section \<open>Decoding what was encoded\<close>

lemma decode_blocks_logical:
  assumes "list_all (logical e) bs" and "distinct (map bid bs)" and "set (map bid bs) \<inter> set ids = {}"
  shows "\<exists>ids'. decode_blocks e bs (ids, fs, acc) = Inr (ids', fs, acc @ bs)"
  using assms
proof (induction bs arbitrary: ids acc)
  case (Cons b bs)
  from Cons.prems have b: "e_valid_block e b" "\<not> has_ref b" "block_shape b"
      "\<not> btype_is (e_frame_type e) b" "bid b \<notin> set ids"
    by (auto simp: logical_def)
  have "\<exists>ids'. decode_blocks e bs (bid b # ids, fs, acc @ [b]) = Inr (ids', fs, (acc @ [b]) @ bs)"
    by (rule Cons.IH) (use Cons.prems in auto)
  then show ?case using b by simp
qed simp

lemma decode_blocks_frame:
  assumes "frame_ok e f" and "bid f \<notin> set ids"
  shows "decode_blocks e [f] (ids, fs, acc) = Inr (bid f # ids, fs @ [f], acc)"
  using assms by (simp add: frame_ok_def)

lemma body_blocks_marshal:
  "list_all is_obj bs \<Longrightarrow> body_blocks (marshal (part_body bs)) = Inr bs"
proof -
  assume a: "list_all is_obj bs"
  then have "map (\<lambda>b. if b = JNull then JObj [] else b) bs = bs"
    by (induction bs) auto
  moreover from a have "list_all is_struct bs"
    by (induction bs) (auto simp: is_struct_def)
  ultimately show ?thesis
    by (simp add: body_blocks_def part_body_def struct_blocks_def)
qed

lemma block_shape_obj: "block_shape b \<Longrightarrow> is_obj b"
  by (simp add: block_shape_def)

lemma logical_objs: "list_all (logical e) bs \<Longrightarrow> list_all is_obj bs"
  by (induction bs) (auto simp: logical_def block_shape_def)

text \<open>Rows of one group that carry one frame each.\<close>

lemma decode_rows_frames:
  assumes "list_all (frame_ok e) fs" and "distinct (map bid fs)"
    and "set (map bid fs) \<inter> set ids = {}"
    and "list_all2 (\<lambda>r f. p_message r = o' \<and> p_group r = g \<and> p_content r = marshal (part_body [f])) rows fs"
    and "p_message r0 = o'" and "p_group r0 = g"
  shows "\<exists>ids'. decode_rows e r0 rows (ids, acc, bl) = Inr (ids', acc @ fs, bl)"
  using assms
proof (induction fs arbitrary: rows ids acc)
  case (Cons f fs)
  from Cons.prems(4) obtain r rs where r: "rows = r # rs" "p_message r = o'" "p_group r = g"
      "p_content r = marshal (part_body [f])"
      "list_all2 (\<lambda>r f. p_message r = o' \<and> p_group r = g \<and> p_content r = marshal (part_body [f])) rs fs"
    by (auto simp: list_all2_Cons2)
  have f: "frame_ok e f" "bid f \<notin> set ids" using Cons.prems by auto
  then have "is_obj f" by (simp add: frame_ok_def block_shape_def)
  then have "body_blocks (p_content r) = Inr [f]"
    by (simp add: r(4) body_blocks_marshal)
  moreover note decode_blocks_frame [OF f]
  moreover have "\<exists>ids'. decode_rows e r0 rs (bid f # ids, acc @ [f], bl) = Inr (ids', (acc @ [f]) @ fs, bl)"
    by (rule Cons.IH) (use Cons.prems r in auto)
  ultimately show ?case using r Cons.prems by simp
qed simp

lemma decode_part_plain:
  assumes "list_all (logical e) bs" and "distinct (map bid bs)" and "g \<noteq> []"
    and "p_message r = o'" and "p_group r = g" and "p_content r = marshal (part_body bs)"
  shows "decode_part e [r] = Inr \<lparr>cp_group = g, cp_owner = o', cp_blocks = bs, cp_dirty = False\<rparr>"
proof -
  obtain ids' where "decode_blocks e bs ([], [], []) = Inr (ids', [], bs)"
    using decode_blocks_logical [OF assms(1,2), of "[]" "[]" "[]"] by auto
  moreover have "body_blocks (p_content r) = Inr bs"
    using assms(1,6) by (simp add: body_blocks_marshal logical_objs)
  ultimately show ?thesis using assms(3-5) by (simp add: decode_part_def)
qed

lemma decode_part_framed:
  assumes "fs \<noteq> []" and "list_all (frame_ok e) fs" and "distinct (map bid fs)"
    and "e_unframe e fs = Inr b" and "is_obj b" and "g \<noteq> []"
    and "list_all2 (\<lambda>r f. p_message r = o' \<and> p_group r = g \<and> p_content r = marshal (part_body [f])) rows fs"
  shows "decode_part e rows = Inr \<lparr>cp_group = g, cp_owner = o', cp_blocks = [b], cp_dirty = False\<rparr>"
proof -
  from assms(1,7) obtain r0 rs where r0: "rows = r0 # rs" "p_message r0 = o'" "p_group r0 = g"
    by (cases fs) (auto simp: list_all2_Cons2)
  obtain ids' where "decode_rows e r0 rows ([], [], []) = Inr (ids', fs, [])"
    using decode_rows_frames [OF assms(2,3) _ assms(7) r0(2,3), of "[]" "[]" "[]"] by auto
  then show ?thesis using assms(1,4,5,6) r0 by (simp add: decode_part_def)
qed

section \<open>The view of the parts\<close>

definition stored_part :: "env \<Rightarrow> store \<Rightarrow> string \<Rightarrow> string \<Rightarrow> cpart result" where
  "stored_part e s owner key = decode_part e (group_rows s owner key)"

definition part_view :: "env \<Rightarrow> store \<Rightarrow> mcontent \<Rightarrow> string \<Rightarrow> json list option" where
  "part_view e s c key =
     (case map_of (mc_parts c) key of
        Some p \<Rightarrow> Some (cp_blocks p)
      | None \<Rightarrow> (case stored_part e s (mc_owner c) key of Inr p \<Rightarrow> Some (cp_blocks p) | Inl _ \<Rightarrow> None))"

type_synonym placement = "string \<times> string \<times> json"

text \<open>
  \<open>placed\<close> lists the blocks that already have a home: identifier, group, body. Every other
  block of a part is one whose original reference names that part.
\<close>

definition homed :: "(string \<Rightarrow> string) \<Rightarrow> placement set \<Rightarrow> string \<Rightarrow> json \<Rightarrow> bool" where
  "homed refs placed key b \<longleftrightarrow>
     (if bid b \<in> fst ` placed then (bid b, key, b) \<in> placed else refs (bid b) = key)"

definition part_ok ::
    "env \<Rightarrow> (string \<Rightarrow> string) \<Rightarrow> placement set \<Rightarrow> string \<Rightarrow> json list \<Rightarrow> bool" where
  "part_ok e refs placed key bs \<longleftrightarrow>
     key \<noteq> [] \<and> list_all (logical e) bs \<and> distinct (map bid bs) \<and> (\<forall>b \<in> set bs. homed refs placed key b)"

definition view_ok ::
    "env \<Rightarrow> (string \<Rightarrow> string) \<Rightarrow> (string \<Rightarrow> json list option) \<Rightarrow> placement set \<Rightarrow> bool" where
  "view_ok e refs V placed \<longleftrightarrow>
     (\<forall>key bs. V key = Some bs \<longrightarrow> part_ok e refs placed key bs)
   \<and> (\<forall>i r b. (i, r, b) \<in> placed \<longrightarrow> bid b = i \<and> (\<exists>bs. V r = Some bs \<and> b \<in> set bs))"

lemma view_ok_part: "view_ok e refs V placed \<Longrightarrow> V key = Some bs \<Longrightarrow> part_ok e refs placed key bs"
  unfolding view_ok_def by blast

lemma view_ok_placed:
  assumes "view_ok e refs V placed" and "(i, r, b) \<in> placed"
  shows "bid b = i" "\<exists>bs. V r = Some bs \<and> b \<in> set bs"
  using assms unfolding view_ok_def by blast+

lemma homed_insert: "homed refs P key x \<Longrightarrow> bid x \<noteq> i \<Longrightarrow> homed refs (insert (i, r, y) P) key x"
  by (auto simp: homed_def split: if_splits)

lemma homed_new: "homed refs (insert (bid b, key, b) P) key b"
  by (simp add: homed_def)

lemma homed_free: "homed refs P key x \<Longrightarrow> bid x \<notin> fst ` P \<Longrightarrow> refs (bid x) = key"
  by (simp add: homed_def)

text \<open>
  Giving one block its home: the new view holds it in one part, no other block of that
  identifier anywhere, and keeps every other block where it was.
\<close>

lemma view_ok_place:
  assumes ok: "view_ok e refs V placed" and b: "bid b \<notin> fst ` placed"
    and home: "V' key = Some bs" "b \<in> set bs"
    and parts: "\<And>k xs. V' k = Some xs \<Longrightarrow> k \<noteq> [] \<and> list_all (logical e) xs \<and> distinct (map bid xs)
        \<and> (\<forall>x \<in> set xs. (x = b \<and> k = key) \<or> (bid x \<noteq> bid b \<and> homed refs placed k x))"
    and keep: "\<And>k xs x. V k = Some xs \<Longrightarrow> x \<in> set xs \<Longrightarrow> bid x \<noteq> bid b \<Longrightarrow>
        \<exists>ys. V' k = Some ys \<and> x \<in> set ys"
  shows "view_ok e refs V' (insert (bid b, key, b) placed)"
  unfolding view_ok_def
proof (intro conjI allI impI)
  fix k xs assume V': "V' k = Some xs"
  have "homed refs (insert (bid b, key, b) placed) k x" if "x \<in> set xs" for x
    using parts [OF V'] that homed_new homed_insert by metis
  then show "part_ok e refs (insert (bid b, key, b) placed) k xs"
    using parts [OF V'] unfolding part_ok_def by blast
next
  fix i r x assume "(i, r, x) \<in> insert (bid b, key, b) placed"
  then have "(i, r, x) = (bid b, key, b) \<or> (i, r, x) \<in> placed" by blast
  then show "bid x = i"
    using view_ok_placed(1) [OF ok] by blast
next
  fix i r x assume "(i, r, x) \<in> insert (bid b, key, b) placed"
  then consider "r = key" "x = b" | "(i, r, x) \<in> placed" by blast
  then show "\<exists>bs. V' r = Some bs \<and> x \<in> set bs"
  proof cases
    case 2
    have "bid x = i" by (rule view_ok_placed(1) [OF ok 2])
    moreover have "i \<in> fst ` placed" using 2 by force
    ultimately have "bid x \<noteq> bid b" using b by metis
    then show ?thesis using keep view_ok_placed(2) [OF ok 2] by blast
  qed (use home in blast)
qed

lemma part_ok_other:
  assumes "part_ok e refs placed k xs" and "\<And>x. x \<in> set xs \<Longrightarrow> bid x \<noteq> i"
  shows "k \<noteq> [] \<and> list_all (logical e) xs \<and> distinct (map bid xs)
        \<and> (\<forall>x \<in> set xs. (x = b \<and> P) \<or> (bid x \<noteq> i \<and> homed refs placed k x))"
  using assms unfolding part_ok_def by blast

text \<open>No part other than the one the references name holds an unplaced identifier.\<close>

lemma unplaced_elsewhere:
  assumes "view_ok e refs V placed" and "V k = Some xs" and "x \<in> set xs"
    and "bid x \<notin> fst ` placed"
  shows "refs (bid x) = k"
  using assms view_ok_part homed_free unfolding part_ok_def by blast

lemma distinct_mapD: "distinct (map f xs) \<Longrightarrow> x \<in> set xs \<Longrightarrow> y \<in> set xs \<Longrightarrow> f x = f y \<Longrightarrow> x = y"
  by (metis distinct_map inj_onD)

lemma upd_SomeD:
  "(V(key := Some z)) k = Some xs \<Longrightarrow> k = key \<and> xs = z \<or> k \<noteq> key \<and> V k = Some xs"
  by (simp split: if_splits)

lemma view_ok_update:
  assumes ok: "view_ok e refs V placed" and V: "V key = Some bs"
    and i: "i < length bs" "bid (bs ! i) = bid b" and b: "logical e b" "bid b \<notin> fst ` placed"
  shows "view_ok e refs (V(key := Some (bs[i := b]))) (insert (bid b, key, b) placed)"
proof (rule view_ok_place [OF ok b(2)])
  let ?bs = "bs[i := b]"
  note P = view_ok_part [OF ok V, unfolded part_ok_def]
  have "map bid ?bs = map bid bs"
    unfolding map_update using i by (metis length_map list_update_id nth_map)
  then have dist: "distinct (map bid ?bs)" using P by simp
  have new: "b \<in> set ?bs" using i(1) by (rule set_update_memI)
  have sub: "set ?bs \<subseteq> insert b (set bs)" by (rule set_update_subset_insert)
  show "(V(key := Some ?bs)) key = Some ?bs" by simp
  show "b \<in> set ?bs" by (rule new)
  fix k xs assume "(V(key := Some ?bs)) k = Some xs"
  then consider (same) "k = key" "xs = ?bs" | (other) "k \<noteq> key" "V k = Some xs"
    by (blast dest: upd_SomeD)
  then show "k \<noteq> [] \<and> list_all (logical e) xs \<and> distinct (map bid xs)
      \<and> (\<forall>x \<in> set xs. (x = b \<and> k = key) \<or> (bid x \<noteq> bid b \<and> homed refs placed k x))"
  proof cases
    case same
    have "x = b \<or> (bid x \<noteq> bid b \<and> homed refs placed k x)" if "x \<in> set ?bs" for x
      using that sub distinct_mapD [OF dist that new] P same(1) by blast
    moreover have "list_all (logical e) ?bs"
      using P sub b(1) unfolding list_all_iff by blast
    ultimately show ?thesis using same P dist by blast
  next
    case other
    have "refs (bid (bs ! i)) = key"
      using unplaced_elsewhere [OF ok V nth_mem [OF i(1)]] i(2) b(2) by simp
    then have "bid x \<noteq> bid b" if "x \<in> set xs" for x
      using unplaced_elsewhere [OF ok other(2) that] b(2) other(1) i(2) by metis
    then show ?thesis by (rule part_ok_other [OF view_ok_part [OF ok other(2)]])
  qed
next
  fix k xs x assume kx: "V k = Some xs" "x \<in> set xs" "bid x \<noteq> bid b"
  show "\<exists>ys. (V(key := Some (bs[i := b]))) k = Some ys \<and> x \<in> set ys"
  proof (cases "k = key")
    case True
    then have "x \<in> set bs" using kx V by simp
    then obtain j where j: "j < length bs" "bs ! j = x" by (auto simp: in_set_conv_nth)
    then have "j \<noteq> i" using kx(3) i(2) by blast
    then have "x \<in> set (bs[i := b])"
      using j by (metis length_list_update nth_list_update_neq nth_mem)
    then show ?thesis using True by simp
  qed (use kx in simp)
qed

definition unheld :: "(string \<Rightarrow> json list option) \<Rightarrow> string \<Rightarrow> bool" where
  "unheld V i \<longleftrightarrow> (\<forall>k xs. V k = Some xs \<longrightarrow> (\<forall>x \<in> set xs. bid x \<noteq> i))"

lemma unheldD: "unheld V i \<Longrightarrow> V k = Some xs \<Longrightarrow> x \<in> set xs \<Longrightarrow> bid x \<noteq> i"
  unfolding unheld_def by blast

lemma view_ok_new:
  assumes ok: "view_ok e refs V placed" and V: "V key = None" "key \<noteq> []"
    and b: "logical e b" "bid b \<notin> fst ` placed"
    and free: "unheld V (bid b)"
  shows "view_ok e refs (V(key := Some [b])) (insert (bid b, key, b) placed)"
proof (rule view_ok_place [OF ok b(2)])
  show "(V(key := Some [b])) key = Some [b]" by simp
  show "b \<in> set [b]" by simp
  fix k xs assume "(V(key := Some [b])) k = Some xs"
  then consider (same) "k = key" "xs = [b]" | (other) "V k = Some xs"
    by (blast dest: upd_SomeD)
  then show "k \<noteq> [] \<and> list_all (logical e) xs \<and> distinct (map bid xs)
      \<and> (\<forall>x \<in> set xs. (x = b \<and> k = key) \<or> (bid x \<noteq> bid b \<and> homed refs placed k x))"
  proof cases
    case same
    then show ?thesis using V(2) b(1) by simp
  next
    case other
    then show ?thesis
      using part_ok_other [OF view_ok_part [OF ok other]] unheldD [OF free other] by blast
  qed
next
  fix k xs x assume "V k = Some xs" "x \<in> set xs"
  moreover from this have "k \<noteq> key" using V(1) by force
  ultimately show "\<exists>ys. (V(key := Some [b])) k = Some ys \<and> x \<in> set ys" by simp
qed

lemma view_ok_remove:
  assumes ok: "view_ok e refs V placed" and V: "V key = Some bs"
    and i: "i < length bs" "bid (bs ! i) \<notin> fst ` placed"
  shows "view_ok e refs (V(key := Some (remove_at i bs))) placed"
    and "unheld (V(key := Some (remove_at i bs))) (bid (bs ! i))"
proof -
  note P = view_ok_part [OF ok V, unfolded part_ok_def]
  have split: "bs = take i bs @ bs ! i # drop (Suc i) bs" using i(1) by (rule id_take_nth_drop)
  have sub: "set bs = insert (bs ! i) (set (remove_at i bs))"
    unfolding remove_at_def by (subst split) auto
  have dist: "distinct (map bid (remove_at i bs))" "bid (bs ! i) \<notin> bid ` set (remove_at i bs)"
  proof -
    have "distinct (map bid (take i bs @ bs ! i # drop (Suc i) bs))" using P split by simp
    then show "distinct (map bid (remove_at i bs))" "bid (bs ! i) \<notin> bid ` set (remove_at i bs)"
      unfolding remove_at_def by auto
  qed
  show "view_ok e refs (V(key := Some (remove_at i bs))) placed"
    unfolding view_ok_def
  proof (intro conjI allI impI)
    fix k xs assume "(V(key := Some (remove_at i bs))) k = Some xs"
    then consider "k = key" "xs = remove_at i bs" | "V k = Some xs"
      by (blast dest: upd_SomeD)
    then show "part_ok e refs placed k xs"
    proof cases
      case 1
      then show ?thesis using P sub dist(1) unfolding part_ok_def list_all_iff by blast
    qed (rule view_ok_part [OF ok])
  next
    fix j r x assume p: "(j, r, x) \<in> placed"
    show "bid x = j" by (rule view_ok_placed(1) [OF ok p])
    have "bid x \<in> fst ` placed" using p view_ok_placed(1) [OF ok p] by force
    then have "x \<noteq> bs ! i" using i(2) by blast
    moreover obtain xs where "V r = Some xs" "x \<in> set xs" using view_ok_placed(2) [OF ok p] by blast
    ultimately show "\<exists>ys. (V(key := Some (remove_at i bs))) r = Some ys \<and> x \<in> set ys"
      using V sub by (cases "r = key") auto
  qed
  have "bid x \<noteq> bid (bs ! i)" if "(V(key := Some (remove_at i bs))) k = Some xs" "x \<in> set xs" for k xs x
  proof (cases "k = key")
    case True
    then have "bid x \<in> bid ` set (remove_at i bs)" using that by simp
    then show ?thesis using dist(2) by metis
  next
    case False
    then have "V k = Some xs" using that(1) by simp
    moreover have "refs (bid (bs ! i)) = key"
      using unplaced_elsewhere [OF ok V _ i(2)] i(1) by simp
    ultimately show ?thesis
      using unplaced_elsewhere [OF ok _ that(2)] i(2) False by metis
  qed
  then show "unheld (V(key := Some (remove_at i bs))) (bid (bs ! i))"
    unfolding unheld_def by blast
qed

lemma view_ok_append:
  assumes ok: "view_ok e refs V placed" and V: "V key = Some bs"
    and b: "logical e b" "bid b \<notin> fst ` placed"
    and free: "unheld V (bid b)"
  shows "view_ok e refs (V(key := Some (bs @ [b]))) (insert (bid b, key, b) placed)"
proof (rule view_ok_place [OF ok b(2)])
  note P = view_ok_part [OF ok V, unfolded part_ok_def]
  show "(V(key := Some (bs @ [b]))) key = Some (bs @ [b])" by simp
  show "b \<in> set (bs @ [b])" by simp
  fix k xs assume "(V(key := Some (bs @ [b]))) k = Some xs"
  then consider (same) "k = key" "xs = bs @ [b]" | (other) "V k = Some xs"
    by (blast dest: upd_SomeD)
  then show "k \<noteq> [] \<and> list_all (logical e) xs \<and> distinct (map bid xs)
      \<and> (\<forall>x \<in> set xs. (x = b \<and> k = key) \<or> (bid x \<noteq> bid b \<and> homed refs placed k x))"
  proof cases
    case same
    have "bid b \<notin> bid ` set bs" using unheldD [OF free V] by fastforce
    then have "distinct (map bid xs)" using P same(2) by simp
    moreover have "list_all (logical e) xs" using P same(2) b(1) by simp
    moreover have "x = b \<or> (bid x \<noteq> bid b \<and> homed refs placed k x)" if "x \<in> set xs" for x
      using that same P unheldD [OF free V] by auto
    ultimately show ?thesis using same P by blast
  next
    case other
    then show ?thesis
      using part_ok_other [OF view_ok_part [OF ok other]] unheldD [OF free other] by blast
  qed
next
  fix k xs x assume "V k = Some xs" "x \<in> set xs"
  then show "\<exists>ys. (V(key := Some (bs @ [b]))) k = Some ys \<and> x \<in> set ys"
    using V by (cases "k = key") auto
qed

lemma unreferenced_free:
  assumes "view_ok e refs V placed" and "refs i = []" and "i \<notin> fst ` placed"
  shows "unheld V i"
  unfolding unheld_def
proof (intro allI impI ballI notI)
  fix k xs x assume kx: "V k = Some xs" "x \<in> set xs" "bid x = i"
  then have "refs i = k" using unplaced_elsewhere [OF assms(1) kx(1,2)] assms(3) by simp
  moreover have "k \<noteq> []" using view_ok_part [OF assms(1) kx(1)] by (simp add: part_ok_def)
  ultimately show False using assms(2) by simp
qed

lemma remove_at_update: "remove_at i (xs[i := x]) = remove_at i xs"
  by (simp add: remove_at_def)

section \<open>Loading and placing\<close>

text \<open>
  The cache agrees with the rows: a clean part is its rows, every part is filed under its
  group, and identifiers not drawn yet name no group.
\<close>

definition cache_ok :: "env \<Rightarrow> store \<Rightarrow> mcontent \<Rightarrow> bool" where
  "cache_ok e s c \<longleftrightarrow>
     distinct (map fst (mc_parts c))
   \<and> (\<forall>key p. map_of (mc_parts c) key = Some p \<longrightarrow>
        cp_group p = key \<and> cp_owner p = mc_owner c
        \<and> (\<not> cp_dirty p \<longrightarrow> stored_part e s (mc_owner c) key = Inr p))
   \<and> (\<forall>n \<ge> mc_uuid c. map_of (mc_parts c) (e_uuid e n) = None
        \<and> group_rows s (mc_owner c) (e_uuid e n) = [])"

definition layout_ok :: "env \<Rightarrow> store \<Rightarrow> mcontent \<Rightarrow> placement set \<Rightarrow> bool" where
  "layout_ok e s c placed \<longleftrightarrow>
     cache_ok e s c \<and> view_ok e (orig_ref c) (part_view e s c) placed"

lemma cache_okD:
  assumes "cache_ok e s c" and "map_of (mc_parts c) key = Some p"
  shows "cp_group p = key" "cp_owner p = mc_owner c"
    "\<not> cp_dirty p \<Longrightarrow> stored_part e s (mc_owner c) key = Inr p"
  using assms unfolding cache_ok_def by blast+

lemma cache_ok_fresh:
  assumes "cache_ok e s c" and "mc_uuid c \<le> n"
  shows "map_of (mc_parts c) (e_uuid e n) = None" "group_rows s (mc_owner c) (e_uuid e n) = []"
  using assms unfolding cache_ok_def by blast+

lemma stored_part_empty: "group_rows s o' key = [] \<Longrightarrow> \<exists>er. stored_part e s o' key = Inl er"
  by (simp add: stored_part_def decode_part_def)

lemma decode_part_head:
  assumes "decode_part e rows = Inr p"
  shows "rows \<noteq> []" "cp_group p = p_group (hd rows)" "cp_owner p = p_message (hd rows)" "\<not> cp_dirty p"
    "cp_group p \<noteq> []"
  using assms
  by (auto simp: decode_part_def bindR_eq_Inr Let_def split: list.splits if_splits prod.splits)

lemma stored_part_head:
  assumes "stored_part e s o' key = Inr p"
  shows "cp_group p = key" "cp_owner p = o'" "\<not> cp_dirty p" "key \<noteq> []"
proof -
  note D = decode_part_head [OF assms [unfolded stored_part_def]]
  have "hd (group_rows s o' key) \<in> set (group_rows s o' key)" using D(1) by simp
  then have "p_group (hd (group_rows s o' key)) = key \<and> p_message (hd (group_rows s o' key)) = o'"
    by (simp add: group_rows_def)
  then show "cp_group p = key" "cp_owner p = o'" "\<not> cp_dirty p" "key \<noteq> []" using D by simp_all
qed

lemma part_view_set:
  assumes "mc_owner c' = mc_owner c" and "map_of (mc_parts c') = (map_of (mc_parts c))(k \<mapsto> p)"
  shows "part_view e s c' = (part_view e s c)(k := Some (cp_blocks p))"
  by (rule ext) (simp add: part_view_def assms split: option.split)

text \<open>The fields that loading and placing leave alone.\<close>

definition same_root :: "mcontent \<Rightarrow> mcontent \<Rightarrow> bool" where
  "same_root c c' \<longleftrightarrow> mc_owner c' = mc_owner c \<and> mc_snap c' = mc_snap c \<and> mc_pos c' = mc_pos c
     \<and> mc_refs c' = mc_refs c \<and> mc_uuid c \<le> mc_uuid c'"

lemma same_root_refl [simp]: "same_root c c"
  by (simp add: same_root_def)

lemma same_root_trans: "same_root a b \<Longrightarrow> same_root b c \<Longrightarrow> same_root a c"
  by (simp add: same_root_def)

lemma same_root_orig: "same_root c c' \<Longrightarrow> orig_ref c' = orig_ref c"
  by (auto simp: same_root_def orig_ref_def fun_eq_iff)

lemma load_part_ok:
  assumes load: "load_part e s key c = Inr (p, c')" and cache: "cache_ok e s c"
  shows "cache_ok e s c'" "part_view e s c' = part_view e s c" "same_root c c'"
    "map_of (mc_parts c') key = Some p" "part_view e s c key = Some (cp_blocks p)"
    "mc_uuid c' = mc_uuid c"
proof -
  have "cache_ok e s c' \<and> part_view e s c' = part_view e s c \<and> same_root c c'
     \<and> map_of (mc_parts c') key = Some p \<and> part_view e s c key = Some (cp_blocks p) \<and> mc_uuid c' = mc_uuid c"
  proof (cases "map_of (mc_parts c) key")
    case (Some q)
    then have "p = q" "c' = c" using load by (auto simp: load_part_def)
    then show ?thesis using Some cache by (simp add: part_view_def)
  next
    case None
    have st: "stored_part e s (mc_owner c) key = Inr p"
      and c': "c' = c\<lparr>mc_parts := al_set key p (mc_parts c)\<rparr>"
      using load None by (auto simp: load_part_def stored_part_def bindR_eq_Inr)
    have "part_view e s c' = (part_view e s c)(key := Some (cp_blocks p))"
      by (rule part_view_set) (simp_all add: c')
    moreover have "part_view e s c key = Some (cp_blocks p)"
      using st None by (simp add: part_view_def)
    ultimately have view: "part_view e s c' = part_view e s c"
      by (metis fun_upd_triv)
    have "map_of (mc_parts c') (e_uuid e n) = None" if n: "mc_uuid c' \<le> n" for n
    proof -
      have "group_rows s (mc_owner c) (e_uuid e n) = []" "map_of (mc_parts c) (e_uuid e n) = None"
        using cache_ok_fresh [OF cache] n c' by auto
      moreover have "e_uuid e n \<noteq> key"
        using stored_part_empty [of s "mc_owner c" "e_uuid e n" e] calculation(1) st by force
      ultimately show ?thesis by (simp add: c')
    qed
    then have "cache_ok e s c'"
      using cache st stored_part_head [OF st] unfolding cache_ok_def
      by (auto simp: c' distinct_al_set)
    then show ?thesis using view st None by (simp add: c' same_root_def part_view_def)
  qed
  then show "cache_ok e s c'" "part_view e s c' = part_view e s c" "same_root c c'"
    "map_of (mc_parts c') key = Some p" "part_view e s c key = Some (cp_blocks p)"
    "mc_uuid c' = mc_uuid c"
    by blast+
qed

lemma put_part_ok:
  assumes cache: "cache_ok e s c" and key: "map_of (mc_parts c) key = Some p"
  shows "cache_ok e s (put_part key p bs c)"
    "part_view e s (put_part key p bs c) = (part_view e s c)(key := Some bs)"
    "same_root c (put_part key p bs c)" "mc_uuid (put_part key p bs c) = mc_uuid c"
    "mc_tail (put_part key p bs c) = mc_tail c"
proof -
  note D = cache_okD [OF cache key]
  have "e_uuid e n \<noteq> key" if "mc_uuid c \<le> n" for n
    using cache_ok_fresh(1) [OF cache that] key by force
  then show "cache_ok e s (put_part key p bs c)"
    using cache D(1,2) unfolding cache_ok_def by (auto simp: put_part_def distinct_al_set)
  show "part_view e s (put_part key p bs c) = (part_view e s c)(key := Some bs)"
    using part_view_set [of "put_part key p bs c" c key "p\<lparr>cp_blocks := bs, cp_dirty := True\<rparr>" e s]
    by (simp add: put_part_def)
qed (simp_all add: put_part_def same_root_def)

lemma new_part_ok:
  assumes laws: "ui_laws e" and cache: "cache_ok e s c" and new: "new_part e b c = (r, c')"
  shows "cache_ok e s c'" "part_view e s c' = (part_view e s c)(r := Some [b])"
    "same_root c c'" "part_view e s c r = None" "r \<noteq> []"
proof -
  have r: "r = e_uuid e (mc_uuid c)"
    and c': "c' = c\<lparr>mc_parts := al_set r \<lparr>cp_group = r, cp_owner = mc_owner c, cp_blocks = [b], cp_dirty = True\<rparr>
                      (mc_parts c), mc_tail := r, mc_uuid := Suc (mc_uuid c)\<rparr>"
    using new by (auto simp: new_part_def Let_def)
  note F = cache_ok_fresh [OF cache order_refl, folded r]
  show "part_view e s c r = None"
    using F stored_part_empty [OF F(2), of e] by (auto simp: part_view_def)
  show "r \<noteq> []" using ui_laws_uuid(1) [OF laws] r by simp
  have "e_uuid e n \<noteq> r" if "Suc (mc_uuid c) \<le> n" for n
    using uuid_ok_eq [OF ui_laws_uuid(2) [OF laws]] that r by simp
  then show "cache_ok e s c'"
    using cache unfolding cache_ok_def by (auto simp: c' distinct_al_set)
  show "part_view e s c' = (part_view e s c)(r := Some [b])"
    using part_view_set [of c' c r "\<lparr>cp_group = r, cp_owner = mc_owner c, cp_blocks = [b], cp_dirty = True\<rparr>" e s]
    by (simp add: c')
  show "same_root c c'" by (simp add: c' same_root_def)
qed

lemma layout_okD:
  assumes "layout_ok e s c placed"
  shows "cache_ok e s c" "view_ok e (orig_ref c) (part_view e s c) placed"
  using assms by (simp_all add: layout_ok_def)

lemma layout_okI:
  assumes "cache_ok e s c'" and "same_root c c'" and "view_ok e (orig_ref c) (part_view e s c') placed"
  shows "layout_ok e s c' placed"
  using assms same_root_orig by (simp add: layout_ok_def)

lemma new_part_layout:
  assumes laws: "ui_laws e" and ok: "layout_ok e s c placed" and new: "new_part e b c = (r, c')"
    and b: "logical e b" "bid b \<notin> fst ` placed"
    and free: "unheld (part_view e s c) (bid b)"
  shows "layout_ok e s c' (insert (bid b, r, b) placed)" "same_root c c'" "r \<noteq> []"
proof -
  note N = new_part_ok [OF laws layout_okD(1) [OF ok] new]
  show "same_root c c'" "r \<noteq> []" by (fact N)+
  show "layout_ok e s c' (insert (bid b, r, b) placed)"
    by (rule layout_okI [OF N(1,3)], unfold N(2))
      (rule view_ok_new [OF layout_okD(2) [OF ok] N(4,5) b free])
qed

lemma load_part_layout:
  assumes "load_part e s key c = Inr (p, c')" and "layout_ok e s c placed"
  shows "layout_ok e s c' placed" "same_root c c'" "map_of (mc_parts c') key = Some p"
    "part_view e s c' key = Some (cp_blocks p)" "part_view e s c' = part_view e s c"
proof -
  note L = load_part_ok [OF assms(1) layout_okD(1) [OF assms(2)]]
  show "layout_ok e s c' placed"
    using layout_okD(2) [OF assms(2)] by (intro layout_okI [OF L(1,3)]) (simp add: L(2))
qed (use load_part_ok [OF assms(1) layout_okD(1) [OF assms(2)]] in simp_all)

lemma free_of_reference:
  assumes "layout_ok e s c placed" and "orig_ref c i = []" and "i \<notin> fst ` placed"
  shows "unheld (part_view e s c) i"
  by (rule unreferenced_free [OF layout_okD(2) [OF assms(1)] assms(2,3)])

text \<open>A block whose part is loaded: replaced in place, or moved to a part of its own.\<close>

lemma place_own:
  assumes laws: "ui_laws e" and ok: "layout_ok e s c placed"
    and key: "map_of (mc_parts c) key = Some p" and i: "index_of (bid b) (cp_blocks p) = Some i"
    and b: "logical e b" "bid b \<notin> fst ` placed"
  shows "layout_ok e s (put_part key p ((cp_blocks p)[i := b]) c) (insert (bid b, key, b) placed)"
    and "new_part e b (put_part key p (remove_at i (cp_blocks p)) c) = (r, c') \<Longrightarrow>
         layout_ok e s c' (insert (bid b, r, b) placed) \<and> same_root c c' \<and> r \<noteq> []"
proof -
  let ?V = "part_view e s c" and ?bs = "cp_blocks p"
  note view = layout_okD(2) [OF ok]
  have V: "?V key = Some ?bs" using key by (simp add: part_view_def)
  have log: "list_all (logical e) ?bs" using view_ok_part [OF view V] by (simp add: part_ok_def)
  have i1: "i < length ?bs" "jget ''id'' (?bs ! i) = Some (JStr (bid b))"
    using index_of_Some [OF i] by simp_all
  then have "block_shape (?bs ! i)" using log logical_shape by (auto simp: list_all_length)
  then have id: "bid (?bs ! i) = bid b" using i1(2) jget_id_iff by blast
  note P = put_part_ok [OF layout_okD(1) [OF ok] key]
  show "layout_ok e s (put_part key p (?bs[i := b]) c) (insert (bid b, key, b) placed)"
    by (rule layout_okI [OF P(1,3)], unfold P(2)) (rule view_ok_update [OF view V i1(1) id b])
  show "layout_ok e s c' (insert (bid b, r, b) placed) \<and> same_root c c' \<and> r \<noteq> []"
    if new: "new_part e b (put_part key p (remove_at i ?bs) c) = (r, c')"
  proof -
    have un: "bid (?bs ! i) \<notin> fst ` placed" using id b(2) by simp
    note R = view_ok_remove [OF view V i1(1) un]
    let ?c1 = "put_part key p (remove_at i ?bs) c"
    have ok1: "layout_ok e s ?c1 placed"
      by (rule layout_okI [OF P(1,3)], unfold P(2)) (rule R(1))
    have free: "unheld (part_view e s ?c1) (bid b)"
      using R(2) unfolding P(2) id .
    note N = new_part_layout [OF laws ok1 new b free]
    show ?thesis using N P(3) same_root_trans by blast
  qed
qed

lemma place_ok:
  assumes laws: "ui_laws e" and ok: "layout_ok e s c placed"
    and place: "place e s maxb b c = Inr (r, c')"
    and b: "logical e b" "bid b \<notin> fst ` placed"
  shows "layout_ok e s c' (insert (bid b, r, b) placed) \<and> same_root c c' \<and> r \<noteq> []"
proof (cases "orig_ref c (bid b) = []")
  case False
  note not_own = False
  let ?key = "orig_ref c (bid b)"
  define own where "own p c1 i =
      (if part_bytes ((cp_blocks p)[i := b]) \<le> maxb \<or> length ((cp_blocks p)[i := b]) = 1
       then (?key, put_part ?key p ((cp_blocks p)[i := b]) c1)
       else new_part e b (put_part ?key p (remove_at i (cp_blocks p)) c1))" for p c1 i
  have "bindR (load_part e s ?key c) (\<lambda>(p, c1).
           case index_of (bid b) (cp_blocks p) of
             None \<Rightarrow> Inl (ErrText ''part does not contain block'')
           | Some i \<Rightarrow> Inr (own p c1 i)) = Inr (r, c')"
    using place False
    by (simp add: place_def Let_def own_def if_distrib [of Inr] remove_at_update cong: if_cong option.case_cong)
  then obtain p c1 where load: "load_part e s ?key c = Inr (p, c1)"
    and rest: "(case index_of (bid b) (cp_blocks p) of
             None \<Rightarrow> Inl (ErrText ''part does not contain block'')
           | Some i \<Rightarrow> Inr (own p c1 i)) = (Inr (r, c') :: (string \<times> mcontent) result)"
    by (rule bindR_pair)
  from rest obtain i where i: "index_of (bid b) (cp_blocks p) = Some i" and own: "own p c1 i = (r, c')"
    by (cases "index_of (bid b) (cp_blocks p)") simp_all
  have out: "(if part_bytes ((cp_blocks p)[i := b]) \<le> maxb \<or> length ((cp_blocks p)[i := b]) = 1
               then (?key, put_part ?key p ((cp_blocks p)[i := b]) c1)
               else new_part e b (put_part ?key p (remove_at i (cp_blocks p)) c1)) = (r, c')"
    using own by (simp only: own_def)
  note L = load_part_layout [OF load ok]
  note O = place_own [OF laws L(1,3) i b]
  show ?thesis
  proof (cases "part_bytes ((cp_blocks p)[i := b]) \<le> maxb \<or> length ((cp_blocks p)[i := b]) = 1")
    case True
    then have rc: "r = ?key" "c' = put_part ?key p ((cp_blocks p)[i := b]) c1"
      using out unfolding if_P [OF True] by blast+
    have "same_root c1 (put_part ?key p ((cp_blocks p)[i := b]) c1)"
      by (rule put_part_ok(3) [OF layout_okD(1) [OF L(1)] L(3)])
    then have "same_root c c'" unfolding rc by (rule same_root_trans [OF L(2)])
    then show ?thesis using O(1) not_own unfolding rc by simp
  next
    case False
    then have "new_part e b (put_part ?key p (remove_at i (cp_blocks p)) c1) = (r, c')"
      using out by (simp split: if_splits)
    from O(2) [OF this] show ?thesis using L(2) same_root_trans by blast
  qed
next
  case True
  note True' = True
  have fresh_part: ?thesis if new: "new_part e b c1 = (r, c')" and ok1: "layout_ok e s c1 placed"
    and root: "same_root c c1" for c1
  proof -
    have "orig_ref c1 (bid b) = []" using same_root_orig [OF root] True by simp
    note N = new_part_layout [OF laws ok1 new b free_of_reference [OF ok1 this b(2)]]
    show ?thesis using N root same_root_trans by blast
  qed
  show ?thesis
  proof (cases "mc_tail c = []")
    case True
    then have "new_part e b c = (r, c')" using place \<open>orig_ref c (bid b) = []\<close> by (simp add: place_def)
    then show ?thesis by (rule fresh_part [OF _ ok same_root_refl])
  next
    case False
    let ?tail = "mc_tail c"
    have "bindR (load_part e s ?tail c) (\<lambda>(p, c1).
             if part_bytes (cp_blocks p @ [b]) \<le> maxb
             then Inr (cp_group p, put_part ?tail p (cp_blocks p @ [b]) c1)
             else Inr (new_part e b c1)) = Inr (r, c')"
      using place True' False by (simp add: place_def Let_def)
    then obtain p c1 where load: "load_part e s ?tail c = Inr (p, c1)"
      and out: "(if part_bytes (cp_blocks p @ [b]) \<le> maxb
                 then Inr (cp_group p, put_part ?tail p (cp_blocks p @ [b]) c1)
                 else Inr (new_part e b c1)) = (Inr (r, c') :: (string \<times> mcontent) result)"
      by (rule bindR_pair)
    note L = load_part_layout [OF load ok]
    note C = layout_okD(1) [OF L(1)]
    show ?thesis
    proof (cases "part_bytes (cp_blocks p @ [b]) \<le> maxb")
      case True
      note P = put_part_ok [OF C L(3), of "cp_blocks p @ [b]"]
      have r: "r = ?tail" "c' = put_part ?tail p (cp_blocks p @ [b]) c1"
        using out unfolding if_P [OF True] cache_okD(1) [OF C L(3)] sum.inject prod.inject by blast+
      have un: "orig_ref c1 (bid b) = []"
        using same_root_orig [OF L(2)] \<open>orig_ref c (bid b) = []\<close> by simp
      have "view_ok e (orig_ref c1) ((part_view e s c1)(?tail := Some (cp_blocks p @ [b])))
              (insert (bid b, ?tail, b) placed)"
        by (rule view_ok_append [OF layout_okD(2) [OF L(1)] L(4) b])
          (rule free_of_reference [OF L(1) un b(2)])
      then have "layout_ok e s c' (insert (bid b, r, b) placed)"
        unfolding r by (intro layout_okI [OF P(1,3)]) (simp add: P(2))
      moreover have "same_root c c'"
        unfolding r by (rule same_root_trans [OF L(2) P(3)])
      ultimately show ?thesis using False unfolding r by simp
    next
      case False
      then have "new_part e b c1 = (r, c')" using out by simp
      then show ?thesis by (rule fresh_part [OF _ L(1,2)])
    qed
  qed
qed

section \<open>Packing\<close>

text \<open>
  What a stored snapshot stands for: an inline block for itself, a reference for the body
  placed under its group.
\<close>

definition resolves1 :: "placement set \<Rightarrow> json \<Rightarrow> json \<Rightarrow> bool" where
  "resolves1 placed f b \<longleftrightarrow>
     bid b = bid f \<and> block_shape b
     \<and> (if has_ref b then (\<exists>r. bref b = Some r \<and> r \<noteq> [] \<and> (bid f, r, f) \<in> placed) else b = f)"

definition resolves :: "placement set \<Rightarrow> json list \<Rightarrow> json list \<Rightarrow> bool" where
  "resolves placed fs bs \<longleftrightarrow> list_all2 (resolves1 placed) fs bs"

text \<open>The blocks still inline are not placed.\<close>

definition inline_free :: "placement set \<Rightarrow> json list \<Rightarrow> bool" where
  "inline_free placed bs \<longleftrightarrow> (\<forall>b \<in> set bs. \<not> has_ref b \<longrightarrow> bid b \<notin> fst ` placed)"

lemma resolves1_mono: "resolves1 P f b \<Longrightarrow> P \<subseteq> Q \<Longrightarrow> resolves1 Q f b"
  unfolding resolves1_def by (auto split: if_splits)

lemma resolves_mono: "resolves P fs bs \<Longrightarrow> P \<subseteq> Q \<Longrightarrow> resolves Q fs bs"
  unfolding resolves_def by (erule list_all2_mono) (rule resolves1_mono)

lemma resolves_ids: "resolves P fs bs \<Longrightarrow> map bid bs = map bid fs"
  unfolding resolves_def by (induction rule: list_all2_induct) (simp_all add: resolves1_def)

lemma resolves1_ref:
  "r \<noteq> [] \<Longrightarrow> (bid f, r, f) \<in> P \<Longrightarrow> resolves1 P f (ref_block (bid f) r)"
  by (simp add: resolves1_def)

lemma resolves1_inline: "resolves1 P f b \<Longrightarrow> \<not> has_ref b \<Longrightarrow> b = f"
  by (simp add: resolves1_def)

lemma resolves_placed:
  assumes "resolves P fs bs" and "b \<in> set bs" and "has_ref b"
  shows "\<exists>f r. bref b = Some r \<and> r \<noteq> [] \<and> bid b = bid f \<and> (bid f, r, f) \<in> P"
proof -
  have "\<exists>f \<in> set fs. resolves1 P f b"
    using assms(1,2) unfolding resolves_def by (induction rule: list_all2_induct) auto
  then show ?thesis using assms(3) unfolding resolves1_def by metis
qed

lemma inline_free_Cons:
  "inline_free P (b # bs) \<longleftrightarrow> (\<not> has_ref b \<longrightarrow> bid b \<notin> fst ` P) \<and> inline_free P bs"
  by (auto simp: inline_free_def)

lemma inline_free_insert:
  "inline_free P bs \<Longrightarrow> i \<notin> bid ` set bs \<Longrightarrow> inline_free (insert (i, r, x) P) bs"
  by (auto simp: inline_free_def)

lemma inline_free_mono: "inline_free P bs \<Longrightarrow> set bs' \<subseteq> set bs \<Longrightarrow> inline_free P bs'"
  by (auto simp: inline_free_def)

lemma externalized_refl: "externalized bs bs"
  unfolding externalized_def by (simp add: list.rel_refl)

lemma externalized_Cons:
  "externalized (b # bs) (b' # bs') \<longleftrightarrow>
     (b' = b \<or> (\<not> has_ref b \<and> (\<exists>r. r \<noteq> [] \<and> b' = ref_block (bid b) r))) \<and> externalized bs bs'"
  by (simp add: externalized_def)

lemma externalized_trans:
  assumes "externalized xs ys" and "externalized ys zs"
  shows "externalized xs zs"
  unfolding externalized_def
  by (rule list_all2_trans [OF _ assms(1)[unfolded externalized_def] assms(2)[unfolded externalized_def]]) auto

text \<open>
  The forward pass: what the snapshot resolves to does not change, new placements are only
  added, and the blocks left inline are not placed.
\<close>

lemma pack_forward_ok:
  assumes "ui_laws e"
    and "pack_forward e s cf count bytes external bs c = Inr (bs', x, c')"
    and "layout_ok e s c P" and "resolves P fs bs" and "inline_free P bs" and "distinct (map bid bs)"
    and "\<And>b. b \<in> set bs \<Longrightarrow> \<not> has_ref b \<Longrightarrow> logical e b"
  shows "\<exists>Q. P \<subseteq> Q \<and> fst ` Q \<subseteq> fst ` P \<union> bid ` set bs \<and> layout_ok e s c' Q \<and> resolves Q fs bs'
      \<and> inline_free Q bs' \<and> same_root c c' \<and> externalized bs bs'
      \<and> (x = (external \<or> (\<exists>b \<in> set bs'. has_ref b)))"
  using assms
proof (induction bs arbitrary: count bytes external c P fs bs' x c')
  case Nil
  then show ?case by (auto simp: externalized_refl)
next
  case (Cons b bs)
  note laws = Cons.prems(1)
  from Cons.prems(4) obtain f fs1 where fs: "fs = f # fs1" "resolves1 P f b" "resolves P fs1 bs"
    by (auto simp: resolves_def list_all2_Cons2)
  have free: "\<not> has_ref b \<Longrightarrow> bid b \<notin> fst ` P" "inline_free P bs"
    using Cons.prems(5) by (auto simp: inline_free_Cons)
  have dist: "bid b \<notin> bid ` set bs" "distinct (map bid bs)" using Cons.prems(6) by auto
  have log: "\<And>b. b \<in> set bs \<Longrightarrow> \<not> has_ref b \<Longrightarrow> logical e b" using Cons.prems(7) by simp
  show ?case
  proof (cases "has_ref b \<or> (\<not> external \<and> orig_ref c (bid b) = [] \<and> count < cf_inline cf
                   \<and> bytes + jlen b \<le> cf_max cf)")
    case True
    then obtain ext count' bytes' bs1 x1 where
      rest: "pack_forward e s cf count' bytes' ext bs c = Inr (bs1, x1, c')"
      and out: "bs' = b # bs1" "x = x1" and ext: "ext = (external \<or> has_ref b)"
    proof (cases "has_ref b")
      case True
      then show thesis using Cons.prems(2) that [where ext = True]
        by (auto simp: bindR_eq_Inr)
    next
      case False
      then show thesis using Cons.prems(2) True that [where ext = False]
        by (auto simp: bindR_eq_Inr)
    qed
    obtain Q where Q: "P \<subseteq> Q" "fst ` Q \<subseteq> fst ` P \<union> bid ` set bs" "layout_ok e s c' Q"
        "resolves Q fs1 bs1" "inline_free Q bs1" "same_root c c'" "externalized bs bs1"
        "x1 = (ext \<or> (\<exists>b \<in> set bs1. has_ref b))"
      using Cons.IH [OF laws rest Cons.prems(3) fs(3) free(2) dist(2) log] by blast
    have "\<not> has_ref b \<Longrightarrow> bid b \<notin> fst ` Q" using free(1) Q(2) dist(1) by blast
    then have "inline_free Q bs'" using Q(5) by (simp add: out inline_free_Cons)
    moreover have "resolves Q fs bs'"
      using Q(4) resolves1_mono [OF fs(2) Q(1)] by (simp add: out fs resolves_def)
    moreover have "externalized (b # bs) bs'" using Q(7) by (simp add: out externalized_Cons)
    moreover have "x = (external \<or> (\<exists>b \<in> set bs'. has_ref b))" using Q(8) out ext by auto
    moreover have "fst ` Q \<subseteq> fst ` P \<union> bid ` set (b # bs)" using Q(2) by auto
    ultimately show ?thesis using Q(1,3,6) by blast
  next
    case False
    then have nr: "\<not> has_ref b" by blast
    have step: "pack_forward e s cf count bytes external (b # bs) c =
        bindR (place e s (cf_max cf) b c) (\<lambda>(ref, c1).
          bindR (pack_forward e s cf count bytes True bs c1)
            (\<lambda>(bs', x, c'). Inr (ref_block (bid b) ref # bs', x, c')))"
      using False by auto
    from Cons.prems(2) [unfolded step] obtain r c1 bs1 where
      place: "place e s (cf_max cf) b c = Inr (r, c1)"
      and rest: "pack_forward e s cf count bytes True bs c1 = Inr (bs1, x, c')"
      and out: "bs' = ref_block (bid b) r # bs1"
      by (fastforce simp: bindR_eq_Inr)
    have b: "logical e b" "bid b \<notin> fst ` P" "b = f"
      using Cons.prems(7) nr free(1) fs(2) resolves1_inline by auto
    note R = place_ok [OF laws Cons.prems(3) place b(1,2)]
    let ?P = "insert (bid b, r, b) P"
    have "inline_free ?P bs" using free(2) dist(1) by (rule inline_free_insert)
    moreover have "resolves ?P fs1 bs" using fs(3) by (rule resolves_mono) blast
    ultimately obtain Q where Q: "?P \<subseteq> Q" "fst ` Q \<subseteq> fst ` ?P \<union> bid ` set bs"
        "layout_ok e s c' Q" "resolves Q fs1 bs1" "inline_free Q bs1" "same_root c1 c'"
        "externalized bs bs1" "x = (True \<or> (\<exists>b \<in> set bs1. has_ref b))"
      using Cons.IH [OF laws rest _ _ _ dist(2) log] R by blast
    have "resolves1 Q f (ref_block (bid f) r)"
      by (rule resolves1_ref) (use R Q(1) b(3) in auto)
    then have "resolves Q fs bs'" using Q(4) b(3) by (simp add: out fs resolves_def)
    moreover have "inline_free Q bs'" using Q(5) by (simp add: out inline_free_Cons)
    moreover have "externalized (b # bs) bs'"
      using Q(7) nr R by (auto simp: out externalized_Cons)
    moreover have "x = (external \<or> (\<exists>b \<in> set bs'. has_ref b))" using Q(8) by (simp add: out)
    moreover have "same_root c c'" using R Q(6) same_root_trans by blast
    moreover have "fst ` Q \<subseteq> fst ` P \<union> bid ` set (b # bs)" using Q(2) by auto
    moreover have "P \<subseteq> Q" using Q(1) by blast
    ultimately show ?thesis using Q(3) by blast
  qed
qed

text \<open>Snapshots with other blocks.\<close>

lemma snapshot_shape_obj: "snapshot_shape v \<Longrightarrow> is_obj v \<and> jget ''blocks'' v = Some (JArr (jblocks v))"
  by (cases v) (auto simp: snapshot_shape_def jblocks_def split: option.splits json.splits)

lemma snapshot_shape_blocks: "snapshot_shape v \<Longrightarrow> list_all block_shape (jblocks v)"
  by (auto simp: snapshot_shape_def jblocks_def split: option.splits json.splits)

definition has_blocks :: "json \<Rightarrow> bool" where
  "has_blocks v \<longleftrightarrow> is_obj v \<and> jget ''blocks'' v = Some (JArr (jblocks v))"

lemma set_blocks_simps [simp]:
  assumes "has_blocks v"
  shows "jblocks (set_blocks bs v) = bs" "has_blocks (set_blocks bs v)"
    "jblocks (set_version e v) = jblocks v" "has_blocks (set_version e v)"
    "set_blocks (jblocks v) v = v"
    "set_blocks bs (set_blocks bs' v) = set_blocks bs v"
    "set_version e (set_blocks bs v) = set_blocks bs (set_version e v)"
    "set_version e (set_version e v) = set_version e v"
proof -
  obtain kvs xs where v: "v = JObj kvs" "map_of kvs ''blocks'' = Some (JArr xs)"
    using assms by (cases v) (auto simp: has_blocks_def)
  have xs: "jblocks v = xs" by (simp add: v jblocks_def)
  show "jblocks (set_blocks bs v) = bs" "has_blocks (set_blocks bs v)"
    "jblocks (set_version e v) = jblocks v" "has_blocks (set_version e v)"
    "set_blocks bs (set_blocks bs' v) = set_blocks bs v"
    "set_version e (set_version e v) = set_version e v"
    by (simp_all add: v jblocks_def set_blocks_def set_version_def has_blocks_def)
  show "set_blocks (jblocks v) v = v"
    unfolding xs unfolding v(1) set_blocks_def by (simp add: al_set_same [OF v(2)])
  have "al_set ''blocks'' (JArr bs) (al_set ''version'' (JStr (e_version e)) kvs)
      = al_set ''version'' (JStr (e_version e)) (al_set ''blocks'' (JArr bs) kvs)"
    by (rule al_set_swap) (simp_all add: v(2))
  then show "set_version e (set_blocks bs v) = set_blocks bs (set_version e v)"
    by (simp add: v(1) set_blocks_def set_version_def)
qed

definition same_home :: "mcontent \<Rightarrow> mcontent \<Rightarrow> bool" where
  "same_home c c' \<longleftrightarrow> same_root (c\<lparr>mc_snap := mc_snap c'\<rparr>) c'"

lemma same_home_iff:
  "same_home c c' \<longleftrightarrow> mc_owner c' = mc_owner c \<and> mc_pos c' = mc_pos c \<and> mc_refs c' = mc_refs c
     \<and> mc_uuid c \<le> mc_uuid c'"
  by (auto simp: same_home_def same_root_def)

lemma same_home_root: "same_root c c' \<Longrightarrow> same_home c c'"
  by (simp add: same_home_iff same_root_def)

lemma same_home_trans: "same_home a b \<Longrightarrow> same_home b c \<Longrightarrow> same_home a c"
  by (simp add: same_home_iff)

lemma same_home_snap [simp]: "same_home c (c'\<lparr>mc_snap := v\<rparr>) = same_home c c'"
  by (simp add: same_home_iff)

lemma layout_ok_snap [simp]: "layout_ok e s (c\<lparr>mc_snap := v\<rparr>) P = layout_ok e s c P"
proof -
  have "part_view e s (c\<lparr>mc_snap := v\<rparr>) = part_view e s c"
    by (rule ext) (simp add: part_view_def split: option.split)
  moreover have "orig_ref (c\<lparr>mc_snap := v\<rparr>) = orig_ref c"
    by (rule ext) (simp add: orig_ref_def)
  ultimately show ?thesis by (simp add: layout_ok_def cache_ok_def)
qed

text \<open>
  The state of a packing in progress: the snapshot is the first one up to its version, with
  blocks that still resolve to \<open>fs\<close>.
\<close>

definition packing ::
    "env \<Rightarrow> store \<Rightarrow> json \<Rightarrow> json list \<Rightarrow> mcontent \<Rightarrow> placement set \<Rightarrow> bool" where
  "packing e s root fs c P \<longleftrightarrow>
     layout_ok e s c P \<and> resolves P fs (jblocks (mc_snap c)) \<and> inline_free P (jblocks (mc_snap c))
   \<and> e_valid_model e (mc_snap c)
   \<and> (\<forall>b \<in> set (jblocks (mc_snap c)). \<not> has_ref b \<longrightarrow> logical e b)
   \<and> (\<exists>v. (v = root \<or> v = set_version e root \<and> P \<noteq> {}) \<and> mc_snap c = set_blocks (jblocks (mc_snap c)) v)"

lemma model_has_blocks: "ui_laws e \<Longrightarrow> e_valid_model e v \<Longrightarrow> has_blocks v"
  using ui_laws_model(1) snapshot_shape_obj by (auto simp: has_blocks_def)

lemma inline_free_update:
  assumes "inline_free P bs" and "distinct (map bid bs)" and "i < length bs" and "bid (bs ! i) = bid b"
  shows "inline_free (insert (bid b, r, b) P) (bs[i := ref_block (bid b) r])"
  unfolding inline_free_def
proof (intro ballI impI)
  fix x assume x: "x \<in> set (bs[i := ref_block (bid b) r])" "\<not> has_ref x"
  then obtain k where k: "k < length bs" "x = bs[i := ref_block (bid b) r] ! k"
    by (auto simp: in_set_conv_nth)
  have "k \<noteq> i" using x(2) k assms(3) by auto
  then have xk: "x = bs ! k" using k by simp
  then have "bid x \<noteq> bid (bs ! i)"
    using assms(2,3) k(1) \<open>k \<noteq> i\<close> by (simp add: distinct_conv_nth)
  moreover have "bid x \<notin> fst ` P"
    using assms(1) x(2) xk k(1) by (simp add: inline_free_def)
  ultimately show "bid x \<notin> fst ` insert (bid b, r, b) P" using assms(4) by simp
qed

lemma externalized_update:
  assumes "i < length bs" and "bs ! i = b" and "\<not> has_ref b" and "r \<noteq> []"
  shows "externalized bs (bs[i := ref_block (bid b) r])"
  unfolding externalized_def list_all2_conv_all_nth using assms by (auto simp: nth_list_update)

lemma resolves_update:
  assumes "resolves P fs bs" and "i < length bs" and "bs ! i = b" and "\<not> has_ref b" and "r \<noteq> []"
  shows "resolves (insert (bid b, r, b) P) fs (bs[i := ref_block (bid b) r])"
proof -
  have len: "length fs = length bs" and all: "\<And>k. k < length fs \<Longrightarrow> resolves1 P (fs ! k) (bs ! k)"
    using assms(1) by (simp_all add: resolves_def list_all2_conv_all_nth)
  have f: "fs ! i = b" using all [of i] assms(2-4) len resolves1_inline by metis
  have "resolves1 (insert (bid b, r, b) P) (fs ! k) (bs[i := ref_block (bid b) r] ! k)"
    if "k < length fs" for k
  proof (cases "k = i")
    case True
    then show ?thesis using f assms(2,5) resolves1_ref [of r b] by simp
  next
    case False
    then show ?thesis using all [OF that] resolves1_mono by (metis nth_list_update_neq subset_insertI)
  qed
  then show ?thesis using len by (simp add: resolves_def list_all2_conv_all_nth)
qed

lemma pack_backward_ok:
  assumes laws: "ui_laws e"
    and "pack_backward e s cf n c = Inr c'" and "packing e s root fs c P"
    and "n \<le> length (jblocks (mc_snap c))" and root: "has_blocks root"
  shows "\<exists>Q. P \<subseteq> Q \<and> packing e s root fs c' Q \<and> same_home c c'"
  using assms(2-4)
proof (induction n arbitrary: c P)
  case 0
  then show ?case by (auto simp: same_home_iff)
next
  case (Suc i)
  let ?bs = "jblocks (mc_snap c)" and ?b = "jblocks (mc_snap c) ! i"
  show ?case
  proof (cases "jlen (mc_snap c) \<le> cf_max cf")
    case True
    then show ?thesis using Suc.prems by (auto simp: same_home_iff)
  next
    case False
    note big = False
    show ?thesis
    proof (cases "has_ref ?b")
      case True
      then show ?thesis using Suc.IH [of c P] Suc.prems big by (simp add: Let_def)
    next
      case False
      have i: "i < length ?bs" using Suc.prems(3) by simp
      have pk: "layout_ok e s c P" "resolves P fs ?bs" "inline_free P ?bs" "e_valid_model e (mc_snap c)"
          "\<And>b. b \<in> set ?bs \<Longrightarrow> \<not> has_ref b \<Longrightarrow> logical e b"
        using Suc.prems(2) unfolding packing_def by blast+
      obtain v where v: "v = root \<or> v = set_version e root" "mc_snap c = set_blocks ?bs v"
        using Suc.prems(2) unfolding packing_def by blast
      have hv: "has_blocks v" "has_blocks (mc_snap c)" using v(1) root model_has_blocks [OF laws pk(4)] by auto
      obtain r c1 where place: "place e s (cf_max cf) ?b c = Inr (r, c1)"
        and rest: "pack_backward e s cf i
               (c1\<lparr>mc_snap := set_version e (set_blocks (?bs[i := ref_block (bid ?b) r]) (mc_snap c1))\<rparr>) = Inr c'"
        using Suc.prems(1) big False by (auto simp: Let_def elim!: bindR_pair)
      have b: "logical e ?b" "bid ?b \<notin> fst ` P"
        using pk(3,5) i False by (simp_all add: inline_free_def)
      note R = place_ok [OF laws pk(1) place b]
      have snap1: "mc_snap c1 = mc_snap c" using R by (simp add: same_root_def)
      let ?bs' = "?bs[i := ref_block (bid ?b) r]"
      let ?c2 = "c1\<lparr>mc_snap := set_version e (set_blocks ?bs' (mc_snap c1))\<rparr>"
      have blocks2: "jblocks (mc_snap ?c2) = ?bs'" using hv(2) by (simp add: snap1)
      have "mc_snap ?c2 = set_blocks ?bs' (set_version e root)"
      proof -
        have "set_version e v = set_version e root" using v(1) root by auto
        then have "set_version e (mc_snap c) = set_blocks ?bs (set_version e root)"
          using v(2) hv(1) by (metis set_blocks_simps(7))
        then have "set_blocks ?bs' (set_version e (mc_snap c)) = set_blocks ?bs' (set_version e root)"
          using root by simp
        then show ?thesis using hv(2) by (simp add: snap1)
      qed
      moreover have "e_valid_model e (mc_snap ?c2)"
        using ui_laws_external [OF laws pk(4) externalized_update [OF i refl False]] R by (simp add: snap1)
      moreover have "logical e x" if "x \<in> set ?bs'" "\<not> has_ref x" for x
        using that pk(5) set_update_subset_insert [of ?bs i "ref_block (bid ?b) r"] by auto
      moreover have "resolves (insert (bid ?b, r, ?b) P) fs ?bs'"
        by (rule resolves_update [OF pk(2) i refl False]) (use R in blast)
      moreover have "inline_free (insert (bid ?b, r, ?b) P) ?bs'"
        by (rule inline_free_update [OF pk(3) ui_laws_model(2) [OF laws pk(4)] i refl])
      ultimately have "packing e s root fs ?c2 (insert (bid ?b, r, ?b) P)"
        using R unfolding packing_def blocks2 by auto
      from Suc.IH [OF rest this] i obtain Q where
        Q: "insert (bid ?b, r, ?b) P \<subseteq> Q" "packing e s root fs c' Q" "same_home ?c2 c'"
        unfolding blocks2 by auto
      have "same_home c ?c2" using same_home_root R by simp
      then show ?thesis using Q same_home_trans by blast
    qed
  qed
qed

lemma externalized_inline:
  "externalized bs bs' \<Longrightarrow> \<forall>b \<in> set bs'. \<not> has_ref b \<Longrightarrow> bs' = bs"
  unfolding externalized_def by (induction rule: list_all2_induct) auto

lemma externalized_logical:
  assumes "externalized bs bs'" and "\<And>b. b \<in> set bs \<Longrightarrow> \<not> has_ref b \<Longrightarrow> Q b"
    and "b \<in> set bs'" and "\<not> has_ref b"
  shows "Q b"
  using assms unfolding externalized_def
  by (induction rule: list_all2_induct) auto

lemma pack_content_ok:
  assumes laws: "ui_laws e" and pack: "pack_content e s cf c = Inr (stored, c')"
    and start: "packing e s (mc_snap c) fs c P"
  shows "\<exists>Q. P \<subseteq> Q \<and> packing e s (mc_snap c) fs c' Q \<and> same_home c c'
       \<and> stored = marshal (mc_snap c') \<and> jlen (mc_snap c') \<le> cf_max cf"
proof -
  let ?root = "mc_snap c" and ?bs = "jblocks (mc_snap c)"
  have pk: "layout_ok e s c P" "resolves P fs ?bs" "inline_free P ?bs" "e_valid_model e ?root"
      "\<And>b. b \<in> set ?bs \<Longrightarrow> \<not> has_ref b \<Longrightarrow> logical e b"
    using start unfolding packing_def by blast+
  have hb: "has_blocks ?root" by (rule model_has_blocks [OF laws pk(4)])
  obtain bs x c1 where fw: "pack_forward e s cf 0 0 False ?bs c = Inr (bs, x, c1)"
    and rest: "bindR (pack_backward e s cf (length bs)
          (c1\<lparr>mc_snap := (if x then set_version e (set_blocks bs (mc_snap c1))
                        else set_blocks bs (mc_snap c1))\<rparr>))
          (\<lambda>c3. if cf_max cf < jlen (mc_snap c3) then Inl ErrContentTooLarge
                else Inr (marshal (mc_snap c3), c3)) = Inr (stored, c')"
    using pack by (auto simp: pack_content_def Let_def elim!: bindR_triple)
  obtain Q where Q: "P \<subseteq> Q" "layout_ok e s c1 Q" "resolves Q fs bs" "inline_free Q bs"
      "same_root c c1" "externalized ?bs bs" "x = (False \<or> (\<exists>b \<in> set bs. has_ref b))"
    using pack_forward_ok [OF laws fw pk(1-3) ui_laws_model(2) [OF laws pk(4)] pk(5)] by blast
  have snap1: "mc_snap c1 = ?root" using Q(5) by (simp add: same_root_def)
  let ?c2 = "c1\<lparr>mc_snap := (if x then set_version e (set_blocks bs (mc_snap c1))
                        else set_blocks bs (mc_snap c1))\<rparr>"
  have blocks2: "jblocks (mc_snap ?c2) = bs" using hb by (simp add: snap1)
  have "e_valid_model e (mc_snap ?c2)"
  proof (cases x)
    case True
    then show ?thesis using ui_laws_external [OF laws pk(4) Q(6)] by (simp add: snap1)
  next
    case False
    then have "bs = ?bs" using externalized_inline [OF Q(6)] Q(7) by blast
    then show ?thesis using False hb pk(4) by (simp add: snap1)
  qed
  moreover have "\<exists>v. (v = ?root \<or> v = set_version e ?root \<and> Q \<noteq> {}) \<and> mc_snap ?c2 = set_blocks bs v"
  proof (cases x)
    case True
    then obtain b where "b \<in> set bs" "has_ref b" using Q(7) by blast
    then have "Q \<noteq> {}" using resolves_placed [OF Q(3)] by blast
    then show ?thesis using True hb by (auto simp: snap1)
  qed (use hb in \<open>auto simp: snap1\<close>)
  moreover have "\<forall>b \<in> set bs. \<not> has_ref b \<longrightarrow> logical e b"
    using externalized_logical [OF Q(6), of "logical e"] pk(5) by blast
  ultimately have pk2: "packing e s ?root fs ?c2 Q"
    using Q(2-4) unfolding packing_def blocks2 layout_ok_snap by blast
  obtain c3 where bw: "pack_backward e s cf (length bs) ?c2 = Inr c3"
    and last: "(if cf_max cf < jlen (mc_snap c3) then Inl ErrContentTooLarge
                else Inr (marshal (mc_snap c3), c3)) = (Inr (stored, c') :: (content \<times> mcontent) result)"
    by (rule bindR_obtain [OF rest])
  have out: "\<not> cf_max cf < jlen (mc_snap c3)" "stored = marshal (mc_snap c3)" "c' = c3"
    using last by (auto split: if_splits)
  have "length bs \<le> length (jblocks (mc_snap ?c2))" by (simp only: blocks2)
  from pack_backward_ok [OF laws bw pk2 this hb] obtain R where
    R: "Q \<subseteq> R" "packing e s ?root fs c3 R" "same_home ?c2 c3"
    by blast
  have "same_home c ?c2" using same_home_root [OF Q(5)] by (simp only: same_home_snap)
  then have "same_home c c3" using R(3) by (rule same_home_trans)
  moreover have "P \<subseteq> R" using Q(1) R(1) by (rule subset_trans)
  moreover have "jlen (mc_snap c3) \<le> cf_max cf" using out(1) by simp
  ultimately show ?thesis using R(2) unfolding out(2,3) by blast
qed

end
