(* ===== verification/Saving.thy ===== *)
theory Saving
  imports Layout
begin

text \<open>
  What \<open>save_message\<close> leaves in the tables and what \<open>hydrate_message\<close> reads back: pruning
  keeps the referenced bodies, \<open>persist\<close> makes the rows of every group decode to the cached
  part, and a saved message is read back as the logical content that was saved. \<open>tables_ok\<close>
  is the invariant of the two tables.
\<close>

section \<open>Persisting\<close>

lemma insert_part_frame:
  assumes "insert_part p s = Inr s'"
  shows "s' = s\<lparr>st_parts := st_parts s @ [p]\<rparr>"
  using assms by (auto simp: insert_part_def split: if_splits)

definition payload_row :: "config \<Rightarrow> string \<Rightarrow> string \<Rightarrow> message_part \<Rightarrow> json \<Rightarrow> bool" where
  "payload_row cf owner g r v \<longleftrightarrow>
     p_message r = owner \<and> p_group r = g \<and> p_content r = marshal v \<and> p_size r = jlen v
     \<and> jlen v \<le> cf_max cf"

lemma insert_payloads_ok:
  assumes "insert_payloads e cf owner g first vs s = Inr s'"
  shows "\<exists>rows n. list_all2 (payload_row cf owner g) rows vs \<and> st_uuid s \<le> n
       \<and> s' = s\<lparr>st_parts := st_parts s @ rows, st_uuid := n\<rparr>"
  using assms
proof (induction vs arbitrary: first s)
  case Nil
  then show ?case by auto
next
  case (Cons v vs)
  let ?s1 = "if first then s else draw s"
  let ?row = "\<lparr>p_id = (if first then g else fresh_id e s), p_message = owner, p_group = g,
               p_content = marshal v, p_size = jlen v\<rparr>"
  have fit: "jlen v \<le> cf_max cf" using Cons.prems by (auto split: if_splits)
  then have "bindR (insert_part ?row ?s1) (insert_payloads e cf owner g False vs) = Inr s'"
    using Cons.prems by (simp add: Let_def)
  then obtain s2 where s2: "insert_part ?row ?s1 = Inr s2"
    and rest: "insert_payloads e cf owner g False vs s2 = Inr s'"
    by (rule bindR_obtain)
  from insert_part_frame [OF s2]
  have parts2: "st_parts s2 = st_parts s @ [?row]" "st_uuid s \<le> st_uuid s2"
    and s2': "\<And>ps n. s2\<lparr>st_parts := ps, st_uuid := n\<rparr> = s\<lparr>st_parts := ps, st_uuid := n\<rparr>"
    by (auto simp: draw_def)
  from Cons.IH [OF rest] obtain rows n where R: "list_all2 (payload_row cf owner g) rows vs"
      "st_uuid s2 \<le> n" "s' = s2\<lparr>st_parts := st_parts s2 @ rows, st_uuid := n\<rparr>"
    by blast
  have "payload_row cf owner g ?row v" using fit by (simp add: payload_row_def)
  then have "list_all2 (payload_row cf owner g) (?row # rows) (v # vs)" using R(1) by simp
  moreover have "s' = s\<lparr>st_parts := st_parts s @ (?row # rows), st_uuid := n\<rparr>"
    using R(3) parts2(1) s2' by simp
  moreover have "st_uuid s \<le> n" using R(2) parts2(2) by (rule order_trans [rotated])
  ultimately show ?case by blast
qed

lemma group_rows_append:
  "group_rows (s\<lparr>st_parts := xs @ ys, st_uuid := n\<rparr>) o' k
     = filter (\<lambda>r. p_group r = k \<and> p_message r = o') xs
       @ filter (\<lambda>r. p_group r = k \<and> p_message r = o') ys"
  by (simp add: group_rows_def)

lemma payload_rows_group:
  assumes "list_all2 (payload_row cf owner g) rows vs"
  shows "filter (\<lambda>r. p_group r = k \<and> p_message r = o') rows = (if k = g \<and> o' = owner then rows else [])"
  using assms by (induction rule: list_all2_induct) (auto simp: payload_row_def)

definition part_rows ::
    "config \<Rightarrow> string \<Rightarrow> string \<Rightarrow> json list \<Rightarrow> store \<Rightarrow> store \<Rightarrow> bool" where
  "part_rows cf owner g vs s s' \<longleftrightarrow>
     (\<exists>rows. list_all2 (payload_row cf owner g) rows vs \<and> group_rows s' owner g = rows
        \<and> set (st_parts s') \<subseteq> set (st_parts s) \<union> set rows)
     \<and> (\<forall>o' k. \<not> (o' = owner \<and> k = g) \<longrightarrow> group_rows s' o' k = group_rows s o' k)
     \<and> st_uuid s \<le> st_uuid s' \<and> st_msgs s' = st_msgs s \<and> st_runs s' = st_runs s
     \<and> st_convs s' = st_convs s \<and> st_locks s' = st_locks s"

lemma replace_group_ok:
  assumes "insert_payloads e cf owner g True vs (delete_group owner g s) = Inr s'"
  shows "part_rows cf owner g vs s s'"
proof -
  let ?s0 = "delete_group owner g s"
  obtain rows n where R: "list_all2 (payload_row cf owner g) rows vs" "st_uuid ?s0 \<le> n"
      and s': "s' = ?s0\<lparr>st_parts := st_parts ?s0 @ rows, st_uuid := n\<rparr>"
    using insert_payloads_ok [OF assms] by blast
  have rows': "group_rows s' o' k =
      filter (\<lambda>r. p_group r = k \<and> p_message r = o') (st_parts ?s0)
      @ (if k = g \<and> o' = owner then rows else [])" for o' k
    unfolding s' group_rows_append payload_rows_group [OF R(1)] ..
  have gone: "filter (\<lambda>r. p_group r = g \<and> p_message r = owner) (st_parts ?s0) = []"
    by (auto simp: delete_group_def filter_empty_conv)
  have "group_rows s' owner g = rows" unfolding rows' gone by simp
  moreover have "group_rows s' o' k = group_rows s o' k" if "\<not> (o' = owner \<and> k = g)" for o' k
  proof -
    have "filter (\<lambda>r. p_group r = k \<and> p_message r = o') (st_parts ?s0) = group_rows s o' k"
      using that unfolding group_rows_def delete_group_def
      by (auto simp: filter_filter intro!: filter_cong)
    moreover have "(k = g \<and> o' = owner) = False" using that by blast
    ultimately show ?thesis unfolding rows' by (simp only: if_False append_Nil2)
  qed
  moreover have "set (st_parts s') \<subseteq> set (st_parts s) \<union> set rows"
    by (auto simp: s' delete_group_def)
  moreover have "st_uuid s \<le> st_uuid s'" "st_msgs s' = st_msgs s" "st_runs s' = st_runs s"
      "st_convs s' = st_convs s" "st_locks s' = st_locks s"
    using R(2) by (simp_all add: s' delete_group_def)
  ultimately show ?thesis using R(1) unfolding part_rows_def by blast
qed

text \<open>A group that was written decodes to the part it was written from.\<close>

definition part_wf :: "env \<Rightarrow> cpart \<Rightarrow> bool" where
  "part_wf e p \<longleftrightarrow> cp_group p \<noteq> [] \<and> list_all (logical e) (cp_blocks p) \<and> distinct (map bid (cp_blocks p))"

lemma payload_frames:
  assumes "list_all2 (payload_row cf owner g) rows (map (\<lambda>f. part_body [f]) fs)"
  shows "list_all2 (\<lambda>r f. p_message r = owner \<and> p_group r = g \<and> p_content r = marshal (part_body [f])) rows fs"
  using assms unfolding list_all2_map2 by (rule list_all2_mono) (simp add: payload_row_def)

lemma persisted_decodes:
  assumes laws: "ui_laws e" and wf: "part_wf e p" and vs: "part_payloads e cf (cp_blocks p) = Inr vs"
    and rows: "part_rows cf owner (cp_group p) vs s s'" and own: "cp_owner p = owner"
  shows "stored_part e s' owner (cp_group p) = Inr (p\<lparr>cp_dirty := False\<rparr>)"
proof -
  let ?bs = "cp_blocks p" and ?g = "cp_group p"
  obtain rs where rs: "list_all2 (payload_row cf owner ?g) rs vs" "group_rows s' owner ?g = rs"
    using rows unfolding part_rows_def by blast
  have p: "p\<lparr>cp_dirty := False\<rparr> = \<lparr>cp_group = ?g, cp_owner = owner, cp_blocks = ?bs, cp_dirty = False\<rparr>"
    using own by simp
  have wf': "?g \<noteq> []" "list_all (logical e) ?bs" "distinct (map bid ?bs)"
    using wf unfolding part_wf_def by blast+
  consider (plain) "vs = [part_body ?bs]"
    | (framed) b fs where "?bs = [b]" "e_frame e b (cf_max cf - 13) = Inr fs"
        "vs = map (\<lambda>f. part_body [f]) fs"
    using vs by (auto simp: part_payloads_def split: if_splits list.splits sum.splits)
  then show ?thesis
  proof cases
    case plain
    obtain r where "rs = [r]" "payload_row cf owner ?g r (part_body ?bs)"
      using rs(1) unfolding plain by (auto simp: list_all2_Cons2)
    then have "decode_part e rs = Inr \<lparr>cp_group = ?g, cp_owner = owner, cp_blocks = ?bs, cp_dirty = False\<rparr>"
      using decode_part_plain [OF wf'(2,3,1), of r owner] by (simp add: payload_row_def)
    then show ?thesis unfolding stored_part_def rs(2) p .
  next
    case framed
    note F = ui_laws_frame [OF laws framed(2)]
    have "is_obj b" using wf'(2) framed(1) by (simp add: logical_def block_shape_def)
    then have "decode_part e rs = Inr \<lparr>cp_group = ?g, cp_owner = owner, cp_blocks = [b], cp_dirty = False\<rparr>"
      using decode_part_framed [OF F _ wf'(1) payload_frames] rs(1) framed(3) by blast
    then show ?thesis unfolding stored_part_def rs(2) p framed(1) .
  qed
qed

definition tables_step :: "string \<Rightarrow> string set \<Rightarrow> store \<Rightarrow> store \<Rightarrow> bool" where
  "tables_step owner gs s s' \<longleftrightarrow>
     (\<forall>o' k. \<not> (o' = owner \<and> k \<in> gs) \<longrightarrow> group_rows s' o' k = group_rows s o' k)
   \<and> st_uuid s \<le> st_uuid s' \<and> st_msgs s' = st_msgs s \<and> st_runs s' = st_runs s
   \<and> st_convs s' = st_convs s \<and> st_locks s' = st_locks s"

lemma tables_step_refl [simp]: "tables_step owner gs s s"
  by (simp add: tables_step_def)

lemma tables_step_trans:
  assumes "tables_step owner gs s t" and "tables_step owner hs t u"
  shows "tables_step owner (gs \<union> hs) s u"
  using assms unfolding tables_step_def by (metis Un_iff order_trans)

lemma persist_part_step:
  assumes laws: "ui_laws e" and run: "persist_part e cf owner s p = Inr s'"
    and wf: "cp_dirty p \<Longrightarrow> part_wf e p" and own: "cp_owner p = owner"
    and clean: "\<not> cp_dirty p \<Longrightarrow> stored_part e s owner (cp_group p) = Inr p"
  shows "stored_part e s' owner (cp_group p) = Inr (p\<lparr>cp_dirty := False\<rparr>)"
    "tables_step owner {cp_group p} s s'"
proof -
  have "stored_part e s' owner (cp_group p) = Inr (p\<lparr>cp_dirty := False\<rparr>)
      \<and> tables_step owner {cp_group p} s s'"
  proof (cases "cp_dirty p")
    case False
    then have "p\<lparr>cp_dirty := False\<rparr> = p" by simp
    moreover have "s' = s" using run False by (simp add: persist_part_def)
    ultimately show ?thesis using clean [OF False] by simp
  next
    case True
    then obtain vs where vs: "part_payloads e cf (cp_blocks p) = Inr vs"
      and ins: "insert_payloads e cf owner (cp_group p) True vs (delete_group owner (cp_group p) s) = Inr s'"
      using run by (auto simp: persist_part_def elim!: bindR_obtain)
    note R = replace_group_ok [OF ins]
    have "tables_step owner {cp_group p} s s'"
      using R unfolding part_rows_def tables_step_def by blast
    then show ?thesis using persisted_decodes [OF laws wf [OF True] vs R own] by blast
  qed
  then show "stored_part e s' owner (cp_group p) = Inr (p\<lparr>cp_dirty := False\<rparr>)"
    "tables_step owner {cp_group p} s s'" by blast+
qed

lemma tables_step_stored:
  "tables_step owner gs s s' \<Longrightarrow> k \<notin> gs \<Longrightarrow> stored_part e s' owner k = stored_part e s owner k"
  unfolding tables_step_def stored_part_def by simp

lemma persist_parts_ok:
  assumes laws: "ui_laws e" and "foldR (persist_part e cf owner) s ps = Inr s'"
    and "distinct (map cp_group ps)"
    and "\<And>p. p \<in> set ps \<Longrightarrow> cp_owner p = owner"
    and "\<And>p. p \<in> set ps \<Longrightarrow> cp_dirty p \<Longrightarrow> part_wf e p"
    and "\<And>p. p \<in> set ps \<Longrightarrow> \<not> cp_dirty p \<Longrightarrow> stored_part e s owner (cp_group p) = Inr p"
  shows "(\<forall>p \<in> set ps. stored_part e s' owner (cp_group p) = Inr (p\<lparr>cp_dirty := False\<rparr>))
       \<and> tables_step owner (cp_group ` set ps) s s'"
  using assms(2-6)
proof (induction ps arbitrary: s)
  case (Cons p ps)
  obtain s1 where s1: "persist_part e cf owner s p = Inr s1"
    and rest: "foldR (persist_part e cf owner) s1 ps = Inr s'"
    using Cons.prems(1) by (auto elim!: bindR_obtain)
  have own: "cp_owner p = owner" using Cons.prems(3) by simp
  have wf: "cp_dirty p \<Longrightarrow> part_wf e p" using Cons.prems(4) by simp
  have cl: "\<not> cp_dirty p \<Longrightarrow> stored_part e s owner (cp_group p) = Inr p" using Cons.prems(5) by simp
  note P = persist_part_step [OF laws s1 wf own cl]
  have other: "stored_part e s1 owner (cp_group q) = Inr q" if "q \<in> set ps" "\<not> cp_dirty q" for q
  proof -
    have "cp_group p \<notin> cp_group ` set ps" using Cons.prems(2) by simp
    then have "cp_group q \<notin> {cp_group p}" using that(1) by (metis image_eqI singletonD)
    then show ?thesis
      using tables_step_stored [OF P(2)] Cons.prems(5) that by simp
  qed
  have IH: "(\<forall>p \<in> set ps. stored_part e s' owner (cp_group p) = Inr (p\<lparr>cp_dirty := False\<rparr>))
       \<and> tables_step owner (cp_group ` set ps) s1 s'"
    by (rule Cons.IH [OF rest]) (use Cons.prems(2-4) other in auto)
  have "cp_group p \<notin> cp_group ` set ps" using Cons.prems(2) by simp
  then have "stored_part e s' owner (cp_group p) = Inr (p\<lparr>cp_dirty := False\<rparr>)"
    using tables_step_stored IH P(1) by metis
  moreover have "tables_step owner (cp_group ` set (p # ps)) s s'"
    using tables_step_trans [OF P(2)] IH by (metis insert_is_Un list.set(2) image_insert)
  ultimately show ?case using IH by simp
qed simp

section \<open>Pruning\<close>

definition keeps :: "(string \<times> string) list \<Rightarrow> string \<Rightarrow> json list \<Rightarrow> json list" where
  "keeps kept key bs = filter (\<lambda>b. (key, bid b) \<in> set kept) bs"

lemma prune_part_ok:
  assumes run: "prune_part e s kept c key = Inr c'" and cache: "cache_ok e s c"
  shows "cache_ok e s c'" "same_root c c'"
    "\<exists>bs. part_view e s c key = Some bs \<and> part_view e s c' = (part_view e s c)(key := Some (keeps kept key bs))"
proof -
  from run obtain p c1 where load: "load_part e s key c = Inr (p, c1)"
    and out: "c' = (if length (keeps kept key (cp_blocks p)) \<noteq> length (cp_blocks p)
                    then put_part key p (keeps kept key (cp_blocks p)) c1 else c1)"
    by (auto simp: prune_part_def Let_def keeps_def elim!: bindR_pair split: if_splits)
  note L = load_part_ok [OF load cache]
  note P = put_part_ok [OF L(1,4)]
  have "cache_ok e s c' \<and> same_root c c'
     \<and> part_view e s c' = (part_view e s c)(key := Some (keeps kept key (cp_blocks p)))"
  proof (cases "length (keeps kept key (cp_blocks p)) = length (cp_blocks p)")
    case True
    then have "keeps kept key (cp_blocks p) = cp_blocks p"
      unfolding keeps_def by (metis filter_id_conv length_filter_less less_irrefl)
    then have "part_view e s c = (part_view e s c)(key := Some (keeps kept key (cp_blocks p)))"
      using L(5) by (simp add: fun_upd_idem)
    moreover have "c' = c1" using out True by simp
    ultimately show ?thesis using L(1-3) by simp
  next
    case False
    then have "c' = put_part key p (keeps kept key (cp_blocks p)) c1" using out by simp
    then show ?thesis using P L(2,3) same_root_trans by simp
  qed
  then show "cache_ok e s c'" "same_root c c'"
    "\<exists>bs. part_view e s c key = Some bs \<and> part_view e s c' = (part_view e s c)(key := Some (keeps kept key bs))"
    using L(5) by blast+
qed

definition pruned ::
    "(string \<times> string) list \<Rightarrow> string set \<Rightarrow> (string \<Rightarrow> json list option) \<Rightarrow> (string \<Rightarrow> json list option)" where
  "pruned kept keys V = (\<lambda>k. if k \<in> keys then map_option (keeps kept k) (V k) else V k)"

lemma prune_parts_ok:
  assumes "foldR (prune_part e s kept) c keys = Inr c'" and "cache_ok e s c" and "distinct keys"
  shows "cache_ok e s c' \<and> same_root c c' \<and> part_view e s c' = pruned kept (set keys) (part_view e s c)
      \<and> (\<forall>k \<in> set keys. part_view e s c k \<noteq> None)"
  using assms
proof (induction keys arbitrary: c)
  case Nil
  then show ?case by (simp add: pruned_def)
next
  case (Cons k keys)
  obtain c1 where c1: "prune_part e s kept c k = Inr c1"
    and rest: "foldR (prune_part e s kept) c1 keys = Inr c'"
    using Cons.prems(1) by (auto elim!: bindR_obtain)
  note P = prune_part_ok [OF c1 Cons.prems(2)]
  obtain bs where bs: "part_view e s c k = Some bs"
      "part_view e s c1 = (part_view e s c)(k := Some (keeps kept k bs))"
    using P(3) by blast
  have IH: "cache_ok e s c' \<and> same_root c1 c' \<and> part_view e s c' = pruned kept (set keys) (part_view e s c1)
      \<and> (\<forall>k \<in> set keys. part_view e s c1 k \<noteq> None)"
    using Cons.IH [OF rest P(1)] Cons.prems(3) by simp
  have "pruned kept (set keys) (part_view e s c1) = pruned kept (set (k # keys)) (part_view e s c)"
    using Cons.prems(3) bs by (auto simp: pruned_def fun_eq_iff)
  moreover have "part_view e s c j \<noteq> None" if "j \<in> set (k # keys)" for j
    using that IH bs by (cases "j = k") auto
  ultimately show ?case using IH P(2) same_root_trans by metis
qed

section \<open>The invariant of the message tables\<close>

definition row_view :: "env \<Rightarrow> store \<Rightarrow> string \<Rightarrow> string \<Rightarrow> json list option" where
  "row_view e s owner key =
     (case stored_part e s owner key of Inr p \<Rightarrow> Some (cp_blocks p) | Inl _ \<Rightarrow> None)"

text \<open>
  The rows of one message: its content opens, each stored block lives in the part its
  reference names, each reference has its body, and every group decodes.
\<close>

definition message_ok :: "env \<Rightarrow> store \<Rightarrow> message \<Rightarrow> bool" where
  "message_ok e s m \<longleftrightarrow>
     (\<exists>c. open_content e (m_id m) (m_content m) 0 = Inr c
        \<and> view_ok e (orig_ref c) (row_view e s (m_id m)) {}
        \<and> (\<forall>k. group_rows s (m_id m) k \<noteq> [] \<longrightarrow> row_view e s (m_id m) k \<noteq> None)
        \<and> (\<forall>b \<in> set (jblocks (mc_snap c)). has_ref b \<longrightarrow>
             (\<exists>r bs f. bref b = Some r \<and> r \<noteq> [] \<and> row_view e s (m_id m) r = Some bs
                \<and> f \<in> set bs \<and> bid f = bid b)))"

definition tables_ok :: "env \<Rightarrow> store \<Rightarrow> bool" where
  "tables_ok e s \<longleftrightarrow>
     (\<forall>i m. get_msg i s = Some m \<longrightarrow> message_ok e s m)
   \<and> (\<forall>p \<in> set (st_parts s). get_msg (p_message p) s \<noteq> None)
   \<and> (\<forall>p \<in> set (st_parts s). \<forall>n \<ge> st_uuid s. p_group p \<noteq> e_uuid e n)"

section \<open>Opening\<close>

lemma scan_blocks_root [simp]:
  "mc_snap (scan_blocks k bs c) = mc_snap c" "mc_owner (scan_blocks k bs c) = mc_owner c"
  "mc_parts (scan_blocks k bs c) = mc_parts c" "mc_uuid (scan_blocks k bs c) = mc_uuid c"
  by (induction k bs c rule: scan_blocks.induct) (simp_all add: Let_def split: option.split)

lemma scan_blocks_pos_other:
  "i \<notin> bid ` set bs \<Longrightarrow> map_of (mc_pos (scan_blocks k bs c)) i = map_of (mc_pos c) i"
  by (induction k bs c rule: scan_blocks.induct) (simp_all add: Let_def split: option.split)

lemma scan_blocks_pos:
  "distinct (map bid bs) \<Longrightarrow> j < length bs \<Longrightarrow>
     map_of (mc_pos (scan_blocks k bs c)) (bid (bs ! j)) = Some (k + j)"
proof (induction k bs c arbitrary: j rule: scan_blocks.induct)
  case (2 k b bs c)
  show ?case
  proof (cases j)
    case 0
    have "bid b \<notin> bid ` set bs" using 2(2) by simp
    then show ?thesis using 0 by (simp add: Let_def scan_blocks_pos_other split: option.split)
  next
    case (Suc j')
    then show ?thesis using 2(1) [of _ j'] 2(2,3) by (simp add: Let_def split: option.split)
  qed
qed simp

lemma scan_blocks_refs_other:
  "i \<notin> bid ` set bs \<Longrightarrow> map_of (mc_refs (scan_blocks k bs c)) i = map_of (mc_refs c) i"
  by (induction k bs c rule: scan_blocks.induct) (simp_all add: Let_def split: option.split)

lemma scan_blocks_refs:
  "distinct (map bid bs) \<Longrightarrow> b \<in> set bs \<Longrightarrow> map_of (mc_refs c) (bid b) = None \<Longrightarrow>
     map_of (mc_refs (scan_blocks k bs c)) (bid b) = bref b"
proof (induction k bs c rule: scan_blocks.induct)
  case (2 k x bs c)
  show ?case
  proof (cases "b = x")
    case True
    then have "bid b \<notin> bid ` set bs" using 2(2) by simp
    then show ?thesis using True 2(4) by (simp add: Let_def scan_blocks_refs_other split: option.split)
  next
    case False
    then have b: "b \<in> set bs" using 2(3) by simp
    moreover have "bid x \<notin> bid ` set bs" using 2(2) by simp
    then have "bid b \<noteq> bid x" using b by (metis imageI)
    ultimately show ?thesis using 2(1,2,4) by (simp add: Let_def split: option.split)
  qed
qed simp

lemma scan_blocks_refs_distinct:
  "distinct (map fst (mc_refs c)) \<Longrightarrow> distinct (map fst (mc_refs (scan_blocks k bs c)))"
  by (induction k bs c rule: scan_blocks.induct) (simp_all add: Let_def distinct_al_set split: option.split)

lemma open_content_ok:
  assumes laws: "ui_laws e" and run: "open_content e owner content n = Inr c"
  shows "decode_object content = Inr (mc_snap c)" "e_valid_model e (mc_snap c)" "mc_owner c = owner"
    "mc_parts c = []" "mc_uuid c = n" "distinct (map fst (mc_refs c))"
    "\<And>j. j < length (jblocks (mc_snap c)) \<Longrightarrow> map_of (mc_pos c) (bid (jblocks (mc_snap c) ! j)) = Some j"
    "\<And>b. b \<in> set (jblocks (mc_snap c)) \<Longrightarrow> map_of (mc_refs c) (bid b) = bref b"
    "\<And>i. i \<notin> bid ` set (jblocks (mc_snap c)) \<Longrightarrow> map_of (mc_refs c) i = None"
proof -
  obtain snap where snap: "decode_object content = Inr snap" "e_valid_model e snap"
    and c: "c = scan_blocks 0 (jblocks snap)
              \<lparr>mc_owner = owner, mc_snap = snap, mc_pos = [], mc_refs = [], mc_parts = [],
               mc_tail = [], mc_uuid = n\<rparr>"
    using run by (auto simp: open_content_def elim!: bindR_obtain split: if_splits)
  note D = ui_laws_model(2) [OF laws snap(2)]
  show "decode_object content = Inr (mc_snap c)" "e_valid_model e (mc_snap c)" "mc_owner c = owner"
    "mc_parts c = []" "mc_uuid c = n" "distinct (map fst (mc_refs c))"
    using snap by (simp_all add: c scan_blocks_refs_distinct)
  show "map_of (mc_pos c) (bid (jblocks (mc_snap c) ! j)) = Some j"
    if "j < length (jblocks (mc_snap c))" for j
    using scan_blocks_pos [OF D, of j 0] that by (simp add: c)
  show "map_of (mc_refs c) (bid b) = bref b" if "b \<in> set (jblocks (mc_snap c))" for b
    using scan_blocks_refs [OF D, of b] that by (simp add: c)
  show "map_of (mc_refs c) i = None" if "i \<notin> bid ` set (jblocks (mc_snap c))" for i
    using scan_blocks_refs_other [of i "jblocks snap"] that by (simp add: c)
qed

lemma open_content_total:
  assumes "ui_laws e" and "decode_object content = Inr v" and "e_valid_model e v"
  shows "\<exists>c. open_content e owner content n = Inr c \<and> mc_snap c = v"
  using assms ui_laws_model(1) [OF assms(1,3)] by (simp add: open_content_def)

lemma open_content_refs_Nil:
  assumes "ui_laws e" and "open_content e owner content n = Inr c"
  shows "mc_refs c = [] \<longleftrightarrow> (\<forall>b \<in> set (jblocks (mc_snap c)). bref b = None)"
proof -
  note O = open_content_ok [OF assms]
  have "mc_refs c = [] \<longleftrightarrow> (\<forall>i. map_of (mc_refs c) i = None)"
    by (cases "mc_refs c") (auto simp: map_of_eq_None_iff)
  moreover have "map_of (mc_refs c) i = None"
    if "\<forall>b \<in> set (jblocks (mc_snap c)). bref b = None" for i
  proof (cases "i \<in> bid ` set (jblocks (mc_snap c))")
    case True
    then obtain b where "i = bid b" "b \<in> set (jblocks (mc_snap c))" by blast
    then show ?thesis using O(8) that by simp
  qed (rule O(9))
  moreover have "bref b = None"
    if "\<forall>i. map_of (mc_refs c) i = None" "b \<in> set (jblocks (mc_snap c))" for b
    using O(8) [OF that(2)] that(1) by simp
  ultimately show ?thesis by blast
qed

section \<open>Reading back\<close>

text \<open>The references of a snapshot lead to the bodies \<open>fs\<close>.\<close>

definition leads_to :: "env \<Rightarrow> store \<Rightarrow> string \<Rightarrow> json list \<Rightarrow> json list \<Rightarrow> bool" where
  "leads_to e s owner fs bs \<longleftrightarrow>
     list_all2 (\<lambda>f b. bid b = bid f \<and> block_shape f \<and> (has_ref b \<longleftrightarrow> bref b \<noteq> None) \<and> \<not> has_ref f
        \<and> (case bref b of None \<Rightarrow> b = f
           | Some r \<Rightarrow> (\<exists>p. stored_part e s owner r = Inr p \<and> find_block (bid f) (cp_blocks p) = Some f))) fs bs"

text \<open>The loop over the references, from any snapshot part of whose blocks are resolved.\<close>

definition partly_read :: "json list \<Rightarrow> json list \<Rightarrow> json list \<Rightarrow> (string \<times> string) list \<Rightarrow> bool" where
  "partly_read fs bs xs rest \<longleftrightarrow>
     length xs = length bs
     \<and> (\<forall>k < length bs. xs ! k = fs ! k
          \<or> (xs ! k = bs ! k \<and> (\<exists>r. bref (bs ! k) = Some r \<and> (bid (bs ! k), r) \<in> set rest)))"

lemma materialize_cached:
  assumes "map_of (mc_pos c) i = Some k" and "bref (jblocks (mc_snap c) ! k) = Some ref"
    and "map_of (mc_parts c) ref = Some p" and "find_block i (cp_blocks p) = Some f"
  shows "materialize e s i c = Inr (c\<lparr>mc_snap := set_blocks ((jblocks (mc_snap c))[k := f]) (mc_snap c)\<rparr>)"
  using assms by (simp add: materialize_def load_part_def)

lemma materialize_inline:
  assumes "map_of (mc_pos c) i = Some k" and "bref (jblocks (mc_snap c) ! k) = None"
  shows "materialize e s i c = Inr c"
  using assms by (simp add: materialize_def)

lemma hydrate_step_resolves:
  assumes parts: "map_of parts r = Some p" "cp_owner p = mc_owner c"
    and pos: "\<And>j. j < length bs \<Longrightarrow> map_of (mc_pos c) (bid (bs ! j)) = Some j"
    and k: "k < length bs" "i = bid (bs ! k)" and fs: "\<And>j. j < length bs \<Longrightarrow> \<not> has_ref (fs ! j)"
    and dist: "distinct (map bid bs)"
    and body: "bref (bs ! k) = Some r" "find_block i (cp_blocks p) = Some (fs ! k)"
    and part: "partly_read fs bs (jblocks (mc_snap c)) ((i, r) # rest)" and hb: "has_blocks (mc_snap c)"
  shows "\<exists>c'. hydrate_step e s parts c (i, r) = Inr c'
       \<and> partly_read fs bs (jblocks (mc_snap c')) rest
       \<and> mc_snap c' = set_blocks (jblocks (mc_snap c')) (mc_snap c)
       \<and> mc_pos c' = mc_pos c \<and> mc_owner c' = mc_owner c"
proof -
  let ?xs = "jblocks (mc_snap c)" and ?c1 = "c\<lparr>mc_parts := al_set r p (mc_parts c)\<rparr>"
  have step: "hydrate_step e s parts c (i, r) = materialize e s i ?c1"
    using parts by (simp add: hydrate_step_def)
  have pk: "map_of (mc_pos ?c1) i = Some k" using pos [OF k(1)] k(2) by simp
  have len: "length ?xs = length bs"
    and all: "\<And>j. j < length bs \<Longrightarrow> ?xs ! j = fs ! j
          \<or> (?xs ! j = bs ! j \<and> (\<exists>r'. bref (bs ! j) = Some r' \<and> (bid (bs ! j), r') \<in> set ((i, r) # rest)))"
    using part unfolding partly_read_def by blast+
  have others: "?xs ! j = fs ! j
      \<or> (?xs ! j = bs ! j \<and> (\<exists>r'. bref (bs ! j) = Some r' \<and> (bid (bs ! j), r') \<in> set rest))"
    if j: "j < length bs" "j \<noteq> k" for j
  proof -
    have "bid (bs ! j) \<noteq> i" using dist j k by (simp add: distinct_conv_nth)
    then show ?thesis using all [OF j(1)] by auto
  qed
  from all [OF k(1)] show ?thesis
  proof
    assume now: "?xs ! k = fs ! k"
    then have "bref (jblocks (mc_snap ?c1) ! k) = None"
      using fs [OF k(1)] by (simp add: not_has_ref_bref)
    then have "hydrate_step e s parts c (i, r) = Inr ?c1"
      unfolding step by (rule materialize_inline [OF pk])
    moreover have "partly_read fs bs ?xs rest"
      using len others now unfolding partly_read_def by blast
    ultimately show ?thesis using hb by simp
  next
    assume now: "?xs ! k = bs ! k \<and> (\<exists>r'. bref (bs ! k) = Some r' \<and> (bid (bs ! k), r') \<in> set ((i, r) # rest))"
    let ?c2 = "?c1\<lparr>mc_snap := set_blocks (?xs[k := fs ! k]) (mc_snap c)\<rparr>"
    have "bref (jblocks (mc_snap ?c1) ! k) = Some r" using now body(1) by simp
    from materialize_cached [OF pk this _ body(2)]
    have "hydrate_step e s parts c (i, r) = Inr ?c2" unfolding step by simp
    moreover have "partly_read fs bs (?xs[k := fs ! k]) rest"
      unfolding partly_read_def using len others
      by (metis length_list_update nth_list_update_eq nth_list_update_neq)
    ultimately show ?thesis using hb by simp
  qed
qed

lemma hydrate_loop:
  assumes "\<And>i r. (i, r) \<in> set rest \<Longrightarrow>
        (\<exists>k p. k < length bs \<and> i = bid (bs ! k) \<and> bref (bs ! k) = Some r \<and> map_of parts r = Some p
           \<and> cp_owner p = mc_owner c \<and> find_block i (cp_blocks p) = Some (fs ! k))"
    and pos: "\<And>j. j < length bs \<Longrightarrow> map_of (mc_pos c) (bid (bs ! j)) = Some j"
    and fs: "\<And>j. j < length bs \<Longrightarrow> \<not> has_ref (fs ! j)" and dist: "distinct (map bid bs)"
    and "partly_read fs bs (jblocks (mc_snap c)) rest" and "has_blocks (mc_snap c)"
    and len: "length fs = length bs"
  shows "\<exists>c'. foldR (hydrate_step e s parts) c rest = Inr c' \<and> mc_snap c' = set_blocks fs (mc_snap c)"
  using assms(1,2,5,6)
proof (induction rest arbitrary: c)
  case Nil
  then have "jblocks (mc_snap c) = fs"
    using len by (auto simp: partly_read_def intro!: nth_equalityI)
  then show ?case using Nil.prems(4) set_blocks_simps(5) by fastforce
next
  case (Cons x rest)
  obtain i r where x: "x = (i, r)" by (cases x)
  obtain k p where kp: "k < length bs" "i = bid (bs ! k)" "bref (bs ! k) = Some r"
      "map_of parts r = Some p" "cp_owner p = mc_owner c" "find_block i (cp_blocks p) = Some (fs ! k)"
    using Cons.prems(1) [of i r] x by auto
  obtain c1 where c1: "hydrate_step e s parts c (i, r) = Inr c1"
      "partly_read fs bs (jblocks (mc_snap c1)) rest"
      "mc_snap c1 = set_blocks (jblocks (mc_snap c1)) (mc_snap c)"
      "mc_pos c1 = mc_pos c" "mc_owner c1 = mc_owner c"
    using hydrate_step_resolves [OF kp(4,5) Cons.prems(2) kp(1,2) fs dist kp(3,6) _ Cons.prems(4)]
      Cons.prems(3) x by blast
  have hb: "has_blocks (mc_snap c1)" using c1(3) Cons.prems(4) by (metis set_blocks_simps(2))
  have "\<exists>c'. foldR (hydrate_step e s parts) c1 rest = Inr c' \<and> mc_snap c' = set_blocks fs (mc_snap c1)"
  proof (rule Cons.IH [OF _ _ c1(2) hb])
    show "\<exists>k p. k < length bs \<and> i' = bid (bs ! k) \<and> bref (bs ! k) = Some r' \<and> map_of parts r' = Some p
           \<and> cp_owner p = mc_owner c1 \<and> find_block i' (cp_blocks p) = Some (fs ! k)"
      if "(i', r') \<in> set rest" for i' r'
      using Cons.prems(1) [of i' r'] that c1(5) by simp
    show "map_of (mc_pos c1) (bid (bs ! j)) = Some j" if "j < length bs" for j
      using Cons.prems(2) [OF that] c1(4) by simp
  qed
  moreover have "set_blocks fs (mc_snap c1) = set_blocks fs (mc_snap c)"
    by (subst c1(3)) (simp add: Cons.prems(4))
  ultimately show ?case using c1(1) x by simp
qed

lemma stored_part_rows: "stored_part e s o' k = Inr p \<Longrightarrow> group_rows s o' k \<noteq> []"
  unfolding stored_part_def by (rule decode_part_head(1))

lemma group_parts_ok:
  assumes "\<And>k. group_rows s o' k \<noteq> [] \<Longrightarrow> \<exists>p. stored_part e s o' k = Inr p"
  shows "\<exists>ps. group_parts e (owned_rows s [o']) = Inr ps
       \<and> (\<forall>k p. stored_part e s o' k = Inr p \<longrightarrow> map_of ps k = Some p)"
proof -
  let ?rows = "owned_rows s [o']" and ?val = "\<lambda>k. case stored_part e s o' k of Inr p \<Rightarrow> p"
  let ?ks = "remdups (map p_group ?rows)" and ?f = "\<lambda>k. (k, ?val k)"
  have grp: "filter (\<lambda>r. p_group r = k) ?rows = group_rows s o' k" for k
    by (simp add: owned_rows_def group_rows_def conj_commute)
  have "bindR (decode_part e (filter (\<lambda>r. p_group r = k) ?rows)) (\<lambda>p. Inr (k, p)) = Inr (?f k)"
    if "k \<in> set ?ks" for k
  proof -
    have "group_rows s o' k \<noteq> []"
      using that unfolding grp [symmetric] by (auto simp: filter_empty_conv)
    then obtain p where "stored_part e s o' k = Inr p" using assms by blast
    then show ?thesis unfolding grp by (simp add: stored_part_def)
  qed
  then have "group_parts e ?rows = Inr (map ?f ?ks)"
    unfolding group_parts_def by (rule mapR_Inr)
  moreover have "map_of (map ?f ?ks) k = Some p" if p: "stored_part e s o' k = Inr p" for k p
  proof -
    have "group_rows s o' k \<noteq> []" by (rule stored_part_rows [OF p])
    then obtain r where "r \<in> set ?rows" "p_group r = k"
      unfolding grp [symmetric] by (auto simp: filter_empty_conv)
    then have "k \<in> set ?ks" by auto
    then show ?thesis using p by (simp add: map_of_map_restrict)
  qed
  ultimately show ?thesis by blast
qed

lemma leads_to_nth:
  assumes "leads_to e s owner fs bs"
  shows "length fs = length bs"
    "\<And>j. j < length bs \<Longrightarrow> bid (bs ! j) = bid (fs ! j)"
    "\<And>j. j < length bs \<Longrightarrow> \<not> has_ref (fs ! j)"
    "\<And>j. j < length bs \<Longrightarrow> bref (bs ! j) = None \<Longrightarrow> bs ! j = fs ! j"
    "\<And>j r. j < length bs \<Longrightarrow> bref (bs ! j) = Some r \<Longrightarrow>
        \<exists>p. stored_part e s owner r = Inr p \<and> find_block (bid (fs ! j)) (cp_blocks p) = Some (fs ! j)"
  using assms unfolding leads_to_def list_all2_conv_all_nth by (auto split: option.splits)

lemma hydrate_message_ok:
  assumes laws: "ui_laws e" and op: "open_content e (m_id m) (m_content m) (st_uuid s) = Inr c"
    and groups: "\<And>k. group_rows s (m_id m) k \<noteq> [] \<Longrightarrow> \<exists>p. stored_part e s (m_id m) k = Inr p"
    and leads: "leads_to e s (m_id m) fs (jblocks (mc_snap c))"
  shows "hydrate_message e s m =
      Inr (if mc_refs c = [] then m else m\<lparr>m_content := marshal (set_blocks fs (mc_snap c))\<rparr>)"
proof (cases "mc_refs c = []")
  case True
  then show ?thesis using op by (simp add: hydrate_message_def hydrate_messages_def Let_def)
next
  case False
  let ?bs = "jblocks (mc_snap c)"
  note O = open_content_ok [OF laws op]
  note L = leads_to_nth [OF leads]
  note D = ui_laws_model(2) [OF laws O(2)]
  obtain ps where ps: "group_parts e (owned_rows s [m_id m]) = Inr ps"
      "\<And>k p. stored_part e s (m_id m) k = Inr p \<Longrightarrow> map_of ps k = Some p"
    using group_parts_ok [of s "m_id m" e] groups by blast
  have refs: "\<exists>j < length ?bs. i = bid (?bs ! j) \<and> bref (?bs ! j) = Some r" if "(i, r) \<in> set (mc_refs c)" for i r
  proof -
    have "map_of (mc_refs c) i = Some r" using that O(6) by simp
    then have "i \<in> bid ` set ?bs" using O(9) by force
    then obtain b where b: "b \<in> set ?bs" "i = bid b" by blast
    then have "bref b = Some r" using O(8) [OF b(1)] \<open>map_of (mc_refs c) i = Some r\<close> by simp
    then show ?thesis using b by (metis in_set_conv_nth)
  qed
  have "\<exists>c'. foldR (hydrate_step e s ps) c (mc_refs c) = Inr c' \<and> mc_snap c' = set_blocks fs (mc_snap c)"
  proof (rule hydrate_loop [where bs = ?bs])
    show "\<exists>k p. k < length ?bs \<and> i = bid (?bs ! k) \<and> bref (?bs ! k) = Some r \<and> map_of ps r = Some p
           \<and> cp_owner p = mc_owner c \<and> find_block i (cp_blocks p) = Some (fs ! k)"
      if ir: "(i, r) \<in> set (mc_refs c)" for i r
    proof -
      obtain j where j: "j < length ?bs" "i = bid (?bs ! j)" "bref (?bs ! j) = Some r"
        using refs [OF ir] by blast
      obtain p where p: "stored_part e s (m_id m) r = Inr p" "find_block (bid (fs ! j)) (cp_blocks p) = Some (fs ! j)"
        using L(5) [OF j(1,3)] by blast
      have "map_of ps r = Some p" "cp_owner p = mc_owner c" "find_block i (cp_blocks p) = Some (fs ! j)"
        using ps(2) [OF p(1)] stored_part_head(2) [OF p(1)] O(3) p(2) L(2) [OF j(1)] j(2) by simp_all
      then show ?thesis using j by blast
    qed
    have "(bid (?bs ! k), r) \<in> set (mc_refs c)" if "k < length ?bs" "bref (?bs ! k) = Some r" for k r
      using O(8) [of "?bs ! k"] that by (simp add: map_of_SomeD)
    then show "partly_read fs ?bs ?bs (mc_refs c)"
      unfolding partly_read_def using L(4) by (metis option.exhaust)
    show "has_blocks (mc_snap c)" by (rule model_has_blocks [OF laws O(2)])
  qed (use O(7) L(1,3) D in auto)
  then show ?thesis using False op ps(1) O(3)
    by (auto simp: hydrate_message_def hydrate_messages_def hydrate_one_def Let_def)
qed

section \<open>Saving\<close>

definition save_keys :: "mcontent \<Rightarrow> string list" where
  "save_keys c = remdups (map fst (kept_refs (jblocks (mc_snap c))))"

definition stored_content :: "config \<Rightarrow> content \<Rightarrow> content \<Rightarrow> mcontent \<Rightarrow> content" where
  "stored_content cf full packed c =
     (if mc_parts c = [] \<and> mc_refs c = [] \<and> c_len full \<le> cf_max cf then full else packed)"

lemma save_message_split:
  assumes "save_message e cf now m create s = Inr (m', s')"
  obtains c0 c packed c1 m1 s1 c2 s2 content where
    "open_logical e m (st_uuid s) = Inr c0" "adopt_layout e m create s c0 = Inr c"
    "pack_content e s cf c = Inr (packed, c1)"
    "write_row now (m\<lparr>m_content := stored_content cf (m_content m) packed c1\<rparr>) create
       (s\<lparr>st_uuid := mc_uuid c1\<rparr>) = Inr (m1, s1)"
    "foldR (prune_part e s1 (kept_refs (jblocks (mc_snap c1)))) c1 (save_keys c1) = Inr c2"
    "persist e cf c2 s1 = Inr s2"
    "full_content e (jget ''version'' (mc_snap c)) (m_content m) c1 = Inr content"
    "m' = m1\<lparr>m_content := content\<rparr>" "s' = delete_unkept (m_id m) (save_keys c1) s2"
proof -
  obtain c0 where c0: "open_logical e m (st_uuid s) = Inr c0"
    and r0: "bindR (adopt_layout e m create s c0) (\<lambda>c.
     bindR (pack_content e s cf c) (\<lambda>(packed, c1).
       bindR (write_row now (m\<lparr>m_content := stored_content cf (m_content m) packed c1\<rparr>) create
                (s\<lparr>st_uuid := mc_uuid c1\<rparr>)) (\<lambda>(m1, s1).
         bindR (foldR (prune_part e s1 (kept_refs (jblocks (mc_snap c1)))) c1 (save_keys c1)) (\<lambda>c2.
             bindR (persist e cf c2 s1) (\<lambda>s2.
             bindR (full_content e (jget ''version'' (mc_snap c)) (m_content m) c1) (\<lambda>content.
               Inr (m1\<lparr>m_content := content\<rparr>, delete_unkept (m_id m) (save_keys c1) s2))))))) = Inr (m', s')"
    using assms unfolding save_message_def stored_content_def save_keys_def Let_def
    by (rule bindR_obtain)
  from r0 obtain c where c: "adopt_layout e m create s c0 = Inr c"
    and r1: "bindR (pack_content e s cf c) (\<lambda>(packed, c1).
       bindR (write_row now (m\<lparr>m_content := stored_content cf (m_content m) packed c1\<rparr>) create
                (s\<lparr>st_uuid := mc_uuid c1\<rparr>)) (\<lambda>(m1, s1).
         bindR (foldR (prune_part e s1 (kept_refs (jblocks (mc_snap c1)))) c1 (save_keys c1)) (\<lambda>c2.
             bindR (persist e cf c2 s1) (\<lambda>s2.
             bindR (full_content e (jget ''version'' (mc_snap c)) (m_content m) c1) (\<lambda>content.
               Inr (m1\<lparr>m_content := content\<rparr>, delete_unkept (m_id m) (save_keys c1) s2)))))) = Inr (m', s')"
    by (rule bindR_obtain)
  from r1 obtain packed c1 where c1: "pack_content e s cf c = Inr (packed, c1)"
    and r2: "bindR (write_row now (m\<lparr>m_content := stored_content cf (m_content m) packed c1\<rparr>) create
                (s\<lparr>st_uuid := mc_uuid c1\<rparr>)) (\<lambda>(m1, s1).
         bindR (foldR (prune_part e s1 (kept_refs (jblocks (mc_snap c1)))) c1 (save_keys c1)) (\<lambda>c2.
             bindR (persist e cf c2 s1) (\<lambda>s2.
             bindR (full_content e (jget ''version'' (mc_snap c)) (m_content m) c1) (\<lambda>content.
               Inr (m1\<lparr>m_content := content\<rparr>, delete_unkept (m_id m) (save_keys c1) s2))))) = Inr (m', s')"
    by (rule bindR_pair)
  from r2 obtain m1 s1 where w: "write_row now (m\<lparr>m_content := stored_content cf (m_content m) packed c1\<rparr>) create
                (s\<lparr>st_uuid := mc_uuid c1\<rparr>) = Inr (m1, s1)"
    and r3: "bindR (foldR (prune_part e s1 (kept_refs (jblocks (mc_snap c1)))) c1 (save_keys c1)) (\<lambda>c2.
             bindR (persist e cf c2 s1) (\<lambda>s2.
             bindR (full_content e (jget ''version'' (mc_snap c)) (m_content m) c1) (\<lambda>content.
               Inr (m1\<lparr>m_content := content\<rparr>, delete_unkept (m_id m) (save_keys c1) s2)))) = Inr (m', s')"
    by (rule bindR_pair)
  from r3 obtain c2 where c2: "foldR (prune_part e s1 (kept_refs (jblocks (mc_snap c1)))) c1 (save_keys c1) = Inr c2"
    and r4: "bindR (persist e cf c2 s1) (\<lambda>s2.
             bindR (full_content e (jget ''version'' (mc_snap c)) (m_content m) c1) (\<lambda>content.
               Inr (m1\<lparr>m_content := content\<rparr>, delete_unkept (m_id m) (save_keys c1) s2))) = Inr (m', s')"
    by (rule bindR_obtain)
  from r4 obtain s2 where s2: "persist e cf c2 s1 = Inr s2"
    and r5: "bindR (full_content e (jget ''version'' (mc_snap c)) (m_content m) c1) (\<lambda>content.
               Inr (m1\<lparr>m_content := content\<rparr>, delete_unkept (m_id m) (save_keys c1) s2)) = Inr (m', s')"
    by (rule bindR_obtain)
  from r5 obtain content where
    content: "full_content e (jget ''version'' (mc_snap c)) (m_content m) c1 = Inr content"
    and out: "Inr (m1\<lparr>m_content := content\<rparr>, delete_unkept (m_id m) (save_keys c1) s2)
        = (Inr (m', s') :: (message \<times> store) result)"
    by (rule bindR_obtain)
  have "m' = m1\<lparr>m_content := content\<rparr>" "s' = delete_unkept (m_id m) (save_keys c1) s2"
    using out by simp_all
  then show thesis using that c0 c c1 w c2 s2 content by blast
qed

text \<open>The state handed to \<open>pack_content\<close>: nothing loaded, the previous layout adopted.\<close>

lemma open_logical_ok:
  assumes laws: "ui_laws e" and run: "open_logical e m n = Inr c"
  shows "open_content e (m_id m) (m_content m) n = Inr c" "mc_refs c = []"
    "\<And>b. b \<in> set (jblocks (mc_snap c)) \<Longrightarrow> logical e b"
proof -
  show op: "open_content e (m_id m) (m_content m) n = Inr c"
    using run by (auto simp: open_logical_def split: sum.splits err.splits if_splits)
  then show refs: "mc_refs c = []"
    using run by (auto simp: open_logical_def split: if_splits)
  fix b assume b: "b \<in> set (jblocks (mc_snap c))"
  note O = open_content_ok [OF laws op]
  note M = ui_laws_model [OF laws O(2)]
  have "\<not> btype_is (e_frame_type e) b"
    using run op refs b by (auto simp: open_logical_def list_ex_iff split: if_splits)
  moreover have "bref b = None" using refs open_content_refs_Nil [OF laws op] b by blast
  then have "\<not> has_ref b" using M(4) [OF b] by auto
  moreover have "block_shape b" using snapshot_shape_blocks [OF M(1)] b by (simp add: list_all_iff)
  ultimately show "logical e b" using M(3) [OF b] by (simp add: logical_def)
qed

lemma part_view_rows: "mc_parts c = [] \<Longrightarrow> part_view e s c = row_view e s (mc_owner c)"
  by (rule ext) (simp add: part_view_def row_view_def)

lemma group_rows_mem: "r \<in> set (group_rows s o' k) \<longleftrightarrow> r \<in> set (st_parts s) \<and> p_group r = k \<and> p_message r = o'"
  by (auto simp: group_rows_def)

lemma tables_ok_unused:
  assumes "tables_ok e s" and "st_uuid s \<le> n"
  shows "group_rows s o' (e_uuid e n) = []"
proof (rule ccontr)
  assume "group_rows s o' (e_uuid e n) \<noteq> []"
  then obtain r where "r \<in> set (group_rows s o' (e_uuid e n))" by (cases "group_rows s o' (e_uuid e n)") auto
  then show False using assms unfolding tables_ok_def group_rows_mem by blast
qed

lemma tables_ok_no_rows:
  assumes "tables_ok e s" and "get_msg i s = None"
  shows "group_rows s i k = []"
proof (rule ccontr)
  assume "group_rows s i k \<noteq> []"
  then obtain r where "r \<in> set (group_rows s i k)" by (cases "group_rows s i k") auto
  then show False using assms unfolding tables_ok_def group_rows_mem by blast
qed

lemma adopted_layout:
  assumes laws: "ui_laws e" and ok: "tables_ok e s"
    and op: "open_content e (m_id m) (m_content m) (st_uuid s) = Inr c0"
    and adopt: "adopt_layout e m create s c0 = Inr c"
    and new: "create \<longrightarrow> get_msg (m_id m) s = None"
  shows "layout_ok e s c {}" "mc_snap c = mc_snap c0" "mc_owner c = m_id m" "mc_parts c = []"
    "mc_uuid c = st_uuid s"
proof -
  note O = open_content_ok [OF laws op]
  have c: "mc_snap c = mc_snap c0 \<and> mc_owner c = m_id m \<and> mc_parts c = [] \<and> mc_uuid c = st_uuid s"
    using adopt O by (auto simp: adopt_layout_def elim!: bindR_obtain split: if_splits)
  then show "mc_snap c = mc_snap c0" "mc_owner c = m_id m" "mc_parts c = []" "mc_uuid c = st_uuid s"
    by blast+
  have cache: "cache_ok e s c"
    using c tables_ok_unused [OF ok] by (simp add: cache_ok_def)
  have "view_ok e (orig_ref c) (row_view e s (m_id m)) {}"
  proof (cases create)
    case True
    have "row_view e s (m_id m) k = None" for k
      using tables_ok_no_rows [OF ok new [rule_format, OF True]] stored_part_empty [of s "m_id m" k e]
      by (auto simp: row_view_def)
    then show ?thesis by (simp add: view_ok_def)
  next
    case False
    then obtain prev old where prev: "get_msg (m_id m) s = Some prev"
      and old: "open_content e (m_id prev) (m_content prev) 0 = Inr old" and refs: "mc_refs c = mc_refs old"
      using adopt by (auto simp: adopt_layout_def elim!: bindR_obtain)
    have id: "m_id prev = m_id m" using prev msgs.find_key by blast
    have "orig_ref c = orig_ref old" using refs by (simp add: orig_ref_def fun_eq_iff)
    moreover have "message_ok e s prev" using ok prev unfolding tables_ok_def by blast
    ultimately show ?thesis using old id unfolding message_ok_def by auto
  qed
  then show "layout_ok e s c {}" using cache c by (simp add: layout_ok_def part_view_rows)
qed

text \<open>The rows after the save, as a view.\<close>

lemma cached_part_wf:
  assumes view: "view_ok e refs V P" and V: "part_view e s c = pruned kept keys V"
    and p: "map_of (mc_parts c) k = Some p" and cache: "cache_ok e s c"
  shows "part_wf e p"
proof -
  have "pruned kept keys V k = Some (cp_blocks p)"
    using p V by (metis option.simps(5) part_view_def)
  then obtain bs where bs: "V k = Some bs" "cp_blocks p = bs \<or> cp_blocks p = keeps kept k bs"
    by (auto simp: pruned_def split: if_splits)
  have P: "k \<noteq> []" "list_all (logical e) bs" "distinct (map bid bs)"
    using view_ok_part [OF view bs(1)] unfolding part_ok_def by blast+
  have "list_all (logical e) (keeps kept k bs)" "distinct (map bid (keeps kept k bs))"
    using P(2,3) by (auto simp: keeps_def list_all_iff distinct_map_filter)
  then show ?thesis
    using P bs(2) cache_okD(1) [OF cache p] unfolding part_wf_def by auto
qed

lemma persist_ok:
  assumes laws: "ui_laws e" and run: "persist e cf c s = Inr s'" and cache: "cache_ok e s c"
    and wf: "\<forall>k p. map_of (mc_parts c) k = Some p \<longrightarrow> part_wf e p"
  shows "row_view e s' (mc_owner c) = part_view e s c"
    "\<exists>gs. tables_step (mc_owner c) gs s s'"
    "\<And>k. group_rows s' (mc_owner c) k \<noteq> [] \<Longrightarrow> row_view e s (mc_owner c) k \<noteq> None \<or> group_rows s (mc_owner c) k = []
         \<Longrightarrow> row_view e s' (mc_owner c) k \<noteq> None"
proof -
  let ?ps = "map snd (mc_parts c)" and ?o = "mc_owner c"
  have mem: "map_of (mc_parts c) (cp_group p) = Some p" if "p \<in> set ?ps" for p
  proof -
    obtain k where "(k, p) \<in> set (mc_parts c)" using \<open>p \<in> set ?ps\<close> by auto
    then have "map_of (mc_parts c) k = Some p" using cache by (simp add: cache_ok_def)
    then show ?thesis using cache_okD(1) [OF cache] by simp
  qed
  have keys: "map cp_group ?ps = map fst (mc_parts c)"
  proof -
    have "cp_group (snd kp) = fst kp" if "kp \<in> set (mc_parts c)" for kp
    proof -
      have "map_of (mc_parts c) (fst kp) = Some (snd kp)"
        using cache that by (cases kp) (simp add: cache_ok_def)
      then show ?thesis by (rule cache_okD(1) [OF cache])
    qed
    then show ?thesis by simp
  qed
  have dist: "distinct (map cp_group ?ps)"
    unfolding keys using cache unfolding cache_ok_def by blast
  have R: "(\<forall>p \<in> set ?ps. stored_part e s' ?o (cp_group p) = Inr (p\<lparr>cp_dirty := False\<rparr>))
       \<and> tables_step ?o (cp_group ` set ?ps) s s'"
    using run unfolding persist_def
  proof (rule persist_parts_ok [OF laws _ dist])
    fix p assume p: "p \<in> set ?ps"
    show "cp_owner p = ?o" by (rule cache_okD(2) [OF cache mem [OF p]])
    show "part_wf e p" by (rule wf [rule_format, OF mem [OF p]])
    show "\<not> cp_dirty p \<Longrightarrow> stored_part e s ?o (cp_group p) = Inr p"
      by (rule cache_okD(3) [OF cache mem [OF p]])
  qed
  then show step: "\<exists>gs. tables_step ?o gs s s'" by blast
  show view: "row_view e s' ?o = part_view e s c"
  proof
    fix k
    show "row_view e s' ?o k = part_view e s c k"
    proof (cases "map_of (mc_parts c) k")
      case None
      then have "k \<notin> cp_group ` set ?ps" using mem by force
      then have "stored_part e s' ?o k = stored_part e s ?o k"
        using R tables_step_stored by blast
      then show ?thesis using None by (simp add: row_view_def part_view_def)
    next
      case (Some p)
      then have "p \<in> set ?ps" "cp_group p = k"
        using cache_okD(1) [OF cache Some] by (auto dest: map_of_SomeD intro: rev_image_eqI)
      then have "stored_part e s' ?o k = Inr (p\<lparr>cp_dirty := False\<rparr>)" using R by blast
      then show ?thesis using Some by (simp add: row_view_def part_view_def)
    qed
  qed
  show "row_view e s' ?o k \<noteq> None"
    if "group_rows s' ?o k \<noteq> []" "row_view e s ?o k \<noteq> None \<or> group_rows s ?o k = []" for k
  proof (cases "map_of (mc_parts c) k")
    case None
    then have "k \<notin> cp_group ` set ?ps" using mem by force
    then have "group_rows s' ?o k = group_rows s ?o k" using R by (simp add: tables_step_def)
    then show ?thesis using that None unfolding view part_view_def row_view_def by simp
  next
    case (Some p)
    then show ?thesis unfolding view part_view_def by simp
  qed
qed

lemma write_row_frame:
  assumes "write_row now m create s = Inr (m', s')" and "create \<or> get_msg (m_id m) s \<noteq> None"
  shows "st_parts s' = st_parts s" "st_uuid s' = st_uuid s" "m_id m' = m_id m" "m_content m' = m_content m"
    "m_conv m' = m_conv m" "get_msg (m_id m) s' = Some m'"
    "\<And>i. i \<noteq> m_id m \<Longrightarrow> get_msg i s' = get_msg i s" "create \<Longrightarrow> get_msg (m_id m) s = None"
    "st_runs s' = st_runs s" "st_convs s' = st_convs s" "st_locks s' = st_locks s"
proof -
  have "st_parts s' = st_parts s \<and> st_uuid s' = st_uuid s \<and> m_id m' = m_id m \<and> m_content m' = m_content m
    \<and> m_conv m' = m_conv m \<and> get_msg (m_id m) s' = Some m'
    \<and> (\<forall>i. i \<noteq> m_id m \<longrightarrow> get_msg i s' = get_msg i s) \<and> (create \<longrightarrow> get_msg (m_id m) s = None)
    \<and> st_runs s' = st_runs s \<and> st_convs s' = st_convs s \<and> st_locks s' = st_locks s"
  proof (cases create)
    case True
    then have ins: "insert_msg (message_defaults now m) s = Inr s'" and m': "m' = message_defaults now m"
      using assms(1) by (auto simp: write_row_def Let_def elim!: bindR_obtain)
    have id: "m_id (message_defaults now m) = m_id m" "m_content (message_defaults now m) = m_content m"
        "m_conv (message_defaults now m) = m_conv m"
      by (simp_all add: message_defaults_def)
    note F = insert_msg_frame [OF ins]
    show ?thesis using insert_msg_get [OF ins] F id True unfolding m' by simp
  next
    case False
    then have s': "s' = put_msg (m\<lparr>m_updated := now\<rparr>) s" and m': "m' = m\<lparr>m_updated := now\<rparr>"
      using assms(1) by (auto simp: write_row_def Let_def)
    obtain m0 where "get_msg (m_id m) s = Some m0" using assms(2) False by blast
    then have "get_msg (m_id m) s' = Some m'"
      unfolding s' m' by (simp add: msgs.find_put)
    then show ?thesis using False unfolding s' m' by (simp add: msgs.find_put)
  qed
  then show "st_parts s' = st_parts s" "st_uuid s' = st_uuid s" "m_id m' = m_id m" "m_content m' = m_content m"
    "m_conv m' = m_conv m" "get_msg (m_id m) s' = Some m'"
    "\<And>i. i \<noteq> m_id m \<Longrightarrow> get_msg i s' = get_msg i s" "create \<Longrightarrow> get_msg (m_id m) s = None"
    "st_runs s' = st_runs s" "st_convs s' = st_convs s" "st_locks s' = st_locks s"
    by blast+
qed

lemma parts_cong:
  assumes "st_parts s' = st_parts s"
  shows "group_rows s' = group_rows s" "stored_part e s' = stored_part e s" "row_view e s' = row_view e s"
    "part_view e s' = part_view e s" "cache_ok e s' = cache_ok e s"
proof -
  show g: "group_rows s' = group_rows s" using assms by (simp add: group_rows_def fun_eq_iff)
  then show st: "stored_part e s' = stored_part e s" by (simp add: stored_part_def fun_eq_iff)
  then show "row_view e s' = row_view e s" by (simp add: row_view_def fun_eq_iff)
  show "part_view e s' = part_view e s"
    by (intro ext) (simp add: part_view_def st split: option.split)
  show "cache_ok e s' = cache_ok e s" using g st by (simp add: cache_ok_def fun_eq_iff)
qed

lemma delete_unkept_rows:
  "group_rows (delete_unkept owner keys s) o' k =
     (if o' = owner \<and> k \<notin> set keys then [] else group_rows s o' k)"
  by (auto simp: delete_unkept_def group_rows_def filter_filter filter_empty_conv intro!: filter_cong)

lemma kept_refs_mem:
  "(r, i) \<in> set (kept_refs bs) \<longleftrightarrow> (\<exists>b \<in> set bs. bref b = Some r \<and> bid b = i)"
  by (force simp: kept_refs_def)

text \<open>
  The outcome of a save, in terms of the rows: what \<open>cs\<close> opens is what was packed, and the
  view of the owner's rows is the pruned view.
\<close>

record saved =
  sv_root :: json
  sv_snap :: json
  sv_placed :: "placement set"
  sv_view :: "string \<Rightarrow> json list option"
  sv_refs :: "string \<Rightarrow> string"
  sv_uuid :: nat

definition saved_content :: "env \<Rightarrow> message \<Rightarrow> message \<Rightarrow> content \<Rightarrow> saved \<Rightarrow> bool" where
  "saved_content e m row content v \<longleftrightarrow>
     decode_object (m_content m) = Inr (sv_root v) \<and> e_valid_model e (sv_root v)
   \<and> decode_object (m_content row) = Inr (sv_snap v) \<and> e_valid_model e (sv_snap v)
   \<and> resolves (sv_placed v) (jblocks (sv_root v)) (jblocks (sv_snap v))
   \<and> view_ok e (sv_refs v) (sv_view v) (sv_placed v)
   \<and> (\<exists>w. (w = sv_root v \<or> w = set_version e (sv_root v)) \<and> sv_snap v = set_blocks (jblocks (sv_snap v)) w)
   \<and> decode_object content =
       Inr (if jget ''version'' (sv_snap v) = jget ''version'' (sv_root v) then sv_root v
            else case jget ''version'' (sv_snap v) of
                   Some x \<Rightarrow> jset ''version'' x (sv_root v) | None \<Rightarrow> sv_root v)"

definition saved_rows :: "env \<Rightarrow> message \<Rightarrow> store \<Rightarrow> saved \<Rightarrow> bool" where
  "saved_rows e m s' v \<longleftrightarrow>
     (let kept = kept_refs (jblocks (sv_snap v)); keys = fst ` set kept
      in (\<forall>k. row_view e s' (m_id m) k = (if k \<in> keys then map_option (keeps kept k) (sv_view v k) else None))
       \<and> (\<forall>k \<in> keys. sv_view v k \<noteq> None)
       \<and> (\<forall>k. group_rows s' (m_id m) k \<noteq> [] \<longrightarrow> k \<in> keys)
       \<and> (\<forall>n \<ge> sv_uuid v. \<forall>k \<in> keys. k \<noteq> e_uuid e n))"

definition saved_frame :: "store \<Rightarrow> message \<Rightarrow> message \<Rightarrow> store \<Rightarrow> saved \<Rightarrow> bool" where
  "saved_frame s m row s' v \<longleftrightarrow>
     (\<forall>o' k. o' \<noteq> m_id m \<longrightarrow> group_rows s' o' k = group_rows s o' k)
   \<and> sv_uuid v \<le> st_uuid s' \<and> st_uuid s \<le> st_uuid s'
   \<and> m_id row = m_id m \<and> get_msg (m_id m) s' = Some row
   \<and> (\<forall>i. i \<noteq> m_id m \<longrightarrow> get_msg i s' = get_msg i s)"

definition saved_ok :: "env \<Rightarrow> store \<Rightarrow> message \<Rightarrow> message \<Rightarrow> content \<Rightarrow> store \<Rightarrow> saved \<Rightarrow> bool" where
  "saved_ok e s m row content s' v \<longleftrightarrow>
     saved_content e m row content v \<and> saved_rows e m s' v \<and> saved_frame s m row s' v"

lemma resolves_inline:
  assumes "resolves {} fs bs"
  shows "bs = fs"
  using assms unfolding resolves_def
proof (induction rule: list_all2_induct)
  case (Cons f fs b bs)
  then have "\<not> has_ref b" by (auto simp: resolves1_def)
  then show ?case using Cons resolves1_inline by blast
qed simp

lemma packed_content_decodes:
  assumes laws: "ui_laws e" and pk: "packing e s root fs c1 Q" and root: "decode_object full = Inr root"
    and bs: "fs = jblocks root" and hb: "has_blocks root"
    and first: "view_ok e (orig_ref c1) (row_view e s (mc_owner c1)) {}"
  shows "decode_object (stored_content cf full (marshal (mc_snap c1)) c1) = Inr (mc_snap c1)"
proof (cases "mc_parts c1 = [] \<and> mc_refs c1 = [] \<and> c_len full \<le> cf_max cf")
  case True
  have lay: "layout_ok e s c1 Q" "resolves Q fs (jblocks (mc_snap c1))"
    using pk unfolding packing_def by blast+
  have "Q = {}"
  proof (rule ccontr)
    assume "Q \<noteq> {}"
    then obtain i r f where q: "(i, r, f) \<in> Q" by (metis ex_in_conv prod_cases3)
    then obtain xs where "part_view e s c1 r = Some xs" "f \<in> set xs"
      using view_ok_placed(2) [OF layout_okD(2) [OF lay(1)]] by blast
    then have xs: "row_view e s (mc_owner c1) r = Some xs" "f \<in> set xs"
      using True by (simp_all add: part_view_rows)
    then have "orig_ref c1 (bid f) = r" using unplaced_elsewhere [OF first] by simp
    moreover have "r \<noteq> []" using view_ok_part [OF first xs(1)] by (simp add: part_ok_def)
    ultimately show False using True by (simp add: orig_ref_def)
  qed
  then have "jblocks (mc_snap c1) = fs" using lay(2) resolves_inline by blast
  moreover obtain v where "v = root" "mc_snap c1 = set_blocks (jblocks (mc_snap c1)) v"
    using pk \<open>Q = {}\<close> unfolding packing_def by blast
  ultimately have "mc_snap c1 = root" using bs hb by (metis set_blocks_simps(5))
  then show ?thesis using True root by (simp add: stored_content_def)
next
  case False
  have "e_valid_model e (mc_snap c1)" using pk unfolding packing_def by blast
  then have "is_obj (mc_snap c1)" using model_has_blocks [OF laws] by (simp add: has_blocks_def)
  then show ?thesis using False decode_marshal by (auto simp: stored_content_def)
qed

lemma set_save_keys: "set (save_keys c) = fst ` set (kept_refs (jblocks (mc_snap c)))"
  by (simp add: save_keys_def)

lemma full_content_decodes:
  assumes "full_content e ver full c1 = Inr content" and "decode_object full = Inr root"
    and "ver = jget ''version'' root"
  shows "decode_object content =
       Inr (if jget ''version'' (mc_snap c1) = jget ''version'' root then root
            else case jget ''version'' (mc_snap c1) of Some x \<Rightarrow> jset ''version'' x root | None \<Rightarrow> root)"
proof -
  have obj: "is_obj root" by (rule decode_object_is_obj [OF assms(2)])
  show ?thesis
    using assms obj
    by (auto simp: full_content_def decode_marshal split: if_splits option.splits)
qed

lemma save_message_rows:
  assumes laws: "ui_laws e" and ok: "tables_ok e s"
    and run: "save_message e cf now m create s = Inr (m', s')"
  obtains row content v where "m' = row\<lparr>m_content := content\<rparr>" "saved_ok e s m row content s' v"
proof -
  obtain c0 c packed c1 m1 s1 c2 s2 content where
    c0: "open_logical e m (st_uuid s) = Inr c0" and c: "adopt_layout e m create s c0 = Inr c"
    and c1: "pack_content e s cf c = Inr (packed, c1)"
    and w: "write_row now (m\<lparr>m_content := stored_content cf (m_content m) packed c1\<rparr>) create
       (s\<lparr>st_uuid := mc_uuid c1\<rparr>) = Inr (m1, s1)"
    and c2: "foldR (prune_part e s1 (kept_refs (jblocks (mc_snap c1)))) c1 (save_keys c1) = Inr c2"
    and s2: "persist e cf c2 s1 = Inr s2"
    and content: "full_content e (jget ''version'' (mc_snap c)) (m_content m) c1 = Inr content"
    and out: "m' = m1\<lparr>m_content := content\<rparr>" "s' = delete_unkept (m_id m) (save_keys c1) s2"
    by (rule save_message_split [OF run])
  let ?root = "mc_snap c0" and ?o = "m_id m" and ?kept = "kept_refs (jblocks (mc_snap c1))"
  note OL = open_logical_ok [OF laws c0]
  note O = open_content_ok [OF laws OL(1)]
  have exists: "create \<or> get_msg (m_id m) s \<noteq> None"
    using c by (cases create; cases "get_msg (m_id m) s") (simp_all add: adopt_layout_def)
  have w_pre: "create \<or> get_msg (m_id (m\<lparr>m_content := stored_content cf (m_content m) packed c1\<rparr>))
      (s\<lparr>st_uuid := mc_uuid c1\<rparr>) \<noteq> None"
    using exists by simp
  note W = write_row_frame [OF w w_pre]
  have new: "create \<longrightarrow> get_msg (m_id m) s = None" using W(8) by simp
  note A = adopted_layout [OF laws ok OL(1) c new]
  have hb: "has_blocks ?root" by (rule model_has_blocks [OF laws O(2)])
  let ?fs = "jblocks ?root"
  have "resolves {} ?fs ?fs"
    unfolding resolves_def list_all2_conv_all_nth resolves1_def
    using OL(3) by (simp add: logical_def)
  moreover have "set_blocks ?fs ?root = ?root" using hb by simp
  ultimately have "packing e s (mc_snap c) ?fs c {}"
    using A(1,2) O(2) OL(3) unfolding packing_def by (auto simp: inline_free_def)
  from pack_content_ok [OF laws c1 this, unfolded A(2)] obtain Q where
    pk: "packing e s ?root ?fs c1 Q" and home: "same_home c c1"
    and packed: "packed = marshal (mc_snap c1)"
    by blast
  have owner: "mc_owner c1 = ?o" and refs: "mc_refs c1 = mc_refs c" and uu: "st_uuid s \<le> mc_uuid c1"
    using home A(3,5) by (simp_all add: same_home_iff)
  have lay: "layout_ok e s c1 Q" "resolves Q ?fs (jblocks (mc_snap c1))" "e_valid_model e (mc_snap c1)"
    using pk unfolding packing_def by blast+
  have "view_ok e (orig_ref c1) (row_view e s (mc_owner c1)) {}"
    using layout_okD(2) [OF A(1)] refs owner A(3,4) by (simp add: part_view_rows orig_ref_def [abs_def])
  note decodes = packed_content_decodes [OF laws pk O(1) refl hb this]
  have parts1: "st_parts s1 = st_parts s" using W(1) by simp
  note C = parts_cong [OF parts1]
  have cache1: "cache_ok e s1 c1" using layout_okD(1) [OF lay(1)] C(5) by simp
  have "distinct (save_keys c1)" by (simp add: save_keys_def)
  note PR = prune_parts_ok [OF c2 cache1 this]
  have view2: "part_view e s1 c2 = pruned ?kept (set (save_keys c1)) (part_view e s c1)"
    using PR C(4) by simp
  have cache2: "cache_ok e s1 c2" and root2: "same_root c1 c2" using PR by blast+
  have owner2: "mc_owner c2 = ?o" using root2 owner by (simp add: same_root_def)
  have wf: "\<forall>k p. map_of (mc_parts c2) k = Some p \<longrightarrow> part_wf e p"
  proof (intro allI impI)
    fix k p assume "map_of (mc_parts c2) k = Some p"
    from cached_part_wf [OF layout_okD(2) [OF lay(1)] view2 this cache2] show "part_wf e p" .
  qed
  note P = persist_ok [OF laws s2 cache2 wf]
  obtain gs where step: "tables_step ?o gs s1 s2" using P(2) owner2 by auto
  have rows': "group_rows s' o' k = (if o' = ?o \<and> k \<notin> set (save_keys c1) then [] else group_rows s2 o' k)" for o' k
    unfolding out(2) by (rule delete_unkept_rows)
  have view': "row_view e s' ?o k =
      (if k \<in> set (save_keys c1) then map_option (keeps ?kept k) (part_view e s c1 k) else None)" for k
  proof (cases "k \<in> set (save_keys c1)")
    case True
    then have "stored_part e s' ?o k = stored_part e s2 ?o k" using rows' by (simp add: stored_part_def)
    then have "row_view e s' ?o k = row_view e s2 ?o k" by (simp add: row_view_def)
    then show ?thesis using P(1) view2 owner2 True by (simp add: pruned_def)
  next
    case False
    then have "group_rows s' ?o k = []" using rows' by simp
    then show ?thesis using False stored_part_empty [of s' ?o k e] by (auto simp: row_view_def)
  qed
  have fresh: "k \<noteq> e_uuid e n" if "mc_uuid c1 \<le> n" "k \<in> set (save_keys c1)" for n k
  proof
    assume "k = e_uuid e n"
    then have "part_view e s c1 k = None"
      using cache_ok_fresh [OF layout_okD(1) [OF lay(1)] that(1)] stored_part_empty [of s "mc_owner c1" k e]
      by (auto simp: part_view_def)
    then show False using PR that(2) C(4) by auto
  qed
  have get': "get_msg i s' = get_msg i s1" for i
    using step unfolding out(2) tables_step_def delete_unkept_def by (simp add: get_msg_def)
  have uu': "mc_uuid c1 \<le> st_uuid s'"
    using step W(2) unfolding out(2) tables_step_def delete_unkept_def by simp
  define v where "v = \<lparr>sv_root = ?root, sv_snap = mc_snap c1, sv_placed = Q, sv_view = part_view e s c1,
      sv_refs = orig_ref c1, sv_uuid = mc_uuid c1\<rparr>"
  have "saved_ok e s m m1 content s' v"
    unfolding saved_ok_def saved_content_def saved_rows_def saved_frame_def Let_def v_def saved.simps
  proof (intro conjI)
    show "decode_object (m_content m1) = Inr (mc_snap c1)"
      using W(4) decodes packed by simp
    show "decode_object content =
       Inr (if jget ''version'' (mc_snap c1) = jget ''version'' ?root then ?root
            else case jget ''version'' (mc_snap c1) of Some x \<Rightarrow> jset ''version'' x ?root | None \<Rightarrow> ?root)"
      by (rule full_content_decodes [OF content O(1)]) (simp add: A(2))
    show "\<exists>w. (w = ?root \<or> w = set_version e ?root) \<and> mc_snap c1 = set_blocks (jblocks (mc_snap c1)) w"
      using pk unfolding packing_def by blast
    show "\<forall>k. row_view e s' ?o k = (if k \<in> fst ` set ?kept then map_option (keeps ?kept k) (part_view e s c1 k) else None)"
      using view' by (simp add: set_save_keys)
    show "\<forall>k \<in> fst ` set ?kept. part_view e s c1 k \<noteq> None"
      using PR C(4) by (simp add: set_save_keys)
    show "\<forall>k. group_rows s' ?o k \<noteq> [] \<longrightarrow> k \<in> fst ` set ?kept"
      using rows' by (simp add: set_save_keys)
    show "\<forall>o' k. o' \<noteq> ?o \<longrightarrow> group_rows s' o' k = group_rows s o' k"
      using rows' step C(1) by (simp add: tables_step_def)
    show "\<forall>n \<ge> mc_uuid c1. \<forall>k \<in> fst ` set ?kept. k \<noteq> e_uuid e n"
      using fresh by (simp add: set_save_keys)
    show "m_id m1 = m_id m" using W(3) by simp
    show "get_msg (m_id m) s' = Some m1" using W(6) get' by simp
    show "\<forall>i. i \<noteq> m_id m \<longrightarrow> get_msg i s' = get_msg i s" using W(7) get' by simp
  qed (use O(1,2) lay layout_okD(2) [OF lay(1)] uu uu' in auto)
  then show thesis using that out(1) by blast
qed

lemma saved_okD:
  assumes "saved_ok e s m row content s' v"
  shows "decode_object (m_content m) = Inr (sv_root v)" "e_valid_model e (sv_root v)"
    "decode_object (m_content row) = Inr (sv_snap v)" "e_valid_model e (sv_snap v)"
    "resolves (sv_placed v) (jblocks (sv_root v)) (jblocks (sv_snap v))"
    "view_ok e (sv_refs v) (sv_view v) (sv_placed v)"
    "\<And>k. row_view e s' (m_id m) k =
        (if k \<in> fst ` set (kept_refs (jblocks (sv_snap v)))
         then map_option (keeps (kept_refs (jblocks (sv_snap v))) k) (sv_view v k) else None)"
    "\<And>k. k \<in> fst ` set (kept_refs (jblocks (sv_snap v))) \<Longrightarrow> sv_view v k \<noteq> None"
    "\<And>k. group_rows s' (m_id m) k \<noteq> [] \<Longrightarrow> k \<in> fst ` set (kept_refs (jblocks (sv_snap v)))"
    "\<exists>w. (w = sv_root v \<or> w = set_version e (sv_root v)) \<and> sv_snap v = set_blocks (jblocks (sv_snap v)) w"
    "decode_object content =
       Inr (if jget ''version'' (sv_snap v) = jget ''version'' (sv_root v) then sv_root v
            else case jget ''version'' (sv_snap v) of
                   Some x \<Rightarrow> jset ''version'' x (sv_root v) | None \<Rightarrow> sv_root v)"
    "\<And>o' k. o' \<noteq> m_id m \<Longrightarrow> group_rows s' o' k = group_rows s o' k"
    "\<And>n k. sv_uuid v \<le> n \<Longrightarrow> k \<in> fst ` set (kept_refs (jblocks (sv_snap v))) \<Longrightarrow> k \<noteq> e_uuid e n"
    "sv_uuid v \<le> st_uuid s'" "st_uuid s \<le> st_uuid s'" "m_id row = m_id m"
    "get_msg (m_id m) s' = Some row" "\<And>i. i \<noteq> m_id m \<Longrightarrow> get_msg i s' = get_msg i s"
proof -
  have c: "saved_content e m row content v" and r: "saved_rows e m s' v" and f: "saved_frame s m row s' v"
    using assms unfolding saved_ok_def by blast+
  show "decode_object (m_content m) = Inr (sv_root v)" "e_valid_model e (sv_root v)"
    "decode_object (m_content row) = Inr (sv_snap v)" "e_valid_model e (sv_snap v)"
    "resolves (sv_placed v) (jblocks (sv_root v)) (jblocks (sv_snap v))"
    "view_ok e (sv_refs v) (sv_view v) (sv_placed v)"
    "\<exists>w. (w = sv_root v \<or> w = set_version e (sv_root v)) \<and> sv_snap v = set_blocks (jblocks (sv_snap v)) w"
    "decode_object content =
       Inr (if jget ''version'' (sv_snap v) = jget ''version'' (sv_root v) then sv_root v
            else case jget ''version'' (sv_snap v) of
                   Some x \<Rightarrow> jset ''version'' x (sv_root v) | None \<Rightarrow> sv_root v)"
    using c unfolding saved_content_def by - (elim conjE, assumption)+
  show "row_view e s' (m_id m) k =
        (if k \<in> fst ` set (kept_refs (jblocks (sv_snap v)))
         then map_option (keeps (kept_refs (jblocks (sv_snap v))) k) (sv_view v k) else None)" for k
    using r unfolding saved_rows_def Let_def by - (elim conjE, erule allE)
  show "sv_view v k \<noteq> None" if "k \<in> fst ` set (kept_refs (jblocks (sv_snap v)))" for k
    using r that unfolding saved_rows_def Let_def by blast
  show "k \<in> fst ` set (kept_refs (jblocks (sv_snap v)))" if "group_rows s' (m_id m) k \<noteq> []" for k
    using r that unfolding saved_rows_def Let_def by blast
  show "k \<noteq> e_uuid e n" if "sv_uuid v \<le> n" "k \<in> fst ` set (kept_refs (jblocks (sv_snap v)))" for n k
    using r that unfolding saved_rows_def Let_def by blast
  show "sv_uuid v \<le> st_uuid s'" "st_uuid s \<le> st_uuid s'" "m_id row = m_id m"
    "get_msg (m_id m) s' = Some row"
    using f unfolding saved_frame_def by blast+
  show "group_rows s' o' k = group_rows s o' k" if "o' \<noteq> m_id m" for o' k
    using f that unfolding saved_frame_def by blast
  show "get_msg i s' = get_msg i s" if "i \<noteq> m_id m" for i
    using f that unfolding saved_frame_def by blast
qed

lemma row_view_stored: "row_view e s o' k = Some bs \<Longrightarrow> \<exists>p. stored_part e s o' k = Inr p \<and> cp_blocks p = bs"
  by (auto simp: row_view_def split: sum.splits)

lemma saved_groups_decode:
  assumes "saved_ok e s m row content s' v" and "group_rows s' (m_id m) k \<noteq> []"
  shows "row_view e s' (m_id m) k \<noteq> None"
  using saved_okD(7-9) [OF assms(1)] assms(2) by (metis map_option_is_None)

lemma saved_body:
  assumes sv: "saved_ok e s m row content s' v" and b: "b \<in> set (jblocks (sv_snap v))"
    and r: "bref b = Some r" "(bid f, r, f) \<in> sv_placed v" "bid b = bid f"
  shows "\<exists>bs. row_view e s' (m_id m) r = Some bs \<and> f \<in> set bs \<and> list_all block_shape bs \<and> distinct (map bid bs)"
    "logical e f"
proof -
  note S = saved_okD [OF sv]
  obtain xs where xs: "sv_view v r = Some xs" "f \<in> set xs" using view_ok_placed(2) [OF S(6) r(2)] by blast
  have P: "list_all (logical e) xs" "distinct (map bid xs)"
    using view_ok_part [OF S(6) xs(1)] unfolding part_ok_def by blast+
  then show "logical e f" using xs(2) by (simp add: list_all_iff)
  let ?kept = "kept_refs (jblocks (sv_snap v))"
  have kept: "(r, bid f) \<in> set ?kept" using b r(1,3) kept_refs_mem by blast
  then have "r \<in> fst ` set ?kept" by force
  then have "row_view e s' (m_id m) r = Some (keeps ?kept r xs)" using S(7) xs(1) by simp
  moreover have "f \<in> set (keeps ?kept r xs)" using xs(2) kept by (simp add: keeps_def)
  moreover have "list_all block_shape (keeps ?kept r xs)" "distinct (map bid (keeps ?kept r xs))"
    using P logical_shape by (auto simp: keeps_def list_all_iff distinct_map_filter)
  ultimately show "\<exists>bs. row_view e s' (m_id m) r = Some bs \<and> f \<in> set bs \<and> list_all block_shape bs
      \<and> distinct (map bid bs)" by blast
qed

lemma saved_leads_to:
  assumes laws: "ui_laws e" and sv: "saved_ok e s m row content s' v"
  shows "leads_to e s' (m_id m) (jblocks (sv_root v)) (jblocks (sv_snap v))"
  unfolding leads_to_def list_all2_conv_all_nth
proof (intro conjI allI impI)
  note S = saved_okD [OF sv]
  let ?fs = "jblocks (sv_root v)" and ?bs = "jblocks (sv_snap v)"
  have len: "length ?fs = length ?bs" and R: "\<And>k. k < length ?bs \<Longrightarrow> resolves1 (sv_placed v) (?fs ! k) (?bs ! k)"
    using S(5) by (simp_all add: resolves_def list_all2_conv_all_nth)
  show "length ?fs = length ?bs" by (rule len)
  fix k assume "k < length ?fs"
  then have k: "k < length ?bs" using len by simp
  then have mem: "?bs ! k \<in> set ?bs" by simp
  note Rk = R [OF k, unfolded resolves1_def]
  show "bid (?bs ! k) = bid (?fs ! k)" using Rk by blast
  have main: "block_shape (?fs ! k) \<and> (has_ref (?bs ! k) \<longleftrightarrow> bref (?bs ! k) \<noteq> None) \<and> \<not> has_ref (?fs ! k)
      \<and> (case bref (?bs ! k) of None \<Rightarrow> ?bs ! k = ?fs ! k
         | Some r \<Rightarrow> \<exists>p. stored_part e s' (m_id m) r = Inr p
             \<and> find_block (bid (?fs ! k)) (cp_blocks p) = Some (?fs ! k))"
  proof (cases "has_ref (?bs ! k)")
    case True
    then obtain r where r: "bref (?bs ! k) = Some r" "(bid (?fs ! k), r, ?fs ! k) \<in> sv_placed v"
      using Rk by auto
    note B = saved_body [OF sv mem r, OF conjunct1 [OF Rk]]
    obtain xs where xs: "row_view e s' (m_id m) r = Some xs" "?fs ! k \<in> set xs"
        "list_all block_shape xs" "distinct (map bid xs)" using B(1) by blast
    obtain p where "stored_part e s' (m_id m) r = Inr p" "cp_blocks p = xs"
      using row_view_stored [OF xs(1)] by blast
    then show ?thesis
      using True r(1) B(2) find_block_member [OF xs(3,4,2)] by (auto simp: logical_def)
  next
    case False
    then show ?thesis using Rk by (auto simp: not_has_ref_bref)
  qed
  then show "block_shape (?fs ! k)" "(has_ref (?bs ! k) \<longleftrightarrow> bref (?bs ! k) \<noteq> None)" "\<not> has_ref (?fs ! k)"
    "case bref (?bs ! k) of None \<Rightarrow> ?bs ! k = ?fs ! k
         | Some r \<Rightarrow> \<exists>p. stored_part e s' (m_id m) r = Inr p
             \<and> find_block (bid (?fs ! k)) (cp_blocks p) = Some (?fs ! k)"
    by blast+
qed

lemma leads_to_inline:
  assumes "leads_to e s o' fs bs" and "\<forall>b \<in> set bs. bref b = None"
  shows "bs = fs"
  using leads_to_nth(1,4) [OF assms(1)] assms(2) by (intro nth_equalityI) auto

lemma read_back_version:
  assumes hb: "has_blocks root" and w: "w = root \<or> w = set_version e root"
    and snap: "snap = set_blocks bs w"
  shows "set_blocks (jblocks root) snap =
      (if jget ''version'' snap = jget ''version'' root then root
       else case jget ''version'' snap of Some x \<Rightarrow> jset ''version'' x root | None \<Rightarrow> root)"
proof -
  have obj: "is_obj root" using hb by (simp add: has_blocks_def)
  have hw: "has_blocks w" using w hb by auto
  have "set_blocks (jblocks root) snap = set_blocks (jblocks root) w"
    unfolding snap using hw by simp
  also have "\<dots> = w" using w hb by (metis set_blocks_simps(3,4,5))
  finally have lhs: "set_blocks (jblocks root) snap = w" .
  have ver: "jget ''version'' snap = jget ''version'' w"
    using hw by (auto simp: snap set_blocks_def jget_jset has_blocks_def)
  show ?thesis
  proof (cases "w = root")
    case True
    then show ?thesis using lhs ver by simp
  next
    case False
    then have wv: "w = jset ''version'' (JStr (e_version e)) root" using w by (simp add: set_version_def)
    then have v: "jget ''version'' w = Some (JStr (e_version e))" using obj by (simp add: jget_jset)
    have "jget ''version'' root \<noteq> Some (JStr (e_version e))"
    proof
      assume "jget ''version'' root = Some (JStr (e_version e))"
      then have "w = root" using wv obj by (cases root) (auto simp: al_set_same)
      then show False using False by simp
    qed
    then show ?thesis using lhs ver v wv by simp
  qed
qed

theorem save_message_reads_back:
  assumes laws: "ui_laws e" and ok: "tables_ok e s"
    and run: "save_message e cf now m create s = Inr (m', s')"
  shows "\<exists>row h. get_msg (m_id m) s' = Some row \<and> hydrate_message e s' row = Inr h
       \<and> h\<lparr>m_content := m_content m'\<rparr> = m'
       \<and> decode_object (m_content h) = decode_object (m_content m')"
proof -
  obtain row content v where m': "m' = row\<lparr>m_content := content\<rparr>" and sv: "saved_ok e s m row content s' v"
    by (rule save_message_rows [OF laws ok run])
  note S = saved_okD [OF sv]
  obtain c where c: "open_content e (m_id row) (m_content row) (st_uuid s') = Inr c" "mc_snap c = sv_snap v"
    using open_content_total [OF laws S(3,4)] by blast
  note leads = saved_leads_to [OF laws sv]
  have groups: "\<exists>p. stored_part e s' (m_id row) k = Inr p" if "group_rows s' (m_id row) k \<noteq> []" for k
    using saved_groups_decode [OF sv] that S(16) row_view_stored by fastforce
  have hyd: "hydrate_message e s' row = Inr (if mc_refs c = [] then row
      else row\<lparr>m_content := marshal (set_blocks (jblocks (sv_root v)) (mc_snap c))\<rparr>)"
    by (rule hydrate_message_ok [OF laws c(1) groups]) (use leads S(16) c(2) in simp_all)
  have hb: "has_blocks (sv_root v)" "has_blocks (sv_snap v)"
    using model_has_blocks [OF laws] S(2,4) by blast+
  obtain w where w: "w = sv_root v \<or> w = set_version e (sv_root v)"
      "sv_snap v = set_blocks (jblocks (sv_snap v)) w" using S(10) by blast
  have full: "decode_object content = Inr (set_blocks (jblocks (sv_root v)) (sv_snap v))"
    using S(11) read_back_version [OF hb(1) w] by simp
  let ?h = "if mc_refs c = [] then row
      else row\<lparr>m_content := marshal (set_blocks (jblocks (sv_root v)) (mc_snap c))\<rparr>"
  have "decode_object (m_content ?h) = decode_object content"
  proof (cases "mc_refs c = []")
    case True
    then have "jblocks (sv_snap v) = jblocks (sv_root v)"
      using leads_to_inline [OF leads] open_content_refs_Nil [OF laws c(1)] c(2) by simp
    then have "set_blocks (jblocks (sv_root v)) (sv_snap v) = sv_snap v"
      using hb(2) by (metis set_blocks_simps(5))
    then show ?thesis using True full S(3) by simp
  next
    case False
    have "is_obj (set_blocks (jblocks (sv_root v)) (sv_snap v))"
      using hb(2) by (simp add: set_blocks_def has_blocks_def)
    then show ?thesis using False full c(2) by (simp add: decode_marshal)
  qed
  then show ?thesis using hyd S(17) m' by auto
qed

text \<open>The invariant is preserved.\<close>

lemma message_ok_cong:
  assumes "\<And>k. group_rows s' (m_id m) k = group_rows s (m_id m) k"
  shows "message_ok e s' m = message_ok e s m"
proof -
  have "row_view e s' (m_id m) = row_view e s (m_id m)"
    using assms by (intro ext) (simp add: row_view_def stored_part_def)
  then show ?thesis using assms by (simp add: message_ok_def)
qed

lemma view_ok_empty:
  assumes "\<And>k bs. V k = Some bs \<Longrightarrow> k \<noteq> [] \<and> list_all (logical e) bs \<and> distinct (map bid bs)
      \<and> (\<forall>b \<in> set bs. refs (bid b) = k)"
  shows "view_ok e refs V {}"
  using assms unfolding view_ok_def part_ok_def homed_def by simp

lemma saved_message_ok:
  assumes laws: "ui_laws e" and sv: "saved_ok e s m row content s' v"
  shows "message_ok e s' row"
proof -
  note S = saved_okD [OF sv]
  let ?bs = "jblocks (sv_snap v)" and ?kept = "kept_refs (jblocks (sv_snap v))"
  obtain c where op: "open_content e (m_id row) (m_content row) 0 = Inr c" and snap: "mc_snap c = sv_snap v"
    using open_content_total [OF laws S(3,4)] by blast
  note O = open_content_ok [OF laws op]
  have "view_ok e (orig_ref c) (row_view e s' (m_id m)) {}"
  proof (rule view_ok_empty)
    fix k bs assume V: "row_view e s' (m_id m) k = Some bs"
    then obtain xs where xs: "sv_view v k = Some xs" "bs = keeps ?kept k xs"
      using S(7) [of k] by (auto split: if_splits)
    have P: "k \<noteq> []" "list_all (logical e) xs" "distinct (map bid xs)"
      using view_ok_part [OF S(6) xs(1)] unfolding part_ok_def by blast+
    have "orig_ref c (bid b) = k" if "b \<in> set bs" for b
    proof -
      have "(k, bid b) \<in> set ?kept" using that xs(2) by (simp add: keeps_def)
      then obtain x where x: "x \<in> set ?bs" "bref x = Some k" "bid x = bid b"
        using kept_refs_mem by blast
      then show ?thesis using O(8) [of x] snap by (simp add: orig_ref_def)
    qed
    then show "k \<noteq> [] \<and> list_all (logical e) bs \<and> distinct (map bid bs) \<and> (\<forall>b \<in> set bs. orig_ref c (bid b) = k)"
      using P xs(2) by (auto simp: keeps_def list_all_iff distinct_map_filter)
  qed
  moreover have "\<exists>r bs f. bref b = Some r \<and> r \<noteq> [] \<and> row_view e s' (m_id m) r = Some bs
                \<and> f \<in> set bs \<and> bid f = bid b" if b: "b \<in> set ?bs" "has_ref b" for b
  proof -
    obtain f r where "bref b = Some r" "r \<noteq> []" "bid b = bid f" "(bid f, r, f) \<in> sv_placed v"
      using resolves_placed [OF S(5) b] by blast
    then show ?thesis using saved_body(1) [OF sv b(1)] by metis
  qed
  ultimately show ?thesis
    using op snap S(16) saved_groups_decode [OF sv] unfolding message_ok_def by auto
qed

theorem save_message_tables_ok:
  assumes laws: "ui_laws e" and ok: "tables_ok e s"
    and run: "save_message e cf now m create s = Inr (m', s')"
  shows "tables_ok e s'"
proof -
  obtain row content v where sv: "saved_ok e s m row content s' v"
    by (rule save_message_rows [OF laws ok run])
  note S = saved_okD [OF sv]
  have "message_ok e s' x" if x: "get_msg i s' = Some x" for i x
  proof (cases "i = m_id m")
    case True
    then show ?thesis using saved_message_ok [OF laws sv] S(17) x by simp
  next
    case False
    then have "get_msg i s = Some x" using S(18) x by simp
    moreover from this have "m_id x = i" by (rule msgs.find_key)
    ultimately show ?thesis
      using ok message_ok_cong [of s' x s] S(12) False unfolding tables_ok_def by metis
  qed
  moreover have "get_msg (p_message p) s' \<noteq> None" if p: "p \<in> set (st_parts s')" for p
  proof (cases "p_message p = m_id m")
    case False
    then have "p \<in> set (group_rows s (p_message p) (p_group p))"
      using p S(12) group_rows_mem by metis
    then show ?thesis using ok S(18) False unfolding tables_ok_def group_rows_mem by auto
  qed (use S(17) in simp)
  moreover have "p_group p \<noteq> e_uuid e n" if p: "p \<in> set (st_parts s')" and n: "st_uuid s' \<le> n" for p n
  proof (cases "p_message p = m_id m")
    case True
    then have "p \<in> set (group_rows s' (m_id m) (p_group p))" using p by (simp add: group_rows_mem)
    then have "group_rows s' (m_id m) (p_group p) \<noteq> []" by force
    then show ?thesis using S(9,13,14) n by (meson order_trans)
  next
    case False
    then have "p \<in> set (group_rows s (p_message p) (p_group p))"
      using p S(12) group_rows_mem by metis
    then show ?thesis
      using ok S(15) n unfolding tables_ok_def group_rows_mem by (meson order_trans)
  qed
  ultimately show ?thesis unfolding tables_ok_def by blast
qed

lemma tables_ok_empty: "tables_ok e empty_store"
  by (simp add: tables_ok_def empty_store_def get_msg_def)

section \<open>Bounds of the stored columns\<close>

definition columns_bounded :: "nat \<Rightarrow> store \<Rightarrow> bool" where
  "columns_bounded n s \<longleftrightarrow>
     (\<forall>m \<in> set (st_msgs s). c_len (m_content m) \<le> n)
     \<and> (\<forall>p \<in> set (st_parts s). c_len (p_content p) \<le> n \<and> p_size p = c_len (p_content p))"

lemma payload_rows_bounded:
  assumes "list_all2 (payload_row cf owner g) rows vs" and "r \<in> set rows"
  shows "c_len (p_content r) \<le> cf_max cf \<and> p_size r = c_len (p_content r)"
  using assms by (induction rule: list_all2_induct) (auto simp: payload_row_def)

lemma persist_part_bounded:
  assumes "persist_part e cf owner s p = Inr s'" and "columns_bounded (cf_max cf) s"
  shows "columns_bounded (cf_max cf) s'"
proof (cases "cp_dirty p")
  case False
  then show ?thesis using assms by (simp add: persist_part_def)
next
  case True
  then obtain vs where "insert_payloads e cf owner (cp_group p) True vs (delete_group owner (cp_group p) s) = Inr s'"
    using assms(1) by (auto simp: persist_part_def elim!: bindR_obtain)
  from replace_group_ok [OF this] obtain rows where
    "list_all2 (payload_row cf owner (cp_group p)) rows vs"
    "set (st_parts s') \<subseteq> set (st_parts s) \<union> set rows" "st_msgs s' = st_msgs s"
    unfolding part_rows_def by blast
  then show ?thesis using assms(2) payload_rows_bounded unfolding columns_bounded_def by (metis UnE subsetD)
qed

lemma persist_bounded:
  assumes "persist e cf c s = Inr s'" and "columns_bounded (cf_max cf) s"
  shows "columns_bounded (cf_max cf) s'"
  using assms unfolding persist_def
  by (rule foldR_invariant) (rule persist_part_bounded)

lemma pack_content_bounded: "pack_content e s cf c = Inr (stored, c') \<Longrightarrow> c_len stored \<le> cf_max cf"
  by (auto simp: pack_content_def Let_def elim!: bindR_obtain bindR_triple split: if_splits)

lemma write_row_bounded:
  assumes "write_row now m create s = Inr (m', s')" and "columns_bounded n s" and "c_len (m_content m) \<le> n"
  shows "columns_bounded n s'"
proof (cases create)
  case True
  then have ins: "insert_msg (message_defaults now m) s = Inr s'"
    using assms(1) by (auto simp: write_row_def Let_def elim!: bindR_obtain)
  note F = insert_msg_frame [OF ins]
  show ?thesis using assms(2,3) by (auto simp: columns_bounded_def F(1,6) message_defaults_def)
next
  case False
  then have "s' = put_msg (m\<lparr>m_updated := now\<rparr>) s" using assms(1) by (auto simp: write_row_def Let_def)
  moreover have "set (tbl_put m_id (m\<lparr>m_updated := now\<rparr>) (st_msgs s)) \<subseteq> insert (m\<lparr>m_updated := now\<rparr>) (set (st_msgs s))"
    by (rule set_tbl_put)
  ultimately show ?thesis using assms(2,3) by (auto simp: columns_bounded_def put_msg_def)
qed

theorem save_message_bounded:
  assumes run: "save_message e cf now m create s = Inr (m', s')" and ok: "columns_bounded (cf_max cf) s"
  shows "columns_bounded (cf_max cf) s'"
proof -
  obtain c0 c packed c1 m1 s1 c2 s2 content where
    c1: "pack_content e s cf c = Inr (packed, c1)"
    and w: "write_row now (m\<lparr>m_content := stored_content cf (m_content m) packed c1\<rparr>) create
       (s\<lparr>st_uuid := mc_uuid c1\<rparr>) = Inr (m1, s1)"
    and s2: "persist e cf c2 s1 = Inr s2" and out: "s' = delete_unkept (m_id m) (save_keys c1) s2"
    by (rule save_message_split [OF run]) blast
  have "c_len (stored_content cf (m_content m) packed c1) \<le> cf_max cf"
    using pack_content_bounded [OF c1] by (simp add: stored_content_def)
  moreover have "columns_bounded (cf_max cf) (s\<lparr>st_uuid := mc_uuid c1\<rparr>)" using ok by (simp add: columns_bounded_def)
  ultimately have "columns_bounded (cf_max cf) s1" using write_row_bounded [OF w] by simp
  then have "columns_bounded (cf_max cf) s2" by (rule persist_bounded [OF s2])
  then show ?thesis unfolding out columns_bounded_def delete_unkept_def by auto
qed

section \<open>Frame of a save\<close>

definition other_tables :: "store \<Rightarrow> store \<Rightarrow> bool" where
  "other_tables s s' \<longleftrightarrow> st_runs s' = st_runs s \<and> st_convs s' = st_convs s \<and> st_locks s' = st_locks s"

lemma other_tables_refl [simp]: "other_tables s s"
  by (simp add: other_tables_def)

lemma other_tables_trans: "other_tables a b \<Longrightarrow> other_tables b c \<Longrightarrow> other_tables a c"
  by (simp add: other_tables_def)

lemma persist_part_frame:
  assumes "persist_part e cf owner s p = Inr s'"
  shows "st_msgs s' = st_msgs s \<and> other_tables s s'"
proof (cases "cp_dirty p")
  case False
  then show ?thesis using assms by (simp add: persist_part_def)
next
  case True
  then obtain vs where "insert_payloads e cf owner (cp_group p) True vs (delete_group owner (cp_group p) s) = Inr s'"
    using assms(1) by (auto simp: persist_part_def elim!: bindR_obtain)
  from replace_group_ok [OF this] show ?thesis
    unfolding part_rows_def other_tables_def by blast
qed

lemma persist_frame:
  assumes "persist e cf c s = Inr s'"
  shows "st_msgs s' = st_msgs s" "other_tables s s'"
proof -
  have "st_msgs s' = st_msgs s \<and> other_tables s s'"
    using assms unfolding persist_def
  proof (rule foldR_invariant)
    show "st_msgs s = st_msgs s \<and> other_tables s s" by simp
    show "st_msgs t' = st_msgs s \<and> other_tables s t'"
      if "st_msgs t = st_msgs s \<and> other_tables s t" "persist_part e cf (mc_owner c) t x = Inr t'" for t t' x
      using that persist_part_frame [OF that(2)] other_tables_trans by metis
  qed
  then show "st_msgs s' = st_msgs s" "other_tables s s'" by blast+
qed

definition written_row :: "int \<Rightarrow> message \<Rightarrow> bool \<Rightarrow> message" where
  "written_row now m create = (if create then message_defaults now m else m\<lparr>m_updated := now\<rparr>)"

lemma message_defaults_content:
  "message_defaults now (m\<lparr>m_content := x\<rparr>) = (message_defaults now m)\<lparr>m_content := x\<rparr>"
  by (simp add: message_defaults_def)

lemma message_defaults_id [simp]: "m_id (message_defaults now m) = m_id m"
  by (simp add: message_defaults_def)

lemma write_row_result:
  "write_row now m create s = Inr (m', s') \<Longrightarrow> m' = written_row now m create"
  by (auto simp: write_row_def written_row_def Let_def elim!: bindR_obtain split: if_splits)

lemma same_home_adopt_uuid:
  assumes "open_logical e m n = Inr c0" and "adopt_layout e m create s c0 = Inr c"
  shows "mc_uuid c = n"
proof -
  have "open_content e (m_id m) (m_content m) n = Inr c0"
    using assms(1) by (auto simp: open_logical_def split: sum.splits err.splits if_splits)
  then have "mc_uuid c0 = n"
    by (auto simp: open_content_def elim!: bindR_obtain split: if_splits)
  then show ?thesis
    using assms(2) by (auto simp: adopt_layout_def elim!: bindR_obtain split: if_splits)
qed

theorem save_message_frame:
  assumes run: "save_message e cf now m create s = Inr (m', s')"
  shows "\<exists>x y. m' = (written_row now m create)\<lparr>m_content := x\<rparr>
      \<and> get_msg (m_id m) s' = Some ((written_row now m create)\<lparr>m_content := y\<rparr>)"
    "\<And>i. i \<noteq> m_id m \<Longrightarrow> get_msg i s' = get_msg i s"
    "st_runs s' = st_runs s" "st_convs s' = st_convs s" "st_locks s' = st_locks s"
    "create \<Longrightarrow> get_msg (m_id m) s = None"
    "\<not> create \<Longrightarrow> get_msg (m_id m) s \<noteq> None"
proof -
  obtain c0 c packed c1 m1 s1 c2 s2 content where
    c0: "open_logical e m (st_uuid s) = Inr c0" and c: "adopt_layout e m create s c0 = Inr c"
    and w: "write_row now (m\<lparr>m_content := stored_content cf (m_content m) packed c1\<rparr>) create
       (s\<lparr>st_uuid := mc_uuid c1\<rparr>) = Inr (m1, s1)"
    and s2: "persist e cf c2 s1 = Inr s2"
    and out: "m' = m1\<lparr>m_content := content\<rparr>" "s' = delete_unkept (m_id m) (save_keys c1) s2"
    by (rule save_message_split [OF run]) blast
  have exists: "create \<or> get_msg (m_id m) s \<noteq> None"
    using c by (cases create; cases "get_msg (m_id m) s") (simp_all add: adopt_layout_def)
  have w_pre: "create \<or> get_msg (m_id (m\<lparr>m_content := stored_content cf (m_content m) packed c1\<rparr>))
      (s\<lparr>st_uuid := mc_uuid c1\<rparr>) \<noteq> None"
    using exists by simp
  note W = write_row_frame [OF w w_pre]
  note P = persist_frame [OF s2]
  have get': "get_msg i s' = get_msg i s1" for i
    using P(1) unfolding out(2) delete_unkept_def by (simp add: get_msg_def)
  have m1: "m1 = (written_row now m create)\<lparr>m_content := stored_content cf (m_content m) packed c1\<rparr>"
    using write_row_result [OF w] by (auto simp: written_row_def message_defaults_content)
  show "\<exists>x y. m' = (written_row now m create)\<lparr>m_content := x\<rparr>
      \<and> get_msg (m_id m) s' = Some ((written_row now m create)\<lparr>m_content := y\<rparr>)"
    using m1 out(1) W(6) get' by auto
  show "get_msg i s' = get_msg i s" if "i \<noteq> m_id m" for i
    using W(7) [of i] get' that by simp
  show "st_runs s' = st_runs s" "st_convs s' = st_convs s" "st_locks s' = st_locks s"
    using P(2) W(9-11) unfolding out(2) delete_unkept_def other_tables_def by simp_all
  show "get_msg (m_id m) s = None" if create using W(8) [OF that] by simp
  show "get_msg (m_id m) s \<noteq> None" if "\<not> create" using exists that by simp
qed

end
