(* ===== verification/Messages.thy ===== *)
theory Messages
  imports Saving
begin

text \<open>
  Message writes of the repository (\<^verbatim>\<open>message.go\<close>, \<^verbatim>\<open>publication.go\<close>, \<^verbatim>\<open>projection.go\<close> under
  \<^verbatim>\<open>server/internal/repo\<close>): allocation, whole-content updates, deletion, expiry of inactive
  streams, idempotent publication and the event projection that maintains an output
  message. Each operation is one transaction, a function of the store.
\<close>

section \<open>Whole messages\<close>

text \<open>\<^verbatim>\<open>requireUnownedMessage\<close>: a run's output is written only by the run.\<close>

definition run_owned :: "string \<Rightarrow> store \<Rightarrow> bool" where
  "run_owned i s \<longleftrightarrow> (\<exists>r \<in> set (st_runs s). hn_message r = i)"

definition require_unowned :: "string \<Rightarrow> store \<Rightarrow> unit result" where
  "require_unowned i s =
     guardR (length (filter (\<lambda>r. hn_message r = i) (st_runs s)) = 0) ErrConflict"

definition create_message ::
    "env \<Rightarrow> config \<Rightarrow> int \<Rightarrow> message \<Rightarrow> store \<Rightarrow> (message \<times> store) result" where
  "create_message e cf now m s = mapped (
     bindR (option_or GormNotFound (get_conv (m_conv m) s)) (\<lambda>conv.
     bindR (ensure_participant_conversation e now conv (m_target m) s) (\<lambda>s1.
       save_message e cf now m True s1)))"

definition create_chat_input ::
    "env \<Rightarrow> config \<Rightarrow> int \<Rightarrow> message \<Rightarrow> store \<Rightarrow> (message \<times> store) result" where
  "create_chat_input e cf now m s = mapped (
     bindR (option_or GormNotFound (get_conv (m_conv m) s)) (\<lambda>conv.
       if \<not> root_conversation conv then Inl ErrConflict
       else bindR (ensure_participant_conversation e now conv (m_target m) s) (\<lambda>s1.
         save_message e cf now m True s1)))"

definition update_message_content ::
    "env \<Rightarrow> config \<Rightarrow> int \<Rightarrow> string \<Rightarrow> string \<Rightarrow> content \<Rightarrow> store \<Rightarrow> (message \<times> store) result" where
  "update_message_content e cf now conv i content s = mapped (
     bindR (option_or GormNotFound (find_in_conv conv i s)) (\<lambda>m.
     bindR (require_unowned (m_id m) s) (\<lambda>_.
       save_message e cf now (m\<lparr>m_content := content, m_revision := m_revision m + 1\<rparr>) False s)))"

definition delete_message :: "string \<Rightarrow> store \<Rightarrow> store result" where
  "delete_message i s = mapped (
     bindR (option_or GormNotFound (get_msg i s)) (\<lambda>m.
     bindR (require_unowned (m_id m) s) (\<lambda>_.
       Inr (s\<lparr>st_parts := filter (\<lambda>p. p_message p \<noteq> i) (st_parts s),
              st_msgs := filter (\<lambda>x. m_id x \<noteq> i) (st_msgs s)\<rparr>))))"

section \<open>Expiry\<close>

text \<open>
  \<^verbatim>\<open>ExpireMessages\<close> reads candidates and then updates them one by one, each update under its
  own condition; other transactions run between the updates, so one update is an
  operation of its own on whatever the store then is.
\<close>

record expiry_row =
  xr_id :: string
  xr_revision :: nat
  xr_target_kind :: string

definition may_expire :: "int \<Rightarrow> store \<Rightarrow> message \<Rightarrow> bool" where
  "may_expire cutoff s m \<longleftrightarrow>
     m_status m = MessageStatusStreaming \<and> m_updated m \<le> cutoff \<and> \<not> run_owned (m_id m) s"

definition expire_candidates :: "int \<Rightarrow> nat \<Rightarrow> store \<Rightarrow> expiry_row list" where
  "expire_candidates cutoff limit s =
     map (\<lambda>m. \<lparr>xr_id = m_id m, xr_revision = m_revision m, xr_target_kind = ar_kind (m_target m)\<rparr>)
       (take limit (sort_key (\<lambda>m. (m_updated m)) (sort_key m_id (filter (may_expire cutoff s) (st_msgs s)))))"

definition expire_one :: "int \<Rightarrow> expiry_row \<Rightarrow> store \<Rightarrow> store \<times> nat" where
  "expire_one cutoff x s =
     (case get_msg (xr_id x) s of
        Some m \<Rightarrow>
          if may_expire cutoff s m \<and> m_revision m = xr_revision x
          then (put_msg (m\<lparr>m_status := MessageStatusExpired, m_revision := xr_revision x + 1,
                          m_dispatch := (xr_target_kind x \<noteq> ActorKindUser)\<rparr>) s, 1)
          else (s, 0)
      | None \<Rightarrow> (s, 0))"

fun expire_rows :: "int \<Rightarrow> expiry_row list \<Rightarrow> string list \<Rightarrow> store \<Rightarrow> string list \<times> store" where
  "expire_rows cutoff [] done s = (done, s)"
| "expire_rows cutoff (x # xs) done s =
     (let (s1, n) = expire_one cutoff x s
      in expire_rows cutoff xs (if n = 1 then done @ [xr_id x] else done) s1)"

definition expire_messages :: "int \<Rightarrow> nat \<Rightarrow> store \<Rightarrow> string list \<times> store" where
  "expire_messages cutoff limit s = expire_rows cutoff (expire_candidates cutoff limit s) [] s"

section \<open>Publication\<close>

definition zero_sep :: "string list \<Rightarrow> string" where
  "zero_sep xs = join_with [CHR 0x00] xs"

definition speak_key :: "env \<Rightarrow> string \<Rightarrow> speak_request \<Rightarrow> string" where
  "speak_key e conv r =
     ''publish/'' @ e_sha e (zero_sep [conv, ar_kind (sr_actor r), ar_key (sr_actor r), sr_key r])"

definition spoken_message :: "env \<Rightarrow> string \<Rightarrow> speak_request \<Rightarrow> string \<Rightarrow> message" where
  "spoken_message e conv r i =
     new_message\<lparr>m_id := i, m_conv := conv, m_source := sr_actor r, m_target := sr_target r,
       m_reply_to := sr_reply_to r, m_output_key := Some (speak_key e conv r), m_revision := 1,
       m_content := sr_content r,
       m_status := (if sr_status r = [] then MessageStatusCompleted else sr_status r),
       m_dispatch := (ar_kind (sr_target r) \<noteq> ActorKindUser)\<rparr>"

definition speak ::
    "env \<Rightarrow> config \<Rightarrow> int \<Rightarrow> string \<Rightarrow> speak_request \<Rightarrow> store \<Rightarrow> (message \<times> store) result" where
  "speak e cf now conv r s =
     bindR (mapped (option_or GormNotFound (get_conv conv s))) (\<lambda>cv.
       case find (\<lambda>m. m_conv m = conv \<and> m_output_key m = Some (speak_key e conv r)) (st_msgs s) of
         Some old \<Rightarrow>
           if m_target old \<noteq> sr_target r \<or> m_reply_to old \<noteq> sr_reply_to r then Inl ErrConflict
           else bindR (hydrate_message e s old) (\<lambda>m. Inr (m, s))
       | None \<Rightarrow>
           bindR (if sr_reply_to r = [] then Inr ()
                  else mapped (bindR (option_or GormNotFound (find_in_conv conv (sr_reply_to r) s))
                                 (\<lambda>_. Inr ()))) (\<lambda>_.
           bindR (ensure_participant_conversation e now cv (sr_target r) s) (\<lambda>s1.
             mapped (save_message e cf now (spoken_message e conv r (fresh_id e s1)) True (draw s1)))))"

section \<open>Projection of output events\<close>

definition obj_field :: "string \<Rightarrow> json \<Rightarrow> json" where
  "obj_field k v = (case jget k v of Some (JObj kvs) \<Rightarrow> JObj kvs | _ \<Rightarrow> JObj [])"

definition ev_get :: "string \<Rightarrow> event \<Rightarrow> json option" where
  "ev_get k ev = (case ev_block ev of None \<Rightarrow> None | Some b \<Rightarrow> jget k b)"

definition fingerprint :: "env \<Rightarrow> string \<Rightarrow> string \<Rightarrow> string" where
  "fingerprint e bytes status = e_sha e (bytes @ CHR 0x00 # status)"

text \<open>What \<^verbatim>\<open>packContent\<close> assumes of the blocks it is given.\<close>

definition pack_shape :: "json \<Rightarrow> bool" where
  "pack_shape v \<longleftrightarrow>
     (case jget ''blocks'' v of
        Some (JArr bs) \<Rightarrow> list_all (\<lambda>b. is_obj b \<and> (has_ref b \<or> block_shape b)) bs
      | _ \<Rightarrow> False)"

definition remember_event :: "string \<Rightarrow> json \<Rightarrow> json" where
  "remember_event fp v =
     jset ''meta'' (jset ''output'' (JObj [(''last_event'', JStr fp)]) (obj_field ''meta'' v)) v"

definition accept_output :: "int \<Rightarrow> event \<Rightarrow> string \<Rightarrow> content \<Rightarrow> message \<Rightarrow> message" where
  "accept_output now ev status content m =
     m\<lparr>m_content := content, m_revision := ev_seq ev,
       m_status := (if ev_op ev = OpEnd then status else m_status m),
       m_dispatch := (if ev_op ev = OpEnd \<and> ar_kind (m_target m) \<noteq> ActorKindUser then True
                      else m_dispatch m),
       m_created := (let at = (case ev_timestamp ev of Some ms \<Rightarrow> ms * 1000000 | None \<Rightarrow> now)
                     in if at < m_created m then at else m_created m),
       m_updated := now\<rparr>"

text \<open>The guards before the event is applied: \<open>Inr True\<close> says it was applied before.\<close>

definition output_replayed ::
    "bool \<Rightarrow> string \<Rightarrow> event \<Rightarrow> message \<Rightarrow> json \<Rightarrow> bool result" where
  "output_replayed harness fp ev m snap =
     (let meta = obj_field ''meta'' snap
      in if \<not> harness \<and> jget ''human'' meta \<noteq> None \<and> jget ''human'' meta \<noteq> Some JNull
         then Inl ErrConflict
         else if ev_seq ev \<le> m_revision m then
           (if ev_seq ev = m_revision m
               \<and> jget ''last_event'' (obj_field ''output'' meta) = Some (JStr fp)
            then Inr True else Inl ErrConflict)
         else if ev_seq ev \<noteq> m_revision m + 1 then Inl ErrConflict
         else if status_terminal (m_status m) then Inl ErrConflict
         else if ev_get ''ref'' ev \<noteq> None then Inl ErrInvalidContent
         else Inr False)"

definition event_block_loaded :: "env \<Rightarrow> store \<Rightarrow> event \<Rightarrow> mcontent \<Rightarrow> mcontent result" where
  "event_block_loaded e s ev c =
     (if ev_op ev = OpSet \<or> ev_op ev = OpAppend
      then (case jstr (ev_get ''id'' ev) of Some b \<Rightarrow> materialize e s b c | None \<Rightarrow> Inr c)
      else Inr c)"

definition apply_output ::
    "env \<Rightarrow> config \<Rightarrow> int \<Rightarrow> event \<Rightarrow> string \<Rightarrow> string \<Rightarrow> message \<Rightarrow> mcontent \<Rightarrow> store \<Rightarrow> store result" where
  "apply_output e cf now ev fp status m c s =
     (if ev_get ''type'' ev = Some (JStr (e_frame_type e)) then Inl ErrInvalidContent
      else
        bindR (event_block_loaded e s ev c) (\<lambda>c1.
        bindR (e_apply e (mc_snap c1) ev) (\<lambda>next.
          let next1 = remember_event fp next in
          if \<not> pack_shape next1 then Inl GoPanic
          else bindR (pack_content e s cf (c1\<lparr>mc_snap := next1\<rparr>)) (\<lambda>(content, c2).
               bindR (persist e cf c2 (s\<lparr>st_uuid := mc_uuid c2\<rparr>)) (\<lambda>s1.
                 Inr (put_msg (accept_output now ev status content m) s1))))))"

definition project_event ::
    "env \<Rightarrow> config \<Rightarrow> int \<Rightarrow> string \<Rightarrow> event \<Rightarrow> string \<Rightarrow> bool \<Rightarrow> store \<Rightarrow> store result" where
  "project_event e cf now i ev status harness s =
     bindR (e_marshal e ev) (\<lambda>bytes.
     bindR (option_or GormNotFound (get_msg i s)) (\<lambda>m.
     bindR (if harness then Inr () else require_unowned (m_id m) s) (\<lambda>_.
     bindR (open_content e (m_id m) (m_content m) (st_uuid s)) (\<lambda>c.
     bindR (output_replayed harness (fingerprint e bytes status) ev m (mc_snap c)) (\<lambda>replayed.
       if replayed then Inr s
       else apply_output e cf now ev (fingerprint e bytes status) status m c s)))))"

text \<open>
  \<^verbatim>\<open>ProjectOutput\<close>. Its errors are not passed through \<^verbatim>\<open>mapError\<close>: a missing message is the
  database's own error.
\<close>

definition output_status :: "event \<Rightarrow> string list \<Rightarrow> string result" where
  "output_status ev statuses =
     (if 1 < length statuses then Inl ErrConflict
      else let given = (case statuses of [x] \<Rightarrow> x | _ \<Rightarrow> []);
               status = (if ev_op ev = OpEnd \<and> given = [] then MessageStatusCompleted else given)
           in if (ev_op ev = OpEnd \<and> \<not> status_terminal status) \<or> (ev_op ev \<noteq> OpEnd \<and> status \<noteq> [])
              then Inl ErrConflict else Inr status)"

definition project_output ::
    "env \<Rightarrow> config \<Rightarrow> int \<Rightarrow> string \<Rightarrow> event \<Rightarrow> string list \<Rightarrow> store \<Rightarrow> store result" where
  "project_output e cf now i ev statuses s =
     bindR (output_status ev statuses) (\<lambda>status. project_event e cf now i ev status False s)"

section \<open>Effects\<close>

text \<open>
  An accepted event is a replay that changes nothing, or the next revision of a message that
  has not ended; no other message and no other table is touched.
\<close>

definition output_accepted ::
    "int \<Rightarrow> string \<Rightarrow> event \<Rightarrow> string \<Rightarrow> nat \<Rightarrow> store \<Rightarrow> store \<Rightarrow> message \<Rightarrow> bool" where
  "output_accepted now i ev status limit s s' m \<longleftrightarrow>
     ev_seq ev = m_revision m + 1 \<and> \<not> status_terminal (m_status m)
   \<and> (\<exists>content. c_len content \<le> limit \<and> get_msg i s' = Some (accept_output now ev status content m))
   \<and> (\<forall>j. j \<noteq> i \<longrightarrow> get_msg j s' = get_msg j s) \<and> other_tables s s'"

lemma accept_output_id [simp]: "m_id (accept_output now ev status content m) = m_id m"
  by (simp add: accept_output_def)

lemma output_replayed_cases:
  assumes "output_replayed harness fp ev m snap = Inr b"
  shows "(b \<and> ev_seq ev = m_revision m)
       \<or> (\<not> b \<and> ev_seq ev = m_revision m + 1 \<and> \<not> status_terminal (m_status m) \<and> ev_get ''ref'' ev = None)"
  using assms by (auto simp: output_replayed_def Let_def split: if_splits)

lemma apply_output_effect:
  assumes run: "apply_output e cf now ev fp status m c s = Inr s'" and m: "get_msg i s = Some m"
  shows "(\<exists>content. c_len content \<le> cf_max cf \<and> get_msg i s' = Some (accept_output now ev status content m))"
    "\<And>j. j \<noteq> i \<Longrightarrow> get_msg j s' = get_msg j s" "other_tables s s'"
proof -
  have id: "m_id m = i" using m by (rule msgs.find_key)
  obtain c3 content c2 s1 where pack: "pack_content e s cf c3 = Inr (content, c2)"
    and pers: "persist e cf c2 (s\<lparr>st_uuid := mc_uuid c2\<rparr>) = Inr s1"
    and s': "s' = put_msg (accept_output now ev status content m) s1"
    using run by (auto simp: apply_output_def Let_def elim!: bindR_obtain bindR_pair split: if_splits)
  note P = persist_frame [OF pers]
  have get1: "get_msg j s1 = get_msg j s" for j
    using P(1) by (simp add: get_msg_def)
  have "get_msg i s' = Some (accept_output now ev status content m)"
    using m id get1 unfolding s' by (simp add: msgs.find_put)
  then show "\<exists>content. c_len content \<le> cf_max cf \<and> get_msg i s' = Some (accept_output now ev status content m)"
    using pack_content_bounded [OF pack] by blast
  show "get_msg j s' = get_msg j s" if "j \<noteq> i" for j
    using get1 that id unfolding s' by (simp add: msgs.find_put)
  show "other_tables s s'" using P(2) unfolding s' by (simp add: other_tables_def)
qed

lemma project_event_split:
  assumes "project_event e cf now i ev status harness s = Inr s'"
  shows "\<exists>bytes m c replayed. e_marshal e ev = Inr bytes \<and> get_msg i s = Some m
      \<and> (harness \<or> \<not> run_owned i s) \<and> open_content e i (m_content m) (st_uuid s) = Inr c
      \<and> output_replayed harness (fingerprint e bytes status) ev m (mc_snap c) = Inr replayed
      \<and> (if replayed then s' = s
         else apply_output e cf now ev (fingerprint e bytes status) status m c s = Inr s')"
proof -
  obtain bytes m u c replayed where *: "e_marshal e ev = Inr bytes" "get_msg i s = Some m"
      "(if harness then Inr () else require_unowned (m_id m) s) = Inr u"
      "open_content e (m_id m) (m_content m) (st_uuid s) = Inr c"
      "output_replayed harness (fingerprint e bytes status) ev m (mc_snap c) = Inr replayed"
      "(if replayed then Inr s
        else apply_output e cf now ev (fingerprint e bytes status) status m c s) = Inr s'"
    using assms unfolding project_event_def bindR_eq_Inr option_or_eq_Inr by blast
  have id: "m_id m = i" using *(2) by (rule msgs.find_key)
  have "harness \<or> \<not> run_owned i s"
    using *(3) id by (cases harness) (auto simp: require_unowned_def run_owned_def filter_empty_conv)
  moreover have "if replayed then s' = s
      else apply_output e cf now ev (fingerprint e bytes status) status m c s = Inr s'"
    using *(6) by (cases replayed) auto
  ultimately show ?thesis using * id by blast
qed

lemma project_event_cases:
  assumes run: "project_event e cf now i ev status harness s = Inr s'"
  shows "\<exists>m. get_msg i s = Some m
    \<and> ((s' = s \<and> ev_seq ev = m_revision m) \<or> output_accepted now i ev status (cf_max cf) s s' m)
    \<and> (harness \<or> \<not> run_owned i s)"
proof -
  obtain bytes m c replayed where *: "get_msg i s = Some m" "harness \<or> \<not> run_owned i s"
      "output_replayed harness (fingerprint e bytes status) ev m (mc_snap c) = Inr replayed"
      "if replayed then s' = s
         else apply_output e cf now ev (fingerprint e bytes status) status m c s = Inr s'"
    using project_event_split [OF run] by blast
  have "(s' = s \<and> ev_seq ev = m_revision m) \<or> output_accepted now i ev status (cf_max cf) s s' m"
  proof (cases replayed)
    case True
    then show ?thesis using output_replayed_cases [OF *(3)] *(4) by simp
  next
    case False
    then have "apply_output e cf now ev (fingerprint e bytes status) status m c s = Inr s'" using *(4) by simp
    note A = apply_output_effect [OF this *(1)]
    show ?thesis
      using output_replayed_cases [OF *(3)] False A unfolding output_accepted_def by blast
  qed
  then show ?thesis using * by blast
qed

end
