(* ===== verification/JsonPrint.thy ===== *)
theory JsonPrint
  imports Json
begin

text \<open>
  The encoding of JSON values is injective: a text printed by \<open>json_print\<close> determines the value, when
  its strings are valid UTF-8 and its numbers are literals. (The encoder replaces invalid bytes, so without
  that two strings can have one encoding.) Fingerprints of requests rest on it.
\<close>

section \<open>Strings\<close>

definition valid_utf8 :: "string \<Rightarrow> bool" where
  "valid_utf8 s \<longleftrightarrow> to_valid_utf8 s = s"

lemma valid_utf8_Nil [simp]: "valid_utf8 []"
  by (simp add: valid_utf8_def)

lemma valid_utf8_Cons:
  assumes "valid_utf8 (a # s)"
  shows "utf8_width (a # s) \<noteq> 0" "valid_utf8 (drop (utf8_width (a # s)) (a # s))"
proof -
  show w: "utf8_width (a # s) \<noteq> 0"
  proof
    assume "utf8_width (a # s) = 0"
    then have "to_valid_utf8 s = a # s" using assms by (simp add: valid_utf8_def)
    then show False using length_to_valid_utf8 [of s] by simp
  qed
  let ?w = "utf8_width (a # s)"
  have "take ?w (a # s) @ to_valid_utf8 (drop ?w (a # s)) = take ?w (a # s) @ drop ?w (a # s)"
    using assms w by (simp add: valid_utf8_def Let_def)
  then show "valid_utf8 (drop ?w (a # s))" unfolding valid_utf8_def by (rule same_append_eq [THEN iffD1])
qed

text \<open>Reading a quoted string back.\<close>

definition unhex :: "char \<Rightarrow> nat" where
  "unhex c = (if bt c < 58 then bt c - 48 else bt c - 87)"

definition unicode_bytes :: "char \<Rightarrow> char \<Rightarrow> char \<Rightarrow> char \<Rightarrow> string" where
  "unicode_bytes h1 h2 h3 h4 =
     (if h1 = CHR ''0'' then [char_of (16 * unhex h3 + unhex h4)]
      else [CHR 0xE2, CHR 0x80, if h4 = CHR ''8'' then CHR 0xA8 else CHR 0xA9])"

definition short_escape :: "char \<Rightarrow> char" where
  "short_escape d =
     (if d = CHR ''b'' then CHR 0x08 else if d = CHR ''f'' then CHR 0x0C else if d = CHR ''n'' then CHR 0x0A
      else if d = CHR ''r'' then CHR 0x0D else if d = CHR ''t'' then CHR 0x09 else d)"

fun unquote :: "string \<Rightarrow> string \<times> string" where
  "unquote [] = ([], [])"
| "unquote (c # r) =
     (if c = CHR 0x22 then ([], r)
      else if c = CHR 0x5C then
        (case r of
           d # r1 \<Rightarrow>
             if d = CHR ''u'' then
               (case r1 of
                  h1 # h2 # h3 # h4 # r2 \<Rightarrow> apfst ((@) (unicode_bytes h1 h2 h3 h4)) (unquote r2)
                | _ \<Rightarrow> ([], []))
             else apfst ((#) (short_escape d)) (unquote r1)
         | [] \<Rightarrow> ([], []))
      else apfst ((#) c) (unquote r))"

lemma bt_inj: "bt a = bt b \<longleftrightarrow> a = b"
  by (simp add: bt_def)

lemma char_of_bt [simp]: "char_of (bt a) = a"
  by (simp add: bt_def)

lemma unhex_digit: "d < 16 \<Longrightarrow> unhex (hex_digit d) = d"
  by (simp add: unhex_def hex_digit_def bt_def)

lemma unquote_plain: "\<forall>c \<in> set cs. c \<noteq> CHR 0x22 \<and> c \<noteq> CHR 0x5C \<Longrightarrow> unquote (cs @ r) = apfst ((@) cs) (unquote r)"
  by (induction cs) (auto simp: prod_eq_iff)

lemma unquote_esc1: "unquote (esc1 a @ r) = apfst ((#) a) (unquote r)"
proof -
  have c: "bt a = 0x22 \<longleftrightarrow> a = CHR 0x22" "bt a = 0x5C \<longleftrightarrow> a = CHR 0x5C" "bt a = 0x08 \<longleftrightarrow> a = CHR 0x08"
    "bt a = 0x0C \<longleftrightarrow> a = CHR 0x0C" "bt a = 0x0A \<longleftrightarrow> a = CHR 0x0A" "bt a = 0x0D \<longleftrightarrow> a = CHR 0x0D"
    "bt a = 0x09 \<longleftrightarrow> a = CHR 0x09"
    by (simp_all add: bt_inj [symmetric]) (simp_all add: bt_def)
  have h: "unicode_bytes CHR ''0'' CHR ''0'' (hex_digit (bt a div 16)) (hex_digit (bt a mod 16)) = [a]" if "bt a < 256"
  proof -
    have "bt a div 16 < 16" using that by simp
    then have "16 * unhex (hex_digit (bt a div 16)) + unhex (hex_digit (bt a mod 16)) = bt a"
      by (simp add: unhex_digit)
    then show ?thesis by (simp add: unicode_bytes_def)
  qed
  have "bt a < 256" by (simp add: bt_def)
  note h = h [OF this]
  show ?thesis unfolding esc1_def Let_def c by (simp add: short_escape_def h)
qed

lemma utf8_width_le: "utf8_width (a # s) \<le> Suc (length s)"
  by (auto simp: utf8_width.simps Let_def split: list.splits)

lemma wide_bytes:
  assumes "1 < utf8_width (a # s)"
  shows "\<forall>c \<in> set (take (utf8_width (a # s)) (a # s)). 0x80 \<le> bt c"
  using assms by (auto simp: utf8_width.simps Let_def cont_def split: list.splits if_splits)

lemma unquote_wide:
  assumes "1 < utf8_width (a # s)"
  shows "unquote (esc_wide (take (utf8_width (a # s)) (a # s)) @ r) = apfst ((@) (take (utf8_width (a # s)) (a # s))) (unquote r)"
proof -
  let ?t = "take (utf8_width (a # s)) (a # s)"
  have "\<forall>c \<in> set ?t. c \<noteq> CHR 0x22 \<and> c \<noteq> CHR 0x5C" using wide_bytes [OF assms] by (auto simp: bt_def)
  then show ?thesis
    unfolding esc_wide_def by (auto simp: unquote_plain unicode_bytes_def)
qed

lemma unquote_escape: "valid_utf8 s \<Longrightarrow> unquote (json_escape s @ CHR 0x22 # x) = (s, x)"
proof (induction s rule: json_escape.induct)
  case (2 a s)
  let ?w = "utf8_width (a # s)"
  note v = valid_utf8_Cons [OF 2(4)]
  show ?case
  proof (cases "?w = 1")
    case True
    then have "unquote (json_escape s @ CHR 0x22 # x) = (s, x)" using 2(2) v by simp
    then show ?thesis using True by (simp add: unquote_esc1)
  next
    case False
    then have "unquote (json_escape (drop ?w (a # s)) @ CHR 0x22 # x) = (drop ?w (a # s), x)" using 2(3) v by simp
    moreover have "1 < ?w" using v(1) False by simp
    ultimately show ?thesis using v(1) False by (simp add: Let_def unquote_wide del: take_Suc_Cons)
  qed
qed simp

lemma json_quote_inj:
  assumes "json_quote s @ x = json_quote t @ y" and "valid_utf8 s" and "valid_utf8 t"
  shows "s = t \<and> x = y"
proof -
  have "json_escape s @ CHR 0x22 # x = json_escape t @ CHR 0x22 # y" using assms(1) by (simp add: json_quote_def)
  then have "unquote (json_escape s @ CHR 0x22 # x) = unquote (json_escape t @ CHR 0x22 # y)" by (rule arg_cong)
  then show ?thesis unfolding unquote_escape [OF assms(2)] unquote_escape [OF assms(3)] by simp
qed

section \<open>Values\<close>

definition num_char :: "char \<Rightarrow> bool" where
  "num_char c \<longleftrightarrow> (48 \<le> bt c \<and> bt c \<le> 57) \<or> c \<in> {CHR ''-'', CHR ''+'', CHR ''.'', CHR ''e'', CHR ''E''}"

fun json_ok :: "json \<Rightarrow> bool" where
  "json_ok JNull = True"
| "json_ok (JBool b) = True"
| "json_ok (JNum s) = (s \<noteq> [] \<and> list_all num_char s)"
| "json_ok (JStr s) = valid_utf8 s"
| "json_ok (JArr vs) = list_all json_ok vs"
| "json_ok (JObj kvs) = list_all (\<lambda>(k, v). valid_utf8 k \<and> json_ok v) kvs"

text \<open>What may follow a number.\<close>

definition ends_number :: "string \<Rightarrow> bool" where
  "ends_number x \<longleftrightarrow> (case x of [] \<Rightarrow> True | c # _ \<Rightarrow> \<not> num_char c)"

definition first_char :: "json \<Rightarrow> char \<Rightarrow> bool" where
  "first_char v c \<longleftrightarrow>
     (case v of JNull \<Rightarrow> c = CHR ''n'' | JBool b \<Rightarrow> c = (if b then CHR ''t'' else CHR ''f'') | JNum _ \<Rightarrow> num_char c
      | JStr _ \<Rightarrow> c = CHR 0x22 | JArr _ \<Rightarrow> c = CHR ''['' | JObj _ \<Rightarrow> c = CHR 0x7B)"

lemma print_first: "json_ok v \<Longrightarrow> \<exists>c r. json_print v = c # r \<and> first_char v c"
  by (cases v) (auto simp: first_char_def json_quote_def neq_Nil_conv)

lemma num_prefix:
  assumes "a @ x = b @ y" and "list_all num_char a" and "list_all num_char b" and "ends_number x" and "ends_number y"
  shows "a = b \<and> x = y"
proof -
  have "takeWhile num_char (a @ x) = a" "takeWhile num_char (b @ y) = b"
    using assms(2-5) by (auto simp: takeWhile_append list_all_iff ends_number_def split: list.splits)
  then show ?thesis using assms(1) by simp
qed

text \<open>The items of an array or object, with what follows: a comma before each further item, then the end.\<close>

fun tail_print :: "('a \<Rightarrow> string) \<Rightarrow> char \<Rightarrow> string \<Rightarrow> 'a list \<Rightarrow> string" where
  "tail_print f c x [] = c # x"
| "tail_print f c x (v # vs) = CHR '','' # f v @ tail_print f c x vs"

lemma join_print: "join_with '','' (map f (v # vs)) @ c # x = f v @ tail_print f c x vs"
  by (induction vs arbitrary: v) simp_all

lemma ends_tail: "c \<in> {CHR '']'', CHR 0x7D} \<Longrightarrow> ends_number (tail_print f c x vs)"
  by (cases vs) (auto simp: ends_number_def num_char_def bt_def)

lemma tail_print_inj:
  assumes "c \<in> {CHR '']'', CHR 0x7D}"
    and "\<And>v w r r'. v \<in> set vs \<Longrightarrow> w \<in> set ws \<Longrightarrow> f v @ r = f w @ r' \<Longrightarrow> ends_number r \<Longrightarrow> ends_number r' \<Longrightarrow> v = w \<and> r = r'"
  shows "tail_print f c x vs = tail_print f c y ws \<Longrightarrow> vs = ws \<and> x = y"
  using assms(2)
proof (induction vs arbitrary: ws)
  case Nil
  then show ?case using assms(1) by (cases ws) auto
next
  case (Cons v vs)
  obtain w ws' where ws: "ws = w # ws'" using Cons.prems(1) assms(1) by (cases ws) auto
  have "f v @ tail_print f c x vs = f w @ tail_print f c y ws'" using Cons.prems(1) ws by simp
  then have "v = w \<and> tail_print f c x vs = tail_print f c y ws'"
    by (intro Cons.prems(2)) (auto simp: ws intro: ends_tail [OF assms(1)])
  then show ?case using Cons.IH [of ws'] Cons.prems(2) unfolding ws by auto
qed

lemma items_inj:
  assumes "c \<in> {CHR '']'', CHR 0x7D}"
    and "join_with '','' (map f vs) @ c # x = join_with '','' (map f ws) @ c # y"
    and "\<And>v. v \<in> set vs \<union> set ws \<Longrightarrow> \<exists>d r. f v = d # r \<and> d \<noteq> c"
    and "\<And>v w r r'. v \<in> set vs \<Longrightarrow> w \<in> set ws \<Longrightarrow> f v @ r = f w @ r' \<Longrightarrow> ends_number r \<Longrightarrow> ends_number r' \<Longrightarrow> v = w \<and> r = r'"
  shows "vs = ws \<and> x = y"
proof (cases vs)
  case Nil
  show ?thesis
  proof (cases ws)
    case (Cons w ws')
    obtain d r where "f w = d # r" "d \<noteq> c" using assms(3) [of w] Cons by auto
    then show ?thesis using assms(2) unfolding \<open>vs = []\<close> Cons join_print by simp
  qed (use assms(2) Nil in simp)
next
  case (Cons v vs')
  show ?thesis
  proof (cases ws)
    case Nil
    obtain d r where "f v = d # r" "d \<noteq> c" using assms(3) [of v] Cons by auto
    then show ?thesis using assms(2) unfolding \<open>vs = v # vs'\<close> Nil join_print by simp
  next
    case (Cons w ws')
    have "f v @ tail_print f c x vs' = f w @ tail_print f c y ws'"
      using assms(2) unfolding \<open>vs = v # vs'\<close> Cons join_print .
    then have h: "v = w \<and> tail_print f c x vs' = tail_print f c y ws'"
      by (intro assms(4)) (auto simp: \<open>vs = v # vs'\<close> Cons intro: ends_tail [OF assms(1)])
    have "vs' = ws' \<and> x = y"
      by (rule tail_print_inj [OF assms(1) _ conjunct2 [OF h]], rule assms(4)) (simp_all add: \<open>vs = v # vs'\<close> Cons)
    then show ?thesis using h \<open>vs = v # vs'\<close> Cons by simp
  qed
qed

lemma json_print_inj:
  "json_print v @ x = json_print w @ y \<Longrightarrow> json_ok v \<Longrightarrow> json_ok w \<Longrightarrow> ends_number x \<Longrightarrow> ends_number y
    \<Longrightarrow> v = w \<and> x = y"
proof (induction v arbitrary: w x y)
  case JNull
  obtain c r where "json_print w = c # r" "first_char w c" using print_first [OF JNull(3)] by blast
  then show ?case using JNull by (cases w) (auto simp: first_char_def num_char_def bt_def split: if_splits)
next
  case (JBool b)
  obtain c r where "json_print w = c # r" "first_char w c" using print_first [OF JBool(3)] by blast
  then show ?case using JBool by (cases w) (auto simp: first_char_def num_char_def bt_def split: if_splits)
next
  case (JNum s)
  obtain c r where c: "json_print w = c # r" "first_char w c" using print_first [OF JNum(3)] by blast
  obtain d s' where s: "s = d # s'" "num_char d" using JNum(2) by (cases s) auto
  then have "first_char w d" using JNum(1) c by simp
  then obtain t where w: "w = JNum t" using s(2) by (cases w) (auto simp: first_char_def num_char_def bt_def split: if_splits)
  show ?case using num_prefix [of s x t y] JNum w by simp
next
  case (JStr s)
  obtain c r where c: "json_print w = c # r" "first_char w c" using print_first [OF JStr(3)] by blast
  then have "first_char w (CHR 0x22)" using JStr(1) by (simp add: json_quote_def)
  then obtain t where w: "w = JStr t" by (cases w) (auto simp: first_char_def num_char_def bt_def split: if_splits)
  show ?case using json_quote_inj [of s x t y] JStr w by simp
next
  case (JArr vs)
  obtain c r where c: "json_print w = c # r" "first_char w c" using print_first [OF JArr(4)] by blast
  then have "first_char w (CHR ''['')" using JArr(2) by simp
  then obtain ws where w: "w = JArr ws" by (cases w) (auto simp: first_char_def num_char_def bt_def split: if_splits)
  have e: "join_with '','' (map json_print vs) @ CHR '']'' # x = join_with '','' (map json_print ws) @ CHR '']'' # y"
    using JArr(2) w by simp
  have f: "\<exists>d r. json_print v = d # r \<and> d \<noteq> CHR '']''" if "v \<in> set vs \<union> set ws" for v
  proof -
    have "json_ok v" using that JArr(3,4) w by (auto simp: list_all_iff)
    from print_first [OF this] show ?thesis
      by (cases v) (auto simp: first_char_def num_char_def bt_def split: if_splits)
  qed
  have "vs = ws \<and> x = y"
    by (rule items_inj [OF _ e f]) (use JArr w in \<open>auto simp: list_all_iff\<close>)
  then show ?case using w by simp
next
  case (JObj kvs)
  obtain c r where c: "json_print w = c # r" "first_char w c" using print_first [OF JObj(4)] by blast
  then have "first_char w (CHR 0x7B)" using JObj(2) by simp
  then obtain ws where w: "w = JObj ws" by (cases w) (auto simp: first_char_def num_char_def bt_def split: if_splits)
  let ?f = "\<lambda>(k, v). json_quote k @ '':'' @ json_print v"
  have e: "join_with '','' (map ?f kvs) @ CHR 0x7D # x = join_with '','' (map ?f ws) @ CHR 0x7D # y"
    using JObj(2) w by simp
  have f: "\<exists>d r. ?f p = d # r \<and> d \<noteq> CHR 0x7D" for p :: "string \<times> json"
    by (cases p) (simp add: json_quote_def)
  have i: "p = q \<and> r = r'" if pq: "p \<in> set kvs" "q \<in> set ws" and eq: "?f p @ r = ?f q @ r'" and r: "ends_number r" "ends_number r'"
    for p q r r'
  proof -
    obtain k v where p: "p = (k, v)" by (rule prod.exhaust)
    obtain l u where q: "q = (l, u)" by (rule prod.exhaust)
    have ok: "valid_utf8 k" "json_ok v" "valid_utf8 l" "json_ok u"
      using pq JObj(3,4) w p q by (auto simp: list_all_iff)
    have "json_quote k @ (CHR '':'' # json_print v @ r) = json_quote l @ (CHR '':'' # json_print u @ r')" using eq p q by simp
    from json_quote_inj [OF this ok(1,3)] have "k = l" "json_print v @ r = json_print u @ r'" by simp_all
    moreover from this have "v = u \<and> r = r'"
      by (intro JObj(1) [of p v]) (use p pq(1) ok r in auto)
    ultimately show ?thesis using p q by simp
  qed
  have "kvs = ws \<and> x = y" by (rule items_inj [OF _ e f i]) simp_all
  then show ?case using w by simp
qed

theorem json_print_determines: "json_ok v \<Longrightarrow> json_ok w \<Longrightarrow> json_print v = json_print w \<Longrightarrow> v = w"
  using json_print_inj [of v "[]" w "[]"] by (simp add: ends_number_def)

section \<open>Maps\<close>

text \<open>\<^verbatim>\<open>json.Marshal\<close> writes the members of a map in the order of their names.\<close>

fun go_map :: "json \<Rightarrow> json" where
  "go_map (JArr vs) = JArr (map go_map vs)"
| "go_map (JObj kvs) = JObj (sort_key fst (map (\<lambda>(k, v). (k, go_map v)) kvs))"
| "go_map v = v"

lemma go_map_object: "go_map v = JObj [] \<longleftrightarrow> v = JObj []"
proof (cases v)
  case (JObj kvs)
  have "length (sort_key fst (map (\<lambda>(k, v). (k, go_map v)) kvs)) = length kvs" by simp
  then show ?thesis using JObj by (auto simp del: length_sort)
qed simp_all

end
