(* ===== verification/Runs.thy ===== *)
theory Runs
  imports Messages JsonPrint
begin

text \<open>
  Harness runs of the repository (\<^verbatim>\<open>server/internal/repo/harness_run.go\<close>): idempotent
  creation together with the output message, the listings that feed the scheduler, and the
  writes of a leased execution. Every leased write runs in \<open>harness_transaction\<close>, which
  checks the lease and refuses a finished run.
\<close>

section \<open>Creation\<close>

definition harness_resource :: "string \<Rightarrow> string" where
  "harness_resource i = ''harness-run/'' @ i"

definition ref_json :: "actor_ref \<Rightarrow> json" where
  "ref_json r = JObj [(''kind'', JStr (ar_kind r)), (''key'', JStr (ar_key r))]"

definition tool_json :: "tool \<Rightarrow> json" where
  "tool_json t =
     JObj ([(''name'', JStr (tl_name t))]
       @ (if tl_description t = [] then [] else [(''description'', JStr (tl_description t))])
       @ (case c_val (tl_schema t) of Some v \<Rightarrow> [(''input_schema'', v)] | None \<Rightarrow> []))"

definition int_str :: "int \<Rightarrow> string" where
  "int_str n = (if n < 0 then CHR ''-'' # nat_str (nat (- n)) else nat_str (nat n))"

text \<open>
  \<^verbatim>\<open>json.Marshal(request)\<close>, in the order of the struct's fields. The metadata is a map: an empty one is omitted and
  its members are in the order of their names.
\<close>

definition meta_value :: "json option \<Rightarrow> json" where
  "meta_value m = (case m of None \<Rightarrow> JObj [] | Some v \<Rightarrow> go_map v)"

definition run_request_json :: "harness_run_request \<Rightarrow> json" where
  "run_request_json r =
     JObj ([(''conversation_id'', JStr (rr_conv r)), (''idempotency_key'', JStr (rr_idempotency r)),
            (''effect_key'', JStr (rr_effect r)), (''target'', JStr (rr_target r)), (''text'', JStr (rr_text r))]
       @ (if rr_tools r = [] then [] else [(''tools'', JArr (map tool_json (rr_tools r)))])
       @ (case rr_actor r of None \<Rightarrow> [] | Some a \<Rightarrow> [(''actor'', ref_json a)])
       @ [(''recipient'', ref_json (rr_recipient r)), (''timeout'', JNum (int_str (rr_timeout r)))]
       @ (if meta_value (rr_meta r) = JObj [] then [] else [(''meta'', meta_value (rr_meta r))]))"

definition run_fingerprint :: "env \<Rightarrow> harness_run_request \<Rightarrow> string" where
  "run_fingerprint e r = e_sha e (json_print (run_request_json r))"

definition submission_key :: "env \<Rightarrow> harness_run_request \<Rightarrow> actor_ref \<Rightarrow> string" where
  "submission_key e r a = e_sha e (zero_sep [rr_conv r, ar_kind a, ar_key a, rr_idempotency r])"

definition new_run :: "env \<Rightarrow> int \<Rightarrow> harness_run_request \<Rightarrow> actor_ref \<Rightarrow> string \<Rightarrow> string \<Rightarrow> harness_run" where
  "new_run e now r a run_id msg_id =
     \<lparr>hn_id = run_id, hn_conv = rr_conv r, hn_message = msg_id, hn_effect = rr_effect r,
      hn_request = r, hn_request_hash = run_fingerprint e r, hn_submission_key = submission_key e r a,
      hn_target = rr_target r, hn_phase = CallPending, hn_exec_ref = [], hn_replay_hash = [],
      hn_checkpoint = 0, hn_error = [], hn_deadline = now + rr_timeout r, hn_next_attempt = now,
      hn_cancel = False, hn_created = 0, hn_updated = 0\<rparr>"

definition run_content :: "harness_run_request \<Rightarrow> content" where
  "run_content r =
     marshal (JObj [(''biz'', JStr ''chat''), (''blocks'', JArr []),
                    (''meta'', case rr_meta r of None \<Rightarrow> JNull | Some v \<Rightarrow> v), (''version'', JStr ''1.1'')])"

definition run_message :: "harness_run_request \<Rightarrow> actor_ref \<Rightarrow> string \<Rightarrow> message" where
  "run_message r a i =
     new_message\<lparr>m_id := i, m_conv := rr_conv r, m_source := a, m_target := rr_recipient r,
       m_dispatch := (ar_kind (rr_recipient r) \<noteq> ActorKindUser), m_revision := 1,
       m_status := MessageStatusStreaming, m_content := run_content r\<rparr>"

text \<open>
  \<open>admit\<close> is the scheduler's reservation of a capacity slot; the service dereferences the
  actor of the request before it calls here.
\<close>

definition create_harness_run ::
    "env \<Rightarrow> config \<Rightarrow> int \<Rightarrow> harness_run_request \<Rightarrow> (string \<Rightarrow> unit result) \<Rightarrow> store
     \<Rightarrow> (harness_run \<times> store) result" where
  "create_harness_run e cf now r admit s =
     (case rr_actor r of
        None \<Rightarrow> Inl GoPanic
      | Some a \<Rightarrow> mapped (
          bindR (option_or GormNotFound (get_conv (rr_conv r) s)) (\<lambda>conv.
            case find (\<lambda>x. hn_submission_key x = submission_key e r a) (st_runs s) of
              Some run \<Rightarrow>
                if hn_request_hash run \<noteq> run_fingerprint e r then Inl ErrConflict else Inr (run, s)
            | None \<Rightarrow>
                bindR (ensure_participant_conversation e now conv (rr_recipient r) s) (\<lambda>s1.
                let s2 = draw (draw s1);
                    run = new_run e now r a (fresh_id e s1) (fresh_id e (draw s1))
                in bindR (admit (hn_id run)) (\<lambda>_.
                   bindR (save_message e cf now (run_message r a (hn_message run)) True s2) (\<lambda>(m, s3).
                   bindR (insert_run now run s3) (\<lambda>s4.
                     Inr (run\<lparr>hn_created := now, hn_updated := now\<rparr>, s4))))))))"

section \<open>Queries\<close>

definition get_harness_run :: "string \<Rightarrow> store \<Rightarrow> harness_run result" where
  "get_harness_run i s = mapped (option_or GormNotFound (get_run i s))"

text \<open>\<^verbatim>\<open>GetHarnessRunState\<close> leaves the request out.\<close>

definition no_request :: "harness_run \<Rightarrow> harness_run" where
  "no_request r = r\<lparr>hn_request := \<lparr>rr_conv = [], rr_idempotency = [], rr_effect = [], rr_target = [],
     rr_text = [], rr_tools = [], rr_actor = None, rr_recipient = no_actor, rr_timeout = 0, rr_meta = None\<rparr>\<rparr>"

definition get_harness_run_state :: "string \<Rightarrow> store \<Rightarrow> harness_run result" where
  "get_harness_run_state i s =
     mapped (option_or GormNotFound (map_option no_request (get_run i s)))"

definition run_available :: "int \<Rightarrow> store \<Rightarrow> harness_run \<Rightarrow> bool" where
  "run_available now s r \<longleftrightarrow>
     hn_phase r \<in> {CallPending, CallStarting, CallRunning}
     \<and> (case get_lock (harness_resource (hn_id r)) s of None \<Rightarrow> True | Some l \<Rightarrow> rl_expires l \<le> now)"

definition list_available_runs :: "int \<Rightarrow> nat \<Rightarrow> bool \<Rightarrow> store \<Rightarrow> string list" where
  "list_available_runs now limit due s =
     (let rows = sort_key hn_id (filter (run_available now s) (st_runs s))
      in map hn_id (take limit
           (if due
            then sort_key hn_deadline (filter (\<lambda>r. hn_cancel r \<or> hn_deadline r \<le> now) rows)
            else sort_key hn_next_attempt (filter (\<lambda>r. hn_next_attempt r \<le> now) rows))))"

definition list_runnable_runs :: "int \<Rightarrow> nat \<Rightarrow> store \<Rightarrow> string list" where
  "list_runnable_runs now limit s = list_available_runs now limit False s"

definition list_due_runs :: "int \<Rightarrow> nat \<Rightarrow> store \<Rightarrow> string list" where
  "list_due_runs now limit s = list_available_runs now limit True s"

section \<open>Leased writes\<close>

definition harness_transaction ::
    "config \<Rightarrow> int \<Rightarrow> token \<Rightarrow> string \<Rightarrow> (harness_run \<Rightarrow> store \<Rightarrow> 'a result) \<Rightarrow> store \<Rightarrow> 'a result" where
  "harness_transaction cf now t i body s =
     (if tk_resource t \<noteq> harness_resource i then Inl ErrLost
      else mapped (
        bindR (fence cf now t s) (\<lambda>s1.
        bindR (option_or GormNotFound (get_run i s1)) (\<lambda>run.
          if phase_terminal (hn_phase run) then Inl ErrConflict else body run s1))))"

text \<open>\<^verbatim>\<open>Updates\<close> of a run also stamp the row.\<close>

definition touch_run :: "int \<Rightarrow> harness_run \<Rightarrow> store \<Rightarrow> store" where
  "touch_run now r s = put_run (r\<lparr>hn_updated := now\<rparr>) s"

definition start_harness_run ::
    "config \<Rightarrow> int \<Rightarrow> token \<Rightarrow> string \<Rightarrow> store \<Rightarrow> (harness_run \<times> store) result" where
  "start_harness_run cf now t i s =
     harness_transaction cf now t i (\<lambda>run s1.
       Inr (run, touch_run now (run\<lparr>hn_phase := CallStarting, hn_next_attempt := now\<rparr>) s1)) s"

definition bind_harness_execution ::
    "config \<Rightarrow> int \<Rightarrow> token \<Rightarrow> string \<Rightarrow> string \<Rightarrow> store \<Rightarrow> store result" where
  "bind_harness_execution cf now t i ref s =
     harness_transaction cf now t i (\<lambda>run s1.
       if hn_exec_ref run \<noteq> [] \<and> hn_exec_ref run \<noteq> ref then Inl ErrConflict
       else Inr (touch_run now (run\<lparr>hn_exec_ref := ref, hn_phase := CallRunning, hn_error := []\<rparr>) s1)) s"

definition output_event_ok :: "event \<Rightarrow> bool" where
  "output_event_ok ev \<longleftrightarrow>
     (ev_op ev = OpSet \<or> ev_op ev = OpAppend)
     \<and> ev_get ''type'' ev \<noteq> Some (JStr ResultBlockType) \<and> ev_get ''id'' ev \<noteq> Some (JStr ''result'')
     \<and> ev_get ''type'' ev \<notin> {Some (JStr ''ask''), Some (JStr ''confirm''), Some (JStr ''human_reply'')}
     \<and> ev_meta ev = None"

definition append_harness_output ::
    "env \<Rightarrow> config \<Rightarrow> int \<Rightarrow> token \<Rightarrow> string \<Rightarrow> nat \<Rightarrow> string \<Rightarrow> event \<Rightarrow> store \<Rightarrow> store result" where
  "append_harness_output e cf now t i index hash ev s =
     harness_transaction cf now t i (\<lambda>run s1.
       if hn_cancel run then Inl CtxCanceled
       else if index \<le> hn_checkpoint run then
         (if index = hn_checkpoint run \<and> hash \<noteq> hn_replay_hash run then Inl ErrConflict else Inr s1)
       else if index \<noteq> hn_checkpoint run + 1 then Inl ErrConflict
       else if \<not> output_event_ok ev then Inl ErrInvalidContent
       else bindR (option_or GormNotFound (get_msg (hn_message run) s1)) (\<lambda>m.
            bindR (project_event e cf now (m_id m) (ev\<lparr>ev_seq := m_revision m + 1\<rparr>) [] True s1) (\<lambda>s2.
              Inr (touch_run now (run\<lparr>hn_checkpoint := index, hn_replay_hash := hash\<rparr>) s2)))) s"

definition finish_outcome ::
    "int \<Rightarrow> harness_run \<Rightarrow> call_phase \<Rightarrow> harness_result option \<Rightarrow> string
     \<Rightarrow> call_phase \<times> harness_result option \<times> string" where
  "finish_outcome now run phase res detail =
     (if hn_cancel run then (CallCancelled, None, ''cancelled'')
      else if hn_deadline run \<le> now then (CallTimedOut, None, ''Harness run deadline exceeded'')
      else (phase, res, detail))"

definition set_event :: "nat \<Rightarrow> json option \<Rightarrow> string \<Rightarrow> json option \<Rightarrow> event" where
  "set_event q block msk meta =
     no_event\<lparr>ev_op := OpSet, ev_seq := q, ev_block := block, ev_mask := msk, ev_meta := meta\<rparr>"

definition error_meta :: "call_phase \<Rightarrow> string \<Rightarrow> json" where
  "error_meta phase detail =
     JObj [(''error'', JObj [(''code'', JStr (phase_str phase)), (''message'', JStr detail)])]"

definition finish_status :: "call_phase \<Rightarrow> string" where
  "finish_status phase =
     (if phase = CallSucceeded then MessageStatusCompleted
      else if phase = CallCancelled then MessageStatusCancelled else MessageStatusFailed)"

text \<open>The last event before the end: the result block, or the error.\<close>

definition finish_event ::
    "env \<Rightarrow> nat \<Rightarrow> call_phase \<Rightarrow> harness_result option \<Rightarrow> string \<Rightarrow> event result" where
  "finish_event e q phase res detail =
     (if phase = CallSucceeded then
        (case res of
           None \<Rightarrow> Inl ErrInvalidContent
         | Some r \<Rightarrow> bindR (result_block (e_float e) r) (\<lambda>b. Inr (set_event q (Some b) [] None)))
      else Inr (set_event q None ''meta.error'' (Some (error_meta phase detail))))"

definition finish_harness_run ::
    "env \<Rightarrow> config \<Rightarrow> int \<Rightarrow> token \<Rightarrow> string \<Rightarrow> call_phase \<Rightarrow> harness_result option \<Rightarrow> string \<Rightarrow> store
     \<Rightarrow> (event list \<times> store) result" where
  "finish_harness_run e cf now t i phase res detail s =
     (if \<not> phase_terminal phase then Inl ErrConflict
      else harness_transaction cf now t i (\<lambda>run s1.
        let (phase, res, detail) = finish_outcome now run phase res detail in
        bindR (option_or GormNotFound (get_msg (hn_message run) s1)) (\<lambda>m.
        bindR (finish_event e (m_revision m + 1) phase res detail) (\<lambda>ev.
        bindR (project_event e cf now (m_id m) ev [] True s1) (\<lambda>s2.
        let last = e_end e (m_revision m + 2) in
        bindR (project_event e cf now (m_id m) last (finish_status phase) True s2) (\<lambda>s3.
          Inr ([ev, last], touch_run now (run\<lparr>hn_phase := phase, hn_error := detail\<rparr>) s3)))))) s)"

definition retry_harness_run ::
    "config \<Rightarrow> int \<Rightarrow> token \<Rightarrow> string \<Rightarrow> string \<Rightarrow> store \<Rightarrow> store result" where
  "retry_harness_run cf now t i detail s =
     harness_transaction cf now t i (\<lambda>run s1.
       Inr (touch_run now (run\<lparr>hn_error := detail, hn_next_attempt := now + 1000000000\<rparr>) s1)) s"

definition cancel_harness_run :: "int \<Rightarrow> string \<Rightarrow> store \<Rightarrow> store result" where
  "cancel_harness_run now i s = mapped (
     bindR (option_or GormNotFound (get_run i s)) (\<lambda>run.
       if phase_terminal (hn_phase run) then Inr s
       else Inr (touch_run now (run\<lparr>hn_cancel := True, hn_next_attempt := now\<rparr>) s)))"

end
