(* ===== verification/Humans.thy ===== *)
theory Humans
  imports Runs
begin

text \<open>
  Human questions and the registries of the repository (\<^verbatim>\<open>human.go\<close>, \<^verbatim>\<open>human_context.go\<close>,
  \<^verbatim>\<open>operator.go\<close>, \<^verbatim>\<open>harness.go\<close> under \<^verbatim>\<open>server/internal/repo\<close>). A question is a message
  whose content holds one \<^verbatim>\<open>ask\<close> or \<^verbatim>\<open>confirm\<close> block; its state machine is the one of
  \<open>HumanDomain\<close>, read from and written back to that block in one transaction.
\<close>

section \<open>The content of a question\<close>

record human_content =
  hx_version :: string
  hx_biz :: string
  hx_effect :: string
  hx_timeout :: int
  hx_fingerprint :: string
  hx_reply_id :: string
  hx_blocks :: "human_block list"

definition nonempty_field :: "string \<Rightarrow> string \<Rightarrow> (string \<times> json) list" where
  "nonempty_field k v = (if v = [] then [] else [(k, JStr v)])"

definition choice_json :: "human_choice \<Rightarrow> json" where
  "choice_json c =
     JObj ([(''value'', JStr (ch_value c)), (''label'', JStr (ch_label c))]
       @ nonempty_field ''description'' (ch_description c))"

definition human_block_json :: "env \<Rightarrow> human_block \<Rightarrow> json" where
  "human_block_json e b =
     JObj ([(''id'', JStr (hb_id b)), (''type'', JStr (hb_type b)), (''title'', JStr (hb_title b)),
            (''prompt'', JStr (hb_prompt b))]
       @ (case hb_choices b of None \<Rightarrow> [] | Some cs \<Rightarrow>
            if cs = [] then [] else [(''choices'', JArr (map choice_json cs))])
       @ (if hb_allow_other b then [(''allow_other'', JBool True)] else [])
       @ nonempty_field ''confirm_label'' (hb_confirm b)
       @ nonempty_field ''decline_label'' (hb_decline b)
       @ [(''status'', JStr (hb_status b)), (''deadline'', JStr (e_time e (hb_deadline b)))]
       @ nonempty_field ''reason'' (hb_reason b)
       @ (case hb_selected b of None \<Rightarrow> [] | Some v \<Rightarrow> [(''selected_value'', JStr v)]))"

definition human_json :: "env \<Rightarrow> human_content \<Rightarrow> json" where
  "human_json e c =
     JObj [(''version'', JStr (hx_version c)), (''biz'', JStr (hx_biz c)),
           (''meta'', JObj [(''human'',
              JObj ([(''effect_key'', JStr (hx_effect c)), (''timeout'', JNum (int_str (hx_timeout c))),
                     (''fingerprint'', JStr (hx_fingerprint c))]
                @ nonempty_field ''reply_id'' (hx_reply_id c)))]),
           (''blocks'', JArr (map (human_block_json e) (hx_blocks c)))]"

text \<open>\<^verbatim>\<open>json.Unmarshal\<close> into the structs: absent and null members keep the zero value.\<close>

definition zero_time :: int where
  "zero_time = - 62135596800000000000"

definition jfield_bool :: "string \<Rightarrow> json \<Rightarrow> bool result" where
  "jfield_bool k v =
     (case jget k v of None \<Rightarrow> Inr False | Some JNull \<Rightarrow> Inr False | Some (JBool b) \<Rightarrow> Inr b
      | Some _ \<Rightarrow> Inl (ErrText ''json''))"

definition jfield_int :: "string \<Rightarrow> json \<Rightarrow> int result" where
  "jfield_int k v =
     (case jget k v of None \<Rightarrow> Inr 0 | Some JNull \<Rightarrow> Inr 0
      | Some (JNum s) \<Rightarrow> option_or (ErrText ''json'') (atoi s)
      | Some _ \<Rightarrow> Inl (ErrText ''json''))"

definition jfield_time :: "env \<Rightarrow> string \<Rightarrow> json \<Rightarrow> int result" where
  "jfield_time e k v =
     (case jget k v of None \<Rightarrow> Inr zero_time | Some JNull \<Rightarrow> Inr zero_time
      | Some (JStr s) \<Rightarrow> option_or (ErrText ''json'') (e_untime e s)
      | Some _ \<Rightarrow> Inl (ErrText ''json''))"

definition jfield_obj :: "string \<Rightarrow> json \<Rightarrow> json result" where
  "jfield_obj k v =
     (case jget k v of None \<Rightarrow> Inr (JObj []) | Some JNull \<Rightarrow> Inr (JObj []) | Some (JObj kvs) \<Rightarrow> Inr (JObj kvs)
      | Some _ \<Rightarrow> Inl (ErrText ''json''))"

definition jfield_list :: "string \<Rightarrow> json \<Rightarrow> json list option result" where
  "jfield_list k v =
     (case jget k v of None \<Rightarrow> Inr None | Some JNull \<Rightarrow> Inr None | Some (JArr xs) \<Rightarrow> Inr (Some xs)
      | Some _ \<Rightarrow> Inl (ErrText ''json''))"

definition need_struct :: "json \<Rightarrow> json result" where
  "need_struct v = (if v = JNull then Inr (JObj []) else if is_obj v then Inr v else Inl (ErrText ''json''))"

definition decode_choice :: "json \<Rightarrow> human_choice result" where
  "decode_choice v0 =
     bindR (need_struct v0) (\<lambda>v.
     bindR (jfield_str ''value'' v) (\<lambda>a. bindR (jfield_str ''label'' v) (\<lambda>b.
     bindR (jfield_str ''description'' v) (\<lambda>d.
       Inr \<lparr>ch_value = a, ch_label = b, ch_description = d\<rparr>))))"

definition decode_choices :: "json \<Rightarrow> human_choice list option result" where
  "decode_choices v =
     bindR (jfield_list ''choices'' v) (\<lambda>xs.
       case xs of None \<Rightarrow> Inr None | Some ys \<Rightarrow> bindR (mapR decode_choice ys) (\<lambda>cs. Inr (Some cs)))"

definition decode_selected :: "json \<Rightarrow> string option result" where
  "decode_selected v =
     (case jget ''selected_value'' v of None \<Rightarrow> Inr None | Some JNull \<Rightarrow> Inr None
      | Some (JStr s) \<Rightarrow> Inr (Some s) | Some _ \<Rightarrow> Inl (ErrText ''json''))"

definition decode_human_block :: "env \<Rightarrow> json \<Rightarrow> human_block result" where
  "decode_human_block e v0 =
     bindR (need_struct v0) (\<lambda>v.
     bindR (jfield_str ''id'' v) (\<lambda>i. bindR (jfield_str ''type'' v) (\<lambda>t.
     bindR (jfield_str ''title'' v) (\<lambda>ti. bindR (jfield_str ''prompt'' v) (\<lambda>p.
     bindR (decode_choices v) (\<lambda>cs. bindR (jfield_bool ''allow_other'' v) (\<lambda>ao.
     bindR (jfield_str ''confirm_label'' v) (\<lambda>cl. bindR (jfield_str ''decline_label'' v) (\<lambda>dl.
     bindR (jfield_str ''status'' v) (\<lambda>st. bindR (jfield_time e ''deadline'' v) (\<lambda>d.
     bindR (jfield_str ''reason'' v) (\<lambda>r. bindR (decode_selected v) (\<lambda>sel.
       Inr \<lparr>hb_id = i, hb_type = t, hb_title = ti, hb_prompt = p, hb_choices = cs, hb_allow_other = ao,
            hb_confirm = cl, hb_decline = dl, hb_status = st, hb_deadline = d, hb_reason = r,
            hb_selected = sel\<rparr>)))))))))))))"

definition decode_human_struct :: "env \<Rightarrow> content \<Rightarrow> human_content result" where
  "decode_human_struct e content =
     bindR (option_or (ErrText ''json'') (c_val content)) (\<lambda>v0.
     bindR (need_struct v0) (\<lambda>v.
     bindR (jfield_str ''version'' v) (\<lambda>ver. bindR (jfield_str ''biz'' v) (\<lambda>biz.
     bindR (jfield_obj ''meta'' v) (\<lambda>meta. bindR (jfield_obj ''human'' meta) (\<lambda>h.
     bindR (jfield_str ''effect_key'' h) (\<lambda>ek. bindR (jfield_int ''timeout'' h) (\<lambda>t.
     bindR (jfield_str ''fingerprint'' h) (\<lambda>fp. bindR (jfield_str ''reply_id'' h) (\<lambda>ri.
     bindR (jfield_list ''blocks'' v) (\<lambda>bs.
     bindR (mapR (decode_human_block e) (case bs of None \<Rightarrow> [] | Some xs \<Rightarrow> xs)) (\<lambda>blocks.
       Inr \<lparr>hx_version = ver, hx_biz = biz, hx_effect = ek, hx_timeout = t, hx_fingerprint = fp,
            hx_reply_id = ri, hx_blocks = blocks\<rparr>))))))))))))"

definition decode_human :: "env \<Rightarrow> message \<Rightarrow> human_content result" where
  "decode_human e m =
     bindR (decode_human_struct e (m_content m)) (\<lambda>c.
       case hx_blocks c of
         [b] \<Rightarrow> if hb_type b = ''ask'' \<or> hb_type b = ''confirm'' then Inr c else Inl ErrNotFound
       | _ \<Rightarrow> Inl ErrNotFound)"

definition human_block_of :: "human_content \<Rightarrow> human_block" where
  "human_block_of c = hd (hx_blocks c)"

definition set_human_block :: "human_block \<Rightarrow> human_content \<Rightarrow> human_content" where
  "set_human_block b c = c\<lparr>hx_blocks := b # tl (hx_blocks c)\<rparr>"

text \<open>\<^verbatim>\<open>humanRequest\<close> and \<^verbatim>\<open>humanQuestion\<close>.\<close>

definition human_request_of :: "human_content \<Rightarrow> human_request" where
  "human_request_of c =
     (let b = human_block_of c in
      \<lparr>hq_conv = [], hq_actor = no_actor, hq_target = no_actor, hq_reply_to = [],
       hq_effect = hx_effect c, hq_type = hb_type b, hq_title = hb_title b, hq_prompt = hb_prompt b,
       hq_timeout = hx_timeout c, hq_choices = hb_choices b, hq_allow_other = hb_allow_other b,
       hq_confirm = hb_confirm b, hq_decline = hb_decline b\<rparr>)"

definition human_question_of :: "human_content \<Rightarrow> human_question" where
  "human_question_of c =
     (let b = human_block_of c in
      \<lparr>qn_request = human_request_of c, qn_status = hb_status b, qn_deadline = hb_deadline b,
       qn_reason = hb_reason b\<rparr>)"

section \<open>Results\<close>

definition public_message :: "message \<Rightarrow> cmessage" where
  "public_message m =
     \<lparr>cm_id = m_id m, cm_conv = m_conv m, cm_task = [], cm_source = m_source m, cm_target = m_target m,
      cm_reply_to = m_reply_to m, cm_status = m_status m, cm_revision = m_revision m,
      cm_content = m_content m, cm_created = m_created m, cm_updated = m_updated m\<rparr>"

definition decode_reply_value :: "env \<Rightarrow> json \<Rightarrow> string result" where
  "decode_reply_value e v0 =
     bindR (need_struct v0) (\<lambda>v.
     bindR (jfield_str ''id'' v) (\<lambda>_. bindR (jfield_str ''type'' v) (\<lambda>_.
     bindR (jfield_str ''outcome'' v) (\<lambda>_. bindR (jfield_str ''value'' v) (\<lambda>value.
     bindR (jfield_obj ''question'' v) (\<lambda>q. bindR (decode_human_block e q) (\<lambda>_.
       Inr value)))))))"

definition human_result_for :: "env \<Rightarrow> store \<Rightarrow> message \<Rightarrow> human_content \<Rightarrow> human_result result" where
  "human_result_for e s m c =
     (let b = human_block_of c;
          result = \<lparr>hs_message = public_message m, hs_reply = None, hs_status = hb_status b,
                    hs_value = [], hs_reason = hb_reason b, hs_deadline = hb_deadline b\<rparr>
      in if hb_status b = HumanSuccess \<or> hb_status b = HumanDismissed then
           bindR (option_or GormNotFound
             (find (\<lambda>x. m_id x = hx_reply_id c \<and> m_reply_to x = m_id m) (st_msgs s))) (\<lambda>row.
           bindR (hydrate_message e s row) (\<lambda>reply.
           bindR (struct_blocks (c_val (m_content reply))) (\<lambda>bs.
           bindR (mapR (decode_reply_value e) bs) (\<lambda>values.
             case values of
               [v] \<Rightarrow> Inr (result\<lparr>hs_value := v, hs_reply := Some (public_message reply)\<rparr>)
             | _ \<Rightarrow> Inl (ErrText ''corrupt reply'')))))
         else Inr result)"

section \<open>Writes\<close>

definition save_human ::
    "env \<Rightarrow> config \<Rightarrow> int \<Rightarrow> message \<Rightarrow> human_content \<Rightarrow> bool \<Rightarrow> store \<Rightarrow> (message \<times> store) result" where
  "save_human e cf now m c wake s =
     save_message e cf now
       (m\<lparr>m_content := marshal (human_json e c), m_revision := m_revision m + 1,
          m_human_due := None, m_wake := wake\<rparr>) False s"

definition expire_human ::
    "env \<Rightarrow> config \<Rightarrow> int \<Rightarrow> message \<Rightarrow> human_content \<Rightarrow> bool \<Rightarrow> store
     \<Rightarrow> (message \<times> human_content \<times> store) result" where
  "expire_human e cf now m c active s =
     (let (q, expired) = expire now (human_question_of c)
      in if expired then
           let c1 = set_human_block ((human_block_of c)\<lparr>hb_status := qn_status q, hb_reason := qn_reason q\<rparr>) c
           in bindR (save_human e cf now m c1 active s) (\<lambda>(m1, s1). Inr (m1, c1, s1))
         else Inr (m, c, s))"

definition human_request_json :: "human_request \<Rightarrow> json" where
  "human_request_json r =
     JObj (nonempty_field ''conversation_id'' (hq_conv r)
       @ [(''actor'', ref_json (hq_actor r)), (''target'', ref_json (hq_target r))]
       @ nonempty_field ''reply_to_id'' (hq_reply_to r)
       @ [(''effect_key'', JStr (hq_effect r)), (''type'', JStr (hq_type r)), (''title'', JStr (hq_title r)),
          (''prompt'', JStr (hq_prompt r)), (''timeout'', JNum (int_str (hq_timeout r))),
          (''choices'', case hq_choices r of None \<Rightarrow> JNull | Some cs \<Rightarrow> JArr (map choice_json cs))]
       @ (if hq_allow_other r then [(''allow_other'', JBool True)] else [])
       @ nonempty_field ''confirm_label'' (hq_confirm r)
       @ nonempty_field ''decline_label'' (hq_decline r))"

definition human_fingerprint :: "env \<Rightarrow> human_request \<Rightarrow> string" where
  "human_fingerprint e r = e_sha e (json_print (human_request_json r))"

definition human_key :: "env \<Rightarrow> human_request \<Rightarrow> string" where
  "human_key e r =
     ''human/'' @ e_sha e (zero_sep [hq_conv r, ar_kind (hq_actor r), ar_key (hq_actor r), hq_effect r])"

definition new_human_content :: "env \<Rightarrow> int \<Rightarrow> human_request \<Rightarrow> human_content" where
  "new_human_content e now r =
     (let q = new_human_question r now in
      \<lparr>hx_version = ''1.1'', hx_biz = ''chat'', hx_effect = hq_effect r, hx_timeout = hq_timeout r,
       hx_fingerprint = human_fingerprint e r, hx_reply_id = [],
       hx_blocks = [\<lparr>hb_id = ''human'', hb_type = hq_type r, hb_title = hq_title r, hb_prompt = hq_prompt r,
         hb_choices = hq_choices r, hb_allow_other = hq_allow_other r, hb_confirm = hq_confirm r,
         hb_decline = hq_decline r, hb_status = qn_status q, hb_deadline = qn_deadline q,
         hb_reason = [], hb_selected = None\<rparr>]\<rparr>)"

definition human_message :: "env \<Rightarrow> int \<Rightarrow> human_request \<Rightarrow> string \<Rightarrow> message" where
  "human_message e now r i =
     new_message\<lparr>m_id := i, m_conv := hq_conv r, m_source := hq_actor r, m_target := hq_target r,
       m_reply_to := hq_reply_to r, m_output_key := Some (human_key e r), m_revision := 1,
       m_human_due := Some (now + hq_timeout r),
       m_content := marshal (human_json e (new_human_content e now r))\<rparr>"

text \<open>\<^verbatim>\<open>withHumanContext\<close>: the conversation and the message replied to must exist.\<close>

definition with_human_context :: "human_request \<Rightarrow> (store \<Rightarrow> 'a result) \<Rightarrow> store \<Rightarrow> 'a result" where
  "with_human_context r body s = mapped (
     bindR (option_or GormNotFound (get_conv (hq_conv r) s)) (\<lambda>_.
     bindR (if hq_reply_to r = [] then Inr ()
            else bindR (option_or GormNotFound (find_in_conv (hq_conv r) (hq_reply_to r) s)) (\<lambda>_. Inr ()))
       (\<lambda>_. body s)))"

definition create_human ::
    "env \<Rightarrow> config \<Rightarrow> int \<Rightarrow> human_request \<Rightarrow> store \<Rightarrow> (human_result \<times> store) result" where
  "create_human e cf now r s =
     (case human_validate r of
        Inl _ \<Rightarrow> Inl ErrInvalidHuman
      | Inr _ \<Rightarrow> with_human_context r (\<lambda>s.
          case find (\<lambda>x. m_output_key x = Some (human_key e r)) (st_msgs s) of
            Some row \<Rightarrow>
              bindR (hydrate_message e s row) (\<lambda>m.
              bindR (decode_human e m) (\<lambda>c.
                if hx_fingerprint c \<noteq> human_fingerprint e r then Inl ErrConflict
                else bindR (expire_human e cf now m c True s) (\<lambda>(m1, c1, s1).
                     bindR (human_result_for e s1 m1 c1) (\<lambda>res. Inr (res, s1)))))
          | None \<Rightarrow>
              bindR (save_message e cf now (human_message e now r (fresh_id e s)) True (draw s)) (\<lambda>(m, s1).
              bindR (human_result_for e s1 m (new_human_content e now r)) (\<lambda>res. Inr (res, s1)))) s)"

text \<open>\<^verbatim>\<open>withHumanMessage\<close>.\<close>

definition with_human_message ::
    "env \<Rightarrow> string \<Rightarrow> (message \<Rightarrow> store \<Rightarrow> 'a result) \<Rightarrow> store \<Rightarrow> 'a result" where
  "with_human_message e i body s = mapped (
     bindR (option_or GormNotFound (get_msg i s)) (\<lambda>row.
     bindR (option_or GormNotFound (get_conv (m_conv row) s)) (\<lambda>_.
     bindR (hydrate_message e s row) (\<lambda>m. body m s))))"

definition get_human ::
    "env \<Rightarrow> config \<Rightarrow> int \<Rightarrow> string \<Rightarrow> store \<Rightarrow> (human_result \<times> store) result" where
  "get_human e cf now i s =
     with_human_message e i (\<lambda>m s.
       bindR (decode_human e m) (\<lambda>c.
       bindR (expire_human e cf now m c True s) (\<lambda>(m1, c1, s1).
       bindR (human_result_for e s1 m1 c1) (\<lambda>res. Inr (res, s1))))) s"

definition reply_json :: "env \<Rightarrow> human_reply \<Rightarrow> human_block \<Rightarrow> json" where
  "reply_json e r b =
     JObj [(''version'', JStr ''1.1''), (''biz'', JStr ''chat''), (''meta'', JObj []),
           (''blocks'', JArr [JObj ([(''id'', JStr ''human''), (''type'', JStr ''human_reply''),
               (''outcome'', JStr (hy_outcome r))]
             @ nonempty_field ''value'' (hy_value r) @ [(''question'', human_block_json e b)])])]"

definition reply_message :: "env \<Rightarrow> string \<Rightarrow> string \<Rightarrow> human_reply \<Rightarrow> human_block \<Rightarrow> message \<Rightarrow> string \<Rightarrow> message" where
  "reply_message e conv actor r b m i =
     new_message\<lparr>m_id := i, m_conv := conv, m_source := \<lparr>ar_kind = ActorKindUser, ar_key = actor\<rparr>,
       m_target := m_source m, m_dispatch := True, m_reply_to := m_id m, m_revision := 1,
       m_content := marshal (reply_json e r b)\<rparr>"

text \<open>The accepted reply: a reply message and the resolved question, in this order.\<close>

definition accept_reply ::
    "env \<Rightarrow> config \<Rightarrow> int \<Rightarrow> string \<Rightarrow> string \<Rightarrow> human_reply \<Rightarrow> human_question \<Rightarrow> message \<Rightarrow> human_content
     \<Rightarrow> store \<Rightarrow> (human_result \<times> store) result" where
  "accept_reply e cf now conv actor r q m c s =
     (let b0 = (human_block_of c)\<lparr>hb_status := qn_status q, hb_reason := qn_reason q\<rparr>;
          b = (if qn_status q = HumanSuccess then b0\<lparr>hb_selected := Some (hy_value r)\<rparr> else b0);
          i = fresh_id e s
      in bindR (option_or GormNotFound (get_conv conv (draw s))) (\<lambda>parent.
         bindR (ensure_participant_conversation e now parent (m_source m) (draw s)) (\<lambda>s1.
         bindR (save_message e cf now (reply_message e conv actor r b m i) True s1) (\<lambda>(_, s2).
         let c1 = (set_human_block b c)\<lparr>hx_reply_id := i\<rparr> in
         bindR (save_human e cf now m c1 True s2) (\<lambda>(m1, s3).
         bindR (human_result_for e s3 m1 c1) (\<lambda>res. Inr (res, s3)))))))"

text \<open>
  \<^verbatim>\<open>ReplyHuman\<close>. A late reply is rejected after the transaction: the timeout it observed is
  committed, so the store is part of the answer.
\<close>

definition reply_transaction ::
    "env \<Rightarrow> config \<Rightarrow> int \<Rightarrow> string \<Rightarrow> string \<Rightarrow> human_reply \<Rightarrow> store
     \<Rightarrow> (human_result \<times> bool \<times> store) result" where
  "reply_transaction e cf now conv actor r s =
     with_human_message e (hy_reply_to r) (\<lambda>m s.
       if m_conv m \<noteq> conv then Inl ErrNotFound
       else if actor = [] \<or> ar_kind (m_target m) \<noteq> ActorKindUser \<or> actor \<noteq> ar_key (m_target m)
       then Inl ErrForbidden
       else bindR (decode_human e m) (\<lambda>c.
         case validate_reply (human_request_of c) r of
           Inl _ \<Rightarrow> Inl ErrInvalidHuman
         | Inr _ \<Rightarrow>
             bindR (expire_human e cf now m c True s) (\<lambda>(m1, c1, s1).
             bindR (human_result_for e s1 m1 c1) (\<lambda>res.
             let previous = map_option (\<lambda>x. \<lparr>an_actor = ar_key (cm_source x), an_outcome = hs_status res,
                                           an_value = hs_value res\<rparr>) (hs_reply res)
             in case resolve r actor previous (human_question_of c1) of
                  Inl ErrHumanConflict \<Rightarrow> Inr (res, True, s1)
                | Inl _ \<Rightarrow> Inl ErrInvalidHuman
                | Inr (q, changed) \<Rightarrow>
                    if \<not> changed then Inr (res, False, s1)
                    else bindR (accept_reply e cf now conv actor r q m1 c1 s1)
                           (\<lambda>(res2, s2). Inr (res2, False, s2)))))) s"

definition reply_human ::
    "env \<Rightarrow> config \<Rightarrow> int \<Rightarrow> string \<Rightarrow> string \<Rightarrow> human_reply \<Rightarrow> store \<Rightarrow> human_result result \<times> store" where
  "reply_human e cf now conv actor r s =
     (case reply_transaction e cf now conv actor r s of
        Inl er \<Rightarrow> (Inl er, s)
      | Inr (res, rejected, s1) \<Rightarrow> (if rejected then Inl ErrConflict else Inr res, s1))"

section \<open>Maintenance\<close>

definition human_maintenance :: "int \<Rightarrow> store \<Rightarrow> message list" where
  "human_maintenance now s =
     sort_key m_id (filter (\<lambda>m. (case m_human_due m of Some d \<Rightarrow> d \<le> now | None \<Rightarrow> False) \<or> m_wake m) (st_msgs s))"

definition acknowledge_human_wake :: "int \<Rightarrow> string \<Rightarrow> nat \<Rightarrow> store \<Rightarrow> store" where
  "acknowledge_human_wake now i revision s =
     (case get_msg i s of
        Some m \<Rightarrow> if m_revision m = revision then put_msg (m\<lparr>m_wake := False, m_updated := now\<rparr>) s else s
      | None \<Rightarrow> s)"

section \<open>Registries\<close>

text \<open>\<^verbatim>\<open>RegisterOperator\<close> and \<^verbatim>\<open>RegisterHarness\<close> are the same code over two tables.\<close>

definition register :: "int \<Rightarrow> registration \<Rightarrow> registration list \<Rightarrow> (registration \<times> registration list) result" where
  "register now r rows =
     (case find (\<lambda>x. rg_key x = rg_key r) rows of
        Some old \<Rightarrow>
          let new = old\<lparr>rg_name := rg_name r, rg_description := rg_description r,
                        rg_expires := rg_expires r, rg_updated := now\<rparr>
          in Inr (new, tbl_put rg_id new rows)
      | None \<Rightarrow>
          if rg_id r \<in> rg_id ` set rows then Inl ErrConflict
          else let new = r\<lparr>rg_created := now, rg_updated := now\<rparr> in Inr (new, rows @ [new]))"

definition list_alive :: "int \<Rightarrow> registration list \<Rightarrow> registration list" where
  "list_alive after rows = sort_key rg_key (filter (\<lambda>r. after < rg_expires r) rows)"

definition register_operator :: "int \<Rightarrow> registration \<Rightarrow> store \<Rightarrow> (registration \<times> store) result" where
  "register_operator now r s =
     bindR (register now r (st_operators s)) (\<lambda>(x, rows). Inr (x, s\<lparr>st_operators := rows\<rparr>))"

definition list_operators :: "int \<Rightarrow> store \<Rightarrow> registration list" where
  "list_operators after s = list_alive after (st_operators s)"

definition register_harness :: "int \<Rightarrow> registration \<Rightarrow> store \<Rightarrow> (registration \<times> store) result" where
  "register_harness now r s =
     bindR (register now r (st_harnesses s)) (\<lambda>(x, rows). Inr (x, s\<lparr>st_harnesses := rows\<rparr>))"

definition list_harnesses :: "int \<Rightarrow> store \<Rightarrow> registration list" where
  "list_harnesses after s = list_alive after (st_harnesses s)"

end
