(* ===== verification/K8sConv.thy ===== *)
theory K8sConv
  imports Humans
begin

text \<open>
  The Kubernetes side of conversation delivery: the Conversation resource
  (\<^verbatim>\<open>pkg/k8s/v1alpha1/conversation.go\<close>) and the client that signals, polls and commits
  (\<^verbatim>\<open>server/internal/k8s/conversation.go\<close>). The cluster is a parameter: a record \<open>kube\<close> of the
  four API calls over an unknown world, with \<open>kube_laws\<close> for the optimistic concurrency the
  client relies on.
\<close>

section \<open>The resource\<close>

record participant =
  pt_actor :: actor_ref
  pt_conv :: string
  pt_end :: string

record consumer =
  cn_actor :: actor_ref
  cn_committed :: string
  cn_position :: string

record kconv =
  kc_name :: string
  kc_version :: string
  kc_parts :: "participant list"
  kc_consumers :: "consumer list"
  kc_wakes :: "(string \<times> string) list"
  kc_deleting :: bool

definition new_kconv :: "string \<Rightarrow> kconv" where
  "new_kconv name = \<lparr>kc_name = name, kc_version = [], kc_parts = [], kc_consumers = [],
     kc_wakes = [], kc_deleting = False\<rparr>"

definition find_participant :: "actor_ref \<Rightarrow> kconv \<Rightarrow> participant option" where
  "find_participant a c = find (\<lambda>p. pt_actor p = a) (kc_parts c)"

definition find_consumer :: "actor_ref \<Rightarrow> kconv \<Rightarrow> consumer option" where
  "find_consumer a c = find (\<lambda>n. cn_actor n = a) (kc_consumers c)"

definition end_offset :: "actor_ref \<Rightarrow> kconv \<Rightarrow> string" where
  "end_offset a c = (case find_participant a c of None \<Rightarrow> [] | Some p \<Rightarrow> pt_end p)"

definition committed :: "actor_ref \<Rightarrow> kconv \<Rightarrow> string" where
  "committed a c = (case find_consumer a c of None \<Rightarrow> [] | Some n \<Rightarrow> cn_committed n)"

definition position :: "actor_ref \<Rightarrow> kconv \<Rightarrow> string" where
  "position a c = (case find_consumer a c of None \<Rightarrow> [] | Some n \<Rightarrow> cn_position n)"

text \<open>\<^verbatim>\<open>%x\<close> of the first 16 bytes of the digest is the first 32 digits of its hexadecimal form.\<close>

definition wake_annotation :: "env \<Rightarrow> actor_ref \<Rightarrow> string" where
  "wake_annotation e a =
     ''loopd.compforge.io/wake-'' @ take 32 (e_sha e (zero_sep [ar_kind a, ar_key a]))"

definition wake :: "env \<Rightarrow> actor_ref \<Rightarrow> kconv \<Rightarrow> string" where
  "wake e a c = (case map_of (kc_wakes c) (wake_annotation e a) of None \<Rightarrow> [] | Some v \<Rightarrow> v)"

section \<open>The cluster\<close>

record 'w kube =
  kb_get :: "string \<Rightarrow> 'w \<Rightarrow> kconv result \<times> 'w"
  kb_create :: "kconv \<Rightarrow> 'w \<Rightarrow> unit result \<times> 'w"
  kb_update :: "kconv \<Rightarrow> 'w \<Rightarrow> unit result \<times> 'w"
  kb_status :: "kconv \<Rightarrow> 'w \<Rightarrow> unit result \<times> 'w"

text \<open>
  client-go's \<^verbatim>\<open>retry.OnError\<close> with a backoff of \<open>n\<close> steps: the closure runs again while its error
  is retriable and steps remain; the last error is returned.
\<close>

fun retry_on :: "nat \<Rightarrow> (err \<Rightarrow> bool) \<Rightarrow> ('w \<Rightarrow> 'a result \<times> 'w) \<Rightarrow> 'w \<Rightarrow> 'a result \<times> 'w" where
  "retry_on 0 again f w = (Inl (ErrText ''timed out waiting for the condition''), w)"
| "retry_on (Suc n) again f w =
     (case f w of
        (Inr x, w1) \<Rightarrow> (Inr x, w1)
      | (Inl er, w1) \<Rightarrow> if again er \<and> n \<noteq> 0 then retry_on n again f w1 else (Inl er, w1))"

section \<open>Signal\<close>

definition set_wake :: "env \<Rightarrow> string \<Rightarrow> actor_ref \<Rightarrow> (string \<times> string) list \<Rightarrow> (string \<times> string) list \<times> bool" where
  "set_wake e stamp a ws =
     (let k = wake_annotation e a
      in if map_of ws k = Some stamp then (ws, False) else (al_set k stamp ws, True))"

definition signal_stamp :: "string \<Rightarrow> nat \<Rightarrow> string" where
  "signal_stamp i revn = i @ ''/'' @ nat_str revn"

definition signalled :: "string \<Rightarrow> actor_ref \<Rightarrow> string \<Rightarrow> participant \<Rightarrow> participant" where
  "signalled i target detail p =
     p\<lparr>pt_conv := (if target \<noteq> no_actor \<and> detail \<noteq> [] then detail else pt_conv p),
       pt_end := (if pt_end p < i then i else pt_end p)\<rparr>"

fun signal_parts ::
    "env \<Rightarrow> string \<Rightarrow> nat \<Rightarrow> actor_ref \<Rightarrow> string \<Rightarrow> participant list \<Rightarrow> (string \<times> string) list
     \<Rightarrow> participant list \<times> (string \<times> string) list \<times> bool \<times> bool" where
  "signal_parts e i revn target detail [] ws = ([], ws, False, False)"
| "signal_parts e i revn target detail (p # ps) ws =
     (if target = no_actor \<or> pt_actor p = target then
        let (ws1, woken) = set_wake e (signal_stamp i revn) (pt_actor p) ws;
            p1 = signalled i target detail p;
            (ps1, ws2, found, changed) = signal_parts e i revn target detail ps ws1
        in (p1 # ps1, ws2, True, p1 \<noteq> p \<or> woken \<or> changed)
      else
        let (ps1, ws2, found, changed) = signal_parts e i revn target detail ps ws
        in (p # ps1, ws2, found, changed))"

definition signal_object ::
    "env \<Rightarrow> string \<Rightarrow> nat \<Rightarrow> actor_ref \<Rightarrow> string \<Rightarrow> kconv \<Rightarrow> kconv \<times> bool" where
  "signal_object e i revn target detail c =
     (let (ps, ws, found, changed) = signal_parts e i revn target detail (kc_parts c) (kc_wakes c)
      in if \<not> found \<and> target \<noteq> no_actor then
           (c\<lparr>kc_parts := ps @ [\<lparr>pt_actor = target, pt_conv = detail, pt_end = i\<rparr>],
              kc_wakes := fst (set_wake e (signal_stamp i revn) target ws)\<rparr>, True)
         else (c\<lparr>kc_parts := ps, kc_wakes := ws\<rparr>, changed))"

definition signal_attempt ::
    "env \<Rightarrow> 'w kube \<Rightarrow> string \<Rightarrow> string \<Rightarrow> nat \<Rightarrow> actor_ref \<Rightarrow> string \<Rightarrow> 'w \<Rightarrow> unit result \<times> 'w" where
  "signal_attempt e K conv i revn target detail w =
     (case kb_get K conv w of
        (Inr c, w1) \<Rightarrow>
          (let (c1, changed) = signal_object e i revn target detail c
           in if changed then kb_update K c1 w1 else (Inr (), w1))
      | (Inl er, w1) \<Rightarrow>
          if er = KubeNotFound
          then kb_create K (fst (signal_object e i revn target detail (new_kconv conv))) w1
          else (Inl er, w1))"

definition signal ::
    "env \<Rightarrow> 'w kube \<Rightarrow> nat \<Rightarrow> string \<Rightarrow> string \<Rightarrow> actor_ref \<Rightarrow> nat \<Rightarrow> string \<Rightarrow> 'w \<Rightarrow> unit result \<times> 'w" where
  "signal e K steps conv i target revn detail w =
     (if conv = [] \<or> i = [] \<or> (target \<noteq> no_actor \<and> \<not> valid_target target)
      then (Inl (ErrText ''conversation, message and a valid target or broadcast are required''), w)
      else retry_on steps (\<lambda>er. er = KubeConflict \<or> er = KubeExists)
             (signal_attempt e K conv i revn target detail) w)"

section \<open>Poll\<close>

definition addressed_to :: "cmessage \<Rightarrow> actor_ref \<Rightarrow> bool" where
  "addressed_to m a \<longleftrightarrow> cm_target m = no_actor \<or> cm_target m = a"

text \<open>The last identifier of a batch, unless the batch is out of order or not the actor's.\<close>

fun batch_end :: "string \<Rightarrow> actor_ref \<Rightarrow> string \<Rightarrow> cmessage list \<Rightarrow> string option" where
  "batch_end conv a next [] = Some next"
| "batch_end conv a next (m # ms) =
     (if cm_conv m \<noteq> conv \<or> cm_id m \<le> next \<or> \<not> addressed_to m a then None
      else batch_end conv a (cm_id m) ms)"

fun advance :: "actor_ref \<Rightarrow> string \<Rightarrow> consumer list \<Rightarrow> consumer list" where
  "advance a next [] = [\<lparr>cn_actor = a, cn_committed = [], cn_position = next\<rparr>]"
| "advance a next (n # ns) =
     (if cn_actor n = a
      then n\<lparr>cn_position := (if cn_position n < next then next else cn_position n)\<rparr> # ns
      else n # advance a next ns)"

definition record_receipt :: "actor_ref \<Rightarrow> string \<Rightarrow> kconv \<Rightarrow> kconv" where
  "record_receipt a next c = c\<lparr>kc_consumers := advance a next (kc_consumers c)\<rparr>"

definition poll_start :: "actor_ref \<Rightarrow> string \<Rightarrow> kconv \<Rightarrow> string" where
  "poll_start a after c = (if committed a c < after then after else committed a c)"

definition poll_attempt ::
    "'w kube \<Rightarrow> string \<Rightarrow> actor_ref \<Rightarrow> string \<Rightarrow> (string \<Rightarrow> cmessage list result) \<Rightarrow> 'w
     \<Rightarrow> poll_result result \<times> 'w" where
  "poll_attempt K conv a after rd w =
     (case kb_get K conv w of
        (Inl er, w1) \<Rightarrow> (Inl er, w1)
      | (Inr c, w1) \<Rightarrow>
          if find_participant a c = None then (Inl ErrNotParticipant, w1)
          else
            let start = poll_start a after c;
                empty = \<lparr>po_end_offset = end_offset a c, po_committed = committed a c, po_messages = [],
                         po_position = start\<rparr>
            in case rd start of
                 Inl er \<Rightarrow> (Inl er, w1)
               | Inr ms \<Rightarrow>
                   if ms = [] then (Inr empty, w1)
                   else case batch_end conv a start ms of
                     None \<Rightarrow> (Inl (ErrText ''invalid Poll batch''), w1)
                   | Some next \<Rightarrow>
                       (case kb_status K (record_receipt a next c) w1 of
                          (Inl er, w2) \<Rightarrow> (Inl er, w2)
                        | (Inr u, w2) \<Rightarrow> (Inr (empty\<lparr>po_messages := ms, po_position := next\<rparr>), w2)))"

definition poll ::
    "'w kube \<Rightarrow> nat \<Rightarrow> string \<Rightarrow> actor_ref \<Rightarrow> string \<Rightarrow> (string \<Rightarrow> cmessage list result) \<Rightarrow> 'w
     \<Rightarrow> poll_result result \<times> 'w" where
  "poll K steps conv a after rd w =
     (if conv = [] \<or> \<not> valid_target a
      then (Inl (ErrText ''conversation, actor and message reader are required''), w)
      else retry_on steps (\<lambda>er. er = KubeConflict) (poll_attempt K conv a after rd) w)"

section \<open>Commit\<close>

text \<open>\<open>None\<close> is the early return that leaves the resource as it is.\<close>

fun commit_consumers :: "actor_ref \<Rightarrow> string \<Rightarrow> consumer list \<Rightarrow> consumer list option result" where
  "commit_consumers a through [] = Inl ErrNotParticipant"
| "commit_consumers a through (n # ns) =
     (if cn_actor n \<noteq> a then
        bindR (commit_consumers a through ns) (\<lambda>r. Inr (map_option ((#) n) r))
      else if through \<le> cn_committed n then Inr None
      else if cn_position n < through then Inl ErrInvalidCommit
      else Inr (Some (n\<lparr>cn_committed := through\<rparr> # ns)))"

definition commit_attempt :: "'w kube \<Rightarrow> string \<Rightarrow> commit_request \<Rightarrow> 'w \<Rightarrow> unit result \<times> 'w" where
  "commit_attempt K conv r w =
     (case kb_get K conv w of
        (Inl er, w1) \<Rightarrow> (Inl er, w1)
      | (Inr c, w1) \<Rightarrow>
          (case commit_consumers (cr_actor r) (cr_through r) (kc_consumers c) of
             Inl er \<Rightarrow> (Inl er, w1)
           | Inr None \<Rightarrow> (Inr (), w1)
           | Inr (Some ns) \<Rightarrow> kb_status K (c\<lparr>kc_consumers := ns\<rparr>) w1))"

definition commit :: "'w kube \<Rightarrow> nat \<Rightarrow> string \<Rightarrow> commit_request \<Rightarrow> 'w \<Rightarrow> unit result \<times> 'w" where
  "commit K steps conv r w =
     (if \<not> valid_target (cr_actor r) \<or> cr_through r = [] then (Inl ErrInvalidCommit, w)
      else retry_on steps (\<lambda>er. er = KubeConflict) (commit_attempt K conv r) w)"

section \<open>The local snapshot of a controller\<close>

text \<open>\<^verbatim>\<open>runtime/controller.go\<close>: which events of the resource wake the actor's reconciler.\<close>

record participant_state =
  ps_actor :: actor_ref
  ps_conv :: string
  ps_end :: string
  ps_position :: string
  ps_committed :: string

definition participant_state_of :: "kconv \<Rightarrow> actor_ref \<Rightarrow> participant_state option" where
  "participant_state_of c a =
     (case find_participant a c of
        None \<Rightarrow> None
      | Some p \<Rightarrow> Some \<lparr>ps_actor = a, ps_conv = pt_conv p, ps_end = pt_end p,
                        ps_position = position a c, ps_committed = committed a c\<rparr>)"

definition pending :: "actor_ref \<Rightarrow> kconv \<Rightarrow> bool" where
  "pending a c \<longleftrightarrow> \<not> kc_deleting c \<and> committed a c < end_offset a c"

definition state_conv :: "kconv \<Rightarrow> actor_ref \<Rightarrow> string" where
  "state_conv c a = (case participant_state_of c a of None \<Rightarrow> [] | Some p \<Rightarrow> ps_conv p)"

definition wakes_on_update :: "env \<Rightarrow> actor_ref \<Rightarrow> kconv \<Rightarrow> kconv \<Rightarrow> bool" where
  "wakes_on_update e a old new \<longleftrightarrow>
     pending a new
     \<and> (state_conv old a \<noteq> state_conv new a \<or> wake e a old \<noteq> wake e a new
        \<or> end_offset a old \<noteq> end_offset a new \<or> committed a old \<noteq> committed a new)"

section \<open>What the operations do to the cursors\<close>

lemma Nil_le [simp]: "([] :: string) \<le> x"
  by simp

lemma find_advance:
  "find (\<lambda>n. cn_actor n = b) (advance a next ns) =
     (if b = a then
        Some (case find (\<lambda>n. cn_actor n = a) ns of
          None \<Rightarrow> \<lparr>cn_actor = a, cn_committed = [], cn_position = next\<rparr>
        | Some n \<Rightarrow> n\<lparr>cn_position := (if cn_position n < next then next else cn_position n)\<rparr>)
      else find (\<lambda>n. cn_actor n = b) ns)"
  by (induction a "next" ns rule: advance.induct) auto

lemma committed_receipt [simp]: "committed b (record_receipt a next c) = committed b c"
  by (simp add: committed_def find_consumer_def record_receipt_def find_advance split: option.splits)

lemma position_receipt:
  "position b (record_receipt a next c) = (if b = a then max (position a c) next else position b c)"
  by (auto simp: position_def find_consumer_def record_receipt_def find_advance max_def split: option.splits)

lemma participants_receipt [simp]:
  "find_participant b (record_receipt a next c) = find_participant b c"
  "end_offset b (record_receipt a next c) = end_offset b c"
  by (simp_all add: find_participant_def end_offset_def record_receipt_def)

lemma commit_consumers_Some:
  assumes "commit_consumers a t ns = Inr (Some ns')"
  shows "\<exists>n. find (\<lambda>n. cn_actor n = a) ns = Some n \<and> cn_committed n < t \<and> t \<le> cn_position n
       \<and> find (\<lambda>n. cn_actor n = a) ns' = Some (n\<lparr>cn_committed := t\<rparr>)
       \<and> (\<forall>b. b \<noteq> a \<longrightarrow> find (\<lambda>n. cn_actor n = b) ns' = find (\<lambda>n. cn_actor n = b) ns)"
  using assms
proof (induction a t ns arbitrary: ns' rule: commit_consumers.induct)
  case (2 a t n ns)
  show ?case
  proof (cases "cn_actor n = a")
    case False
    with 2 obtain xs where xs: "commit_consumers a t ns = Inr (Some xs)" "ns' = n # xs"
      by (auto simp: bindR_eq_Inr)
    from 2(1) [OF False this(1)] show ?thesis unfolding xs(2) using False by auto
  qed (use 2(2) in \<open>auto simp: not_less not_le split: if_splits\<close>)
qed simp

definition commit_object :: "actor_ref \<Rightarrow> string \<Rightarrow> kconv \<Rightarrow> kconv option result" where
  "commit_object a t c =
     bindR (commit_consumers a t (kc_consumers c)) (\<lambda>r. Inr (map_option (\<lambda>ns. c\<lparr>kc_consumers := ns\<rparr>) r))"

lemma commit_object_effect:
  assumes "commit_object a t c = Inr (Some c')"
  shows "committed a c < t" "t \<le> position a c" "committed a c' = t"
    "b \<noteq> a \<Longrightarrow> committed b c' = committed b c" "position b c' = position b c"
    "kc_parts c' = kc_parts c" "kc_wakes c' = kc_wakes c"
proof -
  obtain ns where ns: "commit_consumers a t (kc_consumers c) = Inr (Some ns)" "c' = c\<lparr>kc_consumers := ns\<rparr>"
    using assms by (auto simp: commit_object_def bindR_eq_Inr)
  obtain n where n: "find (\<lambda>n. cn_actor n = a) (kc_consumers c) = Some n" "cn_committed n < t" "t \<le> cn_position n"
    "find (\<lambda>n. cn_actor n = a) ns = Some (n\<lparr>cn_committed := t\<rparr>)"
    "\<forall>b. b \<noteq> a \<longrightarrow> find (\<lambda>n. cn_actor n = b) ns = find (\<lambda>n. cn_actor n = b) (kc_consumers c)"
    using commit_consumers_Some [OF ns(1)] by blast
  show "committed a c < t" "t \<le> position a c" "committed a c' = t" "kc_parts c' = kc_parts c"
    "kc_wakes c' = kc_wakes c"
    using n by (simp_all add: committed_def position_def find_consumer_def ns(2))
  show "committed b c' = committed b c" if "b \<noteq> a"
    using n that by (simp add: committed_def find_consumer_def ns(2))
  show "position b c' = position b c"
    using n by (cases "b = a") (simp_all add: position_def find_consumer_def ns(2))
qed

text \<open>Signals.\<close>

lemma signalled_actor [simp]: "pt_actor (signalled i t d p) = pt_actor p"
  by (simp add: signalled_def)

lemma signalled_end [simp]: "pt_end (signalled i t d p) = max (pt_end p) i"
  by (cases "pt_end p < i") (auto simp: signalled_def max_def)

lemma signal_parts_parts:
  assumes "signal_parts e i revn t d ps ws = (ps', ws', found, changed)"
  shows "ps' = map (\<lambda>p. if t = no_actor \<or> pt_actor p = t then signalled i t d p else p) ps"
    "found \<longleftrightarrow> (\<exists>p \<in> set ps. t = no_actor \<or> pt_actor p = t)"
  using assms
  by (induction e i revn t d ps ws arbitrary: ps' ws' found changed rule: signal_parts.induct)
    (auto simp: Let_def split: if_splits prod.splits)

lemma find_map_signalled:
  "find (\<lambda>p. pt_actor p = b) (map (\<lambda>p. if Q p then signalled i t d p else p) ps) =
     map_option (\<lambda>p. if Q p then signalled i t d p else p) (find (\<lambda>p. pt_actor p = b) ps)"
  by (induction ps) auto

lemma find_append: "find P (xs @ ys) = (case find P xs of None \<Rightarrow> find P ys | Some x \<Rightarrow> Some x)"
  by (induction xs) auto

text \<open>A signal moves the end offsets of the recipients forward and touches no consumer.\<close>

lemma signal_object_participant:
  "find_participant b (fst (signal_object e i revn t d c)) =
     (if t = no_actor then map_option (signalled i t d) (find_participant b c)
      else if b = t then
        Some (case find_participant t c of None \<Rightarrow> \<lparr>pt_actor = t, pt_conv = d, pt_end = i\<rparr> | Some p \<Rightarrow> signalled i t d p)
      else find_participant b c)"
proof -
  obtain ps ws found changed where r: "signal_parts e i revn t d (kc_parts c) (kc_wakes c) = (ps, ws, found, changed)"
    by (metis prod_cases4)
  note P = signal_parts_parts [OF r]
  have key: "find (\<lambda>p. pt_actor p = b) (kc_parts c) = Some p \<Longrightarrow> pt_actor p = b \<and> p \<in> set (kc_parts c)" for p
    by (auto simp: find_Some_iff)
  have absent: "find (\<lambda>p. pt_actor p = t) (kc_parts c) = None \<longleftrightarrow> (\<forall>p \<in> set (kc_parts c). pt_actor p \<noteq> t)"
    by (auto simp: find_None_iff)
  show ?thesis
  proof (cases "t = no_actor")
    case True
    show ?thesis
      unfolding signal_object_def r find_participant_def P(1)
      by (simp add: True find_map_signalled [where Q = "\<lambda>_. True", simplified])
  next
    case False
    have f: "find (\<lambda>p. pt_actor p = b) ps =
        (if b = t then map_option (signalled i t d) (find (\<lambda>p. pt_actor p = t) (kc_parts c))
         else find (\<lambda>p. pt_actor p = b) (kc_parts c))"
      unfolding P(1) find_map_signalled using False key
      by (cases "find (\<lambda>p. pt_actor p = b) (kc_parts c)") auto
    have found': "found \<longleftrightarrow> find (\<lambda>p. pt_actor p = t) (kc_parts c) \<noteq> None"
      using False absent P(2) by auto
    show ?thesis
    proof (cases found)
      case True
      then show ?thesis using False f found'
        by (auto simp: signal_object_def r find_participant_def)
    next
      case nf: False
      then show ?thesis using False f found'
        by (auto simp: signal_object_def r find_participant_def find_append split: option.splits)
    qed
  qed
qed

lemma signal_object_end:
  "end_offset b (fst (signal_object e i revn t d c)) =
     (if (t = no_actor \<and> find_participant b c \<noteq> None) \<or> (t \<noteq> no_actor \<and> b = t)
      then max (end_offset b c) i else end_offset b c)"
  by (auto simp: end_offset_def signal_object_participant split: option.splits)

lemma signal_object_consumers [simp]:
  "kc_consumers (fst (signal_object e i revn t d c)) = kc_consumers c"
  "kc_version (fst (signal_object e i revn t d c)) = kc_version c"
  "kc_name (fst (signal_object e i revn t d c)) = kc_name c"
  by (simp_all add: signal_object_def split: prod.splits)

lemma signal_object_cursors [simp]:
  "committed b (fst (signal_object e i revn t d c)) = committed b c"
  "position b (fst (signal_object e i revn t d c)) = position b c"
  by (simp_all add: committed_def position_def find_consumer_def)

section \<open>Cursor systems\<close>

text \<open>
  The contract between a conversation's writers and its consumers: no step moves a cursor
  back, and nothing is committed that was not received.
\<close>

locale cursor_system =
  fixes com pos :: "'a \<Rightarrow> 's \<Rightarrow> string" and step :: "'s \<Rightarrow> 's \<Rightarrow> bool"
  assumes step_mono: "step s s' \<Longrightarrow> com a s \<le> com a s' \<and> pos a s \<le> pos a s'"
    and step_bound: "step s s' \<Longrightarrow> com a s < com a s' \<Longrightarrow> com a s' \<le> pos a s"
begin

lemma run_mono: "step\<^sup>*\<^sup>* s s' \<Longrightarrow> com a s \<le> com a s' \<and> pos a s \<le> pos a s'"
  by (induction rule: rtranclp_induct) (auto dest: step_mono [of _ _ a] intro: order_trans)

lemma run_bound:
  assumes "step\<^sup>*\<^sup>* s s'" and "com a s \<le> pos a s"
  shows "com a s' \<le> pos a s'"
  using assms
proof (induction rule: rtranclp_induct)
  case (step y z)
  then have y: "com a y \<le> pos a y" by simp
  show ?case
  proof (cases "com a y < com a z")
    case True
    then have "com a z \<le> pos a y" by (rule step_bound [OF step(2)])
    then show ?thesis using step_mono [OF step(2), of a] by (meson order_trans)
  next
    case False
    then have "com a z \<le> com a y" by (simp add: not_less)
    then show ?thesis using y step_mono [OF step(2), of a] by (meson order_trans)
  qed
qed simp

end

inductive conv_step :: "env \<Rightarrow> kconv \<Rightarrow> kconv \<Rightarrow> bool" for e where
  signal: "conv_step e c ((fst (signal_object e i revn t d c))\<lparr>kc_version := v\<rparr>)"
| poll: "batch_end conv a (poll_start a after c) ms = Some next \<Longrightarrow> ms \<noteq> [] \<Longrightarrow>
     conv_step e c ((record_receipt a next c)\<lparr>kc_version := v\<rparr>)"
| commit: "commit_object a t c = Inr (Some c') \<Longrightarrow> conv_step e c (c'\<lparr>kc_version := v\<rparr>)"

lemma cursors_version [simp]:
  "committed a (c\<lparr>kc_version := v\<rparr>) = committed a c" "position a (c\<lparr>kc_version := v\<rparr>) = position a c"
  "find_participant a (c\<lparr>kc_version := v\<rparr>) = find_participant a c"
  "end_offset a (c\<lparr>kc_version := v\<rparr>) = end_offset a c"
  by (simp_all add: committed_def position_def find_consumer_def find_participant_def end_offset_def)

interpretation cursors: cursor_system committed position "conv_step e"
proof unfold_locales
  fix s s' a
  assume st: "conv_step e s s'"
  from st show "committed a s \<le> committed a s' \<and> position a s \<le> position a s'"
  proof cases
    case (commit b t c' v)
    then show ?thesis
      using commit_object_effect(1,3-5) [OF commit(2)] by (cases "b = a") simp_all
  qed (simp_all add: position_receipt)
  show "committed a s' \<le> position a s" if less: "committed a s < committed a s'"
    using st
  proof cases
    case (commit b t c' v)
    then show ?thesis
      using commit_object_effect [OF commit(2)] less by (cases "b = a") simp_all
  qed (use less in simp_all)
qed

text \<open>A received batch is addressed to the actor, ordered, and after the cursor.\<close>

lemma batch_end_Some:
  assumes "batch_end conv a start ms = Some next"
  shows "sorted_wrt (<) (start # map cm_id ms)" "\<And>m. m \<in> set ms \<Longrightarrow> cm_conv m = conv \<and> addressed_to m a"
    "ms \<noteq> [] \<Longrightarrow> next = cm_id (last ms)" "ms = [] \<Longrightarrow> next = start" "start \<le> next"
proof -
  have "sorted_wrt (<) (start # map cm_id ms) \<and> (\<forall>m \<in> set ms. cm_conv m = conv \<and> addressed_to m a)
      \<and> (if ms = [] then next = start else next = cm_id (last ms)) \<and> start \<le> next"
    using assms
  proof (induction conv a start ms rule: batch_end.induct)
    case (2 conv a start m ms)
    show ?case
    proof (cases "cm_conv m \<noteq> conv \<or> cm_id m \<le> start \<or> \<not> addressed_to m a")
      case True
      then show ?thesis using 2(2) by simp
    next
      case False
      then have m: "cm_conv m = conv" "start < cm_id m" "addressed_to m a" by (auto simp: not_le)
      have rest: "batch_end conv a (cm_id m) ms = Some next"
        using 2(2) False by (simp only: batch_end.simps if_False)
      have IH: "sorted_wrt (<) (cm_id m # map cm_id ms)" "\<forall>m \<in> set ms. cm_conv m = conv \<and> addressed_to m a"
        "if ms = [] then next = cm_id m else next = cm_id (last ms)" "cm_id m \<le> next"
        using 2(1) [OF False rest] by blast+
      have "\<forall>x \<in> set ms. start < cm_id x" using IH(1) m(2) by (auto intro: less_trans)
      then have "sorted_wrt (<) (start # map cm_id (m # ms))" using IH(1) m(2) by simp
      moreover have "start \<le> next" using m(2) IH(4) by (meson less_imp_le order_trans)
      ultimately show ?thesis using IH(2,3) m(1,3) by (cases ms) simp_all
    qed
  qed simp
  then show "sorted_wrt (<) (start # map cm_id ms)" "\<And>m. m \<in> set ms \<Longrightarrow> cm_conv m = conv \<and> addressed_to m a"
    "ms \<noteq> [] \<Longrightarrow> next = cm_id (last ms)" "ms = [] \<Longrightarrow> next = start" "start \<le> next"
    by auto
qed

end
