(* ===== verification/LongHorizon.thy ===== *)
theory LongHorizon
  imports K8sConv
begin

text \<open>
  The LongHorizon operator (\<^verbatim>\<open>operators/longhorizon\<close>): its resources, the helpers of
  \<^verbatim>\<open>controller.go\<close> and the Manager reconciler of \<^verbatim>\<open>manager.go\<close>, a state machine over the
  status of a Run. A reconcile is a function of the resource it read and of a record
  \<open>lh_world\<close> of the calls it makes: the loop-runtime client (poll, commit, speak, ask, prompt)
  and the Kubernetes API. It ends in one \<open>outcome\<close>: nothing written, a requeue, an error, a
  new status written under the optimistic lock, or a deletion. The instruction text of a prompt
  is left out; the facts put into it are kept.
\<close>

section \<open>Resources\<close>

record lh_ref =
  lr_name :: string
  lr_uid :: string

record message_ref =
  mr_conv :: string
  mr_message :: string

record run_spec =
  rsp_context :: "message_ref list"
  rsp_conv :: lh_ref
  rsp_workspace :: string
  rsp_user :: string
  rsp_deadline :: "int option"
  rsp_input :: string
  rsp_goal :: string
  rsp_max_rounds :: int

record lh_choice =
  lc_value :: string
  lc_label :: string

record decision =
  dc_next :: string
  dc_summary :: string
  dc_plan :: string
  dc_contract :: string
  dc_question :: string
  dc_choices :: "lh_choice list"
  dc_allow_other :: bool

record round_summary =
  rd_index :: int
  rd_decision :: string
  rd_summary :: string
  rd_messages :: "string list"
  rd_execution :: "lh_ref option"
  rd_audit :: "lh_ref option"

record verdict =
  vd_complete :: bool
  vd_integrity :: string
  vd_task_state :: string
  vd_evidence :: string
  vd_feedback :: string

record audit_evidence =
  ae_execution :: lh_ref
  ae_version :: int
  ae_message :: string
  ae_verdict :: verdict

record run_status =
  rs_through :: string
  rs_inputs :: "string list"
  rs_finished :: "int option"
  rs_phase :: string
  rs_round :: int
  rs_budget :: int
  rs_failures :: int
  rs_contract :: string
  rs_version :: int
  rs_task_state :: string
  rs_guidance :: string
  rs_decision :: "decision option"
  rs_execution :: "lh_ref option"
  rs_audit :: "lh_ref option"
  rs_last_audit :: "audit_evidence option"
  rs_human :: string
  rs_human_reason :: string
  rs_manager :: string
  rs_final :: string
  rs_summary :: string
  rs_consumed :: int
  rs_rounds :: "round_summary list"
  rs_conditions :: "(string \<times> bool \<times> string \<times> string) list"

record lh_run =
  ln_name :: string
  ln_uid :: string
  ln_deleting :: bool
  ln_spec :: run_spec
  ln_status :: run_status

record execution_spec =
  xs_run :: lh_ref
  xs_round :: int
  xs_version :: int
  xs_contract :: string
  xs_plan :: string
  xs_reports :: "string list"

record work_status =
  ws_phase :: string
  ws_call :: string
  ws_message :: string
  ws_error :: string

record lh_execution =
  xn_name :: string
  xn_uid :: string
  xn_deleting :: bool
  xn_spec :: execution_spec
  xn_status :: work_status

record audit_spec =
  as_run :: lh_ref
  as_round :: int
  as_version :: int
  as_contract :: string
  as_execution :: lh_ref
  as_execution_message :: string

record audit_status = work_status +
  au_verdict :: "verdict option"

record lh_audit =
  an_name :: string
  an_uid :: string
  an_deleting :: bool
  an_spec :: audit_spec
  an_status :: audit_status

record lh_config =
  lf_run_timeout :: int
  lf_retention :: int
  lf_max_rounds :: int
  lf_manager :: string
  lf_executor :: string
  lf_auditor :: string
  lf_manager_timeout :: int
  lf_executor_timeout :: int
  lf_auditor_timeout :: int
  lf_human_timeout :: int

definition config_defaults :: "lh_config \<Rightarrow> lh_config" where
  "config_defaults c =
     (let pos = (\<lambda>d x. if x \<le> (0::int) then d else x); str = (\<lambda>d x. if x = [] then d else x)
      in \<lparr>lf_run_timeout = pos 86400000000000 (lf_run_timeout c),
          lf_retention = pos 86400000000000 (lf_retention c),
          lf_max_rounds = pos 25 (lf_max_rounds c),
          lf_manager = str ''manager'' (lf_manager c),
          lf_executor = str ''executor'' (lf_executor c),
          lf_auditor = str ''auditor'' (lf_auditor c),
          lf_manager_timeout = pos 300000000000 (lf_manager_timeout c),
          lf_executor_timeout = pos 1800000000000 (lf_executor_timeout c),
          lf_auditor_timeout = pos 300000000000 (lf_auditor_timeout c),
          lf_human_timeout = pos 1800000000000 (lf_human_timeout c)\<rparr>)"

section \<open>Helpers\<close>

abbreviation ActorManager :: string where "ActorManager \<equiv> ''operator/longhorizon/manager''"
abbreviation ActorExecutor :: string where "ActorExecutor \<equiv> ''operator/longhorizon/executor''"
abbreviation ActorAuditor :: string where "ActorAuditor \<equiv> ''operator/longhorizon/auditor''"

definition run_ref :: "lh_run \<Rightarrow> lh_ref" where
  "run_ref r = \<lparr>lr_name = ln_name r, lr_uid = ln_uid r\<rparr>"

definition lh_actor :: "lh_run \<Rightarrow> string \<Rightarrow> actor_ref" where
  "lh_actor r kind = \<lparr>ar_kind = kind, ar_key = ln_uid r\<rparr>"

definition lh_consumer :: actor_ref where
  "lh_consumer = \<lparr>ar_kind = ActorKindOperator, ar_key = ''longhorizon''\<rparr>"

definition lh_recipient :: "lh_run \<Rightarrow> actor_ref" where
  "lh_recipient r = \<lparr>ar_kind = ActorKindUser, ar_key = rsp_user (ln_spec r)\<rparr>"

definition step_key :: "lh_run \<Rightarrow> int \<Rightarrow> string \<Rightarrow> string" where
  "step_key r n role = ln_uid r @ ''/round/'' @ int_str n @ ''/'' @ role"

definition clip :: "string \<Rightarrow> string" where
  "clip s = (if 2000 < length s then to_valid_utf8 (take 2000 s) else s)"

definition lh_terminal :: "string \<Rightarrow> bool" where
  "lh_terminal p \<longleftrightarrow> p = ''Succeeded'' \<or> p = ''Stopped'' \<or> p = ''Failed''"

definition overdue :: "int \<Rightarrow> int option \<Rightarrow> bool" where
  "overdue now d \<longleftrightarrow> (case d of None \<Rightarrow> False | Some t \<Rightarrow> t \<le> now)"

record owner_conv =
  oc_name :: string
  oc_uid :: string
  oc_deleting :: bool
  oc_object :: kconv

section \<open>Reports and role results\<close>

record report =
  rp_text :: string
  rp_error :: string

record text_block =
  tb_content :: string
  tb_type :: string
  tb_value :: string
  tb_outcome :: string
  tb_prompt :: string
  tb_choices :: "human_choice list"
  tb_question :: "human_block option"

definition decode_text_block :: "env \<Rightarrow> json \<Rightarrow> text_block result" where
  "decode_text_block e v0 =
     bindR (need_struct v0) (\<lambda>v.
     bindR (jfield_str ''content'' v) (\<lambda>c. bindR (jfield_str ''type'' v) (\<lambda>t.
     bindR (jfield_str ''value'' v) (\<lambda>x. bindR (jfield_str ''outcome'' v) (\<lambda>oc.
     bindR (jfield_str ''prompt'' v) (\<lambda>p. bindR (decode_choices v) (\<lambda>cs.
     bindR (case jget ''question'' v of None \<Rightarrow> Inr None | Some JNull \<Rightarrow> Inr None
            | Some q \<Rightarrow> bindR (decode_human_block e q) (\<lambda>b. Inr (Some b))) (\<lambda>q.
       Inr \<lparr>tb_content = c, tb_type = t, tb_value = x, tb_outcome = oc, tb_prompt = p,
            tb_choices = (case cs of None \<Rightarrow> [] | Some ys \<Rightarrow> ys), tb_question = q\<rparr>))))))))"

definition choice_line :: "human_choice \<Rightarrow> string" where
  "choice_line c = ch_value c @ '': '' @ ch_label c"

definition block_texts :: "text_block \<Rightarrow> string list" where
  "block_texts b =
     (if tb_content b \<noteq> [] then [tb_content b]
      else if tb_prompt b \<noteq> [] then
        [tb_prompt b @ concat (map (\<lambda>c. newline @ choice_line c) (tb_choices b))]
      else if tb_type b = ''human_reply'' then
        (case tb_question b of
           None \<Rightarrow> []
         | Some q \<Rightarrow> hb_prompt q # map choice_line (case hb_choices q of None \<Rightarrow> [] | Some cs \<Rightarrow> cs))
        @ [trim_space (tb_outcome b @ '' '' @ tb_value b)]
      else [])"

definition message_text :: "env \<Rightarrow> cmessage \<Rightarrow> string" where
  "message_text e m =
     (case bindR (struct_blocks (c_val (cm_content m))) (mapR (decode_text_block e)) of
        Inl _ \<Rightarrow> []
      | Inr bs \<Rightarrow> join_with newline (concat (map block_texts bs)))"

definition decode_report_block :: "json \<Rightarrow> (bool \<times> report) result" where
  "decode_report_block v0 =
     bindR (need_struct v0) (\<lambda>v.
     bindR (jfield_bool ''longhorizon_report'' v) (\<lambda>r. bindR (jfield_str ''content'' v) (\<lambda>c.
     bindR (jfield_str ''error'' v) (\<lambda>er. Inr (r, \<lparr>rp_text = c, rp_error = er\<rparr>)))))"

definition report_from :: "cmessage \<Rightarrow> report result" where
  "report_from m =
     bindR (extract_result (cm_content m)) (\<lambda>result.
       if result \<noteq> None \<or> cm_status m \<in> {MessageStatusFailed, MessageStatusCancelled, MessageStatusExpired} then
         (if \<not> ended m then Inl (ErrText ''Harness output is incomplete'')
          else if cm_status m \<noteq> MessageStatusCompleted
          then Inr \<lparr>rp_text = [], rp_error = ''Harness execution '' @ cm_status m\<rparr>
          else Inr \<lparr>rp_text = result_text result, rp_error = []\<rparr>)
       else bindR (struct_blocks (c_val (cm_content m))) (\<lambda>bs.
            bindR (mapR decode_report_block bs) (\<lambda>rs.
              option_or (ErrText ''sealed report has no report block'') (map_option snd (find fst rs)))))"

definition read_report :: "cmessage result \<Rightarrow> report result" where
  "read_report r = bindR r (\<lambda>m.
     if \<not> ended m then Inl (ErrText ''report message has not ended'') else report_from m)"

definition report_content :: "report \<Rightarrow> string \<Rightarrow> string \<Rightarrow> content" where
  "report_content r title role =
     marshal (JObj [(''biz'', JStr ''chat''),
       (''blocks'', JArr [JObj [(''content'', JStr (rp_text r)), (''error'', JStr (rp_error r)),
          (''id'', JStr ''report''), (''longhorizon_report'', JBool True), (''type'', JStr ''text'')]]),
       (''meta'', JObj [(''actor_display_name'', JStr role), (''title'', JStr title)]),
       (''version'', JStr ''1.1'')])"

text \<open>
  \<^verbatim>\<open>decode\<close>: a fenced or plain JSON object without unknown members. \<open>parse\<close> is the JSON parser
  applied to the whole text; it fails on trailing content.
\<close>

definition role_text :: "string \<Rightarrow> string" where
  "role_text text =
     (let t = trim_space text
      in if has_prefix t ''```'' then
           (case cut_at (CHR 0x0A) t of
              None \<Rightarrow> t
            | Some (_, rest) \<Rightarrow> trim_space (trim_suffix rest ''```''))
         else t)"

definition role_json :: "(string \<Rightarrow> json option) \<Rightarrow> string list \<Rightarrow> string \<Rightarrow> json result" where
  "role_json parse ks text =
     (let t = role_text text
      in if 32000 < length t then Inl (ErrText ''role result exceeds 32000 bytes'')
         else bindR (option_or (ErrText ''json'') (parse t)) (\<lambda>v0.
              bindR (need_struct v0) (\<lambda>v.
                if only_fields ks v then Inr v else Inl (ErrText ''unknown field''))))"

definition decode_lh_choice :: "json \<Rightarrow> lh_choice result" where
  "decode_lh_choice v0 =
     bindR (need_struct v0) (\<lambda>v.
       if \<not> only_fields [''value'', ''label''] v then Inl (ErrText ''unknown field'')
       else bindR (jfield_str ''value'' v) (\<lambda>x. bindR (jfield_str ''label'' v) (\<lambda>l.
              Inr \<lparr>lc_value = x, lc_label = l\<rparr>)))"

definition decode_decision :: "(string \<Rightarrow> json option) \<Rightarrow> string \<Rightarrow> decision result" where
  "decode_decision parse text =
     bindR (role_json parse [''next'', ''summary'', ''plan'', ''contract'', ''question'', ''choices'', ''allow_other''] text) (\<lambda>v.
     bindR (jfield_str ''next'' v) (\<lambda>n. bindR (jfield_str ''summary'' v) (\<lambda>s.
     bindR (jfield_str ''plan'' v) (\<lambda>p. bindR (jfield_str ''contract'' v) (\<lambda>c.
     bindR (jfield_str ''question'' v) (\<lambda>q. bindR (jfield_list ''choices'' v) (\<lambda>xs.
     bindR (mapR decode_lh_choice (case xs of None \<Rightarrow> [] | Some ys \<Rightarrow> ys)) (\<lambda>cs.
     bindR (jfield_bool ''allow_other'' v) (\<lambda>a.
       Inr \<lparr>dc_next = n, dc_summary = s, dc_plan = p, dc_contract = c, dc_question = q,
            dc_choices = cs, dc_allow_other = a\<rparr>)))))))))"

definition decode_verdict :: "(string \<Rightarrow> json option) \<Rightarrow> string \<Rightarrow> verdict result" where
  "decode_verdict parse text =
     bindR (role_json parse [''complete'', ''integrity'', ''task_state'', ''evidence'', ''feedback''] text) (\<lambda>v.
     bindR (jfield_bool ''complete'' v) (\<lambda>c. bindR (jfield_str ''integrity'' v) (\<lambda>i.
     bindR (jfield_str ''task_state'' v) (\<lambda>t. bindR (jfield_str ''evidence'' v) (\<lambda>ev.
     bindR (jfield_str ''feedback'' v) (\<lambda>f.
       Inr \<lparr>vd_complete = c, vd_integrity = i, vd_task_state = t, vd_evidence = ev, vd_feedback = f\<rparr>))))))"

section \<open>The calls of a reconcile\<close>

datatype prompt =
    ManagerPrompt string string string string string "audit_evidence option"
  | ExecutorPrompt string string string
  | AuditorPrompt string string string string string string

record invocation =
  iv_report :: report
  iv_message :: string
  iv_call :: string
  iv_done :: bool

text \<open>
  Each field is one call of the code, with the error it may return: uncached reads of a
  Conversation, a Run and its children, the deletion of an object by its identity, the client
  of loop-runtime, and the rendering of the text of a prompt.
\<close>

record lh_world =
  lw_now :: int
  lw_conv :: "string \<Rightarrow> owner_conv result"
  lw_run :: "string \<Rightarrow> lh_run result"
  lw_runs :: "string \<Rightarrow> lh_run list result"
  lw_executions :: "string \<Rightarrow> lh_execution list result"
  lw_audits :: "string \<Rightarrow> lh_audit list result"
  lw_delete :: "string \<Rightarrow> unit result"
  lw_commit :: "string \<Rightarrow> unit result"
  lw_poll :: "string \<Rightarrow> int \<Rightarrow> poll_result result"
  lw_list :: "string \<Rightarrow> message_query \<Rightarrow> message_page result"
  lw_message :: "string \<Rightarrow> string \<Rightarrow> cmessage result"
  lw_prompt :: "harness_run_request \<Rightarrow> string result"
  lw_call :: "string \<Rightarrow> harness_call result"
  lw_render :: "prompt \<Rightarrow> string"
  lw_parse :: "string \<Rightarrow> json option"
  lw_new_run :: "lh_run \<Rightarrow> unit result"
  lw_new_execution :: "lh_execution \<Rightarrow> lh_ref result"
  lw_execution :: "string \<Rightarrow> lh_execution result"
  lw_new_audit :: "lh_audit \<Rightarrow> lh_ref result"
  lw_audit :: "string \<Rightarrow> lh_audit result"
  lw_ask :: "human_request \<Rightarrow> string result"
  lw_human :: "string \<Rightarrow> human_result result"
  lw_speak :: "speak_request \<Rightarrow> string result"
  lw_patch :: "run_status \<Rightarrow> unit result"
  lw_patch_execution :: "work_status \<Rightarrow> unit result"
  lw_patch_audit :: "audit_status \<Rightarrow> unit result"
  lw_err_text :: "err \<Rightarrow> string"

text \<open>\<^verbatim>\<open>live\<close> guards the identities of the owners before work is issued.\<close>

definition ignore_not_found :: "err \<Rightarrow> unit result" where
  "ignore_not_found er = (if er = KubeNotFound then Inr () else Inl er)"

definition run_alive :: "int \<Rightarrow> lh_ref \<Rightarrow> lh_ref \<Rightarrow> lh_run \<Rightarrow> bool" where
  "run_alive now conv ref r \<longleftrightarrow>
     ln_uid r = lr_uid ref \<and> \<not> ln_deleting r \<and> rsp_conv (ln_spec r) = conv
     \<and> \<not> lh_terminal (rs_phase (ln_status r)) \<and> \<not> overdue now (rsp_deadline (ln_spec r))"

definition is_live :: "lh_world \<Rightarrow> lh_ref \<Rightarrow> lh_ref option \<Rightarrow> bool result" where
  "is_live w conv run =
     (case lw_conv w (lr_name conv) of
        Inl er \<Rightarrow> bindR (ignore_not_found er) (\<lambda>_. Inr False)
      | Inr c \<Rightarrow>
          if oc_uid c \<noteq> lr_uid conv \<or> oc_deleting c then Inr False
          else (case run of
                  None \<Rightarrow> Inr True
                | Some ref \<Rightarrow>
                    (case lw_run w (lr_name ref) of
                       Inl er \<Rightarrow> bindR (ignore_not_found er) (\<lambda>_. Inr False)
                     | Inr r \<Rightarrow> Inr (run_alive (lw_now w) conv ref r))))"

text \<open>
  \<^verbatim>\<open>invoke\<close>: the call of a role in a round. Its key is the run, the round and the role, so a
  repeated reconcile finds the same durable call.
\<close>

definition no_invocation :: invocation where
  "no_invocation = \<lparr>iv_report = \<lparr>rp_text = [], rp_error = []\<rparr>, iv_message = [], iv_call = [], iv_done = False\<rparr>"

definition role_request ::
    "lh_world \<Rightarrow> lh_run \<Rightarrow> int \<Rightarrow> string \<Rightarrow> string \<Rightarrow> prompt \<Rightarrow> int \<Rightarrow> harness_run_request" where
  "role_request w r n kind target p timeout =
     (let role = trim_prefix kind ''operator/longhorizon/''
      in \<lparr>rr_conv = rsp_workspace (ln_spec r), rr_idempotency = step_key r n role,
          rr_effect = ''round/'' @ int_str n @ ''/'' @ role, rr_target = target, rr_text = lw_render w p,
          rr_tools = [], rr_actor = Some \<lparr>ar_kind = ''operator/longhorizon/harness'', ar_key = ln_uid r @ ''/'' @ role\<rparr>,
          rr_recipient = lh_recipient r, rr_timeout = timeout,
          rr_meta = Some (JObj
            [(''actor_display_name'', JStr role),
             (''title'', JStr (''Round '' @ int_str n @ '' '' @ [CHR 0xC2, CHR 0xB7] @ '' '' @ role))])\<rparr>)"

definition invoke ::
    "lh_world \<Rightarrow> lh_run \<Rightarrow> int \<Rightarrow> string \<Rightarrow> string \<Rightarrow> prompt \<Rightarrow> int \<Rightarrow> invocation result" where
  "invoke w r n kind target p timeout =
     bindR (is_live w (rsp_conv (ln_spec r)) (Some (run_ref r))) (\<lambda>alive.
       if \<not> alive then Inr no_invocation
       else bindR (lw_prompt w (role_request w r n kind target p timeout)) (\<lambda>i.
            bindR (lw_call w i) (\<lambda>v.
              if \<not> phase_terminal (hc_phase v)
              then Inr (no_invocation\<lparr>iv_message := hc_message v, iv_call := hc_id v\<rparr>)
              else Inr \<lparr>iv_report = \<lparr>rp_text = result_text (hc_result v), rp_error = hc_error v\<rparr>,
                        iv_message = hc_message v, iv_call = hc_id v, iv_done = True\<rparr>)))"

datatype 's outcome = Unchanged | Requeue int | Failure err | Saved 's | Removed

definition not_found_ok :: "err \<Rightarrow> 's outcome" where
  "not_found_ok er = (if er = KubeNotFound then Unchanged else Failure er)"

definition on_ok :: "'a result \<Rightarrow> ('a \<Rightarrow> 's outcome) \<Rightarrow> 's outcome" where
  "on_ok r f = (case r of Inl er \<Rightarrow> Failure er | Inr x \<Rightarrow> f x)"

definition on_found :: "'a result \<Rightarrow> ('a \<Rightarrow> 's outcome) \<Rightarrow> 's outcome" where
  "on_found r f = (case r of Inl er \<Rightarrow> not_found_ok er | Inr x \<Rightarrow> f x)"

lemma on_ok_Saved: "on_ok r f = Saved s \<longleftrightarrow> (\<exists>x. r = Inr x \<and> f x = Saved s)"
  by (cases r) (auto simp: on_ok_def)

lemma on_found_Saved: "on_found r f = Saved s \<longleftrightarrow> (\<exists>x. r = Inr x \<and> f x = Saved s)"
  by (cases r) (auto simp: on_found_def not_found_ok_def)

definition waiting :: "'s outcome" where
  "waiting = Requeue 2000000000"

section \<open>Status transitions\<close>

text \<open>\<^verbatim>\<open>commit\<close>: the conditions follow the phase; the transition times are left out.\<close>

definition with_conditions :: "run_status \<Rightarrow> run_status" where
  "with_conditions s =
     s\<lparr>rs_conditions :=
        al_set ''WaitingForHuman'' (rs_phase s = ''WaitingForHuman'', rs_phase s, clip (rs_summary s))
          (al_set ''Succeeded'' (rs_phase s = ''Succeeded'', rs_phase s, clip (rs_summary s)) (rs_conditions s))\<rparr>"

definition save_status :: "lh_world \<Rightarrow> run_status \<Rightarrow> run_status outcome" where
  "save_status w s = (let s1 = with_conditions s in on_found (lw_patch w s1) (\<lambda>_. Saved s1))"

definition last_rounds :: "round_summary list \<Rightarrow> round_summary list" where
  "last_rounds rs = (if 50 < length rs then drop (length rs - 50) rs else rs)"

definition append_round :: "string \<Rightarrow> string \<Rightarrow> string list \<Rightarrow> run_status \<Rightarrow> run_status" where
  "append_round d summary msgs s =
     s\<lparr>rs_rounds := last_rounds (rs_rounds s @
        [\<lparr>rd_index = rs_round s, rd_decision = d, rd_summary = clip summary, rd_messages = msgs,
          rd_execution = rs_execution s, rd_audit = rs_audit s\<rparr>])\<rparr>"

definition advance_round :: "run_status \<Rightarrow> run_status" where
  "advance_round s =
     s\<lparr>rs_consumed := rs_round s, rs_round := rs_round s + 1, rs_execution := None, rs_audit := None,
       rs_decision := None, rs_manager := [], rs_human := [], rs_human_reason := [],
       rs_phase := ''Receiving''\<rparr>"

definition wait_after_failures :: "run_status \<Rightarrow> run_status" where
  "wait_after_failures s =
     (if 3 \<le> rs_failures s then s\<lparr>rs_phase := ''WaitingForHuman'', rs_human_reason := ''failure''\<rparr> else s)"

definition failed_round :: "string \<Rightarrow> run_status \<Rightarrow> run_status" where
  "failed_round reason s =
     (let s1 = advance_round (append_round ''failure'' reason [rs_manager s] s)
      in wait_after_failures (s1\<lparr>rs_failures := rs_failures s + 1, rs_summary := clip reason\<rparr>))"

definition can_finish :: "run_status \<Rightarrow> bool" where
  "can_finish s =
     (case rs_last_audit s of
        None \<Rightarrow> False
      | Some a \<Rightarrow> ae_message a \<noteq> [] \<and> lr_uid (ae_execution a) \<noteq> [] \<and> ae_version a = rs_version s
          \<and> vd_complete (ae_verdict a) \<and> vd_integrity (ae_verdict a) = ''clean''
          \<and> vd_evidence (ae_verdict a) \<noteq> [])"

text \<open>The status of a Run that was just created.\<close>

definition no_status :: run_status where
  "no_status =
     \<lparr>rs_through = [], rs_inputs = [], rs_finished = None, rs_phase = [], rs_round = 0, rs_budget = 0,
      rs_failures = 0, rs_contract = [], rs_version = 0, rs_task_state = [], rs_guidance = [],
      rs_decision = None, rs_execution = None, rs_audit = None, rs_last_audit = None, rs_human = [],
      rs_human_reason = [], rs_manager = [], rs_final = [], rs_summary = [], rs_consumed = 0,
      rs_rounds = [], rs_conditions = []\<rparr>"

definition first_status :: "lh_config \<Rightarrow> run_spec \<Rightarrow> run_status \<Rightarrow> run_status" where
  "first_status cfg spec s =
     s\<lparr>rs_phase := ''Receiving'', rs_round := 1,
       rs_budget := (if rsp_max_rounds spec \<le> 0 then lf_max_rounds cfg else rsp_max_rounds spec),
       rs_contract := rsp_goal spec, rs_version := 1, rs_through := rsp_input spec,
       rs_inputs := [rsp_input spec]\<rparr>"

section \<open>Planning\<close>

text \<open>\<^verbatim>\<open>history\<close>: the newest context messages within a bound, oldest first.\<close>

definition clipped_text :: "int \<Rightarrow> string \<Rightarrow> string" where
  "clipped_text remaining t =
     (if remaining < int (length t)
      then to_valid_utf8 (take (nat remaining) t) @ '' [context truncated]'' else t)"

fun history_lines :: "env \<Rightarrow> lh_world \<Rightarrow> int \<Rightarrow> message_ref list \<Rightarrow> string list result" where
  "history_lines e w remaining [] = Inr []"
| "history_lines e w remaining (r # rs) =
     bindR (lw_message w (mr_conv r) (mr_message r)) (\<lambda>m.
       let text = clipped_text remaining (message_text e m);
           line = ''['' @ cm_id m @ '' '' @ ar_kind (cm_source m) @ ''/'' @ ar_key (cm_source m) @ ''] '' @ text;
           left = remaining - int (length text)
       in if left \<le> 0 then Inr [line] else bindR (history_lines e w left rs) (\<lambda>ls. Inr (line # ls)))"

definition history :: "env \<Rightarrow> lh_world \<Rightarrow> run_spec \<Rightarrow> string result" where
  "history e w spec =
     bindR (history_lines e w 16000 (rev (rsp_context spec))) (\<lambda>ls. Inr (join_with newline (rev ls)))"

definition decision_bounded :: "decision \<Rightarrow> bool" where
  "decision_bounded d \<longleftrightarrow> length (dc_contract d) \<le> 16000 \<and> length (dc_plan d) \<le> 16000
     \<and> length (dc_question d) \<le> 4000 \<and> length (dc_choices d) \<le> 20"

definition adopt_contract :: "decision \<Rightarrow> run_status \<Rightarrow> run_status" where
  "adopt_contract d s =
     (let s1 = (if dc_contract d \<noteq> [] \<and> dc_contract d \<noteq> rs_contract s
                then s\<lparr>rs_contract := dc_contract d, rs_version := rs_version s + 1\<rparr> else s)
      in s1\<lparr>rs_decision := Some d\<rparr>)"

definition new_execution :: "lh_run \<Rightarrow> run_status \<Rightarrow> decision \<Rightarrow> lh_execution" where
  "new_execution r s d =
     \<lparr>xn_name = ln_name r @ ''-r'' @ int_str (rs_round s), xn_uid = [], xn_deleting = False,
      xn_spec = \<lparr>xs_run = run_ref r, xs_round = rs_round s, xs_version = rs_version s,
                 xs_contract = rs_contract s, xs_plan = dc_plan d,
                 xs_reports = (case rs_last_audit s of None \<Rightarrow> [] | Some a \<Rightarrow> [ae_message a])\<rparr>,
      xn_status = \<lparr>ws_phase = [], ws_call = [], ws_message = [], ws_error = []\<rparr>\<rparr>"

definition issued_execution :: "lh_world \<Rightarrow> lh_execution \<Rightarrow> lh_ref result" where
  "issued_execution w x =
     (case lw_new_execution w x of
        Inr ref \<Rightarrow> Inr ref
      | Inl er \<Rightarrow>
          if er \<noteq> KubeExists then Inl er
          else bindR (lw_execution w (xn_name x)) (\<lambda>old.
            if xn_spec old \<noteq> xn_spec x then Inl (ErrText ''execution identity conflicts with issued inputs'')
            else Inr \<lparr>lr_name = xn_name old, lr_uid = xn_uid old\<rparr>))"

definition human_choices :: "decision \<Rightarrow> human_choice list option" where
  "human_choices d =
     (if dc_choices d = [] then None
      else Some (map (\<lambda>c. \<lparr>ch_value = lc_value c, ch_label = lc_label c, ch_description = []\<rparr>) (dc_choices d)))"

definition ask_request :: "lh_config \<Rightarrow> lh_run \<Rightarrow> decision \<Rightarrow> string \<Rightarrow> string \<Rightarrow> human_request" where
  "ask_request cfg r d key title =
     \<lparr>hq_conv = lr_name (rsp_conv (ln_spec r)), hq_actor = lh_actor r ActorManager, hq_target = lh_recipient r,
      hq_reply_to = rsp_input (ln_spec r), hq_effect = key, hq_type = ''ask'', hq_title = title,
      hq_prompt = dc_question d, hq_timeout = lf_human_timeout cfg, hq_choices = human_choices d,
      hq_allow_other = dc_allow_other d, hq_confirm = [], hq_decline = []\<rparr>"

definition decide ::
    "lh_config \<Rightarrow> lh_world \<Rightarrow> lh_run \<Rightarrow> string \<Rightarrow> decision \<Rightarrow> run_status \<Rightarrow> run_status outcome" where
  "decide cfg w r msg d s =
     (let fail = (\<lambda>reason. save_status w (failed_round reason s))
      in if dc_next d = ''cli'' then
           (if dc_plan d = [] then fail ''Executor plan is empty.''
            else on_ok (issued_execution w (new_execution r s d)) (\<lambda>ref.
              save_status w (s\<lparr>rs_execution := Some ref, rs_last_audit := None, rs_phase := ''Executing''\<rparr>)))
         else if dc_next d = ''ask'' \<or> dc_next d = ''blocked'' then
           (case human_validate (ask_request cfg r d ''validate'' ''LongHorizon'') of
              Inl er \<Rightarrow> fail (''Invalid human question: '' @ lw_err_text w er)
            | Inr _ \<Rightarrow> save_status w (s\<lparr>rs_phase := ''WaitingForHuman'', rs_human_reason := ''ask''\<rparr>))
         else if dc_next d = ''done'' then
           (if \<not> can_finish s
            then fail ''Completion rejected: no current, clean, complete audit evidence.''
            else save_status w ((append_round ''done'' (dc_summary d) [msg] s)
                   \<lparr>rs_phase := ''Succeeded'', rs_summary := dc_summary d\<rparr>))
         else fail (''Unsupported Manager decision: '' @ dc_next d))"

definition plan_round ::
    "env \<Rightarrow> lh_config \<Rightarrow> lh_world \<Rightarrow> lh_run \<Rightarrow> run_status outcome" where
  "plan_round e cfg w r =
     (let s = ln_status r; spec = ln_spec r
      in on_ok (history e w spec) (\<lambda>hist.
         on_ok (invoke w r (rs_round s) ActorManager (lf_manager cfg)
                  (ManagerPrompt hist (rsp_goal spec) (rs_contract s) (rs_task_state s) (rs_guidance s) (rs_last_audit s))
                  (lf_manager_timeout cfg)) (\<lambda>iv.
         if \<not> iv_done iv then waiting
         else
           let s1 = s\<lparr>rs_manager := iv_message iv\<rparr>; fail = (\<lambda>reason. save_status w (failed_round reason s1))
           in if rp_error (iv_report iv) \<noteq> [] then fail (rp_error (iv_report iv))
              else case decode_decision (lw_parse w) (rp_text (iv_report iv)) of
                Inl er \<Rightarrow> fail (''Invalid Manager decision: '' @ lw_err_text w er)
              | Inr d \<Rightarrow>
                  if \<not> decision_bounded d then fail ''Manager decision exceeds its input bounds.''
                  else decide cfg w r (iv_message iv) d (adopt_contract d s1))))"

section \<open>Observing the execution and the audit\<close>

definition new_audit :: "lh_run \<Rightarrow> lh_execution \<Rightarrow> lh_audit" where
  "new_audit r x =
     \<lparr>an_name = xn_name x, an_uid = [], an_deleting = False,
      an_spec = \<lparr>as_run = run_ref r, as_round = rs_round (ln_status r), as_version = xs_version (xn_spec x),
                 as_contract = xs_contract (xn_spec x),
                 as_execution = \<lparr>lr_name = xn_name x, lr_uid = xn_uid x\<rparr>,
                 as_execution_message = ws_message (xn_status x)\<rparr>,
      an_status = \<lparr>ws_phase = [], ws_call = [], ws_message = [], ws_error = [], au_verdict = None\<rparr>\<rparr>"

definition issued_audit :: "lh_world \<Rightarrow> lh_audit \<Rightarrow> lh_ref result" where
  "issued_audit w x =
     (case lw_new_audit w x of
        Inr ref \<Rightarrow> Inr ref
      | Inl er \<Rightarrow>
          if er \<noteq> KubeExists then Inl er
          else bindR (lw_audit w (an_name x)) (\<lambda>old.
            if an_spec old \<noteq> an_spec x then Inl (ErrText ''audit identity conflicts with issued inputs'')
            else Inr \<lparr>lr_name = an_name old, lr_uid = an_uid old\<rparr>))"

definition observe_execution :: "lh_world \<Rightarrow> lh_run \<Rightarrow> run_status outcome" where
  "observe_execution w r =
     (let s = ln_status r in
      case rs_execution s of
        None \<Rightarrow> Failure (ErrText ''Run has no execution reference'')
      | Some ref \<Rightarrow>
          on_found (lw_execution w (lr_name ref)) (\<lambda>x.
            if xn_uid x \<noteq> lr_uid ref \<or> xn_deleting x then Unchanged
            else if ws_message (xn_status x) = [] then waiting
            else on_ok (read_report (lw_message w (rsp_workspace (ln_spec r)) (ws_message (xn_status x)))) (\<lambda>_.
                 on_ok (issued_audit w (new_audit r x)) (\<lambda>ref.
                   save_status w (s\<lparr>rs_audit := Some ref, rs_phase := ''Auditing''\<rparr>)))))"

definition accept_audit :: "lh_audit \<Rightarrow> verdict \<Rightarrow> report \<Rightarrow> run_status \<Rightarrow> run_status" where
  "accept_audit a v execution s =
     (let sp = an_spec a;
          s1 = s\<lparr>rs_last_audit := Some \<lparr>ae_execution = as_execution sp, ae_version = as_version sp,
                                       ae_message = ws_message (an_status a), ae_verdict = v\<rparr>,
                 rs_task_state := vd_task_state v,
                 rs_failures := (if rp_error execution \<noteq> [] then rs_failures s + 1 else 0)\<rparr>
      in wait_after_failures (advance_round (append_round ''cli'' (vd_feedback v)
           [rs_manager s, as_execution_message sp, ws_message (an_status a)] s1)))"

definition observe_audit :: "lh_world \<Rightarrow> lh_run \<Rightarrow> run_status outcome" where
  "observe_audit w r =
     (let s = ln_status r; ws = rsp_workspace (ln_spec r) in
      case rs_audit s of
        None \<Rightarrow> Failure (ErrText ''Run has no audit reference'')
      | Some ref \<Rightarrow>
          on_found (lw_audit w (lr_name ref)) (\<lambda>a.
            if an_uid a \<noteq> lr_uid ref \<or> an_deleting a then Unchanged
            else if ws_message (an_status a) = [] then waiting
            else if as_run (an_spec a) \<noteq> run_ref r \<or> rs_execution s \<noteq> Some (as_execution (an_spec a))
                    \<or> as_version (an_spec a) \<noteq> rs_version s
            then save_status w (failed_round ''Stale audit references.'' s)
            else on_ok (read_report (lw_message w ws (ws_message (an_status a)))) (\<lambda>_.
              case au_verdict (an_status a) of
                None \<Rightarrow> save_status w (failed_round (''Audit failed: '' @ ws_error (an_status a)) s)
              | Some v \<Rightarrow>
                  if ws_error (an_status a) \<noteq> []
                  then save_status w (failed_round (''Audit failed: '' @ ws_error (an_status a)) s)
                  else on_ok (read_report (lw_message w ws (as_execution_message (an_spec a)))) (\<lambda>x.
                       save_status w (accept_audit a v x s)))))"

section \<open>Human decisions\<close>

definition confirm_request :: "lh_config \<Rightarrow> lh_run \<Rightarrow> string \<Rightarrow> human_request" where
  "confirm_request cfg r key =
     \<lparr>hq_conv = lr_name (rsp_conv (ln_spec r)), hq_actor = lh_actor r ActorManager, hq_target = lh_recipient r,
      hq_reply_to = rsp_input (ln_spec r), hq_effect = key, hq_type = ''confirm'',
      hq_title = ''Continue LongHorizon?'',
      hq_prompt = (if rs_human_reason (ln_status r) = ''budget''
         then ''The '' @ int_str (rs_budget (ln_status r)) @ ''-round budget is exhausted. Add 25 rounds within this Run's existing deadline?''
         else ''Several attempts failed. Continue trying within this Run?''),
      hq_timeout = lf_human_timeout cfg, hq_choices = None, hq_allow_other = False,
      hq_confirm = ''Continue'', hq_decline = ''Finish here''\<rparr>"

definition human_question_for :: "lh_config \<Rightarrow> lh_run \<Rightarrow> human_request result" where
  "human_question_for cfg r =
     (let s = ln_status r; key = step_key r (rs_round s) (''human-'' @ rs_human_reason s)
      in if rs_human_reason s = ''ask'' then
           (case rs_decision s of
              None \<Rightarrow> Inl (ErrText ''missing human decision'')
            | Some d \<Rightarrow> Inr (ask_request cfg r d key ''LongHorizon needs your input''))
         else Inr (confirm_request cfg r key))"

definition answer_text :: "run_status \<Rightarrow> string \<Rightarrow> string" where
  "answer_text s value =
     (case rs_decision s of
        None \<Rightarrow> value
      | Some d \<Rightarrow>
          ''Question: '' @ dc_question d @ newline @ ''Answer: '' @ value @
          (case find (\<lambda>c. lc_value c = value) (dc_choices d) of
             None \<Rightarrow> [] | Some c \<Rightarrow> '' ('' @ lc_label c @ '')''))"

definition resumed :: "run_status \<Rightarrow> run_status" where
  "resumed s = s\<lparr>rs_human := [], rs_human_reason := [], rs_phase := ''Receiving''\<rparr>"

definition accept_answer :: "human_result \<Rightarrow> run_status \<Rightarrow> run_status" where
  "accept_answer res s =
     (let g = (if rs_guidance s \<noteq> [] then rs_guidance s @ newline else []) @ answer_text s (hs_value res)
      in if 16000 < length g then
           (append_round ''ask'' ''Human guidance exceeds this Run's input limit.'' [rs_human s] s)
             \<lparr>rs_phase := ''Stopped'',
              rs_summary := ''Human guidance exceeds this Run's input limit. Continue in a new Run using the saved messages.''\<rparr>
         else resumed (advance_round (append_round ''ask'' (clip (hs_value res))
                ([rs_manager s, rs_human s] @ (case hs_reply res of None \<Rightarrow> [] | Some m \<Rightarrow> [cm_id m]))
                (s\<lparr>rs_guidance := g, rs_last_audit := None\<rparr>))))"

definition human_answered :: "human_result \<Rightarrow> run_status \<Rightarrow> run_status" where
  "human_answered res s =
     (if \<not> (hs_status res = HumanSuccess \<and> (rs_human_reason s = ''ask'' \<or> hs_value res = ''accepted'')) then
        (append_round ''human'' (''Human interaction ended: '' @ hs_status res @ '' '' @ hs_value res) [rs_human s] s)
          \<lparr>rs_phase := ''Stopped'',
           rs_summary := ''Stopped after human interaction: '' @ hs_status res @ '' '' @ hs_value res\<rparr>
      else if rs_human_reason s = ''ask'' then accept_answer res s
      else if rs_human_reason s = ''budget'' then resumed (s\<lparr>rs_budget := min 1000 (rs_budget s + 25)\<rparr>)
      else if rs_human_reason s = ''failure'' then resumed (s\<lparr>rs_failures := 0\<rparr>)
      else resumed s)"

definition await_human :: "lh_config \<Rightarrow> lh_world \<Rightarrow> lh_run \<Rightarrow> run_status outcome" where
  "await_human cfg w r =
     (let s = ln_status r in
      if rs_human s = [] then
        on_ok (human_question_for cfg r) (\<lambda>q.
        on_ok (lw_ask w q) (\<lambda>i. save_status w (s\<lparr>rs_human := i\<rparr>)))
      else on_ok (lw_human w (rs_human s)) (\<lambda>res.
             if hs_status res = HumanPending then waiting else save_status w (human_answered res s)))"

section \<open>Receiving and finishing\<close>

fun take_inputs :: "env \<Rightarrow> string \<Rightarrow> cmessage list \<Rightarrow> run_status \<Rightarrow> run_status" where
  "take_inputs e user [] s = s"
| "take_inputs e user (m # ms) s =
     (if ar_kind (cm_source m) = ActorKindUser \<and> \<not> is_human_reply (cm_content m) then
        let text = message_text e m
        in if ar_key (cm_source m) \<noteq> user \<or> 100 \<le> length (rs_inputs s)
              \<or> 16000 < length (rs_guidance s) + length text + length (cm_id m) + 8
           then s
           else take_inputs e user ms
             (s\<lparr>rs_guidance := rs_guidance s @ newline @ ''['' @ cm_id m @ ''] '' @ text,
                rs_inputs := rs_inputs s @ [cm_id m], rs_version := rs_version s + 1,
                rs_last_audit := None, rs_through := cm_id m\<rparr>)
      else take_inputs e user ms (s\<lparr>rs_through := cm_id m\<rparr>))"

definition receive_inputs :: "env \<Rightarrow> lh_world \<Rightarrow> lh_run \<Rightarrow> run_status outcome" where
  "receive_inputs e w r =
     (let s = ln_status r in
      if length (rs_inputs s) < 100 then
        on_ok (lw_poll w (rs_through s) 32) (\<lambda>p.
          save_status w ((take_inputs e (rsp_user (ln_spec r)) (po_messages p) s)\<lparr>rs_phase := ''Planning''\<rparr>))
      else save_status w (s\<lparr>rs_phase := ''Planning''\<rparr>))"

definition finish_lh :: "lh_config \<Rightarrow> lh_world \<Rightarrow> lh_run \<Rightarrow> run_status outcome" where
  "finish_lh cfg w r =
     (let s = ln_status r in
      case rs_finished s of
        Some at \<Rightarrow>
          (let remaining = at + lf_retention cfg - lw_now w
           in if 0 < remaining then Requeue remaining
              else case lw_delete w (ln_uid r) of
                Inl er \<Rightarrow> not_found_ok er
              | Inr _ \<Rightarrow> Removed)
      | None \<Rightarrow>
          if rs_final s = [] then
            on_ok (lw_speak w
              \<lparr>sr_status = [], sr_key = ln_uid r @ ''/final'', sr_actor = lh_actor r ActorManager,
               sr_target = lh_recipient r, sr_reply_to = rsp_input (ln_spec r),
               sr_content = report_content \<lparr>rp_text = rs_summary s, rp_error = []\<rparr>
                 (''LongHorizon '' @ [CHR 0xC2, CHR 0xB7] @ '' '' @ rs_phase s) ''manager''\<rparr>)
              (\<lambda>i. save_status w (s\<lparr>rs_final := i\<rparr>))
          else save_status w (s\<lparr>rs_finished := Some (lw_now w)\<rparr>))"

text \<open>Children are collected once the Manager has consumed their round.\<close>

definition collectible :: "lh_run \<Rightarrow> lh_ref \<Rightarrow> int \<Rightarrow> string \<Rightarrow> bool" where
  "collectible r owner round msg \<longleftrightarrow>
     owner = run_ref r \<and> round \<le> rs_consumed (ln_status r) \<and> msg \<noteq> []"

definition cleanup_targets :: "lh_run \<Rightarrow> lh_execution list \<Rightarrow> lh_audit list \<Rightarrow> string list" where
  "cleanup_targets r xs as =
     map xn_uid (filter (\<lambda>x. collectible r (xs_run (xn_spec x)) (xs_round (xn_spec x)) (ws_message (xn_status x))) xs)
     @ map an_uid (filter (\<lambda>a. collectible r (as_run (an_spec a)) (as_round (an_spec a)) (ws_message (an_status a))) as)"

fun delete_all :: "lh_world \<Rightarrow> string list \<Rightarrow> string list \<times> unit result" where
  "delete_all w [] = ([], Inr ())"
| "delete_all w (u # us) =
     (case (case lw_delete w u of Inl er \<Rightarrow> ignore_not_found er | Inr x \<Rightarrow> Inr x) of
        Inl er \<Rightarrow> ([], Inl er)
      | Inr _ \<Rightarrow> (let (ds, r) = delete_all w us in (u # ds, r)))"

definition cleanup :: "lh_world \<Rightarrow> lh_run \<Rightarrow> string list \<times> unit result" where
  "cleanup w r =
     (if rs_consumed (ln_status r) = 0 then ([], Inr ())
      else case bindR (lw_executions w (ln_name r)) (\<lambda>xs.
                 bindR (lw_audits w (ln_name r)) (\<lambda>as. Inr (cleanup_targets r xs as))) of
        Inl er \<Rightarrow> ([], Inl er)
      | Inr us \<Rightarrow> delete_all w us)"

section \<open>The Manager\<close>

definition run_phase :: "env \<Rightarrow> lh_config \<Rightarrow> lh_world \<Rightarrow> lh_run \<Rightarrow> run_status outcome" where
  "run_phase e cfg w r =
     (let s = ln_status r in
      if lh_terminal (rs_phase s) then finish_lh cfg w r
      else if rs_phase s = ''Receiving'' then receive_inputs e w r
      else if rs_phase s = ''WaitingForHuman'' then await_human cfg w r
      else if rs_phase s = ''Executing'' then observe_execution w r
      else if rs_phase s = ''Auditing'' then observe_audit w r
      else if rs_phase s = ''Planning'' then
        (if rs_budget s < rs_round s then
           (if 1000 \<le> rs_budget s
            then save_status w (s\<lparr>rs_phase := ''Stopped'', rs_summary := ''Maximum round budget reached.''\<rparr>)
            else save_status w (s\<lparr>rs_phase := ''WaitingForHuman'', rs_human_reason := ''budget''\<rparr>))
         else plan_round e cfg w r)
      else Failure (ErrText ''unknown Run phase''))"

definition manage :: "env \<Rightarrow> lh_config \<Rightarrow> lh_world \<Rightarrow> lh_run \<Rightarrow> run_status outcome" where
  "manage e cfg w r =
     (let s = ln_status r in
      if rs_phase s = [] then save_status w (first_status cfg (ln_spec r) s)
      else on_ok (if rs_through s = [] then Inr () else lw_commit w (rs_through s)) (\<lambda>_.
           if \<not> lh_terminal (rs_phase s) \<and> overdue (lw_now w) (rsp_deadline (ln_spec r))
           then save_status w (s\<lparr>rs_phase := ''Failed'', rs_summary := ''LongHorizon Run deadline exceeded.''\<rparr>)
           else run_phase e cfg w r))"

text \<open>\<^verbatim>\<open>Manager\<close>: the identities it deleted and what became of the Run.\<close>

definition manager :: "env \<Rightarrow> lh_config \<Rightarrow> lh_world \<Rightarrow> string \<Rightarrow> string list \<times> run_status outcome" where
  "manager e cfg w name =
     (case lw_run w name of
        Inl er \<Rightarrow> ([], not_found_ok er)
      | Inr r \<Rightarrow>
          if ln_deleting r then ([], Unchanged)
          else (case is_live w (rsp_conv (ln_spec r)) None of
                  Inl er \<Rightarrow> ([], Failure er)
                | Inr alive \<Rightarrow>
                    if \<not> alive then ([], Unchanged)
                    else (let (deleted, done) = cleanup w r
                          in (deleted, on_ok done (\<lambda>_. manage e cfg w r)))))"

end
