(* ===== verification/LhWork.thy ===== *)
theory LhWork
  imports LongHorizon
begin

text \<open>
  The other reconcilers of the LongHorizon operator: \<^verbatim>\<open>Executor\<close> and \<^verbatim>\<open>Auditor\<close> of
  \<^verbatim>\<open>work.go\<close>, which run one role call and seal its outcome in the status of their resource, and
  \<^verbatim>\<open>Ingress\<close> of \<^verbatim>\<open>controller.go\<close>, which opens a Run for an input nobody owns.
\<close>

section \<open>Work\<close>

text \<open>The end of a reconcile of work: what was written, and whether it is queued again.\<close>

datatype 's worked = WorkFailed err | Worked "'s option" bool

definition work_not_found :: "err \<Rightarrow> 's worked" where
  "work_not_found er = (if er = KubeNotFound then Worked None False else WorkFailed er)"

definition work_ok :: "'a result \<Rightarrow> ('a \<Rightarrow> 's worked) \<Rightarrow> 's worked" where
  "work_ok r f = (case r of Inl er \<Rightarrow> WorkFailed er | Inr x \<Rightarrow> f x)"

definition work_found :: "'a result \<Rightarrow> ('a \<Rightarrow> 's worked) \<Rightarrow> 's worked" where
  "work_found r f = (case r of Inl er \<Rightarrow> work_not_found er | Inr x \<Rightarrow> f x)"

definition patch_work :: "unit result \<Rightarrow> 's \<Rightarrow> bool \<Rightarrow> 's worked" where
  "patch_work patched s again = work_found patched (\<lambda>_. Worked (Some s) again)"

fun report_texts :: "lh_world \<Rightarrow> lh_run \<Rightarrow> string list \<Rightarrow> string result" where
  "report_texts w r [] = Inr []"
| "report_texts w r (i # is) =
     bindR (read_report (lw_message w (rsp_workspace (ln_spec r)) i)) (\<lambda>x.
     bindR (report_texts w r is) (\<lambda>rest. Inr (newline @ rp_text x @ rest)))"

definition executed :: "invocation \<Rightarrow> work_status \<Rightarrow> work_status" where
  "executed iv s =
     (let s1 = s\<lparr>ws_call := (if iv_call iv \<noteq> [] then iv_call iv else ws_call s), ws_phase := ''Running''\<rparr>
      in if iv_done iv then
           s1\<lparr>ws_message := iv_message iv,
              ws_phase := (if rp_error (iv_report iv) \<noteq> [] then ''Failed'' else ''Completed''),
              ws_error := clip (rp_error (iv_report iv))\<rparr>
         else s1)"

definition executor :: "lh_config \<Rightarrow> lh_world \<Rightarrow> string \<Rightarrow> work_status worked" where
  "executor cfg w name =
     work_found (lw_execution w name) (\<lambda>x.
       if xn_deleting x \<or> ws_message (xn_status x) \<noteq> [] then Worked None False
       else work_found (lw_run w (lr_name (xs_run (xn_spec x)))) (\<lambda>r.
            work_ok (is_live w (rsp_conv (ln_spec r)) (Some (xs_run (xn_spec x)))) (\<lambda>alive.
              if \<not> alive then Worked None False
              else work_ok (report_texts w r (xs_reports (xn_spec x))) (\<lambda>reports.
                   work_ok (invoke w r (xs_round (xn_spec x)) ActorExecutor (lf_executor cfg)
                       (ExecutorPrompt (xs_contract (xn_spec x)) (xs_plan (xn_spec x)) reports)
                       (lf_executor_timeout cfg)) (\<lambda>iv.
                     let s = executed iv (xn_status x)
                     in if s = xn_status x then Worked None (\<not> iv_done iv)
                        else patch_work (lw_patch_execution w s) s (\<not> iv_done iv))))))"

text \<open>A verdict is sealed only when it is well formed; completion needs clean evidence.\<close>

definition verdict_fault :: "verdict \<Rightarrow> string option" where
  "verdict_fault v =
     (if vd_integrity v \<notin> {''clean'', ''violated'', ''unknown''} then Some ''invalid audit integrity''
      else if vd_complete v \<and> (vd_evidence v = [] \<or> vd_integrity v \<noteq> ''clean'')
      then Some ''completion requires clean integrity and independent evidence''
      else None)"

definition clipped_verdict :: "verdict \<Rightarrow> verdict" where
  "clipped_verdict v =
     v\<lparr>vd_task_state := clip (vd_task_state v), vd_evidence := clip (vd_evidence v), vd_feedback := clip (vd_feedback v)\<rparr>"

definition judged :: "lh_world \<Rightarrow> report \<Rightarrow> string \<times> verdict option" where
  "judged w rep =
     (case decode_verdict (lw_parse w) (rp_text rep) of
        Inl er \<Rightarrow> (clip (''invalid audit: '' @ lw_err_text w er), None)
      | Inr v \<Rightarrow>
          (case verdict_fault v of
             Some fault \<Rightarrow> (fault, None)
           | None \<Rightarrow> (clip (rp_error rep), Some (clipped_verdict v))))"

definition audited :: "lh_world \<Rightarrow> invocation \<Rightarrow> audit_status \<Rightarrow> audit_status" where
  "audited w iv s =
     (let s1 = s\<lparr>ws_call := (if iv_call iv \<noteq> [] then iv_call iv else ws_call s), ws_phase := ''Running''\<rparr>
      in if iv_done iv then
           (let (er, v) = judged w (iv_report iv); s2 = s1\<lparr>ws_message := iv_message iv, ws_error := er\<rparr>
            in if er \<noteq> [] then s2\<lparr>ws_phase := ''Failed'', au_verdict := None\<rparr>
               else s2\<lparr>ws_phase := ''Completed'', au_verdict := v\<rparr>)
         else s1)"

definition auditor :: "env \<Rightarrow> lh_config \<Rightarrow> lh_world \<Rightarrow> string \<Rightarrow> audit_status worked" where
  "auditor e cfg w name =
     work_found (lw_audit w name) (\<lambda>a.
       if an_deleting a \<or> ws_message (an_status a) \<noteq> [] then Worked None False
       else work_found (lw_run w (lr_name (as_run (an_spec a)))) (\<lambda>r.
            work_ok (is_live w (rsp_conv (ln_spec r)) (Some (as_run (an_spec a)))) (\<lambda>alive.
              if \<not> alive then Worked None False
              else work_ok (read_report (lw_message w (rsp_workspace (ln_spec r)) (as_execution_message (an_spec a)))) (\<lambda>x.
                   work_ok (history e w (ln_spec r)) (\<lambda>hist.
                   work_ok (invoke w r (as_round (an_spec a)) ActorAuditor (lf_auditor cfg)
                       (AuditorPrompt hist (rsp_goal (ln_spec r)) (rs_guidance (ln_status r))
                          (as_contract (an_spec a)) (rp_text x) (rp_error x))
                       (lf_auditor_timeout cfg)) (\<lambda>iv.
                     let s = audited w iv (an_status a)
                     in if iv_done iv \<or> ws_call s \<noteq> ws_call (an_status a) \<or> ws_phase s \<noteq> ws_phase (an_status a)
                        then patch_work (lw_patch_audit w s) s (\<not> iv_done iv)
                        else Worked None (\<not> iv_done iv)))))))"

section \<open>Intake\<close>

datatype intake = Idle | Later | IntakeFailed err | Skipped string | Opened lh_run

definition intake_ok :: "'a result \<Rightarrow> ('a \<Rightarrow> intake) \<Rightarrow> intake" where
  "intake_ok r f = (case r of Inl er \<Rightarrow> IntakeFailed er | Inr x \<Rightarrow> f x)"

text \<open>A Run that is being deleted or has not recorded its end owns the inputs of its conversation.\<close>

definition owns_input :: "lh_ref \<Rightarrow> lh_run \<Rightarrow> bool" where
  "owns_input conv r \<longleftrightarrow> rsp_conv (ln_spec r) = conv \<and> (ln_deleting r \<or> rs_finished (ln_status r) = None)"

definition prior_messages :: "lh_world \<Rightarrow> string \<Rightarrow> string \<Rightarrow> cmessage list result" where
  "prior_messages w conv before =
     bindR (lw_list w conv
         \<lparr>mq_ids = [], mq_before = before, mq_after = [], mq_order = ''desc'', mq_limit = 20,
          mq_statuses = [MessageStatusCompleted, MessageStatusFailed, MessageStatusCancelled, MessageStatusExpired]\<rparr>)
       (\<lambda>page. mapR (\<lambda>m. lw_message w conv (mi_id m)) (rev (mp_data page)))"

definition context_refs :: "string \<Rightarrow> cmessage list \<Rightarrow> message_ref list" where
  "context_refs input ms =
     (let refs = map (\<lambda>m. \<lparr>mr_conv = cm_conv m, mr_message = cm_id m\<rparr>)
            (filter (\<lambda>m. cm_id m \<noteq> input
               \<and> (ar_kind (cm_source m) = ActorKindUser \<or> (case report_from m of Inr _ \<Rightarrow> True | Inl _ \<Rightarrow> False))) ms)
      in if 20 < length refs then drop (length refs - 20) refs else refs)"

definition opened_run ::
    "lh_config \<Rightarrow> int \<Rightarrow> lh_ref \<Rightarrow> string \<Rightarrow> cmessage \<Rightarrow> string \<Rightarrow> cmessage list \<Rightarrow> lh_run" where
  "opened_run cfg now conv workspace m goal hist =
     \<lparr>ln_name = cm_id m, ln_uid = [], ln_deleting = False,
      ln_spec = \<lparr>rsp_context = context_refs (cm_id m) hist, rsp_conv = conv, rsp_workspace = workspace,
        rsp_user = ar_key (cm_source m), rsp_deadline = Some (now + lf_run_timeout cfg),
        rsp_input = cm_id m, rsp_goal = goal, rsp_max_rounds = lf_max_rounds cfg\<rparr>,
      ln_status = no_status\<rparr>"

definition invalid_goal :: "cmessage \<Rightarrow> speak_request" where
  "invalid_goal m =
     \<lparr>sr_status = [], sr_key = cm_id m @ ''/invalid'', sr_actor = lh_consumer, sr_target = cm_source m,
      sr_reply_to = cm_id m,
      sr_content = report_content
        \<lparr>rp_text = ''Goal must contain 1'' @ [CHR 0xE2, CHR 0x80, CHR 0x93] @ ''16000 bytes of text.'', rp_error = []\<rparr>
        ''Invalid goal'' ''manager''\<rparr>"

definition skip_input :: "lh_world \<Rightarrow> string \<Rightarrow> intake" where
  "skip_input w through = intake_ok (lw_commit w through) (\<lambda>_. Skipped through)"

definition open_run ::
    "env \<Rightarrow> lh_config \<Rightarrow> lh_world \<Rightarrow> lh_ref \<Rightarrow> string \<Rightarrow> string \<Rightarrow> cmessage \<Rightarrow> intake" where
  "open_run e cfg w conv workspace through m =
     intake_ok (prior_messages w (lr_name conv) (cm_id m)) (\<lambda>hist.
       let goal = message_text e m
       in if goal = [] \<or> 16000 < length goal
          then intake_ok (lw_speak w (invalid_goal m)) (\<lambda>_. skip_input w through)
          else intake_ok (is_live w conv None) (\<lambda>alive.
            if \<not> alive then Idle
            else (let r = opened_run cfg (lw_now w) conv workspace m goal hist
                  in case lw_new_run w r of
                       Inl er \<Rightarrow> if er = KubeExists then Later else IntakeFailed er
                     | Inr _ \<Rightarrow> Opened r)))"

definition ingress :: "env \<Rightarrow> lh_config \<Rightarrow> lh_world \<Rightarrow> string \<Rightarrow> intake" where
  "ingress e cfg w name =
     (case lw_conv w name of
        Inl er \<Rightarrow> if er = KubeNotFound then Idle else IntakeFailed er
      | Inr c \<Rightarrow>
          if oc_deleting c then Idle
          else (let conv = \<lparr>lr_name = oc_name c, lr_uid = oc_uid c\<rparr> in
            intake_ok (lw_runs w (oc_name c)) (\<lambda>runs.
              if list_ex (owns_input conv) runs then Later
              else case participant_state_of (oc_object c) lh_consumer of
                None \<Rightarrow> Idle
              | Some p \<Rightarrow>
                  if ps_conv p = [] then Later
                  else intake_ok (lw_poll w [] 1) (\<lambda>polled.
                    case po_messages polled of
                      [] \<Rightarrow> Idle
                    | m # _ \<Rightarrow>
                        if ar_kind (cm_source m) \<noteq> ActorKindUser \<or> is_human_reply (cm_content m)
                        then skip_input w (po_position polled)
                        else open_run e cfg w conv (ps_conv p) (po_position polled) m))))"

end
