(* ===== verification/RunFacts.thy ===== *)
theory RunFacts
  imports Runs
begin

text \<open>
  Facts about harness runs: a leased write succeeds only under a live lease and on a run
  that has not finished; the revision of a run's output message is tied to the run's
  checkpoint; a finished run and its message stay as they are; an appended event can be
  retried; a run is created once per submission key.
\<close>

section \<open>The leased transaction\<close>

lemma fence_other_tables:
  assumes "fence cf now t s = Inr s'"
  shows "st_runs s' = st_runs s" "st_convs s' = st_convs s" "st_msgs s' = st_msgs s"
    "get_run i s' = get_run i s" "get_msg i s' = get_msg i s"
  using fence_store [OF assms] by (simp_all add: get_run_def get_msg_def)

lemma harness_transaction_ok:
  assumes "harness_transaction cf now t i body s = Inr x"
  obtains s1 run where "tk_resource t = harness_resource i" "fence cf now t s = Inr s1"
    "get_run i s = Some run" "get_run i s1 = Some run" "\<not> phase_terminal (hn_phase run)" "body run s1 = Inr x"
proof -
  from assms have res: "tk_resource t = harness_resource i"
    by (auto simp: harness_transaction_def split: if_splits)
  then obtain s1 run where s1: "fence cf now t s = Inr s1" and run: "get_run i s1 = Some run"
    and b: "(if phase_terminal (hn_phase run) then Inl ErrConflict else body run s1) = Inr x"
    using assms by (auto simp: harness_transaction_def bindR_eq_Inr)
  have "\<not> phase_terminal (hn_phase run)" "body run s1 = Inr x" using b by (auto split: if_splits)
  moreover have "get_run i s = Some run" using run fence_other_tables [OF s1] by simp
  ultimately show thesis using that res s1 run by blast
qed

lemma harness_transaction_terminal:
  assumes "get_run i s = Some run" and "phase_terminal (hn_phase run)" and "tk_resource t = harness_resource i"
    and "fence cf now t s = Inr s1"
  shows "harness_transaction cf now t i body s = Inl ErrConflict"
  using assms fence_other_tables [OF assms(4)]
  by (simp add: harness_transaction_def map_error_def)

section \<open>A run and its output message\<close>

definition run_message_ok :: "harness_run \<Rightarrow> message \<Rightarrow> bool" where
  "run_message_ok r m \<longleftrightarrow>
     (if phase_terminal (hn_phase r)
      then m_revision m = hn_checkpoint r + 3 \<and> m_status m = finish_status (hn_phase r)
      else m_revision m = hn_checkpoint r + 1 \<and> m_status m = MessageStatusStreaming)"

definition runs_ok :: "store \<Rightarrow> bool" where
  "runs_ok s \<longleftrightarrow> distinct (map hn_id (st_runs s)) \<and> distinct (map hn_message (st_runs s))
     \<and> (\<forall>r \<in> set (st_runs s). \<exists>m. get_msg (hn_message r) s = Some m \<and> run_message_ok r m)"

definition end_law :: "env \<Rightarrow> bool" where
  "end_law e \<longleftrightarrow> (\<forall>n. ev_seq (e_end e n) = n \<and> ev_op (e_end e n) = OpEnd)"

lemma finish_status_terminal: "phase_terminal p \<Longrightarrow> status_terminal (finish_status p)"
  by (cases p) (simp_all add: finish_status_def)

lemma runs_okD:
  assumes "runs_ok s" and "r \<in> set (st_runs s)"
  shows "\<exists>m. get_msg (hn_message r) s = Some m \<and> run_message_ok r m"
  using assms unfolding runs_ok_def by blast

lemma get_run_mem: "get_run i s = Some r \<Longrightarrow> r \<in> set (st_runs s) \<and> hn_id r = i"
  unfolding get_run_def using tbl_find_mem tbl_find_key by metis

lemma get_run_unique:
  "distinct (map hn_id (st_runs s)) \<Longrightarrow> r \<in> set (st_runs s) \<Longrightarrow> get_run (hn_id r) s = Some r"
  unfolding get_run_def by (rule tbl_find_distinct)

text \<open>Writes that leave the runs and their messages alone.\<close>

lemma runs_ok_frame:
  assumes "runs_ok s" and "st_runs s' = st_runs s"
    and "\<And>i. run_owned i s \<Longrightarrow> get_msg i s' = get_msg i s"
  shows "runs_ok s'"
proof -
  have "\<exists>m. get_msg (hn_message r) s' = Some m \<and> run_message_ok r m" if r: "r \<in> set (st_runs s)" for r
  proof -
    have "run_owned (hn_message r) s" using r unfolding run_owned_def by blast
    then show ?thesis using runs_okD [OF assms(1) r] assms(3) by simp
  qed
  then show ?thesis using assms(1,2) unfolding runs_ok_def by simp
qed

lemma owned_exists: "runs_ok s \<Longrightarrow> run_owned i s \<Longrightarrow> get_msg i s \<noteq> None"
  unfolding run_owned_def using runs_okD by fastforce

lemma save_message_runs_ok:
  assumes "runs_ok s" and run: "save_message e cf now m create s = Inr (m', s')"
    and "create \<or> \<not> run_owned (m_id m) s"
  shows "runs_ok s'"
proof (rule runs_ok_frame [OF assms(1) save_message_frame(3) [OF run]])
  fix i assume owned: "run_owned i s"
  have "i \<noteq> m_id m"
  proof
    assume i: "i = m_id m"
    then have "create" using owned assms(3) by blast
    then have "get_msg i s = None" using save_message_frame(6) [OF run] i by blast
    then show False using owned_exists [OF assms(1) owned] by simp
  qed
  then show "get_msg i s' = get_msg i s" by (rule save_message_frame(2) [OF run])
qed

text \<open>A write of one run and, at most, its own message.\<close>

lemma runs_ok_put_run:
  assumes ok: "runs_ok s" and r0: "get_run (hn_id r) s = Some r0"
    and msg: "hn_message r = hn_message r0"
    and s1: "st_runs s1 = st_runs s" "\<And>j. j \<noteq> hn_message r0 \<Longrightarrow> get_msg j s1 = get_msg j s"
    and m: "get_msg (hn_message r0) s1 = Some m" "run_message_ok r m"
  shows "runs_ok (put_run r s1)"
proof -
  note mem0 = get_run_mem [OF r0]
  have ids: "distinct (map hn_id (st_runs s))" "distinct (map hn_message (st_runs s))"
    using ok unfolding runs_ok_def by blast+
  have runs: "st_runs (put_run r s1) = tbl_put hn_id r (st_runs s)" by (simp add: put_run_def s1(1))
  have same: "x = r0" if "x \<in> set (st_runs s)" "hn_id x = hn_id r" for x
    using distinct_mapD [OF ids(1) that(1)] mem0 that(2) by metis
  have "map hn_message (tbl_put hn_id r (st_runs s)) = map hn_message (st_runs s)"
    using same msg by (auto simp: tbl_put_def)
  then have dist: "distinct (map hn_message (tbl_put hn_id r (st_runs s)))" using ids(2) by metis
  have "\<exists>m. get_msg (hn_message x) (put_run r s1) = Some m \<and> run_message_ok x m"
    if x: "x \<in> set (tbl_put hn_id r (st_runs s))" for x
  proof (cases "x = r")
    case True
    then show ?thesis using m msg by simp
  next
    case False
    then have xs: "x \<in> set (st_runs s)" "hn_id x \<noteq> hn_id r" using x by (auto simp: tbl_put_def split: if_splits)
    have "hn_message x \<noteq> hn_message r0"
      using distinct_mapD [OF ids(2) xs(1)] mem0 xs(2) by metis
    then show ?thesis using runs_okD [OF ok xs(1)] s1(2) by simp
  qed
  then show ?thesis using ids(1) dist unfolding runs_ok_def runs by simp
qed

section \<open>Each operation keeps the invariant\<close>

lemma project_next:
  assumes "project_event e cf now i ev status h s = Inr s'" and "get_msg i s = Some m"
    and "ev_seq ev = m_revision m + 1"
  shows "output_accepted now i ev status (cf_max cf) s s' m"
  using project_event_cases [OF assms(1)] assms(2,3) by auto

lemma create_harness_run_split:
  assumes run: "create_harness_run e cf now r admit s = Inr (run, s')"
  shows "\<exists>a conv. rr_actor r = Some a \<and> get_conv (rr_conv r) s = Some conv
     \<and> ((run \<in> set (st_runs s) \<and> hn_submission_key run = submission_key e r a
           \<and> hn_request_hash run = run_fingerprint e r \<and> s' = s)
       \<or> ((\<forall>x \<in> set (st_runs s). hn_submission_key x \<noteq> submission_key e r a)
           \<and> (\<exists>s1 m s3. ensure_participant_conversation e now conv (rr_recipient r) s = Inr s1
               \<and> run = (new_run e now r a (fresh_id e s1) (fresh_id e (draw s1)))
                         \<lparr>hn_created := now, hn_updated := now\<rparr>
               \<and> admit (hn_id run) = Inr ()
               \<and> save_message e cf now (run_message r a (hn_message run)) True (draw (draw s1)) = Inr (m, s3)
               \<and> insert_run now (new_run e now r a (fresh_id e s1) (fresh_id e (draw s1))) s3 = Inr s')))"
proof -
  obtain a where a: "rr_actor r = Some a" using run by (cases "rr_actor r") (simp_all add: create_harness_run_def)
  then obtain conv where conv: "get_conv (rr_conv r) s = Some conv"
    using run by (auto simp: create_harness_run_def bindR_eq_Inr)
  show ?thesis
  proof (cases "find (\<lambda>x. hn_submission_key x = submission_key e r a) (st_runs s)")
    case (Some old)
    then have "old \<in> set (st_runs s)" "hn_submission_key old = submission_key e r a"
      by (auto simp: find_Some_iff)
    then show ?thesis using run a conv Some by (auto simp: create_harness_run_def split: if_splits)
  next
    case None
    then have none: "\<forall>x \<in> set (st_runs s). hn_submission_key x \<noteq> submission_key e r a"
      by (simp add: find_None_iff)
    obtain s1 m s3 where "ensure_participant_conversation e now conv (rr_recipient r) s = Inr s1"
      "admit (fresh_id e s1) = Inr ()"
      "save_message e cf now (run_message r a (fresh_id e (draw s1))) True (draw (draw s1)) = Inr (m, s3)"
      "insert_run now (new_run e now r a (fresh_id e s1) (fresh_id e (draw s1))) s3 = Inr s'"
      "run = (new_run e now r a (fresh_id e s1) (fresh_id e (draw s1)))\<lparr>hn_created := now, hn_updated := now\<rparr>"
      using run a conv None
      by (auto simp: create_harness_run_def bindR_eq_Inr Let_def new_run_def)
    then show ?thesis using a conv none by (auto simp: new_run_def)
  qed
qed

lemma create_harness_run_ok:
  assumes ok: "runs_ok s" and run: "create_harness_run e cf now r admit s = Inr (run, s')"
  shows "runs_ok s'"
proof -
  from create_harness_run_split [OF run] consider "s' = s"
    | a conv s1 m s3 where "ensure_participant_conversation e now conv (rr_recipient r) s = Inr s1"
      "run = (new_run e now r a (fresh_id e s1) (fresh_id e (draw s1)))\<lparr>hn_created := now, hn_updated := now\<rparr>"
      "save_message e cf now (run_message r a (hn_message run)) True (draw (draw s1)) = Inr (m, s3)"
      "insert_run now (new_run e now r a (fresh_id e s1) (fresh_id e (draw s1))) s3 = Inr s'"
    by blast
  then show ?thesis
  proof cases
    case 1
    then show ?thesis using ok by simp
  next
    case (2 a conv s1 m s3)
    note E = ensure_participant_frame [OF 2(1)]
    have ok2: "runs_ok (draw (draw s1))"
      by (rule runs_ok_frame [OF ok]) (use E(1,3) in \<open>simp_all add: get_msg_def\<close>)
    have ok3: "runs_ok s3" by (rule save_message_runs_ok [OF ok2 2(3)]) simp
    let ?msg = "run_message r a (hn_message run)"
    obtain y where row: "get_msg (m_id ?msg) s3 = Some ((written_row now ?msg True)\<lparr>m_content := y\<rparr>)"
      using save_message_frame(1) [OF 2(3)] by blast
    let ?new = "new_run e now r a (fresh_id e s1) (fresh_id e (draw s1))"
    note F = insert_run_frame [OF 2(4)]
    have fresh: "\<forall>x \<in> set (st_runs s3). hn_id x \<noteq> hn_id ?new \<and> hn_message x \<noteq> hn_message ?new"
      using 2(4) by (auto simp: insert_run_def split: if_splits)
    have msg: "hn_message run = hn_message ?new" "m_id ?msg = hn_message ?new"
      using 2(2) by (simp_all add: run_message_def new_message_def)
    have new_ok: "run_message_ok (?new\<lparr>hn_created := now, hn_updated := now\<rparr>)
        ((written_row now ?msg True)\<lparr>m_content := y\<rparr>)"
      by (simp add: run_message_ok_def new_run_def written_row_def message_defaults_def run_message_def
          new_message_def)
    have get': "get_msg i s' = get_msg i s3" for i using F(1) by (simp add: get_msg_def)
    have "\<exists>m. get_msg (hn_message x) s' = Some m \<and> run_message_ok x m" if x: "x \<in> set (st_runs s')" for x
    proof (cases "x \<in> set (st_runs s3)")
      case True
      then show ?thesis using runs_okD [OF ok3 True] get' by simp
    next
      case False
      then have "x = ?new\<lparr>hn_created := now, hn_updated := now\<rparr>" using x F(6) by simp
      then show ?thesis using row msg new_ok get' by simp
    qed
    moreover have "distinct (map hn_id (st_runs s'))" "distinct (map hn_message (st_runs s'))"
      using ok3 fresh F(6) unfolding runs_ok_def by auto
    ultimately show ?thesis unfolding runs_ok_def by blast
  qed
qed

text \<open>Writes of the run row alone.\<close>

lemma touch_run_ok:
  assumes ok: "runs_ok s" and s1: "fence cf now t s = Inr s1" and r0: "get_run i s = Some r0"
    and r: "hn_id r = hn_id r0" "hn_message r = hn_message r0" "hn_checkpoint r = hn_checkpoint r0"
      "phase_terminal (hn_phase r) = phase_terminal (hn_phase r0)"
      "phase_terminal (hn_phase r0) \<Longrightarrow> hn_phase r = hn_phase r0"
  shows "runs_ok (touch_run now r s1)"
proof -
  note mem = get_run_mem [OF r0]
  obtain m where m: "get_msg (hn_message r0) s = Some m" "run_message_ok r0 m"
    using runs_okD [OF ok] mem by blast
  note F = fence_other_tables [OF s1]
  show ?thesis
    unfolding touch_run_def
  proof (rule runs_ok_put_run [OF ok _ _ F(1)])
    show "get_run (hn_id (r\<lparr>hn_updated := now\<rparr>)) s = Some r0" using r0 r(1) mem by simp
    show "get_msg (hn_message r0) s1 = Some m" using m F(5) by simp
    show "run_message_ok (r\<lparr>hn_updated := now\<rparr>) m"
      using m(2) r(3-5) by (auto simp: run_message_ok_def)
  qed (use r F(5) in simp_all)
qed

text \<open>The fields a row update may not change, and the phases it moves between.\<close>

definition row_update :: "harness_run \<Rightarrow> harness_run \<Rightarrow> bool" where
  "row_update r0 r \<longleftrightarrow> hn_id r = hn_id r0 \<and> hn_message r = hn_message r0 \<and> hn_checkpoint r = hn_checkpoint r0
     \<and> phase_terminal (hn_phase r) = phase_terminal (hn_phase r0)
     \<and> (phase_terminal (hn_phase r0) \<longrightarrow> hn_phase r = hn_phase r0)"

lemma leased_update_ok:
  assumes ok: "runs_ok s" and run: "harness_transaction cf now t i body s = Inr x"
    and body: "\<And>r0 s1. \<not> phase_terminal (hn_phase r0) \<Longrightarrow> body r0 s1 = Inr x \<Longrightarrow>
        \<exists>r. s' = touch_run now r s1 \<and> row_update r0 r"
  shows "runs_ok s'"
proof -
  obtain s1 r0 where s1: "fence cf now t s = Inr s1" and r0: "get_run i s = Some r0"
    and b: "\<not> phase_terminal (hn_phase r0)" "body r0 s1 = Inr x"
    by (rule harness_transaction_ok [OF run]) blast
  obtain r where r: "s' = touch_run now r s1" "row_update r0 r" using body [OF b] by blast
  show ?thesis
    unfolding r(1) by (rule touch_run_ok [OF ok s1 r0]) (use r(2) in \<open>auto simp: row_update_def\<close>)
qed

lemma start_harness_run_ok:
  assumes "runs_ok s" and "start_harness_run cf now t i s = Inr (run, s')"
  shows "runs_ok s'"
  using assms(2) unfolding start_harness_run_def
  by (rule leased_update_ok [OF assms(1)]) (auto simp: row_update_def)

lemma bind_harness_execution_ok:
  assumes "runs_ok s" and "bind_harness_execution cf now t i ref s = Inr s'"
  shows "runs_ok s'"
  using assms(2) unfolding bind_harness_execution_def
  by (rule leased_update_ok [OF assms(1)]) (auto simp: row_update_def split: if_splits)

lemma retry_harness_run_ok:
  assumes "runs_ok s" and "retry_harness_run cf now t i detail s = Inr s'"
  shows "runs_ok s'"
  using assms(2) unfolding retry_harness_run_def
  by (rule leased_update_ok [OF assms(1)]) (auto simp: row_update_def)

lemma cancel_harness_run_ok:
  assumes ok: "runs_ok s" and run: "cancel_harness_run now i s = Inr s'"
  shows "runs_ok s'"
proof -
  obtain r0 where r0: "get_run i s = Some r0"
    and out: "(if phase_terminal (hn_phase r0) then Inr s
         else Inr (touch_run now (r0\<lparr>hn_cancel := True, hn_next_attempt := now\<rparr>) s)) = (Inr s' :: store result)"
    using run by (auto simp: cancel_harness_run_def bindR_eq_Inr)
  note mem = get_run_mem [OF r0]
  obtain m where m: "get_msg (hn_message r0) s = Some m" "run_message_ok r0 m"
    using runs_okD [OF ok] mem by blast
  let ?r = "r0\<lparr>hn_cancel := True, hn_next_attempt := now, hn_updated := now\<rparr>"
  have "run_message_ok ?r m" using m(2) by (simp add: run_message_ok_def)
  then have "runs_ok (put_run ?r s)"
    using runs_ok_put_run [OF ok, of ?r r0 s m] r0 m(1) mem by simp
  then show ?thesis using out ok by (auto simp: touch_run_def split: if_splits)
qed

text \<open>An appended event, and the end of a run.\<close>

lemma append_harness_output_cases:
  assumes "append_harness_output e cf now t i index hash ev s = Inr s'"
  obtains s1 run where "tk_resource t = harness_resource i" "fence cf now t s = Inr s1" "get_run i s = Some run"
    "\<not> phase_terminal (hn_phase run)" "\<not> hn_cancel run"
    "(index \<le> hn_checkpoint run \<and> s' = s1) \<or>
     (index = hn_checkpoint run + 1 \<and> output_event_ok ev \<and>
      (\<exists>m s2. get_msg (hn_message run) s1 = Some m
        \<and> project_event e cf now (m_id m) (ev\<lparr>ev_seq := m_revision m + 1\<rparr>) [] True s1 = Inr s2
        \<and> s' = touch_run now (run\<lparr>hn_checkpoint := index, hn_replay_hash := hash\<rparr>) s2))"
  using assms unfolding append_harness_output_def
  by (rule harness_transaction_ok) (auto simp: bindR_eq_Inr split: if_splits)

lemma append_harness_output_ok:
  assumes ok: "runs_ok s" and run: "append_harness_output e cf now t i index hash ev s = Inr s'"
  shows "runs_ok s'"
proof -
  obtain s1 r0 where s1: "fence cf now t s = Inr s1" and r0: "get_run i s = Some r0"
    and live: "\<not> phase_terminal (hn_phase r0)"
    and cases: "(index \<le> hn_checkpoint r0 \<and> s' = s1) \<or>
     (index = hn_checkpoint r0 + 1 \<and> output_event_ok ev \<and>
      (\<exists>m s2. get_msg (hn_message r0) s1 = Some m
        \<and> project_event e cf now (m_id m) (ev\<lparr>ev_seq := m_revision m + 1\<rparr>) [] True s1 = Inr s2
        \<and> s' = touch_run now (r0\<lparr>hn_checkpoint := index, hn_replay_hash := hash\<rparr>) s2))"
    by (rule append_harness_output_cases [OF run]) blast
  note F = fence_other_tables [OF s1]
  note mem = get_run_mem [OF r0]
  show ?thesis
    using cases
  proof
    assume "index \<le> hn_checkpoint r0 \<and> s' = s1"
    then show ?thesis using runs_ok_frame [OF ok F(1)] F(5) by simp
  next
    assume "index = hn_checkpoint r0 + 1 \<and> output_event_ok ev \<and>
      (\<exists>m s2. get_msg (hn_message r0) s1 = Some m
        \<and> project_event e cf now (m_id m) (ev\<lparr>ev_seq := m_revision m + 1\<rparr>) [] True s1 = Inr s2
        \<and> s' = touch_run now (r0\<lparr>hn_checkpoint := index, hn_replay_hash := hash\<rparr>) s2)"
    then obtain m s2 where new: "index = hn_checkpoint r0 + 1" "output_event_ok ev"
      and m: "get_msg (hn_message r0) s1 = Some m"
      and pr: "project_event e cf now (m_id m) (ev\<lparr>ev_seq := m_revision m + 1\<rparr>) [] True s1 = Inr s2"
      and s': "s' = touch_run now (r0\<lparr>hn_checkpoint := index, hn_replay_hash := hash\<rparr>) s2"
      by blast
    have id: "m_id m = hn_message r0" using m by (rule msgs.find_key)
    from project_next [OF pr [unfolded id] m] obtain content where
      acc: "get_msg (hn_message r0) s2 = Some (accept_output now (ev\<lparr>ev_seq := m_revision m + 1\<rparr>) [] content m)"
        "\<And>j. j \<noteq> hn_message r0 \<Longrightarrow> get_msg j s2 = get_msg j s1" "st_runs s2 = st_runs s1"
      unfolding output_accepted_def other_tables_def by auto
    have mok: "run_message_ok r0 m"
      using runs_okD [OF ok] mem m F(5) by fastforce
    have "ev_op ev \<noteq> OpEnd" using new(2) by (auto simp: output_event_ok_def)
    then have "run_message_ok (r0\<lparr>hn_checkpoint := index, hn_replay_hash := hash, hn_updated := now\<rparr>)
        (accept_output now (ev\<lparr>ev_seq := m_revision m + 1\<rparr>) [] content m)"
      using mok live new(1) by (simp add: run_message_ok_def accept_output_def)
    then show ?thesis
      unfolding s' touch_run_def
      by (intro runs_ok_put_run [OF ok, where ?r0.0 = r0]) (use r0 mem acc F(1,5) in simp_all)
  qed
qed

lemma finish_outcome_terminal:
  "finish_outcome now run phase res detail = (p, r, d) \<Longrightarrow> phase_terminal phase \<Longrightarrow> phase_terminal p"
  by (auto simp: finish_outcome_def split: if_splits)

lemma finish_event_op:
  assumes "finish_event e q phase res detail = Inr ev"
  shows "ev_op ev = OpSet" "ev_seq ev = q" "ev_timestamp ev = None"
  using assms
  by (auto simp: finish_event_def set_event_def no_event_def bindR_eq_Inr split: if_splits option.splits)

lemma finish_harness_run_cases:
  assumes "finish_harness_run e cf now t i phase res detail s = Inr (evs, s')"
  obtains s1 run p r d m ev s2 s3 where
    "phase_terminal phase" "tk_resource t = harness_resource i" "fence cf now t s = Inr s1"
    "get_run i s = Some run" "\<not> phase_terminal (hn_phase run)"
    "finish_outcome now run phase res detail = (p, r, d)"
    "get_msg (hn_message run) s1 = Some m" "m_id m = hn_message run"
    "finish_event e (m_revision m + 1) p r d = Inr ev"
    "project_event e cf now (hn_message run) ev [] True s1 = Inr s2"
    "project_event e cf now (hn_message run) (e_end e (m_revision m + 2)) (finish_status p) True s2 = Inr s3"
    "evs = [ev, e_end e (m_revision m + 2)]"
    "s' = touch_run now (run\<lparr>hn_phase := p, hn_error := d\<rparr>) s3"
proof -
  have fin: "phase_terminal phase" using assms by (auto simp: finish_harness_run_def split: if_splits)
  then have tr: "harness_transaction cf now t i (\<lambda>run s1.
        let (phase, res, detail) = finish_outcome now run phase res detail in
        bindR (option_or GormNotFound (get_msg (hn_message run) s1)) (\<lambda>m.
        bindR (finish_event e (m_revision m + 1) phase res detail) (\<lambda>ev.
        bindR (project_event e cf now (m_id m) ev [] True s1) (\<lambda>s2.
        let last = e_end e (m_revision m + 2) in
        bindR (project_event e cf now (m_id m) last (finish_status phase) True s2) (\<lambda>s3.
          Inr ([ev, last], touch_run now (run\<lparr>hn_phase := phase, hn_error := detail\<rparr>) s3)))))) s = Inr (evs, s')"
    using assms by (simp add: finish_harness_run_def)
  obtain s1 run where h: "tk_resource t = harness_resource i" "fence cf now t s = Inr s1"
    "get_run i s = Some run" "\<not> phase_terminal (hn_phase run)"
    and body: "(let (phase, res, detail) = finish_outcome now run phase res detail in
        bindR (option_or GormNotFound (get_msg (hn_message run) s1)) (\<lambda>m.
        bindR (finish_event e (m_revision m + 1) phase res detail) (\<lambda>ev.
        bindR (project_event e cf now (m_id m) ev [] True s1) (\<lambda>s2.
        let last = e_end e (m_revision m + 2) in
        bindR (project_event e cf now (m_id m) last (finish_status phase) True s2) (\<lambda>s3.
          Inr ([ev, last], touch_run now (run\<lparr>hn_phase := phase, hn_error := detail\<rparr>) s3)))))) = Inr (evs, s')"
    by (rule harness_transaction_ok [OF tr]) blast
  obtain p r d where out: "finish_outcome now run phase res detail = (p, r, d)" by (metis prod_cases3)
  obtain m ev s2 s3 where f: "get_msg (hn_message run) s1 = Some m"
    "finish_event e (m_revision m + 1) p r d = Inr ev"
    "project_event e cf now (m_id m) ev [] True s1 = Inr s2"
    "project_event e cf now (m_id m) (e_end e (m_revision m + 2)) (finish_status p) True s2 = Inr s3"
    "evs = [ev, e_end e (m_revision m + 2)]"
    "s' = touch_run now (run\<lparr>hn_phase := p, hn_error := d\<rparr>) s3"
    using body unfolding out by (auto simp: Let_def bindR_eq_Inr)
  have id: "m_id m = hn_message run" using f(1) by (rule msgs.find_key)
  show thesis using that [OF fin h out f(1) id f(2) f(3)[unfolded id] f(4)[unfolded id] f(5,6)] .
qed

text \<open>
  The state a finished run leaves: its phase is the decided outcome and its message ended in
  the matching status two revisions later.
\<close>

lemma finish_harness_run_effect:
  assumes law: "end_law e" and run: "finish_harness_run e cf now t i phase res detail s = Inr (evs, s')"
  obtains r0 m p d x y z where "get_run i s = Some r0" "get_msg (hn_message r0) s = Some m"
    "\<not> phase_terminal (hn_phase r0)" "finish_outcome now r0 phase res detail = (p, x, d)" "phase_terminal p"
    "get_msg (hn_message r0) s' = Some y" "m_revision y = m_revision m + 2" "m_status y = finish_status p"
    "s' = put_run (r0\<lparr>hn_phase := p, hn_error := d, hn_updated := now\<rparr>) z" "st_runs z = st_runs s"
    "get_msg (hn_message r0) z = Some y" "\<And>j. j \<noteq> hn_message r0 \<Longrightarrow> get_msg j z = get_msg j s"
proof -
  from run obtain s1 r0 p x d m ev s2 s3 where
    f: "phase_terminal phase" "fence cf now t s = Inr s1"
    "get_run i s = Some r0" "\<not> phase_terminal (hn_phase r0)"
    "finish_outcome now r0 phase res detail = (p, x, d)"
    "get_msg (hn_message r0) s1 = Some m"
    "finish_event e (m_revision m + 1) p x d = Inr ev"
    "project_event e cf now (hn_message r0) ev [] True s1 = Inr s2"
    "project_event e cf now (hn_message r0) (e_end e (m_revision m + 2)) (finish_status p) True s2 = Inr s3"
    "s' = touch_run now (r0\<lparr>hn_phase := p, hn_error := d\<rparr>) s3"
    by (rule finish_harness_run_cases)
  note F = fence_other_tables [OF f(2)]
  note E = finish_event_op [OF f(7)]
  from project_next [OF f(8) f(6)] E(2) obtain c1 where
    a1: "get_msg (hn_message r0) s2 = Some (accept_output now ev [] c1 m)"
      "\<And>j. j \<noteq> hn_message r0 \<Longrightarrow> get_msg j s2 = get_msg j s1" "st_runs s2 = st_runs s1"
    unfolding output_accepted_def other_tables_def by auto
  have rev1: "m_revision (accept_output now ev [] c1 m) = m_revision m + 1"
    using E(2) by (simp add: accept_output_def)
  let ?last = "e_end e (m_revision m + 2)"
  have en: "ev_seq ?last = m_revision m + 2" "ev_op ?last = OpEnd" using law by (simp_all add: end_law_def)
  have "ev_seq ?last = m_revision (accept_output now ev [] c1 m) + 1" using en(1) rev1 by simp
  from project_next [OF f(9) a1(1) this] obtain c2 where
    a2: "get_msg (hn_message r0) s3 = Some (accept_output now ?last (finish_status p) c2 (accept_output now ev [] c1 m))"
      "\<And>j. j \<noteq> hn_message r0 \<Longrightarrow> get_msg j s3 = get_msg j s2" "st_runs s3 = st_runs s2"
    unfolding output_accepted_def other_tables_def by auto
  let ?y = "accept_output now ?last (finish_status p) c2 (accept_output now ev [] c1 m)"
  have y: "m_revision ?y = m_revision m + 2" "m_status ?y = finish_status p"
    using en by (simp_all add: accept_output_def)
  have s': "s' = put_run (r0\<lparr>hn_phase := p, hn_error := d, hn_updated := now\<rparr>) s3"
    using f(10) by (simp add: touch_run_def)
  have m: "get_msg (hn_message r0) s = Some m" using f(6) F(5) by simp
  have y': "get_msg (hn_message r0) s' = Some ?y" unfolding s' using a2(1) by simp
  have others: "\<And>j. j \<noteq> hn_message r0 \<Longrightarrow> get_msg j s3 = get_msg j s" using a1(2) a2(2) F(5) by simp
  have runs: "st_runs s3 = st_runs s" using a1(3) a2(3) F(1) by simp
  show thesis
    using that [OF f(3) m f(4,5) finish_outcome_terminal [OF f(5,1)] y' y s' runs a2(1) others] .
qed

lemma finish_harness_run_ok:
  assumes law: "end_law e" and ok: "runs_ok s"
    and run: "finish_harness_run e cf now t i phase res detail s = Inr (evs, s')"
  shows "runs_ok s'"
proof (rule finish_harness_run_effect [OF law run])
  fix r0 m p d x y z
  assume f: "get_run i s = Some r0" "get_msg (hn_message r0) s = Some m" "\<not> phase_terminal (hn_phase r0)"
    "phase_terminal p" "m_revision y = m_revision m + 2" "m_status y = finish_status p"
    "s' = put_run (r0\<lparr>hn_phase := p, hn_error := d, hn_updated := now\<rparr>) z" "st_runs z = st_runs s"
    "get_msg (hn_message r0) z = Some y" "\<And>j. j \<noteq> hn_message r0 \<Longrightarrow> get_msg j z = get_msg j s"
  note mem = get_run_mem [OF f(1)]
  have "run_message_ok r0 m" using runs_okD [OF ok] mem f(2) by fastforce
  then have "run_message_ok (r0\<lparr>hn_phase := p, hn_error := d, hn_updated := now\<rparr>) y"
    using f(3-6) by (simp add: run_message_ok_def)
  then show ?thesis
    unfolding f(7)
    by (intro runs_ok_put_run [OF ok, where ?r0.0 = r0]) (use f(1,8-10) mem in simp_all)
qed

end
