(* ===== verification/Samples.thy ===== *)
theory Samples
  imports RunFacts
begin

text \<open>
  Concrete values for the parameters of the model and small inputs, on which the properties
  are applied. The UI and storage packages are instantiated by functions that satisfy
  \<open>ui_laws\<close>: a model is an object with a list of blocks of distinct identifiers, an event sets
  or appends one block, a long block is framed whole.
\<close>

definition demo_valid :: "json \<Rightarrow> bool" where
  "demo_valid v \<longleftrightarrow> is_obj v \<and> snapshot_shape v \<and> distinct (map bid (jblocks v))
     \<and> list_all (\<lambda>b. has_ref b \<longrightarrow> bref b \<noteq> None \<and> bref b \<noteq> Some []) (jblocks v)"

definition demo_frame :: "json \<Rightarrow> nat \<Rightarrow> json list result" where
  "demo_frame b n =
     Inr [JObj [(''id'', JStr ''frame''), (''type'', JStr ''frame''), (''body'', b)]]"

definition demo_unframe :: "json list \<Rightarrow> json result" where
  "demo_unframe fs = (case fs of [f] \<Rightarrow> option_or (ErrText ''frame'') (jget ''body'' f) | _ \<Rightarrow> Inl (ErrText ''frame''))"

definition demo_apply :: "json \<Rightarrow> event \<Rightarrow> json result" where
  "demo_apply v ev =
     (case ev_block ev of
        None \<Rightarrow> Inr v
      | Some b \<Rightarrow>
          let bs = jblocks v in
          Inr (set_blocks (case index_of (bid b) bs of Some i \<Rightarrow> bs[i := b] | None \<Rightarrow> bs @ [b]) v))"

definition demo_env :: env where
  "demo_env =
     \<lparr>e_sha = id, e_uuid = (\<lambda>n. replicate (Suc n) CHR ''u''),
      e_valid_model = demo_valid, e_valid_block = block_shape, e_apply = demo_apply,
      e_marshal = (\<lambda>ev. Inr (nat_str (ev_seq ev))),
      e_parse = (\<lambda>c. Inr no_event), e_start = (\<lambda>c n. Inr (no_event\<lparr>ev_op := OpStart, ev_seq := n\<rparr>)),
      e_end = (\<lambda>n. no_event\<lparr>ev_op := OpEnd, ev_seq := n\<rparr>),
      e_frame = demo_frame, e_unframe = demo_unframe, e_frame_type = ''frame'', e_version = ''1.2'',
      e_float = id, e_err_text = (\<lambda>_. []), e_time = int_str, e_untime = atoi\<rparr>"

lemma demo_env_sel [simp]:
  "e_uuid demo_env = (\<lambda>n. replicate (Suc n) CHR ''u'')" "e_valid_model demo_env = demo_valid"
  "e_valid_block demo_env = block_shape" "e_frame demo_env = demo_frame"
  "e_unframe demo_env = demo_unframe" "e_frame_type demo_env = ''frame''" "e_version demo_env = ''1.2''"
  "e_end demo_env = (\<lambda>n. no_event\<lparr>ev_op := OpEnd, ev_seq := n\<rparr>)" "e_sha demo_env = id"
  by (simp_all add: demo_env_def)

lemma replicate_less: "i < j \<Longrightarrow> replicate i (c :: char) < replicate j c"
proof -
  assume "i < j"
  then obtain k where j: "j = i + Suc k" using less_iff_Suc_add by auto
  have "replicate i c < replicate i c @ c # replicate k c"
    by (induction i) simp_all
  then show ?thesis by (simp only: j replicate_add replicate_Suc)
qed

lemma demo_uuid_ok: "uuid_ok demo_env"
  by (simp add: uuid_ok_def replicate_less del: replicate.simps)

lemma demo_valid_external:
  assumes v: "demo_valid v" and ex: "externalized (jblocks v) bs"
  shows "demo_valid (set_version demo_env (set_blocks bs v))"
proof -
  have obj: "is_obj v" and shape: "snapshot_shape v" using v by (simp_all add: demo_valid_def)
  have sh: "list_all block_shape (jblocks v)" using shape by (rule snapshot_shape_blocks)
  have refs: "list_all (\<lambda>b. has_ref b \<longrightarrow> bref b \<noteq> None \<and> bref b \<noteq> Some []) (jblocks v)"
    and dist: "distinct (map bid (jblocks v))"
    using v unfolding demo_valid_def by blast+
  have "map bid bs = map bid (jblocks v)
      \<and> list_all block_shape bs \<and> list_all (\<lambda>b. has_ref b \<longrightarrow> bref b \<noteq> None \<and> bref b \<noteq> Some []) bs"
    using ex sh refs unfolding externalized_def
    by (induction rule: list_all2_induct) auto
  moreover have "jget ''blocks'' (set_version demo_env (set_blocks bs v)) = Some (JArr bs)"
    using obj by (simp add: set_version_def set_blocks_def jget_jset)
  ultimately show ?thesis
    using obj dist by (simp add: demo_valid_def snapshot_shape_def jblocks_def set_version_def set_blocks_def)
qed

lemma demo_laws: "ui_laws demo_env"
proof -
  have "snapshot_shape v \<and> distinct (map bid (jblocks v))
      \<and> (\<forall>b \<in> set (jblocks v). if has_ref b then \<exists>r. bref b = Some r \<and> r \<noteq> [] else block_shape b)"
    if v: "demo_valid v" for v
  proof -
    have "snapshot_shape v" using v by (simp add: demo_valid_def)
    then have "list_all block_shape (jblocks v)" by (rule snapshot_shape_blocks)
    then show ?thesis using v unfolding demo_valid_def list_all_iff by fastforce
  qed
  moreover have "fs \<noteq> [] \<and> list_all (frame_ok demo_env) fs \<and> distinct (map bid fs) \<and> demo_unframe fs = Inr b"
    if "demo_frame b n = Inr fs" for b n fs
    using that by (auto simp: demo_frame_def demo_unframe_def frame_ok_def block_shape_def has_ref_def btype_is_def)
  ultimately show ?thesis
    unfolding ui_laws_def demo_env_sel using demo_valid_external demo_uuid_ok by simp
qed

lemma demo_end_law: "end_law demo_env"
  by (simp add: end_law_def no_event_def)

text \<open>A message of two text blocks, and limits under which the second one moves to a part.\<close>

definition demo_block :: "string \<Rightarrow> string \<Rightarrow> json" where
  "demo_block i t = JObj [(''id'', JStr i), (''type'', JStr ''text''), (''text'', JStr t)]"

definition demo_content :: content where
  "demo_content = marshal (JObj [(''biz'', JStr ''chat''),
     (''blocks'', JArr [demo_block ''a'' ''hello'', demo_block ''b'' ''world'']), (''version'', JStr ''1.1'')])"

definition demo_message :: message where
  "demo_message = new_message\<lparr>m_id := ''m1'', m_conv := ''c1'', m_content := demo_content\<rparr>"

definition demo_cf :: config where
  "demo_cf = \<lparr>cf_inline = 1, cf_max = 130, cf_changed_rows = False\<rparr>"

definition demo_saved :: "(message \<times> store) result" where
  "demo_saved = save_message demo_env demo_cf 7 demo_message True empty_store"

lemma demo_saved_part: "(case demo_saved of Inr (m, s) \<Rightarrow> length (st_parts s) = 1 | Inl _ \<Rightarrow> False)"
  by code_simp

lemma demo_message_id [simp]: "m_id demo_message = ''m1''"
  by (simp add: demo_message_def)

lemma demo_saved_Inr:
  obtains m' s' where "save_message demo_env demo_cf 7 demo_message True empty_store = Inr (m', s')"
  using demo_saved_part unfolding demo_saved_def by (auto split: sum.splits)

end
