(* ===== verification/LhFacts.thy ===== *)
theory LhFacts
  imports LhWork Samples
begin

text \<open>
  Facts about the Manager: the invariant of a Run's status that every reconcile keeps, whatever
  the calls it makes return, and what a reconcile that writes a final phase has seen.
\<close>

section \<open>Bounds\<close>

lemma length_clip: "length (clip s) \<le> 2000"
  using length_to_valid_utf8 [of "take 2000 s"] by (simp add: clip_def)

lemma clip_ascii: "bt c < 0x80 \<Longrightarrow> clip (c # s) \<noteq> []"
  by (simp add: clip_def Let_def utf8_width_ascii del: utf8_width.simps)

lemma judged_cases:
  assumes "judged w rep = (er, v)"
  obtains (fault) "er \<noteq> []" "v = None"
  | (sound) v0 where "decode_verdict (lw_parse w) (rp_text rep) = Inr v0" "verdict_fault v0 = None"
      "v = Some (clipped_verdict v0)"
proof (cases "decode_verdict (lw_parse w) (rp_text rep)")
  case (Inl er0)
  then have "er = clip (''invalid audit: '' @ lw_err_text w er0)" "v = None"
    using assms by (simp_all add: judged_def)
  then show thesis using fault clip_ascii [of "CHR ''i''"] by (simp add: bt_def)
next
  case (Inr v0)
  show thesis
  proof (cases "verdict_fault v0")
    case None
    then show thesis using sound [OF Inr] assms Inr by (simp add: judged_def)
  next
    case (Some f)
    then have "f \<noteq> []" by (auto simp: verdict_fault_def split: if_splits)
    then show thesis using fault assms Inr Some by (simp add: judged_def)
  qed
qed

definition rounds_bounded :: "run_status \<Rightarrow> bool" where
  "rounds_bounded s \<longleftrightarrow> length (rs_rounds s) \<le> 50 \<and> (\<forall>x \<in> set (rs_rounds s). length (rd_summary x) \<le> 2000)"

definition inputs_bounded :: "run_status \<Rightarrow> bool" where
  "inputs_bounded s \<longleftrightarrow> length (rs_inputs s) \<le> 100 \<and> length (rs_guidance s) \<le> 16000"

definition budget_kept :: "run_status \<Rightarrow> bool" where
  "budget_kept s \<longleftrightarrow>
     1 \<le> rs_round s \<and> rs_round s \<le> rs_budget s + 1 \<and> rs_budget s \<le> 1000
     \<and> rs_consumed s = rs_round s - 1
     \<and> (rs_phase s \<in> {''Executing'', ''Auditing''} \<or> (rs_phase s = ''WaitingForHuman'' \<and> rs_human_reason s = ''ask'')
          \<longrightarrow> rs_round s \<le> rs_budget s)"

definition failures_kept :: "run_status \<Rightarrow> bool" where
  "failures_kept s \<longleftrightarrow>
     0 \<le> rs_failures s \<and> rs_failures s \<le> 3
     \<and> (rs_failures s = 3 \<longrightarrow>
          lh_terminal (rs_phase s) \<or> (rs_phase s = ''WaitingForHuman'' \<and> rs_human_reason s = ''failure''))"

definition evidence_kept :: "run_status \<Rightarrow> bool" where
  "evidence_kept s \<longleftrightarrow> (\<forall>a. rs_last_audit s = Some a \<longrightarrow> ae_version a \<le> rs_version s)"

definition lh_phase :: "string \<Rightarrow> bool" where
  "lh_phase p \<longleftrightarrow> lh_terminal p
     \<or> p \<in> {''Receiving'', ''Planning'', ''Executing'', ''Auditing'', ''WaitingForHuman''}"

definition status_ok :: "run_status \<Rightarrow> bool" where
  "status_ok s \<longleftrightarrow> lh_phase (rs_phase s) \<and> rounds_bounded s \<and> inputs_bounded s \<and> budget_kept s
     \<and> failures_kept s \<and> evidence_kept s"

lemmas status_parts = status_ok_def lh_phase_def rounds_bounded_def inputs_bounded_def budget_kept_def
  failures_kept_def evidence_kept_def

section \<open>The transitions of the status\<close>

lemma with_conditions_sel [simp]:
  "rs_phase (with_conditions s) = rs_phase s" "rs_round (with_conditions s) = rs_round s"
  "rs_budget (with_conditions s) = rs_budget s" "rs_failures (with_conditions s) = rs_failures s"
  "rs_rounds (with_conditions s) = rs_rounds s" "rs_inputs (with_conditions s) = rs_inputs s"
  "rs_guidance (with_conditions s) = rs_guidance s" "rs_consumed (with_conditions s) = rs_consumed s"
  "rs_human_reason (with_conditions s) = rs_human_reason s" "rs_through (with_conditions s) = rs_through s"
  "rs_version (with_conditions s) = rs_version s" "rs_last_audit (with_conditions s) = rs_last_audit s"
  "rs_contract (with_conditions s) = rs_contract s" "rs_summary (with_conditions s) = rs_summary s"
  "rs_final (with_conditions s) = rs_final s" "rs_finished (with_conditions s) = rs_finished s"
  "rs_execution (with_conditions s) = rs_execution s" "rs_audit (with_conditions s) = rs_audit s"
  by (simp_all add: with_conditions_def)

lemma status_ok_conditions [simp]: "status_ok (with_conditions s) = status_ok s"
  by (simp add: status_parts)

lemma status_ok_untouched [simp]:
  "status_ok (s\<lparr>rs_final := i\<rparr>) = status_ok s" "status_ok (s\<lparr>rs_finished := t\<rparr>) = status_ok s"
  by (simp_all add: status_parts)

lemma save_status_Saved: "save_status w s = Saved s' \<Longrightarrow> s' = with_conditions s"
  by (auto simp: save_status_def Let_def on_found_Saved)

lemma last_rounds_bound:
  "length (last_rounds rs) \<le> 50" "set (last_rounds rs) \<subseteq> set rs"
  by (auto simp: last_rounds_def dest: in_set_dropD)

lemma append_round_sel [simp]:
  "rs_phase (append_round d m ms s) = rs_phase s" "rs_round (append_round d m ms s) = rs_round s"
  "rs_budget (append_round d m ms s) = rs_budget s" "rs_failures (append_round d m ms s) = rs_failures s"
  "rs_inputs (append_round d m ms s) = rs_inputs s" "rs_guidance (append_round d m ms s) = rs_guidance s"
  "rs_consumed (append_round d m ms s) = rs_consumed s" "rs_human_reason (append_round d m ms s) = rs_human_reason s"
  "rs_version (append_round d m ms s) = rs_version s" "rs_last_audit (append_round d m ms s) = rs_last_audit s"
  "rs_through (append_round d m ms s) = rs_through s" "rs_contract (append_round d m ms s) = rs_contract s"
  by (simp_all add: append_round_def)

lemma append_round_bounded: "rounds_bounded s \<Longrightarrow> rounds_bounded (append_round d m ms s)"
  using last_rounds_bound(2) [of "rs_rounds s @ _"]
  by (fastforce simp: rounds_bounded_def append_round_def last_rounds_bound length_clip)

lemma advance_round_sel [simp]:
  "rs_phase (advance_round s) = ''Receiving''" "rs_round (advance_round s) = rs_round s + 1"
  "rs_consumed (advance_round s) = rs_round s" "rs_budget (advance_round s) = rs_budget s"
  "rs_failures (advance_round s) = rs_failures s" "rs_rounds (advance_round s) = rs_rounds s"
  "rs_inputs (advance_round s) = rs_inputs s" "rs_guidance (advance_round s) = rs_guidance s"
  "rs_version (advance_round s) = rs_version s" "rs_last_audit (advance_round s) = rs_last_audit s"
  "rs_human_reason (advance_round s) = []" "rs_through (advance_round s) = rs_through s"
  "rs_contract (advance_round s) = rs_contract s"
  by (simp_all add: advance_round_def)

lemma wait_after_failures_sel [simp]:
  "rs_round (wait_after_failures s) = rs_round s" "rs_rounds (wait_after_failures s) = rs_rounds s"
  "rs_consumed (wait_after_failures s) = rs_consumed s" "rs_budget (wait_after_failures s) = rs_budget s"
  "rs_failures (wait_after_failures s) = rs_failures s" "rs_inputs (wait_after_failures s) = rs_inputs s"
  "rs_guidance (wait_after_failures s) = rs_guidance s" "rs_version (wait_after_failures s) = rs_version s"
  "rs_last_audit (wait_after_failures s) = rs_last_audit s" "rs_through (wait_after_failures s) = rs_through s"
  "rs_phase (wait_after_failures s) = (if 3 \<le> rs_failures s then ''WaitingForHuman'' else rs_phase s)"
  "rs_human_reason (wait_after_failures s) = (if 3 \<le> rs_failures s then ''failure'' else rs_human_reason s)"
  by (simp_all add: wait_after_failures_def)

lemma wait_after_failures_bounded: "rounds_bounded (wait_after_failures s) = rounds_bounded s"
  by (simp add: rounds_bounded_def)

text \<open>A status that is about to lose its round to a failure or to a finished audit.\<close>

definition in_round :: "run_status \<Rightarrow> bool" where
  "in_round s \<longleftrightarrow> rounds_bounded s \<and> inputs_bounded s \<and> evidence_kept s
     \<and> 1 \<le> rs_round s \<and> rs_round s \<le> rs_budget s \<and> rs_budget s \<le> 1000
     \<and> rs_consumed s = rs_round s - 1 \<and> 0 \<le> rs_failures s \<and> rs_failures s \<le> 2"

lemma status_ok_in_round:
  assumes "status_ok s" and "rs_phase s \<in> {''Planning'', ''Executing'', ''Auditing''}"
    and "rs_round s \<le> rs_budget s"
  shows "in_round s"
  using assms by (auto simp: status_parts in_round_def lh_terminal_def)

lemma failed_round_ok:
  assumes "in_round s"
  shows "status_ok (failed_round reason s)"
proof -
  have "rounds_bounded (append_round ''failure'' reason [rs_manager s] s)"
    using assms by (intro append_round_bounded) (simp add: in_round_def)
  then show ?thesis
    using assms by (simp add: failed_round_def Let_def in_round_def status_parts lh_terminal_def)
qed

lemma accept_audit_ok:
  assumes "in_round s" and "as_version (an_spec a) \<le> rs_version s"
  shows "status_ok (accept_audit a v x s)"
proof -
  let ?s = "s\<lparr>rs_last_audit := Some \<lparr>ae_execution = as_execution (an_spec a), ae_version = as_version (an_spec a),
        ae_message = ws_message (an_status a), ae_verdict = v\<rparr>, rs_task_state := vd_task_state v,
      rs_failures := (if rp_error x \<noteq> [] then rs_failures s + 1 else 0)\<rparr>"
  have "rounds_bounded (append_round ''cli'' (vd_feedback v)
      [rs_manager s, as_execution_message (an_spec a), ws_message (an_status a)] ?s)"
    using assms(1) by (intro append_round_bounded) (simp add: in_round_def rounds_bounded_def)
  then show ?thesis
    using assms by (simp add: accept_audit_def Let_def in_round_def status_parts lh_terminal_def)
qed

lemma first_status_ok:
  assumes "rsp_max_rounds spec \<le> 1000" and "0 < lf_max_rounds cfg" and "lf_max_rounds cfg \<le> 1000"
  shows "status_ok (first_status cfg spec no_status)"
  using assms by (auto simp: first_status_def no_status_def status_parts)

lemma take_inputs_sel:
  "rs_phase (take_inputs e u ms s) = rs_phase s" "rs_round (take_inputs e u ms s) = rs_round s"
  "rs_budget (take_inputs e u ms s) = rs_budget s" "rs_failures (take_inputs e u ms s) = rs_failures s"
  "rs_rounds (take_inputs e u ms s) = rs_rounds s" "rs_consumed (take_inputs e u ms s) = rs_consumed s"
  "rs_human_reason (take_inputs e u ms s) = rs_human_reason s"
  "rs_contract (take_inputs e u ms s) = rs_contract s"
  by (induction e u ms s rule: take_inputs.induct) (simp_all add: Let_def)

lemma take_inputs_bounded: "inputs_bounded s \<Longrightarrow> inputs_bounded (take_inputs e u ms s)"
  by (induction e u ms s rule: take_inputs.induct) (auto simp: Let_def inputs_bounded_def newline_def)

lemma take_inputs_evidence: "evidence_kept s \<Longrightarrow> evidence_kept (take_inputs e u ms s)"
  by (induction e u ms s rule: take_inputs.induct) (auto simp: Let_def evidence_kept_def)

lemma receive_inputs_ok:
  assumes "receive_inputs e w r = Saved s'" and "status_ok (ln_status r)"
    and "rs_phase (ln_status r) = ''Receiving''"
  shows "status_ok s'" and "\<not> lh_terminal (rs_phase s')"
proof -
  let ?s = "ln_status r"
  obtain s1 where s1: "s' = with_conditions (s1\<lparr>rs_phase := ''Planning''\<rparr>)"
    "s1 = ?s \<or> (\<exists>u ms. s1 = take_inputs e u ms ?s)"
    using assms(1) by (auto simp: receive_inputs_def Let_def on_ok_Saved split: if_splits dest!: save_status_Saved)
  have "inputs_bounded s1" "evidence_kept s1" "rs_round s1 = rs_round ?s" "rs_budget s1 = rs_budget ?s"
    "rs_failures s1 = rs_failures ?s" "rs_rounds s1 = rs_rounds ?s" "rs_consumed s1 = rs_consumed ?s"
    using s1(2) assms(2) by (auto simp: take_inputs_sel take_inputs_bounded take_inputs_evidence status_ok_def)
  then show "status_ok s'" "\<not> lh_terminal (rs_phase s')"
    using assms(2,3) s1(1) by (auto simp: status_parts lh_terminal_def)
qed

text \<open>\<open>decide\<close> in a round: the only way to \<open>Succeeded\<close> is current evidence.\<close>

lemma decide_ok:
  assumes run: "decide cfg w r msg d s = Saved s'" and s: "in_round s" "rs_phase s = ''Planning''"
  shows "status_ok s'"
    and "lh_terminal (rs_phase s') \<Longrightarrow> rs_phase s' = ''Succeeded'' \<and> can_finish s \<and> dc_next d = ''done''
           \<and> rs_last_audit s' = rs_last_audit s \<and> rs_version s' = rs_version s \<and> rs_contract s' = rs_contract s"
proof -
  have fail: "status_ok (failed_round x s) \<and> \<not> lh_terminal (rs_phase (failed_round x s))" for x
    using failed_round_ok [OF s(1)] by (simp add: failed_round_def Let_def lh_terminal_def)
  have rnd: "rounds_bounded (append_round ''done'' (dc_summary d) [msg] s)"
    using s(1) by (intro append_round_bounded) (simp add: in_round_def)
  from run consider
      (bad) x where "s' = with_conditions (failed_round x s)"
    | (cli) ref where "s' = with_conditions (s\<lparr>rs_execution := Some ref, rs_last_audit := None, rs_phase := ''Executing''\<rparr>)"
    | (ask) "s' = with_conditions (s\<lparr>rs_phase := ''WaitingForHuman'', rs_human_reason := ''ask''\<rparr>)"
    | (fin) "dc_next d = ''done''" "can_finish s"
        "s' = with_conditions ((append_round ''done'' (dc_summary d) [msg] s)
           \<lparr>rs_phase := ''Succeeded'', rs_summary := dc_summary d\<rparr>)"
    unfolding decide_def Let_def
    by (auto simp: on_ok_Saved split: if_splits sum.splits dest!: save_status_Saved)
  note cases = this
  from cases show "status_ok s'"
  proof cases
    case bad
    then show ?thesis using fail by simp
  next
    case fin
    then show ?thesis using s rnd by (simp add: in_round_def status_parts lh_terminal_def)
  qed (use s in \<open>auto simp: in_round_def status_parts lh_terminal_def\<close>)
  show "rs_phase s' = ''Succeeded'' \<and> can_finish s \<and> dc_next d = ''done''
      \<and> rs_last_audit s' = rs_last_audit s \<and> rs_version s' = rs_version s \<and> rs_contract s' = rs_contract s"
    if "lh_terminal (rs_phase s')"
    using cases
  proof cases
    case bad
    then show ?thesis using fail that by simp
  qed (use that in \<open>simp_all add: lh_terminal_def\<close>)
qed

lemma adopt_contract_sel [simp]:
  "rs_phase (adopt_contract d s) = rs_phase s" "rs_round (adopt_contract d s) = rs_round s"
  "rs_budget (adopt_contract d s) = rs_budget s" "rs_failures (adopt_contract d s) = rs_failures s"
  "rs_inputs (adopt_contract d s) = rs_inputs s" "rs_guidance (adopt_contract d s) = rs_guidance s"
  "rs_consumed (adopt_contract d s) = rs_consumed s" "rs_rounds (adopt_contract d s) = rs_rounds s"
  "rs_last_audit (adopt_contract d s) = rs_last_audit s"
  by (simp_all add: adopt_contract_def Let_def)

lemma adopt_contract_version:
  "rs_version (adopt_contract d s) = rs_version s \<and> rs_contract (adopt_contract d s) = rs_contract s
   \<or> rs_version (adopt_contract d s) = rs_version s + 1"
  by (simp add: adopt_contract_def Let_def)

lemma adopt_contract_in_round: "in_round s \<Longrightarrow> in_round (adopt_contract d s)"
  using adopt_contract_version [of d s]
  by (auto simp: in_round_def rounds_bounded_def inputs_bounded_def evidence_kept_def)

text \<open>Evidence that is current after the contract of the decision was adopted kept the contract.\<close>

lemma can_finish_adopted:
  assumes "can_finish (adopt_contract d s)" and "evidence_kept s"
  shows "can_finish s" "rs_contract (adopt_contract d s) = rs_contract s"
    "rs_version (adopt_contract d s) = rs_version s"
  using assms adopt_contract_version [of d s]
  by (force simp: can_finish_def evidence_kept_def split: option.splits)+

lemma plan_round_ok:
  assumes run: "plan_round e cfg w r = Saved s'" and s: "in_round (ln_status r)" "rs_phase (ln_status r) = ''Planning''"
  shows "status_ok s'"
    and "lh_terminal (rs_phase s') \<Longrightarrow> rs_phase s' = ''Succeeded'' \<and> can_finish (ln_status r)
           \<and> rs_last_audit s' = rs_last_audit (ln_status r) \<and> rs_version s' = rs_version (ln_status r)
           \<and> rs_contract s' = rs_contract (ln_status r)"
proof -
  let ?s = "ln_status r"
  obtain i where s1: "(\<exists>x. s' = with_conditions (failed_round x (?s\<lparr>rs_manager := i\<rparr>)))
      \<or> (\<exists>d. decide cfg w r i d (adopt_contract d (?s\<lparr>rs_manager := i\<rparr>)) = Saved s')"
    using run unfolding plan_round_def Let_def
    by (auto simp: on_ok_Saved waiting_def split: if_splits sum.splits dest!: save_status_Saved)
  let ?m = "?s\<lparr>rs_manager := i\<rparr>"
  have m: "in_round ?m" "rs_phase ?m = ''Planning''" "evidence_kept ?m"
    using s by (simp_all add: in_round_def rounds_bounded_def inputs_bounded_def evidence_kept_def)
  have fail: "status_ok (failed_round x ?m) \<and> \<not> lh_terminal (rs_phase (failed_round x ?m))" for x
    using failed_round_ok [OF m(1)] by (simp add: failed_round_def Let_def lh_terminal_def)
  from s1 consider (bad) x where "s' = with_conditions (failed_round x ?m)"
    | (go) d where "decide cfg w r i d (adopt_contract d ?m) = Saved s'"
    by blast
  note cases = this
  from cases show "status_ok s'"
  proof cases
    case bad
    then show ?thesis using fail by simp
  next
    case go
    then show ?thesis by (rule decide_ok(1)) (use adopt_contract_in_round [OF m(1)] m(2) in simp_all)
  qed
  show "rs_phase s' = ''Succeeded'' \<and> can_finish ?s \<and> rs_last_audit s' = rs_last_audit ?s
      \<and> rs_version s' = rs_version ?s \<and> rs_contract s' = rs_contract ?s" if t: "lh_terminal (rs_phase s')"
    using cases
  proof cases
    case bad
    then show ?thesis using fail t by simp
  next
    case go
    have "rs_phase s' = ''Succeeded'' \<and> can_finish (adopt_contract d ?m) \<and> dc_next d = ''done''
        \<and> rs_last_audit s' = rs_last_audit (adopt_contract d ?m) \<and> rs_version s' = rs_version (adopt_contract d ?m)
        \<and> rs_contract s' = rs_contract (adopt_contract d ?m)"
      by (rule decide_ok(2) [OF go]) (use adopt_contract_in_round [OF m(1)] m(2) t in simp_all)
    moreover have "can_finish ?m = can_finish ?s" by (simp add: can_finish_def cong: option.case_cong)
    ultimately show ?thesis using can_finish_adopted [OF _ m(3), of d] by simp
  qed
qed

lemma observe_execution_ok:
  assumes run: "observe_execution w r = Saved s'" and s: "status_ok (ln_status r)" "rs_phase (ln_status r) = ''Executing''"
  shows "status_ok s'" and "\<not> lh_terminal (rs_phase s')"
proof -
  obtain ref where "s' = with_conditions ((ln_status r)\<lparr>rs_audit := Some ref, rs_phase := ''Auditing''\<rparr>)"
    using run unfolding observe_execution_def Let_def
    by (auto simp: on_ok_Saved on_found_Saved waiting_def split: if_splits option.splits dest!: save_status_Saved)
  then show "status_ok s'" "\<not> lh_terminal (rs_phase s')"
    using s by (auto simp: status_parts lh_terminal_def)
qed

lemma accept_audit_open: "\<not> lh_terminal (rs_phase (accept_audit a v x s))"
  by (simp add: accept_audit_def Let_def lh_terminal_def)

lemma observe_audit_cases:
  assumes "observe_audit w r = Saved s'"
  obtains (bad) x where "s' = with_conditions (failed_round x (ln_status r))"
  | (good) a v x where "as_run (an_spec a) = run_ref r" "rs_execution (ln_status r) = Some (as_execution (an_spec a))"
      "as_version (an_spec a) = rs_version (ln_status r)" "au_verdict (an_status a) = Some v"
      "ws_message (an_status a) \<noteq> []" "ws_error (an_status a) = []"
      "s' = with_conditions (accept_audit a v x (ln_status r))"
  using assms unfolding observe_audit_def Let_def
  by (auto simp: on_ok_Saved on_found_Saved waiting_def split: if_splits option.splits dest!: save_status_Saved)

lemma observe_audit_ok:
  assumes run: "observe_audit w r = Saved s'" and s: "in_round (ln_status r)"
  shows "status_ok s'" and "\<not> lh_terminal (rs_phase s')"
proof -
  have "status_ok s' \<and> \<not> lh_terminal (rs_phase s')"
    using run
  proof (cases rule: observe_audit_cases)
    case (bad x)
    then show ?thesis
      using failed_round_ok [OF s, of x] by (simp add: failed_round_def Let_def lh_terminal_def)
  next
    case (good a v x)
    then show ?thesis using accept_audit_ok [OF s, of a v x] accept_audit_open by simp
  qed
  then show "status_ok s'" "\<not> lh_terminal (rs_phase s')" by blast+
qed

lemma resumed_sel [simp]:
  "rs_phase (resumed s) = ''Receiving''" "rs_round (resumed s) = rs_round s" "rs_budget (resumed s) = rs_budget s"
  "rs_failures (resumed s) = rs_failures s" "rs_rounds (resumed s) = rs_rounds s"
  "rs_inputs (resumed s) = rs_inputs s" "rs_guidance (resumed s) = rs_guidance s"
  "rs_consumed (resumed s) = rs_consumed s" "rs_version (resumed s) = rs_version s"
  "rs_last_audit (resumed s) = rs_last_audit s" "rs_through (resumed s) = rs_through s"
  by (simp_all add: resumed_def)

lemma accept_answer_ok:
  assumes "in_round s"
  shows "status_ok (accept_answer res s)"
proof -
  have stop: "rounds_bounded (append_round ''ask'' x ms s)" for x ms
    using assms by (intro append_round_bounded) (simp add: in_round_def)
  have go: "rounds_bounded (append_round ''ask'' x ms (s\<lparr>rs_guidance := g, rs_last_audit := None\<rparr>))" for x ms g
    using assms by (intro append_round_bounded) (simp add: in_round_def rounds_bounded_def)
  show ?thesis
    using assms stop go
    by (auto simp: accept_answer_def Let_def in_round_def status_parts lh_terminal_def)
qed

lemma human_answered_ok:
  assumes s: "status_ok s" "rs_phase s = ''WaitingForHuman''"
  shows "status_ok (human_answered res s)"
proof -
  have rnd: "rounds_bounded (append_round ''human'' x ms s)" for x ms
    using s(1) by (intro append_round_bounded) (simp add: status_ok_def)
  have ask: "in_round s" if "rs_human_reason s = ''ask''"
    using s that by (auto simp: status_parts in_round_def lh_terminal_def)
  show ?thesis
    using s rnd accept_answer_ok [OF ask]
    by (auto simp: human_answered_def status_parts lh_terminal_def)
qed

lemma await_human_ok:
  assumes run: "await_human cfg w r = Saved s'" and s: "status_ok (ln_status r)" "rs_phase (ln_status r) = ''WaitingForHuman''"
  shows "status_ok s'"
proof -
  have "(\<exists>i. s' = with_conditions ((ln_status r)\<lparr>rs_human := i\<rparr>))
      \<or> (\<exists>res. s' = with_conditions (human_answered res (ln_status r)))"
    using run unfolding await_human_def Let_def
    by (auto simp: on_ok_Saved waiting_def split: if_splits dest!: save_status_Saved)
  moreover have "status_ok ((ln_status r)\<lparr>rs_human := i\<rparr>)" for i
    using s(1) by (simp add: status_parts)
  ultimately show ?thesis using human_answered_ok [OF s] by auto
qed

text \<open>Once final, a reconcile records only that the end was told and when.\<close>

lemma finish_lh_keeps:
  assumes "finish_lh cfg w r = Saved s'"
  shows "(\<exists>i. s' = with_conditions ((ln_status r)\<lparr>rs_final := i\<rparr>) \<and> rs_final (ln_status r) = [])
    \<or> s' = with_conditions ((ln_status r)\<lparr>rs_finished := Some (lw_now w)\<rparr>)"
  using assms unfolding finish_lh_def Let_def
  by (auto simp: on_ok_Saved not_found_ok_def split: if_splits option.splits sum.splits dest!: save_status_Saved)

text \<open>\<open>ok_config\<close> is what \<^verbatim>\<open>Setup\<close> and the validation of the resource guarantee.\<close>

definition ok_config :: "lh_config \<Rightarrow> run_spec \<Rightarrow> bool" where
  "ok_config cfg spec \<longleftrightarrow> 0 < lf_max_rounds cfg \<and> lf_max_rounds cfg \<le> 1000 \<and> rsp_max_rounds spec \<le> 1000"

definition run_kept :: "run_status \<Rightarrow> bool" where
  "run_kept s \<longleftrightarrow> s = no_status \<or> status_ok s"

lemma run_phase_ok:
  assumes run: "run_phase e cfg w r = Saved s'" and s: "status_ok (ln_status r)"
  shows "status_ok s'"
proof -
  let ?s = "ln_status r"
  have "lh_terminal (rs_phase ?s) \<or> rs_phase ?s = ''Receiving'' \<or> rs_phase ?s = ''WaitingForHuman''
      \<or> rs_phase ?s = ''Executing'' \<or> rs_phase ?s = ''Auditing'' \<or> rs_phase ?s = ''Planning''"
    using s unfolding status_ok_def lh_phase_def by blast
  then consider (fin) "lh_terminal (rs_phase ?s)" | (rec) "rs_phase ?s = ''Receiving''"
    | (hum) "rs_phase ?s = ''WaitingForHuman''" | (exe) "rs_phase ?s = ''Executing''"
    | (aud) "rs_phase ?s = ''Auditing''" | (pln) "rs_phase ?s = ''Planning''"
    by blast
  then show ?thesis
  proof cases
    case fin
    then have "finish_lh cfg w r = Saved s'" using run by (simp add: run_phase_def Let_def)
    from finish_lh_keeps [OF this] show ?thesis using s by (elim disjE exE conjE) simp_all
  next
    case rec
    then have "receive_inputs e w r = Saved s'" using run by (simp add: run_phase_def Let_def lh_terminal_def)
    then show ?thesis using s rec by (rule receive_inputs_ok(1))
  next
    case hum
    then have "await_human cfg w r = Saved s'" using run by (simp add: run_phase_def Let_def lh_terminal_def)
    then show ?thesis using s hum by (rule await_human_ok)
  next
    case exe
    then have "observe_execution w r = Saved s'" using run by (simp add: run_phase_def Let_def lh_terminal_def)
    then show ?thesis using s exe by (rule observe_execution_ok(1))
  next
    case aud
    then have "observe_audit w r = Saved s'" using run by (simp add: run_phase_def Let_def lh_terminal_def)
    moreover have "in_round ?s"
      using s by (rule status_ok_in_round) (use s aud in \<open>simp_all add: status_ok_def budget_kept_def\<close>)
    ultimately show ?thesis by (rule observe_audit_ok(1))
  next
    case pln
    show ?thesis
    proof (cases "rs_budget ?s < rs_round ?s")
      case True
      then have "s' = with_conditions (?s\<lparr>rs_phase := ''Stopped'', rs_summary := ''Maximum round budget reached.''\<rparr>)
          \<or> s' = with_conditions (?s\<lparr>rs_phase := ''WaitingForHuman'', rs_human_reason := ''budget''\<rparr>)"
        using run pln by (auto simp: run_phase_def Let_def lh_terminal_def split: if_splits dest!: save_status_Saved)
      then show ?thesis using s pln by (elim disjE) (simp_all add: status_parts lh_terminal_def)
    next
      case False
      then have "plan_round e cfg w r = Saved s'" using run pln by (simp add: run_phase_def Let_def lh_terminal_def)
      moreover have "in_round ?s"
        using s by (rule status_ok_in_round) (use pln False in simp_all)
      ultimately show ?thesis using pln by (rule plan_round_ok(1))
    qed
  qed
qed

lemma manage_ok:
  assumes cfg: "ok_config cfg (ln_spec r)" and s: "run_kept (ln_status r)" and run: "manage e cfg w r = Saved s'"
  shows "status_ok s'"
proof (cases "rs_phase (ln_status r) = []")
  case True
  then have "ln_status r = no_status" using s by (auto simp: run_kept_def status_parts lh_terminal_def)
  then show ?thesis
    using run first_status_ok [of "ln_spec r" cfg] cfg True
    by (auto simp: manage_def Let_def ok_config_def dest!: save_status_Saved)
next
  case False
  then have ok: "status_ok (ln_status r)" using s by (auto simp: run_kept_def no_status_def)
  from False run consider
      "s' = with_conditions ((ln_status r)\<lparr>rs_phase := ''Failed'', rs_summary := ''LongHorizon Run deadline exceeded.''\<rparr>)"
    | "run_phase e cfg w r = Saved s'"
    by (auto simp: manage_def Let_def on_ok_Saved split: if_splits dest!: save_status_Saved)
  then show ?thesis
    using ok run_phase_ok by cases (auto simp: status_parts lh_terminal_def)
qed

section \<open>Reachable statuses\<close>

text \<open>Any number of reconciles of one Run, each with its own answers of the world.\<close>

inductive lh_reach :: "env \<Rightarrow> lh_config \<Rightarrow> lh_run \<Rightarrow> run_status \<Rightarrow> run_status \<Rightarrow> bool" for e cfg r where
  here: "lh_reach e cfg r s s"
| again: "lh_reach e cfg r s s1 \<Longrightarrow> manage e cfg w (r\<lparr>ln_status := s1\<rparr>) = Saved s2 \<Longrightarrow> lh_reach e cfg r s s2"

lemma lh_reach_kept:
  assumes "lh_reach e cfg r s s'" and "ok_config cfg (ln_spec r)" and "run_kept s"
  shows "run_kept s'"
  using assms
proof (induction rule: lh_reach.induct)
  case (again s s1 w s2)
  then have "status_ok s2" using manage_ok [of cfg "r\<lparr>ln_status := s1\<rparr>" e w s2] by simp
  then show ?case by (simp add: run_kept_def)
qed

section \<open>Where evidence comes from\<close>

lemma failed_round_sel [simp]:
  "rs_last_audit (failed_round x s) = rs_last_audit s" "rs_inputs (failed_round x s) = rs_inputs s"
  "rs_guidance (failed_round x s) = rs_guidance s"
  by (simp_all add: failed_round_def Let_def)

lemma take_inputs_evidence_cases:
  "rs_last_audit (take_inputs e u ms s) = None
   \<or> (rs_last_audit (take_inputs e u ms s) = rs_last_audit s \<and> rs_inputs (take_inputs e u ms s) = rs_inputs s
      \<and> rs_guidance (take_inputs e u ms s) = rs_guidance s)"
  by (induction e u ms s rule: take_inputs.induct) (auto simp: Let_def)

text \<open>\<open>evidence_from s1 s2\<close>: the evidence of \<open>s2\<close> was in \<open>s1\<close>, with the inputs it was judged under.\<close>

definition evidence_from :: "run_status \<Rightarrow> run_status \<Rightarrow> bool" where
  "evidence_from s1 s2 \<longleftrightarrow> rs_last_audit s2 = None
     \<or> (rs_last_audit s2 = rs_last_audit s1 \<and> rs_inputs s2 = rs_inputs s1 \<and> rs_guidance s2 = rs_guidance s1)"

definition audit_accepted :: "lh_run \<Rightarrow> lh_world \<Rightarrow> run_status \<Rightarrow> audit_evidence \<Rightarrow> bool" where
  "audit_accepted r w s a \<longleftrightarrow>
     rs_phase s = ''Auditing'' \<and> rs_execution s = Some (ae_execution a) \<and> ae_version a = rs_version s
     \<and> (\<exists>ref au. rs_audit s = Some ref \<and> lw_audit w (lr_name ref) = Inr au \<and> an_uid au = lr_uid ref
          \<and> as_run (an_spec au) = run_ref r \<and> au_verdict (an_status au) = Some (ae_verdict a)
          \<and> ws_error (an_status au) = [] \<and> ws_message (an_status au) = ae_message a \<and> ae_message a \<noteq> [])"

lemma evidence_from_conditions [simp]:
  "evidence_from s (with_conditions s') = evidence_from s s'"
  by (simp add: evidence_from_def)

lemma evidence_from_failed [simp]: "evidence_from s (failed_round x s)"
  by (simp add: evidence_from_def)

lemma accept_audit_sel [simp]:
  "rs_inputs (accept_audit a v x s) = rs_inputs s" "rs_guidance (accept_audit a v x s) = rs_guidance s"
  "rs_last_audit (accept_audit a v x s) = Some \<lparr>ae_execution = as_execution (an_spec a),
     ae_version = as_version (an_spec a), ae_message = ws_message (an_status a), ae_verdict = v\<rparr>"
  by (simp_all add: accept_audit_def Let_def)

lemma observe_audit_evidence:
  assumes "observe_audit w r = Saved s2" and "rs_phase (ln_status r) = ''Auditing''"
  shows "evidence_from (ln_status r) s2
    \<or> (\<exists>a. rs_last_audit s2 = Some a \<and> audit_accepted r w (ln_status r) a
          \<and> rs_inputs s2 = rs_inputs (ln_status r) \<and> rs_guidance s2 = rs_guidance (ln_status r))"
proof -
  have "(\<exists>x. s2 = with_conditions (failed_round x (ln_status r)))
     \<or> (\<exists>ref au v x. rs_audit (ln_status r) = Some ref \<and> lw_audit w (lr_name ref) = Inr au \<and> an_uid au = lr_uid ref
          \<and> as_run (an_spec au) = run_ref r \<and> rs_execution (ln_status r) = Some (as_execution (an_spec au))
          \<and> as_version (an_spec au) = rs_version (ln_status r) \<and> au_verdict (an_status au) = Some v
          \<and> ws_error (an_status au) = [] \<and> ws_message (an_status au) \<noteq> []
          \<and> s2 = with_conditions (accept_audit au v x (ln_status r)))"
    using assms(1) unfolding observe_audit_def Let_def
    by (auto simp: on_ok_Saved on_found_Saved waiting_def split: if_splits option.splits dest!: save_status_Saved)
  then show ?thesis
  proof (elim disjE exE conjE)
    fix ref au v x
    assume "rs_audit (ln_status r) = Some ref" "lw_audit w (lr_name ref) = Inr au" "an_uid au = lr_uid ref"
      "as_run (an_spec au) = run_ref r" "rs_execution (ln_status r) = Some (as_execution (an_spec au))"
      "as_version (an_spec au) = rs_version (ln_status r)" "au_verdict (an_status au) = Some v"
      "ws_error (an_status au) = []" "ws_message (an_status au) \<noteq> []"
      "s2 = with_conditions (accept_audit au v x (ln_status r))"
    then show ?thesis using assms(2) by (intro disjI2) (simp add: audit_accepted_def)
  qed simp
qed

lemma decide_evidence:
  assumes "decide cfg w r msg d s = Saved s2"
  shows "evidence_from s s2"
proof -
  from assms consider
      (bad) x where "s2 = with_conditions (failed_round x s)"
    | (cli) ref where "s2 = with_conditions (s\<lparr>rs_execution := Some ref, rs_last_audit := None, rs_phase := ''Executing''\<rparr>)"
    | (ask) "s2 = with_conditions (s\<lparr>rs_phase := ''WaitingForHuman'', rs_human_reason := ''ask''\<rparr>)"
    | (fin) "s2 = with_conditions ((append_round ''done'' (dc_summary d) [msg] s)
           \<lparr>rs_phase := ''Succeeded'', rs_summary := dc_summary d\<rparr>)"
    unfolding decide_def Let_def
    by (auto simp: on_ok_Saved split: if_splits sum.splits dest!: save_status_Saved)
  then show ?thesis by cases (simp_all add: evidence_from_def)
qed

lemma plan_round_evidence:
  assumes "plan_round e cfg w r = Saved s2"
  shows "evidence_from (ln_status r) s2"
proof -
  obtain i where "(\<exists>x. s2 = with_conditions (failed_round x ((ln_status r)\<lparr>rs_manager := i\<rparr>)))
      \<or> (\<exists>d. decide cfg w r i d (adopt_contract d ((ln_status r)\<lparr>rs_manager := i\<rparr>)) = Saved s2)"
    using assms unfolding plan_round_def Let_def
    by (auto simp: on_ok_Saved waiting_def split: if_splits sum.splits dest!: save_status_Saved)
  then show ?thesis
  proof (elim disjE exE)
    fix d assume "decide cfg w r i d (adopt_contract d ((ln_status r)\<lparr>rs_manager := i\<rparr>)) = Saved s2"
    from decide_evidence [OF this] show ?thesis by (simp add: evidence_from_def)
  qed (simp add: evidence_from_def)
qed

lemma human_answered_evidence: "evidence_from s (human_answered res s)"
  by (simp add: human_answered_def accept_answer_def Let_def evidence_from_def)

lemma await_human_evidence:
  assumes "await_human cfg w r = Saved s2"
  shows "evidence_from (ln_status r) s2"
proof -
  have "(\<exists>i. s2 = with_conditions ((ln_status r)\<lparr>rs_human := i\<rparr>))
      \<or> (\<exists>res. s2 = with_conditions (human_answered res (ln_status r)))"
    using assms unfolding await_human_def Let_def
    by (auto simp: on_ok_Saved waiting_def split: if_splits dest!: save_status_Saved)
  then show ?thesis
  proof (elim disjE exE)
    fix res assume "s2 = with_conditions (human_answered res (ln_status r))"
    then show ?thesis using human_answered_evidence by simp
  qed (simp add: evidence_from_def)
qed

lemma receive_inputs_evidence:
  assumes "receive_inputs e w r = Saved s2"
  shows "evidence_from (ln_status r) s2"
proof -
  have "s2 = with_conditions ((ln_status r)\<lparr>rs_phase := ''Planning''\<rparr>)
      \<or> (\<exists>u ms. s2 = with_conditions ((take_inputs e u ms (ln_status r))\<lparr>rs_phase := ''Planning''\<rparr>))"
    using assms by (auto simp: receive_inputs_def Let_def on_ok_Saved split: if_splits dest!: save_status_Saved)
  then show ?thesis
  proof (elim disjE exE)
    fix u ms assume s2: "s2 = with_conditions ((take_inputs e u ms (ln_status r))\<lparr>rs_phase := ''Planning''\<rparr>)"
    show ?thesis using take_inputs_evidence_cases [of e u ms "ln_status r"] by (simp add: s2 evidence_from_def)
  qed (simp add: evidence_from_def)
qed

lemma observe_execution_evidence:
  assumes "observe_execution w r = Saved s2"
  shows "evidence_from (ln_status r) s2"
proof -
  obtain ref where "s2 = with_conditions ((ln_status r)\<lparr>rs_audit := Some ref, rs_phase := ''Auditing''\<rparr>)"
    using assms unfolding observe_execution_def Let_def
    by (auto simp: on_ok_Saved on_found_Saved waiting_def split: if_splits option.splits dest!: save_status_Saved)
  then show ?thesis by (simp add: evidence_from_def)
qed

lemma finish_lh_evidence:
  assumes "finish_lh cfg w r = Saved s2"
  shows "evidence_from (ln_status r) s2"
  using finish_lh_keeps [OF assms] by (auto simp: evidence_from_def)

lemma run_phase_evidence:
  assumes run: "run_phase e cfg w r = Saved s2"
  shows "evidence_from (ln_status r) s2
    \<or> (\<exists>a. rs_last_audit s2 = Some a \<and> audit_accepted r w (ln_status r) a
          \<and> rs_inputs s2 = rs_inputs (ln_status r) \<and> rs_guidance s2 = rs_guidance (ln_status r))"
proof -
  let ?s = "ln_status r"
  have "finish_lh cfg w r = Saved s2 \<or> receive_inputs e w r = Saved s2 \<or> await_human cfg w r = Saved s2
      \<or> observe_execution w r = Saved s2 \<or> (rs_phase ?s = ''Auditing'' \<and> observe_audit w r = Saved s2)
      \<or> plan_round e cfg w r = Saved s2
      \<or> s2 = with_conditions (?s\<lparr>rs_phase := ''Stopped'', rs_summary := ''Maximum round budget reached.''\<rparr>)
      \<or> s2 = with_conditions (?s\<lparr>rs_phase := ''WaitingForHuman'', rs_human_reason := ''budget''\<rparr>)"
    using run unfolding run_phase_def Let_def
    by (auto split: if_splits dest!: save_status_Saved)
  then show ?thesis
    using finish_lh_evidence receive_inputs_evidence await_human_evidence observe_execution_evidence
      observe_audit_evidence plan_round_evidence
    by (elim disjE) (blast | simp add: evidence_from_def)+
qed

lemma manage_evidence:
  assumes run: "manage e cfg w r = Saved s2" and s: "run_kept (ln_status r)"
  shows "evidence_from (ln_status r) s2
    \<or> (\<exists>a. rs_last_audit s2 = Some a \<and> audit_accepted r w (ln_status r) a
          \<and> rs_inputs s2 = rs_inputs (ln_status r) \<and> rs_guidance s2 = rs_guidance (ln_status r))"
proof (cases "rs_phase (ln_status r) = []")
  case True
  then have "ln_status r = no_status" using s by (auto simp: run_kept_def status_parts lh_terminal_def)
  then show ?thesis
    using run by (auto simp: manage_def Let_def evidence_from_def first_status_def no_status_def
        dest!: save_status_Saved)
next
  case False
  with run have "s2 = with_conditions ((ln_status r)\<lparr>rs_phase := ''Failed'', rs_summary := ''LongHorizon Run deadline exceeded.''\<rparr>)
      \<or> run_phase e cfg w r = Saved s2"
    by (auto simp: manage_def Let_def on_ok_Saved split: if_splits dest!: save_status_Saved)
  then show ?thesis using run_phase_evidence by (elim disjE) (simp add: evidence_from_def, blast)
qed

lemma audit_accepted_run [simp]:
  "audit_accepted (r\<lparr>ln_status := s1\<rparr>) w s a = audit_accepted r w s a"
  by (simp add: audit_accepted_def run_ref_def)

lemma lh_reach_evidence:
  assumes "lh_reach e cfg r no_status s" and "ok_config cfg (ln_spec r)" and "rs_last_audit s = Some a"
  shows "\<exists>s0 w. lh_reach e cfg r no_status s0 \<and> audit_accepted r w s0 a
     \<and> rs_inputs s0 = rs_inputs s \<and> rs_guidance s0 = rs_guidance s"
proof -
  have "lh_reach e cfg r n s \<Longrightarrow> n = no_status \<Longrightarrow> rs_last_audit s = Some a \<Longrightarrow>
      \<exists>s0 w. lh_reach e cfg r no_status s0 \<and> audit_accepted r w s0 a
        \<and> rs_inputs s0 = rs_inputs s \<and> rs_guidance s0 = rs_guidance s" for n
  proof (induction rule: lh_reach.induct)
    case (here s)
    then show ?case by (simp add: no_status_def)
  next
    case (again s s1 w s2)
    have kept: "run_kept s1"
      using lh_reach_kept [OF again.hyps(1) assms(2)] again.prems(1) by (simp add: run_kept_def)
    from manage_evidence [OF again.hyps(2)] kept
    have "evidence_from s1 s2 \<or> (\<exists>a. rs_last_audit s2 = Some a \<and> audit_accepted r w s1 a
        \<and> rs_inputs s2 = rs_inputs s1 \<and> rs_guidance s2 = rs_guidance s1)"
      by simp
    then show ?case
    proof
      assume "evidence_from s1 s2"
      then show ?thesis using again.IH again.prems by (simp add: evidence_from_def)
    next
      assume "\<exists>a. rs_last_audit s2 = Some a \<and> audit_accepted r w s1 a
        \<and> rs_inputs s2 = rs_inputs s1 \<and> rs_guidance s2 = rs_guidance s1"
      then have "audit_accepted r w s1 a" "rs_inputs s2 = rs_inputs s1" "rs_guidance s2 = rs_guidance s1"
        using again.prems(2) by auto
      moreover have "lh_reach e cfg r no_status s1" using again.hyps(1) again.prems(1) by simp
      ultimately show ?thesis by force
    qed
  qed
  with assms show ?thesis by blast
qed

section \<open>The end of a Run\<close>

lemma run_phase_success:
  assumes run: "run_phase e cfg w r = Saved s'" and s: "status_ok (ln_status r)"
    and live: "\<not> lh_terminal (rs_phase (ln_status r))" and succ: "rs_phase s' = ''Succeeded''"
  shows "rs_phase (ln_status r) = ''Planning'' \<and> rs_round (ln_status r) \<le> rs_budget (ln_status r)
     \<and> can_finish (ln_status r) \<and> rs_last_audit s' = rs_last_audit (ln_status r)
     \<and> rs_version s' = rs_version (ln_status r) \<and> rs_contract s' = rs_contract (ln_status r)"
proof -
  let ?s = "ln_status r"
  have t: "lh_terminal (rs_phase s')" using succ by (simp add: lh_terminal_def)
  have ans: "rs_phase (human_answered res ?s) \<noteq> ''Succeeded''" for res
    by (simp add: human_answered_def accept_answer_def Let_def)
  have "rs_phase ?s = ''Receiving'' \<or> rs_phase ?s = ''WaitingForHuman''
      \<or> rs_phase ?s = ''Executing'' \<or> rs_phase ?s = ''Auditing'' \<or> rs_phase ?s = ''Planning''"
    using s live unfolding status_ok_def lh_phase_def by blast
  then show ?thesis
  proof (elim disjE)
    assume p: "rs_phase ?s = ''Receiving''"
    then have "receive_inputs e w r = Saved s'" using run by (simp add: run_phase_def Let_def lh_terminal_def)
    from receive_inputs_ok(2) [OF this s p] t show ?thesis by simp
  next
    assume p: "rs_phase ?s = ''WaitingForHuman''"
    then have "await_human cfg w r = Saved s'" using run by (simp add: run_phase_def Let_def lh_terminal_def)
    then have "(\<exists>i. s' = with_conditions (?s\<lparr>rs_human := i\<rparr>)) \<or> (\<exists>res. s' = with_conditions (human_answered res ?s))"
      unfolding await_human_def Let_def
      by (auto simp: on_ok_Saved waiting_def split: if_splits dest!: save_status_Saved)
    then show ?thesis using p succ ans by (elim disjE exE) simp_all
  next
    assume p: "rs_phase ?s = ''Executing''"
    then have "observe_execution w r = Saved s'" using run by (simp add: run_phase_def Let_def lh_terminal_def)
    from observe_execution_ok(2) [OF this s p] t show ?thesis by simp
  next
    assume p: "rs_phase ?s = ''Auditing''"
    then have run': "observe_audit w r = Saved s'" using run by (simp add: run_phase_def Let_def lh_terminal_def)
    have "in_round ?s"
      using s by (rule status_ok_in_round) (use s p in \<open>simp_all add: status_ok_def budget_kept_def\<close>)
    from observe_audit_ok(2) [OF run' this] t show ?thesis by simp
  next
    assume p: "rs_phase ?s = ''Planning''"
    show ?thesis
    proof (cases "rs_budget ?s < rs_round ?s")
      case True
      then have "s' = with_conditions (?s\<lparr>rs_phase := ''Stopped'', rs_summary := ''Maximum round budget reached.''\<rparr>)
          \<or> s' = with_conditions (?s\<lparr>rs_phase := ''WaitingForHuman'', rs_human_reason := ''budget''\<rparr>)"
        using run p by (auto simp: run_phase_def Let_def lh_terminal_def split: if_splits dest!: save_status_Saved)
      then show ?thesis using succ by (elim disjE) simp_all
    next
      case False
      then have run': "plan_round e cfg w r = Saved s'" using run p by (simp add: run_phase_def Let_def lh_terminal_def)
      have "in_round ?s" using s by (rule status_ok_in_round) (use p False in simp_all)
      from plan_round_ok(2) [OF run' this p t] p False show ?thesis by simp
    qed
  qed
qed

lemma manage_success:
  assumes run: "manage e cfg w r = Saved s'" and s: "run_kept (ln_status r)"
    and live: "\<not> lh_terminal (rs_phase (ln_status r))" and succ: "rs_phase s' = ''Succeeded''"
  shows "rs_phase (ln_status r) = ''Planning'' \<and> rs_round (ln_status r) \<le> rs_budget (ln_status r)
     \<and> can_finish (ln_status r) \<and> rs_last_audit s' = rs_last_audit (ln_status r)
     \<and> rs_version s' = rs_version (ln_status r) \<and> rs_contract s' = rs_contract (ln_status r)"
proof (cases "rs_phase (ln_status r) = []")
  case True
  then have "s' = with_conditions (first_status cfg (ln_spec r) (ln_status r))"
    using run by (auto simp: manage_def Let_def dest!: save_status_Saved)
  then show ?thesis using succ by (simp add: first_status_def)
next
  case False
  then have ok: "status_ok (ln_status r)" using s by (auto simp: run_kept_def no_status_def)
  from False run have "s' = with_conditions ((ln_status r)\<lparr>rs_phase := ''Failed'', rs_summary := ''LongHorizon Run deadline exceeded.''\<rparr>)
      \<or> run_phase e cfg w r = Saved s'"
    by (auto simp: manage_def Let_def on_ok_Saved split: if_splits dest!: save_status_Saved)
  then have "run_phase e cfg w r = Saved s'" using succ by auto
  then show ?thesis using ok live succ by (rule run_phase_success)
qed

text \<open>What may still be written of a finished Run.\<close>

definition sealed :: "run_status \<Rightarrow> run_status \<Rightarrow> bool" where
  "sealed s s' \<longleftrightarrow>
     (\<exists>f t c. s' = s\<lparr>rs_final := f, rs_finished := t, rs_conditions := c\<rparr>
        \<and> (rs_final s \<noteq> [] \<longrightarrow> f = rs_final s) \<and> (rs_finished s \<noteq> None \<longrightarrow> t = rs_finished s))"

lemma sealed_refl: "sealed s s"
  unfolding sealed_def by (rule exI [of _ "rs_final s"], rule exI [of _ "rs_finished s"],
    rule exI [of _ "rs_conditions s"]) simp

lemma sealed_trans: "sealed s s1 \<Longrightarrow> sealed s1 s2 \<Longrightarrow> sealed s s2"
  unfolding sealed_def by (elim exE conjE) (simp, blast)

lemma manage_sealed:
  assumes run: "manage e cfg w r = Saved s'" and t: "lh_terminal (rs_phase (ln_status r))"
  shows "sealed (ln_status r) s'"
proof -
  have ne: "rs_phase (ln_status r) \<noteq> []" using t by (auto simp: lh_terminal_def)
  then have "run_phase e cfg w r = Saved s'"
    using run t by (auto simp: manage_def Let_def on_ok_Saved)
  then have fin: "finish_lh cfg w r = Saved s'" using t by (simp add: run_phase_def Let_def)
  have none: "rs_finished (ln_status r) = None"
    using fin by (auto simp: finish_lh_def Let_def not_found_ok_def split: option.splits if_splits sum.splits)
  have c: "\<exists>c. with_conditions x = x\<lparr>rs_conditions := c\<rparr>" for x by (auto simp: with_conditions_def)
  from finish_lh_keeps [OF fin] show ?thesis
  proof (elim disjE exE conjE)
    fix i assume s': "s' = with_conditions ((ln_status r)\<lparr>rs_final := i\<rparr>)" "rs_final (ln_status r) = []"
    obtain c where "s' = (ln_status r)\<lparr>rs_final := i, rs_conditions := c\<rparr>" using c s'(1) by blast
    then show ?thesis using s'(2) none unfolding sealed_def
      by (intro exI [of _ i] exI [of _ None] exI [of _ c]) simp
  next
    assume s': "s' = with_conditions ((ln_status r)\<lparr>rs_finished := Some (lw_now w)\<rparr>)"
    obtain c where "s' = (ln_status r)\<lparr>rs_finished := Some (lw_now w), rs_conditions := c\<rparr>" using c s' by blast
    then show ?thesis using none unfolding sealed_def
      by (intro exI [of _ "rs_final (ln_status r)"] exI [of _ "Some (lw_now w)"] exI [of _ c]) simp
  qed
qed

lemma sealed_phase: "sealed s s' \<Longrightarrow> rs_phase s' = rs_phase s"
  by (auto simp: sealed_def)

lemma lh_reach_sealed:
  assumes "lh_reach e cfg r s s'" and "lh_terminal (rs_phase s)"
  shows "sealed s s'"
  using assms
proof (induction rule: lh_reach.induct)
  case (again s s1 w s2)
  then have "sealed s s1" by simp
  moreover have "sealed s1 s2"
    using manage_sealed [OF again.hyps(2)] sealed_phase [OF \<open>sealed s s1\<close>] again.prems by simp
  ultimately show ?case by (rule sealed_trans)
qed (rule sealed_refl)

section \<open>Inputs\<close>

definition user_input :: "cmessage \<Rightarrow> bool" where
  "user_input m \<longleftrightarrow> ar_kind (cm_source m) = ActorKindUser \<and> \<not> is_human_reply (cm_content m)"

definition refused_input :: "env \<Rightarrow> string \<Rightarrow> cmessage \<Rightarrow> run_status \<Rightarrow> bool" where
  "refused_input e u m s \<longleftrightarrow> ar_key (cm_source m) \<noteq> u \<or> 100 \<le> length (rs_inputs s)
     \<or> 16000 < length (rs_guidance s) + length (message_text e m) + length (cm_id m) + 8"

definition adopt_input :: "env \<Rightarrow> cmessage \<Rightarrow> run_status \<Rightarrow> run_status" where
  "adopt_input e m s = s\<lparr>rs_guidance := rs_guidance s @ newline @ ''['' @ cm_id m @ ''] '' @ message_text e m,
     rs_inputs := rs_inputs s @ [cm_id m], rs_version := rs_version s + 1, rs_last_audit := None,
     rs_through := cm_id m\<rparr>"

lemma adopt_input_sel [simp]:
  "rs_inputs (adopt_input e m s) = rs_inputs s @ [cm_id m]" "rs_through (adopt_input e m s) = cm_id m"
  "rs_version (adopt_input e m s) = rs_version s + 1"
  by (simp_all add: adopt_input_def)

lemma take_inputs_Cons:
  "take_inputs e u (m # ms) s =
     (if \<not> user_input m then take_inputs e u ms (s\<lparr>rs_through := cm_id m\<rparr>)
      else if refused_input e u m s then s else take_inputs e u ms (adopt_input e m s))"
  by (simp add: user_input_def refused_input_def adopt_input_def Let_def)

text \<open>A batch is taken from its front; what is left starts with an input that was refused.\<close>

definition inputs_taken :: "string \<Rightarrow> cmessage list \<Rightarrow> nat \<Rightarrow> run_status \<Rightarrow> run_status \<Rightarrow> bool" where
  "inputs_taken u ms n s s' \<longleftrightarrow> n \<le> length ms
     \<and> rs_inputs s' = rs_inputs s @ map cm_id (filter user_input (take n ms))
     \<and> rs_through s' = (if n = 0 then rs_through s else cm_id (ms ! (n - 1)))
     \<and> (\<forall>m \<in> set (take n ms). user_input m \<longrightarrow> ar_key (cm_source m) = u)
     \<and> (n < length ms \<longrightarrow> user_input (ms ! n))
     \<and> rs_version s' = rs_version s + int (length (filter user_input (take n ms)))"

lemma inputs_taken_Cons:
  assumes "inputs_taken u ms n s1 s'" and "rs_through s1 = cm_id m"
    and "rs_inputs s1 = rs_inputs s @ (if user_input m then [cm_id m] else [])"
    and "rs_version s1 = rs_version s + (if user_input m then 1 else 0)"
    and "user_input m \<longrightarrow> ar_key (cm_source m) = u"
  shows "inputs_taken u (m # ms) (Suc n) s s'"
  using assms by (simp add: inputs_taken_def nth_Cons')

lemma take_inputs_prefix: "\<exists>n. inputs_taken u ms n s (take_inputs e u ms s)"
proof (induction ms arbitrary: s)
  case Nil
  then show ?case by (simp add: inputs_taken_def)
next
  case (Cons m ms)
  consider (other) "\<not> user_input m" | (refused) "user_input m" "refused_input e u m s"
    | (taken) "user_input m" "\<not> refused_input e u m s" by blast
  then show ?case
  proof cases
    case other
    obtain n where "inputs_taken u ms n (s\<lparr>rs_through := cm_id m\<rparr>) (take_inputs e u ms (s\<lparr>rs_through := cm_id m\<rparr>))"
      using Cons.IH by blast
    from inputs_taken_Cons [OF this, of m s] other show ?thesis
      unfolding take_inputs_Cons by auto
  next
    case refused
    then have "inputs_taken u (m # ms) 0 s s" by (simp add: inputs_taken_def)
    then show ?thesis unfolding take_inputs_Cons using refused by auto
  next
    case taken
    obtain n where "inputs_taken u ms n (adopt_input e m s) (take_inputs e u ms (adopt_input e m s))"
      using Cons.IH by blast
    from inputs_taken_Cons [OF this, of m s] taken show ?thesis
      unfolding take_inputs_Cons refused_input_def by auto
  qed
qed

end
