(* ===== verification/LhProps.thy ===== *)
theory LhProps
  imports LhFacts
begin

text \<open>
  The properties of the LongHorizon operator, with a concrete Run: a world in which the Manager
  asks for one execution, its audit is clean and complete, and the Manager then ends the Run.
\<close>

section \<open>A concrete Run\<close>

definition demo_lh_config :: lh_config where
  "demo_lh_config = config_defaults
     \<lparr>lf_run_timeout = 0, lf_retention = 0, lf_max_rounds = 0, lf_manager = [], lf_executor = [], lf_auditor = [],
      lf_manager_timeout = 0, lf_executor_timeout = 0, lf_auditor_timeout = 0, lf_human_timeout = 0\<rparr>"

definition demo_run :: lh_run where
  "demo_run =
     \<lparr>ln_name = ''r'', ln_uid = ''ru'', ln_deleting = False,
      ln_spec = \<lparr>rsp_context = [], rsp_conv = \<lparr>lr_name = ''c'', lr_uid = ''cu''\<rparr>, rsp_workspace = ''w'',
        rsp_user = ''me'', rsp_deadline = None, rsp_input = ''m0'', rsp_goal = ''goal'', rsp_max_rounds = 3\<rparr>,
      ln_status = no_status\<rparr>"

definition demo_verdict :: verdict where
  "demo_verdict = \<lparr>vd_complete = True, vd_integrity = ''clean'', vd_task_state = ''made'',
     vd_evidence = ''seen'', vd_feedback = ''none''\<rparr>"

definition demo_text :: content where
  "demo_text = Content (Some (JObj [(''blocks'', JArr [JObj [(''content'', JStr ''hi'')]])])) ''{}''"

definition demo_report :: "string \<Rightarrow> cmessage result" where
  "demo_report i = Inr
     \<lparr>cm_id = i, cm_conv = ''w'', cm_task = [], cm_source = no_actor, cm_target = no_actor, cm_reply_to = [],
      cm_status = MessageStatusFailed, cm_revision = 1, cm_content = demo_text, cm_created = 0, cm_updated = 0\<rparr>"

definition demo_call :: "call_phase \<Rightarrow> harness_call" where
  "demo_call p =
     \<lparr>hc_conv = ''w'', hc_id = ''k'', hc_effect = ''e'', hc_target = ''t'', hc_phase = p,
      hc_result = Some (text_result ''answer''), hc_message = ''m'', hc_deadline = 0, hc_error = [],
      hc_created = 0, hc_updated = 0\<rparr>"

definition demo_execution :: lh_execution where
  "demo_execution =
     \<lparr>xn_name = ''r-r1'', xn_uid = ''xu'', xn_deleting = False,
      xn_spec = \<lparr>xs_run = run_ref demo_run, xs_round = 1, xs_version = 1, xs_contract = ''goal'', xs_plan = ''plan'', xs_reports = []\<rparr>,
      xn_status = \<lparr>ws_phase = ''Completed'', ws_call = ''k'', ws_message = ''mx'', ws_error = []\<rparr>\<rparr>"

definition demo_audit :: "audit_status \<Rightarrow> lh_audit" where
  "demo_audit s =
     \<lparr>an_name = ''r-r1'', an_uid = ''au'', an_deleting = False,
      an_spec = \<lparr>as_run = run_ref demo_run, as_round = 1, as_version = 1, as_contract = ''goal'',
        as_execution = \<lparr>lr_name = ''r-r1'', lr_uid = ''xu''\<rparr>, as_execution_message = ''mx''\<rparr>,
      an_status = s\<rparr>"

definition new_audit_status :: audit_status where
  "new_audit_status = \<lparr>ws_phase = [], ws_call = [], ws_message = [], ws_error = [], au_verdict = None\<rparr>"

definition demo_world :: "audit_status \<Rightarrow> json \<Rightarrow> lh_world" where
  "demo_world a answer =
     \<lparr>lw_now = 5,
      lw_conv = (\<lambda>_. Inr \<lparr>oc_name = ''c'', oc_uid = ''cu'', oc_deleting = False, oc_object = new_kconv ''c''\<rparr>),
      lw_run = (\<lambda>_. Inr demo_run), lw_runs = (\<lambda>_. Inr []), lw_executions = (\<lambda>_. Inr []), lw_audits = (\<lambda>_. Inr []),
      lw_delete = (\<lambda>_. Inr ()), lw_commit = (\<lambda>_. Inr ()),
      lw_poll = (\<lambda>_ _. Inr \<lparr>po_end_offset = [], po_committed = [], po_messages = [], po_position = []\<rparr>),
      lw_list = (\<lambda>_ _. Inr \<lparr>mp_data = [], mp_next = []\<rparr>), lw_message = (\<lambda>_ i. demo_report i),
      lw_prompt = (\<lambda>_. Inr ''k''), lw_call = (\<lambda>_. Inr (demo_call CallSucceeded)), lw_render = (\<lambda>_. ''prompt''),
      lw_parse = (\<lambda>_. Some answer), lw_new_run = (\<lambda>_. Inr ()),
      lw_new_execution = (\<lambda>x. Inr \<lparr>lr_name = xn_name x, lr_uid = ''xu''\<rparr>),
      lw_execution = (\<lambda>_. Inr demo_execution), lw_new_audit = (\<lambda>x. Inr \<lparr>lr_name = an_name x, lr_uid = ''au''\<rparr>),
      lw_audit = (\<lambda>_. Inr (demo_audit a)), lw_ask = (\<lambda>_. Inr ''q''), lw_human = (\<lambda>_. Inl ErrNotFound),
      lw_speak = (\<lambda>_. Inr ''f''), lw_patch = (\<lambda>_. Inr ()), lw_patch_execution = (\<lambda>_. Inr ()),
      lw_patch_audit = (\<lambda>_. Inr ()), lw_err_text = (\<lambda>_. ''error'')\<rparr>"

definition sealed_world :: "json \<Rightarrow> lh_world" where
  "sealed_world answer = demo_world
     \<lparr>ws_phase = ''Completed'', ws_call = ''k'', ws_message = ''ma'', ws_error = [], au_verdict = Some demo_verdict\<rparr> answer"

definition cli_answer :: json where
  "cli_answer = JObj [(''next'', JStr ''cli''), (''summary'', JStr ''do it''), (''plan'', JStr ''plan'')]"

definition done_answer :: json where
  "done_answer = JObj [(''next'', JStr ''done''), (''summary'', JStr ''all done'')]"

definition demo_manage :: "json \<Rightarrow> run_status \<Rightarrow> run_status outcome" where
  "demo_manage answer s = manage demo_env demo_lh_config (sealed_world answer) (demo_run\<lparr>ln_status := s\<rparr>)"

text \<open>The statuses the Run goes through.\<close>

definition at_phase :: "string \<Rightarrow> run_status \<Rightarrow> run_status" where
  "at_phase p s = s\<lparr>rs_phase := p,
     rs_conditions := [(''Succeeded'', False, p, []), (''WaitingForHuman'', False, p, [])]\<rparr>"

definition demo_opened :: run_status where
  "demo_opened = at_phase ''Receiving'' (no_status\<lparr>rs_through := ''m0'', rs_inputs := [''m0''], rs_round := 1,
     rs_budget := 3, rs_contract := ''goal'', rs_version := 1\<rparr>)"

definition demo_planning :: run_status where
  "demo_planning = at_phase ''Planning'' demo_opened"

definition demo_executing :: run_status where
  "demo_executing = at_phase ''Executing'' (demo_planning\<lparr>
     rs_decision := Some \<lparr>dc_next = ''cli'', dc_summary = ''do it'', dc_plan = ''plan'', dc_contract = [],
       dc_question = [], dc_choices = [], dc_allow_other = False\<rparr>,
     rs_execution := Some \<lparr>lr_name = ''r-r1'', lr_uid = ''xu''\<rparr>, rs_manager := ''m''\<rparr>)"

definition demo_auditing :: run_status where
  "demo_auditing = at_phase ''Auditing'' (demo_executing\<lparr>rs_audit := Some \<lparr>lr_name = ''r-r1'', lr_uid = ''au''\<rparr>\<rparr>)"

definition demo_evidence :: audit_evidence where
  "demo_evidence = \<lparr>ae_execution = \<lparr>lr_name = ''r-r1'', lr_uid = ''xu''\<rparr>, ae_version = 1, ae_message = ''ma'',
     ae_verdict = demo_verdict\<rparr>"

definition demo_judged :: run_status where
  "demo_judged = at_phase ''Receiving'' (demo_auditing\<lparr>rs_round := 2, rs_failures := 1, rs_task_state := ''made'',
     rs_decision := None, rs_execution := None, rs_audit := None, rs_last_audit := Some demo_evidence,
     rs_manager := [], rs_consumed := 1,
     rs_rounds := [\<lparr>rd_index = 1, rd_decision = ''cli'', rd_summary = ''none'', rd_messages = [''m'', ''mx'', ''ma''],
        rd_execution = Some \<lparr>lr_name = ''r-r1'', lr_uid = ''xu''\<rparr>, rd_audit = Some \<lparr>lr_name = ''r-r1'', lr_uid = ''au''\<rparr>\<rparr>]\<rparr>)"

definition demo_planned :: run_status where
  "demo_planned = at_phase ''Planning'' demo_judged"

text \<open>The calls of the concrete world, evaluated once.\<close>

lemma demo_world_sel [simp]:
  "lw_now (demo_world a v) = 5" "lw_commit (demo_world a v) i = Inr ()" "lw_patch (demo_world a v) s = Inr ()"
  "lw_poll (demo_world a v) i n = Inr \<lparr>po_end_offset = [], po_committed = [], po_messages = [], po_position = []\<rparr>"
  "lw_parse (demo_world a v) = (\<lambda>_. Some v)" "lw_message (demo_world a v) c i = demo_report i"
  "lw_new_execution (demo_world a v) x = Inr \<lparr>lr_name = xn_name x, lr_uid = ''xu''\<rparr>"
  "lw_execution (demo_world a v) i = Inr demo_execution" "lw_audit (demo_world a v) i = Inr (demo_audit a)"
  "lw_new_audit (demo_world a v) y = Inr \<lparr>lr_name = an_name y, lr_uid = ''au''\<rparr>"
  "lw_speak (demo_world a v) q = Inr ''f''" "lw_run (demo_world a v) i = Inr demo_run"
  "lw_patch_audit (demo_world a v) u = Inr ()"
  by (simp_all add: demo_world_def)

lemma demo_is_live [simp]:
  "is_live (demo_world a v) \<lparr>lr_name = ''c'', lr_uid = ''cu''\<rparr> (Some \<lparr>lr_name = ''r'', lr_uid = ''ru''\<rparr>) = Inr True"
  by (simp add: is_live_def demo_world_def demo_run_def run_alive_def lh_terminal_def overdue_def no_status_def)

definition demo_invocation :: invocation where
  "demo_invocation = \<lparr>iv_report = \<lparr>rp_text = ''answer'', rp_error = []\<rparr>, iv_message = ''m'', iv_call = ''k'', iv_done = True\<rparr>"

lemma demo_invoke [simp]:
  "invoke (demo_world a v) (demo_run\<lparr>ln_status := s\<rparr>) n kind target p t = Inr demo_invocation"
  "invoke (demo_world a v) demo_run n kind target p t = Inr demo_invocation"
  by (simp_all add: invoke_def run_ref_def demo_run_def)
    (simp_all add: demo_world_def demo_call_def demo_invocation_def text_result_def result_text_def)

lemma demo_history [simp]:
  "history e w (ln_spec (demo_run\<lparr>ln_status := s\<rparr>)) = Inr []" "history e w (ln_spec demo_run) = Inr []"
  by (simp_all add: history_def demo_run_def)

definition cli_decision :: decision where
  "cli_decision = \<lparr>dc_next = ''cli'', dc_summary = ''do it'', dc_plan = ''plan'', dc_contract = [],
       dc_question = [], dc_choices = [], dc_allow_other = False\<rparr>"

definition done_decision :: decision where
  "done_decision = \<lparr>dc_next = ''done'', dc_summary = ''all done'', dc_plan = [], dc_contract = [],
       dc_question = [], dc_choices = [], dc_allow_other = False\<rparr>"

lemma role_text_answer [simp]: "role_text ''answer'' = ''answer''"
  by code_simp

lemma demo_decisions [simp]:
  "decode_decision (\<lambda>_. Some cli_answer) ''answer'' = Inr cli_decision"
  "decode_decision (\<lambda>_. Some done_answer) ''answer'' = Inr done_decision"
  by (simp_all add: decode_decision_def role_json_def cli_answer_def done_answer_def need_struct_def
      only_fields_def jfield_str_def jfield_list_def jfield_bool_def option_or_def cli_decision_def done_decision_def)

lemma int_str_demo [simp]: "int_str 1 = ''1''" "int_str 2 = ''2''"
  by code_simp+

lemma demo_clip [simp]: "clip [] = []" "clip ''none'' = ''none''" "clip ''all done'' = ''all done''"
  by (simp_all add: clip_def)

lemma demo_text_result: "extract_result demo_text = Inr None"
  by code_simp

lemma demo_report_text [simp]:
  "read_report (demo_report i) = Inr \<lparr>rp_text = [], rp_error = ''Harness execution failed''\<rparr>"
  by (simp add: read_report_def demo_report_def report_from_def demo_text_result ended_def)

lemmas demo_statuses = demo_opened_def demo_planning_def demo_executing_def demo_auditing_def demo_judged_def
  demo_planned_def at_phase_def no_status_def demo_evidence_def

lemmas demo_manager = demo_manage_def sealed_world_def manage_def run_phase_def on_ok_def on_found_def
  save_status_def with_conditions_def lh_terminal_def Let_def

lemma demo_step1: "demo_manage cli_answer no_status = Saved demo_opened"
  by (simp add: demo_manager demo_statuses first_status_def) (simp add: demo_run_def)

lemma demo_step2: "demo_manage cli_answer demo_opened = Saved demo_planning"
  by (simp add: demo_manager demo_statuses receive_inputs_def) (simp add: demo_run_def overdue_def)

lemma demo_step3: "demo_manage cli_answer demo_planning = Saved demo_executing"
  by (simp add: demo_manager demo_statuses plan_round_def demo_invocation_def decide_def adopt_contract_def
      decision_bounded_def new_execution_def issued_execution_def cli_decision_def)
    (simp add: demo_run_def overdue_def)

lemma demo_step4: "demo_manage cli_answer demo_executing = Saved demo_auditing"
  by (simp add: demo_manager demo_statuses observe_execution_def demo_execution_def new_audit_def issued_audit_def)
    (simp add: demo_run_def overdue_def)

lemma demo_step5: "demo_manage cli_answer demo_auditing = Saved demo_judged"
  by (simp add: demo_manager demo_statuses observe_audit_def demo_audit_def accept_audit_def advance_round_def
      append_round_def wait_after_failures_def last_rounds_def demo_verdict_def run_ref_def)
    (simp add: demo_run_def overdue_def)

lemma demo_step6: "demo_manage cli_answer demo_judged = Saved demo_planned"
  by (simp add: demo_manager demo_statuses receive_inputs_def) (simp add: demo_run_def overdue_def)


definition demo_succeeded :: run_status where
  "demo_succeeded = demo_planned\<lparr>rs_phase := ''Succeeded'', rs_summary := ''all done'', rs_manager := ''m'',
     rs_decision := Some \<lparr>dc_next = ''done'', dc_summary = ''all done'', dc_plan = [], dc_contract = [],
       dc_question = [], dc_choices = [], dc_allow_other = False\<rparr>,
     rs_conditions := [(''Succeeded'', True, ''Succeeded'', ''all done''), (''WaitingForHuman'', False, ''Succeeded'', ''all done'')],
     rs_rounds := rs_rounds demo_planned @ [\<lparr>rd_index = 2, rd_decision = ''done'', rd_summary = ''all done'',
       rd_messages = [''m''], rd_execution = None, rd_audit = None\<rparr>]\<rparr>"

lemma demo_step7: "demo_manage done_answer demo_planned = Saved demo_succeeded"
  by (simp add: demo_manager demo_statuses demo_succeeded_def plan_round_def demo_invocation_def decide_def
      adopt_contract_def decision_bounded_def done_decision_def can_finish_def demo_verdict_def append_round_def
      last_rounds_def)
    (simp add: demo_run_def overdue_def)

lemma demo_run_conv [simp]: "rsp_conv (ln_spec demo_run) = \<lparr>lr_name = ''c'', lr_uid = ''cu''\<rparr>"
  "ln_name demo_run = ''r''" "ln_uid demo_run = ''ru''"
  by (simp_all add: demo_run_def)

lemma demo_reach: "lh_reach demo_env demo_lh_config demo_run no_status demo_planned"
  by (rule lh_reach.again [OF lh_reach.again [OF lh_reach.again [OF lh_reach.again [OF lh_reach.again
      [OF lh_reach.again [OF lh_reach.here
        demo_step1 [unfolded demo_manage_def]] demo_step2 [unfolded demo_manage_def]]
        demo_step3 [unfolded demo_manage_def]] demo_step4 [unfolded demo_manage_def]]
        demo_step5 [unfolded demo_manage_def]] demo_step6 [unfolded demo_manage_def]])

lemma demo_config_ok: "ok_config demo_lh_config (ln_spec demo_run)"
  by (simp add: ok_config_def demo_lh_config_def config_defaults_def demo_run_def)

lemma demo_phases [simp]: "rs_phase demo_planned = ''Planning''" "rs_phase demo_succeeded = ''Succeeded''"
  by (simp_all add: demo_planned_def at_phase_def demo_succeeded_def)

section \<open>The end of a Run\<close>

text \<open>
  C8: a Run ends as Succeeded only on evidence. The Manager is in its Planning phase and within its
  budget, the last audit found the work complete and clean with evidence under the current version
  of the contract, and that verdict was accepted, in an earlier status of the same Run, from an
  audit of the Run's own execution; no user input and no human answer has been added since.
\<close>
theorem run_succeeds_on_evidence:
  assumes "lh_reach e cfg r no_status s" and "ok_config cfg (ln_spec r)"
    and "manage e cfg w (r\<lparr>ln_status := s\<rparr>) = Saved s'"
    and "\<not> lh_terminal (rs_phase s)" and "rs_phase s' = ''Succeeded''"
  shows "rs_phase s = ''Planning'' \<and> rs_round s \<le> rs_budget s \<and> rs_contract s' = rs_contract s
    \<and> (\<exists>a s0 w0. rs_last_audit s' = Some a \<and> ae_version a = rs_version s' \<and> vd_complete (ae_verdict a)
         \<and> vd_integrity (ae_verdict a) = ''clean'' \<and> vd_evidence (ae_verdict a) \<noteq> []
         \<and> lh_reach e cfg r no_status s0 \<and> audit_accepted r w0 s0 a
         \<and> rs_inputs s0 = rs_inputs s \<and> rs_guidance s0 = rs_guidance s)"
proof -
  have "run_kept s" using lh_reach_kept [OF assms(1,2)] by (simp add: run_kept_def)
  then have M: "rs_phase s = ''Planning''" "rs_round s \<le> rs_budget s" "can_finish s"
    "rs_last_audit s' = rs_last_audit s" "rs_version s' = rs_version s" "rs_contract s' = rs_contract s"
    using manage_success [OF assms(3)] assms(4,5) by simp_all
  then obtain a where a: "rs_last_audit s = Some a" "ae_version a = rs_version s" "vd_complete (ae_verdict a)"
    "vd_integrity (ae_verdict a) = ''clean''" "vd_evidence (ae_verdict a) \<noteq> []"
    by (auto simp: can_finish_def split: option.splits)
  then show ?thesis using M lh_reach_evidence [OF assms(1,2) a(1)] by auto
qed

theorem run_succeeds_on_evidence_witness:
  "\<exists>a s0 w0. rs_last_audit demo_succeeded = Some a \<and> vd_complete (ae_verdict a)
     \<and> lh_reach demo_env demo_lh_config demo_run no_status s0 \<and> audit_accepted demo_run w0 s0 a"
  using run_succeeds_on_evidence [OF demo_reach demo_config_ok demo_step7 [unfolded demo_manage_def]]
  by (auto simp: lh_terminal_def)

text \<open>
  C9: the status of a Run stays within its bounds whatever the calls return: the round is at most
  one past the budget and the budget at most 1000, so neither counter leaves 32 bits; the inputs,
  the guidance put into prompts and the recorded rounds stay within their limits.
\<close>
theorem run_within_bounds:
  assumes "lh_reach e cfg r no_status s" and "ok_config cfg (ln_spec r)" and "rs_phase s \<noteq> []"
  shows "1 \<le> rs_round s \<and> rs_round s \<le> rs_budget s + 1 \<and> rs_budget s \<le> 1000
    \<and> rs_consumed s = rs_round s - 1 \<and> length (rs_inputs s) \<le> 100 \<and> length (rs_guidance s) \<le> 16000
    \<and> length (rs_rounds s) \<le> 50 \<and> (\<forall>x \<in> set (rs_rounds s). length (rd_summary x) \<le> 2000)"
proof -
  have "run_kept s" using lh_reach_kept [OF assms(1,2)] by (simp add: run_kept_def)
  then have "status_ok s" using assms(3) by (auto simp: run_kept_def no_status_def)
  then show ?thesis by (simp add: status_ok_def budget_kept_def inputs_bounded_def rounds_bounded_def)
qed

theorem run_within_bounds_witness: "rs_round demo_planned \<le> rs_budget demo_planned + 1"
  using run_within_bounds [OF demo_reach demo_config_ok] by simp

text \<open>
  Failures never pass three, and a Run with three failures works no further on its own: it is
  finished or waits for a human to allow another try.
\<close>
theorem failures_wait_for_human:
  assumes "lh_reach e cfg r no_status s" and "ok_config cfg (ln_spec r)"
  shows "0 \<le> rs_failures s \<and> rs_failures s \<le> 3
    \<and> (rs_failures s = 3 \<longrightarrow>
         lh_terminal (rs_phase s) \<or> (rs_phase s = ''WaitingForHuman'' \<and> rs_human_reason s = ''failure''))"
proof -
  have "run_kept s" using lh_reach_kept [OF assms] by (simp add: run_kept_def)
  then show ?thesis by (auto simp: run_kept_def no_status_def status_ok_def failures_kept_def)
qed

theorem failures_wait_for_human_witness: "rs_failures demo_planned \<le> 3"
  using failures_wait_for_human [OF demo_reach demo_config_ok] by simp

text \<open>
  A finished Run stays finished. Later reconciles only record the identity of the final message
  and the time of the end, each once; every other field of the status is final.
\<close>
theorem finished_run_is_sealed:
  assumes "lh_reach e cfg r s s'" and "lh_terminal (rs_phase s)"
  shows "\<exists>f t c. s' = s\<lparr>rs_final := f, rs_finished := t, rs_conditions := c\<rparr>
    \<and> (rs_final s \<noteq> [] \<longrightarrow> f = rs_final s) \<and> (rs_finished s \<noteq> None \<longrightarrow> t = rs_finished s)"
  using lh_reach_sealed [OF assms] by (simp add: sealed_def)

lemma demo_step8:
  "demo_manage done_answer demo_succeeded = Saved (with_conditions (demo_succeeded\<lparr>rs_final := ''f''\<rparr>))"
  by (simp add: demo_manager demo_statuses demo_succeeded_def finish_lh_def)

theorem finished_run_is_sealed_witness:
  "\<exists>f t c. with_conditions (demo_succeeded\<lparr>rs_final := ''f''\<rparr>)
     = demo_succeeded\<lparr>rs_final := f, rs_finished := t, rs_conditions := c\<rparr>"
proof -
  have "lh_reach demo_env demo_lh_config demo_run demo_succeeded (with_conditions (demo_succeeded\<lparr>rs_final := ''f''\<rparr>))"
    by (rule lh_reach.again [OF lh_reach.here demo_step8 [unfolded demo_manage_def]])
  from finished_run_is_sealed [OF this] show ?thesis by (auto simp: lh_terminal_def)
qed

section \<open>Audits and inputs\<close>

text \<open>
  When the Auditor seals its resource it writes either a verdict with no error, decoded from the
  role's answer and with its texts cut to 2000 bytes, or an error without a verdict; a verdict
  that claims completion had clean integrity and evidence.
\<close>
theorem sealed_verdict_is_sound:
  assumes "auditor e cfg w name = Worked (Some s) again" and "ws_message s \<noteq> []"
  shows "\<not> again \<and> (case au_verdict s of
      None \<Rightarrow> ws_phase s = ''Failed'' \<and> ws_error s \<noteq> []
    | Some v \<Rightarrow> ws_phase s = ''Completed'' \<and> ws_error s = []
        \<and> length (vd_task_state v) \<le> 2000 \<and> length (vd_evidence v) \<le> 2000 \<and> length (vd_feedback v) \<le> 2000
        \<and> (\<exists>text v0. decode_verdict (lw_parse w) text = Inr v0 \<and> v = clipped_verdict v0
             \<and> (vd_complete v \<longrightarrow> vd_integrity v = ''clean'' \<and> vd_evidence v0 \<noteq> [])))"
proof -
  obtain iv s0 where iv: "s = audited w iv s0" "again = (\<not> iv_done iv)" "ws_message s0 = []"
    using assms(1) unfolding auditor_def
    by (auto simp: work_found_def work_ok_def work_not_found_def patch_work_def Let_def
        split: sum.splits if_splits)
  have fin: "iv_done iv" using iv assms(2) by (auto simp: audited_def Let_def split: if_splits)
  obtain er v where j: "judged w (iv_report iv) = (er, v)" by (cases "judged w (iv_report iv)")
  have s: "ws_error s = er" "ws_phase s = (if er \<noteq> [] then ''Failed'' else ''Completed'')"
    "au_verdict s = (if er \<noteq> [] then None else v)"
    using iv(1) fin j by (simp_all add: audited_def Let_def)
  show ?thesis
  proof (cases "er = []")
    case True
    from j obtain v0 where v0: "decode_verdict (lw_parse w) (rp_text (iv_report iv)) = Inr v0" "v = Some (clipped_verdict v0)"
      "verdict_fault v0 = None" by (rule judged_cases) (use True in auto)
    then have "vd_complete (clipped_verdict v0) \<longrightarrow> vd_integrity (clipped_verdict v0) = ''clean'' \<and> vd_evidence v0 \<noteq> []"
      by (auto simp: clipped_verdict_def verdict_fault_def split: if_splits)
    moreover have "length (vd_task_state (clipped_verdict v0)) \<le> 2000" "length (vd_evidence (clipped_verdict v0)) \<le> 2000"
      "length (vd_feedback (clipped_verdict v0)) \<le> 2000"
      by (simp_all add: clipped_verdict_def length_clip)
    ultimately show ?thesis using s True iv(2) fin v0 by auto
  qed (use s iv(2) fin in simp)
qed

definition verdict_answer :: json where
  "verdict_answer = JObj [(''complete'', JBool True), (''integrity'', JStr ''clean''),
     (''task_state'', JStr ''made''), (''evidence'', JStr ''seen''), (''feedback'', JStr ''none'')]"

definition demo_auditor :: "json \<Rightarrow> audit_status worked" where
  "demo_auditor answer = auditor demo_env demo_lh_config (demo_world new_audit_status answer) ''r-r1''"

definition demo_sealed :: audit_status where
  "demo_sealed = \<lparr>ws_phase = ''Completed'', ws_call = ''k'', ws_message = ''m'', ws_error = [],
     au_verdict = Some demo_verdict\<rparr>"

lemma demo_verdict_decoded [simp]: "decode_verdict (\<lambda>_. Some verdict_answer) ''answer'' = Inr demo_verdict"
  by (simp add: decode_verdict_def role_json_def verdict_answer_def need_struct_def only_fields_def jfield_str_def
      jfield_bool_def option_or_def demo_verdict_def)

lemma demo_auditor_eval: "demo_auditor verdict_answer = Worked (Some demo_sealed) False"
proof -
  have "judged (demo_world a verdict_answer) \<lparr>rp_text = ''answer'', rp_error = []\<rparr> = ([], Some demo_verdict)" for a
    by (simp add: judged_def verdict_fault_def clipped_verdict_def) (simp add: demo_verdict_def clip_def)
  then show ?thesis
    by (simp add: demo_auditor_def auditor_def work_found_def work_ok_def demo_audit_def new_audit_status_def
        run_ref_def demo_run_conv patch_work_def audited_def demo_invocation_def demo_sealed_def Let_def)
qed

theorem sealed_verdict_is_sound_witness:
  "length (vd_evidence demo_verdict) \<le> 2000 \<and> ws_error demo_sealed = []"
  using sealed_verdict_is_sound [OF demo_auditor_eval [unfolded demo_auditor_def]]
  by (simp add: demo_sealed_def)

text \<open>
  C10: between rounds the Manager takes a front part of the polled batch: the user inputs in it are
  recorded in order, each raising the version of the contract by one, all of them the Run's own
  user's; the position moves to the last message taken and never passes an input that was not
  recorded, which is where the rest of the batch starts.
\<close>
theorem inputs_taken_in_order:
  assumes "receive_inputs e w r = Saved s'" and "length (rs_inputs (ln_status r)) < 100"
    and "lw_poll w (rs_through (ln_status r)) 32 = Inr p"
  shows "rs_phase s' = ''Planning''
    \<and> (\<exists>n \<le> length (po_messages p).
         rs_inputs s' = rs_inputs (ln_status r) @ map cm_id (filter user_input (take n (po_messages p)))
       \<and> rs_through s' = (if n = 0 then rs_through (ln_status r) else cm_id (po_messages p ! (n - 1)))
       \<and> (\<forall>m \<in> set (take n (po_messages p)). user_input m \<longrightarrow> ar_key (cm_source m) = rsp_user (ln_spec r))
       \<and> (n < length (po_messages p) \<longrightarrow> user_input (po_messages p ! n))
       \<and> rs_version s' = rs_version (ln_status r) + int (length (filter user_input (take n (po_messages p)))))"
proof -
  have s': "s' = with_conditions ((take_inputs e (rsp_user (ln_spec r)) (po_messages p) (ln_status r))\<lparr>rs_phase := ''Planning''\<rparr>)"
    using assms by (auto simp: receive_inputs_def Let_def on_ok_Saved dest!: save_status_Saved)
  obtain n where "inputs_taken (rsp_user (ln_spec r)) (po_messages p) n (ln_status r)
      (take_inputs e (rsp_user (ln_spec r)) (po_messages p) (ln_status r))"
    using take_inputs_prefix by blast
  then show ?thesis
    unfolding s' inputs_taken_def by (intro conjI exI [of _ n]) simp_all
qed

definition demo_input :: "string \<Rightarrow> cmessage" where
  "demo_input i =
     \<lparr>cm_id = i, cm_conv = ''c'', cm_task = [], cm_source = \<lparr>ar_kind = ActorKindUser, ar_key = ''me''\<rparr>,
      cm_target = no_actor, cm_reply_to = [], cm_status = MessageStatusCompleted, cm_revision = 1,
      cm_content = demo_text, cm_created = 0, cm_updated = 0\<rparr>"

definition demo_intake_world :: lh_world where
  "demo_intake_world = (demo_world new_audit_status cli_answer)
     \<lparr>lw_poll := (\<lambda>_ _. Inr \<lparr>po_end_offset = ''m2'', po_committed = ''m0'',
        po_messages = [demo_input ''m1'', demo_input ''m2''], po_position = ''m2''\<rparr>)\<rparr>"

lemma demo_receive:
  "\<exists>s'. receive_inputs demo_env demo_intake_world (demo_run\<lparr>ln_status := demo_opened\<rparr>) = Saved s'"
  by (simp add: receive_inputs_def save_status_def on_ok_def on_found_def Let_def demo_intake_world_def
      demo_world_def demo_opened_def at_phase_def)

theorem inputs_taken_in_order_witness:
  "\<exists>s'. receive_inputs demo_env demo_intake_world (demo_run\<lparr>ln_status := demo_opened\<rparr>) = Saved s'
     \<and> rs_phase s' = ''Planning''
     \<and> (\<exists>n \<le> 2. rs_inputs s' = ''m0'' # map cm_id (filter user_input (take n [demo_input ''m1'', demo_input ''m2''])))"
proof -
  obtain s' where s': "receive_inputs demo_env demo_intake_world (demo_run\<lparr>ln_status := demo_opened\<rparr>) = Saved s'"
    using demo_receive by blast
  have poll: "lw_poll demo_intake_world [] 32 = Inr \<lparr>po_end_offset = ''m2'', po_committed = ''m0'',
      po_messages = [demo_input ''m1'', demo_input ''m2''], po_position = ''m2''\<rparr>" for i
    by (simp add: demo_intake_world_def)
  have "rs_inputs demo_opened = [''m0'']" by (simp add: demo_opened_def at_phase_def)
  then show ?thesis
    using inputs_taken_in_order [OF s', of "\<lparr>po_end_offset = ''m2'', po_committed = ''m0'',
        po_messages = [demo_input ''m1'', demo_input ''m2''], po_position = ''m2''\<rparr>"] s'
    by (simp add: demo_intake_world_def numeral_2_eq_2) blast
qed

text \<open>
  Ingress opens a Run only for the first message of the inbox, a user's own input with a goal of
  1 to 16000 bytes, in a live conversation no other Run owns; the Run is named after the message, so
  a repeated reconcile cannot open a second one, and carries at most 20 context messages.
\<close>
theorem ingress_opens_unowned:
  assumes "ingress e cfg w name = Opened r"
  shows "\<exists>c runs polled m rest. lw_conv w name = Inr c \<and> \<not> oc_deleting c \<and> lw_runs w (oc_name c) = Inr runs
    \<and> rsp_conv (ln_spec r) = \<lparr>lr_name = oc_name c, lr_uid = oc_uid c\<rparr>
    \<and> (\<forall>x \<in> set runs. rsp_conv (ln_spec x) = rsp_conv (ln_spec r) \<longrightarrow> \<not> ln_deleting x \<and> rs_finished (ln_status x) \<noteq> None)
    \<and> lw_poll w [] 1 = Inr polled \<and> po_messages polled = m # rest \<and> user_input m
    \<and> ln_name r = cm_id m \<and> rsp_input (ln_spec r) = cm_id m \<and> rsp_user (ln_spec r) = ar_key (cm_source m)
    \<and> rsp_goal (ln_spec r) = message_text e m \<and> 0 < length (rsp_goal (ln_spec r)) \<and> length (rsp_goal (ln_spec r)) \<le> 16000
    \<and> length (rsp_context (ln_spec r)) \<le> 20 \<and> ln_status r = no_status"
proof -
  obtain c where c: "lw_conv w name = Inr c" "\<not> oc_deleting c"
    using assms by (auto simp: ingress_def split: sum.splits if_splits)
  let ?c = "\<lparr>lr_name = oc_name c, lr_uid = oc_uid c\<rparr>"
  obtain runs where runs: "lw_runs w (oc_name c) = Inr runs" "\<not> list_ex (owns_input ?c) runs"
    using assms c by (auto simp: ingress_def intake_ok_def Let_def split: sum.splits if_splits)
  obtain p polled where p: "participant_state_of (oc_object c) lh_consumer = Some p" "lw_poll w [] 1 = Inr polled"
    using assms c runs by (auto simp: ingress_def intake_ok_def Let_def split: sum.splits if_splits option.splits)
  obtain m rest where m: "po_messages polled = m # rest"
    using assms c runs p by (auto simp: ingress_def intake_ok_def Let_def split: if_splits list.splits)
  have u: "user_input m" and op: "open_run e cfg w ?c (ps_conv p) (po_position polled) m = Opened r"
    using assms c runs p m
    by (auto simp: ingress_def intake_ok_def Let_def skip_input_def user_input_def split: if_splits sum.splits)
  obtain hist where r: "r = opened_run cfg (lw_now w) \<lparr>lr_name = oc_name c, lr_uid = oc_uid c\<rparr> (ps_conv p) m (message_text e m) hist"
    "message_text e m \<noteq> []" "length (message_text e m) \<le> 16000"
    using op unfolding open_run_def
    by (auto simp: intake_ok_def Let_def skip_input_def split: sum.splits if_splits)
  have ctx: "length (context_refs i ms) \<le> 20" for i ms by (simp add: context_refs_def Let_def)
  have own: "\<forall>x \<in> set runs. rsp_conv (ln_spec x) = \<lparr>lr_name = oc_name c, lr_uid = oc_uid c\<rparr>
      \<longrightarrow> \<not> ln_deleting x \<and> rs_finished (ln_status x) \<noteq> None"
    using runs(2) by (auto simp: list_ex_iff owns_input_def)
  show ?thesis
    by (intro exI [of _ c] exI [of _ runs] exI [of _ polled] exI [of _ m] exI [of _ rest])
      (use c runs(1) p(2) m u own r ctx in \<open>simp add: opened_run_def\<close>)
qed

definition demo_ingress_world :: lh_world where
  "demo_ingress_world = demo_intake_world\<lparr>lw_conv := (\<lambda>_. Inr \<lparr>oc_name = ''c'', oc_uid = ''cu'', oc_deleting = False,
     oc_object = (new_kconv ''c'')\<lparr>kc_parts := [\<lparr>pt_actor = lh_consumer, pt_conv = ''w'', pt_end = ''m2''\<rparr>]\<rparr>\<rparr>)\<rparr>"

lemma demo_message_text: "message_text demo_env (demo_input i) = ''hi''"
  by (simp add: message_text_def demo_input_def demo_text_def struct_blocks_def decode_text_block_def
      need_struct_def jfield_str_def decode_choices_def jfield_list_def block_texts_def bindR_def)

lemma demo_ingress: "\<exists>r. ingress demo_env demo_lh_config demo_ingress_world ''c'' = Opened r"
proof -
  have "user_input (demo_input i)" for i
    by (simp add: user_input_def demo_input_def demo_text_def is_human_reply_def struct_blocks_def is_struct_def
        jfield_str_def bindR_def)
  then show ?thesis
    by (simp add: ingress_def demo_ingress_world_def demo_intake_world_def demo_world_def participant_state_of_def
        find_participant_def open_run_def intake_ok_def prior_messages_def is_live_def user_input_def
        demo_message_text)
qed

theorem ingress_opens_unowned_witness:
  "\<exists>r. ingress demo_env demo_lh_config demo_ingress_world ''c'' = Opened r \<and> length (rsp_context (ln_spec r)) \<le> 20"
  using demo_ingress ingress_opens_unowned by blast

end
