(* ===== verification/Outputs.thy ===== *)
theory Outputs
  imports RunFacts Humans
begin

text \<open>
  What kinds of blocks a message holds. A property of blocks that the parts of a message and its
  snapshot have is kept by loading, packing and storing them; the output of a run never holds
  a question, because an appended event may not bring one and the fold of the UI toolkit
  makes none. So a transaction of questions that names the output of a run finds no question.
\<close>

section \<open>A property of all blocks\<close>

definition held :: "(json \<Rightarrow> bool) \<Rightarrow> mcontent \<Rightarrow> bool" where
  "held Q c \<longleftrightarrow> (\<forall>(k, p) \<in> set (mc_parts c). \<forall>b \<in> set (cp_blocks p). Q b)"

definition stored_all :: "(json \<Rightarrow> bool) \<Rightarrow> env \<Rightarrow> store \<Rightarrow> string \<Rightarrow> bool" where
  "stored_all Q e s owner \<longleftrightarrow> (\<forall>k p. stored_part e s owner k = Inr p \<longrightarrow> (\<forall>b \<in> set (cp_blocks p). Q b))"

definition content_all :: "(json \<Rightarrow> bool) \<Rightarrow> content \<Rightarrow> bool" where
  "content_all Q c \<longleftrightarrow> (\<forall>v. c_val c = Some v \<longrightarrow> (\<forall>b \<in> set (jblocks v). Q b))"

lemma set_al_set: "set (al_set k v kvs) \<subseteq> insert (k, v) (set kvs)"
  by (induction k v kvs rule: al_set.induct) auto

lemma held_set: "held Q c \<Longrightarrow> (\<And>b. b \<in> set (cp_blocks p) \<Longrightarrow> Q b) \<Longrightarrow> held Q (c\<lparr>mc_parts := al_set k p (mc_parts c)\<rparr>)"
  using set_al_set [of k p "mc_parts c"] by (fastforce simp: held_def)

lemma held_cong: "mc_parts c' = mc_parts c \<Longrightarrow> held Q c' = held Q c"
  by (simp add: held_def)

lemma jblocks_set_blocks: "jblocks (set_blocks bs v) = (if is_obj v then bs else [])"
  by (cases v) (simp_all add: jblocks_def set_blocks_def)

lemma jblocks_set_version [simp]: "jblocks (set_version e v) = jblocks v"
  by (cases v) (simp_all add: jblocks_def set_version_def)

lemma jblocks_remember [simp]: "jblocks (remember_event fp v) = jblocks v"
  by (cases v) (simp_all add: jblocks_def remember_event_def)

lemma jblocks_obj: "\<not> is_obj v \<Longrightarrow> jblocks v = []"
  by (cases v) (simp_all add: jblocks_def)

text \<open>The state of a message being read or written: its cached parts, its rows and its snapshot.\<close>

definition all_blocks :: "(json \<Rightarrow> bool) \<Rightarrow> env \<Rightarrow> store \<Rightarrow> mcontent \<Rightarrow> bool" where
  "all_blocks Q e s c \<longleftrightarrow> held Q c \<and> stored_all Q e s (mc_owner c) \<and> (\<forall>b \<in> set (jblocks (mc_snap c)). Q b)"

lemma load_part_all:
  assumes "load_part e s key c = Inr (p, c')" and "held Q c" and "stored_all Q e s (mc_owner c)"
  shows "held Q c' \<and> mc_owner c' = mc_owner c \<and> mc_snap c' = mc_snap c \<and> (\<forall>b \<in> set (cp_blocks p). Q b)"
proof (cases "map_of (mc_parts c) key")
  case (Some q)
  then show ?thesis using assms map_of_SomeD [OF Some] by (fastforce simp: load_part_def held_def)
next
  case None
  then have "stored_part e s (mc_owner c) key = Inr p" "c' = c\<lparr>mc_parts := al_set key p (mc_parts c)\<rparr>"
    using assms(1) by (auto simp: load_part_def stored_part_def bindR_eq_Inr)
  then show ?thesis using assms(2,3) held_set unfolding stored_all_def by fastforce
qed

lemma new_part_all:
  assumes "new_part e b c = (r, c')" and "held Q c" and "Q b"
  shows "held Q c' \<and> mc_owner c' = mc_owner c \<and> mc_snap c' = mc_snap c"
proof -
  let ?p = "\<lparr>cp_group = r, cp_owner = mc_owner c, cp_blocks = [b], cp_dirty = True\<rparr>"
  have c': "c' = c\<lparr>mc_parts := al_set r ?p (mc_parts c), mc_tail := r, mc_uuid := Suc (mc_uuid c)\<rparr>"
    using assms(1) by (auto simp: new_part_def Let_def)
  have "held Q (c\<lparr>mc_parts := al_set r ?p (mc_parts c)\<rparr>)" by (rule held_set [OF assms(2)]) (use assms(3) in simp)
  then show ?thesis by (simp add: c' held_def)
qed

lemma put_part_all:
  assumes "held Q c" and "\<And>b. b \<in> set bs \<Longrightarrow> Q b"
  shows "held Q (put_part key p bs c) \<and> mc_owner (put_part key p bs c) = mc_owner c
     \<and> mc_snap (put_part key p bs c) = mc_snap c"
  using held_set [OF assms(1), of "p\<lparr>cp_blocks := bs, cp_dirty := True\<rparr>" key] assms(2)
  by (simp add: put_part_def)

lemma set_remove_at: "set (remove_at i xs) \<subseteq> set xs"
  using set_take_subset set_drop_subset by (fastforce simp: remove_at_def)

lemma place_all:
  assumes "place e s maxb b c = Inr (r, c')" and "held Q c" and "stored_all Q e s (mc_owner c)" and "Q b"
  shows "held Q c' \<and> mc_owner c' = mc_owner c \<and> mc_snap c' = mc_snap c"
proof (cases "orig_ref c (bid b) = []")
  case False
  let ?key = "orig_ref c (bid b)"
  obtain p c1 i where load: "load_part e s ?key c = Inr (p, c1)"
    and out: "(if part_bytes ((cp_blocks p)[i := b]) \<le> maxb \<or> length ((cp_blocks p)[i := b]) = 1
               then Inr (?key, put_part ?key p ((cp_blocks p)[i := b]) c1)
               else Inr (new_part e b (put_part ?key p (remove_at i ((cp_blocks p)[i := b])) c1)))
             = (Inr (r, c') :: (string \<times> mcontent) result)"
    using assms(1) False by (auto simp: place_def Let_def elim!: bindR_pair split: option.splits)
  note L = load_part_all [OF load assms(2,3)]
  have up: "Q x" if "x \<in> set ((cp_blocks p)[i := b])" for x
    using that set_update_subset_insert [of "cp_blocks p" i b] L assms(4) by blast
  have rm: "Q x" if "x \<in> set (remove_at i ((cp_blocks p)[i := b]))" for x
    using that set_remove_at [of i "(cp_blocks p)[i := b]"] up by blast
  note U = put_part_all [of Q c1 "(cp_blocks p)[i := b]" ?key p, OF _ up]
  note R = put_part_all [of Q c1 "remove_at i ((cp_blocks p)[i := b])" ?key p, OF _ rm]
  show ?thesis
  proof (cases "part_bytes ((cp_blocks p)[i := b]) \<le> maxb \<or> length ((cp_blocks p)[i := b]) = 1")
    case True
    then have "c' = put_part ?key p ((cp_blocks p)[i := b]) c1"
      using out unfolding if_P [OF True] sum.inject prod.inject by blast
    then show ?thesis using U L by simp
  next
    case False
    then have "new_part e b (put_part ?key p (remove_at i ((cp_blocks p)[i := b])) c1) = (r, c')"
      using out by (simp split: if_splits)
    then show ?thesis using new_part_all R L assms(4) by metis
  qed
next
  case True
  show ?thesis
  proof (cases "mc_tail c = []")
    case True
    then have "new_part e b c = (r, c')" using assms(1) \<open>orig_ref c (bid b) = []\<close> by (simp add: place_def)
    then show ?thesis using new_part_all assms(2,4) by blast
  next
    case False
    obtain p c1 where load: "load_part e s (mc_tail c) c = Inr (p, c1)"
      and out: "(if part_bytes (cp_blocks p @ [b]) \<le> maxb
                 then Inr (cp_group p, put_part (mc_tail c) p (cp_blocks p @ [b]) c1)
                 else Inr (new_part e b c1)) = (Inr (r, c') :: (string \<times> mcontent) result)"
      using assms(1) True False by (auto simp: place_def Let_def elim!: bindR_pair)
    note L = load_part_all [OF load assms(2,3)]
    have "Q x" if "x \<in> set (cp_blocks p @ [b])" for x using that L assms(4) by auto
    note U = put_part_all [of Q c1 "cp_blocks p @ [b]" "mc_tail c" p, OF _ this]
    show ?thesis
    proof (cases "part_bytes (cp_blocks p @ [b]) \<le> maxb")
      case True
      then have "c' = put_part (mc_tail c) p (cp_blocks p @ [b]) c1"
        using out unfolding if_P [OF True] sum.inject prod.inject by blast
      then show ?thesis using U L by simp
    next
      case False
      then have "new_part e b c1 = (r, c')" using out by simp
      then show ?thesis using new_part_all L assms(4) by metis
    qed
  qed
qed

lemma pack_forward_all:
  assumes "pack_forward e s cf count bytes external bs c = Inr (bs', x, c')"
    and "held Q c" and "stored_all Q e s (mc_owner c)" and "\<forall>b \<in> set bs. Q b" and "\<And>i r. Q (ref_block i r)"
  shows "held Q c' \<and> mc_owner c' = mc_owner c \<and> mc_snap c' = mc_snap c \<and> (\<forall>b \<in> set bs'. Q b)
     \<and> length bs' = length bs"
  using assms(1-4)
proof (induction bs arbitrary: count bytes external c bs' x c')
  case (Cons b bs)
  have all: "Q b" "\<forall>b \<in> set bs. Q b" using Cons.prems(4) by simp_all
  show ?case
  proof (cases "has_ref b \<or> (\<not> external \<and> orig_ref c (bid b) = [] \<and> count < cf_inline cf
                   \<and> bytes + jlen b \<le> cf_max cf)")
    case True
    then obtain ext count' bytes' bs1 where
      rest: "pack_forward e s cf count' bytes' ext bs c = Inr (bs1, x, c')" and out: "bs' = b # bs1"
      using Cons.prems(1) by (auto elim!: bindR_triple split: if_splits)
    show ?thesis using Cons.IH [OF rest Cons.prems(2,3) all(2)] out all(1) by simp
  next
    case False
    have step: "pack_forward e s cf count bytes external (b # bs) c =
        bindR (place e s (cf_max cf) b c) (\<lambda>(ref, c1).
          bindR (pack_forward e s cf count bytes True bs c1)
            (\<lambda>(bs', x, c'). Inr (ref_block (bid b) ref # bs', x, c')))"
      using False by auto
    from Cons.prems(1) [unfolded step] obtain r c1 bs1 where
      place: "place e s (cf_max cf) b c = Inr (r, c1)"
      and rest: "pack_forward e s cf count bytes True bs c1 = Inr (bs1, x, c')"
      and out: "bs' = ref_block (bid b) r # bs1"
      by (fastforce simp: bindR_eq_Inr)
    note P = place_all [OF place Cons.prems(2,3) all(1)]
    have "held Q c1" "stored_all Q e s (mc_owner c1)" using P Cons.prems(3) by simp_all
    from Cons.IH [OF rest this all(2)] show ?thesis using out P assms(5) by simp
  qed
qed simp

lemma pack_backward_all:
  assumes "pack_backward e s cf n c = Inr c'" and "held Q c" and "stored_all Q e s (mc_owner c)"
    and "\<forall>b \<in> set (jblocks (mc_snap c)). Q b" and "n \<le> length (jblocks (mc_snap c))" and "\<And>i r. Q (ref_block i r)"
  shows "held Q c' \<and> mc_owner c' = mc_owner c \<and> (\<forall>b \<in> set (jblocks (mc_snap c')). Q b)"
  using assms(1-5)
proof (induction n arbitrary: c)
  case (Suc i)
  let ?bs = "jblocks (mc_snap c)" and ?b = "jblocks (mc_snap c) ! i"
  consider "c' = c" | "pack_backward e s cf i c = Inr c'"
    | r c1 where "place e s (cf_max cf) ?b c = Inr (r, c1)" "pack_backward e s cf i
               (c1\<lparr>mc_snap := set_version e (set_blocks (?bs[i := ref_block (bid ?b) r]) (mc_snap c1))\<rparr>) = Inr c'"
  proof (cases "jlen (mc_snap c) \<le> cf_max cf")
    case True
    then show ?thesis using Suc.prems(1) that(1) by simp
  next
    case False
    show ?thesis
    proof (cases "has_ref ?b")
      case True
      then show ?thesis using Suc.prems(1) False that(2) by (simp add: Let_def)
    next
      case nr: False
      have "bindR (place e s (cf_max cf) ?b c) (\<lambda>(ref, c1). pack_backward e s cf i
               (c1\<lparr>mc_snap := set_version e (set_blocks (?bs[i := ref_block (bid ?b) ref]) (mc_snap c1))\<rparr>)) = Inr c'"
        using Suc.prems(1) False nr by (simp add: Let_def)
      then show ?thesis by (rule bindR_pair) (rule that(3))
    qed
  qed
  then show ?case
  proof cases
    case 2
    show ?thesis by (rule Suc.IH [OF 2 Suc.prems(2-4)]) (use Suc.prems(5) in simp)
  next
    case 3
    have "i < length ?bs" using Suc.prems(5) by simp
    then have "Q ?b" using Suc.prems(4) by simp
    note P = place_all [OF 3(1) Suc.prems(2,3) this]
    let ?c2 = "c1\<lparr>mc_snap := set_version e (set_blocks (?bs[i := ref_block (bid ?b) r]) (mc_snap c1))\<rparr>"
    have obj: "is_obj (mc_snap c)" using \<open>i < length ?bs\<close> jblocks_obj by fastforce
    then have bs2: "jblocks (mc_snap ?c2) = ?bs[i := ref_block (bid ?b) r]" using P by (simp add: jblocks_set_blocks)
    have "held Q ?c2" using P held_cong [of ?c2 c1] by simp
    moreover have "stored_all Q e s (mc_owner ?c2)" using P Suc.prems(3) by simp
    moreover have "\<forall>b \<in> set (jblocks (mc_snap ?c2)). Q b"
      unfolding bs2 using Suc.prems(4) assms(6) set_update_subset_insert [of ?bs i "ref_block (bid ?b) r"] by blast
    moreover have "i \<le> length (jblocks (mc_snap ?c2))" unfolding bs2 using Suc.prems(5) by simp
    ultimately have "held Q c' \<and> mc_owner c' = mc_owner ?c2 \<and> (\<forall>b \<in> set (jblocks (mc_snap c')). Q b)"
      by (rule Suc.IH [OF 3(2)])
    moreover have "mc_owner ?c2 = mc_owner c" using P by simp
    ultimately show ?thesis by metis
  next
    case 1
    then show ?thesis using Suc.prems by blast
  qed
qed simp

lemma pack_content_all:
  assumes pack: "pack_content e s cf c = Inr (stored, c')" and all: "all_blocks Q e s c" and ref: "\<And>i r. Q (ref_block i r)"
  shows "all_blocks Q e s c' \<and> mc_owner c' = mc_owner c \<and> stored = marshal (mc_snap c')"
proof -
  obtain bs x c1 c3 where fw: "pack_forward e s cf 0 0 False (jblocks (mc_snap c)) c = Inr (bs, x, c1)"
    and bw: "pack_backward e s cf (length bs)
          (c1\<lparr>mc_snap := (if x then set_version e (set_blocks bs (mc_snap c1))
                        else set_blocks bs (mc_snap c1))\<rparr>) = Inr c3"
    and out: "stored = marshal (mc_snap c3)" "c' = c3"
    using pack by (auto simp: pack_content_def Let_def elim!: bindR_triple bindR_obtain split: if_split_asm)
  note A = all [unfolded all_blocks_def]
  have F: "held Q c1 \<and> mc_owner c1 = mc_owner c \<and> mc_snap c1 = mc_snap c \<and> (\<forall>b \<in> set bs. Q b)
     \<and> length bs = length (jblocks (mc_snap c))"
    by (rule pack_forward_all [OF fw]) (use A ref in blast)+
  define c2 where "c2 = c1\<lparr>mc_snap := (if x then set_version e (set_blocks bs (mc_snap c1))
                        else set_blocks bs (mc_snap c1))\<rparr>"
  have bs2: "jblocks (mc_snap c2) = bs"
    using F jblocks_obj [of "mc_snap c"] by (cases "is_obj (mc_snap c)") (simp_all add: c2_def jblocks_set_blocks)
  have "held Q c2" using F by (simp add: c2_def held_def)
  moreover have "stored_all Q e s (mc_owner c2)" using F A by (simp add: c2_def)
  ultimately have "held Q c3 \<and> mc_owner c3 = mc_owner c2 \<and> (\<forall>b \<in> set (jblocks (mc_snap c3)). Q b)"
    by (rule pack_backward_all [OF bw [folded c2_def]]) (use F bs2 ref in simp_all)
  then show ?thesis using F A out by (simp add: all_blocks_def c2_def)
qed

lemma materialize_all:
  assumes "materialize e s i c = Inr c'" and "all_blocks Q e s c"
  shows "all_blocks Q e s c' \<and> mc_owner c' = mc_owner c"
proof -
  note A = assms(2) [unfolded all_blocks_def]
  consider "c' = c" | k ref p c1 body where "load_part e s ref c = Inr (p, c1)" "find_block i (cp_blocks p) = Some body"
      "c' = c1\<lparr>mc_snap := set_blocks ((jblocks (mc_snap c1))[k := body]) (mc_snap c1)\<rparr>"
    using assms(1) by (auto simp: materialize_def elim!: bindR_pair split: option.splits)
  then show ?thesis
  proof cases
    case 2
    have "held Q c1 \<and> mc_owner c1 = mc_owner c \<and> mc_snap c1 = mc_snap c \<and> (\<forall>b \<in> set (cp_blocks p). Q b)"
      using load_part_all [OF 2(1)] A by blast
    note L = this
    have "Q body" using 2(2) L by (auto simp: find_block_def find_Some_iff)
    moreover have "set ((jblocks (mc_snap c))[k := body]) \<subseteq> insert body (set (jblocks (mc_snap c)))"
      by (rule set_update_subset_insert)
    ultimately have "\<forall>b \<in> set ((jblocks (mc_snap c))[k := body]). Q b" using A by blast
    then show ?thesis using L A 2(3) by (simp add: all_blocks_def jblocks_set_blocks held_def)
  qed (use assms(2) in simp)
qed

lemma open_content_all:
  assumes "open_content e owner content n = Inr c" and "content_all Q content"
  shows "held Q c" "mc_owner c = owner" "\<forall>b \<in> set (jblocks (mc_snap c)). Q b"
proof -
  obtain snap where snap: "decode_object content = Inr snap"
    and c: "c = scan_blocks 0 (jblocks snap)
              \<lparr>mc_owner = owner, mc_snap = snap, mc_pos = [], mc_refs = [], mc_parts = [],
               mc_tail = [], mc_uuid = n\<rparr>"
    using assms(1) by (auto simp: open_content_def elim!: bindR_obtain split: if_splits)
  show "held Q c" "mc_owner c = owner" by (simp_all add: c held_def)
  have "c_val content = Some snap \<or> snap = JObj []"
    using snap by (auto simp: decode_object_def split: option.splits json.splits)
  then show "\<forall>b \<in> set (jblocks (mc_snap c)). Q b"
    using assms(2) by (auto simp: c content_all_def jblocks_def)
qed

section \<open>Plain blocks\<close>

text \<open>Neither a question nor a frame, which stands for a block it does not show.\<close>

definition plain :: "env \<Rightarrow> json \<Rightarrow> bool" where
  "plain e b \<longleftrightarrow> \<not> btype_is ''ask'' b \<and> \<not> btype_is ''confirm'' b \<and> \<not> btype_is (e_frame_type e) b"

text \<open>
  What is assumed of the fold of the UI toolkit: a block of a snapshot after a set, append or
  end event has the type of a block before the event or the type the event carries, and the end
  event carries no block.
\<close>

definition fold_law :: "env \<Rightarrow> bool" where
  "fold_law e \<longleftrightarrow>
     (\<forall>v ev v' b t. e_apply e v ev = Inr v' \<and> ev_op ev \<in> {OpSet, OpAppend, OpEnd} \<and> b \<in> set (jblocks v') \<and> btype_is t b
        \<longrightarrow> (\<exists>a \<in> set (jblocks v). btype_is t a) \<or> ev_get ''type'' ev = Some (JStr t))
   \<and> (\<forall>n. ev_block (e_end e n) = None)"

lemma fold_lawD:
  assumes "fold_law e" and "e_apply e v ev = Inr v'" and "ev_op ev \<in> {OpSet, OpAppend, OpEnd}"
    and "b \<in> set (jblocks v')" and "btype_is t b"
  shows "(\<exists>a \<in> set (jblocks v). btype_is t a) \<or> ev_get ''type'' ev = Some (JStr t)"
  using assms unfolding fold_law_def by blast

lemma plain_ref [simp]: "plain e (ref_block i r)"
  by (simp add: plain_def btype_is_def ref_block_def)

lemma plain_empty [simp]: "plain e (JObj [])"
  by (simp add: plain_def btype_is_def)

definition plain_message :: "env \<Rightarrow> store \<Rightarrow> message \<Rightarrow> bool" where
  "plain_message e s m \<longleftrightarrow> content_all (plain e) (m_content m) \<and> stored_all (plain e) e s (m_id m)"

text \<open>The rows of a part decode to its blocks, or to the one block they are the frames of.\<close>

lemma decode_blocks_sub:
  assumes "decode_blocks e bs (ids, fs, acc) = Inr (ids', fs', acc')" and "\<forall>b \<in> set bs. \<not> btype_is (e_frame_type e) b"
  shows "fs' = fs \<and> set acc' \<subseteq> set acc \<union> set bs"
  using assms
proof (induction bs arbitrary: ids acc)
  case (Cons b bs)
  then have "decode_blocks e bs (bid b # ids, fs, acc @ [b]) = Inr (ids', fs', acc')"
    by (auto split: if_splits)
  from Cons.IH [OF this] Cons.prems(2) show ?case by auto
qed simp

lemma body_blocks_part:
  assumes "body_blocks (marshal (part_body bs)) = Inr xs" and "\<forall>b \<in> set bs. plain e b"
  shows "\<forall>b \<in> set xs. plain e b"
  using assms by (auto simp: body_blocks_def part_body_def struct_blocks_def split: if_splits)

lemma decode_part_row:
  assumes "decode_part e [r] = Inr p" and "p_content r = marshal (part_body bs)" and "\<forall>b \<in> set bs. plain e b"
  shows "\<forall>b \<in> set (cp_blocks p). plain e b"
proof -
  obtain ids fs acc where run: "decode_rows e r [r] ([], [], []) = Inr (ids, fs, acc)"
    and p: "fs = [] \<Longrightarrow> cp_blocks p = acc"
    using assms(1) by (auto simp: decode_part_def Let_def elim!: bindR_triple split: if_splits)
  then obtain xs where xs: "body_blocks (p_content r) = Inr xs" "decode_blocks e xs ([], [], []) = Inr (ids, fs, acc)"
    by (auto simp: bindR_eq_Inr)
  have pl: "\<forall>b \<in> set xs. plain e b" by (rule body_blocks_part) (use xs(1) assms(2,3) in simp_all)
  then have "fs = [] \<and> set acc \<subseteq> set [] \<union> set xs" by (intro decode_blocks_sub [OF xs(2)]) (simp add: plain_def)
  then show ?thesis using p pl by auto
qed

lemma decode_part_frames:
  assumes "decode_part e rows = Inr p" and "fs \<noteq> []" and "list_all (frame_ok e) fs" and "distinct (map bid fs)"
    and "e_unframe e fs = Inr b"
    and rows: "list_all2 (\<lambda>r f. p_message r = o' \<and> p_group r = g \<and> p_content r = marshal (part_body [f])) rows fs"
  shows "cp_blocks p = [b]"
proof -
  from assms(2) rows obtain r0 rs where r0: "rows = r0 # rs" "p_message r0 = o'" "p_group r0 = g"
    by (cases fs) (auto simp: list_all2_Cons2)
  obtain ids' where "decode_rows e r0 rows ([], [], []) = Inr (ids', fs, [])"
    using decode_rows_frames [OF assms(3,4) _ rows r0(2,3), of "[]" "[]" "[]"] by auto
  then show ?thesis using assms(1,2,5) r0 by (auto simp: decode_part_def split: if_splits)
qed

lemma persist_part_plain:
  assumes laws: "ui_laws e" and run: "persist_part e cf owner s p = Inr s'"
    and stored: "stored_all (plain e) e s owner" and blocks: "\<forall>b \<in> set (cp_blocks p). plain e b"
  shows "stored_all (plain e) e s' owner"
proof (cases "cp_dirty p")
  case False
  then show ?thesis using run stored by (simp add: persist_part_def)
next
  case True
  let ?g = "cp_group p" and ?bs = "cp_blocks p"
  obtain vs where vs: "part_payloads e cf ?bs = Inr vs"
    and ins: "insert_payloads e cf owner ?g True vs (delete_group owner ?g s) = Inr s'"
    using run True by (auto simp: persist_part_def elim!: bindR_obtain)
  obtain rs where rs: "list_all2 (payload_row cf owner ?g) rs vs" "group_rows s' owner ?g = rs"
    and other: "\<And>k. k \<noteq> ?g \<Longrightarrow> group_rows s' owner k = group_rows s owner k"
    using replace_group_ok [OF ins] unfolding part_rows_def by blast
  have "\<forall>b \<in> set (cp_blocks q). plain e b" if q: "stored_part e s' owner k = Inr q" for k q
  proof (cases "k = ?g")
    case False
    then show ?thesis using q stored other unfolding stored_all_def stored_part_def by metis
  next
    case True
    then have dec: "decode_part e rs = Inr q" using q rs(2) by (simp add: stored_part_def)
    consider (plain) "vs = [part_body ?bs]"
      | (framed) b fs where "?bs = [b]" "e_frame e b (cf_max cf - 13) = Inr fs"
          "vs = map (\<lambda>f. part_body [f]) fs"
      using vs by (auto simp: part_payloads_def split: if_splits list.splits sum.splits)
    then show ?thesis
    proof cases
      case plain
      obtain r where r: "rs = [r]" "p_content r = marshal (part_body ?bs)"
        using rs(1) unfolding plain by (auto simp: list_all2_Cons2 payload_row_def)
      show ?thesis by (rule decode_part_row [OF dec [unfolded r(1)] r(2) blocks])
    next
      case framed
      note F = ui_laws_frame [OF laws framed(2)]
      have "cp_blocks q = [b]"
        by (rule decode_part_frames [OF dec F]) (rule payload_frames [OF rs(1) [unfolded framed(3)]])
      then show ?thesis using blocks framed(1) by simp
    qed
  qed
  then show ?thesis unfolding stored_all_def by blast
qed

lemma persist_plain:
  assumes laws: "ui_laws e" and run: "persist e cf c s = Inr s'"
    and stored: "stored_all (plain e) e s (mc_owner c)" and held: "held (plain e) c"
  shows "stored_all (plain e) e s' (mc_owner c)"
  using run unfolding persist_def
proof (rule foldR_invariant)
  fix t t' x
  assume "x \<in> set (map snd (mc_parts c))" "stored_all (plain e) e t (mc_owner c)"
    "persist_part e cf (mc_owner c) t x = Inr t'"
  then show "stored_all (plain e) e t' (mc_owner c)"
    using persist_part_plain [OF laws] held by (fastforce simp: held_def)
qed (rule stored)

lemma stored_all_cong: "st_parts s' = st_parts s \<Longrightarrow> stored_all Q e s' owner = stored_all Q e s owner"
  using parts_cong(2) [of s' s e] by (simp add: stored_all_def)

lemma stored_all_rows:
  "(\<And>k. group_rows s' owner k = group_rows s owner k) \<Longrightarrow> stored_all Q e s' owner = stored_all Q e s owner"
  by (simp add: stored_all_def stored_part_def)

section \<open>Projection keeps an output plain\<close>

lemma apply_output_plain:
  assumes laws: "ui_laws e" "fold_law e" and run: "apply_output e cf now ev fp status m c s = Inr s'"
    and all: "all_blocks (plain e) e s c" and owner: "mc_owner c = m_id m" and m: "get_msg i s = Some m"
    and op: "ev_op ev \<in> {OpSet, OpAppend, OpEnd}"
    and ty: "ev_get ''type'' ev \<notin> {Some (JStr ''ask''), Some (JStr ''confirm'')}"
  shows "\<exists>m'. get_msg i s' = Some m' \<and> plain_message e s' m'"
proof -
  obtain c1 nxt content c2 s1 where f: "ev_get ''type'' ev \<noteq> Some (JStr (e_frame_type e))"
    "event_block_loaded e s ev c = Inr c1" "e_apply e (mc_snap c1) ev = Inr nxt"
    "pack_content e s cf (c1\<lparr>mc_snap := remember_event fp nxt\<rparr>) = Inr (content, c2)"
    "persist e cf c2 (s\<lparr>st_uuid := mc_uuid c2\<rparr>) = Inr s1"
    "s' = put_msg (accept_output now ev status content m) s1"
    using run by (auto simp: apply_output_def Let_def elim!: bindR_obtain bindR_pair split: if_splits)
  have c1: "all_blocks (plain e) e s c1" "mc_owner c1 = mc_owner c"
    using f(2) materialize_all [OF _ all] all
    by (auto simp: event_block_loaded_def split: if_splits option.splits)
  have "\<not> btype_is t b" if "b \<in> set (jblocks nxt)" "t \<in> {''ask'', ''confirm'', e_frame_type e}" for b t
    using fold_lawD [OF laws(2) f(3) op that(1)] c1(1) that(2) f(1) ty by (auto simp: all_blocks_def plain_def)
  then have "\<forall>b \<in> set (jblocks nxt). plain e b" by (simp add: plain_def)
  then have "all_blocks (plain e) e s (c1\<lparr>mc_snap := remember_event fp nxt\<rparr>)"
    using c1(1) by (simp add: all_blocks_def held_def)
  from pack_content_all [OF f(4) this] have
    P: "all_blocks (plain e) e s c2" "mc_owner c2 = m_id m" "content = marshal (mc_snap c2)"
    using c1 owner by simp_all
  have "stored_all (plain e) e s1 (mc_owner c2)"
    by (rule persist_plain [OF laws(1) f(5)])
      (use P(1) stored_all_cong [of "s\<lparr>st_uuid := mc_uuid c2\<rparr>" s] in \<open>simp_all add: all_blocks_def\<close>)
  then have "stored_all (plain e) e s' (m_id m)" using P(2) stored_all_cong [of s' s1] f(6) by simp
  moreover have "content_all (plain e) content" using P(1,3) by (simp add: content_all_def all_blocks_def)
  ultimately have "plain_message e s' (accept_output now ev status content m)"
    by (simp add: plain_message_def accept_output_def)
  moreover have "get_msg i s1 = Some m" using persist_frame(1) [OF f(5)] m by (simp add: get_msg_def)
  then have "get_msg i s' = Some (accept_output now ev status content m)"
    using msgs.find_key [OF m] by (simp add: f(6) msgs.find_put)
  ultimately show ?thesis by blast
qed

lemma project_event_plain:
  assumes laws: "ui_laws e" "fold_law e" and run: "project_event e cf now i ev status h s = Inr s'"
    and m: "get_msg i s = Some m" "plain_message e s m"
    and op: "ev_op ev \<in> {OpSet, OpAppend, OpEnd}"
    and ty: "ev_get ''type'' ev \<notin> {Some (JStr ''ask''), Some (JStr ''confirm'')}"
  shows "\<exists>m'. get_msg i s' = Some m' \<and> plain_message e s' m'"
proof -
  obtain bytes c replayed where
    c: "open_content e i (m_content m) (st_uuid s) = Inr c"
    and out: "if replayed then s' = s
         else apply_output e cf now ev (fingerprint e bytes status) status m c s = Inr s'"
    using project_event_split [OF run] m(1) by auto
  have id: "m_id m = i" using m(1) by (rule msgs.find_key)
  note P = m(2) [unfolded plain_message_def]
  note O = open_content_all [OF c, of "plain e"]
  have "all_blocks (plain e) e s c" using O P id by (simp add: all_blocks_def)
  from apply_output_plain [OF laws _ this _ m(1) op ty] out O(2) P id m
  show ?thesis by (cases replayed) auto
qed

section \<open>A plain message is no question\<close>

lemma hydrate_step_all:
  assumes "hydrate_step e s parts c ir = Inr c'" and "all_blocks Q e s c"
    and "\<And>k p. (k, p) \<in> set parts \<Longrightarrow> \<forall>b \<in> set (cp_blocks p). Q b"
  shows "all_blocks Q e s c'"
proof -
  obtain p where p: "map_of parts (snd ir) = Some p"
    and run: "materialize e s (fst ir) (c\<lparr>mc_parts := al_set (snd ir) p (mc_parts c)\<rparr>) = Inr c'"
    using assms(1) by (auto simp: hydrate_step_def split: option.splits if_splits)
  have "\<forall>b \<in> set (cp_blocks p). Q b" using assms(3) map_of_SomeD [OF p] by blast
  then have "held Q (c\<lparr>mc_parts := al_set (snd ir) p (mc_parts c)\<rparr>)"
    using held_set assms(2) by (simp add: all_blocks_def)
  then have "all_blocks Q e s (c\<lparr>mc_parts := al_set (snd ir) p (mc_parts c)\<rparr>)"
    using assms(2) by (simp add: all_blocks_def)
  from materialize_all [OF run this] show ?thesis by simp
qed

lemma mapR_mem: "mapR f xs = Inr ys \<Longrightarrow> y \<in> set ys \<Longrightarrow> \<exists>x \<in> set xs. f x = Inr y"
  by (induction xs arbitrary: ys) (auto simp: bindR_eq_Inr)

lemma hydrate_message_all:
  assumes "hydrate_message e s m = Inr h" and "content_all Q (m_content m)" and "stored_all Q e s (m_id m)"
  shows "content_all Q (m_content h)"
proof -
  obtain c where c: "open_content e (m_id m) (m_content m) (st_uuid s) = Inr c"
    and run: "bindR (let owners = map mc_owner (filter (\<lambda>c. mc_refs c \<noteq> []) [c])
       in if owners = [] then Inr [m]
          else bindR (group_parts e (owned_rows s owners)) (\<lambda>parts.
                 mapR (hydrate_one e s parts) (zip [m] [c]))) (\<lambda>ms. Inr (hd ms)) = Inr h"
  proof -
    obtain ms where hm: "hydrate_messages e s [m] = Inr ms" and h: "Inr (hd ms) = (Inr h :: message result)"
      using assms(1) unfolding hydrate_message_def by (rule bindR_obtain)
    from hm [unfolded hydrate_messages_def] obtain cs where cs: "mapR (\<lambda>m. open_content e (m_id m) (m_content m) (st_uuid s)) [m] = Inr cs"
      and rest: "(let owners = map mc_owner (filter (\<lambda>c. mc_refs c \<noteq> []) cs)
       in if owners = [] then Inr [m]
          else bindR (group_parts e (owned_rows s owners)) (\<lambda>parts.
                 mapR (hydrate_one e s parts) (zip [m] cs))) = Inr ms"
      by (rule bindR_obtain)
    from cs obtain c where c: "open_content e (m_id m) (m_content m) (st_uuid s) = Inr c" "cs = [c]"
      by (auto simp: bindR_eq_Inr)
    show thesis by (rule that [OF c(1)], unfold rest [unfolded c(2)] bindR_Inr) (rule h)
  qed
  note O = open_content_all [OF c assms(2)]
  show ?thesis
  proof (cases "mc_refs c = []")
    case True
    then show ?thesis using run assms(2) by simp
  next
    case False
    then obtain parts c' where parts: "group_parts e (owned_rows s [m_id m]) = Inr parts"
      and fold: "foldR (hydrate_step e s parts) c (mc_refs c) = Inr c'" and h: "h = m\<lparr>m_content := marshal (mc_snap c')\<rparr>"
      using run O(2) by (auto simp: hydrate_one_def bindR_eq_Inr)
    have "\<forall>b \<in> set (cp_blocks p). Q b" if "(k, p) \<in> set parts" for k p
    proof -
      have "filter (\<lambda>r. p_group r = k) (owned_rows s [m_id m]) = group_rows s (m_id m) k"
        by (simp add: owned_rows_def group_rows_def conj_commute)
      then have "stored_part e s (m_id m) k = Inr p"
        using mapR_mem [OF parts [unfolded group_parts_def] that] by (auto simp: stored_part_def bindR_eq_Inr)
      then show ?thesis using assms(3) unfolding stored_all_def by blast
    qed
    note step = hydrate_step_all [OF _ _ this]
    have "all_blocks Q e s c'"
      using fold by (rule foldR_invariant) (use O assms(3) step in \<open>auto simp: all_blocks_def\<close>)
    then show ?thesis by (simp add: h content_all_def all_blocks_def)
  qed
qed

lemma decode_human_block_type:
  assumes "decode_human_block e v = Inr b" and "hb_type b = t" and "t \<noteq> []"
  shows "btype_is t v"
proof -
  obtain w where w: "need_struct v = Inr w" "jfield_str ''type'' w = Inr (hb_type b)"
    using assms(1) by (auto simp: decode_human_block_def bindR_eq_Inr)
  then have "jget ''type'' w = Some (JStr t)"
    using assms(2,3) by (auto simp: jfield_str_def split: option.splits json.splits)
  then show ?thesis using w(1) by (auto simp: need_struct_def btype_is_def split: if_splits)
qed

lemma decode_human_plain:
  assumes "decode_human e h = Inr c"
  shows "\<not> content_all (plain e) (m_content h)"
proof -
  obtain b where st: "decode_human_struct e (m_content h) = Inr c" and b: "hx_blocks c = [b]"
    "hb_type b = ''ask'' \<or> hb_type b = ''confirm''"
  proof -
    obtain c1 where c1: "decode_human_struct e (m_content h) = Inr c1"
      and out: "(case hx_blocks c1 of
         [b] \<Rightarrow> if hb_type b = ''ask'' \<or> hb_type b = ''confirm'' then Inr c1 else Inl ErrNotFound
       | _ \<Rightarrow> Inl ErrNotFound) = Inr c"
      using assms unfolding decode_human_def by (rule bindR_obtain)
    then obtain b where "hx_blocks c1 = [b]" by (auto split: list.splits)
    then show thesis using that out c1 by (auto split: if_splits)
  qed
  obtain v0 v bs where v: "c_val (m_content h) = Some v0" "need_struct v0 = Inr v" "jfield_list ''blocks'' v = Inr bs"
    "mapR (decode_human_block e) (case bs of None \<Rightarrow> [] | Some xs \<Rightarrow> xs) = Inr [b]"
    using st b(1) by (auto simp: decode_human_struct_def bindR_eq_Inr)
  obtain xs x where x: "bs = Some xs" "x \<in> set xs" "decode_human_block e x = Inr b"
    using v(4) mapR_mem [OF v(4), of b] by (cases bs) auto
  have "jget ''blocks'' v = Some (JArr xs)"
    using v(3) x(1) by (auto simp: jfield_list_def split: option.splits json.splits)
  then have "v0 = v" "x \<in> set (jblocks v)" using v(2) x(2) by (auto simp: need_struct_def jblocks_def split: if_splits)
  moreover have "\<not> plain e x" using decode_human_block_type [OF x(3)] b(2) by (auto simp: plain_def)
  ultimately show ?thesis using v(1) unfolding content_all_def by blast
qed

lemma plain_no_question:
  assumes "plain_message e s m" and "hydrate_message e s m = Inr h"
  shows "decode_human e h \<noteq> Inr c"
  using decode_human_plain hydrate_message_all [OF assms(2)] assms(1) unfolding plain_message_def by blast

section \<open>What a write leaves alone\<close>

definition tidy :: "store \<Rightarrow> bool" where
  "tidy s \<longleftrightarrow> distinct (map m_id (st_msgs s))"

definition rows_same :: "store \<Rightarrow> store \<Rightarrow> string \<Rightarrow> bool" where
  "rows_same s s' i \<longleftrightarrow> (\<forall>k. group_rows s' i k = group_rows s i k)"

lemma rows_same_refl [simp]: "rows_same s s i"
  by (simp add: rows_same_def)

lemma rows_same_trans: "rows_same s s1 i \<Longrightarrow> rows_same s1 s2 i \<Longrightarrow> rows_same s s2 i"
  by (simp add: rows_same_def)

lemma rows_same_parts: "st_parts s' = st_parts s \<Longrightarrow> rows_same s s' i"
  by (simp add: rows_same_def group_rows_def)

lemma rows_same_plain:
  assumes "rows_same s s' (m_id m)" and "m_content m' = m_content m" and "m_id m' = m_id m" and "plain_message e s m"
  shows "plain_message e s' m'"
  using assms stored_all_rows [of s' "m_id m" s] by (simp add: plain_message_def rows_same_def)

lemma persist_other_rows:
  assumes "persist e cf c s = Inr s'" and "i \<noteq> mc_owner c"
  shows "rows_same s s' i"
  using assms(1) unfolding persist_def
proof (rule foldR_invariant)
  fix t t' x assume t: "rows_same s t i" "persist_part e cf (mc_owner c) t x = Inr t'"
  have "t' = t \<or> (\<exists>vs. insert_payloads e cf (mc_owner c) (cp_group x) True vs (delete_group (mc_owner c) (cp_group x) t) = Inr t')"
    using t(2) by (auto simp: persist_part_def elim!: bindR_obtain split: if_splits)
  then have "rows_same t t' i"
    using replace_group_ok assms(2) unfolding part_rows_def rows_same_def by auto
  with t(1) show "rows_same s t' i" by (rule rows_same_trans)
qed simp

lemma all_blocks_True: "all_blocks (\<lambda>_. True) e s c"
  by (simp add: all_blocks_def held_def stored_all_def)

lemma pack_content_owner:
  "pack_content e s cf c = Inr (stored, c') \<Longrightarrow> mc_owner c' = mc_owner c \<and> stored = marshal (mc_snap c')"
  using pack_content_all [OF _ all_blocks_True] by blast

lemma prune_part_owner:
  assumes "prune_part e s kept c key = Inr c'"
  shows "mc_owner c' = mc_owner c"
proof -
  obtain p c1 where load: "load_part e s key c = Inr (p, c1)" and out: "mc_owner c' = mc_owner c1"
    using assms by (auto simp: prune_part_def put_part_def Let_def elim!: bindR_pair split: if_splits)
  have "held (\<lambda>_. True) c" "stored_all (\<lambda>_. True) e s (mc_owner c)" by (simp_all add: held_def stored_all_def)
  note L = load_part_all [OF load this]
  show ?thesis using out L by simp
qed

lemma opened_owner:
  assumes "open_logical e m n = Inr c0" and "adopt_layout e m create s c0 = Inr c"
  shows "mc_owner c = m_id m" "mc_snap c = mc_snap c0" "mc_parts c = []" "decode_object (m_content m) = Inr (mc_snap c0)"
proof -
  have op: "open_content e (m_id m) (m_content m) n = Inr c0"
    using assms(1) by (auto simp: open_logical_def split: sum.splits err.splits if_splits)
  then have "mc_owner c0 = m_id m" "mc_parts c0 = []" "decode_object (m_content m) = Inr (mc_snap c0)"
    by (auto simp: open_content_def elim!: bindR_obtain split: if_splits)
  moreover have "mc_owner c = mc_owner c0 \<and> mc_snap c = mc_snap c0 \<and> mc_parts c = mc_parts c0"
    using assms(2) by (auto simp: adopt_layout_def elim!: bindR_obtain split: if_splits)
  ultimately show "mc_owner c = m_id m" "mc_snap c = mc_snap c0" "mc_parts c = []"
    "decode_object (m_content m) = Inr (mc_snap c0)" by simp_all
qed

lemma save_message_other_rows:
  assumes run: "save_message e cf now m create s = Inr (m', s')"
  shows "\<And>i. i \<noteq> m_id m \<Longrightarrow> rows_same s s' i"
    "map m_id (st_msgs s') = map m_id (st_msgs s) @ (if create then [m_id m] else [])"
proof -
  obtain c0 c packed c1 m1 s1 c2 s2 content where
    c0: "open_logical e m (st_uuid s) = Inr c0" and c: "adopt_layout e m create s c0 = Inr c"
    and pack: "pack_content e s cf c = Inr (packed, c1)"
    and w: "write_row now (m\<lparr>m_content := stored_content cf (m_content m) packed c1\<rparr>) create
       (s\<lparr>st_uuid := mc_uuid c1\<rparr>) = Inr (m1, s1)"
    and prune: "foldR (prune_part e s1 (kept_refs (jblocks (mc_snap c1)))) c1 (save_keys c1) = Inr c2"
    and s2: "persist e cf c2 s1 = Inr s2"
    and out: "s' = delete_unkept (m_id m) (save_keys c1) s2"
    by (rule save_message_split [OF run]) blast
  have "mc_owner c1 = m_id m" using opened_owner [OF c0 c] pack_content_owner [OF pack] by simp
  moreover have "mc_owner c2 = mc_owner c1"
    using prune by (rule foldR_invariant) (auto simp: prune_part_owner)
  ultimately have owner: "mc_owner c2 = m_id m" by simp
  let ?x = "m\<lparr>m_content := stored_content cf (m_content m) packed c1\<rparr>"
  have w2: "st_parts s1 = st_parts s \<and> map m_id (st_msgs s1) = map m_id (st_msgs s) @ (if create then [m_id m] else [])"
  proof (cases create)
    case True
    then have "insert_msg (message_defaults now ?x) (s\<lparr>st_uuid := mc_uuid c1\<rparr>) = Inr s1"
      using w by (auto simp: write_row_def Let_def elim!: bindR_obtain)
    then show ?thesis using True insert_msg_frame by fastforce
  next
    case False
    have ids: "map m_id (tbl_put m_id r ys) = map m_id ys" for r :: message and ys
      by (induction ys) (simp_all add: tbl_put_def)
    then show ?thesis using w False by (auto simp: write_row_def Let_def put_msg_def)
  qed
  show "rows_same s s' i" if "i \<noteq> m_id m" for i
  proof -
    have "rows_same s s1 i" using w2 by (simp add: rows_same_parts)
    moreover have "rows_same s1 s2 i" using persist_other_rows [OF s2] owner that by simp
    ultimately have "rows_same s s2 i" by (rule rows_same_trans)
    then show ?thesis using that by (simp add: rows_same_def out delete_unkept_rows)
  qed
  show "map m_id (st_msgs s') = map m_id (st_msgs s) @ (if create then [m_id m] else [])"
    using w2 persist_frame(1) [OF s2] by (simp add: out delete_unkept_def)
qed

lemma save_message_tidy:
  assumes "save_message e cf now m create s = Inr (m', s')" and "tidy s"
  shows "tidy s'"
proof -
  have "m_id m \<notin> m_id ` set (st_msgs s)" if create
    using save_message_frame(6) [OF assms(1) that] by (auto simp: get_msg_def tbl_find_None)
  then show ?thesis using assms(2) save_message_other_rows(2) [OF assms(1)] by (auto simp: tidy_def)
qed

text \<open>A message without blocks is plain, whatever rows its identifier had before.\<close>

lemma save_empty_plain:
  assumes run: "save_message e cf now m True s = Inr (m', s')" and v: "c_val (m_content m) = Some v" "jblocks v = []"
  shows "\<exists>x. get_msg (m_id m) s' = Some x \<and> plain_message e s' x"
proof -
  obtain c0 c packed c1 m1 s1 c2 s2 content where
    c0: "open_logical e m (st_uuid s) = Inr c0" and c: "adopt_layout e m True s c0 = Inr c"
    and pack: "pack_content e s cf c = Inr (packed, c1)"
    and w: "write_row now (m\<lparr>m_content := stored_content cf (m_content m) packed c1\<rparr>) True
       (s\<lparr>st_uuid := mc_uuid c1\<rparr>) = Inr (m1, s1)"
    and s2: "persist e cf c2 s1 = Inr s2"
    and out: "s' = delete_unkept (m_id m) (save_keys c1) s2"
    by (rule save_message_split [OF run]) blast
  note O = opened_owner [OF c0 c]
  have "mc_snap c0 = v \<or> mc_snap c0 = JObj []"
    using O(4) v(1) by (auto simp: decode_object_def split: json.splits)
  then have "jblocks (mc_snap c) = []" using O(2) v(2) by (auto simp: jblocks_def)
  then have empty: "jblocks (mc_snap c1) = []" and packed: "packed = marshal (mc_snap c1)"
    using pack by (auto simp: pack_content_def Let_def jblocks_set_blocks split: if_splits)
  have keys: "save_keys c1 = []" by (simp add: save_keys_def kept_refs_def empty)
  have "group_rows s' (m_id m) k = []" for k by (simp add: out keys delete_unkept_rows)
  then have stored: "stored_all (plain e) e s' (m_id m)"
    by (simp add: stored_all_def stored_part_def decode_part_def)
  have "content_all (plain e) (stored_content cf (m_content m) packed c1)"
    using v empty by (simp add: content_all_def stored_content_def packed)
  moreover have "m_id m1 = m_id m" "m_content m1 = stored_content cf (m_content m) packed c1" "get_msg (m_id m) s1 = Some m1"
    using write_row_frame(3,4,6) [OF w] by simp_all
  moreover have "get_msg (m_id m) s' = get_msg (m_id m) s1"
    using persist_frame(1) [OF s2] by (simp add: out delete_unkept_def get_msg_def)
  ultimately show ?thesis using stored by (simp add: plain_message_def)
qed

lemma project_event_rows:
  assumes "project_event e cf now i ev status h s = Inr s'"
  shows "\<And>j. j \<noteq> i \<Longrightarrow> rows_same s s' j" "map m_id (st_msgs s') = map m_id (st_msgs s)"
proof -
  obtain m c bytes replayed where m: "get_msg i s = Some m" and c: "open_content e i (m_content m) (st_uuid s) = Inr c"
    and out: "if replayed then s' = s
         else apply_output e cf now ev (fingerprint e bytes status) status m c s = Inr s'"
    using project_event_split [OF assms] by auto
  have "(\<forall>j. j \<noteq> i \<longrightarrow> rows_same s s' j) \<and> map m_id (st_msgs s') = map m_id (st_msgs s)"
  proof (cases replayed)
    case True
    then show ?thesis using out by simp
  next
    case False
    obtain c1 nxt content c2 s1 fp where f: "event_block_loaded e s ev c = Inr c1"
      "pack_content e s cf (c1\<lparr>mc_snap := remember_event fp nxt\<rparr>) = Inr (content, c2)"
      "persist e cf c2 (s\<lparr>st_uuid := mc_uuid c2\<rparr>) = Inr s1"
      "s' = put_msg (accept_output now ev status content m) s1"
      using out False by (auto simp: apply_output_def Let_def elim!: bindR_obtain bindR_pair split: if_splits)
    have "mc_owner c1 = mc_owner c"
      using f(1) materialize_all [OF _ all_blocks_True]
      by (auto simp: event_block_loaded_def split: if_splits option.splits)
    moreover have "mc_owner c = i" using open_content_all(2) [OF c, of "\<lambda>_. True"] by (simp add: content_all_def)
    ultimately have "mc_owner c2 = i" using pack_content_owner [OF f(2)] by simp
    then have "rows_same s s' j" if "j \<noteq> i" for j
      using persist_other_rows [OF f(3), of j] that by (simp add: f(4) rows_same_def group_rows_def)
    moreover have "map m_id (tbl_put m_id r ys) = map m_id ys" for r :: message and ys
      by (induction ys) (simp_all add: tbl_put_def)
    then have "map m_id (st_msgs s') = map m_id (st_msgs s)"
      using persist_frame(1) [OF f(3)] by (simp add: f(4) put_msg_def)
    ultimately show ?thesis by blast
  qed
  then show "\<And>j. j \<noteq> i \<Longrightarrow> rows_same s s' j" "map m_id (st_msgs s') = map m_id (st_msgs s)" by blast+
qed

end
