(* ===== verification/RepoSteps.thy ===== *)
theory RepoSteps
  imports Samples Outputs
begin

text \<open>
  The repository as a transition system over the tables that harness runs and their messages
  live in: one step per transaction, by any number of servers. Three shapes of effect cover
  every transaction: it leaves run-owned rows alone (\<open>quiet\<close>), it writes one unfinished run
  and at most that run's message (\<open>run_write\<close>), or it adds a run with its message (\<open>run_added\<close>). A transaction of
  questions checks no owner; it leaves a run's output alone because the invariant says that no output
  holds a question.
\<close>

section \<open>Shapes of effect\<close>

definition row_kept :: "message \<Rightarrow> message \<Rightarrow> bool" where
  "row_kept m m' \<longleftrightarrow> m_revision m' = m_revision m \<and> m_status m' = m_status m \<and> m_content m' = m_content m"

definition quiet :: "store \<Rightarrow> store \<Rightarrow> bool" where
  "quiet s s' \<longleftrightarrow> st_runs s' = st_runs s \<and> (tidy s \<longrightarrow> tidy s')
     \<and> (\<forall>i m. run_owned i s \<longrightarrow> get_msg i s = Some m
          \<longrightarrow> (\<exists>m'. get_msg i s' = Some m' \<and> row_kept m m') \<and> rows_same s s' i)"

definition run_write :: "env \<Rightarrow> string \<Rightarrow> store \<Rightarrow> store \<Rightarrow> bool" where
  "run_write e i s s' \<longleftrightarrow> (\<exists>r0 r z. hn_id r = i \<and> get_run i s = Some r0 \<and> \<not> phase_terminal (hn_phase r0)
     \<and> hn_message r = hn_message r0 \<and> s' = put_run r z \<and> st_runs z = st_runs s
     \<and> map m_id (st_msgs z) = map m_id (st_msgs s)
     \<and> (\<forall>j. j \<noteq> hn_message r0 \<longrightarrow> get_msg j z = get_msg j s \<and> rows_same s z j)
     \<and> (\<forall>m. get_msg (hn_message r0) s = Some m \<and> plain_message e s m
          \<longrightarrow> (\<exists>m'. get_msg (hn_message r0) z = Some m' \<and> plain_message e z m')))"

definition run_added :: "env \<Rightarrow> store \<Rightarrow> store \<Rightarrow> bool" where
  "run_added e s s' \<longleftrightarrow> (\<exists>r m. st_runs s' = st_runs s @ [r] \<and> get_msg (hn_message r) s' = Some m \<and> plain_message e s' m)
     \<and> (tidy s \<longrightarrow> tidy s')
     \<and> (\<forall>i. run_owned i s \<longrightarrow> get_msg i s \<noteq> None \<longrightarrow> get_msg i s' = get_msg i s \<and> rows_same s s' i)"

text \<open>Message identifiers are not repeated and no output of a run holds a question.\<close>

definition outputs_plain :: "env \<Rightarrow> store \<Rightarrow> bool" where
  "outputs_plain e s \<longleftrightarrow> tidy s \<and> (\<forall>i m. run_owned i s \<longrightarrow> get_msg i s = Some m \<longrightarrow> plain_message e s m)"

definition repo_ok :: "env \<Rightarrow> store \<Rightarrow> bool" where
  "repo_ok e s \<longleftrightarrow> runs_ok s \<and> outputs_plain e s"

lemma row_kept_refl [simp]: "row_kept m m"
  by (simp add: row_kept_def)

lemma quiet_refl [simp]: "quiet s s"
  by (simp add: quiet_def)

lemma quiet_trans:
  assumes "quiet s s1" and "quiet s1 s2"
  shows "quiet s s2"
proof -
  have "(\<exists>m2. get_msg i s2 = Some m2 \<and> row_kept m m2) \<and> rows_same s s2 i"
    if i: "run_owned i s" "get_msg i s = Some m" for i m
  proof -
    obtain m1 where 1: "get_msg i s1 = Some m1" "row_kept m m1" "rows_same s s1 i"
      using assms(1) i unfolding quiet_def by blast
    have "run_owned i s1" using assms(1) i(1) by (simp add: quiet_def run_owned_def)
    then obtain m2 where "get_msg i s2 = Some m2" "row_kept m1 m2" "rows_same s1 s2 i"
      using assms(2) 1(1) unfolding quiet_def by blast
    then show ?thesis using 1 rows_same_trans by (auto simp: row_kept_def)
  qed
  then show ?thesis using assms unfolding quiet_def by simp
qed

lemma quietI:
  assumes "st_runs s' = st_runs s" and "tidy s \<Longrightarrow> tidy s'"
    and "\<And>i. run_owned i s \<Longrightarrow> get_msg i s \<noteq> None \<Longrightarrow> get_msg i s' = get_msg i s \<and> rows_same s s' i"
  shows "quiet s s'"
  using assms by (force simp: quiet_def)

lemma quiet_same:
  "st_runs s' = st_runs s \<Longrightarrow> st_msgs s' = st_msgs s \<Longrightarrow> st_parts s' = st_parts s \<Longrightarrow> quiet s s'"
  by (rule quietI) (simp_all add: get_msg_def tidy_def rows_same_parts)

lemma plain_cong:
  assumes "st_parts s' = st_parts s"
  shows "plain_message e s' m = plain_message e s m"
  using stored_all_cong [OF assms] by (simp add: plain_message_def)

lemma quiet_outputs:
  assumes q: "quiet s s'" and ok: "outputs_plain e s" and runs: "runs_ok s"
  shows "outputs_plain e s'"
  unfolding outputs_plain_def
proof (intro conjI allI impI)
  show "tidy s'" using q ok by (simp add: quiet_def outputs_plain_def)
  fix i m' assume i: "run_owned i s'" "get_msg i s' = Some m'"
  have own: "run_owned i s" using q i(1) by (simp add: quiet_def run_owned_def)
  then obtain m where m: "get_msg i s = Some m" using owned_exists [OF runs] by blast
  then have k: "row_kept m m'" "rows_same s s' i" using q own i(2) unfolding quiet_def by fastforce+
  have id: "m_id m = i" "m_id m' = i" using msgs.find_key [OF m] msgs.find_key [OF i(2)] by simp_all
  show "plain_message e s' m'"
    by (rule rows_same_plain [of s s' m]) (use k id ok own m in \<open>auto simp: row_kept_def outputs_plain_def\<close>)
qed

lemma run_write_outputs:
  assumes w: "run_write e i0 s s'" and ok: "outputs_plain e s" and runs: "runs_ok s"
  shows "outputs_plain e s'"
proof -
  obtain r0 r z where f: "get_run (hn_id r) s = Some r0" "hn_message r = hn_message r0" "s' = put_run r z"
    "st_runs z = st_runs s" "map m_id (st_msgs z) = map m_id (st_msgs s)"
    "\<And>j. j \<noteq> hn_message r0 \<Longrightarrow> get_msg j z = get_msg j s \<and> rows_same s z j"
    "\<And>m. get_msg (hn_message r0) s = Some m \<Longrightarrow> plain_message e s m
        \<Longrightarrow> \<exists>m'. get_msg (hn_message r0) z = Some m' \<and> plain_message e z m'"
    using w unfolding run_write_def by blast
  have mem: "r0 \<in> set (st_runs s)" using get_run_mem [OF f(1)] by simp
  have "set (tbl_put hn_id r (st_runs s)) \<subseteq> insert r (set (st_runs s))" by (rule set_tbl_put)
  then have owned: "run_owned i s" if "run_owned i s'" for i
    using that mem f(2,4) by (fastforce simp: run_owned_def f(3) put_run_def)
  have "plain_message e z m'" if i: "run_owned i s" "get_msg i z = Some m'" for i m'
  proof -
    obtain m where m: "get_msg i s = Some m" using owned_exists [OF runs i(1)] by blast
    have pl: "plain_message e s m" using ok i(1) m unfolding outputs_plain_def by blast
    show ?thesis
    proof (cases "i = hn_message r0")
      case True
      then show ?thesis using f(7) [OF _ pl] m i(2) by auto
    next
      case False
      then have "m' = m" "rows_same s z i" using f(6) m i(2) by auto
      then show ?thesis using rows_same_plain [OF _ refl refl pl] msgs.find_key [OF m] by simp
    qed
  qed
  moreover have "tidy s'" using ok f(5) by (simp add: outputs_plain_def tidy_def f(3))
  ultimately show ?thesis using owned plain_cong [of s' z] by (auto simp: outputs_plain_def f(3))
qed

lemma run_added_outputs:
  assumes a: "run_added e s s'" and ok: "outputs_plain e s" and runs: "runs_ok s"
  shows "outputs_plain e s'"
proof -
  obtain r m where r: "st_runs s' = st_runs s @ [r]" "get_msg (hn_message r) s' = Some m" "plain_message e s' m"
    and t: "tidy s \<longrightarrow> tidy s'"
    and keep: "\<And>i. run_owned i s \<Longrightarrow> get_msg i s \<noteq> None \<Longrightarrow> get_msg i s' = get_msg i s \<and> rows_same s s' i"
    using a unfolding run_added_def by blast
  have "plain_message e s' x" if x: "run_owned i s'" "get_msg i s' = Some x" for i x
  proof (cases "run_owned i s")
    case True
    then have k: "get_msg i s' = get_msg i s" "rows_same s s' i" using keep owned_exists [OF runs] by blast+
    then have "plain_message e s x" using ok True x(2) by (simp add: outputs_plain_def)
    then show ?thesis using rows_same_plain [OF _ refl refl] k(2) msgs.find_key [OF x(2)] by blast
  next
    case False
    then have "i = hn_message r" using x(1) r(1) by (auto simp: run_owned_def)
    then show ?thesis using r x(2) by simp
  qed
  then show ?thesis using ok t unfolding outputs_plain_def by blast
qed

lemma quiet_runs_ok:
  assumes "quiet s s'" and ok: "runs_ok s"
  shows "runs_ok s'"
proof -
  have runs: "st_runs s' = st_runs s" using assms(1) by (simp add: quiet_def)
  have "\<exists>m. get_msg (hn_message r) s' = Some m \<and> run_message_ok r m" if r: "r \<in> set (st_runs s)" for r
  proof -
    obtain m where m: "get_msg (hn_message r) s = Some m" "run_message_ok r m" using runs_okD [OF ok r] by blast
    have "run_owned (hn_message r) s" using r unfolding run_owned_def by blast
    then obtain m' where "get_msg (hn_message r) s' = Some m'" "row_kept m m'"
      using assms(1) m(1) unfolding quiet_def by blast
    then show ?thesis using m(2) by (auto simp: row_kept_def run_message_ok_def)
  qed
  then show ?thesis using ok runs unfolding runs_ok_def by simp
qed

text \<open>A finished run, with its message, as it stays.\<close>

definition finished_as :: "string \<Rightarrow> harness_run \<Rightarrow> message \<Rightarrow> store \<Rightarrow> bool" where
  "finished_as i r m s \<longleftrightarrow> get_run i s = Some r \<and> phase_terminal (hn_phase r)
     \<and> (\<exists>m'. get_msg (hn_message r) s = Some m' \<and> row_kept m m')"

lemma finished_quiet:
  assumes q: "quiet s s'" and f: "finished_as i r m s"
  shows "finished_as i r m s'"
proof -
  obtain m0 where m0: "get_msg (hn_message r) s = Some m0" "row_kept m m0" and r: "get_run i s = Some r"
    "phase_terminal (hn_phase r)"
    using f unfolding finished_as_def by blast
  have "run_owned (hn_message r) s" using get_run_mem [OF r(1)] unfolding run_owned_def by blast
  then obtain m1 where "get_msg (hn_message r) s' = Some m1" "row_kept m0 m1"
    using q m0(1) unfolding quiet_def by blast
  moreover have "get_run i s' = Some r" using q r(1) by (simp add: quiet_def get_run_def)
  ultimately show ?thesis using m0(2) r(2) by (auto simp: finished_as_def row_kept_def)
qed

lemma finished_run_write:
  assumes w: "run_write e i0 s s'" and ok: "runs_ok s" and f: "finished_as i r m s"
  shows "finished_as i r m s'"
proof -
  obtain r0 r1 z where w': "get_run (hn_id r1) s = Some r0" "\<not> phase_terminal (hn_phase r0)"
    "s' = put_run r1 z" "st_runs z = st_runs s" "\<forall>j. j \<noteq> hn_message r0 \<longrightarrow> get_msg j z = get_msg j s"
    using w unfolding run_write_def by metis
  have r: "get_run i s = Some r" "phase_terminal (hn_phase r)" using f by (simp_all add: finished_as_def)
  note mem0 = get_run_mem [OF w'(1)] and mem = get_run_mem [OF r(1)]
  have ne: "r \<noteq> r0" using w'(2) r(2) by auto
  have ids: "distinct (map hn_id (st_runs s))" "distinct (map hn_message (st_runs s))"
    using ok by (simp_all add: runs_ok_def)
  have "hn_message r \<noteq> hn_message r0" using distinct_mapD [OF ids(2)] mem mem0 ne by blast
  then have "get_msg (hn_message r) s' = get_msg (hn_message r) s" using w'(3,5) by simp
  moreover have "hn_id r1 \<noteq> i" using r(1) w'(1) ne by auto
  moreover have "get_run i z = Some r" using r(1) w'(4) by (simp add: get_run_def)
  ultimately have "get_msg (hn_message r) s' = get_msg (hn_message r) s" "get_run i s' = Some r"
    using w'(3) by (simp_all add: runs.find_put)
  then show ?thesis using f by (simp add: finished_as_def)
qed

lemma finished_run_added:
  assumes a: "run_added e s s'" and f: "finished_as i r m s"
  shows "finished_as i r m s'"
proof -
  have r: "get_run i s = Some r" using f by (simp add: finished_as_def)
  have "run_owned (hn_message r) s" using get_run_mem [OF r] unfolding run_owned_def by blast
  then have "get_msg (hn_message r) s' = get_msg (hn_message r) s"
    using a f by (auto simp: run_added_def finished_as_def)
  moreover have "get_run i s' = Some r"
    using a r by (auto simp: run_added_def get_run_def tbl_find_append)
  ultimately show ?thesis using f by (simp add: finished_as_def)
qed

section \<open>Transactions of messages\<close>

lemma save_message_quiet:
  assumes run: "save_message e cf now m create s = Inr (m', s')" and "create \<or> \<not> run_owned (m_id m) s"
  shows "quiet s s'"
proof (rule quietI [OF save_message_frame(3) [OF run] save_message_tidy [OF run]])
  fix i assume i: "run_owned i s" "get_msg i s \<noteq> None"
  then have "i \<noteq> m_id m" using assms(2) save_message_frame(6) [OF run] by auto
  then show "get_msg i s' = get_msg i s \<and> rows_same s s' i"
    using save_message_frame(2) [OF run] save_message_other_rows(1) [OF run] by blast
qed

lemma ensure_participant_quiet:
  "ensure_participant_conversation e now parent a s = Inr s' \<Longrightarrow> quiet s s'"
  by (rule quiet_same) (simp_all add: ensure_participant_frame)

lemma draw_quiet [simp]: "quiet s (draw s)"
  by (rule quiet_same) (simp_all add: draw_def)

lemma create_message_quiet: "create_message e cf now m s = Inr (m', s') \<Longrightarrow> quiet s s'"
  by (auto simp: create_message_def elim!: bindR_obtain dest!: save_message_quiet ensure_participant_quiet
      intro: quiet_trans)

lemma create_chat_input_quiet: "create_chat_input e cf now m s = Inr (m', s') \<Longrightarrow> quiet s s'"
  by (auto simp: create_chat_input_def elim!: bindR_obtain dest!: save_message_quiet ensure_participant_quiet
      intro: quiet_trans split: if_splits)

lemma require_unowned_Inr: "require_unowned i s = Inr u \<Longrightarrow> \<not> run_owned i s"
  by (auto simp: require_unowned_def guardR_def run_owned_def filter_empty_conv split: if_splits)

lemma update_message_content_quiet:
  assumes "update_message_content e cf now conv i content s = Inr (m', s')"
  shows "quiet s s'"
proof -
  obtain m u where "require_unowned (m_id m) s = Inr u"
    "save_message e cf now (m\<lparr>m_content := content, m_revision := m_revision m + 1\<rparr>) False s = Inr (m', s')"
    using assms by (auto simp: update_message_content_def bindR_eq_Inr)
  then show ?thesis by (intro save_message_quiet) (auto dest: require_unowned_Inr)
qed

lemma delete_message_quiet:
  assumes "delete_message i s = Inr s'"
  shows "quiet s s'"
proof -
  obtain m u where m: "get_msg i s = Some m" "require_unowned (m_id m) s = Inr u"
    and s': "s' = s\<lparr>st_parts := filter (\<lambda>p. p_message p \<noteq> i) (st_parts s),
              st_msgs := filter (\<lambda>x. m_id x \<noteq> i) (st_msgs s)\<rparr>"
    using assms by (auto simp: delete_message_def bindR_eq_Inr)
  have free: "\<not> run_owned i s" using require_unowned_Inr [OF m(2)] msgs.find_key [OF m(1)] by simp
  have "tbl_find m_id j (filter (\<lambda>x. m_id x \<noteq> i) xs) = tbl_find m_id j xs" if "j \<noteq> i" for j xs
    using that by (induction xs) auto
  moreover have "j \<noteq> i" if "run_owned j s" for j using that free by auto
  moreover have "rows_same s s' j" if "j \<noteq> i" for j
    using that unfolding rows_same_def group_rows_def s' by (auto simp: filter_filter intro!: filter_cong)
  moreover have "tidy s'" if "tidy s" using that by (simp add: tidy_def s' distinct_map_filter)
  ultimately show ?thesis by (intro quietI) (auto simp: s' get_msg_def)
qed

lemma tidy_put_msg [simp]: "tidy (put_msg m s) = tidy s"
proof -
  have "map m_id (tbl_put m_id m ys) = map m_id ys" for ys
    by (induction ys) (simp_all add: tbl_put_def)
  then show ?thesis by (simp add: tidy_def put_msg_def)
qed

lemma expire_one_quiet: "quiet s (fst (expire_one cutoff x s))"
proof (rule quietI)
  show "st_runs (fst (expire_one cutoff x s)) = st_runs s"
    by (simp add: expire_one_def put_msg_def split: option.split)
  show "tidy (fst (expire_one cutoff x s))" if "tidy s"
    using that by (simp add: expire_one_def tidy_put_msg split: option.split)
  fix i assume "run_owned i s"
  moreover have "rows_same s (fst (expire_one cutoff x s)) i"
    by (rule rows_same_parts) (simp add: expire_one_def split: option.split)
  ultimately show "get_msg i (fst (expire_one cutoff x s)) = get_msg i s \<and> rows_same s (fst (expire_one cutoff x s)) i"
    by (auto simp: expire_one_def may_expire_def msgs.find_put dest: msgs.find_key split: option.split)
qed

lemma expire_rows_quiet: "expire_rows cutoff xs done s = (ids, s') \<Longrightarrow> quiet s s'"
proof (induction cutoff xs "done" s rule: expire_rows.induct)
  case (2 cutoff x xs "done" s)
  obtain s1 n where x: "expire_one cutoff x s = (s1, n)" by (cases "expire_one cutoff x s")
  then have "quiet s s1" using expire_one_quiet [of s cutoff x] by simp
  moreover have "quiet s1 s'" using 2 x by simp
  ultimately show ?case by (rule quiet_trans)
qed simp

lemma expire_messages_quiet: "expire_messages cutoff limit s = (ids, s') \<Longrightarrow> quiet s s'"
  by (simp add: expire_messages_def expire_rows_quiet)

lemma speak_quiet:
  assumes "speak e cf now conv r s = Inr (m, s')"
  shows "quiet s s'"
proof -
  have "s' = s \<or> (\<exists>cv s1 m'. ensure_participant_conversation e now cv (sr_target r) s = Inr s1
      \<and> save_message e cf now (spoken_message e conv r (fresh_id e s1)) True (draw s1) = Inr (m', s'))"
    using assms by (auto simp: speak_def bindR_eq_Inr split: option.splits if_splits)
  then show ?thesis
    by (auto dest!: save_message_quiet ensure_participant_quiet intro: quiet_trans [OF _ quiet_trans [OF draw_quiet]])
qed

lemma project_output_quiet:
  assumes "project_output e cf now i ev st s = Inr s'"
  shows "quiet s s'"
proof -
  obtain status where "project_event e cf now i ev status False s = Inr s'"
    using assms by (auto simp: project_output_def bindR_eq_Inr)
  from project_event_cases [OF this] have free: "\<not> run_owned i s"
    and eff: "s' = s \<or> ((\<forall>j. j \<noteq> i \<longrightarrow> get_msg j s' = get_msg j s) \<and> st_runs s' = st_runs s)"
    by (auto simp: output_accepted_def other_tables_def)
  obtain bytes where pr: "project_event e cf now i ev status False s = Inr s'" using \<open>project_event e cf now i ev status False s = Inr s'\<close> by blast
  note R = project_event_rows [OF pr]
  from eff show ?thesis
    using free R by (fastforce intro!: quietI simp: tidy_def)
qed

lemma acknowledge_dispatch_quiet: "quiet s (acknowledge_dispatch i s)"
proof -
  have "st_parts (acknowledge_dispatch i s) = st_parts s" "st_runs (acknowledge_dispatch i s) = st_runs s"
    "tidy (acknowledge_dispatch i s) = tidy s"
    by (simp_all add: acknowledge_dispatch_def update_msg_def split: option.split)
  then show ?thesis
    by (auto simp: quiet_def acknowledge_dispatch_def get_msg_update_msg row_kept_def rows_same_parts)
qed

lemma put_msg_quiet:
  assumes "get_msg (m_id m) s = Some m0" and "row_kept m0 m"
  shows "quiet s (put_msg m s)"
  using assms by (auto simp: quiet_def msgs.find_put rows_same_parts)

lemma acknowledge_human_wake_quiet: "quiet s (acknowledge_human_wake now i n s)"
proof -
  have "quiet s (put_msg (m\<lparr>m_wake := False, m_updated := now\<rparr>) s)" if "get_msg i s = Some m" for m
    by (rule put_msg_quiet [where ?m0.0 = m]) (use that msgs.find_key [OF that] in \<open>simp_all add: row_kept_def\<close>)
  then show ?thesis by (simp add: acknowledge_human_wake_def split: option.split)
qed

section \<open>Transactions of questions\<close>

lemma hydrate_message_id: "hydrate_message e s m = Inr h \<Longrightarrow> m_id h = m_id m"
  by (auto simp: hydrate_message_def hydrate_messages_def hydrate_one_def bindR_eq_Inr Let_def split: if_split_asm)

lemma quiet_owned: "quiet s s' \<Longrightarrow> run_owned i s' = run_owned i s"
  by (simp add: quiet_def run_owned_def)

lemma save_human_quiet:
  assumes "save_human e cf now m c wake s = Inr (m1, s1)" and "\<not> run_owned (m_id m) s"
  shows "quiet s s1"
  using assms unfolding save_human_def by (auto dest: save_message_quiet)

lemma expire_human_quiet:
  assumes "expire_human e cf now m c active s = Inr (m1, c1, s1)" and "\<not> run_owned (m_id m) s"
  shows "quiet s s1 \<and> m_id m1 = m_id m"
proof -
  obtain q expired where q: "expire now (human_question_of c) = (q, expired)" by (rule prod.exhaust)
  show ?thesis
  proof (cases expired)
    case True
    then obtain c2 where r: "save_human e cf now m c2 active s = Inr (m1, s1)"
      using assms(1) q by (auto simp: expire_human_def Let_def bindR_eq_Inr)
    have "m_id m1 = m_id m"
      using save_message_frame(1) [OF r [unfolded save_human_def]] by (auto simp: written_row_def)
    then show ?thesis using save_human_quiet [OF r assms(2)] by simp
  qed (use assms(1) q in \<open>simp add: expire_human_def\<close>)
qed

text \<open>A question found in the tables is not the output of a run.\<close>

lemma question_unowned:
  assumes "outputs_plain e s" and row: "row \<in> set (st_msgs s)" "hydrate_message e s row = Inr m" "decode_human e m = Inr c"
  shows "\<not> run_owned (m_id m) s"
proof
  assume own: "run_owned (m_id m) s"
  have id: "m_id m = m_id row" by (rule hydrate_message_id [OF row(2)])
  have "get_msg (m_id row) s = Some row"
    using assms(1) tbl_find_distinct [OF _ row(1), of m_id] by (simp add: outputs_plain_def tidy_def get_msg_def)
  then have "plain_message e s row" using assms(1) own id by (simp add: outputs_plain_def)
  then show False using plain_no_question [OF _ row(2)] row(3) by blast
qed

lemma create_human_quiet:
  assumes "create_human e cf now r s = Inr (res, s')" and "outputs_plain e s"
  shows "quiet s s'"
proof (cases "find (\<lambda>x. m_output_key x = Some (human_key e r)) (st_msgs s)")
  case None
  then obtain m where "save_message e cf now (human_message e now r (fresh_id e s)) True (draw s) = Inr (m, s')"
    using assms(1) by (auto simp: create_human_def with_human_context_def bindR_eq_Inr split: sum.splits)
  then have "quiet (draw s) s'" by (auto dest: save_message_quiet)
  then show ?thesis by (rule quiet_trans [OF draw_quiet])
next
  case (Some row)
  then obtain m c x y where f: "hydrate_message e s row = Inr m" "decode_human e m = Inr c"
    "expire_human e cf now m c True s = Inr (x, y, s')"
    using assms(1) by (auto simp: create_human_def with_human_context_def bindR_eq_Inr split: sum.splits if_split_asm)
  have "row \<in> set (st_msgs s)" using Some by (auto simp: find_Some_iff)
  then have "\<not> run_owned (m_id m) s" using question_unowned [OF assms(2) _ f(1,2)] by blast
  then show ?thesis using expire_human_quiet [OF f(3)] by blast
qed

lemma with_human_message_Inr:
  assumes "with_human_message e i body s = Inr x"
  shows "\<exists>row m. row \<in> set (st_msgs s) \<and> hydrate_message e s row = Inr m \<and> m_id m = i \<and> body m s = Inr x"
proof -
  obtain row m where f: "get_msg i s = Some row" "hydrate_message e s row = Inr m" "body m s = Inr x"
    using assms by (auto simp: with_human_message_def bindR_eq_Inr)
  have "row \<in> set (st_msgs s)" using f(1) tbl_find_mem unfolding get_msg_def by metis
  moreover have "m_id m = i" using hydrate_message_id [OF f(2)] msgs.find_key [OF f(1)] by simp
  ultimately show ?thesis using f by blast
qed

lemma get_human_quiet:
  assumes "get_human e cf now i s = Inr (res, s')" and "outputs_plain e s"
  shows "quiet s s'"
proof -
  obtain row m c x y where f: "row \<in> set (st_msgs s)" "hydrate_message e s row = Inr m" "decode_human e m = Inr c"
    "expire_human e cf now m c True s = Inr (x, y, s')"
    using with_human_message_Inr [OF assms(1) [unfolded get_human_def]] by (auto simp: bindR_eq_Inr)
  then show ?thesis using expire_human_quiet question_unowned [OF assms(2)] by blast
qed

lemma accept_reply_quiet:
  assumes "accept_reply e cf now conv actor r q m c s = Inr (res, s')" and "\<not> run_owned (m_id m) s"
  shows "quiet s s'"
proof -
  obtain parent s1 m2 s2 m3 b c1 where s: "ensure_participant_conversation e now parent (m_source m) (draw s) = Inr s1"
    "save_message e cf now (reply_message e conv actor r b m (fresh_id e s)) True s1 = Inr (m2, s2)"
    "save_human e cf now m c1 True s2 = Inr (m3, s')"
    using assms(1) unfolding accept_reply_def Let_def by (auto simp: bindR_eq_Inr)
  have 1: "quiet s s1" using quiet_trans [OF draw_quiet ensure_participant_quiet [OF s(1)]] .
  have 2: "quiet s1 s2" using save_message_quiet [OF s(2)] by simp
  note 12 = quiet_trans [OF 1 2]
  have "quiet s2 s'" using save_human_quiet [OF s(3)] assms(2) quiet_owned [OF 12] by simp
  then show ?thesis by (rule quiet_trans [OF 12])
qed

lemma case_conflict: "(case er of ErrHumanConflict \<Rightarrow> a | _ \<Rightarrow> b) = (if er = ErrHumanConflict then a else b)"
  by (cases er) simp_all

text \<open>What a valid reply does once its question is found.\<close>

definition replied :: "env \<Rightarrow> config \<Rightarrow> int \<Rightarrow> string \<Rightarrow> string \<Rightarrow> human_reply \<Rightarrow> message \<Rightarrow> human_content \<Rightarrow> store
     \<Rightarrow> (human_result \<times> bool \<times> store) result" where
  "replied e cf now conv actor r m c s =
     bindR (expire_human e cf now m c True s) (\<lambda>(m1, c1, s1).
     bindR (human_result_for e s1 m1 c1) (\<lambda>res.
     let previous = map_option (\<lambda>x. \<lparr>an_actor = ar_key (cm_source x), an_outcome = hs_status res,
                                   an_value = hs_value res\<rparr>) (hs_reply res)
     in case resolve r actor previous (human_question_of c1) of
          Inl ErrHumanConflict \<Rightarrow> Inr (res, True, s1)
        | Inl _ \<Rightarrow> Inl ErrInvalidHuman
        | Inr (q, changed) \<Rightarrow>
            if \<not> changed then Inr (res, False, s1)
            else bindR (accept_reply e cf now conv actor r q m1 c1 s1)
                   (\<lambda>(res2, s2). Inr (res2, False, s2))))"

lemma replied_cases:
  assumes "replied e cf now conv actor r m c s = Inr (res, b, s1)"
  obtains m1 c1 s2 where "expire_human e cf now m c True s = Inr (m1, c1, s2)"
    "s1 = s2 \<or> (\<exists>q res2. accept_reply e cf now conv actor r q m1 c1 s2 = Inr (res2, s1))"
proof -
  obtain m1 c1 s2 where ex: "expire_human e cf now m c True s = Inr (m1, c1, s2)"
    using assms by (cases "expire_human e cf now m c True s") (auto simp: replied_def)
  obtain rs where "human_result_for e s2 m1 c1 = Inr rs"
    using assms ex by (cases "human_result_for e s2 m1 c1") (auto simp: replied_def)
  note k = assms [unfolded replied_def ex this bindR_Inr prod.case]
  define a where "a = resolve r actor (map_option (\<lambda>x. \<lparr>an_actor = ar_key (cm_source x), an_outcome = hs_status rs,
                                   an_value = hs_value rs\<rparr>) (hs_reply rs)) (human_question_of c1)"
  have "s1 = s2 \<or> (\<exists>q res2. accept_reply e cf now conv actor r q m1 c1 s2 = Inr (res2, s1))"
  proof (cases a)
    case (Inl er)
    then show ?thesis using k [unfolded Let_def bindR_Inr prod.case, folded a_def] by (simp add: case_conflict split: if_split_asm)
  next
    case (Inr p)
    obtain q changed where "p = (q, changed)" by (rule prod.exhaust)
    then show ?thesis using k [unfolded Let_def bindR_Inr prod.case, folded a_def] Inr by (auto simp: bindR_eq_Inr split: if_split_asm)
  qed
  then show thesis using that ex by blast
qed

lemma reply_human_quiet:
  assumes "reply_human e cf now conv actor r s = (res, s')" and "outputs_plain e s"
  shows "quiet s s'"
proof (cases "reply_transaction e cf now conv actor r s")
  case (Inl er)
  then show ?thesis using assms(1) by (simp add: reply_human_def)
next
  case (Inr x)
  obtain res1 b s1 where x: "x = (res1, b, s1)" by (rule prod_cases3)
  then have "s' = s1" using assms(1) Inr by (simp add: reply_human_def)
  obtain row m where row: "row \<in> set (st_msgs s)" "hydrate_message e s row = Inr m"
    and body: "bindR (decode_human e m) (\<lambda>c. case validate_reply (human_request_of c) r of
          Inl _ \<Rightarrow> Inl ErrInvalidHuman
        | Inr _ \<Rightarrow> replied e cf now conv actor r m c s) = Inr (res1, b, s1)"
    using with_human_message_Inr [OF Inr [unfolded reply_transaction_def x, folded replied_def]]
    by (auto split: if_split_asm)
  obtain c where c: "decode_human e m = Inr c"
    using body by (cases "decode_human e m") auto
  have free: "\<not> run_owned (m_id m) s" by (rule question_unowned [OF assms(2) row c])
  have "replied e cf now conv actor r m c s = Inr (res1, b, s1)"
    using body by (cases "validate_reply (human_request_of c) r") (auto simp: c)
  then obtain m1 c1 s2 where ex: "expire_human e cf now m c True s = Inr (m1, c1, s2)"
    and after: "s1 = s2 \<or> (\<exists>q res2. accept_reply e cf now conv actor r q m1 c1 s2 = Inr (res2, s1))"
    by (rule replied_cases)
  have E: "quiet s s2" "m_id m1 = m_id m" using expire_human_quiet [OF ex free] by simp_all
  have "\<not> run_owned (m_id m1) s2" using E(2) free quiet_owned [OF E(1)] by simp
  then have "quiet s2 s1" using after accept_reply_quiet by auto
  then show ?thesis unfolding \<open>s' = s1\<close> by (rule quiet_trans [OF E(1)])
qed

section \<open>Transactions of runs\<close>

lemma touch_run_write:
  assumes "fence cf now t s = Inr s1" and "get_run i s = Some r0" and "\<not> phase_terminal (hn_phase r0)"
    and "hn_id r = hn_id r0" and "hn_message r = hn_message r0"
  shows "run_write e i s (touch_run now r s1)"
proof -
  note F = fence_other_tables [OF assms(1)] and mem = get_run_mem [OF assms(2)]
  have parts: "st_parts s1 = st_parts s" using fence_store [OF assms(1)] by simp
  show ?thesis
    unfolding run_write_def touch_run_def
    by (intro exI [of _ r0] exI [of _ "r\<lparr>hn_updated := now\<rparr>"] exI [of _ s1])
      (use assms(2-5) mem F parts in \<open>simp add: rows_same_parts [OF parts] plain_cong [OF parts]\<close>)
qed

lemma leased_run_write:
  assumes run: "harness_transaction cf now t i body s = Inr x"
    and body: "\<And>r0 s1. \<not> phase_terminal (hn_phase r0) \<Longrightarrow> body r0 s1 = Inr x \<Longrightarrow>
        \<exists>r. s' = touch_run now r s1 \<and> hn_id r = hn_id r0 \<and> hn_message r = hn_message r0"
  shows "run_write e i s s'"
proof -
  obtain s1 r0 where h: "fence cf now t s = Inr s1" "get_run i s = Some r0" "\<not> phase_terminal (hn_phase r0)"
    "body r0 s1 = Inr x"
    by (rule harness_transaction_ok [OF run]) blast
  with body [OF h(3,4)] touch_run_write [OF h(1-3)] show ?thesis by blast
qed

lemma start_run_write: "start_harness_run cf now t i s = Inr (run, s') \<Longrightarrow> run_write e i s s'"
  unfolding start_harness_run_def by (erule leased_run_write) auto

lemma bind_run_write: "bind_harness_execution cf now t i ref s = Inr s' \<Longrightarrow> run_write e i s s'"
  unfolding bind_harness_execution_def by (erule leased_run_write) (auto split: if_splits)

lemma retry_run_write: "retry_harness_run cf now t i detail s = Inr s' \<Longrightarrow> run_write e i s s'"
  unfolding retry_harness_run_def by (erule leased_run_write) auto

lemma fence_quiet: "fence cf now t s = Inr s' \<Longrightarrow> quiet s s'"
  using fence_store [of cf now t s s'] by (intro quiet_same) (simp_all add: fence_other_tables)

lemma output_event_type:
  "output_event_ok ev \<Longrightarrow> ev_op ev \<in> {OpSet, OpAppend, OpEnd}
     \<and> ev_get ''type'' ev \<notin> {Some (JStr ''ask''), Some (JStr ''confirm'')}"
  by (auto simp: output_event_ok_def)

text \<open>An event projected onto the message of a run.\<close>

lemma projected_output:
  assumes laws: "ui_laws e" "fold_law e" and pr: "project_event e cf now i ev status True s = Inr s'"
    and ev: "ev_op ev \<in> {OpSet, OpAppend, OpEnd}" "ev_get ''type'' ev \<notin> {Some (JStr ''ask''), Some (JStr ''confirm'')}"
  shows "map m_id (st_msgs s') = map m_id (st_msgs s)" "\<And>j. j \<noteq> i \<Longrightarrow> rows_same s s' j"
    "\<And>m. get_msg i s = Some m \<Longrightarrow> plain_message e s m
        \<Longrightarrow> \<exists>m'. get_msg i s' = Some m' \<and> plain_message e s' m'"
  using project_event_rows [OF pr] project_event_plain [OF laws pr _ _ ev] by blast+

lemma append_run_write:
  assumes laws: "ui_laws e" "fold_law e" and run: "append_harness_output e cf now t i index hash ev s = Inr s'"
  shows "run_write e i s s' \<or> quiet s s'"
proof -
  obtain s1 r0 where h: "fence cf now t s = Inr s1" "get_run i s = Some r0" "\<not> phase_terminal (hn_phase r0)"
    and eff: "(index \<le> hn_checkpoint r0 \<and> s' = s1) \<or>
     (index = hn_checkpoint r0 + 1 \<and> output_event_ok ev \<and>
      (\<exists>m s2. get_msg (hn_message r0) s1 = Some m
        \<and> project_event e cf now (m_id m) (ev\<lparr>ev_seq := m_revision m + 1\<rparr>) [] True s1 = Inr s2
        \<and> s' = touch_run now (r0\<lparr>hn_checkpoint := index, hn_replay_hash := hash\<rparr>) s2))"
    by (rule append_harness_output_cases [OF run]) blast
  note F = fence_other_tables [OF h(1)] and mem = get_run_mem [OF h(2)]
  from eff show ?thesis
  proof
    assume "index \<le> hn_checkpoint r0 \<and> s' = s1"
    then show ?thesis using fence_quiet [OF h(1)] by simp
  next
    assume "index = hn_checkpoint r0 + 1 \<and> output_event_ok ev \<and>
      (\<exists>m s2. get_msg (hn_message r0) s1 = Some m
        \<and> project_event e cf now (m_id m) (ev\<lparr>ev_seq := m_revision m + 1\<rparr>) [] True s1 = Inr s2
        \<and> s' = touch_run now (r0\<lparr>hn_checkpoint := index, hn_replay_hash := hash\<rparr>) s2)"
    then obtain m s2 where ok: "output_event_ok ev" and m: "get_msg (hn_message r0) s1 = Some m"
      and pr: "project_event e cf now (m_id m) (ev\<lparr>ev_seq := m_revision m + 1\<rparr>) [] True s1 = Inr s2"
      and s': "s' = touch_run now (r0\<lparr>hn_checkpoint := index, hn_replay_hash := hash\<rparr>) s2"
      by blast
    have id: "m_id m = hn_message r0" using m by (rule msgs.find_key)
    from project_next [OF pr [unfolded id] m] have
      P: "\<And>j. j \<noteq> hn_message r0 \<Longrightarrow> get_msg j s2 = get_msg j s1" "st_runs s2 = st_runs s1"
      unfolding output_accepted_def other_tables_def by auto
    have "ev_op (ev\<lparr>ev_seq := m_revision m + 1\<rparr>) \<in> {OpSet, OpAppend, OpEnd}"
      "ev_get ''type'' (ev\<lparr>ev_seq := m_revision m + 1\<rparr>) \<notin> {Some (JStr ''ask''), Some (JStr ''confirm'')}"
      using output_event_type [OF ok] by (simp_all add: ev_get_def)
    note Q = projected_output [OF laws pr [unfolded id] this]
    have parts: "st_parts s1 = st_parts s" "st_msgs s1 = st_msgs s" using fence_store [OF h(1)] F by simp_all
    have "rows_same s s2 j" if "j \<noteq> hn_message r0" for j
      using Q(2) [OF that] rows_same_parts [OF parts(1)] rows_same_trans by blast
    then have "run_write e i s s'"
      unfolding run_write_def s' touch_run_def
      by (intro exI [of _ r0] exI [of _ "r0\<lparr>hn_checkpoint := index, hn_replay_hash := hash, hn_updated := now\<rparr>"]
          exI [of _ s2]) (use h mem F P Q(1,3) parts plain_cong [OF parts(1)] in simp)
    then show ?thesis ..
  qed
qed

lemma finish_event_type:
  assumes "finish_event e q phase res detail = Inr ev"
  shows "ev_get ''type'' ev \<notin> {Some (JStr ''ask''), Some (JStr ''confirm'')}"
  using assms
  by (auto simp: finish_event_def set_event_def no_event_def ev_get_def result_block_def bindR_eq_Inr
      split: if_splits option.splits)

lemma finish_run_write:
  assumes laws: "ui_laws e" "fold_law e" "end_law e"
    and run: "finish_harness_run e cf now t i phase res detail s = Inr (evs, s')"
  shows "run_write e i s s'"
proof -
  from run obtain s1 r0 p x d m ev s2 s3 where
    f: "fence cf now t s = Inr s1" "get_run i s = Some r0" "\<not> phase_terminal (hn_phase r0)"
    "get_msg (hn_message r0) s1 = Some m" "finish_event e (m_revision m + 1) p x d = Inr ev"
    "project_event e cf now (hn_message r0) ev [] True s1 = Inr s2"
    "project_event e cf now (hn_message r0) (e_end e (m_revision m + 2)) (finish_status p) True s2 = Inr s3"
    "s' = touch_run now (r0\<lparr>hn_phase := p, hn_error := d\<rparr>) s3"
    by (rule finish_harness_run_cases)
  note F = fence_other_tables [OF f(1)] and mem = get_run_mem [OF f(2)]
  have parts: "st_parts s1 = st_parts s" "st_msgs s1 = st_msgs s" using fence_store [OF f(1)] F by simp_all
  have "ev_op ev \<in> {OpSet, OpAppend, OpEnd}" using finish_event_op(1) [OF f(5)] by simp
  note Q1 = projected_output [OF laws(1,2) f(6) this finish_event_type [OF f(5)]]
  have "ev_op (e_end e (m_revision m + 2)) \<in> {OpSet, OpAppend, OpEnd}"
    "ev_get ''type'' (e_end e (m_revision m + 2)) \<notin> {Some (JStr ''ask''), Some (JStr ''confirm'')}"
    using laws(2,3) by (simp_all add: end_law_def fold_law_def ev_get_def)
  note Q2 = projected_output [OF laws(1,2) f(7) this]
  have kept: "(\<forall>j. j \<noteq> hn_message r0 \<longrightarrow> get_msg j b = get_msg j a) \<and> st_runs b = st_runs a"
    if "project_event e cf now (hn_message r0) v st True a = Inr b" for v st a b
    using project_event_cases [OF that] by (auto simp: output_accepted_def other_tables_def)
  have "rows_same s s3 j" if "j \<noteq> hn_message r0" for j
    using Q1(2) [OF that] Q2(2) [OF that] rows_same_parts [OF parts(1)] rows_same_trans by metis
  moreover have "\<exists>m'. get_msg (hn_message r0) s3 = Some m' \<and> plain_message e s3 m'"
    if "get_msg (hn_message r0) s = Some y" "plain_message e s y" for y
    using Q1(3) [of y] Q2(3) that F(5) plain_cong [OF parts(1)] by auto
  ultimately show ?thesis
    unfolding run_write_def f(8) touch_run_def
    by (intro exI [of _ r0] exI [of _ "r0\<lparr>hn_phase := p, hn_error := d, hn_updated := now\<rparr>"] exI [of _ s3])
      (use f(2,3) mem F parts kept [OF f(6)] kept [OF f(7)] Q1(1) Q2(1) in simp)
qed

lemma cancel_run_write:
  assumes "cancel_harness_run now i s = Inr s'"
  shows "run_write e i s s' \<or> s' = s"
proof -
  obtain r0 where r0: "get_run i s = Some r0"
    and out: "(if phase_terminal (hn_phase r0) then Inr s
         else Inr (touch_run now (r0\<lparr>hn_cancel := True, hn_next_attempt := now\<rparr>) s)) = (Inr s' :: store result)"
    using assms by (auto simp: cancel_harness_run_def bindR_eq_Inr)
  have "run_write e i s (touch_run now (r0\<lparr>hn_cancel := True, hn_next_attempt := now\<rparr>) s)"
    if "\<not> phase_terminal (hn_phase r0)"
    unfolding run_write_def touch_run_def
    by (intro exI [of _ r0] exI [of _ "r0\<lparr>hn_cancel := True, hn_next_attempt := now, hn_updated := now\<rparr>"] exI [of _ s])
      (use r0 that get_run_mem [OF r0] in simp)
  then show ?thesis using out by (auto split: if_splits)
qed

lemma create_run_added:
  assumes "create_harness_run e cf now r admit s = Inr (run, s')"
  shows "s' = s \<or> run_added e s s'"
proof -
  from create_harness_run_split [OF assms] consider "s' = s"
    | a conv s1 m s3 where "ensure_participant_conversation e now conv (rr_recipient r) s = Inr s1"
      "save_message e cf now (run_message r a (hn_message run)) True (draw (draw s1)) = Inr (m, s3)"
      "insert_run now (new_run e now r a (fresh_id e s1) (fresh_id e (draw s1))) s3 = Inr s'"
      "run = (new_run e now r a (fresh_id e s1) (fresh_id e (draw s1)))\<lparr>hn_created := now, hn_updated := now\<rparr>"
    by blast
  then show ?thesis
  proof cases
    case 1
    then show ?thesis ..
  next
    case (2 a conv s1 m s3)
    note E = ensure_participant_frame [OF 2(1)] and M = save_message_frame [OF 2(2)] and F = insert_run_frame [OF 2(3)]
    note R = save_message_other_rows [OF 2(2)]
    let ?d = "draw (draw s1)"
    have d: "st_parts ?d = st_parts s" "st_msgs ?d = st_msgs s" using E by (simp_all add: draw_def)
    have "get_msg i s' = get_msg i s \<and> rows_same s s' i" if "get_msg i s \<noteq> None" for i
    proof -
      have "get_msg i (draw (draw s1)) = get_msg i s" using E(1) by (simp add: get_msg_def)
      moreover have "i \<noteq> m_id (run_message r a (hn_message run))" using calculation that M(6) by auto
      ultimately have "get_msg i s3 = get_msg i s" using M(2) by simp
      moreover have "rows_same ?d s3 i" using R(1) \<open>i \<noteq> m_id (run_message r a (hn_message run))\<close> by blast
      then have "rows_same s s3 i" using rows_same_trans [OF rows_same_parts [OF d(1)]] by blast
      then have "rows_same s s' i" using rows_same_trans rows_same_parts [OF F(2)] by blast
      ultimately show ?thesis using F(1) by (simp add: get_msg_def)
    qed
    moreover have "st_runs s3 = st_runs s" using M(3) E(3) by (simp add: draw_def)
    moreover have "tidy s'" if "tidy s"
      using save_message_tidy [OF 2(2)] that d(2) F(1) by (simp add: tidy_def)
    moreover have "\<exists>x. get_msg (m_id (run_message r a (hn_message run))) s3 = Some x \<and> plain_message e s3 x"
      by (rule save_empty_plain [OF 2(2), of "JObj [(''biz'', JStr ''chat''), (''blocks'', JArr []),
            (''meta'', case rr_meta r of None \<Rightarrow> JNull | Some v \<Rightarrow> v), (''version'', JStr ''1.1'')]"])
        (simp_all add: run_message_def run_content_def jblocks_def)
    then obtain x where x: "get_msg (hn_message run) s' = Some x" "plain_message e s' x"
      using get_msg_cong [OF F(1)] plain_cong [OF F(2)] by (auto simp: run_message_def)
    moreover have "st_runs s' = st_runs s @ [run]"
      using calculation(2) F(6) 2(4) by simp
    ultimately show ?thesis unfolding run_added_def by blast
  qed
qed

section \<open>Steps\<close>

text \<open>One committed transaction at time \<open>now\<close>, by any server, or an identifier drawn outside of one.\<close>

inductive repo_step :: "env \<Rightarrow> config \<Rightarrow> int \<Rightarrow> store \<Rightarrow> store \<Rightarrow> bool" for e cf now s where
  acquire: "acquire e now res ttl s = Inr (t, s') \<Longrightarrow> repo_step e cf now s s'"
| renew: "renew cf now t s = Inr s' \<Longrightarrow> repo_step e cf now s s'"
| unlock: "repo_step e cf now s (unlock t s)"
| create: "create_harness_run e cf now r admit s = Inr (run, s') \<Longrightarrow> repo_step e cf now s s'"
| start: "start_harness_run cf now t i s = Inr (run, s') \<Longrightarrow> repo_step e cf now s s'"
| bind: "bind_harness_execution cf now t i ref s = Inr s' \<Longrightarrow> repo_step e cf now s s'"
| append: "append_harness_output e cf now t i index hash ev s = Inr s' \<Longrightarrow> repo_step e cf now s s'"
| finish: "finish_harness_run e cf now t i phase res detail s = Inr (evs, s') \<Longrightarrow> repo_step e cf now s s'"
| retry: "retry_harness_run cf now t i detail s = Inr s' \<Longrightarrow> repo_step e cf now s s'"
| cancel: "cancel_harness_run now i s = Inr s' \<Longrightarrow> repo_step e cf now s s'"
| conversation: "create_conversation now c s = Inr (c', s') \<Longrightarrow> repo_step e cf now s s'"
| operator: "register_operator now g s = Inr (g', s') \<Longrightarrow> repo_step e cf now s s'"
| harness: "register_harness now g s = Inr (g', s') \<Longrightarrow> repo_step e cf now s s'"
| message: "create_message e cf now m s = Inr (m', s') \<Longrightarrow> repo_step e cf now s s'"
| chat: "create_chat_input e cf now m s = Inr (m', s') \<Longrightarrow> repo_step e cf now s s'"
| update: "update_message_content e cf now conv i content s = Inr (m', s') \<Longrightarrow> repo_step e cf now s s'"
| delete: "delete_message i s = Inr s' \<Longrightarrow> repo_step e cf now s s'"
| expire: "expire_messages cutoff limit s = (ids, s') \<Longrightarrow> repo_step e cf now s s'"
| speak: "speak e cf now conv req s = Inr (m', s') \<Longrightarrow> repo_step e cf now s s'"
| project: "project_output e cf now i ev statuses s = Inr s' \<Longrightarrow> repo_step e cf now s s'"
| dispatched: "repo_step e cf now s (acknowledge_dispatch i s)"
| woken: "repo_step e cf now s (acknowledge_human_wake now i n s)"
| drawn: "repo_step e cf now s (draw s)"
| question: "create_human e cf now r s = Inr (res, s') \<Longrightarrow> repo_step e cf now s s'"
| observed: "get_human e cf now i s = Inr (res, s') \<Longrightarrow> repo_step e cf now s s'"
| reply: "reply_human e cf now conv actor r s = (answer, s') \<Longrightarrow> repo_step e cf now s s'"

lemma lock_steps_quiet:
  "acquire e now res ttl s = Inr (t, s') \<Longrightarrow> quiet s s'"
  "renew cf now t s = Inr s' \<Longrightarrow> quiet s s'" "quiet s (unlock t s)"
  by (auto simp: acquire_def renew_def unlock_def lock_takeover_def lock_insert_def put_lock_def draw_def Let_def
      intro!: quiet_same split: option.splits if_splits prod.splits)

lemma registry_steps_quiet:
  "create_conversation now c s = Inr (c', s') \<Longrightarrow> quiet s s'"
  "register_operator now g s = Inr (g', s') \<Longrightarrow> quiet s s'"
  "register_harness now g s = Inr (g', s') \<Longrightarrow> quiet s s'"
  by (auto simp: create_conversation_def register_operator_def register_harness_def bindR_eq_Inr
      intro!: quiet_same dest: insert_conv_frame)

definition toolkit_laws :: "env \<Rightarrow> bool" where
  "toolkit_laws e \<longleftrightarrow> ui_laws e \<and> fold_law e \<and> end_law e"

lemma toolkit_lawsD: "toolkit_laws e \<Longrightarrow> ui_laws e" "toolkit_laws e \<Longrightarrow> fold_law e" "toolkit_laws e \<Longrightarrow> end_law e"
  by (simp_all add: toolkit_laws_def)

lemma repo_step_cases:
  assumes "repo_step e cf now s s'" and "toolkit_laws e" and "outputs_plain e s"
  shows "quiet s s' \<or> (\<exists>i. run_write e i s s') \<or> run_added e s s'"
  using assms(1)
proof cases
  case (create r admit run)
  from create_run_added [OF create] show ?thesis by auto
next
  case (append t i index hash ev)
  from append_run_write [OF toolkit_lawsD(1,2) [OF assms(2)] append] show ?thesis by blast
next
  case (cancel i)
  from cancel_run_write [OF cancel, of e] show ?thesis using quiet_refl by blast
next
  case (finish t i phase res detail evs)
  from finish_run_write [OF toolkit_lawsD [OF assms(2)] finish] show ?thesis by blast
next
  case (question r res)
  then show ?thesis using create_human_quiet assms(3) by blast
next
  case (observed i res)
  then show ?thesis using get_human_quiet assms(3) by blast
next
  case (reply conv actor r answer)
  then show ?thesis using reply_human_quiet assms(3) by blast
next
  case (start t i run)
  then show ?thesis using start_run_write by blast
next
  case (bind t i ref)
  then show ?thesis using bind_run_write by blast
next
  case (retry t i detail)
  then show ?thesis using retry_run_write by blast
qed (simp_all add: lock_steps_quiet registry_steps_quiet create_message_quiet
    create_chat_input_quiet update_message_content_quiet delete_message_quiet expire_messages_quiet speak_quiet
    project_output_quiet acknowledge_dispatch_quiet acknowledge_human_wake_quiet)

lemma repo_step_runs_ok:
  assumes "repo_step e cf now s s'" and laws: "toolkit_laws e" and ok: "runs_ok s" and "outputs_plain e s"
  shows "runs_ok s'"
  using assms(1)
proof cases
  case (create r admit run)
  then show ?thesis using create_harness_run_ok [OF ok] by blast
next
  case (append t i index hash ev)
  then show ?thesis using append_harness_output_ok [OF ok] by blast
next
  case (cancel i)
  then show ?thesis using cancel_harness_run_ok [OF ok] by blast
next
  case (finish t i phase res detail evs)
  then show ?thesis using finish_harness_run_ok [OF toolkit_lawsD(3) [OF laws] ok] by blast
next
  case (start t i run)
  then show ?thesis using start_harness_run_ok [OF ok] by blast
next
  case (bind t i ref)
  then show ?thesis using bind_harness_execution_ok [OF ok] by blast
next
  case (retry t i detail)
  then show ?thesis using retry_harness_run_ok [OF ok] by blast
next
  case (question r res)
  then show ?thesis using quiet_runs_ok [OF create_human_quiet ok] assms(4) by blast
next
  case (observed i res)
  then show ?thesis using quiet_runs_ok [OF get_human_quiet ok] assms(4) by blast
next
  case (reply conv actor r answer)
  then show ?thesis using quiet_runs_ok [OF reply_human_quiet ok] assms(4) by blast
qed (simp_all add: quiet_runs_ok [OF _ ok] lock_steps_quiet registry_steps_quiet create_message_quiet
    create_chat_input_quiet update_message_content_quiet delete_message_quiet expire_messages_quiet speak_quiet
    project_output_quiet acknowledge_dispatch_quiet acknowledge_human_wake_quiet)

lemma repo_okD: "repo_ok e s \<Longrightarrow> runs_ok s" "repo_ok e s \<Longrightarrow> outputs_plain e s"
  by (simp_all add: repo_ok_def)

lemma repo_step_ok:
  assumes "repo_step e cf now s s'" and "toolkit_laws e" and ok: "repo_ok e s"
  shows "repo_ok e s'"
proof -
  note D = repo_okD [OF ok]
  have "outputs_plain e s'"
    using repo_step_cases [OF assms(1,2) D(2)] quiet_outputs run_write_outputs run_added_outputs D by blast
  then show ?thesis using repo_step_runs_ok [OF assms(1,2) D] by (simp add: repo_ok_def)
qed

lemma repo_ok_empty: "repo_ok e empty_store"
  by (simp add: repo_ok_def runs_ok_def outputs_plain_def tidy_def run_owned_def empty_store_def)

lemma repo_step_finished:
  assumes "repo_step e cf now s s'" and "toolkit_laws e" and "repo_ok e s" and "finished_as i r m s"
  shows "finished_as i r m s'"
  using repo_step_cases [OF assms(1,2) repo_okD(2) [OF assms(3)]] finished_quiet finished_run_write finished_run_added
    repo_okD(1) [OF assms(3)] assms(4) by blast

text \<open>What one run is to a transaction: left alone, asked to stop, or written under its lease.\<close>

definition run_kept :: "string \<Rightarrow> harness_run \<Rightarrow> message \<Rightarrow> store \<Rightarrow> bool" where
  "run_kept i r m s \<longleftrightarrow> get_run i s = Some r \<and> (\<exists>m'. get_msg (hn_message r) s = Some m' \<and> row_kept m m')"

lemma quiet_kept:
  assumes "quiet s s'" and r: "get_run i s = Some r" and m: "get_msg (hn_message r) s = Some m"
  shows "run_kept i r m s'"
proof -
  have "run_owned (hn_message r) s" using get_run_mem [OF r] unfolding run_owned_def by blast
  then show ?thesis using assms unfolding run_kept_def quiet_def get_run_def by metis
qed

lemma run_added_kept:
  assumes "run_added e s s'" and r: "get_run i s = Some r" and m: "get_msg (hn_message r) s = Some m"
  shows "run_kept i r m s'"
proof -
  have "run_owned (hn_message r) s" using get_run_mem [OF r] unfolding run_owned_def by blast
  then have "get_msg (hn_message r) s' = Some m" using assms(1) m unfolding run_added_def by (metis option.distinct(1))
  moreover have "get_run i s' = Some r"
    using assms(1) r by (auto simp: run_added_def get_run_def tbl_find_append)
  ultimately show ?thesis by (simp add: run_kept_def)
qed

lemma run_write_kept:
  assumes w: "run_write e j s s'" and ok: "runs_ok s" and "j \<noteq> i"
    and r: "get_run i s = Some r" and m: "get_msg (hn_message r) s = Some m"
  shows "run_kept i r m s'"
proof -
  obtain r0 r1 z where f: "hn_id r1 = j" "get_run j s = Some r0" "s' = put_run r1 z" "st_runs z = st_runs s"
    "\<forall>k. k \<noteq> hn_message r0 \<longrightarrow> get_msg k z = get_msg k s"
    using w unfolding run_write_def by metis
  note mem = get_run_mem [OF r] get_run_mem [OF f(2)]
  have "distinct (map hn_message (st_runs s))" using ok by (simp add: runs_ok_def)
  then have "hn_message r \<noteq> hn_message r0" using distinct_mapD mem assms(3) by metis
  then have "get_msg (hn_message r) s' = Some m" using f(3,5) m by simp
  moreover have "get_run i s' = Some r" using f(1,3,4) r assms(3) get_run_cong [OF f(4)] by (simp add: runs.find_put)
  ultimately show ?thesis by (simp add: run_kept_def)
qed

text \<open>
  The state every client of the repository relies on, and what a finished run is to it: the
  steps, at increasing times, form a system in which the invariant holds and what is
  finished stays.
\<close>

locale run_system =
  fixes step :: "int \<Rightarrow> 's \<Rightarrow> 's \<Rightarrow> bool"
    and good :: "'s \<Rightarrow> bool"
    and finished :: "'k \<Rightarrow> 's \<Rightarrow> bool"
  assumes good_step: "step now s s' \<Longrightarrow> good s \<Longrightarrow> good s'"
    and finished_step: "step now s s' \<Longrightarrow> good s \<Longrightarrow> finished k s \<Longrightarrow> finished k s'"
begin

lemma good_run: "timed_run step c d \<Longrightarrow> good (snd c) \<Longrightarrow> good (snd d)"
  by (induction rule: timed_run.induct) (auto intro: good_step)

lemma finished_run: "timed_run step c d \<Longrightarrow> good (snd c) \<Longrightarrow> finished k (snd c) \<Longrightarrow> finished k (snd d)"
proof (induction rule: timed_run.induct)
  case (step c now s s')
  have "good s" using good_run [OF step.hyps(1)] step.prems(1) by simp
  then show ?case using step finished_step by fastforce
qed simp_all

end

definition run_step :: "env \<Rightarrow> config \<Rightarrow> int \<Rightarrow> store \<Rightarrow> store \<Rightarrow> bool" where
  "run_step e cf now s s' \<longleftrightarrow> toolkit_laws e \<and> repo_step e cf now s s'"

interpretation repo: run_system "run_step e cf" "repo_ok e" "\<lambda>(i, r, m) s. finished_as i r m s" for e cf
  by unfold_locales (auto simp: run_step_def intro: repo_step_ok repo_step_finished)

lemma timed_run_step:
  assumes "timed_run (repo_step e cf) c d" and "toolkit_laws e"
  shows "timed_run (run_step e cf) c d"
  using assms by (induction rule: timed_run.induct) (auto intro: timed_run.intros simp: run_step_def)

end
