(* ===== verification/RunSamples.thy ===== *)
theory RunSamples
  imports RepoSteps
begin

text \<open>A store with one running harness run, its streaming message and a lease on it until 100.\<close>

definition run_cf :: config where
  "run_cf = \<lparr>cf_inline = 10, cf_max = 5000, cf_changed_rows = True\<rparr>"

definition live_content :: content where
  "live_content = Content (Some (JObj [(''blocks'', JArr [demo_block ''a'' ''hi''])]))
     ''stored''"

definition live_message :: message where
  "live_message = new_message\<lparr>m_id := ''m1'', m_conv := ''c1'', m_revision := 1,
     m_status := MessageStatusStreaming, m_content := live_content\<rparr>"

definition live_request :: harness_run_request where
  "live_request = \<lparr>rr_conv = ''c1'', rr_idempotency = ''k'', rr_effect = ''e'', rr_target = ''t'', rr_text = ''do'',
     rr_tools = [], rr_actor = Some \<lparr>ar_kind = ''harness'', ar_key = ''t''\<rparr>, rr_recipient = no_actor,
     rr_timeout = 60, rr_meta = Some (JObj [])\<rparr>"

definition live_run :: harness_run where
  "live_run =
     \<lparr>hn_id = ''r1'', hn_conv = ''c1'', hn_message = ''m1'', hn_effect = ''e'', hn_request = live_request,
      hn_request_hash = ''h'', hn_submission_key = ''s'', hn_target = ''t'', hn_phase = CallRunning,
      hn_exec_ref = [], hn_replay_hash = [], hn_checkpoint = 0, hn_error = [], hn_deadline = 90,
      hn_next_attempt = 0, hn_cancel = False, hn_created = 0, hn_updated = 0\<rparr>"

definition live_token :: token where
  "live_token = \<lparr>tk_resource = harness_resource ''r1'', tk_locker = ''l'', tk_ttl = 100\<rparr>"

definition live_store :: store where
  "live_store = empty_store\<lparr>
     st_convs := [\<lparr>cv_id = ''c1'', cv_name = ''n'', cv_actor = \<lparr>ar_kind = ActorKindUser, ar_key = ''me''\<rparr>,
                   cv_parent = None, cv_created = 0, cv_updated = 0\<rparr>],
     st_msgs := [live_message], st_runs := [live_run],
     st_locks := [\<lparr>rl_resource = harness_resource ''r1'', rl_locker = ''l'', rl_expires = 100, rl_updated = 0\<rparr>]\<rparr>"

lemma live_store_ok: "runs_ok live_store"
  by (simp add: runs_ok_def live_store_def live_run_def live_message_def run_message_ok_def get_msg_def
      new_message_def)

lemma demo_fold_law: "fold_law demo_env"
proof -
  have "(\<exists>a \<in> set (jblocks v). btype_is t a) \<or> ev_get ''type'' ev = Some (JStr t)"
    if run: "demo_apply v ev = Inr v'" and b: "b \<in> set (jblocks v')" "btype_is t b" for v ev v' b t
  proof (cases "ev_block ev")
    case (Some x)
    let ?bs = "case index_of (bid x) (jblocks v) of Some i \<Rightarrow> (jblocks v)[i := x] | None \<Rightarrow> jblocks v @ [x]"
    have "v' = set_blocks ?bs v" using run Some by (simp add: demo_apply_def Let_def)
    then have "b \<in> set ?bs" using b(1) by (auto simp: jblocks_set_blocks split: if_splits)
    moreover have "set ?bs \<subseteq> insert x (set (jblocks v))"
      by (cases "index_of (bid x) (jblocks v)") (auto simp del: set_update_subset_insert dest: subsetD [OF set_update_subset_insert])
    ultimately have "b = x \<or> b \<in> set (jblocks v)" by blast
    then show ?thesis using b(2) Some by (auto simp: btype_is_def ev_get_def)
  qed (use that in \<open>auto simp: demo_apply_def\<close>)
  then have "\<forall>v ev v' b t. demo_apply v ev = Inr v' \<and> ev_op ev \<in> {OpSet, OpAppend, OpEnd} \<and> b \<in> set (jblocks v') \<and> btype_is t b
        \<longrightarrow> (\<exists>a \<in> set (jblocks v). btype_is t a) \<or> ev_get ''type'' ev = Some (JStr t)"
    by blast
  moreover have "e_apply demo_env = demo_apply" by (simp add: demo_env_def)
  ultimately show ?thesis by (simp add: fold_law_def no_event_def)
qed

lemma demo_toolkit: "toolkit_laws demo_env"
  using demo_laws demo_fold_law demo_end_law by (simp add: toolkit_laws_def)

lemma live_store_plain: "outputs_plain demo_env live_store"
proof -
  have "content_all (plain demo_env) live_content"
    by (simp add: content_all_def live_content_def jblocks_def plain_def btype_is_def demo_block_def)
  moreover have "stored_all (plain demo_env) demo_env live_store i" for i
    by (simp add: stored_all_def stored_part_def group_rows_def live_store_def empty_store_def decode_part_def)
  ultimately show ?thesis
    by (auto simp: outputs_plain_def tidy_def plain_message_def live_store_def live_message_def get_msg_def split: if_splits)
qed

lemma live_repo_ok: "repo_ok demo_env live_store"
  using live_store_ok live_store_plain by (simp add: repo_ok_def)

lemma live_store_keyed: "locks_keyed live_store"
  by (simp add: locks_keyed_def live_store_def)

definition live_event :: event where
  "live_event = no_event\<lparr>ev_op := OpSet, ev_block := Some (demo_block ''b'' ''yo'')\<rparr>"

lemma live_append: "(case append_harness_output demo_env run_cf 5 live_token ''r1'' 1 ''h1'' live_event live_store of
    Inr s \<Rightarrow> True | Inl _ \<Rightarrow> False)"
  by code_simp

lemma live_finish: "(case finish_harness_run demo_env run_cf 5 live_token ''r1'' CallFailed None ''x'' live_store of
    Inr s \<Rightarrow> True | Inl _ \<Rightarrow> False)"
  by code_simp

definition open_store :: store where
  "open_store = live_store\<lparr>st_msgs := [], st_runs := [], st_locks := []\<rparr>"

lemma open_conversation: "\<exists>c c'. create_conversation 0 c empty_store = Inr (c', open_store)"
  by (intro exI [of _ "\<lparr>cv_id = ''c1'', cv_name = ''n'', cv_actor = \<lparr>ar_kind = ActorKindUser, ar_key = ''me''\<rparr>,
                   cv_parent = None, cv_created = 0, cv_updated = 0\<rparr>"])
    (simp add: create_conversation_def insert_conv_def open_store_def live_store_def empty_store_def get_conv_def)

lemma live_create: "(case create_harness_run demo_env run_cf 5 live_request (\<lambda>_. Inr ()) open_store of
    Inr s \<Rightarrow> True | Inl _ \<Rightarrow> False)"
  by code_simp

lemma demo_appended:
  obtains s where "append_harness_output demo_env run_cf 5 live_token ''r1'' 1 ''h1'' live_event live_store = Inr s"
  using live_append by (auto split: sum.splits)

lemma demo_finished:
  obtains evs s where "finish_harness_run demo_env run_cf 5 live_token ''r1'' CallFailed None ''x'' live_store = Inr (evs, s)"
  using live_finish by (auto split: sum.splits)

lemma demo_created:
  obtains run s where "create_harness_run demo_env run_cf 5 live_request (\<lambda>_. Inr ()) open_store = Inr (run, s)"
  using live_create by (auto split: sum.splits)

text \<open>A run created from the empty database.\<close>

lemma created_from_empty:
  obtains run s where "timed_run (repo_step demo_env run_cf) (0, empty_store) (5, s)"
    "create_harness_run demo_env run_cf 5 live_request (\<lambda>_. Inr ()) open_store = Inr (run, s)"
proof -
  obtain run s where run: "create_harness_run demo_env run_cf 5 live_request (\<lambda>_. Inr ()) open_store = Inr (run, s)"
    by (rule demo_created)
  have "timed_run (repo_step demo_env run_cf) (0, empty_store) (0, open_store)"
    using open_conversation by (blast intro: timed_run.intros repo_step.conversation)
  then have "timed_run (repo_step demo_env run_cf) (0, empty_store) (5, open_store)"
    by (rule timed_run.wait) simp
  then have "timed_run (repo_step demo_env run_cf) (0, empty_store) (5, s)"
    using run by (blast intro: timed_run.step repo_step.create)
  with run show thesis by (rule that [rotated])
qed

end
