(* ===== verification/RunProps.thy ===== *)
theory RunProps
  imports RunSamples
begin

text \<open>
  The properties of harness runs and of the leases that guard them: the invariant that ties a
  run to its output message over every interleaving of transactions, the finality of a
  finished run, fencing, replay of an appended event and of a submission.
\<close>

section \<open>Runs and their messages\<close>

text \<open>
  C1: from the empty database, after any transactions of any servers in any order, every run has an
  output message of its own: while the run is open the message streams and its revision is one more
  than the checkpoint; once the run has finished the message has ended in the matching status,
  two revisions later. The transactions are those of runs, leases, messages, conversations, registries and
  questions, each as the code has it; a transaction of questions may name any message, a run's output
  included. The state reached is one that the next property starts from.
\<close>
theorem run_and_message_agree:
  assumes "timed_run (repo_step e cf) (t0, empty_store) (t, s)" and "toolkit_laws e"
  shows "repo_ok e s \<and> distinct (map hn_id (st_runs s)) \<and> distinct (map hn_message (st_runs s))
    \<and> (\<forall>r \<in> set (st_runs s). \<exists>m. get_msg (hn_message r) s = Some m
         \<and> (if phase_terminal (hn_phase r)
            then m_revision m = hn_checkpoint r + 3 \<and> m_status m = finish_status (hn_phase r)
            else m_revision m = hn_checkpoint r + 1 \<and> m_status m = MessageStatusStreaming))"
proof -
  have ok: "repo_ok e s" using repo.good_run [OF timed_run_step [OF assms]] repo_ok_empty by simp
  show ?thesis using repo_okD(1) [OF ok] ok by (simp add: runs_ok_def run_message_ok_def)
qed

theorem run_and_message_agree_witness:
  "\<exists>s. st_runs s \<noteq> [] \<and> (\<forall>r \<in> set (st_runs s). get_msg (hn_message r) s \<noteq> None)"
proof -
  obtain run s where t: "timed_run (repo_step demo_env run_cf) (0, empty_store) (5, s)"
    and c: "create_harness_run demo_env run_cf 5 live_request (\<lambda>_. Inr ()) open_store = Inr (run, s)"
    by (rule created_from_empty)
  have "st_runs s \<noteq> []"
    using create_harness_run_split [OF c] by (auto simp: open_store_def dest!: insert_run_frame(6))
  then show ?thesis using run_and_message_agree [OF t demo_toolkit] by blast
qed

text \<open>
  C2: a finished run is final. Whatever transactions follow, those of questions that name its output
  included, its row stays the same and its message
  keeps its revision, status and content.
\<close>
theorem finished_run_is_final:
  assumes "timed_run (repo_step e cf) (t0, s0) (t, s)" and "toolkit_laws e" and "repo_ok e s0"
    and "get_run i s0 = Some r" and "phase_terminal (hn_phase r)" and "get_msg (hn_message r) s0 = Some m"
  shows "get_run i s = Some r
    \<and> (\<exists>m'. get_msg (hn_message r) s = Some m' \<and> m_revision m' = m_revision m \<and> m_status m' = m_status m
         \<and> m_content m' = m_content m)"
proof -
  have "finished_as i r m s0" using assms(4-6) by (simp add: finished_as_def)
  then have "finished_as i r m s"
    using repo.finished_run [OF timed_run_step [OF assms(1,2)], of "(i, r, m)"] assms(3) by simp
  then show ?thesis by (simp add: finished_as_def row_kept_def)
qed

lemma demo_final:
  obtains evs s where "finish_harness_run demo_env run_cf 5 live_token ''r1'' CallFailed None ''x'' live_store = Inr (evs, s)"
    "repo_ok demo_env s" "\<exists>r m. get_run ''r1'' s = Some r \<and> phase_terminal (hn_phase r) \<and> get_msg (hn_message r) s = Some m"
proof -
  obtain evs s where f: "finish_harness_run demo_env run_cf 5 live_token ''r1'' CallFailed None ''x'' live_store = Inr (evs, s)"
    by (rule demo_finished)
  have rok: "repo_ok demo_env s" by (rule repo_step_ok [OF repo_step.finish [OF f] demo_toolkit live_repo_ok])
  note ok = repo_okD(1) [OF rok]
  have "\<exists>r. get_run ''r1'' s = Some r \<and> phase_terminal (hn_phase r)"
  proof (rule finish_harness_run_effect [OF demo_end_law f])
    fix r0 p d z
    assume h: "get_run ''r1'' live_store = Some r0" "phase_terminal p"
      "s = put_run (r0\<lparr>hn_phase := p, hn_error := d, hn_updated := 5\<rparr>) z" "st_runs z = st_runs live_store"
    have "get_run ''r1'' z = Some r0" using h(1,4) by (simp add: get_run_def)
    then show ?thesis using h(2,3) get_run_mem [OF h(1)] by (simp add: runs.find_put)
  qed
  then show thesis using that [OF f rok] runs_okD [OF ok] get_run_mem by blast
qed

theorem finished_run_is_final_witness:
  "\<exists>r s. get_run ''r1'' s = Some r \<and> phase_terminal (hn_phase r)
     \<and> get_run ''r1'' (acknowledge_dispatch (hn_message r) s) = Some r"
proof -
  obtain evs s r m where s: "repo_ok demo_env s" "get_run ''r1'' s = Some r" "phase_terminal (hn_phase r)"
    "get_msg (hn_message r) s = Some m"
    by (rule demo_final) blast
  have "timed_run (repo_step demo_env run_cf) (0, s) (0, acknowledge_dispatch (hn_message r) s)"
    by (rule timed_run.step, rule timed_run.start, rule repo_step.dispatched)
  from finished_run_is_final [OF this demo_toolkit s] s show ?thesis by blast
qed

section \<open>Leases\<close>






text \<open>
  C4: a lease excludes. While the token of an earlier acquisition is live, at any later time and after
  any acquisitions, renewals, releases and fenced writes by any server, nobody acquires the resource.
\<close>
theorem lease_excludes:
  assumes "acquire e now res ttl s = Inr (t, s1)" and "uuid_ok e" and "locks_keyed s"
    and "timed_run (lease_step e) (now, s1) (now', s')" and "lease_live t now' s'"
  shows "\<nexists>u s2. acquire e now' res ttl' s' = Inr (u, s2)"
proof -
  have t: "tk_resource t = res" "tk_locker t = e_uuid e (st_uuid s)"
    using assms(1) by (auto simp: acquire_def Let_def fresh_id_def split: prod.splits if_splits)
  have "issued_token e t s1"
    unfolding issued_token_def using assms(1-3) t acquire_keyed acquire_uuid by fastforce
  then have "issued_token e t s'" using lease.issued_run [OF assms(4)] by simp
  then show ?thesis using acquire_excluded [OF assms(2,5) t(1)] by (auto simp: issued_token_def)
qed

lemma demo_acquired:
  "acquire demo_env 0 ''x'' 3000000 empty_store
     = Inr (\<lparr>tk_resource = ''x'', tk_locker = ''u'', tk_ttl = 3000000\<rparr>,
            lock_insert 0 \<lparr>tk_resource = ''x'', tk_locker = ''u'', tk_ttl = 3000000\<rparr> (draw empty_store))"
  by (simp add: acquire_def Let_def fresh_id_def empty_store_def draw_def lock_takeover_def lock_insert_def
      lock_holds_def get_lock_def)

theorem lease_excludes_witness:
  "\<nexists>u s2. acquire demo_env 7 ''x'' 4000000
     (lock_insert 0 \<lparr>tk_resource = ''x'', tk_locker = ''u'', tk_ttl = 3000000\<rparr> (draw empty_store)) = Inr (u, s2)"
proof (rule lease_excludes [OF demo_acquired demo_uuid_ok])
  show "locks_keyed empty_store" by (simp add: locks_keyed_def empty_store_def)
  show "timed_run (lease_step demo_env)
     (0, lock_insert 0 \<lparr>tk_resource = ''x'', tk_locker = ''u'', tk_ttl = 3000000\<rparr> (draw empty_store))
     (7, lock_insert 0 \<lparr>tk_resource = ''x'', tk_locker = ''u'', tk_ttl = 3000000\<rparr> (draw empty_store))"
    by (rule timed_run.wait [OF timed_run.start]) simp
  show "lease_live \<lparr>tk_resource = ''x'', tk_locker = ''u'', tk_ttl = 3000000\<rparr> 7
     (lock_insert 0 \<lparr>tk_resource = ''x'', tk_locker = ''u'', tk_ttl = 3000000\<rparr> (draw empty_store))"
    by (simp add: lease_live_def lock_insert_def get_lock_def empty_store_def draw_def)
qed

lemma fence_error: "fence cf now t s = Inl er \<Longrightarrow> er = ErrLost"
  by (auto simp: fence_def split: prod.splits if_splits)

text \<open>
  A lost lease stays lost. Once a token is not live, because it expired or was released or taken
  over, no later step makes it live again, so its holder can never write under it again.
\<close>
theorem lost_lease_stays_lost:
  assumes "issued_token e t s" and "\<not> lease_live t now s"
    and "timed_run (lease_step e) (now, s) (now', s')"
  shows "\<not> lease_live t now' s' \<and> (\<forall>cf. fence cf now' t s' = Inl ErrLost)"
proof -
  have dead: "\<not> lease_live t now' s'" using lease.lost_forever [OF assms(3)] assms(1,2) by simp
  have "issued_token e t s'" using lease.issued_run [OF assms(3)] assms(1) by simp
  then have "locks_keyed s'" by (simp add: issued_token_def)
  then have "\<nexists>x. fence cf now' t s' = Inr x" for cf using dead fence_iff_live by blast
  then have "fence cf now' t s' = Inl ErrLost" for cf
    by (cases "fence cf now' t s'") (auto dest: fence_error)
  with dead show ?thesis by blast
qed

theorem lost_lease_stays_lost_witness:
  "\<forall>cf. fence cf 9 \<lparr>tk_resource = ''x'', tk_locker = ''u'', tk_ttl = 3000000\<rparr> (draw empty_store) = Inl ErrLost"
proof -
  let ?t = "\<lparr>tk_resource = ''x'', tk_locker = ''u'', tk_ttl = 3000000\<rparr>"
  have "issued_token demo_env ?t (draw empty_store)"
    by (auto simp: issued_token_def demo_uuid_ok locks_keyed_def empty_store_def draw_def)
  moreover have "\<not> lease_live ?t 0 (draw empty_store)"
    by (simp add: lease_live_def get_lock_def empty_store_def draw_def)
  moreover have "timed_run (lease_step demo_env) (0, draw empty_store) (9, draw empty_store)"
    by (rule timed_run.wait [OF timed_run.start]) simp
  ultimately show ?thesis using lost_lease_stays_lost by blast
qed

section \<open>Retries\<close>

text \<open>
  C5: an appended event can be sent again. After an accepted append, the same event at the same index
  under a live lease, the same one or a later one, is accepted again and changes no run, no
  message and no stored block.
\<close>
theorem append_can_be_retried:
  assumes "append_harness_output e cf now t i index hash ev s = Inr s1"
    and "locks_keyed s1" and "tk_resource t2 = harness_resource i" and "lease_live t2 now2 s1"
  shows "\<exists>s2. append_harness_output e cf2 now2 t2 i index hash ev2 s1 = Inr s2
    \<and> st_runs s2 = st_runs s1 \<and> st_msgs s2 = st_msgs s1 \<and> st_parts s2 = st_parts s1"
proof -
  obtain s0 r0 where h: "fence cf now t s = Inr s0" "get_run i s = Some r0" "\<not> phase_terminal (hn_phase r0)"
    "\<not> hn_cancel r0"
    and eff: "(index \<le> hn_checkpoint r0 \<and> s1 = s0) \<or>
     (index = hn_checkpoint r0 + 1 \<and> output_event_ok ev \<and>
      (\<exists>m z. get_msg (hn_message r0) s0 = Some m
        \<and> project_event e cf now (m_id m) (ev\<lparr>ev_seq := m_revision m + 1\<rparr>) [] True s0 = Inr z
        \<and> s1 = touch_run now (r0\<lparr>hn_checkpoint := index, hn_replay_hash := hash\<rparr>) z))"
    by (rule append_harness_output_cases [OF assms(1)]) blast
  note F = fence_other_tables [OF h(1)] and mem = get_run_mem [OF h(2)]
  have same: "index = hn_checkpoint r0 \<longrightarrow> hash = hn_replay_hash r0"
    using assms(1) h unfolding append_harness_output_def
    by (auto elim!: harness_transaction_ok split: if_splits)
  have "\<exists>r. get_run i s1 = Some r \<and> \<not> phase_terminal (hn_phase r) \<and> \<not> hn_cancel r \<and> index \<le> hn_checkpoint r
      \<and> (index = hn_checkpoint r \<longrightarrow> hash = hn_replay_hash r)"
    using eff
  proof (elim disjE conjE exE)
    assume "index \<le> hn_checkpoint r0" "s1 = s0"
    then show ?thesis using h F same by auto
  next
    fix m z
    assume m: "get_msg (hn_message r0) s0 = Some m"
      and pr: "project_event e cf now (m_id m) (ev\<lparr>ev_seq := m_revision m + 1\<rparr>) [] True s0 = Inr z"
      and s1: "s1 = touch_run now (r0\<lparr>hn_checkpoint := index, hn_replay_hash := hash\<rparr>) z"
    have "st_runs z = st_runs s0"
      using project_event_cases [OF pr] by (auto simp: output_accepted_def other_tables_def)
    then have "get_run i z = Some r0" using h(2) F(1) by (simp add: get_run_def)
    then show ?thesis using h(3,4) mem by (simp add: s1 touch_run_def runs.find_put)
  qed
  then obtain r where r: "get_run i s1 = Some r" "\<not> phase_terminal (hn_phase r)" "\<not> hn_cancel r"
    "index \<le> hn_checkpoint r" "index = hn_checkpoint r \<longrightarrow> hash = hn_replay_hash r"
    by blast
  obtain s2 where s2: "fence cf2 now2 t2 s1 = Inr s2" using fence_iff_live [OF assms(2)] assms(4) by blast
  have "append_harness_output e cf2 now2 t2 i index hash ev2 s1 = Inr s2"
    using r s2 fence_other_tables [OF s2] assms(3)
    by (simp add: append_harness_output_def harness_transaction_def)
  then show ?thesis using fence_store [OF s2] by blast
qed

theorem append_can_be_retried_witness:
  "\<exists>s1 s2. append_harness_output demo_env run_cf 5 live_token ''r1'' 1 ''h1'' live_event live_store = Inr s1
    \<and> append_harness_output demo_env run_cf 6 live_token ''r1'' 1 ''h1'' live_event s1 = Inr s2 \<and> st_msgs s2 = st_msgs s1"
proof -
  obtain s1 where a: "append_harness_output demo_env run_cf 5 live_token ''r1'' 1 ''h1'' live_event live_store = Inr s1"
    by (rule demo_appended)
  obtain s0 where f: "fence run_cf 5 live_token live_store = Inr s0"
    using a unfolding append_harness_output_def by (rule harness_transaction_ok) blast
  have s0: "st_locks s0 = [\<lparr>rl_resource = harness_resource ''r1'', rl_locker = ''l'', rl_expires = 100, rl_updated = 5\<rparr>]"
    using f by (auto simp: fence_def fence_touch_def live_store_def get_lock_def live_token_def put_lock_def
        tbl_put_def split: if_splits)
  have "st_locks s1 = st_locks s0"
    using a f unfolding append_harness_output_def
    by (auto elim!: harness_transaction_ok simp: bindR_eq_Inr touch_run_def put_run_def output_accepted_def
        other_tables_def split: if_splits dest!: project_event_cases)
  then have "locks_keyed s1" "lease_live live_token 6 s1"
    using s0 by (simp_all add: locks_keyed_def lease_live_def get_lock_def live_token_def)
  then show ?thesis
    using append_can_be_retried [OF a, of live_token 6 run_cf live_event] a by (auto simp: live_token_def)
qed

text \<open>
  C6: the outcome of a run is decided once, in the transaction that finishes it: a requested
  cancellation wins, then the deadline, then what the caller reports. The transaction publishes two
  events, at the next two revisions of the message, the last of them its end, and the message ends
  in the status of the outcome.
\<close>
theorem finish_decides_outcome:
  assumes "end_law e" and "finish_harness_run e cf now t i phase res detail s = Inr (evs, s')"
    and "get_run i s = Some r0"
  shows "\<exists>p d m m' r' ev. p = (if hn_cancel r0 then CallCancelled else if hn_deadline r0 \<le> now then CallTimedOut else phase)
    \<and> phase_terminal p \<and> get_run i s' = Some r' \<and> hn_phase r' = p \<and> hn_error r' = d
    \<and> get_msg (hn_message r0) s = Some m \<and> get_msg (hn_message r0) s' = Some m'
    \<and> m_revision m' = m_revision m + 2 \<and> m_status m' = finish_status p \<and> status_terminal (m_status m')
    \<and> evs = [ev, e_end e (m_revision m + 2)] \<and> ev_seq ev = m_revision m + 1
    \<and> (\<forall>j. j \<noteq> hn_message r0 \<longrightarrow> get_msg j s' = get_msg j s)"
proof -
  obtain ev m where ev: "evs = [ev, e_end e (m_revision m + 2)]" "ev_seq ev = m_revision m + 1"
    "get_msg (hn_message r0) s = Some m"
  proof (rule finish_harness_run_cases [OF assms(2)])
    fix s1 run p r d m ev s2 s3
    assume h: "fence cf now t s = Inr s1" "get_run i s = Some run" "get_msg (hn_message run) s1 = Some m"
      "finish_event e (m_revision m + 1) p r d = Inr ev" "evs = [ev, e_end e (m_revision m + 2)]"
    then show thesis
      using that [of ev m] assms(3) finish_event_op(2) [OF h(4)] fence_other_tables(5) [OF h(1)] by simp
  qed
  show ?thesis
  proof (rule finish_harness_run_effect [OF assms(1,2)])
    fix r1 m1 p d x y z
    assume f: "get_run i s = Some r1" "get_msg (hn_message r1) s = Some m1"
      "finish_outcome now r1 phase res detail = (p, x, d)" "phase_terminal p"
      "get_msg (hn_message r1) s' = Some y" "m_revision y = m_revision m1 + 2" "m_status y = finish_status p"
      "s' = put_run (r1\<lparr>hn_phase := p, hn_error := d, hn_updated := now\<rparr>) z" "st_runs z = st_runs s"
      "\<And>j. j \<noteq> hn_message r1 \<Longrightarrow> get_msg j z = get_msg j s"
    have r: "r1 = r0" and m: "m1 = m" using f(1,2) assms(3) ev(3) by auto
    have "get_run i z = Some r0" using f(9) assms(3) by (simp add: get_run_def)
    then have run: "get_run i s' = Some (r0\<lparr>hn_phase := p, hn_error := d, hn_updated := now\<rparr>)"
      using f(8) r get_run_mem [OF assms(3)] by (simp add: runs.find_put)
    have p: "p = (if hn_cancel r0 then CallCancelled else if hn_deadline r0 \<le> now then CallTimedOut else phase)"
      using f(3) r by (auto simp: finish_outcome_def split: if_splits)
    show ?thesis
      using ev f(4-8,10) run p r m finish_status_terminal [OF f(4)]
      by (intro exI [of _ p] exI [of _ d] exI [of _ m] exI [of _ y]
          exI [of _ "r0\<lparr>hn_phase := p, hn_error := d, hn_updated := now\<rparr>"] exI [of _ ev]) simp
  qed
qed

theorem finish_decides_outcome_witness:
  "\<exists>evs s' r'. finish_harness_run demo_env run_cf 5 live_token ''r1'' CallFailed None ''x'' live_store = Inr (evs, s')
     \<and> get_run ''r1'' s' = Some r' \<and> hn_phase r' = CallFailed"
proof -
  obtain evs s' where f: "finish_harness_run demo_env run_cf 5 live_token ''r1'' CallFailed None ''x'' live_store = Inr (evs, s')"
    by (rule demo_finished)
  have "get_run ''r1'' live_store = Some live_run" by (simp add: live_store_def get_run_def live_run_def)
  then show ?thesis
    using finish_decides_outcome [OF demo_end_law f] f by (auto simp: live_run_def)
qed

section \<open>Submissions\<close>

text \<open>Two requests that ask for the same: every field is equal, a tool's schema and the metadata as JSON values.\<close>

definition same_tool :: "tool \<Rightarrow> tool \<Rightarrow> bool" where
  "same_tool t u \<longleftrightarrow> tl_name t = tl_name u \<and> tl_description t = tl_description u
     \<and> c_val (tl_schema t) = c_val (tl_schema u)"

definition same_request :: "harness_run_request \<Rightarrow> harness_run_request \<Rightarrow> bool" where
  "same_request r q \<longleftrightarrow> rr_conv r = rr_conv q \<and> rr_idempotency r = rr_idempotency q \<and> rr_effect r = rr_effect q
     \<and> rr_target r = rr_target q \<and> rr_text r = rr_text q \<and> list_all2 same_tool (rr_tools r) (rr_tools q)
     \<and> rr_actor r = rr_actor q \<and> rr_recipient r = rr_recipient q \<and> rr_timeout r = rr_timeout q
     \<and> meta_value (rr_meta r) = meta_value (rr_meta q)"

lemma tool_json_eq: "tool_json t = tool_json u \<longleftrightarrow> same_tool t u"
  by (auto simp: tool_json_def same_tool_def split: if_splits option.splits)

lemma tools_json_eq: "map tool_json ts = map tool_json us \<longleftrightarrow> list_all2 same_tool ts us"
  by (induction ts arbitrary: us) (auto simp: tool_json_eq list_all2_Cons1 map_eq_Cons_conv Cons_eq_map_conv)

lemma ref_json_eq: "ref_json a = ref_json b \<longleftrightarrow> a = b"
  by (cases a; cases b) (simp add: ref_json_def)

lemma int_str_eq: "int_str m = int_str n \<longleftrightarrow> m = n"
proof -
  have "CHR ''-'' \<notin> set (nat_str k)" for k
    by (rule nat_str_no_sep) (simp add: of_char_minus_plus)
  then have "CHR ''-'' # x \<noteq> nat_str k" "nat_str k \<noteq> CHR ''-'' # x" for x k
    by (metis list.set_intros(1))+
  then show ?thesis by (auto simp: int_str_def dest: nat_str_inj split: if_splits)
qed

lemma run_request_json_eq: "run_request_json r = run_request_json q \<longleftrightarrow> same_request r q"
proof
  assume eq: "run_request_json r = run_request_json q"
  then have get: "jget k (run_request_json r) = jget k (run_request_json q)" for k by simp
  have "rr_conv r = rr_conv q" "rr_idempotency r = rr_idempotency q" "rr_effect r = rr_effect q"
    "rr_target r = rr_target q" "rr_text r = rr_text q"
    using eq by (simp_all add: run_request_json_def)
  moreover have "map tool_json (rr_tools r) = map tool_json (rr_tools q)"
    using get [of "''tools''"] by (simp add: run_request_json_def split: if_splits option.splits)
  moreover have "rr_actor r = rr_actor q"
    using get [of "''actor''"] by (simp add: run_request_json_def ref_json_eq split: if_splits option.splits)
  moreover have "rr_recipient r = rr_recipient q"
    using get [of "''recipient''"] by (simp add: run_request_json_def ref_json_eq split: if_splits option.splits)
  moreover have "rr_timeout r = rr_timeout q"
    using get [of "''timeout''"] by (simp add: run_request_json_def int_str_eq split: if_splits option.splits)
  moreover have "meta_value (rr_meta r) = meta_value (rr_meta q)"
    using get [of "''meta''"] by (simp add: run_request_json_def split: if_splits option.splits)
  ultimately show "same_request r q" by (simp add: same_request_def tools_json_eq)
next
  assume same: "same_request r q"
  then have "map tool_json (rr_tools r) = map tool_json (rr_tools q)" by (simp add: same_request_def tools_json_eq)
  moreover from this have "rr_tools r = [] \<longleftrightarrow> rr_tools q = []" by (metis map_is_Nil_conv)
  ultimately show "run_request_json r = run_request_json q"
    using same by (simp add: same_request_def run_request_json_def)
qed

text \<open>
  C7: a run is submitted once. After a submission succeeded, the same request returns the same run and
  changes nothing, whatever the scheduler would say: the first one asked it for a slot, the replay does not.
  Of the requests of the same actor in the same conversation under the same idempotency key, one that asks for
  the same in every field is such a replay, and one that differs in any field is a conflict that
  changes nothing. The texts of the two requests must be encodings of valid JSON values, and not two texts with the
  same digest.
\<close>
theorem submission_is_idempotent:
  assumes "create_harness_run e cf now r admit s = Inr (run, s1)" and "rr_actor r = Some a"
    and "\<forall>x \<in> set (st_runs s). \<forall>y \<in> set (st_runs s). hn_submission_key x = hn_submission_key y \<longrightarrow> x = y"
  shows "create_harness_run e cf2 now2 r admit2 s1 = Inr (run, s1)
    \<and> (\<forall>q. rr_conv q = rr_conv r \<longrightarrow> rr_actor q = Some a \<longrightarrow> rr_idempotency q = rr_idempotency r
         \<longrightarrow> json_ok (run_request_json r) \<longrightarrow> json_ok (run_request_json q)
         \<longrightarrow> (e_sha e (json_print (run_request_json q)) = e_sha e (json_print (run_request_json r))
               \<longrightarrow> json_print (run_request_json q) = json_print (run_request_json r))
         \<longrightarrow> create_harness_run e cf2 now2 q admit2 s1
               = (if same_request r q then Inr (run, s1) else Inl ErrConflict))"
proof -
  obtain conv where conv: "get_conv (rr_conv r) s = Some conv"
    and split: "((run \<in> set (st_runs s) \<and> hn_submission_key run = submission_key e r a
           \<and> hn_request_hash run = run_fingerprint e r \<and> s1 = s)
       \<or> ((\<forall>x \<in> set (st_runs s). hn_submission_key x \<noteq> submission_key e r a)
           \<and> (\<exists>sa m sb. ensure_participant_conversation e now conv (rr_recipient r) s = Inr sa
               \<and> run = (new_run e now r a (fresh_id e sa) (fresh_id e (draw sa)))
                         \<lparr>hn_created := now, hn_updated := now\<rparr>
               \<and> admit (hn_id run) = Inr ()
               \<and> save_message e cf now (run_message r a (hn_message run)) True (draw (draw sa)) = Inr (m, sb)
               \<and> insert_run now (new_run e now r a (fresh_id e sa) (fresh_id e (draw sa))) sb = Inr s1)))"
    using create_harness_run_split [OF assms(1)] assms(2) by auto
  have "find (\<lambda>x. hn_submission_key x = submission_key e r a) (st_runs s1) = Some run
      \<and> hn_request_hash run = run_fingerprint e r \<and> get_conv (rr_conv r) s1 \<noteq> None"
    using split
  proof (elim disjE conjE exE)
    assume old: "run \<in> set (st_runs s)" "hn_submission_key run = submission_key e r a"
      "hn_request_hash run = run_fingerprint e r" "s1 = s"
    obtain y where y: "find (\<lambda>x. hn_submission_key x = submission_key e r a) (st_runs s) = Some y"
      using old(1,2) by (cases "find (\<lambda>x. hn_submission_key x = submission_key e r a) (st_runs s)")
        (auto simp: find_None_iff)
    then have "y \<in> set (st_runs s)" "hn_submission_key y = submission_key e r a"
      by (auto simp: find_Some_iff)
    then have "y = run" using assms(3) old(1,2) by auto
    then show ?thesis using y old conv by simp
  next
    fix sa m sb
    assume none: "\<forall>x \<in> set (st_runs s). hn_submission_key x \<noteq> submission_key e r a"
      and E: "ensure_participant_conversation e now conv (rr_recipient r) s = Inr sa"
      and run: "run = (new_run e now r a (fresh_id e sa) (fresh_id e (draw sa)))\<lparr>hn_created := now, hn_updated := now\<rparr>"
      and M: "save_message e cf now (run_message r a (hn_message run)) True (draw (draw sa)) = Inr (m, sb)"
      and I: "insert_run now (new_run e now r a (fresh_id e sa) (fresh_id e (draw sa))) sb = Inr s1"
    have runs: "st_runs s1 = st_runs s @ [run]"
      using insert_run_frame(6) [OF I] save_message_frame(3) [OF M] ensure_participant_frame(3) [OF E] run
      by (simp add: draw_def)
    have key: "hn_submission_key run = submission_key e r a" "hn_request_hash run = run_fingerprint e r"
      using run by (simp_all add: new_run_def)
    obtain cs where "st_convs s1 = st_convs s @ cs"
      using insert_run_frame(3) [OF I] save_message_frame(4) [OF M] ensure_participant_frame(6) [OF E]
      by (auto simp: draw_def)
    then have "get_conv (rr_conv r) s1 \<noteq> None" using conv by (simp add: get_conv_def tbl_find_append)
    moreover have "find P (xs @ [run]) = Some run" if "\<forall>x \<in> set xs. \<not> P x" "P run" for P xs
      using that by (induction xs) auto
    ultimately show ?thesis using runs key none by simp
  qed
  then have found: "find (\<lambda>x. hn_submission_key x = submission_key e r a) (st_runs s1) = Some run"
    "hn_request_hash run = run_fingerprint e r" "get_conv (rr_conv r) s1 \<noteq> None" by blast+
  have again: "create_harness_run e cf2 now2 q admit2 s1
      = (if run_fingerprint e r = run_fingerprint e q then Inr (run, s1) else Inl ErrConflict)"
    if "rr_conv q = rr_conv r" "rr_actor q = Some a" "rr_idempotency q = rr_idempotency r" for q
  proof -
    have "submission_key e q a = submission_key e r a" using that by (simp add: submission_key_def)
    then show ?thesis using found that by (auto simp: create_harness_run_def map_error_def)
  qed
  have "run_fingerprint e r = run_fingerprint e q \<longleftrightarrow> same_request r q"
    if "json_ok (run_request_json r)" "json_ok (run_request_json q)"
      "e_sha e (json_print (run_request_json q)) = e_sha e (json_print (run_request_json r))
        \<longrightarrow> json_print (run_request_json q) = json_print (run_request_json r)" for q
    unfolding run_fingerprint_def run_request_json_eq [symmetric] using that json_print_determines by metis
  then show ?thesis using again [of r] again assms(2) by simp
qed

theorem submission_is_idempotent_witness:
  "\<exists>run s. create_harness_run demo_env run_cf 5 live_request (\<lambda>_. Inr ()) open_store = Inr (run, s)
     \<and> create_harness_run demo_env run_cf 9 live_request (\<lambda>_. Inl ErrHarnessCapacity) s = Inr (run, s)
     \<and> create_harness_run demo_env run_cf 9 (live_request\<lparr>rr_text := ''other''\<rparr>) (\<lambda>_. Inr ()) s = Inl ErrConflict"
proof -
  obtain run s where c: "create_harness_run demo_env run_cf 5 live_request (\<lambda>_. Inr ()) open_store = Inr (run, s)"
    by (rule demo_created)
  let ?q = "live_request\<lparr>rr_text := ''other''\<rparr>"
  have a: "rr_actor live_request = Some \<lparr>ar_kind = ''harness'', ar_key = ''t''\<rparr>" by (simp add: live_request_def)
  have u: "\<forall>x \<in> set (st_runs open_store). \<forall>y \<in> set (st_runs open_store). hn_submission_key x = hn_submission_key y \<longrightarrow> x = y"
    by (simp add: open_store_def)
  have ok: "json_ok (run_request_json live_request)" "json_ok (run_request_json ?q)" by code_simp+
  have q: "rr_conv ?q = rr_conv live_request" "rr_actor ?q = Some \<lparr>ar_kind = ''harness'', ar_key = ''t''\<rparr>"
    "rr_idempotency ?q = rr_idempotency live_request" "\<not> same_request live_request ?q"
    by (simp_all add: live_request_def same_request_def)
  note T = submission_is_idempotent [OF c a u]
  have "create_harness_run demo_env run_cf 9 ?q (\<lambda>_. Inr ()) s = Inl ErrConflict"
    using T [of run_cf 9 "\<lambda>_. Inr ()"] q ok by simp
  then show ?thesis using T [of run_cf 9 "\<lambda>_. Inl ErrHarnessCapacity"] c by blast
qed

end
