(* ===== verification/K8sSync.thy ===== *)
theory K8sSync
  imports K8sConv
begin

text \<open>
  The client against a concurrent cluster. \<open>hist w n\<close> is the sequence of states the API server
  has stored under a name; \<open>kube_laws\<close> states the documented optimistic concurrency: a write
  succeeds only on the state whose resource version it carries, and then appends one state.
  Every successful signal, poll and commit is then one step of \<open>conv_step\<close> on the state it
  read, whatever other clients do and however often the attempt was retried.
\<close>

definition grows :: "('w \<Rightarrow> string \<Rightarrow> kconv list) \<Rightarrow> 'w \<Rightarrow> 'w \<Rightarrow> bool" where
  "grows hist w w' \<longleftrightarrow> (\<forall>n. prefix (hist w n) (hist w' n))"

definition appended :: "('w \<Rightarrow> string \<Rightarrow> kconv list) \<Rightarrow> 'w \<Rightarrow> string \<Rightarrow> kconv \<Rightarrow> kconv \<Rightarrow> bool" where
  "appended hist w n old new \<longleftrightarrow> (\<exists>h v. hist w n = h @ [old, new\<lparr>kc_version := v\<rparr>])"

definition kube_laws :: "'w kube \<Rightarrow> ('w \<Rightarrow> string \<Rightarrow> kconv list) \<Rightarrow> bool" where
  "kube_laws K hist \<longleftrightarrow>
     (\<forall>w n. distinct (map kc_version (hist w n)))
   \<and> (\<forall>n w r w'. kb_get K n w = (r, w') \<longrightarrow> grows hist w w'
        \<and> (\<forall>c. r = Inr c \<longrightarrow> c \<in> set (hist w' n) \<and> kc_name c = n))
   \<and> (\<forall>c w r w'. kb_create K c w = (r, w') \<longrightarrow> grows hist w w'
        \<and> (r = Inr () \<longrightarrow> (\<exists>v. hist w' (kc_name c) = [c\<lparr>kc_consumers := [], kc_version := v\<rparr>])))
   \<and> (\<forall>c w r w'. kb_update K c w = (r, w') \<longrightarrow> grows hist w w'
        \<and> (r = Inr () \<longrightarrow> (\<exists>old. kc_version old = kc_version c
              \<and> appended hist w' (kc_name c) old (c\<lparr>kc_consumers := kc_consumers old\<rparr>))))
   \<and> (\<forall>c w r w'. kb_status K c w = (r, w') \<longrightarrow> grows hist w w'
        \<and> (r = Inr () \<longrightarrow> (\<exists>old. kc_version old = kc_version c
              \<and> appended hist w' (kc_name c) old (old\<lparr>kc_consumers := kc_consumers c\<rparr>))))"

lemma grows_refl [simp]: "grows hist w w"
  by (simp add: grows_def)

lemma grows_trans: "grows hist a b \<Longrightarrow> grows hist b c \<Longrightarrow> grows hist a c"
  unfolding grows_def using prefix_order.trans by blast

lemma grows_mem: "grows hist w w' \<Longrightarrow> c \<in> set (hist w n) \<Longrightarrow> c \<in> set (hist w' n)"
  unfolding grows_def using set_mono_prefix by blast

lemma kube_get:
  assumes "kube_laws K hist" and "kb_get K n w = (r, w')"
  shows "grows hist w w'" "r = Inr c \<Longrightarrow> c \<in> set (hist w' n) \<and> kc_name c = n"
  using assms unfolding kube_laws_def by blast+

lemma kube_create:
  assumes "kube_laws K hist" and "kb_create K c w = (r, w')"
  shows "grows hist w w'" "r = Inr () \<Longrightarrow> \<exists>v. hist w' (kc_name c) = [c\<lparr>kc_consumers := [], kc_version := v\<rparr>]"
  using assms unfolding kube_laws_def by blast+

lemma kube_update:
  assumes "kube_laws K hist" and "kb_update K c w = (r, w')"
  shows "grows hist w w'" "r = Inr () \<Longrightarrow> \<exists>old. kc_version old = kc_version c
      \<and> appended hist w' (kc_name c) old (c\<lparr>kc_consumers := kc_consumers old\<rparr>)"
  using assms unfolding kube_laws_def by blast+

lemma kube_status:
  assumes "kube_laws K hist" and "kb_status K c w = (r, w')"
  shows "grows hist w w'" "r = Inr () \<Longrightarrow> \<exists>old. kc_version old = kc_version c
      \<and> appended hist w' (kc_name c) old (old\<lparr>kc_consumers := kc_consumers c\<rparr>)"
  using assms unfolding kube_laws_def by blast+

lemma kube_versions: "kube_laws K hist \<Longrightarrow> distinct (map kc_version (hist w n))"
  unfolding kube_laws_def by blast

text \<open>A state read earlier is the one a successful write replaced, by its version.\<close>

lemma replaced_is_read:
  assumes laws: "kube_laws K hist" and read: "c \<in> set (hist w n)" "grows hist w w'"
    and app: "appended hist w' n old new" and v: "kc_version old = kc_version c"
  shows "old = c"
proof -
  have "c \<in> set (hist w' n)" by (rule grows_mem [OF read(2,1)])
  moreover have "old \<in> set (hist w' n)" using app by (auto simp: appended_def)
  moreover have "inj_on kc_version (set (hist w' n))"
    using kube_versions [OF laws] by (simp add: distinct_map)
  ultimately show ?thesis using v by (meson inj_onD)
qed

section \<open>One attempt\<close>

lemma poll_attempt_Inr:
  assumes "poll_attempt K conv a after rd w = (Inr r, w')"
  obtains c w1 where "kb_get K conv w = (Inr c, w1)" "find_participant a c \<noteq> None"
    "po_committed r = committed a c" "po_end_offset r = end_offset a c"
    "rd (poll_start a after c) = Inr (po_messages r)"
    "po_messages r = [] \<and> po_position r = poll_start a after c \<and> w' = w1
     \<or> po_messages r \<noteq> [] \<and> batch_end conv a (poll_start a after c) (po_messages r) = Some (po_position r)
       \<and> kb_status K (record_receipt a (po_position r) c) w1 = (Inr (), w')"
proof -
  obtain g w1 where g: "kb_get K conv w = (g, w1)" by (cases "kb_get K conv w")
  with assms obtain c where c: "g = Inr c" by (cases g) (simp_all add: poll_attempt_def)
  have part: "find_participant a c \<noteq> None"
    using assms by (auto simp: poll_attempt_def g c split: if_splits)
  obtain ms where ms: "rd (poll_start a after c) = Inr ms"
    using assms part by (cases "rd (poll_start a after c)") (simp_all add: poll_attempt_def g c)
  show thesis
  proof (cases "ms = []")
    case True
    then show thesis using assms part ms by (intro that [OF _ part]) (auto simp: poll_attempt_def g c)
  next
    case False
    then obtain nx where nx: "batch_end conv a (poll_start a after c) ms = Some nx"
      using assms part ms by (cases "batch_end conv a (poll_start a after c) ms")
        (simp_all add: poll_attempt_def g c)
    obtain u w2 where u: "kb_status K (record_receipt a nx c) w1 = (u, w2)"
      by (cases "kb_status K (record_receipt a nx c) w1")
    obtain x where "u = Inr x" using assms part ms False nx u by (cases u) (simp_all add: poll_attempt_def g c)
    then show thesis using assms part ms False nx u
      by (intro that [OF _ part]) (auto simp: poll_attempt_def g c)
  qed
qed

lemma retry_on_Inr:
  assumes "retry_on n again f w = (Inr x, w')"
  obtains w0 where "f w0 = (Inr x, w')"
  using assms
proof (induction n again f w rule: retry_on.induct)
  case (2 n again f w)
  show ?case
  proof (cases "f w")
    case (Pair r w1)
    then show ?thesis
      using 2 by (cases r) (auto split: if_splits)
  qed
qed simp

text \<open>How many calls a retried operation makes: at most the backoff's steps, and at least one.\<close>

lemma retry_on_first: "f w = (Inr x, w') \<Longrightarrow> retry_on (Suc n) again f w = (Inr x, w')"
  by simp

lemma retry_on_fatal: "f w = (Inl er, w') \<Longrightarrow> \<not> again er \<Longrightarrow> retry_on (Suc n) again f w = (Inl er, w')"
  by simp

section \<open>Every success is one step\<close>

lemma poll_synced:
  assumes laws: "kube_laws K hist" and run: "poll K steps conv a after rd w = (Inr r, w')"
  shows "\<exists>c \<in> set (hist w' conv). find_participant a c \<noteq> None \<and> po_committed r = committed a c
     \<and> po_end_offset r = end_offset a c \<and> rd (poll_start a after c) = Inr (po_messages r)
     \<and> (if po_messages r = [] then po_position r = poll_start a after c
        else batch_end conv a (poll_start a after c) (po_messages r) = Some (po_position r)
          \<and> appended hist w' conv c (record_receipt a (po_position r) c))"
proof -
  have "retry_on steps (\<lambda>er. er = KubeConflict) (poll_attempt K conv a after rd) w = (Inr r, w')"
    using run by (auto simp: poll_def split: if_splits)
  then obtain w0 where "poll_attempt K conv a after rd w0 = (Inr r, w')" by (rule retry_on_Inr)
  then obtain c w1 where p: "kb_get K conv w0 = (Inr c, w1)" "find_participant a c \<noteq> None"
    "po_committed r = committed a c" "po_end_offset r = end_offset a c"
    "rd (poll_start a after c) = Inr (po_messages r)"
    "po_messages r = [] \<and> po_position r = poll_start a after c \<and> w' = w1
     \<or> po_messages r \<noteq> [] \<and> batch_end conv a (poll_start a after c) (po_messages r) = Some (po_position r)
       \<and> kb_status K (record_receipt a (po_position r) c) w1 = (Inr (), w')"
    by (rule poll_attempt_Inr)
  have c: "c \<in> set (hist w1 conv)" "kc_name c = conv" using kube_get(2) [OF laws p(1)] by blast+
  show ?thesis
  proof (cases "po_messages r = []")
    case True
    then show ?thesis using p c by (intro bexI [of _ c]) auto
  next
    case False
    then have st: "kb_status K (record_receipt a (po_position r) c) w1 = (Inr (), w')"
      and be: "batch_end conv a (poll_start a after c) (po_messages r) = Some (po_position r)"
      using p(6) by blast+
    obtain old where old: "kc_version old = kc_version c"
        "appended hist w' conv old (old\<lparr>kc_consumers := kc_consumers (record_receipt a (po_position r) c)\<rparr>)"
      using kube_status(2) [OF laws st] c(2) by (auto simp: record_receipt_def)
    have "old = c" by (rule replaced_is_read [OF laws c(1) kube_status(1) [OF laws st] old(2,1)])
    then have app: "appended hist w' conv c (record_receipt a (po_position r) c)"
      using old(2) by (simp add: record_receipt_def)
    moreover have "c \<in> set (hist w' conv)" using app by (auto simp: appended_def)
    ultimately show ?thesis using p be False by (intro bexI [of _ c]) simp_all
  qed
qed

lemma commit_synced:
  assumes laws: "kube_laws K hist" and run: "commit K steps conv r w = (Inr (), w')"
  shows "\<exists>c \<in> set (hist w' conv).
      commit_object (cr_actor r) (cr_through r) c = Inr None
      \<or> (\<exists>c'. commit_object (cr_actor r) (cr_through r) c = Inr (Some c') \<and> appended hist w' conv c c')"
proof -
  have "retry_on steps (\<lambda>er. er = KubeConflict) (commit_attempt K conv r) w = (Inr (), w')"
    using run by (auto simp: commit_def split: if_splits)
  then obtain w0 where at: "commit_attempt K conv r w0 = (Inr (), w')" by (rule retry_on_Inr)
  obtain g w1 where g: "kb_get K conv w0 = (g, w1)" by (cases "kb_get K conv w0")
  with at obtain c where gc: "g = Inr c" by (cases g) (simp_all add: commit_attempt_def)
  have c: "c \<in> set (hist w1 conv)" "kc_name c = conv" using kube_get(2) [OF laws g] gc by blast+
  obtain x where x: "commit_consumers (cr_actor r) (cr_through r) (kc_consumers c) = Inr x"
    using at by (cases "commit_consumers (cr_actor r) (cr_through r) (kc_consumers c)")
      (simp_all add: commit_attempt_def g gc)
  show ?thesis
  proof (cases x)
    case None
    then show ?thesis using at x c by (intro bexI [of _ c]) (simp_all add: commit_attempt_def g gc commit_object_def)
  next
    case (Some ns)
    then have st: "kb_status K (c\<lparr>kc_consumers := ns\<rparr>) w1 = (Inr (), w')"
      using at x by (simp add: commit_attempt_def g gc)
    obtain old where old: "kc_version old = kc_version c"
        "appended hist w' conv old (old\<lparr>kc_consumers := ns\<rparr>)"
      using kube_status(2) [OF laws st] c(2) by auto
    have "old = c" by (rule replaced_is_read [OF laws c(1) kube_status(1) [OF laws st] old(2,1)])
    then have app: "appended hist w' conv c (c\<lparr>kc_consumers := ns\<rparr>)" using old(2) by simp
    moreover have "c \<in> set (hist w' conv)" using app by (auto simp: appended_def)
    moreover have "commit_object (cr_actor r) (cr_through r) c = Inr (Some (c\<lparr>kc_consumers := ns\<rparr>))"
      using x Some by (simp add: commit_object_def)
    ultimately show ?thesis by (intro bexI [of _ c]) simp_all
  qed
qed

lemma signal_synced:
  assumes laws: "kube_laws K hist" and run: "signal e K steps conv i t revn d w = (Inr (), w')"
  shows "(\<exists>v. hist w' conv = [(fst (signal_object e i revn t d (new_kconv conv)))\<lparr>kc_version := v\<rparr>])
     \<or> (\<exists>c \<in> set (hist w' conv).
          \<not> snd (signal_object e i revn t d c) \<or> appended hist w' conv c (fst (signal_object e i revn t d c)))"
proof -
  have "retry_on steps (\<lambda>er. er = KubeConflict \<or> er = KubeExists) (signal_attempt e K conv i revn t d) w = (Inr (), w')"
    using run by (auto simp: signal_def split: if_splits)
  then obtain w0 where at: "signal_attempt e K conv i revn t d w0 = (Inr (), w')" by (rule retry_on_Inr)
  obtain g w1 where g: "kb_get K conv w0 = (g, w1)" by (cases "kb_get K conv w0")
  show ?thesis
  proof (cases g)
    case (Inl er)
    then have "kb_create K (fst (signal_object e i revn t d (new_kconv conv))) w1 = (Inr (), w')"
      using at by (auto simp: signal_attempt_def g split: if_splits)
    from kube_create(2) [OF laws this] obtain v where
      "hist w' conv = [(fst (signal_object e i revn t d (new_kconv conv)))\<lparr>kc_consumers := [], kc_version := v\<rparr>]"
      by (auto simp: new_kconv_def)
    moreover have "kc_consumers (fst (signal_object e i revn t d (new_kconv conv))) = []"
      by (simp add: new_kconv_def)
    ultimately have "hist w' conv = [(fst (signal_object e i revn t d (new_kconv conv)))\<lparr>kc_version := v\<rparr>]"
      by (metis kconv.surjective kconv.update_convs(4) kconv.unfold_congs(4) kconv.select_convs(4))
    then show ?thesis by blast
  next
    case (Inr c)
    have c: "c \<in> set (hist w1 conv)" "kc_name c = conv" using kube_get(2) [OF laws g] Inr by blast+
    obtain c1 changed where so: "signal_object e i revn t d c = (c1, changed)" by (cases "signal_object e i revn t d c")
    have c1: "kc_version c1 = kc_version c" "kc_name c1 = conv" "kc_consumers c1 = kc_consumers c"
      using signal_object_consumers [of e i revn t d c] so c(2) by simp_all
    show ?thesis
    proof (cases changed)
      case False
      then have "c \<in> set (hist w' conv)" "\<not> snd (signal_object e i revn t d c)"
        using at c so Inr by (simp_all add: signal_attempt_def g)
      then show ?thesis by blast
    next
      case True
      then have up: "kb_update K c1 w1 = (Inr (), w')" using at so Inr by (simp add: signal_attempt_def g)
      obtain old where old: "kc_version old = kc_version c1"
          "appended hist w' conv old (c1\<lparr>kc_consumers := kc_consumers old\<rparr>)"
        using kube_update(2) [OF laws up] c1(2) by auto
      have "old = c"
        by (rule replaced_is_read [OF laws c(1) kube_update(1) [OF laws up] old(2)]) (use old(1) c1(1) in simp)
      moreover have "c1\<lparr>kc_consumers := kc_consumers c\<rparr> = c1" unfolding c1(3) [symmetric] by simp
      ultimately have app: "appended hist w' conv c c1" using old(2) by simp
      moreover have "c \<in> set (hist w' conv)" using app by (auto simp: appended_def)
      ultimately show ?thesis using so by (metis fst_conv)
    qed
  qed
qed

end
