(* ===== verification/Services.thy ===== *)
theory Services
  imports K8sSync Samples
begin

text \<open>
  The application services (\<^verbatim>\<open>server/internal/service\<close>) over the repository: validation, page
  limits, idempotent publication, the event path from an emitted event through the projection
  to the page bridge, chat input, delivery to conversation participants, human questions and
  the actor registry. The AgentUE event bridge is a parameter, a record \<open>bridge\<close> of its calls
  over an unknown state. Every service operation is a function of the state it runs on;
  logging and the cancellation of a request are left out.
\<close>

section \<open>Limits and views\<close>

definition max_page_size :: nat where
  "max_page_size = 500"

definition page_size :: "int \<Rightarrow> nat" where
  "page_size limit =
     (if limit \<le> 0 then 100 else if limit > int max_page_size then max_page_size else nat limit)"

definition message_from_model :: "message \<Rightarrow> cmessage" where
  "message_from_model m =
     \<lparr>cm_id = m_id m, cm_conv = m_conv m, cm_task = m_task m, cm_source = m_source m, cm_target = m_target m,
      cm_reply_to = m_reply_to m, cm_status = m_status m, cm_revision = m_revision m,
      cm_content = m_content m, cm_created = m_created m, cm_updated = m_updated m\<rparr>"

record contract_conversation =
  cc_id :: string
  cc_name :: string
  cc_actor :: actor_ref
  cc_parent :: string
  cc_created :: int
  cc_updated :: int

definition conversation_from_model :: "conversation \<Rightarrow> contract_conversation" where
  "conversation_from_model c =
     \<lparr>cc_id = cv_id c, cc_name = cv_name c, cc_actor = cv_actor c,
      cc_parent = (case cv_parent c of None \<Rightarrow> [] | Some p \<Rightarrow> p),
      cc_created = cv_created c, cc_updated = cv_updated c\<rparr>"

section \<open>Messages\<close>

definition status_known :: "string \<Rightarrow> bool" where
  "status_known st \<longleftrightarrow> st = MessageStatusStreaming \<or> status_terminal st"

definition query_page :: "string \<Rightarrow> message_query \<Rightarrow> store \<Rightarrow> message_page result" where
  "query_page conv q s =
     (if max_page_size < length (mq_ids q) \<or> mq_order q \<notin> {[], ''asc'', ''desc''} then Inl SvcInvalid
      else if \<not> list_all status_known (mq_statuses q) then Inl SvcInvalid
      else
        let limit = page_size (mq_limit q);
            rows = query_messages conv (q\<lparr>mq_limit := int limit + 1\<rparr>) s;
            page = take limit rows
        in Inr \<lparr>mp_data = map (\<lambda>m. info (message_from_model m)) page,
                mp_next = (if limit < length rows then m_id (last page) else [])\<rparr>)"

definition svc_list_messages :: "env \<Rightarrow> string \<Rightarrow> string \<Rightarrow> int \<Rightarrow> store \<Rightarrow> cmessage list result" where
  "svc_list_messages e conv after limit s =
     bindR (list_messages e conv after (page_size limit) s) (\<lambda>rows. Inr (map message_from_model rows))"

definition svc_message_info :: "string \<Rightarrow> string \<Rightarrow> store \<Rightarrow> message_info result" where
  "svc_message_info conv i s =
     bindR (message_info_row conv i s) (\<lambda>m. Inr (info (message_from_model m)))"

definition svc_message_snapshot :: "env \<Rightarrow> string \<Rightarrow> string \<Rightarrow> store \<Rightarrow> cmessage result" where
  "svc_message_snapshot e conv i s =
     bindR (message_snapshot e conv i s) (\<lambda>m. Inr (message_from_model m))"

definition human_type :: "json option \<Rightarrow> bool" where
  "human_type t \<longleftrightarrow> t \<in> {Some (JStr ''ask''), Some (JStr ''confirm''), Some (JStr ''human_reply'')}"

text \<open>
  \<^verbatim>\<open>validateContent\<close>: a client never writes the reserved metadata or a typed interaction. The
  type assertions on a validated model are panics of the code.
\<close>

definition validate_content :: "env \<Rightarrow> content \<Rightarrow> unit result" where
  "validate_content e c =
     bindR (decode_object c) (\<lambda>snap.
       if \<not> e_valid_model e snap then Inl (ErrText ''content'')
       else case jget ''meta'' snap of
         Some (JObj kvs) \<Rightarrow>
           if jget ''output'' (JObj kvs) \<noteq> None \<or> jget ''human'' (JObj kvs) \<noteq> None then Inl SvcInvalid
           else if \<not> snapshot_shape snap then Inl GoPanic
           else if list_ex (\<lambda>b. human_type (jget ''type'' b)) (jblocks snap) then Inl SvcInvalid
           else Inr ()
       | _ \<Rightarrow> Inl GoPanic)"

definition valid_content :: "env \<Rightarrow> content \<Rightarrow> unit result" where
  "valid_content e c =
     (case validate_content e c of Inl GoPanic \<Rightarrow> Inl GoPanic | Inl _ \<Rightarrow> Inl SvcInvalid | Inr u \<Rightarrow> Inr u)"

definition default_content :: content where
  "default_content = Content
     (Some (JObj [(''version'', JStr ''1.1''), (''biz'', JStr ''chat''), (''meta'', JObj []), (''blocks'', JArr [])]))
     (CHR 0x7B # CHR 0x22 # ''version'' @ CHR 0x22 # CHR '':'' # CHR 0x22 # ''1.1'' @ CHR 0x22 # CHR '','' #
      CHR 0x22 # ''biz'' @ CHR 0x22 # CHR '':'' # CHR 0x22 # ''chat'' @ CHR 0x22 # CHR '','' #
      CHR 0x22 # ''meta'' @ CHR 0x22 # CHR '':'' # CHR 0x7B # CHR 0x7D # CHR '','' #
      CHR 0x22 # ''blocks'' @ CHR 0x22 # '':[]'' @ [CHR 0x7D])"

definition publication_ok :: "speak_request \<Rightarrow> bool" where
  "publication_ok r \<longleftrightarrow>
     valid_target (sr_actor r) \<and> \<not> blank (sr_key r)
     \<and> (sr_target r = no_actor \<or> (kind_valid (ar_kind (sr_target r)) \<and> ar_key (sr_target r) \<noteq> []))
     \<and> (sr_status r = [] \<or> status_known (sr_status r))"

definition publish ::
    "env \<Rightarrow> config \<Rightarrow> int \<Rightarrow> string \<Rightarrow> speak_request \<Rightarrow> store \<Rightarrow> (cmessage \<times> store) result" where
  "publish e cf now conv r s =
     (if \<not> publication_ok r then Inl SvcInvalid
      else
        let r1 = (if c_len (sr_content r) = 0 then r\<lparr>sr_content := default_content\<rparr> else r)
        in bindR (valid_content e (sr_content r1)) (\<lambda>_.
           bindR (speak e cf now conv r1 s) (\<lambda>(m, s1). Inr (message_from_model m, s1))))"

definition svc_create_message ::
    "env \<Rightarrow> config \<Rightarrow> int \<Rightarrow> string \<Rightarrow> string \<Rightarrow> actor_ref \<Rightarrow> content \<Rightarrow> store \<Rightarrow> (cmessage \<times> store) result" where
  "svc_create_message e cf now conv task a content s =
     (if blank task \<or> \<not> kind_valid (ar_kind a) \<or> blank (ar_key a) then Inl SvcInvalid
      else bindR (valid_content e content) (\<lambda>_.
        bindR (create_message e cf now
            (new_message\<lparr>m_id := fresh_id e s, m_conv := conv, m_task := trim_space task,
               m_source := \<lparr>ar_kind = ar_kind a, ar_key = trim_space (ar_key a)\<rparr>, m_content := content\<rparr>)
            (draw s))
          (\<lambda>(m, s1). Inr (message_from_model m, s1))))"

text \<open>\<^verbatim>\<open>MessageChanges\<close>: the revisions the client has, keyed by message.\<close>

definition message_changes ::
    "env \<Rightarrow> string \<Rightarrow> (string \<times> nat) list \<Rightarrow> store \<Rightarrow> cmessage list result" where
  "message_changes e conv revisions s =
     (if max_page_size < length revisions then Inl SvcInvalid
      else
        let states = get_message_states conv (map fst revisions) s;
            ids = map ms_id (filter (\<lambda>x. (case map_of revisions (ms_id x) of None \<Rightarrow> 0 | Some n \<Rightarrow> n)
                                            < ms_revision x) states)
        in bindR (get_messages e conv ids s) (\<lambda>rows. Inr (map message_from_model rows)))"

section \<open>Emitting output\<close>

text \<open>
  The AgentUE event bridge: \<open>br_state\<close> returns the last sequence number of a stream,
  \<open>br_init\<close> creates it from a snapshot, \<open>br_publish\<close> appends, \<open>br_end\<close> marks it terminal.
\<close>

record 'b bridge =
  br_state :: "string \<Rightarrow> 'b \<Rightarrow> nat result \<times> 'b"
  br_init :: "string \<Rightarrow> content \<Rightarrow> string \<Rightarrow> nat \<Rightarrow> 'b \<Rightarrow> unit result \<times> 'b"
  br_publish :: "string \<Rightarrow> string \<Rightarrow> nat \<Rightarrow> 'b \<Rightarrow> string result \<times> 'b"
  br_end :: "string \<Rightarrow> 'b \<Rightarrow> unit result \<times> 'b"

definition message_key :: "string \<Rightarrow> string" where
  "message_key i = ''message/'' @ i"

definition ensure_stream :: "env \<Rightarrow> 'b bridge \<Rightarrow> store \<Rightarrow> string \<Rightarrow> 'b \<Rightarrow> unit result \<times> 'b" where
  "ensure_stream e B s i b =
     (case br_state B (message_key i) b of
        (Inr _, b1) \<Rightarrow> (Inr (), b1)
      | (Inl er, b1) \<Rightarrow>
          if er \<noteq> BridgeNotFound then (Inl er, b1)
          else
            (case bindR (get_message e i s) (\<lambda>m.
                    let revn = (if m_revision m = 0 then 1 else m_revision m)
                    in bindR (e_start e (m_content m) revn) (\<lambda>st.
                       bindR (e_marshal e st) (\<lambda>data. Inr (m_content m, data, revn)))) of
               Inl er \<Rightarrow> (Inl er, b1)
             | Inr (content, data, revn) \<Rightarrow>
                 (case br_init B (message_key i) content data revn b1 of
                    (Inr u, b2) \<Rightarrow> (Inr u, b2)
                  | (Inl er, b2) \<Rightarrow> (if er = BridgeConflict then Inr () else Inl er, b2))))"

text \<open>The event a lagging stream receives: the event itself or a full snapshot.\<close>

definition bridge_event ::
    "env \<Rightarrow> store \<Rightarrow> message_state \<Rightarrow> event \<Rightarrow> nat \<Rightarrow> (event \<times> bool) result" where
  "bridge_event e s st ev lastq =
     (if lastq + 1 = ev_seq ev \<and> ms_revision st = ev_seq ev then Inr (ev, ms_ended st)
      else bindR (get_message e (ms_id st) s) (\<lambda>m.
           bindR (e_start e (m_content m) (m_revision m)) (\<lambda>start.
             Inr (start, status_terminal (m_status m)))))"

definition finish_stream :: "'b bridge \<Rightarrow> string \<Rightarrow> bool \<Rightarrow> 'b \<Rightarrow> string result \<times> 'b" where
  "finish_stream B key is_ended b =
     (if is_ended then (case br_end B key b of (Inl er, b1) \<Rightarrow> (Inl er, b1) | (Inr _, b1) \<Rightarrow> (Inr [], b1))
      else (Inr [], b))"

definition publish_event ::
    "env \<Rightarrow> 'b bridge \<Rightarrow> store \<Rightarrow> message_state \<Rightarrow> event \<Rightarrow> 'b \<Rightarrow> string result \<times> 'b" where
  "publish_event e B s st ev b =
     (let key = message_key (ms_id st) in
      case br_state B key b of
        (Inl er, b1) \<Rightarrow>
          if er \<noteq> BridgeNotFound then (Inl er, b1)
          else (case ensure_stream e B s (ms_id st) b1 of
                  (Inl er, b2) \<Rightarrow> (Inl er, b2)
                | (Inr _, b2) \<Rightarrow> finish_stream B key (ms_ended st) b2)
      | (Inr lastq, b1) \<Rightarrow>
          if lastq < ms_revision st then
            (case bindR (bridge_event e s st ev lastq) (\<lambda>(ev1, is_ended).
                    bindR (e_marshal e ev1) (\<lambda>data. Inr (ev_seq ev1, data, is_ended))) of
               Inl er \<Rightarrow> (Inl er, b1)
             | Inr (q, data, is_ended) \<Rightarrow>
                 (case br_publish B key data q b1 of
                    (Inl er, b2) \<Rightarrow> (Inl er, b2)
                  | (Inr i, b2) \<Rightarrow> if is_ended then finish_stream B key True b2 else (Inr i, b2)))
          else finish_stream B key (ms_ended st) b1)"

definition meta_has :: "string \<Rightarrow> event \<Rightarrow> bool" where
  "meta_has k ev \<longleftrightarrow> (case ev_meta ev of None \<Rightarrow> False | Some v \<Rightarrow> jget k v \<noteq> None)"

definition reserved_mask :: "string \<Rightarrow> bool" where
  "reserved_mask m \<longleftrightarrow>
     m = ''meta.output'' \<or> has_prefix m ''meta.output.'' \<or> m = ''meta.human'' \<or> has_prefix m ''meta.human.''"

definition emittable :: "event \<Rightarrow> bool" where
  "emittable ev \<longleftrightarrow>
     \<not> human_type (ev_get ''type'' ev) \<and> \<not> reserved_mask (ev_mask ev)
     \<and> \<not> meta_has ''output'' ev \<and> \<not> meta_has ''human'' ev
     \<and> (ev_op ev = OpSet \<or> ev_op ev = OpAppend \<or> ev_op ev = OpEnd)"

definition parse_output_event :: "env \<Rightarrow> content \<Rightarrow> event result" where
  "parse_output_event e data =
     (case e_parse e data of
        Inl _ \<Rightarrow> Inl SvcInvalid
      | Inr ev \<Rightarrow> if emittable ev then Inr ev else Inl SvcInvalid)"

definition emit_status :: "event \<Rightarrow> string list \<Rightarrow> string result" where
  "emit_status ev statuses =
     (if 1 < length statuses then Inl SvcInvalid
      else
        let st0 = (case statuses of [] \<Rightarrow> [] | x # _ \<Rightarrow> x);
            st = (if ev_op ev = OpEnd \<and> st0 = [] then MessageStatusCompleted else st0)
        in if (ev_op ev = OpEnd \<and> \<not> status_terminal st) \<or> (ev_op ev \<noteq> OpEnd \<and> st \<noteq> [])
           then Inl SvcInvalid else Inr st)"

text \<open>
  \<^verbatim>\<open>EmitMessage\<close>. \<open>accept_emit\<close> is the decision before the projection; an accepted event is
  in the database before the bridge is tried, and a failed delivery is not an error.
\<close>

definition accept_emit ::
    "env \<Rightarrow> string \<Rightarrow> content \<Rightarrow> string list \<Rightarrow> store \<Rightarrow> (event \<times> string) option result" where
  "accept_emit e i data statuses s =
     bindR (get_message_state i s) (\<lambda>m.
     bindR (parse_output_event e data) (\<lambda>ev.
     bindR (emit_status ev statuses) (\<lambda>st.
       if ms_ended m then
         (if ev_op ev = OpEnd then (if st \<noteq> ms_status m then Inl ErrConflict else Inr None)
          else Inl SvcInvalid)
       else if ms_revision m + 1 < ev_seq ev then Inl SvcInvalid
       else Inr (Some (ev, st)))))"

definition emit_message ::
    "env \<Rightarrow> config \<Rightarrow> int \<Rightarrow> 'b bridge \<Rightarrow> string \<Rightarrow> content \<Rightarrow> string list \<Rightarrow> store \<Rightarrow> 'b
     \<Rightarrow> string result \<times> store \<times> 'b" where
  "emit_message e cf now B i data statuses s b =
     (case accept_emit e i data statuses s of
        Inl er \<Rightarrow> (Inl er, s, b)
      | Inr None \<Rightarrow> (Inr [], s, b)
      | Inr (Some (ev, st)) \<Rightarrow>
          (case project_output e cf now i ev [st] s of
             Inl er \<Rightarrow> (Inl er, s, b)
           | Inr s1 \<Rightarrow>
               (case get_message_state i s1 of
                  Inl er \<Rightarrow> (Inl er, s1, b)
                | Inr m \<Rightarrow>
                    (case publish_event e B s1 m ev b of
                       (Inl _, b1) \<Rightarrow> (Inr [], s1, b1)
                     | (Inr x, b1) \<Rightarrow> (Inr x, s1, b1)))))"

text \<open>\<^verbatim>\<open>PublishCommitted\<close>: an event of a finished transaction, at its own revision.\<close>

definition publish_committed :: "env \<Rightarrow> 'b bridge \<Rightarrow> store \<Rightarrow> string \<Rightarrow> event \<Rightarrow> 'b \<Rightarrow> 'b" where
  "publish_committed e B s i ev b =
     (case get_message_state i s of
        Inl _ \<Rightarrow> b
      | Inr st \<Rightarrow>
          if ms_revision st < ev_seq ev then b
          else snd (publish_event e B s (st\<lparr>ms_revision := ev_seq ev, ms_ended := (ev_op ev = OpEnd)\<rparr>) ev b))"

section \<open>Delivery\<close>

definition poll_error :: "err \<Rightarrow> err" where
  "poll_error er =
     (if er = KubeNotFound then ErrNotFound else if er = ErrNotParticipant then ErrForbidden
      else if er = KubeConflict then SvcConflict else er)"

definition svc_poll ::
    "env \<Rightarrow> 'w kube \<Rightarrow> nat \<Rightarrow> string \<Rightarrow> poll_request \<Rightarrow> store \<Rightarrow> 'w \<Rightarrow> poll_result result \<times> 'w" where
  "svc_poll e K steps conv r s w =
     (if \<not> valid_target (pr_actor r) then (Inl SvcInvalid, w)
      else case get_conversation conv s of
        Inl er \<Rightarrow> (Inl er, w)
      | Inr _ \<Rightarrow>
          (case poll K steps conv (pr_actor r) (pr_after r)
                  (\<lambda>after. bindR (list_inbox e conv (pr_actor r) after (page_size (pr_limit r)) s)
                     (\<lambda>rows. Inr (map message_from_model rows))) w of
             (Inl er, w1) \<Rightarrow> (Inl (poll_error er), w1)
           | (Inr x, w1) \<Rightarrow> (Inr x, w1)))"

definition commit_error :: "err \<Rightarrow> err" where
  "commit_error er =
     (if er = KubeNotFound then ErrNotFound else if er = ErrNotParticipant then ErrForbidden
      else if er = ErrInvalidCommit then SvcInvalid else if er = KubeConflict then SvcConflict else er)"

definition svc_commit :: "'w kube \<Rightarrow> nat \<Rightarrow> string \<Rightarrow> commit_request \<Rightarrow> 'w \<Rightarrow> unit result \<times> 'w" where
  "svc_commit K steps conv r w =
     (case commit K steps conv r w of (Inl er, w1) \<Rightarrow> (Inl (commit_error er), w1) | x \<Rightarrow> x)"

definition notify ::
    "env \<Rightarrow> 'w kube \<Rightarrow> nat \<Rightarrow> message \<Rightarrow> store \<Rightarrow> 'w \<Rightarrow> unit result \<times> store \<times> 'w" where
  "notify e K steps m s w =
     (case participant_conversation (m_conv m) (m_target m) s of
        Inl er \<Rightarrow> (Inl er, s, w)
      | Inr detail \<Rightarrow>
          (case signal e K steps (m_conv m) (m_id m) (m_target m) (m_revision m) detail w of
             (Inl er, w1) \<Rightarrow> (Inl er, s, w1)
           | (Inr _, w1) \<Rightarrow> (Inr (), acknowledge_dispatch (m_id m) s, w1)))"

text \<open>\<^verbatim>\<open>Maintain\<close> goes on after a failure; the failures are joined, here a list.\<close>

fun notify_all ::
    "env \<Rightarrow> 'w kube \<Rightarrow> nat \<Rightarrow> message list \<Rightarrow> err list \<Rightarrow> store \<Rightarrow> 'w \<Rightarrow> err list \<times> store \<times> 'w" where
  "notify_all e K steps [] failures s w = (failures, s, w)"
| "notify_all e K steps (m # ms) failures s w =
     (case notify e K steps m s w of
        (Inl er, s1, w1) \<Rightarrow> notify_all e K steps ms (failures @ [er]) s1 w1
      | (Inr _, s1, w1) \<Rightarrow> notify_all e K steps ms failures s1 w1)"

definition poll_maintain ::
    "env \<Rightarrow> 'w kube \<Rightarrow> nat \<Rightarrow> store \<Rightarrow> 'w \<Rightarrow> err list \<times> store \<times> 'w" where
  "poll_maintain e K steps s w =
     (case pending_dispatches e max_page_size s of
        Inl er \<Rightarrow> ([er], s, w)
      | Inr rows \<Rightarrow> notify_all e K steps rows [] s w)"

text \<open>\<^verbatim>\<open>ChatService.Create\<close>: the input is committed whether or not the notification succeeds.\<close>

definition chat_input ::
    "string \<Rightarrow> string \<Rightarrow> actor_ref \<Rightarrow> content \<Rightarrow> string \<Rightarrow> string \<Rightarrow> message" where
  "chat_input conv user target content task i =
     new_message\<lparr>m_id := i, m_conv := conv, m_task := task,
       m_source := \<lparr>ar_kind = ActorKindUser, ar_key = user\<rparr>, m_content := content,
       m_target := target, m_dispatch := True\<rparr>"

definition chat_create ::
    "env \<Rightarrow> config \<Rightarrow> int \<Rightarrow> 'w kube \<Rightarrow> nat \<Rightarrow> string \<Rightarrow> string \<Rightarrow> actor_ref \<Rightarrow> content \<Rightarrow> store \<Rightarrow> 'w
     \<Rightarrow> cmessage result \<times> store \<times> 'w" where
  "chat_create e cf now K steps conv user target content s w =
     (let user = trim_space user;
          target = target\<lparr>ar_key := trim_space (ar_key target)\<rparr>
      in if user = [] \<or> \<not> valid_target target then (Inl SvcInvalid, s, w)
         else case valid_content e content of
           Inl er \<Rightarrow> (Inl er, s, w)
         | Inr _ \<Rightarrow>
             (let task = fresh_id e s; s1 = draw s; i = fresh_id e s1
              in case create_chat_input e cf now (chat_input conv user target content task i) (draw s1) of
                   Inl er \<Rightarrow> (Inl er, s, w)
                 | Inr (m, s2) \<Rightarrow>
                     (case notify e K steps m s2 w of
                        (_, s3, w1) \<Rightarrow> (Inr (message_from_model m), s3, w1))))"

section \<open>Conversations\<close>

definition svc_find_actor_conversation ::
    "string \<Rightarrow> string \<Rightarrow> string \<Rightarrow> store \<Rightarrow> contract_conversation list result" where
  "svc_find_actor_conversation parent kind key s =
     (case find_actor_conversation parent kind key s of
        Inl ErrNotFound \<Rightarrow> Inr []
      | Inl er \<Rightarrow> Inl er
      | Inr c \<Rightarrow> Inr [conversation_from_model c])"

definition svc_create_conversation ::
    "env \<Rightarrow> int \<Rightarrow> string \<Rightarrow> string \<Rightarrow> store \<Rightarrow> (contract_conversation \<times> store) result" where
  "svc_create_conversation e now name user s =
     (if trim_space user = [] then Inl SvcInvalid
      else bindR (create_conversation now
               \<lparr>cv_id = fresh_id e s, cv_name = trim_space name,
                cv_actor = \<lparr>ar_kind = ActorKindUser, ar_key = trim_space user\<rparr>, cv_parent = None,
                cv_created = 0, cv_updated = 0\<rparr> (draw s))
             (\<lambda>(c, s1). Inr (conversation_from_model c, s1)))"

definition svc_list_conversations :: "string \<Rightarrow> int \<Rightarrow> store \<Rightarrow> contract_conversation list" where
  "svc_list_conversations before limit s =
     map conversation_from_model (list_conversations before (page_size limit) s)"

section \<open>Human questions\<close>

definition human_error :: "err \<Rightarrow> err" where
  "human_error er = (if er = ErrInvalidHuman then SvcInvalid else er)"

definition svc_create_human ::
    "env \<Rightarrow> config \<Rightarrow> int \<Rightarrow> human_request \<Rightarrow> store \<Rightarrow> (human_result \<times> store) result" where
  "svc_create_human e cf now r s =
     (case human_validate r of
        Inl _ \<Rightarrow> Inl SvcInvalid
      | Inr _ \<Rightarrow> (case create_human e cf now r s of Inl er \<Rightarrow> Inl (human_error er) | x \<Rightarrow> x))"

definition svc_reply_human ::
    "env \<Rightarrow> config \<Rightarrow> int \<Rightarrow> string \<Rightarrow> string \<Rightarrow> human_reply \<Rightarrow> store \<Rightarrow> human_result result \<times> store" where
  "svc_reply_human e cf now conv actor r s =
     (if hy_reply_to r = [] then (Inl SvcInvalid, s)
      else case reply_human e cf now conv actor r s of
        (Inl er, s1) \<Rightarrow> (Inl (human_error er), s1) | x \<Rightarrow> x)"

text \<open>One row of \<^verbatim>\<open>Maintain\<close>: a due question is read, which expires it, and its wake acknowledged.\<close>

definition maintain_row ::
    "env \<Rightarrow> config \<Rightarrow> int \<Rightarrow> message \<Rightarrow> store \<Rightarrow> err list \<times> store" where
  "maintain_row e cf now row s =
     (let ack = (\<lambda>m s. if m_wake m then acknowledge_human_wake now (m_id m) (m_revision m) s else s)
      in if m_human_due row = None then ([], ack row s)
         else case get_human e cf now (m_id row) s of
           Inl er \<Rightarrow> ([er], s)
         | Inr (_, s1) \<Rightarrow>
             (case get_message e (m_id row) s1 of
                Inl er \<Rightarrow> ([er], s1)
              | Inr m \<Rightarrow> ([], ack m s1)))"

fun maintain_rows ::
    "env \<Rightarrow> config \<Rightarrow> int \<Rightarrow> message list \<Rightarrow> err list \<Rightarrow> store \<Rightarrow> err list \<times> store" where
  "maintain_rows e cf now [] failures s = (failures, s)"
| "maintain_rows e cf now (m # ms) failures s =
     (let (fs, s1) = maintain_row e cf now m s in maintain_rows e cf now ms (failures @ fs) s1)"

definition human_maintain :: "env \<Rightarrow> config \<Rightarrow> int \<Rightarrow> store \<Rightarrow> err list \<times> store" where
  "human_maintain e cf now s = maintain_rows e cf now (human_maintenance now s) [] s"

section \<open>Actor registry\<close>

record actor =
  ac_ref :: actor_ref
  ac_name :: string
  ac_description :: string

definition registration_fields ::
    "int \<Rightarrow> string \<Rightarrow> string \<Rightarrow> string \<Rightarrow> int \<Rightarrow> (string \<times> string \<times> string \<times> int) result" where
  "registration_fields now key name description lease =
     (if trim_space key = [] \<or> lease < 0 \<or> 300000000000 < lease then Inl SvcInvalid
      else Inr (trim_space key, trim_space name, trim_space description,
                now + (if lease = 0 then 30000000000 else lease)))"

definition actor_of :: "string \<Rightarrow> registration \<Rightarrow> actor" where
  "actor_of kind r = \<lparr>ac_ref = \<lparr>ar_kind = kind, ar_key = rg_key r\<rparr>, ac_name = rg_name r,
     ac_description = rg_description r\<rparr>"

definition new_registration :: "string \<Rightarrow> string \<times> string \<times> string \<times> int \<Rightarrow> registration" where
  "new_registration i f = (case f of (key, name, description, expires) \<Rightarrow>
     \<lparr>rg_id = i, rg_key = key, rg_name = name, rg_description = description, rg_expires = expires,
      rg_created = 0, rg_updated = 0\<rparr>)"

definition svc_register_operator ::
    "env \<Rightarrow> int \<Rightarrow> string \<Rightarrow> string \<Rightarrow> string \<Rightarrow> int \<Rightarrow> store \<Rightarrow> (actor \<times> store) result" where
  "svc_register_operator e now key name description lease s =
     bindR (registration_fields now key name description lease) (\<lambda>f.
     bindR (register_operator now (new_registration (fresh_id e s) f) (draw s)) (\<lambda>(r, s1).
       Inr (actor_of ActorKindOperator r, s1)))"

definition svc_register_harness ::
    "env \<Rightarrow> int \<Rightarrow> string \<Rightarrow> string \<Rightarrow> string \<Rightarrow> int \<Rightarrow> store \<Rightarrow> (actor \<times> store) result" where
  "svc_register_harness e now key name description lease s =
     bindR (registration_fields now key name description lease) (\<lambda>f.
     bindR (register_harness now (new_registration (fresh_id e s) f) (draw s)) (\<lambda>(r, s1).
       Inr (actor_of ActorKindHarness r, s1)))"

definition list_actors :: "int \<Rightarrow> store \<Rightarrow> actor list" where
  "list_actors now s =
     map (actor_of ActorKindOperator) (list_operators now s)
     @ map (actor_of ActorKindHarness) (list_harnesses now s)"

end
