(* ===== verification/ServiceFacts.thy ===== *)
theory ServiceFacts
  imports RunSamples Services
begin

text \<open>
  Facts the properties of the services share: reading changes only the content of a row,
  a notification clears its mark only after its signal, and a concrete cluster that keeps
  the history of every object and satisfies \<open>kube_laws\<close>.
\<close>

section \<open>Reading rows\<close>

lemma page_size_pos: "0 < page_size n \<and> page_size n \<le> max_page_size"
  by (auto simp: page_size_def max_page_size_def)

definition same_row :: "message \<Rightarrow> message \<Rightarrow> bool" where
  "same_row m h \<longleftrightarrow> (\<exists>c. h = m\<lparr>m_content := c\<rparr>)"

lemma same_row_refl [simp]: "same_row m m"
  unfolding same_row_def by (rule exI [of _ "m_content m"]) simp

lemma same_row_fields:
  assumes "same_row m h"
  shows "m_id h = m_id m" "m_conv h = m_conv m" "m_target h = m_target m" "m_source h = m_source m"
    "m_revision h = m_revision m" "m_status h = m_status m" "m_dispatch h = m_dispatch m"
    "m_human_due h = m_human_due m"
  using assms by (auto simp: same_row_def)

lemma mapR_list_all2: "mapR f xs = Inr ys \<Longrightarrow> list_all2 (\<lambda>x y. f x = Inr y) xs ys"
  by (induction xs arbitrary: ys) (auto simp: bindR_eq_Inr)

lemma hydrate_one_same: "hydrate_one e s parts (m, c) = Inr h \<Longrightarrow> same_row m h"
  by (auto simp: hydrate_one_def bindR_eq_Inr same_row_def intro: same_row_refl [unfolded same_row_def] split: if_splits)

lemma read_messages_same:
  assumes "read_messages e s ms = Inr hs"
  shows "list_all2 same_row ms hs"
proof -
  obtain cs where cs: "mapR (\<lambda>m. open_content e (m_id m) (m_content m) (st_uuid s)) ms = Inr cs"
    and run: "hs = ms \<or> (\<exists>parts. mapR (hydrate_one e s parts) (zip ms cs) = Inr hs)"
    using assms by (auto simp: read_messages_def hydrate_messages_def Let_def bindR_eq_Inr split: if_splits)
  from run show ?thesis
  proof
    assume "\<exists>parts. mapR (hydrate_one e s parts) (zip ms cs) = Inr hs"
    then obtain parts where "mapR (hydrate_one e s parts) (zip ms cs) = Inr hs" ..
    from mapR_list_all2 [OF this] have "list_all2 (\<lambda>x h. same_row (fst x) h) (zip ms cs) hs"
      by (rule list_all2_mono) (use hydrate_one_same in fastforce)
    moreover have "length cs = length ms" by (rule mapR_length [OF cs])
    ultimately show ?thesis by (simp add: list_all2_conv_all_nth)
  qed (simp add: list_all2_refl)
qed

lemma read_messages_mem:
  assumes "read_messages e s ms = Inr hs" and "h \<in> set hs"
  obtains m where "m \<in> set ms" "same_row m h"
proof -
  obtain k where "k < length hs" "h = hs ! k" using assms(2) by (auto simp: in_set_conv_nth)
  moreover from this have "k < length ms" "same_row (ms ! k) h"
    using read_messages_same [OF assms(1)] by (auto simp: list_all2_conv_all_nth)
  ultimately show thesis using that [of "ms ! k"] by simp
qed

lemma read_messages_ids:
  assumes "read_messages e s ms = Inr hs"
  shows "map m_id hs = map m_id ms"
  using read_messages_same [OF assms]
  by (induction rule: list_all2_induct) (simp_all add: same_row_fields)

text \<open>Message identifiers are the primary key and never empty.\<close>

definition ids_ok :: "store \<Rightarrow> bool" where
  "ids_ok s \<longleftrightarrow> distinct (map m_id (st_msgs s)) \<and> (\<forall>m \<in> set (st_msgs s). m_id m \<noteq> [])"

lemma sorted_prefix_closed:
  assumes "sorted (map f L)" and "take n L \<noteq> []" and "m \<in> set L" and "f m \<le> f (last (take n L))"
  shows "f m \<in> f ` set (take n L)"
proof -
  obtain k where k: "k < length L" "m = L ! k" using assms(3) by (auto simp: in_set_conv_nth)
  let ?n = "min (length L) n"
  have n: "0 < ?n" using assms(2) by simp
  have "last (take n L) = take n L ! (length (take n L) - 1)" by (rule last_conv_nth [OF assms(2)])
  also have "\<dots> = L ! (?n - 1)" using n by (cases "length L \<le> n") (auto simp: min_def)
  finally have lst: "last (take n L) = L ! (?n - 1)" .
  show ?thesis
  proof (cases "k < ?n")
    case True
    then have "m = take n L ! k" "k < length (take n L)" using k by simp_all
    then show ?thesis by (metis image_eqI nth_mem)
  next
    case False
    then have "f (L ! (?n - 1)) \<le> f m" using sorted_nth_mono [OF assms(1), of "?n - 1" k] k n by simp
    then have "f m = f (last (take n L))" using assms(4) lst by simp
    then show ?thesis using assms(2) by (simp add: last_in_set)
  qed
qed

lemma map_of_filter_fst: "map_of (filter (\<lambda>x. fst x \<noteq> i) kvs) j = (if j = i then None else map_of kvs j)"
  by (induction kvs) auto

section \<open>Notifications\<close>

lemma notify_effect:
  assumes "notify e K steps m s w = (r, s', w')"
  shows "(\<exists>er. r = Inl er \<and> s' = s)
    \<or> (r = Inr () \<and> s' = acknowledge_dispatch (m_id m) s
       \<and> (\<exists>detail. signal e K steps (m_conv m) (m_id m) (m_target m) (m_revision m) detail w = (Inr (), w')))"
  using assms by (auto simp: notify_def split: sum.splits prod.splits)

definition acknowledged :: "message list \<Rightarrow> store \<Rightarrow> store" where
  "acknowledged ms s = foldl (\<lambda>s m. acknowledge_dispatch (m_id m) s) s ms"

lemma acknowledged_simps [simp]:
  "acknowledged [] s = s" "acknowledged (m # ms) s = acknowledged ms (acknowledge_dispatch (m_id m) s)"
  by (simp_all add: acknowledged_def)

lemma get_acknowledge_dispatch:
  "get_msg i (acknowledge_dispatch j s) =
     (if i = j then map_option (\<lambda>m. m\<lparr>m_dispatch := False\<rparr>) (get_msg i s) else get_msg i s)"
  unfolding acknowledge_dispatch_def by (subst get_msg_update_msg) auto

lemma get_acknowledged:
  "get_msg i (acknowledged ms s) =
     (if i \<in> m_id ` set ms then map_option (\<lambda>m. m\<lparr>m_dispatch := False\<rparr>) (get_msg i s) else get_msg i s)"
  by (induction ms arbitrary: s) (auto simp: get_acknowledge_dispatch option.map_comp comp_def)

text \<open>
  A pass as the calls it made: the message, the cluster before the call, the answer and the cluster after it. A
  call finds the participant's conversation and signals it, and each call starts where the one before it ended.
\<close>

definition asked :: "env \<Rightarrow> 'w kube \<Rightarrow> nat \<Rightarrow> store \<Rightarrow> message \<times> 'w \<times> unit result \<times> 'w \<Rightarrow> bool" where
  "asked e K steps s = (\<lambda>(m, a, r, b).
     (case participant_conversation (m_conv m) (m_target m) s of
        Inl er \<Rightarrow> (Inl er, a)
      | Inr detail \<Rightarrow> signal e K steps (m_conv m) (m_id m) (m_target m) (m_revision m) detail a) = (r, b))"

fun chained :: "'w \<Rightarrow> (message \<times> 'w \<times> unit result \<times> 'w) list \<Rightarrow> 'w \<Rightarrow> bool" where
  "chained w [] w' \<longleftrightarrow> w' = w"
| "chained w ((m, a, r, b) # calls) w' \<longleftrightarrow> a = w \<and> chained b calls w'"

definition call_failures :: "(message \<times> 'w \<times> unit result \<times> 'w) list \<Rightarrow> err list" where
  "call_failures calls = concat (map (\<lambda>(m, a, r, b). case r of Inl er \<Rightarrow> [er] | Inr _ \<Rightarrow> []) calls)"

definition call_successes :: "(message \<times> 'w \<times> unit result \<times> 'w) list \<Rightarrow> message list" where
  "call_successes calls = map fst (filter (\<lambda>(m, a, r, b). r = Inr ()) calls)"

lemma participant_conversation_cong:
  assumes "st_convs s' = st_convs s"
  shows "participant_conversation i a s' = participant_conversation i a s"
proof -
  have "find_actor_conversation p k q s' = find_actor_conversation p k q s" for p k q
    using assms by (simp add: find_actor_conversation_def)
  moreover have "get_conversation i s' = get_conversation i s"
    using assms by (simp add: get_conversation_def get_conv_def)
  ultimately show ?thesis
    by (cases "get_conversation i s") (simp_all add: participant_conversation_def bindR_def)
qed

lemma asked_cong: "st_convs s' = st_convs s \<Longrightarrow> asked e K steps s' = asked e K steps s"
  by (simp add: asked_def participant_conversation_cong [of s' s] fun_eq_iff)

lemma acknowledge_dispatch_convs [simp]: "st_convs (acknowledge_dispatch i s) = st_convs s"
  by (simp add: acknowledge_dispatch_def update_msg_def split: option.split)

lemma notify_asked:
  assumes "notify e K steps m s w = (r, s1, w1)"
  shows "asked e K steps s (m, w, r, w1)" "s1 = (case r of Inl _ \<Rightarrow> s | Inr _ \<Rightarrow> acknowledge_dispatch (m_id m) s)"
  using assms by (auto simp: notify_def asked_def split: sum.splits prod.splits)

lemma notify_all_calls:
  "notify_all e K steps ms fs s w = (fs', s', w') \<Longrightarrow>
    \<exists>calls. map fst calls = ms \<and> chained w calls w' \<and> (\<forall>c \<in> set calls. asked e K steps s c)
      \<and> fs' = fs @ call_failures calls \<and> s' = acknowledged (call_successes calls) s"
proof (induction ms arbitrary: fs s w)
  case Nil
  then show ?case by (intro exI [of _ "[]"]) (simp add: call_failures_def call_successes_def)
next
  case (Cons m ms)
  obtain r s1 w1 where n: "notify e K steps m s w = (r, s1, w1)" by (rule prod_cases3)
  note N = notify_asked [OF n]
  have "notify_all e K steps ms (case r of Inl er \<Rightarrow> fs @ [er] | Inr _ \<Rightarrow> fs) s1 w1 = (fs', s', w')"
    using Cons.prems n by (simp split: sum.splits)
  from Cons.IH [OF this] obtain calls where c: "map fst calls = ms" "chained w1 calls w'"
    "\<forall>c \<in> set calls. asked e K steps s1 c"
    "fs' = (case r of Inl er \<Rightarrow> fs @ [er] | Inr _ \<Rightarrow> fs) @ call_failures calls" "s' = acknowledged (call_successes calls) s1"
    by blast
  have "st_convs s1 = st_convs s" using N(2) by (simp split: sum.splits)
  from asked_cong [OF this] have "asked e K steps s1 = asked e K steps s" .
  then have "\<forall>c \<in> set ((m, w, r, w1) # calls). asked e K steps s c"
    using c(3) N(1) by (metis set_ConsD)
  moreover have "fs' = fs @ call_failures ((m, w, r, w1) # calls)"
    "s' = acknowledged (call_successes ((m, w, r, w1) # calls)) s"
    using c(4,5) N(2) by (auto simp: call_failures_def call_successes_def split: sum.splits)
  ultimately show ?case using c(1,2) by (intro exI [of _ "(m, w, r, w1) # calls"]) simp
qed

section \<open>Signals\<close>

text \<open>
  \<^verbatim>\<open>NewConversationClient\<close> requires a direct, uncached client: a read that succeeds returns the state the
  API server holds at that moment, not an earlier one.
\<close>

definition fresh_reads :: "'w kube \<Rightarrow> ('w \<Rightarrow> string \<Rightarrow> kconv list) \<Rightarrow> bool" where
  "fresh_reads K hist \<longleftrightarrow> (\<forall>n w c w'. kb_get K n w = (Inr c, w') \<longrightarrow> c = last (hist w' n))"

text \<open>What a signal leaves of the conversation: each recipient's end offset, wake annotation and conversation.\<close>

definition announced :: "env \<Rightarrow> string \<Rightarrow> nat \<Rightarrow> actor_ref \<Rightarrow> string \<Rightarrow> kconv \<Rightarrow> bool" where
  "announced e i revn t d c \<longleftrightarrow>
     (t \<noteq> no_actor \<longrightarrow> find_participant t c \<noteq> None)
   \<and> (\<forall>a p. find_participant a c = Some p \<and> (t = no_actor \<or> a = t) \<longrightarrow>
        i \<le> pt_end p \<and> wake e a c = signal_stamp i revn \<and> (t \<noteq> no_actor \<and> d \<noteq> [] \<longrightarrow> pt_conv p = d))"

lemma announced_simps [simp]:
  "announced e i revn t d (c\<lparr>kc_version := v\<rparr>) \<longleftrightarrow> announced e i revn t d c"
  "announced e i revn t d (c\<lparr>kc_consumers := ns\<rparr>) \<longleftrightarrow> announced e i revn t d c"
  by (simp_all add: announced_def find_participant_def wake_def)

lemma set_wake_stamps:
  "map_of (fst (set_wake e st a ws)) k = (if k = wake_annotation e a then Some st else map_of ws k)"
  by (simp add: set_wake_def Let_def)

lemma signal_parts_wakes:
  assumes "signal_parts e i revn t d ps ws = (ps', ws', found, changed)"
  shows "map_of ws k = Some (signal_stamp i revn) \<Longrightarrow> map_of ws' k = Some (signal_stamp i revn)"
    "p \<in> set ps \<Longrightarrow> t = no_actor \<or> pt_actor p = t \<Longrightarrow>
      map_of ws' (wake_annotation e (pt_actor p)) = Some (signal_stamp i revn)"
    "\<not> changed \<Longrightarrow> ps' = ps \<and> ws' = ws"
proof -
  let ?st = "signal_stamp i revn"
  have "(\<forall>k. map_of ws k = Some ?st \<longrightarrow> map_of ws' k = Some ?st)
    \<and> (\<forall>p \<in> set ps. t = no_actor \<or> pt_actor p = t \<longrightarrow> map_of ws' (wake_annotation e (pt_actor p)) = Some ?st)
    \<and> (\<not> changed \<longrightarrow> ps' = ps \<and> ws' = ws)"
    using assms
  proof (induction ps arbitrary: ws ps' ws' found changed)
    case (Cons p ps)
    show ?case
    proof (cases "t = no_actor \<or> pt_actor p = t")
      case True
      obtain ws1 woken where sw: "set_wake e ?st (pt_actor p) ws = (ws1, woken)" by (rule prod.exhaust)
      obtain ps1 ws2 f1 c1 where r: "signal_parts e i revn t d ps ws1 = (ps1, ws2, f1, c1)" by (rule prod_cases4)
      have e: "ps' = signalled i t d p # ps1" "ws' = ws2" "changed = (signalled i t d p \<noteq> p \<or> woken \<or> c1)"
        using Cons.prems True sw r by (auto simp: Let_def)
      have m: "map_of ws1 k = (if k = wake_annotation e (pt_actor p) then Some ?st else map_of ws k)" for k
        using set_wake_stamps [of e ?st "pt_actor p" ws k] sw by simp
      have same: "\<not> woken \<Longrightarrow> ws1 = ws" using sw by (auto simp: set_wake_def Let_def split: if_splits)
      note IH = Cons.IH [OF r]
      have "\<forall>k. map_of ws k = Some ?st \<longrightarrow> map_of ws' k = Some ?st" using IH m e(2) by simp
      moreover have "map_of ws' (wake_annotation e (pt_actor p)) = Some ?st" using IH m e(2) by simp
      ultimately show ?thesis using IH e same by auto
    next
      case False
      obtain ps1 ws2 f1 c1 where r: "signal_parts e i revn t d ps ws = (ps1, ws2, f1, c1)" by (rule prod_cases4)
      have "ps' = p # ps1" "ws' = ws2" "changed = c1" using Cons.prems False r by (auto simp: Let_def)
      then show ?thesis using Cons.IH [OF r] False by auto
    qed
  qed simp
  then show "map_of ws k = Some ?st \<Longrightarrow> map_of ws' k = Some ?st"
    "p \<in> set ps \<Longrightarrow> t = no_actor \<or> pt_actor p = t \<Longrightarrow> map_of ws' (wake_annotation e (pt_actor p)) = Some ?st"
    "\<not> changed \<Longrightarrow> ps' = ps \<and> ws' = ws" by blast+
qed

lemma signal_object_wakes:
  assumes "find_participant a (fst (signal_object e i revn t d c)) = Some p" and "t = no_actor \<or> a = t"
  shows "wake e a (fst (signal_object e i revn t d c)) = signal_stamp i revn"
proof -
  obtain ps ws found changed where r: "signal_parts e i revn t d (kc_parts c) (kc_wakes c) = (ps, ws, found, changed)"
    by (rule prod_cases4)
  note P = signal_parts_parts [OF r] and W = signal_parts_wakes [OF r]
  show ?thesis
  proof (cases "\<not> found \<and> t \<noteq> no_actor")
    case True
    then show ?thesis using assms(2) by (auto simp: signal_object_def r wake_def set_wake_stamps)
  next
    case False
    then have o: "fst (signal_object e i revn t d c) = c\<lparr>kc_parts := ps, kc_wakes := ws\<rparr>"
      by (auto simp: signal_object_def r)
    have "\<exists>q \<in> set (kc_parts c). pt_actor q = a"
    proof -
      have "p \<in> set ps" "pt_actor p = a" using assms(1) unfolding o by (auto simp: find_participant_def find_Some_iff)
      then show ?thesis unfolding P(1) by (auto simp: signalled_def split: if_splits)
    qed
    then show ?thesis using W(2) assms(2) unfolding o by (auto simp: wake_def)
  qed
qed

lemma signal_object_announced: "announced e i revn t d (fst (signal_object e i revn t d c))"
  unfolding announced_def
proof (intro conjI allI impI)
  let ?o = "fst (signal_object e i revn t d c)"
  show "find_participant t ?o \<noteq> None" if "t \<noteq> no_actor"
    using that by (simp add: signal_object_participant)
  fix a p assume p: "find_participant a ?o = Some p \<and> (t = no_actor \<or> a = t)"
  show "wake e a ?o = signal_stamp i revn" using p by (intro signal_object_wakes) auto
  have "i \<le> end_offset a ?o" using p by (auto simp: signal_object_end signal_object_participant)
  then show "i \<le> pt_end p" using p by (simp add: end_offset_def)
  show "pt_conv p = d" if "t \<noteq> no_actor \<and> d \<noteq> []"
    using p that by (auto simp: signal_object_participant signalled_def split: option.splits)
qed

lemma signal_object_unchanged:
  assumes "\<not> snd (signal_object e i revn t d c)"
  shows "fst (signal_object e i revn t d c) = c"
proof -
  obtain ps ws found changed where r: "signal_parts e i revn t d (kc_parts c) (kc_wakes c) = (ps, ws, found, changed)"
    by (rule prod_cases4)
  show ?thesis using assms signal_parts_wakes(3) [OF r] by (auto simp: signal_object_def r split: if_splits)
qed

lemma signal_current:
  assumes laws: "kube_laws K hist" and fresh: "fresh_reads K hist"
    and run: "signal e K steps conv i t revn d w = (Inr (), w')"
  shows "hist w' conv \<noteq> [] \<and> announced e i revn t d (last (hist w' conv))"
proof -
  have "retry_on steps (\<lambda>er. er = KubeConflict \<or> er = KubeExists) (signal_attempt e K conv i revn t d) w = (Inr (), w')"
    using run by (auto simp: signal_def split: if_splits)
  then obtain w0 where at: "signal_attempt e K conv i revn t d w0 = (Inr (), w')" by (rule retry_on_Inr)
  obtain g w1 where g: "kb_get K conv w0 = (g, w1)" by (rule prod.exhaust)
  show ?thesis
  proof (cases g)
    case (Inl er)
    then have "kb_create K (fst (signal_object e i revn t d (new_kconv conv))) w1 = (Inr (), w')"
      using at by (auto simp: signal_attempt_def g split: if_splits)
    from kube_create(2) [OF laws this] obtain v where
      "hist w' conv = [(fst (signal_object e i revn t d (new_kconv conv)))\<lparr>kc_consumers := [], kc_version := v\<rparr>]"
      by (auto simp: new_kconv_def)
    then show ?thesis using signal_object_announced [of e i revn t d "new_kconv conv"] by simp
  next
    case (Inr c)
    have c: "c \<in> set (hist w1 conv)" "kc_name c = conv" using kube_get(2) [OF laws g] Inr by blast+
    have last: "c = last (hist w1 conv)" using fresh g Inr by (simp add: fresh_reads_def)
    obtain c1 changed where so: "signal_object e i revn t d c = (c1, changed)" by (rule prod.exhaust)
    have A: "announced e i revn t d c1" using signal_object_announced [of e i revn t d c] so by simp
    show ?thesis
    proof (cases changed)
      case False
      then have "w' = w1" "c1 = c"
        using at so Inr signal_object_unchanged [of e i revn t d c] by (simp_all add: signal_attempt_def g)
      then show ?thesis using A c(1) last by auto
    next
      case True
      then have "kb_update K c1 w1 = (Inr (), w')" using at so Inr by (simp add: signal_attempt_def g)
      moreover have "kc_name c1 = conv" using signal_object_consumers(3) [of e i revn t d c] so c(2) by simp
      ultimately obtain old where "appended hist w' conv old (c1\<lparr>kc_consumers := kc_consumers old\<rparr>)"
        using kube_update(2) [OF laws] by blast
      then obtain h v where "hist w' conv = h @ [old, c1\<lparr>kc_consumers := kc_consumers old, kc_version := v\<rparr>]"
        unfolding appended_def by auto
      then show ?thesis using A by simp
    qed
  qed
qed

section \<open>A cluster that keeps its history\<close>

text \<open>The world is the list of all states the API server has stored, of any object, oldest first.\<close>

definition demo_hist :: "kconv list \<Rightarrow> string \<Rightarrow> kconv list" where
  "demo_hist w n = (if distinct (map kc_version w) then filter (\<lambda>c. kc_name c = n) w else [])"

definition demo_append :: "kconv \<Rightarrow> kconv list \<Rightarrow> unit result \<times> kconv list" where
  "demo_append c w =
     (let v = replicate (length w) CHR ''v''
      in if \<not> distinct (map kc_version w) \<or> v \<in> set (map kc_version w) then (Inl KubeConflict, w)
         else (Inr (), w @ [c\<lparr>kc_version := v\<rparr>]))"

definition demo_write :: "(kconv \<Rightarrow> kconv \<Rightarrow> kconv) \<Rightarrow> kconv \<Rightarrow> kconv list \<Rightarrow> unit result \<times> kconv list" where
  "demo_write f c w =
     (let h = demo_hist w (kc_name c)
      in if h = [] \<or> kc_version (last h) \<noteq> kc_version c then (Inl KubeConflict, w)
         else demo_append (f (last h) c) w)"

definition demo_kube :: "kconv list kube" where
  "demo_kube =
     \<lparr>kb_get = (\<lambda>n w. (if demo_hist w n = [] then Inl KubeNotFound else Inr (last (demo_hist w n)), w)),
      kb_create = (\<lambda>c w. if demo_hist w (kc_name c) \<noteq> [] then (Inl KubeExists, w)
                         else demo_append (c\<lparr>kc_consumers := []\<rparr>) w),
      kb_update = demo_write (\<lambda>old c. c\<lparr>kc_consumers := kc_consumers old\<rparr>),
      kb_status = demo_write (\<lambda>old c. old\<lparr>kc_consumers := kc_consumers c\<rparr>)\<rparr>"

lemma demo_append_grows:
  "demo_append c w = (r, w') \<Longrightarrow> grows demo_hist w w'"
  by (auto simp: demo_append_def Let_def grows_def demo_hist_def prefix_def split: if_splits)

lemma demo_append_Inr:
  assumes "demo_append c w = (Inr u, w')"
  shows "demo_hist w' (kc_name c) = demo_hist w (kc_name c) @ [c\<lparr>kc_version := replicate (length w) CHR ''v''\<rparr>]"
  using assms by (auto simp: demo_append_def Let_def demo_hist_def split: if_splits)

lemma demo_write_grows: "demo_write f c w = (r, w') \<Longrightarrow> grows demo_hist w w'"
  by (auto simp: demo_write_def Let_def split: if_splits dest: demo_append_grows)

lemma demo_write_Inr:
  assumes "demo_write f c w = (Inr u, w')" and name: "\<And>old. kc_name old = kc_name c \<Longrightarrow> kc_name (f old c) = kc_name c"
  shows "\<exists>old. kc_version old = kc_version c \<and> appended demo_hist w' (kc_name c) old (f old c)"
proof -
  let ?h = "demo_hist w (kc_name c)"
  have h: "?h \<noteq> []" "kc_version (last ?h) = kc_version c" and app: "demo_append (f (last ?h) c) w = (Inr u, w')"
    using assms(1) by (auto simp: demo_write_def Let_def split: if_splits)
  have "last ?h \<in> set ?h" using h(1) by (rule last_in_set)
  then have "kc_name (last ?h) = kc_name c" by (simp add: demo_hist_def split: if_splits)
  then have "kc_name (f (last ?h) c) = kc_name c" by (rule name)
  with demo_append_Inr [OF app]
  have "demo_hist w' (kc_name c) = ?h @ [(f (last ?h) c)\<lparr>kc_version := replicate (length w) CHR ''v''\<rparr>]" by simp
  also have "\<dots> = butlast ?h @ [last ?h, (f (last ?h) c)\<lparr>kc_version := replicate (length w) CHR ''v''\<rparr>]"
    using append_butlast_last_id [OF h(1)] by (metis append.assoc append_Cons append_Nil)
  finally show ?thesis using h(2) unfolding appended_def by blast
qed

lemma demo_kube_laws: "kube_laws demo_kube demo_hist"
  unfolding kube_laws_def
proof (intro conjI allI impI)
  show "distinct (map kc_version (demo_hist w n))" for w n
    by (simp add: demo_hist_def distinct_map_filter)
next
  fix n w r w' assume "kb_get demo_kube n w = (r, w')"
  then have g: "w' = w" "r = (if demo_hist w n = [] then Inl KubeNotFound else Inr (last (demo_hist w n)))"
    by (auto simp: demo_kube_def)
  show "grows demo_hist w w'" using g by simp
  show "c \<in> set (demo_hist w' n)" "kc_name c = n" if "r = Inr c" for c
  proof -
    show c: "c \<in> set (demo_hist w' n)" using g that by (auto split: if_splits)
    then show "kc_name c = n" by (simp add: demo_hist_def split: if_splits)
  qed
next
  fix c w r w' assume cr: "kb_create demo_kube c w = (r, w')"
  then show "grows demo_hist w w'"
    by (auto simp: demo_kube_def split: if_splits dest: demo_append_grows)
  show "\<exists>v. demo_hist w' (kc_name c) = [c\<lparr>kc_consumers := [], kc_version := v\<rparr>]" if "r = Inr ()"
    using cr that by (auto simp: demo_kube_def split: if_splits dest!: demo_append_Inr)
next
  fix c w r w' assume up: "kb_update demo_kube c w = (r, w')"
  then show "grows demo_hist w w'" by (simp add: demo_kube_def demo_write_grows)
  show "\<exists>old. kc_version old = kc_version c
      \<and> appended demo_hist w' (kc_name c) old (c\<lparr>kc_consumers := kc_consumers old\<rparr>)" if "r = Inr ()"
    using up that by (auto simp: demo_kube_def dest!: demo_write_Inr)
next
  fix c w r w' assume up: "kb_status demo_kube c w = (r, w')"
  then show "grows demo_hist w w'" by (simp add: demo_kube_def demo_write_grows)
  show "\<exists>old. kc_version old = kc_version c
      \<and> appended demo_hist w' (kc_name c) old (old\<lparr>kc_consumers := kc_consumers c\<rparr>)" if "r = Inr ()"
    using up that by (auto simp: demo_kube_def dest!: demo_write_Inr)
qed

lemma demo_fresh_reads: "fresh_reads demo_kube demo_hist"
  unfolding fresh_reads_def
proof (intro allI impI)
  fix n w c w' assume "kb_get demo_kube n w = (Inr c, w')"
  then show "c = last (demo_hist w' n)" by (auto simp: demo_kube_def split: if_splits)
qed

section \<open>Chat input\<close>

lemma create_chat_input_row:
  assumes "create_chat_input e cf now m s = Inr (m', s')"
  shows "\<exists>row. get_msg (m_id m) s' = Some row \<and> m_id m' = m_id m \<and> same_row m' row
    \<and> m_conv row = m_conv m \<and> m_source row = m_source m \<and> m_target row = m_target m \<and> m_dispatch row = m_dispatch m"
proof -
  obtain s1 where sv: "save_message e cf now m True s1 = Inr (m', s')"
    using assms by (auto simp: create_chat_input_def bindR_eq_Inr split: if_splits)
  from save_message_frame(1) [OF sv] obtain x y where
    x: "m' = (written_row now m True)\<lparr>m_content := x\<rparr>" and
    y: "get_msg (m_id m) s' = Some ((written_row now m True)\<lparr>m_content := y\<rparr>)" by blast
  have "same_row m' ((written_row now m True)\<lparr>m_content := y\<rparr>)" unfolding x same_row_def by (rule exI [of _ y]) simp
  then show ?thesis using x y by (auto simp: written_row_def message_defaults_def)
qed

lemma chat_create_stored:
  "case chat_create e cf now K steps conv user target content s w of
     (Inl er, s', w') \<Rightarrow> s' = s \<and> w' = w
   | (Inr m, s', w') \<Rightarrow>
       \<exists>row. get_msg (cm_id m) s' = Some row \<and> m_conv row = conv
         \<and> m_source row = \<lparr>ar_kind = ActorKindUser, ar_key = trim_space user\<rparr>
         \<and> m_target row = target\<lparr>ar_key := trim_space (ar_key target)\<rparr>
         \<and> (m_dispatch row \<or>
             (\<exists>detail. signal e K steps conv (cm_id m) (m_target row) (m_revision row) detail w = (Inr (), w')))"
proof (cases "chat_create e cf now K steps conv user target content s w")
  case (fields r s' w')
  let ?t = "target\<lparr>ar_key := trim_space (ar_key target)\<rparr>" and ?s1 = "draw s"
  let ?in = "chat_input conv (trim_space user) ?t content (fresh_id e s) (fresh_id e ?s1)"
  show ?thesis
  proof (cases r)
    case (Inl er)
    then have "s' = s \<and> w' = w"
      using fields by (auto simp: chat_create_def Let_def split: if_splits sum.splits prod.splits)
    then show ?thesis using fields Inl by simp
  next
    case (Inr cm)
    obtain m s2 q where cr: "create_chat_input e cf now ?in (draw ?s1) = Inr (m, s2)"
      and n: "notify e K steps m s2 w = (q, s', w')" and cm: "cm = message_from_model m"
      using fields Inr
      by (auto simp: chat_create_def Let_def split: if_splits sum.splits prod.splits)
    obtain row where row: "get_msg (m_id m) s2 = Some row" "same_row m row" "m_conv row = conv"
      "m_source row = \<lparr>ar_kind = ActorKindUser, ar_key = trim_space user\<rparr>" "m_target row = ?t" "m_dispatch row"
      using create_chat_input_row [OF cr] by (auto simp: chat_input_def)
    note F = same_row_fields [OF row(2)]
    from notify_effect [OF n] show ?thesis
    proof
      assume "\<exists>er. q = Inl er \<and> s' = s2"
      then show ?thesis using fields Inr cm row by (simp add: message_from_model_def)
    next
      assume q: "q = Inr () \<and> s' = acknowledge_dispatch (m_id m) s2
        \<and> (\<exists>detail. signal e K steps (m_conv m) (m_id m) (m_target m) (m_revision m) detail w = (Inr (), w'))"
      then have "get_msg (m_id m) s' = Some (row\<lparr>m_dispatch := False\<rparr>)"
        using row(1) by (simp add: get_acknowledge_dispatch)
      moreover have "\<exists>detail. signal e K steps conv (m_id m) (m_target row) (m_revision row) detail w = (Inr (), w')"
        using q F row(3) by simp
      ultimately show ?thesis using fields Inr cm row by (simp add: message_from_model_def)
    qed
  qed
qed

end
