(* ===== verification/MessageProps.thy ===== *)
theory MessageProps
  imports ServiceFacts
begin

text \<open>
  The properties of messages: expiry of abandoned output, the projection of output events,
  idempotent publication, and the pages of a message query.
\<close>

section \<open>Expiry\<close>

definition expired_row :: "int \<Rightarrow> store \<Rightarrow> message \<Rightarrow> message \<Rightarrow> bool" where
  "expired_row cutoff s m m' \<longleftrightarrow> m_status m = MessageStatusStreaming \<and> m_updated m \<le> cutoff \<and> \<not> run_owned (m_id m) s
     \<and> (\<exists>b. m' = m\<lparr>m_status := MessageStatusExpired, m_revision := m_revision m + 1, m_dispatch := b\<rparr>)"

lemma expire_one_effect:
  assumes "expire_one cutoff x s = (s1, n)"
  shows "st_runs s1 = st_runs s \<and> (\<forall>i. i \<noteq> xr_id x \<longrightarrow> get_msg i s1 = get_msg i s)
    \<and> ((n = 0 \<and> s1 = s)
       \<or> (n = 1 \<and> (\<exists>m m'. get_msg (xr_id x) s = Some m \<and> get_msg (xr_id x) s1 = Some m' \<and> expired_row cutoff s m m')))"
proof (cases "get_msg (xr_id x) s")
  case None
  then show ?thesis using assms by (simp add: expire_one_def)
next
  case (Some m)
  note id = msgs.find_key [OF Some]
  show ?thesis
    using assms Some id
    by (auto simp: expire_one_def may_expire_def expired_row_def msgs.find_put put_msg_def [symmetric]
        split: if_splits)
qed

lemma expired_twice: "expired_row cutoff s m m' \<Longrightarrow> \<not> expired_row cutoff s2 m' m2"
  by (auto simp: expired_row_def)

definition expired_rows :: "int \<Rightarrow> string list \<Rightarrow> store \<Rightarrow> store \<Rightarrow> bool" where
  "expired_rows cutoff ids s s' \<longleftrightarrow> st_runs s' = st_runs s
     \<and> (\<forall>i. i \<notin> set ids \<longrightarrow> get_msg i s' = get_msg i s)
     \<and> (\<forall>i \<in> set ids. \<exists>m m'. get_msg i s = Some m \<and> get_msg i s' = Some m' \<and> expired_row cutoff s m m')"

lemma expired_rows_cons:
  assumes x: "get_msg i s = Some m" "get_msg i s1 = Some m'" "expired_row cutoff s m m'" "st_runs s1 = st_runs s"
    and other: "\<forall>j. j \<noteq> i \<longrightarrow> get_msg j s1 = get_msg j s"
    and rest: "expired_rows cutoff ids s1 s'"
  shows "expired_rows cutoff (i # ids) s s'"
proof -
  have exp: "expired_row cutoff s1 = expired_row cutoff s"
    using x(4) by (simp add: expired_row_def run_owned_def fun_eq_iff)
  have "i \<notin> set ids"
  proof
    assume "i \<in> set ids"
    then obtain n n' where "get_msg i s1 = Some n" "expired_row cutoff s1 n n'"
      using rest unfolding expired_rows_def by blast
    then show False using x(2,3) expired_twice by fastforce
  qed
  then have "get_msg i s' = Some m'" using rest x(2) by (simp add: expired_rows_def)
  show ?thesis
    unfolding expired_rows_def
  proof (intro conjI allI ballI impI)
    show "st_runs s' = st_runs s" using rest x(4) by (simp add: expired_rows_def)
    show "get_msg j s' = get_msg j s" if "j \<notin> set (i # ids)" for j
      using that other rest by (simp add: expired_rows_def)
    show "\<exists>m m'. get_msg j s = Some m \<and> get_msg j s' = Some m' \<and> expired_row cutoff s m m'" if j: "j \<in> set (i # ids)" for j
    proof (cases "j = i")
      case True
      then show ?thesis using x \<open>get_msg i s' = Some m'\<close> by blast
    next
      case False
      then have "j \<in> set ids" using j by simp
      then obtain n n' where "get_msg j s1 = Some n" "get_msg j s' = Some n'" "expired_row cutoff s1 n n'"
        using rest unfolding expired_rows_def by blast
      then show ?thesis using other False exp by auto
    qed
  qed
qed

lemma expire_rows_effect:
  "expire_rows cutoff xs done s = (ids, s') \<Longrightarrow>
    \<exists>new. ids = done @ new \<and> length new \<le> length xs \<and> expired_rows cutoff new s s'"
proof (induction cutoff xs "done" s rule: expire_rows.induct)
  case (1 cutoff "done" s)
  then show ?case by (simp add: expired_rows_def)
next
  case (2 cutoff x xs "done" s)
  obtain s1 n where x: "expire_one cutoff x s = (s1, n)" by (cases "expire_one cutoff x s")
  note E = expire_one_effect [OF x]
  have E1: "st_runs s1 = st_runs s" "\<forall>j. j \<noteq> xr_id x \<longrightarrow> get_msg j s1 = get_msg j s"
    by (rule conjunct1 [OF E], rule conjunct1 [OF conjunct2 [OF E]])
  let ?done = "if n = 1 then done @ [xr_id x] else done"
  have "\<exists>new. ids = ?done @ new \<and> length new \<le> length xs \<and> expired_rows cutoff new s1 s'"
    using 2 x by simp
  then obtain new where new: "ids = ?done @ new" "length new \<le> length xs" "expired_rows cutoff new s1 s'"
    by blast
  show ?case
  proof (cases "n = 1")
    case False
    then have "s1 = s" using E by blast
    then show ?thesis using new False by (intro exI [of _ new]) simp
  next
    case True
    then obtain m m' where "get_msg (xr_id x) s = Some m" "get_msg (xr_id x) s1 = Some m'" "expired_row cutoff s m m'"
      using E by auto
    then have "expired_rows cutoff (xr_id x # new) s s'"
      using E1 new(3) by (rule expired_rows_cons)
    then show ?thesis using new True by (intro exI [of _ "xr_id x # new"]) simp
  qed
qed

text \<open>
  C12: the sweep expires only abandoned output. It changes at most \<open>limit\<close> messages, those it reports:
  each was streaming, not updated since the cutoff and not the output of a harness run, and it ends
  as expired one revision later with everything else kept. All other messages and the runs stay.
\<close>
theorem sweep_expires_only_abandoned:
  assumes "expire_messages cutoff limit s = (ids, s')"
  shows "length ids \<le> limit \<and> st_runs s' = st_runs s
    \<and> (\<forall>i. i \<notin> set ids \<longrightarrow> get_msg i s' = get_msg i s)
    \<and> (\<forall>i \<in> set ids. \<exists>m b. get_msg i s = Some m \<and> m_status m = MessageStatusStreaming \<and> m_updated m \<le> cutoff
         \<and> \<not> run_owned i s
         \<and> get_msg i s' = Some (m\<lparr>m_status := MessageStatusExpired, m_revision := m_revision m + 1, m_dispatch := b\<rparr>))"
proof -
  obtain new where N: "ids = new" "length new \<le> length (expire_candidates cutoff limit s)" "expired_rows cutoff new s s'"
    using expire_rows_effect [OF assms [unfolded expire_messages_def]] by auto
  have "length (expire_candidates cutoff limit s) \<le> limit" by (simp add: expire_candidates_def)
  moreover have "\<exists>m b. get_msg i s = Some m \<and> m_status m = MessageStatusStreaming \<and> m_updated m \<le> cutoff
         \<and> \<not> run_owned i s
         \<and> get_msg i s' = Some (m\<lparr>m_status := MessageStatusExpired, m_revision := m_revision m + 1, m_dispatch := b\<rparr>)"
    if i: "i \<in> set ids" for i
  proof -
    obtain m m' where g: "get_msg i s = Some m" "get_msg i s' = Some m'" and x: "expired_row cutoff s m m'"
      using N i unfolding expired_rows_def by blast
    show ?thesis using msgs.find_key [OF g(1)] g x by (auto simp: expired_row_def)
  qed
  ultimately show ?thesis using N by (simp add: expired_rows_def)
qed

definition stale_store :: store where
  "stale_store = live_store\<lparr>st_runs := []\<rparr>"

lemma stale_expired: "fst (expire_messages 10 5 stale_store) = [''m1'']"
  by (simp add: expire_messages_def expire_candidates_def may_expire_def stale_store_def live_store_def live_message_def
      new_message_def run_owned_def expire_one_def get_msg_def)

theorem sweep_expires_only_abandoned_witness:
  "\<exists>m. get_msg ''m1'' stale_store = Some m \<and> m_updated m \<le> 10"
proof -
  obtain ids s' where e: "expire_messages 10 5 stale_store = (ids, s')"
    by (cases "expire_messages 10 5 stale_store")
  then show ?thesis using sweep_expires_only_abandoned [OF e] stale_expired by auto
qed

section \<open>Projection\<close>

text \<open>
  C13: an output event is projected at most once and in order. A successful projection either finds the
  event already applied and changes nothing, or its sequence number is the next revision of a message
  that has not ended and is not a run's output; then the message has that revision, its content fits the
  column limit, it ends only at an End event, and every other message is as before.
\<close>
theorem projection_extends_by_one:
  assumes "project_output e cf now i ev statuses s = Inr s'"
  shows "\<exists>m. get_msg i s = Some m \<and> \<not> run_owned i s
    \<and> ((s' = s \<and> ev_seq ev = m_revision m)
       \<or> (ev_seq ev = m_revision m + 1 \<and> \<not> status_terminal (m_status m)
          \<and> (\<exists>m'. get_msg i s' = Some m' \<and> m_revision m' = m_revision m + 1 \<and> c_len (m_content m') \<le> cf_max cf
               \<and> (if ev_op ev = OpEnd then status_terminal (m_status m') else m_status m' = m_status m))
          \<and> (\<forall>j. j \<noteq> i \<longrightarrow> get_msg j s' = get_msg j s) \<and> st_runs s' = st_runs s \<and> st_convs s' = st_convs s))"
proof -
  obtain status where st: "output_status ev statuses = Inr status"
    and pr: "project_event e cf now i ev status False s = Inr s'"
    using assms by (auto simp: project_output_def bindR_eq_Inr)
  have fin: "ev_op ev = OpEnd \<longrightarrow> status_terminal status"
    using st by (auto simp: output_status_def Let_def split: if_splits)
  from project_event_cases [OF pr] obtain m where m: "get_msg i s = Some m" "\<not> run_owned i s"
    and eff: "(s' = s \<and> ev_seq ev = m_revision m) \<or> output_accepted now i ev status (cf_max cf) s s' m"
    by blast
  from eff show ?thesis
  proof
    assume "output_accepted now i ev status (cf_max cf) s s' m"
    then obtain content where acc: "ev_seq ev = m_revision m + 1" "\<not> status_terminal (m_status m)"
      "c_len content \<le> cf_max cf" "get_msg i s' = Some (accept_output now ev status content m)"
      "\<forall>j. j \<noteq> i \<longrightarrow> get_msg j s' = get_msg j s" "st_runs s' = st_runs s" "st_convs s' = st_convs s"
      by (auto simp: output_accepted_def other_tables_def)
    then show ?thesis
      using m fin by (intro exI [of _ m] conjI disjI2 exI [of _ "accept_output now ev status content m"])
        (auto simp: accept_output_def)
  qed (use m in auto)
qed

lemma stale_project: "(case project_output demo_env run_cf 5 ''m1'' (live_event\<lparr>ev_seq := 2\<rparr>) [] stale_store of
    Inr s \<Rightarrow> True | Inl _ \<Rightarrow> False)"
  by code_simp

theorem projection_extends_by_one_witness:
  "\<exists>s' m m'. project_output demo_env run_cf 5 ''m1'' (live_event\<lparr>ev_seq := 2\<rparr>) [] stale_store = Inr s'
     \<and> get_msg ''m1'' stale_store = Some m \<and> get_msg ''m1'' s' = Some m' \<and> m_revision m' = m_revision m + 1"
proof -
  obtain s' where s': "project_output demo_env run_cf 5 ''m1'' (live_event\<lparr>ev_seq := 2\<rparr>) [] stale_store = Inr s'"
    using stale_project by (auto split: sum.splits)
  have "get_msg ''m1'' stale_store = Some live_message"
    by (simp add: stale_store_def live_store_def get_msg_def live_message_def new_message_def)
  then show ?thesis
    using projection_extends_by_one [OF s'] s' by (auto simp: live_message_def)
qed

section \<open>Publication\<close>

lemma tables_ok_later:
  assumes "tables_ok e s" and "st_msgs s' = st_msgs s" and "st_parts s' = st_parts s" and "st_uuid s \<le> st_uuid s'"
  shows "tables_ok e s'"
proof -
  have get: "get_msg i s' = get_msg i s" for i using assms(2) by (simp add: get_msg_def)
  have "message_ok e s' m" if "get_msg i s' = Some m" for i m
  proof -
    have "message_ok e s m" using that assms(1) by (simp add: tables_ok_def get)
    moreover have "group_rows s' (m_id m) k = group_rows s (m_id m) k" for k
      using assms(3) by (simp add: group_rows_def)
    ultimately show ?thesis using message_ok_cong by blast
  qed
  then show ?thesis using assms(1,4) unfolding tables_ok_def get assms(3) by (meson order_trans)
qed

lemma save_message_appends:
  assumes "save_message e cf now m True s = Inr (m', s')"
  shows "\<exists>row. st_msgs s' = st_msgs s @ [row] \<and> get_msg (m_id m) s' = Some row"
proof -
  obtain packed c1 m1 s1 c2 s2 where
    w: "write_row now (m\<lparr>m_content := stored_content cf (m_content m) packed c1\<rparr>) True
       (s\<lparr>st_uuid := mc_uuid c1\<rparr>) = Inr (m1, s1)"
    and s2: "persist e cf c2 s1 = Inr s2" and out: "s' = delete_unkept (m_id m) (save_keys c1) s2"
    by (rule save_message_split [OF assms]) blast
  have ins: "insert_msg m1 (s\<lparr>st_uuid := mc_uuid c1\<rparr>) = Inr s1" "m_id m1 = m_id m"
    using w by (auto simp: write_row_def Let_def bindR_eq_Inr)
  have msgs: "st_msgs s' = st_msgs s1" using persist_frame(1) [OF s2] by (simp add: out delete_unkept_def)
  have "st_msgs s' = st_msgs s @ [m1]" using insert_msg_frame(6) [OF ins(1)] msgs by simp
  moreover have "get_msg (m_id m) s' = Some m1"
    using insert_msg_get [OF ins(1), of "m_id m"] ins(2) msgs by (simp add: get_msg_def)
  ultimately show ?thesis by blast
qed

definition publication_of :: "env \<Rightarrow> string \<Rightarrow> speak_request \<Rightarrow> store \<Rightarrow> message option" where
  "publication_of e conv r s =
     find (\<lambda>m. m_conv m = conv \<and> m_output_key m = Some (speak_key e conv r)) (st_msgs s)"

text \<open>What a successful publication leaves: the row of its key, and the answer a retry reads from it.\<close>

lemma speak_result:
  assumes laws: "ui_laws e" and ok: "tables_ok e s" and run: "speak e cf now conv r s = Inr (m, s1)"
  shows "\<exists>row h. get_conv conv s1 \<noteq> None \<and> publication_of e conv r s1 = Some row
    \<and> m_target row = sr_target r \<and> m_reply_to row = sr_reply_to r \<and> hydrate_message e s1 row = Inr h
    \<and> h\<lparr>m_content := m_content m\<rparr> = m \<and> decode_object (m_content h) = decode_object (m_content m)"
proof -
  obtain cv where cv: "get_conv conv s = Some cv"
    using run unfolding speak_def by (auto simp: bindR_eq_Inr)
  show ?thesis
  proof (cases "publication_of e conv r s")
    case (Some old)
    then have "hydrate_message e s old = Inr m" "s1 = s" "m_target old = sr_target r" "m_reply_to old = sr_reply_to r"
      using run cv by (auto simp: speak_def publication_of_def bindR_eq_Inr split: if_splits)
    then show ?thesis using Some cv by (intro exI [of _ old] exI [of _ m]) simp
  next
    case None
    then obtain s0 where ens: "ensure_participant_conversation e now cv (sr_target r) s = Inr s0"
      and sv: "save_message e cf now (spoken_message e conv r (fresh_id e s0)) True (draw s0) = Inr (m, s1)"
      using run cv by (auto simp: speak_def publication_of_def bindR_eq_Inr)
    note F = ensure_participant_frame [OF ens]
    have ok0: "tables_ok e (draw s0)" by (rule tables_ok_later [OF ok]) (use F in simp_all)
    obtain row h where row: "get_msg (fresh_id e s0) s1 = Some row" "hydrate_message e s1 row = Inr h"
      "h\<lparr>m_content := m_content m\<rparr> = m" "decode_object (m_content h) = decode_object (m_content m)"
      using save_message_reads_back [OF laws ok0 sv] by (auto simp: spoken_message_def)
    have app: "st_msgs s1 = st_msgs s @ [row]"
      using save_message_appends [OF sv] row(1) F(1) by (auto simp: spoken_message_def)
    obtain y where y: "row = (written_row now (spoken_message e conv r (fresh_id e s0)) True)\<lparr>m_content := y\<rparr>"
      using save_message_frame(1) [OF sv] row(1) by (auto simp: spoken_message_def)
    have "m_conv row = conv" "m_output_key row = Some (speak_key e conv r)" "m_target row = sr_target r"
      "m_reply_to row = sr_reply_to r"
      by (simp_all add: y written_row_def message_defaults_def spoken_message_def new_message_def)
    moreover have "publication_of e conv r s1 = Some row"
      using None app calculation by (simp add: publication_of_def find_append)
    moreover have "get_conv conv s1 \<noteq> None"
      using save_message_frame(4) [OF sv] F(6) cv by (auto simp: get_conv_def tbl_find_append)
    ultimately show ?thesis using row by blast
  qed
qed

text \<open>
  C14: a publication happens once. After a successful publication the same request finds the message it
  published, with the same fields and the same decoded content, and writes nothing; a request with the
  same key but another target or another message it answers is a conflict.
\<close>
theorem publication_is_idempotent:
  assumes "ui_laws e" and "tables_ok e s" and "speak e cf now conv r s = Inr (m, s1)"
  shows "(\<exists>m2. speak e cf2 now2 conv r s1 = Inr (m2, s1) \<and> m2\<lparr>m_content := m_content m\<rparr> = m
      \<and> decode_object (m_content m2) = decode_object (m_content m))
    \<and> (\<forall>r2. speak_key e conv r2 = speak_key e conv r
         \<longrightarrow> sr_target r2 \<noteq> sr_target r \<or> sr_reply_to r2 \<noteq> sr_reply_to r
         \<longrightarrow> speak e cf2 now2 conv r2 s1 = Inl ErrConflict)"
proof -
  obtain row h where row: "get_conv conv s1 \<noteq> None" "publication_of e conv r s1 = Some row"
    "m_target row = sr_target r" "m_reply_to row = sr_reply_to r" "hydrate_message e s1 row = Inr h"
    "h\<lparr>m_content := m_content m\<rparr> = m" "decode_object (m_content h) = decode_object (m_content m)"
    using speak_result [OF assms] by blast
  obtain cv where cv: "get_conv conv s1 = Some cv" using row(1) by blast
  have again: "speak e cf2 now2 conv r2 s1 =
      (if m_target row \<noteq> sr_target r2 \<or> m_reply_to row \<noteq> sr_reply_to r2 then Inl ErrConflict
       else bindR (hydrate_message e s1 row) (\<lambda>m. Inr (m, s1)))" if "speak_key e conv r2 = speak_key e conv r" for r2
    using row(2) cv that by (simp add: speak_def publication_of_def mapped_def option_or_def)
  have "speak e cf2 now2 conv r s1 = Inr (h, s1)" using again [of r] row(3-5) by simp
  moreover have "speak e cf2 now2 conv r2 s1 = Inl ErrConflict"
    if "speak_key e conv r2 = speak_key e conv r" "sr_target r2 \<noteq> sr_target r \<or> sr_reply_to r2 \<noteq> sr_reply_to r" for r2
    using again [OF that(1)] that(2) row(3,4) by auto
  ultimately show ?thesis using row(6,7) by blast
qed

definition demo_speech :: speak_request where
  "demo_speech = \<lparr>sr_status = [], sr_key = ''k'', sr_actor = \<lparr>ar_kind = ''operator'', ar_key = ''op''\<rparr>,
     sr_target = no_actor, sr_reply_to = [], sr_content = live_content\<rparr>"

lemma demo_spoken: "(case speak demo_env run_cf 5 ''c1'' demo_speech open_store of Inr _ \<Rightarrow> True | Inl _ \<Rightarrow> False)"
  by code_simp

theorem publication_is_idempotent_witness:
  "\<exists>m s1 m2. speak demo_env run_cf 5 ''c1'' demo_speech open_store = Inr (m, s1)
     \<and> speak demo_env run_cf 9 ''c1'' demo_speech s1 = Inr (m2, s1) \<and> m_id m2 = m_id m"
proof -
  obtain m s1 where run: "speak demo_env run_cf 5 ''c1'' demo_speech open_store = Inr (m, s1)"
    using demo_spoken by (auto split: sum.splits)
  have ok: "tables_ok demo_env open_store"
    by (rule tables_ok_later [OF tables_ok_empty])
      (simp_all add: open_store_def live_store_def empty_store_def)
  obtain m2 where "speak demo_env run_cf 9 ''c1'' demo_speech s1 = Inr (m2, s1)" "m2\<lparr>m_content := m_content m\<rparr> = m"
    using publication_is_idempotent [OF demo_laws ok run] by blast
  moreover from this(2) have "m_id m2 = m_id m" by (auto dest: arg_cong [of _ _ m_id])
  ultimately show ?thesis using run by blast
qed

section \<open>Pages\<close>

text \<open>
  \<open>page_rows\<close> is everything a query matches, in its order, whatever the limit; a client reads it page
  by page, moving the cursor the query's order uses to the last identifier it has seen.
\<close>

definition page_rows :: "string \<Rightarrow> message_query \<Rightarrow> store \<Rightarrow> message list" where
  "page_rows conv q s =
     (let rows = sort_key m_id (filter (\<lambda>m. m_conv m = conv
                   \<and> (mq_ids q \<noteq> [] \<longrightarrow> m_id m \<in> set (mq_ids q))
                   \<and> (mq_after q \<noteq> [] \<longrightarrow> mq_after q < m_id m)
                   \<and> (mq_before q \<noteq> [] \<longrightarrow> m_id m < mq_before q)
                   \<and> (mq_statuses q \<noteq> [] \<longrightarrow> m_status m \<in> set (mq_statuses q))) (st_msgs s))
      in if mq_order q = ''desc'' then rev rows else rows)"

definition page_order :: "message_query \<Rightarrow> string \<Rightarrow> string \<Rightarrow> bool" where
  "page_order q i j \<longleftrightarrow> (if mq_order q = ''desc'' then j < i else i < j)"

definition query_from :: "string \<Rightarrow> message_query \<Rightarrow> message_query" where
  "query_from i q = (if mq_order q = ''desc'' then q\<lparr>mq_before := i\<rparr> else q\<lparr>mq_after := i\<rparr>)"

fun read_pages :: "nat \<Rightarrow> string \<Rightarrow> message_query \<Rightarrow> store \<Rightarrow> message_info list option" where
  "read_pages 0 conv q s = None"
| "read_pages (Suc n) conv q s =
     (case query_page conv q s of
        Inl _ \<Rightarrow> None
      | Inr p \<Rightarrow> if mp_next p = [] then Some (mp_data p)
          else map_option ((@) (mp_data p)) (read_pages n conv (query_from (mp_next p) q) s))"

definition query_ok :: "message_query \<Rightarrow> bool" where
  "query_ok q \<longleftrightarrow> length (mq_ids q) \<le> max_page_size \<and> mq_order q \<in> {[], ''asc'', ''desc''}
     \<and> list_all status_known (mq_statuses q)"

lemma query_messages_rows:
  "query_messages conv (q\<lparr>mq_limit := int n\<rparr>) s = map no_content (take n (page_rows conv q s))"
  by (simp add: query_messages_def page_rows_def Let_def asc_limit_def desc_limit_def)

lemma query_page_rows:
  assumes "query_ok q"
  shows "query_page conv q s =
    Inr \<lparr>mp_data = map (info \<circ> message_from_model) (take (page_size (mq_limit q)) (page_rows conv q s)),
         mp_next = (if page_size (mq_limit q) < length (page_rows conv q s)
                    then m_id (page_rows conv q s ! (page_size (mq_limit q) - 1)) else [])\<rparr>"
proof -
  let ?p = "page_size (mq_limit q)" and ?L = "page_rows conv q s"
  have "query_messages conv (q\<lparr>mq_limit := int ?p + 1\<rparr>) s = map no_content (take (Suc ?p) ?L)"
    using query_messages_rows [of conv "Suc ?p" q s] by (simp add: add.commute)
  moreover have "(info \<circ> message_from_model) (no_content m) = (info \<circ> message_from_model) m" for m
    by (simp add: info_def message_from_model_def no_content_def)
  moreover have "m_id (last (take ?p (map no_content (take (Suc ?p) ?L)))) = m_id (?L ! (?p - 1))" if "?p < length ?L"
    using page_size_pos [of "mq_limit q"] that
    by (subst last_conv_nth) (auto simp: no_content_def take_map min_def)
  ultimately show ?thesis
    using assms by (simp add: query_page_def query_ok_def Let_def not_less take_map comp_def min_def)
qed

lemma page_rows_sorted:
  assumes "ids_ok s"
  shows "sorted_wrt (page_order q) (map m_id (page_rows conv q s))"
proof -
  have asc: "sorted_wrt (<) (map m_id (sort_key m_id (filter P (st_msgs s))))" for P
    using assms by (simp add: ids_ok_def strict_sorted_iff distinct_map inj_on_def)
  show ?thesis
  proof (cases "mq_order q = ''desc''")
    case True
    then have "page_order q = (\<lambda>i j. j < i)" by (simp add: page_order_def fun_eq_iff)
    then show ?thesis using asc True by (simp add: page_rows_def Let_def rev_map [symmetric] sorted_wrt_rev)
  next
    case False
    then have "page_order q = (<)" by (simp add: page_order_def fun_eq_iff)
    then show ?thesis using asc False by (simp add: page_rows_def Let_def)
  qed
qed

lemma drop_by_order:
  assumes "sorted_wrt R (map f xs)" and "0 < k" and "k \<le> length xs" and "\<forall>a b. R a b \<longrightarrow> \<not> R b a"
  shows "filter (\<lambda>x. R (f (xs ! (k - 1))) (f x)) xs = drop k xs"
proof -
  let ?y = "f (xs ! (k - 1))"
  have "\<not> R ?y (f x)" if x: "x \<in> set (take k xs)" for x
  proof -
    obtain i where i: "i < k" "i < length xs" "x = xs ! i" using x by (auto simp: in_set_conv_nth)
    have "R (f x) ?y" if "i < k - 1"
      using sorted_wrt_nth_less [OF assms(1) that] assms(2,3) i by simp
    moreover have "i < k - 1 \<or> i = k - 1" using i(1) assms(2) by linarith
    ultimately show ?thesis using assms(4) i by blast
  qed
  moreover have "R ?y (f x)" if x: "x \<in> set (drop k xs)" for x
  proof -
    obtain i where "i < length xs - k" "x = xs ! (k + i)" using x by (auto simp: in_set_conv_nth)
    then show ?thesis using sorted_wrt_nth_less [OF assms(1), of "k - 1" "k + i"] assms(2,3) by auto
  qed
  ultimately have "filter (\<lambda>x. R ?y (f x)) (take k xs @ drop k xs) = drop k xs"
    unfolding filter_append by (simp add: filter_id_conv filter_empty_conv)
  then show ?thesis by simp
qed

lemma page_rows_from:
  assumes "ids_ok s" and "m \<in> set (page_rows conv q s)"
  shows "page_rows conv (query_from (m_id m) q) s = filter (\<lambda>x. page_order q (m_id m) (m_id x)) (page_rows conv q s)"
proof -
  have ne: "m_id m \<noteq> []" and m: "mq_after q \<noteq> [] \<longrightarrow> mq_after q < m_id m" "mq_before q \<noteq> [] \<longrightarrow> m_id m < mq_before q"
    using assms by (auto simp: page_rows_def ids_ok_def Let_def split: if_splits)
  show ?thesis
    using ne m by (auto simp: page_rows_def query_from_def page_order_def Let_def filter_sort [symmetric] rev_filter [symmetric]
        intro!: arg_cong [where f = "sort_key m_id"] filter_cong intro: less_trans)
qed

text \<open>
  C15: the pages of a query are complete. Reading page after page, a client gets every matching message
  exactly once, in the query's order, in at most one page more than there are messages, and no page
  is longer than the limit.
\<close>
theorem pages_are_complete:
  assumes "query_ok q" and "ids_ok s" and "length (page_rows conv q s) < n"
  shows "read_pages n conv q s = Some (map (info \<circ> message_from_model) (page_rows conv q s))
    \<and> (\<forall>p. query_page conv q s = Inr p \<longrightarrow> length (mp_data p) \<le> page_size (mq_limit q))"
proof
  show "read_pages n conv q s = Some (map (info \<circ> message_from_model) (page_rows conv q s))"
    using assms(1,3)
  proof (induction n arbitrary: q)
    case (Suc n)
    let ?p = "page_size (mq_limit q)" and ?L = "page_rows conv q s"
    note Q = query_page_rows [OF Suc.prems(1), of conv s]
    show ?case
    proof (cases "?p < length ?L")
      case False
      then show ?thesis using Q by simp
    next
      case True
      let ?m = "?L ! (?p - 1)"
      have mem: "?m \<in> set ?L" using True page_size_pos [of "mq_limit q"] by (intro nth_mem) simp
      then have ne: "m_id ?m \<noteq> []"
        using assms(2) by (auto simp: page_rows_def ids_ok_def Let_def split: if_splits)
      have rest: "page_rows conv (query_from (m_id ?m) q) s = drop ?p ?L"
        unfolding page_rows_from [OF assms(2) mem]
        by (rule drop_by_order [OF page_rows_sorted [OF assms(2)]])
          (use True page_size_pos [of "mq_limit q"] in \<open>auto simp: page_order_def\<close>)
      have "read_pages n conv (query_from (m_id ?m) q) s
          = Some (map (info \<circ> message_from_model) (page_rows conv (query_from (m_id ?m) q) s))"
      proof (rule Suc.IH)
        show "query_ok (query_from (m_id ?m) q)" using Suc.prems(1) by (auto simp: query_ok_def query_from_def)
        show "length (page_rows conv (query_from (m_id ?m) q) s) < n"
          unfolding rest length_drop using Suc.prems(2) page_size_pos [of "mq_limit q"] True by linarith
      qed
      then have "read_pages (Suc n) conv q s
          = Some (map (info \<circ> message_from_model) (take ?p ?L) @ map (info \<circ> message_from_model) (drop ?p ?L))"
        unfolding rest using Q True ne by simp
      then show ?thesis by (simp only: map_append [symmetric] append_take_drop_id)
    qed
  qed simp
  show "\<forall>p. query_page conv q s = Inr p \<longrightarrow> length (mp_data p) \<le> page_size (mq_limit q)"
    using query_page_rows [OF assms(1), of conv s] by auto
qed

theorem pages_are_complete_witness:
  "read_pages 3 ''c'' \<lparr>mq_ids = [], mq_before = [], mq_after = [], mq_order = ''desc'', mq_limit = 1, mq_statuses = []\<rparr>
     (empty_store\<lparr>st_msgs := [new_message\<lparr>m_id := ''a'', m_conv := ''c''\<rparr>, new_message\<lparr>m_id := ''b'', m_conv := ''c''\<rparr>]\<rparr>)
   = Some [info (message_from_model (new_message\<lparr>m_id := ''b'', m_conv := ''c''\<rparr>)),
           info (message_from_model (new_message\<lparr>m_id := ''a'', m_conv := ''c''\<rparr>))]"
  using pages_are_complete [of "\<lparr>mq_ids = [], mq_before = [], mq_after = [], mq_order = ''desc'', mq_limit = 1, mq_statuses = []\<rparr>"
      "empty_store\<lparr>st_msgs := [new_message\<lparr>m_id := ''a'', m_conv := ''c''\<rparr>, new_message\<lparr>m_id := ''b'', m_conv := ''c''\<rparr>]\<rparr>" "''c''" 3]
  by (simp add: query_ok_def ids_ok_def page_rows_def new_message_def max_page_size_def)

end
