(* ===== verification/ServiceProps.thy ===== *)
theory ServiceProps
  imports ServiceFacts
begin

text \<open>
  The properties of the services: emission and the event bridge, chat input and notifications,
  polling and committing against a concurrent cluster.
\<close>

section \<open>Emission\<close>

text \<open>
  The specification of \<^verbatim>\<open>EmitMessage\<close>: what the database holds and whether the caller sees an error,
  without any bridge.
\<close>

definition emit_spec ::
    "env \<Rightarrow> config \<Rightarrow> int \<Rightarrow> string \<Rightarrow> content \<Rightarrow> string list \<Rightarrow> store \<Rightarrow> err option \<times> store" where
  "emit_spec e cf now i data statuses s =
     (case accept_emit e i data statuses s of
        Inl er \<Rightarrow> (Some er, s)
      | Inr None \<Rightarrow> (None, s)
      | Inr (Some (ev, st)) \<Rightarrow>
          (case project_output e cf now i ev [st] s of Inl er \<Rightarrow> (Some er, s) | Inr s1 \<Rightarrow> (None, s1)))"

definition seen_error :: "'a result \<Rightarrow> err option" where
  "seen_error r = (case r of Inl er \<Rightarrow> Some er | Inr _ \<Rightarrow> None)"

lemma project_output_found:
  assumes "project_output e cf now i ev sts s = Inr s'"
  shows "get_msg i s' \<noteq> None"
proof -
  obtain st where "project_event e cf now i ev st False s = Inr s'"
    using assms by (auto simp: project_output_def bindR_eq_Inr)
  from project_event_cases [OF this] show ?thesis by (auto simp: output_accepted_def)
qed

text \<open>
  C16: a failing, slow or lost event bridge never changes what is stored or what the producer is told:
  whatever the bridge answers, emitting has the effect and the error of its specification.
\<close>
theorem emission_refines_spec:
  "case emit_message e cf now B i data statuses s b of
     (r, s', b') \<Rightarrow> (seen_error r, s') = emit_spec e cf now i data statuses s"
proof (cases "accept_emit e i data statuses s")
  case (Inl er)
  then show ?thesis by (simp add: emit_message_def emit_spec_def seen_error_def)
next
  case (Inr acc)
  show ?thesis
  proof (cases acc)
    case None
    then show ?thesis using Inr by (simp add: emit_message_def emit_spec_def seen_error_def)
  next
    case (Some x)
    obtain ev st where x: "x = (ev, st)" by (cases x)
    show ?thesis
    proof (cases "project_output e cf now i ev [st] s")
      case (Inl er)
      then show ?thesis using Inr Some x by (simp add: emit_message_def emit_spec_def seen_error_def)
    next
      case projected: (Inr s1)
      obtain m where "get_message_state i s1 = Inr m"
        using project_output_found [OF projected] by (auto simp: get_message_state_def)
      moreover obtain y b1 where "publish_event e B s1 m ev b = (y, b1)" by (cases "publish_event e B s1 m ev b")
      ultimately show ?thesis
        using Inr Some x projected
        by (cases y) (simp_all add: emit_message_def emit_spec_def seen_error_def)
    qed
  qed
qed

section \<open>Chat input and notifications\<close>

text \<open>
  C17: an accepted chat input is stored before anybody is notified and the notification is never lost:
  the input is in the database as the user's message to its target, and it stays marked for
  dispatch unless its signal succeeded. A rejected input changes nothing.
\<close>
theorem chat_input_stored_and_pending:
  "case chat_create e cf now K steps conv user target content s w of
     (Inl er, s', w') \<Rightarrow> s' = s \<and> w' = w
   | (Inr m, s', w') \<Rightarrow>
       \<exists>row. get_msg (cm_id m) s' = Some row \<and> m_conv row = conv
         \<and> m_source row = \<lparr>ar_kind = ActorKindUser, ar_key = trim_space user\<rparr>
         \<and> m_target row = target\<lparr>ar_key := trim_space (ar_key target)\<rparr>
         \<and> (m_dispatch row \<or>
             (\<exists>detail. signal e K steps conv (cm_id m) (m_target row) (m_revision row) detail w = (Inr (), w')))"
  by (rule chat_create_stored)

lemma pending_rows:
  assumes "pending_dispatches e n s = Inr rows"
  shows "map m_id rows = map m_id (asc_limit m_id n (filter m_dispatch (st_msgs s)))"
    "h \<in> set rows \<Longrightarrow> \<exists>m \<in> set (st_msgs s). same_row m h"
proof -
  have r: "read_messages e s (asc_limit m_id n (filter m_dispatch (st_msgs s))) = Inr rows"
    using assms by (simp add: pending_dispatches_def)
  show "map m_id rows = map m_id (asc_limit m_id n (filter m_dispatch (st_msgs s)))"
    by (rule read_messages_ids [OF r])
  show "\<exists>m \<in> set (st_msgs s). same_row m h" if h: "h \<in> set rows"
  proof -
    obtain m where m: "m \<in> set (asc_limit m_id n (filter m_dispatch (st_msgs s)))" "same_row m h"
      by (rule read_messages_mem [OF r h])
    then have "m \<in> set (st_msgs s)" by (auto simp: asc_limit_def dest!: in_set_takeD)
    then show ?thesis using m(2) by blast
  qed
qed

lemma distinct_get_msg:
  assumes "distinct (map m_id (st_msgs s))" and "m \<in> set (st_msgs s)"
  shows "get_msg (m_id m) s = Some m"
  using assms by (simp add: get_msg_def tbl_find_distinct)

text \<open>
  C18: maintenance loses no notification. A pass that can read the marked messages makes one call for each of
  the first 500 by identifier, in that order and each on the cluster the one before left, with the message's own
  conversation, target and revision; the failures it reports are those of the calls, in order; and it
  changes nothing in the database but the mark of each message whose call, in this pass, succeeded, which
  it clears. So a pass without failures clears every mark when there are at most 500. A pass that cannot read them
  reports that and changes nothing.
\<close>
theorem maintenance_loses_nothing:
  assumes "poll_maintain e K steps s w = (fs, s', w')" and "distinct (map m_id (st_msgs s))"
  shows "case pending_dispatches e max_page_size s of
      Inl er \<Rightarrow> fs = [er] \<and> s' = s \<and> w' = w
    | Inr rows \<Rightarrow>
        map m_id rows = map m_id (asc_limit m_id max_page_size (filter m_dispatch (st_msgs s)))
      \<and> (\<forall>h \<in> set rows. \<exists>m. get_msg (m_id h) s = Some m \<and> m_conv h = m_conv m \<and> m_target h = m_target m
            \<and> m_revision h = m_revision m)
      \<and> (\<exists>calls. map fst calls = rows \<and> chained w calls w'
          \<and> (\<forall>(m, a, r, b) \<in> set calls.
               (case participant_conversation (m_conv m) (m_target m) s of
                  Inl er \<Rightarrow> (Inl er, a)
                | Inr detail \<Rightarrow> signal e K steps (m_conv m) (m_id m) (m_target m) (m_revision m) detail a) = (r, b))
          \<and> fs = concat (map (\<lambda>(m, a, r, b). case r of Inl er \<Rightarrow> [er] | Inr _ \<Rightarrow> []) calls)
          \<and> (\<forall>i. get_msg i s' = map_option (\<lambda>m. m\<lparr>m_dispatch :=
               m_dispatch m \<and> (\<forall>(h, a, r, b) \<in> set calls. m_id h = i \<longrightarrow> r \<noteq> Inr ())\<rparr>) (get_msg i s)))
      \<and> (fs = [] \<longrightarrow> length (filter m_dispatch (st_msgs s)) \<le> max_page_size
           \<longrightarrow> (\<forall>i m. get_msg i s' = Some m \<longrightarrow> \<not> m_dispatch m))"
proof (cases "pending_dispatches e max_page_size s")
  case (Inl er)
  then show ?thesis using assms(1) by (simp add: poll_maintain_def)
next
  case (Inr rows)
  then have "notify_all e K steps rows [] s w = (fs, s', w')" using assms(1) by (simp add: poll_maintain_def)
  from notify_all_calls [OF this] obtain calls where
    c: "map fst calls = rows" "chained w calls w'" "\<forall>x \<in> set calls. asked e K steps s x"
      "fs = call_failures calls" "s' = acknowledged (call_successes calls) s" by auto
  note rows = pending_rows [OF Inr]
  have fields: "\<exists>m. get_msg (m_id h) s = Some m \<and> m_conv h = m_conv m \<and> m_target h = m_target m \<and> m_revision h = m_revision m"
    if h: "h \<in> set rows" for h
  proof -
    obtain m0 where m0: "m0 \<in> set (st_msgs s)" "same_row m0 h" using rows(2) [OF h] by blast
    then show ?thesis using distinct_get_msg [OF assms(2) m0(1)] same_row_fields [OF m0(2)] by auto
  qed
  have told: "i \<in> m_id ` set (call_successes calls) \<longleftrightarrow> \<not> (\<forall>(h, a, r, b) \<in> set calls. m_id h = i \<longrightarrow> r \<noteq> Inr ())" for i
    by (force simp: call_successes_def)
  have marked: "m_dispatch m" if "h \<in> set rows" "get_msg (m_id h) s = Some m" for h m
  proof -
    have "m_id h \<in> m_id ` set (asc_limit m_id max_page_size (filter m_dispatch (st_msgs s)))"
      using that(1) rows(1) by (metis image_eqI list.set_map)
    then obtain x where "x \<in> set (st_msgs s)" "m_dispatch x" "m_id x = m_id h"
      by (auto simp: asc_limit_def dest!: in_set_takeD)
    then show ?thesis using distinct_get_msg [OF assms(2)] that(2) by fastforce
  qed
  have eff: "get_msg i s' = map_option (\<lambda>m. m\<lparr>m_dispatch :=
      m_dispatch m \<and> (\<forall>(h, a, r, b) \<in> set calls. m_id h = i \<longrightarrow> r \<noteq> Inr ())\<rparr>) (get_msg i s)" for i
  proof (cases "i \<in> m_id ` set (call_successes calls)")
    case True
    then show ?thesis using told [of i] unfolding c(5) get_acknowledged by (cases "get_msg i s") simp_all
  next
    case False
    then show ?thesis using told [of i] unfolding c(5) get_acknowledged by (cases "get_msg i s") simp_all
  qed
  have clear: "\<not> m_dispatch m'" if none: "fs = []" "length (filter m_dispatch (st_msgs s)) \<le> max_page_size"
    and m': "get_msg i s' = Some m'" for i m'
  proof -
    obtain m where m: "get_msg i s = Some m" using m' eff [of i] by (cases "get_msg i s") auto
    have mem: "m \<in> set (st_msgs s)" "m_id m = i"
      using m msgs.find_key [OF m] by (auto simp: get_msg_def dest: tbl_find_mem)
    have "\<exists>(h, a, r, b) \<in> set calls. m_id h = i \<and> r = Inr ()" if "m_dispatch m"
    proof -
      have "m_id ` set rows = m_id ` set (filter m_dispatch (st_msgs s))"
        using rows(1) none(2) by (metis asc_limit_def length_sort list.set_map set_sort take_all)
      then have "i \<in> m_id ` fst ` set calls" using mem that c(1) by (force simp: image_iff)
      then obtain h a r b where h: "(h, a, r, b) \<in> set calls" "m_id h = i" by auto
      have "(case r of Inl er \<Rightarrow> [er] | Inr _ \<Rightarrow> []) = []"
        using none(1) c(4) h(1) by (auto simp: call_failures_def)
      then have "r = Inr ()" by (cases r) auto
      then show ?thesis using h by blast
    qed
    then show ?thesis using m' eff [of i] m by fastforce
  qed
  have each: "\<forall>(m, a, r, b) \<in> set calls.
      (case participant_conversation (m_conv m) (m_target m) s of
         Inl er \<Rightarrow> (Inl er, a)
       | Inr detail \<Rightarrow> signal e K steps (m_conv m) (m_id m) (m_target m) (m_revision m) detail a) = (r, b)"
    using c(3) by (auto simp: asked_def)
  show ?thesis
    unfolding Inr sum.case
    using rows(1) fields clear c(1,2) each c(4) [unfolded call_failures_def] eff by blast
qed

definition pending_store :: store where
  "pending_store = live_store\<lparr>st_runs := [], st_msgs := [live_message\<lparr>m_dispatch := True\<rparr>]\<rparr>"

lemma demo_maintain: "fst (poll_maintain demo_env demo_kube 3 pending_store []) = []"
  by code_simp

theorem maintenance_loses_nothing_witness:
  "\<exists>detail w'. signal demo_env demo_kube 3 ''c1'' ''m1'' no_actor 1 detail [] = (Inr (), w')"
proof -
  let ?m = "live_message\<lparr>m_dispatch := True\<rparr>"
  obtain fs s' w' where run: "poll_maintain demo_env demo_kube 3 pending_store [] = (fs, s', w')"
    by (rule prod_cases3)
  have g: "get_msg ''m1'' pending_store = Some ?m" "distinct (map m_id (st_msgs pending_store))"
    "filter m_dispatch (st_msgs pending_store) = [?m]"
    by (simp_all add: pending_store_def get_msg_def live_message_def)
  have fs: "fs = []" using demo_maintain run by simp
  then obtain rows where rows: "pending_dispatches demo_env max_page_size pending_store = Inr rows"
    using run by (cases "pending_dispatches demo_env max_page_size pending_store") (auto simp: poll_maintain_def)
  note T = maintenance_loses_nothing [OF run g(2), unfolded rows sum.case g(3)]
  have "map m_id rows = [''m1'']"
    using T by (simp add: asc_limit_def max_page_size_def live_message_def)
  then obtain h where h: "rows = [h]" "m_id h = ''m1''" by (auto simp: map_eq_Cons_conv)
  then have hf: "m_conv h = ''c1''" "m_target h = no_actor" "m_revision h = 1"
    using T g(1) by (auto simp: live_message_def new_message_def)
  obtain calls where c: "map fst calls = rows" "chained [] calls w'"
    "\<forall>(m, a, r, b) \<in> set calls.
       (case participant_conversation (m_conv m) (m_target m) pending_store of
          Inl er \<Rightarrow> (Inl er, a)
        | Inr detail \<Rightarrow> signal demo_env demo_kube 3 (m_conv m) (m_id m) (m_target m) (m_revision m) detail a) = (r, b)"
    "fs = concat (map (\<lambda>(m, a, r, b). case r of Inl er \<Rightarrow> [er] | Inr _ \<Rightarrow> []) calls)"
    using T by blast
  obtain a r b where calls: "calls = [(h, a, r, b)]" using c(1) h(1) by (cases calls) auto
  have "r = Inr ()" using c(4) fs calls by (cases r) auto
  then show ?thesis using c(2,3) calls h(2) hf by (auto split: sum.splits)
qed

section \<open>Polling and committing\<close>

text \<open>
  C19: a poll delivers the next messages without a gap. Against any concurrent clients the batch starts
  after the committed position of one stored state of the conversation (or after the caller's own
  position if that is further), is in order, contains every message for the actor up to the
  returned position, and that position is recorded as received in the state that follows;
  an empty batch means that nothing is waiting.
\<close>
theorem poll_delivers_without_gap:
  assumes "kube_laws K hist" and "svc_poll e K steps conv r s w = (Inr x, w')"
  shows "\<exists>c \<in> set (hist w' conv). \<exists>start. start = poll_start (pr_actor r) (pr_after r) c
    \<and> find_participant (pr_actor r) c \<noteq> None
    \<and> sorted_wrt (<) (start # map cm_id (po_messages x)) \<and> length (po_messages x) \<le> page_size (pr_limit r)
    \<and> (\<forall>m \<in> set (st_msgs s). m_conv m = conv \<and> addressed (pr_actor r) m \<and> start < m_id m
          \<longrightarrow> po_messages x \<noteq> [] \<and> (m_id m \<le> po_position x \<longrightarrow> m_id m \<in> cm_id ` set (po_messages x)))
    \<and> (if po_messages x = [] then po_position x = start
       else po_position x = cm_id (last (po_messages x))
         \<and> appended hist w' conv c (record_receipt (pr_actor r) (po_position x) c))"
proof -
  let ?a = "pr_actor r"
  let ?rd = "\<lambda>after. bindR (list_inbox e conv ?a after (page_size (pr_limit r)) s) (\<lambda>rows. Inr (map message_from_model rows))"
  have "poll K steps conv ?a (pr_after r) ?rd w = (Inr x, w')"
    using assms(2) by (auto simp: svc_poll_def split: if_splits sum.splits prod.splits)
  from poll_synced [OF assms(1) this] obtain c where c: "c \<in> set (hist w' conv)" "find_participant ?a c \<noteq> None"
    "?rd (poll_start ?a (pr_after r) c) = Inr (po_messages x)"
    and pos: "if po_messages x = [] then po_position x = poll_start ?a (pr_after r) c
        else batch_end conv ?a (poll_start ?a (pr_after r) c) (po_messages x) = Some (po_position x)
          \<and> appended hist w' conv c (record_receipt ?a (po_position x) c)"
    by blast
  let ?start = "poll_start ?a (pr_after r) c"
  let ?n = "page_size (pr_limit r)" and ?L = "sort_key m_id (inbox_rows conv ?a ?start s)"
  obtain rows where rows: "read_messages e s (take ?n ?L) = Inr rows" "po_messages x = map message_from_model rows"
    using c(3) by (auto simp: list_inbox_def bindR_eq_Inr asc_limit_def)
  have "map cm_id (po_messages x) = map m_id rows"
    by (simp add: rows(2) message_from_model_def)
  then have ids: "map cm_id (po_messages x) = map m_id (take ?n ?L)"
    unfolding read_messages_ids [OF rows(1)] .
  then have idset: "cm_id ` set (po_messages x) = m_id ` set (take ?n ?L)" and
    len: "length (po_messages x) = length (take ?n ?L)"
    by (metis list.set_map, metis length_map)
  have order: "sorted_wrt (<) (?start # map cm_id (po_messages x))"
    using pos batch_end_Some(1) by (cases "po_messages x = []") auto
  have nogap: "po_messages x \<noteq> [] \<and> (m_id m \<le> po_position x \<longrightarrow> m_id m \<in> cm_id ` set (po_messages x))"
    if m: "m \<in> set (st_msgs s)" "m_conv m = conv \<and> addressed ?a m \<and> ?start < m_id m" for m
  proof -
    have mem: "m \<in> set ?L" using m by (simp add: inbox_rows_def)
    then have "?L \<noteq> []" by (metis empty_iff empty_set)
    then have ne: "take ?n ?L \<noteq> []" using page_size_pos [of "pr_limit r"] by (simp only: take_eq_Nil) auto
    then have some: "po_messages x \<noteq> []" using len by (metis length_0_conv)
    then have "po_position x = cm_id (last (po_messages x))" using pos batch_end_Some(3) by fastforce
    also have "\<dots> = last (map m_id (take ?n ?L))" using some ids by (metis last_map)
    also have "\<dots> = m_id (last (take ?n ?L))" using ne by (simp add: last_map)
    finally have "m_id m \<le> po_position x \<longrightarrow> m_id m \<in> m_id ` set (take ?n ?L)"
      using sorted_prefix_closed [OF sorted_sort_key ne mem] by simp
    then show ?thesis using some idset by simp
  qed
  have "if po_messages x = [] then po_position x = ?start
       else po_position x = cm_id (last (po_messages x)) \<and> appended hist w' conv c (record_receipt ?a (po_position x) c)"
    using pos batch_end_Some(3) by (auto split: if_splits)
  moreover have "length (po_messages x) \<le> ?n" using len by simp
  ultimately show ?thesis using c(1,2) order nogap by blast
qed

lemma commit_consumers_None:
  "commit_consumers a t ns = Inr None \<Longrightarrow> \<exists>n. find (\<lambda>n. cn_actor n = a) ns = Some n \<and> t \<le> cn_committed n"
  by (induction a t ns rule: commit_consumers.induct) (auto simp: bindR_eq_Inr split: if_splits)

text \<open>
  A commit never passes what was received. After a successful commit some stored state has the
  actor committed at least to the requested message; if the commit wrote, it moved only the
  actor's committed position, from an earlier one, up to at most its received position.
\<close>
theorem commit_within_received:
  assumes "kube_laws K hist" and "svc_commit K steps conv r w = (Inr (), w')"
  shows "\<exists>c \<in> set (hist w' conv). cr_through r \<le> committed (cr_actor r) c
      \<or> (\<exists>c'. appended hist w' conv c c' \<and> committed (cr_actor r) c < cr_through r
          \<and> cr_through r \<le> position (cr_actor r) c \<and> committed (cr_actor r) c' = cr_through r
          \<and> (\<forall>b. position b c' = position b c \<and> end_offset b c' = end_offset b c
               \<and> (b \<noteq> cr_actor r \<longrightarrow> committed b c' = committed b c)))"
proof -
  have "commit K steps conv r w = (Inr (), w')"
    using assms(2) by (auto simp: svc_commit_def split: prod.splits sum.splits)
  from commit_synced [OF assms(1) this] obtain c where c: "c \<in> set (hist w' conv)"
    and eff: "commit_object (cr_actor r) (cr_through r) c = Inr None
      \<or> (\<exists>c'. commit_object (cr_actor r) (cr_through r) c = Inr (Some c') \<and> appended hist w' conv c c')" by blast
  from eff show ?thesis
  proof
    assume "commit_object (cr_actor r) (cr_through r) c = Inr None"
    then have "commit_consumers (cr_actor r) (cr_through r) (kc_consumers c) = Inr None"
      by (auto simp: commit_object_def bindR_eq_Inr)
    from commit_consumers_None [OF this] have "cr_through r \<le> committed (cr_actor r) c"
      by (auto simp: committed_def find_consumer_def)
    then show ?thesis using c by blast
  next
    assume "\<exists>c'. commit_object (cr_actor r) (cr_through r) c = Inr (Some c') \<and> appended hist w' conv c c'"
    then obtain c' where c': "commit_object (cr_actor r) (cr_through r) c = Inr (Some c')" "appended hist w' conv c c'"
      by blast
    note E = commit_object_effect [OF c'(1)]
    have "end_offset b c' = end_offset b c" for b
      using E(6) by (simp add: end_offset_def find_participant_def)
    then show ?thesis using c c'(2) E by blast
  qed
qed

text \<open>
  C20: a signal that succeeded is in the cluster and can wake its readers. However often it was retried
  against concurrent writers, the state the API server holds of the conversation when the call returns
  has the target as a participant, if there is one, and for every recipient (the target, or every
  participant of a broadcast) its end offset at or past the message, its wake annotation set to this
  message and revision, so that a new revision of a message already announced still changes what the
  reader watches, and its own conversation when one is given. The client reads the API server itself, as
  \<^verbatim>\<open>NewConversationClient\<close> requires.
\<close>
theorem signal_reaches_recipients:
  assumes "kube_laws K hist" and "fresh_reads K hist"
    and "signal e K steps conv i t revn d w = (Inr (), w')"
  shows "hist w' conv \<noteq> [] \<and> (let c = last (hist w' conv) in
    (t \<noteq> no_actor \<longrightarrow> find_participant t c \<noteq> None)
  \<and> (\<forall>a p. find_participant a c = Some p \<longrightarrow> t = no_actor \<or> a = t \<longrightarrow>
        i \<le> pt_end p \<and> wake e a c = signal_stamp i revn
      \<and> (t \<noteq> no_actor \<and> d \<noteq> [] \<longrightarrow> pt_conv p = d)))"
proof -
  have "hist w' conv \<noteq> []" "announced e i revn t d (last (hist w' conv))"
    using signal_current [OF assms] by blast+
  then show ?thesis unfolding announced_def Let_def by blast
qed

text \<open>
  C21: no cursor ever moves back and nothing is committed that was not received: whatever signals, polls
  and commits follow, an actor's committed and received positions only grow, and from a new
  conversation the committed one never passes the received one.
\<close>
theorem cursors_only_advance:
  assumes "(conv_step e)\<^sup>*\<^sup>* c c'"
  shows "committed a c \<le> committed a c' \<and> position a c \<le> position a c'
    \<and> (committed a c \<le> position a c \<longrightarrow> committed a c' \<le> position a c')"
  using cursors.run_mono [OF assms] cursors.run_bound [OF assms] by blast

section \<open>A conversation with one operator\<close>

definition demo_operator :: actor_ref where
  "demo_operator = \<lparr>ar_kind = ''operator'', ar_key = ''op''\<rparr>"

definition demo_cluster :: "kconv list" where
  "demo_cluster = [(new_kconv ''c1'')\<lparr>kc_parts := [\<lparr>pt_actor = demo_operator, pt_conv = ''d'', pt_end = ''m1''\<rparr>],
     kc_consumers := [\<lparr>cn_actor = demo_operator, cn_committed = [], cn_position = ''m1''\<rparr>]\<rparr>]"

definition demo_poll :: poll_request where
  "demo_poll = \<lparr>pr_actor = demo_operator, pr_limit = 10, pr_after = []\<rparr>"

definition demo_commit :: commit_request where
  "demo_commit = \<lparr>cr_actor = demo_operator, cr_through = ''m1''\<rparr>"

lemma demo_polled: "(case svc_poll demo_env demo_kube 3 ''c1'' demo_poll pending_store demo_cluster of
    (Inr x, w) \<Rightarrow> po_messages x \<noteq> [] | _ \<Rightarrow> False)"
  by code_simp

lemma demo_committed: "(case svc_commit demo_kube 3 ''c1'' demo_commit demo_cluster of (Inr x, w) \<Rightarrow> True | _ \<Rightarrow> False)"
  by code_simp

lemma demo_signalled: "(case signal demo_env demo_kube 3 ''c1'' ''m2'' demo_operator 1 ''d'' demo_cluster of
    (Inr x, w) \<Rightarrow> True | _ \<Rightarrow> False)"
  by code_simp

theorem poll_delivers_without_gap_witness:
  "\<exists>x w c. svc_poll demo_env demo_kube 3 ''c1'' demo_poll pending_store demo_cluster = (Inr x, w)
     \<and> po_messages x \<noteq> [] \<and> appended demo_hist w ''c1'' c (record_receipt demo_operator (po_position x) c)"
proof -
  obtain x w where run: "svc_poll demo_env demo_kube 3 ''c1'' demo_poll pending_store demo_cluster = (Inr x, w)"
    and ne: "po_messages x \<noteq> []"
    using demo_polled by (auto split: prod.splits sum.splits)
  obtain c where "if po_messages x = [] then po_position x = poll_start (pr_actor demo_poll) (pr_after demo_poll) c
       else po_position x = cm_id (last (po_messages x))
         \<and> appended demo_hist w ''c1'' c (record_receipt (pr_actor demo_poll) (po_position x) c)"
    using poll_delivers_without_gap [OF demo_kube_laws run] by blast
  from conjunct2 [OF this [unfolded if_not_P [OF ne]]]
  have "appended demo_hist w ''c1'' c (record_receipt demo_operator (po_position x) c)"
    by (simp add: demo_poll_def)
  then show ?thesis using run ne by blast
qed

theorem commit_within_received_witness:
  "\<exists>w. svc_commit demo_kube 3 ''c1'' demo_commit demo_cluster = (Inr (), w) \<and> demo_hist w ''c1'' \<noteq> []"
proof -
  obtain u w where run: "svc_commit demo_kube 3 ''c1'' demo_commit demo_cluster = (Inr u, w)"
    using demo_committed by (auto split: prod.splits sum.splits)
  then show ?thesis using commit_within_received [OF demo_kube_laws, of 3 "''c1''" demo_commit demo_cluster w] by auto
qed

theorem signal_reaches_recipients_witness:
  "\<exists>w p. find_participant demo_operator (last (demo_hist w ''c1'')) = Some p \<and> ''m2'' \<le> pt_end p
     \<and> wake demo_env demo_operator (last (demo_hist w ''c1'')) = ''m2/1''"
proof -
  obtain u w where run: "signal demo_env demo_kube 3 ''c1'' ''m2'' demo_operator 1 ''d'' demo_cluster = (Inr u, w)"
    using demo_signalled by (auto split: prod.splits sum.splits)
  have t: "demo_operator \<noteq> no_actor" by (simp add: demo_operator_def no_actor_def)
  have u: "signal demo_env demo_kube 3 ''c1'' ''m2'' demo_operator 1 ''d'' demo_cluster = (Inr (), w)" using run by simp
  note T = signal_reaches_recipients [OF demo_kube_laws demo_fresh_reads u, unfolded Let_def]
  obtain p where p: "find_participant demo_operator (last (demo_hist w ''c1'')) = Some p" using T t by blast
  have "signal_stamp ''m2'' 1 = ''m2/1''" by code_simp
  then show ?thesis using T t p by metis
qed

theorem cursors_only_advance_witness:
  "committed demo_operator (record_receipt demo_operator ''m2'' (hd demo_cluster)) \<le> position demo_operator (record_receipt demo_operator ''m2'' (hd demo_cluster))"
proof -
  let ?c = "hd demo_cluster" and ?m = "(message_from_model live_message)\<lparr>cm_id := ''m2'', cm_conv := ''c1'', cm_target := no_actor\<rparr>"
  have "batch_end ''c1'' demo_operator (poll_start demo_operator [] ?c) [?m] = Some ''m2''"
    by (simp add: poll_start_def demo_cluster_def committed_def find_consumer_def addressed_to_def)
  from conv_step.poll [OF this, of demo_env "kc_version (record_receipt demo_operator ''m2'' ?c)"]
  have "(conv_step demo_env)\<^sup>*\<^sup>* ?c (record_receipt demo_operator ''m2'' ?c)" by simp
  from cursors_only_advance [OF this, of demo_operator] show ?thesis
    by (simp add: demo_cluster_def committed_def position_def find_consumer_def)
qed

end
