(* ===== verification/Runner.thy ===== *)
theory Runner
  imports Services
begin

text \<open>
  The scheduler of harness runs (\<^verbatim>\<open>server/internal/component/harness_runner.go\<close>), the lease
  wrapper (\<^verbatim>\<open>server/internal/lock/lease.go\<close>), the adapter boundary (\<^verbatim>\<open>pkg/harness/harness.go\<close>)
  and the run service (\<^verbatim>\<open>server/internal/service/harness_run.go\<close>).

  A driver issues several transactions. What happens around them is a \<open>schedule\<close>, indexed by
  the number of operations done: the clock, the transactions of other processes that commit
  before the operation (the renewal of the lease among them), and the state of the two
  contexts. An adapter is a pair of functions; its call is the list of events it delivers
  before the channel closes and the outcome of \<^verbatim>\<open>Wait\<close>.
\<close>

section \<open>Capacity\<close>

record runner =
  rn_active :: "(string \<times> bool) list"
  rn_cap :: int

definition reserve :: "string \<Rightarrow> runner \<Rightarrow> runner option" where
  "reserve i r =
     (if map_of (rn_active r) i \<noteq> None \<or> rn_cap r \<le> int (length (rn_active r)) then None
      else Some (r\<lparr>rn_active := al_set i False (rn_active r)\<rparr>))"

definition release :: "string \<Rightarrow> runner \<Rightarrow> runner" where
  "release i r = r\<lparr>rn_active := filter (\<lambda>x. fst x \<noteq> i) (rn_active r)\<rparr>"

definition available :: "runner \<Rightarrow> int" where
  "available r = rn_cap r - int (length (rn_active r))"

definition ready :: "runner \<Rightarrow> string list \<times> runner" where
  "ready r = (map fst (filter snd (rn_active r)),
     r\<lparr>rn_active := map (\<lambda>x. (fst x, False)) (rn_active r)\<rparr>)"

definition commit_slot :: "string \<Rightarrow> runner \<Rightarrow> runner" where
  "commit_slot i r = r\<lparr>rn_active := al_set i True (rn_active r)\<rparr>"

text \<open>
  \<^verbatim>\<open>Submit\<close>: the creation transaction reserves a slot for a new run; a replayed submission
  returns the stored run and reserves nothing; a failed transaction gives the slot back.
\<close>

definition submit_run ::
    "env \<Rightarrow> config \<Rightarrow> int \<Rightarrow> harness_run_request \<Rightarrow> store \<Rightarrow> runner
     \<Rightarrow> harness_run result \<times> store \<times> runner" where
  "submit_run e cf now r s rn =
     (case create_harness_run e cf now r (\<lambda>i. guardR (reserve i rn \<noteq> None) ErrHarnessCapacity) s of
        Inl er \<Rightarrow> (Inl er, s, rn)
      | Inr (run, s1) \<Rightarrow>
          if get_run (hn_id run) s = None
          then (Inr run, s1, commit_slot (hn_id run) (the (reserve (hn_id run) rn)))
          else (Inr run, s1, rn))"

text \<open>One pass of \<^verbatim>\<open>Run\<close>: launch what is ready, then fill the free slots from the database.\<close>

fun launch_found :: "string list \<Rightarrow> runner \<Rightarrow> string list \<times> runner" where
  "launch_found [] r = ([], r)"
| "launch_found (i # is) r =
     (case reserve i r of
        None \<Rightarrow> launch_found is r
      | Some r1 \<Rightarrow> (let (xs, r2) = launch_found is r1 in (i # xs, r2)))"

definition dispatch_pass :: "int \<Rightarrow> store \<Rightarrow> runner \<Rightarrow> string list \<times> runner" where
  "dispatch_pass now s r =
     (let (ids, r1) = ready r
      in if available r1 \<le> 0 then (ids, r1)
         else let (found, r2) = launch_found (list_runnable_runs now (nat (available r1)) s) r1
              in (ids @ found, r2))"

section \<open>Adapters\<close>

record native_request =
  nq_effect :: string
  nq_scope :: string
  nq_ref :: string
  nq_timeout :: int
  nq_call :: string
  nq_idempotency :: string
  nq_prompt :: string
  nq_tools :: "tool list"

record native_result =
  nr_text :: string
  nr_json :: "content option"

definition result_value :: "native_result \<Rightarrow> harness_result" where
  "result_value r =
     (case nr_json r of Some j \<Rightarrow> \<lparr>hr_format = ''json'', hr_content = j\<rparr> | None \<Rightarrow> text_result (nr_text r))"

record native_call =
  nc_id :: string
  nc_ref :: "string option"
  nc_events :: "content list"
  nc_wait :: "native_result result"

record adapter =
  ad_prompt :: "native_request \<Rightarrow> native_call option result"
  ad_resume :: "(native_request \<Rightarrow> native_call option result) option"

section \<open>Operations in a schedule\<close>

record schedule =
  sc_clock :: "nat \<Rightarrow> int"
  sc_other :: "nat \<Rightarrow> store \<Rightarrow> store"
  sc_observation :: "nat \<Rightarrow> err option"
  sc_owned :: "nat \<Rightarrow> err option"
  sc_renewal :: "nat \<Rightarrow> err option"

record drive_state =
  dv_tick :: nat
  dv_store :: store
  dv_published :: "(string \<times> event) list"

type_synonym 'a act = "drive_state \<Rightarrow> 'a result \<times> drive_state"

definition bindD :: "'a act \<Rightarrow> ('a \<Rightarrow> 'b act) \<Rightarrow> 'b act" where
  "bindD m f d = (case m d of (Inl er, d1) \<Rightarrow> (Inl er, d1) | (Inr x, d1) \<Rightarrow> f x d1)"

text \<open>One transaction: others commit first, then it commits or leaves the store as it is.\<close>

definition transact :: "schedule \<Rightarrow> (int \<Rightarrow> store \<Rightarrow> ('a \<times> store) result) \<Rightarrow> 'a act" where
  "transact S f d =
     (let k = dv_tick d; s = sc_other S k (dv_store d)
      in case f (sc_clock S k) s of
           Inl er \<Rightarrow> (Inl er, d\<lparr>dv_tick := Suc k, dv_store := s\<rparr>)
         | Inr (x, s1) \<Rightarrow> (Inr x, d\<lparr>dv_tick := Suc k, dv_store := s1\<rparr>))"

definition publish_out :: "string \<Rightarrow> event list \<Rightarrow> unit act" where
  "publish_out i evs d = (Inr (), d\<lparr>dv_published := dv_published d @ map (Pair i) evs\<rparr>)"

definition done_unit :: "store result \<Rightarrow> (unit \<times> store) result" where
  "done_unit r = bindR r (\<lambda>s. Inr ((), s))"

definition finish_run ::
    "env \<Rightarrow> config \<Rightarrow> schedule \<Rightarrow> token \<Rightarrow> harness_run \<Rightarrow> call_phase \<Rightarrow> harness_result option \<Rightarrow> string \<Rightarrow> unit act" where
  "finish_run e cf S t run phase res detail =
     bindD (transact S (\<lambda>now. finish_harness_run e cf now t (hn_id run) phase res detail))
       (publish_out (hn_message run))"

definition error_phase :: "err \<Rightarrow> call_phase" where
  "error_phase er =
     (if er = CtxCanceled \<or> er = ErrInvalidContent then CallCancelled
      else if er = CtxDeadlineExceeded then CallTimedOut
      else if er = ErrRecoveryUnsupported then CallUnknown else CallFailed)"

definition is_observation :: "err \<Rightarrow> bool" where
  "is_observation er \<longleftrightarrow> (case er of ErrObservation _ \<Rightarrow> True | _ \<Rightarrow> False)"

definition finish_error ::
    "env \<Rightarrow> config \<Rightarrow> schedule \<Rightarrow> token \<Rightarrow> harness_run \<Rightarrow> err \<Rightarrow> unit act" where
  "finish_error e cf S t run er d =
     (case sc_owned S (dv_tick d) of
        Some stop \<Rightarrow> (Inl stop, d)
      | None \<Rightarrow>
          if is_observation er
          then transact S (\<lambda>now s. done_unit (retry_harness_run cf now t (hn_id run) (e_err_text e er) s)) d
          else finish_run e cf S t run (error_phase er) None (e_err_text e er) d)"

section \<open>Driving one run\<close>

definition finish_success ::
    "env \<Rightarrow> config \<Rightarrow> schedule \<Rightarrow> token \<Rightarrow> harness_run \<Rightarrow> nat \<Rightarrow> native_call \<Rightarrow> unit act" where
  "finish_success e cf S t run index call =
     (case nc_wait call of
        Inl er \<Rightarrow> finish_error e cf S t run er
      | Inr r \<Rightarrow>
          if index < hn_checkpoint run
          then finish_error e cf S t run (ErrText ''Harness replay ended before persisted checkpoint'')
          else case result_validate (result_value r) of
            Inl er \<Rightarrow> finish_error e cf S t run (ErrText ''invalid Harness result'')
          | Inr _ \<Rightarrow> finish_run e cf S t run CallSucceeded (Some (result_value r)) [])"

definition append_event ::
    "env \<Rightarrow> config \<Rightarrow> schedule \<Rightarrow> token \<Rightarrow> harness_run \<Rightarrow> nat \<Rightarrow> string \<Rightarrow> event \<Rightarrow> unit act" where
  "append_event e cf S t run index hash ev =
     bindD (transact S (\<lambda>now s. done_unit (append_harness_output e cf now t (hn_id run) index hash ev s)))
       (\<lambda>_. publish_out (hn_message run) [ev\<lparr>ev_seq := index + 1\<rparr>])"

fun drive_loop ::
    "env \<Rightarrow> config \<Rightarrow> schedule \<Rightarrow> token \<Rightarrow> harness_run \<Rightarrow> native_call \<Rightarrow> nat \<Rightarrow> string \<Rightarrow> content list \<Rightarrow> unit act" where
  "drive_loop e cf S t run call index hash [] d =
     (case sc_observation S (dv_tick d) of
        Some er \<Rightarrow> finish_error e cf S t run er d
      | None \<Rightarrow> finish_success e cf S t run index call d)"
| "drive_loop e cf S t run call index hash (raw # raws) d =
     (case sc_observation S (dv_tick d) of
        Some er \<Rightarrow> finish_error e cf S t run er d
      | None \<Rightarrow>
          let index = index + 1; hash = e_sha e (hash @ c_raw raw)
          in if index \<le> hn_checkpoint run then
               (if index = hn_checkpoint run \<and> hash \<noteq> hn_replay_hash run
                then finish_error e cf S t run (ErrText ''Harness replay differs from persisted output'') d
                else drive_loop e cf S t run call index hash raws d)
             else case e_parse e raw of
               Inl er \<Rightarrow> finish_error e cf S t run er d
             | Inr ev \<Rightarrow>
                 (case append_event e cf S t run index hash ev d of
                    (Inl er, d1) \<Rightarrow>
                      if er = CtxCanceled \<or> er = ErrInvalidContent then finish_error e cf S t run er d1
                      else (Inl er, d1)
                  | (Inr _, d1) \<Rightarrow> drive_loop e cf S t run call index hash raws d1))"

definition native_request_of :: "harness_run \<Rightarrow> int \<Rightarrow> native_request" where
  "native_request_of run now =
     \<lparr>nq_effect = rr_effect (hn_request run),
      nq_scope = (case rr_actor (hn_request run) of None \<Rightarrow> [] | Some a \<Rightarrow> ar_key a),
      nq_ref = hn_exec_ref run, nq_timeout = hn_deadline run - now, nq_call = hn_id run,
      nq_idempotency = hn_id run, nq_prompt = rr_text (hn_request run), nq_tools = rr_tools (hn_request run)\<rparr>"

definition open_call :: "adapter \<Rightarrow> harness_run \<Rightarrow> native_request \<Rightarrow> native_call option result" where
  "open_call a run q =
     (if hn_phase run = CallPending then ad_prompt a q
      else case ad_resume a of None \<Rightarrow> Inl ErrRecoveryUnsupported | Some f \<Rightarrow> f q)"

definition observe_call ::
    "env \<Rightarrow> config \<Rightarrow> schedule \<Rightarrow> token \<Rightarrow> harness_run \<Rightarrow> native_call option result \<Rightarrow> unit act" where
  "observe_call e cf S t run r =
     (case r of
        Inl er \<Rightarrow> finish_error e cf S t run er
      | Inr None \<Rightarrow> finish_error e cf S t run (ErrText ''Adapter returned an invalid Call identity'')
      | Inr (Some call) \<Rightarrow>
          if nc_id call \<noteq> hn_id run
          then finish_error e cf S t run (ErrText ''Adapter returned an invalid Call identity'')
          else bindD (transact S (\<lambda>now s. done_unit
                 (bind_harness_execution cf now t (hn_id run) (case nc_ref call of None \<Rightarrow> [] | Some x \<Rightarrow> x) s)))
               (\<lambda>_. drive_loop e cf S t run call 0 [] (nc_events call)))"

definition drive_started ::
    "env \<Rightarrow> config \<Rightarrow> schedule \<Rightarrow> (string \<Rightarrow> adapter option) \<Rightarrow> token \<Rightarrow> harness_run \<Rightarrow> unit act" where
  "drive_started e cf S adapters t run d =
     (let now = sc_clock S (dv_tick d) in
      if hn_cancel run then finish_run e cf S t run CallCancelled None ''cancelled'' d
      else if hn_deadline run \<le> now then finish_run e cf S t run CallTimedOut None ''deadline exceeded'' d
      else case adapters (hn_target run) of
        None \<Rightarrow> finish_run e cf S t run CallUnknown None ''Harness target is not configured on this server'' d
      | Some a \<Rightarrow> observe_call e cf S t run (open_call a run (native_request_of run now)) d)"

text \<open>
  \<^verbatim>\<open>WithLease\<close>: acquire, run the body with the token, release. The renewals run beside the
  body; they are steps of the schedule's other transactions, and a renewal that fails
  cancels the owned context and fails a body that returned normally.
\<close>

definition with_lease ::
    "env \<Rightarrow> schedule \<Rightarrow> string \<Rightarrow> int \<Rightarrow> (token \<Rightarrow> 'a act) \<Rightarrow> 'a act" where
  "with_lease e S resource ttl body d =
     (if ttl \<le> 0 then (Inl (ErrText ''lease TTL must be positive''), d)
      else case transact S (\<lambda>now. acquire e now resource ttl) d of
        (Inl er, d1) \<Rightarrow> (Inl er, d1)
      | (Inr t, d1) \<Rightarrow>
          (let (r, d2) = body t d1; k = dv_tick d2;
               r1 = (case r of Inl er \<Rightarrow> Inl er
                     | Inr x \<Rightarrow> (case sc_renewal S k of None \<Rightarrow> Inr x | Some er \<Rightarrow> Inl er))
           in (r1, d2\<lparr>dv_tick := Suc k, dv_store := unlock t (sc_other S k (dv_store d2))\<rparr>)))"

definition drive ::
    "env \<Rightarrow> config \<Rightarrow> schedule \<Rightarrow> (string \<Rightarrow> adapter option) \<Rightarrow> int \<Rightarrow> string \<Rightarrow> unit act" where
  "drive e cf S adapters ttl i =
     with_lease e S (harness_resource i) ttl (\<lambda>t.
       bindD (transact S (\<lambda>now. start_harness_run cf now t i)) (drive_started e cf S adapters t))"

section \<open>Maintenance\<close>

definition read_run :: "schedule \<Rightarrow> string \<Rightarrow> harness_run act" where
  "read_run S i = transact S (\<lambda>now s. bindR (get_harness_run_state i s) (\<lambda>r. Inr (r, s)))"

definition settle_due :: "env \<Rightarrow> config \<Rightarrow> schedule \<Rightarrow> string \<Rightarrow> token \<Rightarrow> unit act" where
  "settle_due e cf S i t =
     bindD (read_run S i) (\<lambda>run d.
       if phase_terminal (hn_phase run) then (Inr (), d)
       else if hn_cancel run then finish_run e cf S t run CallCancelled None ''cancelled'' d
       else if hn_deadline run \<le> sc_clock S (dv_tick d)
       then finish_run e cf S t run CallTimedOut None ''deadline exceeded'' d
       else (Inr (), d))"

fun maintain_due ::
    "env \<Rightarrow> config \<Rightarrow> schedule \<Rightarrow> int \<Rightarrow> string list \<Rightarrow> err list \<Rightarrow> drive_state \<Rightarrow> err list \<times> drive_state" where
  "maintain_due e cf S ttl [] failures d = (failures, d)"
| "maintain_due e cf S ttl (i # is) failures d =
     (case with_lease e S (harness_resource i) ttl (settle_due e cf S i) d of
        (Inr _, d1) \<Rightarrow> maintain_due e cf S ttl is failures d1
      | (Inl er, d1) \<Rightarrow>
          maintain_due e cf S ttl is
            (if er = ErrLocked \<or> er = ErrConflict then failures else failures @ [er]) d1)"

definition runner_maintain ::
    "env \<Rightarrow> config \<Rightarrow> schedule \<Rightarrow> int \<Rightarrow> drive_state \<Rightarrow> err list \<times> drive_state" where
  "runner_maintain e cf S ttl d =
     (let k = dv_tick d; s = sc_other S k (dv_store d)
      in maintain_due e cf S ttl (list_due_runs (sc_clock S k) 100 s) []
           (d\<lparr>dv_tick := Suc k, dv_store := s\<rparr>))"

section \<open>The run service\<close>

definition harness_call_of :: "harness_run \<Rightarrow> harness_call" where
  "harness_call_of r =
     \<lparr>hc_conv = hn_conv r, hc_id = hn_id r, hc_effect = hn_effect r, hc_target = hn_target r,
      hc_phase = hn_phase r, hc_result = None, hc_message = hn_message r, hc_deadline = hn_deadline r,
      hc_error = hn_error r, hc_created = hn_created r, hc_updated = hn_updated r\<rparr>"

definition run_request_given :: "harness_run_request \<Rightarrow> bool" where
  "run_request_given r \<longleftrightarrow>
     \<not> blank (rr_conv r) \<and> \<not> blank (rr_idempotency r) \<and> rr_effect r \<noteq> [] \<and> rr_target r \<noteq> []
     \<and> \<not> blank (rr_text r) \<and> 0 \<le> rr_timeout r"

definition run_request_defaults :: "harness_run_request \<Rightarrow> harness_run_request" where
  "run_request_defaults r =
     r\<lparr>rr_timeout := (if rr_timeout r = 0 then 1800000000000 else rr_timeout r),
       rr_actor := Some (case rr_actor r of None \<Rightarrow> \<lparr>ar_kind = ActorKindHarness, ar_key = rr_target r\<rparr> | Some a \<Rightarrow> a),
       rr_meta := Some (case rr_meta r of None \<Rightarrow> JObj [] | Some v \<Rightarrow> v)\<rparr>"

definition run_request_ok :: "harness_run_request \<Rightarrow> bool" where
  "run_request_ok r \<longleftrightarrow>
     valid_target (the (rr_actor r))
     \<and> (rr_recipient r = no_actor \<or> ref_valid (rr_recipient r))
     \<and> jget ''output'' (the (rr_meta r)) = None \<and> jget ''human'' (the (rr_meta r)) = None"

definition svc_submit_run ::
    "env \<Rightarrow> config \<Rightarrow> int \<Rightarrow> (string \<Rightarrow> adapter option) \<Rightarrow> 'b bridge \<Rightarrow> harness_run_request
     \<Rightarrow> store \<Rightarrow> runner \<Rightarrow> 'b \<Rightarrow> harness_call result \<times> store \<times> runner \<times> 'b" where
  "svc_submit_run e cf now adapters B r s rn b =
     (if \<not> run_request_given r \<or> adapters (rr_target r) = None \<or> \<not> run_request_ok (run_request_defaults r)
      then (Inl SvcInvalid, s, rn, b)
      else case submit_run e cf now (run_request_defaults r) s rn of
        (Inl er, s1, rn1) \<Rightarrow> (Inl er, s1, rn1, b)
      | (Inr run, s1, rn1) \<Rightarrow>
          (Inr (harness_call_of run), s1, rn1, snd (ensure_stream e B s1 (hn_message run) b)))"

definition observe_run :: "env \<Rightarrow> string \<Rightarrow> store \<Rightarrow> (harness_call \<times> cmessage) result" where
  "observe_run e i s =
     bindR (get_harness_run_state i s) (\<lambda>run.
     bindR (get_message e (hn_message run) s) (\<lambda>m.
       let call = harness_call_of run
       in if hc_phase call = CallSucceeded then
            bindR (extract_result (m_content m)) (\<lambda>res.
              if res = None then Inl (ErrText ''completed Harness run has no result'')
              else Inr (call\<lparr>hc_result := res\<rparr>, message_from_model m))
          else Inr (call, message_from_model m)))"

definition svc_get_run :: "string \<Rightarrow> store \<Rightarrow> harness_call result" where
  "svc_get_run i s = bindR (get_harness_run_state i s) (\<lambda>run. Inr (harness_call_of run))"

definition svc_cancel_run :: "int \<Rightarrow> string \<Rightarrow> store \<Rightarrow> store result" where
  "svc_cancel_run now i s = cancel_harness_run now i s"

end
