(* ===== verification/RunnerProps.thy ===== *)
theory RunnerProps
  imports ServiceFacts Runner
begin

text \<open>
  The properties of the scheduler: its slots, what a submission does to them, and what driving a
  run does to the database.
\<close>

section \<open>Slots\<close>

text \<open>
  The slot machine of one server: the map of active runs, the runs its workers drive, and the
  reservations held by open submissions. The steps are the critical sections of the code.
\<close>

record slots =
  sl_runner :: runner
  sl_driven :: "string list"
  sl_held :: "string list"

inductive slot_step :: "slots \<Rightarrow> slots \<Rightarrow> bool" where
  hold: "reserve i (sl_runner x) = Some r \<Longrightarrow>
     slot_step x (x\<lparr>sl_runner := r, sl_held := i # sl_held x\<rparr>)"
| keep: "i \<in> set (sl_held x) \<Longrightarrow>
     slot_step x (x\<lparr>sl_runner := commit_slot i (sl_runner x), sl_held := remove1 i (sl_held x)\<rparr>)"
| give_up: "i \<in> set (sl_held x) \<Longrightarrow>
     slot_step x (x\<lparr>sl_runner := release i (sl_runner x), sl_held := remove1 i (sl_held x)\<rparr>)"
| launch_ready: "ready (sl_runner x) = (ids, r) \<Longrightarrow>
     slot_step x (x\<lparr>sl_runner := r, sl_driven := sl_driven x @ ids\<rparr>)"
| launch_found: "reserve i (sl_runner x) = Some r \<Longrightarrow>
     slot_step x (x\<lparr>sl_runner := r, sl_driven := sl_driven x @ [i]\<rparr>)"
| finished: "i \<in> set (sl_driven x) \<Longrightarrow>
     slot_step x (x\<lparr>sl_runner := release i (sl_runner x), sl_driven := remove1 i (sl_driven x)\<rparr>)"

definition slots_init :: "int \<Rightarrow> slots" where
  "slots_init cap = \<lparr>sl_runner = \<lparr>rn_active = [], rn_cap = cap\<rparr>, sl_driven = [], sl_held = []\<rparr>"

text \<open>A run in use is active and not ready; no run is used twice; the capacity is kept.\<close>

definition slots_ok :: "slots \<Rightarrow> bool" where
  "slots_ok x \<longleftrightarrow>
     distinct (map fst (rn_active (sl_runner x))) \<and> distinct (sl_held x @ sl_driven x)
   \<and> (\<forall>i. map_of (rn_active (sl_runner x)) i = Some False \<longleftrightarrow> i \<in> set (sl_held x @ sl_driven x))
   \<and> int (length (rn_active (sl_runner x))) \<le> max 0 (rn_cap (sl_runner x))"

declare map_of_eq_Some_iff [simp del]

lemma slots_used:
  "slots_ok x \<Longrightarrow> i \<in> set (sl_held x @ sl_driven x) \<longleftrightarrow> map_of (rn_active (sl_runner x)) i = Some False"
  unfolding slots_ok_def by blast

lemma map_of_map_False: "map_of (map (\<lambda>x. (fst x, False)) kvs) j = map_option (\<lambda>_. False) (map_of kvs j)"
  by (induction kvs) auto

lemma reserve_SomeD:
  assumes "reserve i r = Some r'"
  shows "map_of (rn_active r) i = None" "int (length (rn_active r)) < rn_cap r"
    "r' = r\<lparr>rn_active := rn_active r @ [(i, False)]\<rparr>"
proof -
  show n: "map_of (rn_active r) i = None" and "int (length (rn_active r)) < rn_cap r"
    using assms by (auto simp: reserve_def split: if_splits)
  have "al_set i False (rn_active r) = rn_active r @ [(i, False)]" if "i \<notin> fst ` set kvs" "rn_active r = kvs" for kvs
    unfolding that(2) using that(1) by (induction kvs) auto
  then show "r' = r\<lparr>rn_active := rn_active r @ [(i, False)]\<rparr>"
    using assms n by (auto simp: reserve_def map_of_eq_None_iff split: if_splits)
qed

lemma ready_ids: "distinct (map fst kvs) \<Longrightarrow> i \<in> fst ` set (filter snd kvs) \<longleftrightarrow> map_of kvs i = Some True"
  by (induction kvs) (auto simp: image_iff)

lemma slots_init_ok: "slots_ok (slots_init cap)"
  by (simp add: slots_ok_def slots_init_def)

lemma reserve_slots_ok:
  assumes "slots_ok x" and "reserve i (sl_runner x) = Some r"
    and "y = x\<lparr>sl_runner := r, sl_held := i # sl_held x\<rparr> \<or> y = x\<lparr>sl_runner := r, sl_driven := sl_driven x @ [i]\<rparr>"
  shows "slots_ok y"
proof -
  note R = reserve_SomeD [OF assms(2)]
  have "i \<notin> set (sl_held x @ sl_driven x)" unfolding slots_used [OF assms(1)] R(1) by simp
  moreover have "i \<notin> fst ` set (rn_active (sl_runner x))" using R(1) by (simp add: map_of_eq_None_iff)
  moreover have "map_of (rn_active (sl_runner x) @ [(i, False)]) = (map_of (rn_active (sl_runner x)))(i \<mapsto> False)"
    using R(1) by (auto simp: fun_eq_iff map_add_def split: option.splits)
  ultimately show ?thesis
    using assms(1,3) R(2) unfolding slots_ok_def R(3) by (auto simp del: map_of_append)
qed

lemma release_slots_ok:
  assumes "slots_ok x" and "i \<in> set (sl_held x @ sl_driven x)"
    and "y = x\<lparr>sl_runner := release i (sl_runner x), sl_held := remove1 i (sl_held x), sl_driven := remove1 i (sl_driven x)\<rparr>"
  shows "slots_ok y"
proof -
  have len: "length (filter (\<lambda>x. fst x \<noteq> i) kvs) \<le> length kvs" for kvs :: "(string \<times> bool) list" by simp
  have "int (length (rn_active (sl_runner x))) \<le> max 0 (rn_cap (sl_runner x))"
    using assms(1) by (simp add: slots_ok_def)
  then have "int (length (rn_active (release i (sl_runner x)))) \<le> max 0 (rn_cap (sl_runner x))"
    using len [of "rn_active (sl_runner x)"] unfolding release_def by (simp, linarith)
  then show ?thesis
    using assms(1) unfolding slots_ok_def assms(3)
    by (auto simp: release_def map_of_filter_fst distinct_map_filter)
qed

lemma slot_step_ok:
  assumes "slot_step x y" and "slots_ok x"
  shows "slots_ok y"
  using assms(1)
proof cases
  case (hold i r)
  then show ?thesis using reserve_slots_ok assms(2) by blast
next
  case (launch_found i r)
  then show ?thesis using reserve_slots_ok assms(2) by blast
next
  case (keep i)
  have act: "map_of (rn_active (sl_runner x)) i = Some False" using assms(2) keep(2) by (auto simp: slots_ok_def)
  then have "i \<in> fst ` set (rn_active (sl_runner x))" by (metis map_of_eq_None_iff option.distinct(1))
  then have "map fst (al_set i True (rn_active (sl_runner x))) = map fst (rn_active (sl_runner x))"
    by (rule map_fst_al_set_present)
  moreover from this have "length (al_set i True (rn_active (sl_runner x))) = length (rn_active (sl_runner x))"
    by (metis length_map)
  moreover have "i \<notin> set (remove1 i (sl_held x))" "i \<notin> set (sl_driven x)"
    using assms(2) keep(2) by (auto simp: slots_ok_def)
  ultimately show ?thesis
    using assms(2) unfolding slots_ok_def keep(1) by (auto simp: commit_slot_def)
next
  case (give_up i)
  have "i \<notin> set (sl_driven x)" using assms(2) give_up(2) by (auto simp: slots_ok_def)
  then show ?thesis
    using release_slots_ok [OF assms(2), of i] give_up by (simp add: remove1_idem)
next
  case (finished i)
  have "i \<notin> set (sl_held x)" using assms(2) finished(2) by (auto simp: slots_ok_def)
  then show ?thesis
    using release_slots_ok [OF assms(2), of i] finished by (simp add: remove1_idem)
next
  case (launch_ready ids r)
  let ?kvs = "rn_active (sl_runner x)"
  have ids: "ids = map fst (filter snd ?kvs)" "r = (sl_runner x)\<lparr>rn_active := map (\<lambda>x. (fst x, False)) ?kvs\<rparr>"
    using launch_ready(2) by (auto simp: ready_def)
  have d: "distinct (map fst ?kvs)" using assms(2) by (simp add: slots_ok_def)
  have mem: "i \<in> set ids \<longleftrightarrow> map_of ?kvs i = Some True" for i
    using ready_ids [OF d] by (simp add: ids(1))
  have "distinct ids" unfolding ids(1) using d by (rule distinct_map_filter)
  moreover have "i \<notin> set (sl_held x @ sl_driven x)" if "i \<in> set ids" for i
    using that mem unfolding slots_used [OF assms(2)] by simp
  moreover have "map_of (rn_active r) i = Some False \<longleftrightarrow> i \<in> set (sl_held x @ sl_driven x) \<or> i \<in> set ids" for i
    unfolding slots_used [OF assms(2)] mem ids(2) by (cases "map_of ?kvs i") (auto simp: map_of_map_False)
  ultimately show ?thesis
    using assms(2) d unfolding slots_ok_def launch_ready(1) ids(2) by (auto simp: comp_def)
qed

lemma slots_reachable_ok: "slot_step\<^sup>*\<^sup>* x y \<Longrightarrow> slots_ok x \<Longrightarrow> slots_ok y"
  by (induction rule: rtranclp_induct) (auto intro: slot_step_ok)

lemma slot_cap: "slot_step\<^sup>*\<^sup>* x y \<Longrightarrow> rn_cap (sl_runner y) = rn_cap (sl_runner x)"
  by (induction rule: rtranclp_induct)
    (auto elim!: slot_step.cases simp: commit_slot_def release_def ready_def dest: reserve_SomeD)

text \<open>
  C22: a server never drives more runs than its capacity and never drives a run twice at a time,
  whatever submissions, scans and completions interleave; a run it drives keeps its slot.
\<close>
theorem capacity_never_exceeded:
  assumes "slot_step\<^sup>*\<^sup>* (slots_init cap) x"
  shows "distinct (sl_driven x) \<and> int (length (sl_driven x) + length (sl_held x)) \<le> max 0 cap
    \<and> (\<forall>i \<in> set (sl_driven x). map_of (rn_active (sl_runner x)) i = Some False)"
proof -
  have ok: "slots_ok x" by (rule slots_reachable_ok [OF assms slots_init_ok])
  let ?u = "sl_held x @ sl_driven x" and ?k = "rn_active (sl_runner x)"
  have "set ?u \<subseteq> fst ` set ?k"
    using ok by (force simp: slots_ok_def dest: map_of_SomeD)
  then have "card (set ?u) \<le> card (fst ` set ?k)" by (simp add: card_mono)
  also have "\<dots> \<le> length ?k" by (metis card_length list.set_map length_map)
  finally have "length ?u \<le> length ?k" using ok unfolding slots_ok_def by (metis distinct_card)
  moreover have "rn_cap (sl_runner x) = cap" using slot_cap [OF assms] by (simp add: slots_init_def)
  ultimately show ?thesis using ok by (auto simp: slots_ok_def)
qed

definition demo_slots_one :: slots where
  "demo_slots_one = (slots_init 1)\<lparr>sl_runner := \<lparr>rn_active = [(''r'', False)], rn_cap = 1\<rparr>, sl_driven := [''r'']\<rparr>"

lemma demo_slots: "slot_step\<^sup>*\<^sup>* (slots_init 1) demo_slots_one"
proof -
  have "reserve ''r'' (sl_runner (slots_init 1)) = Some \<lparr>rn_active = [(''r'', False)], rn_cap = 1\<rparr>"
    by (simp add: reserve_def slots_init_def)
  from slot_step.launch_found [OF this] show ?thesis by (simp add: slots_init_def demo_slots_one_def r_into_rtranclp)
qed

theorem capacity_never_exceeded_witness:
  "slot_step\<^sup>*\<^sup>* (slots_init 1) demo_slots_one \<and> sl_driven demo_slots_one = [''r'']
     \<and> int (length (sl_driven demo_slots_one) + length (sl_held demo_slots_one)) \<le> max 0 1"
  using capacity_never_exceeded [OF demo_slots] demo_slots by (simp add: demo_slots_one_def)

section \<open>Submissions and scans\<close>

lemma launch_found_steps:
  "launch_found is (sl_runner x) = (ids, r) \<Longrightarrow>
     slot_step\<^sup>*\<^sup>* x (x\<lparr>sl_runner := r, sl_driven := sl_driven x @ ids\<rparr>)"
proof (induction "is" arbitrary: x ids)
  case Nil
  then have "ids = []" "r = sl_runner x" by auto
  then show ?case by simp
next
  case (Cons i "is")
  show ?case
  proof (cases "reserve i (sl_runner x)")
    case None
    then show ?thesis using Cons by simp
  next
    case (Some r1)
    let ?y = "x\<lparr>sl_runner := r1, sl_driven := sl_driven x @ [i]\<rparr>"
    obtain ids1 where l: "launch_found is (sl_runner ?y) = (ids1, r)" "ids = i # ids1"
      using Cons.prems Some by (cases "launch_found is r1") auto
    have "slot_step x ?y" by (rule slot_step.launch_found [OF Some])
    moreover have "slot_step\<^sup>*\<^sup>* ?y (x\<lparr>sl_runner := r, sl_driven := sl_driven x @ ids\<rparr>)"
      using Cons.IH [OF l(1)] l(2) by simp
    ultimately show ?thesis by (rule converse_rtranclp_into_rtranclp)
  qed
qed

lemma dispatch_pass_steps:
  assumes "dispatch_pass now s (sl_runner x) = (ids, r)"
  shows "slot_step\<^sup>*\<^sup>* x (x\<lparr>sl_runner := r, sl_driven := sl_driven x @ ids\<rparr>)"
proof -
  obtain ids1 r1 where ready: "ready (sl_runner x) = (ids1, r1)" by (cases "ready (sl_runner x)")
  let ?y = "x\<lparr>sl_runner := r1, sl_driven := sl_driven x @ ids1\<rparr>"
  have step: "slot_step\<^sup>*\<^sup>* x ?y" by (rule r_into_rtranclp, rule slot_step.launch_ready [OF ready])
  show ?thesis
  proof (cases "available r1 \<le> 0")
    case True
    then show ?thesis using assms ready step by (simp add: dispatch_pass_def)
  next
    case False
    obtain ids2 where l: "launch_found (list_runnable_runs now (nat (available r1)) s) (sl_runner ?y) = (ids2, r)"
      "ids = ids1 @ ids2"
      using assms ready False by (auto simp: dispatch_pass_def split: prod.splits)
    have "slot_step\<^sup>*\<^sup>* ?y (x\<lparr>sl_runner := r, sl_driven := sl_driven x @ ids\<rparr>)"
      using launch_found_steps [OF l(1)] l(2) by simp
    with step show ?thesis by (rule rtranclp_trans)
  qed
qed

text \<open>A submission either changes nothing but finds its run, or adds a run for which a slot was free.\<close>

lemma submit_run_cases:
  assumes "submit_run e cf now q s rn = (res, s', rn')"
  shows "(s' = s \<and> rn' = rn \<and> (\<forall>run. res = Inr run \<longrightarrow> run \<in> set (st_runs s)))
    \<or> (\<exists>run r1. res = Inr run \<and> get_run (hn_id run) s = None
         \<and> reserve (hn_id run) rn = Some r1 \<and> rn' = commit_slot (hn_id run) r1)"
proof (cases "create_harness_run e cf now q (\<lambda>i. guardR (reserve i rn \<noteq> None) ErrHarnessCapacity) s")
  case (Inl er)
  then show ?thesis using assms by (auto simp: submit_run_def)
next
  case (Inr x)
  obtain run s1 where x: "x = (run, s1)" by (cases x)
  note c = Inr [unfolded x]
  from create_harness_run_split [OF c]
  have "(run \<in> set (st_runs s) \<and> s1 = s) \<or> (guardR (reserve (hn_id run) rn \<noteq> None) ErrHarnessCapacity = Inr ())"
    by blast
  then have split: "(run \<in> set (st_runs s) \<and> s1 = s) \<or> (\<exists>r1. reserve (hn_id run) rn = Some r1)"
    by (auto simp: guardR_def split: if_splits)
  show ?thesis
  proof (cases "get_run (hn_id run) s = None")
    case True
    then have "run \<notin> set (st_runs s)" by (auto simp: get_run_def tbl_find_None)
    then obtain r1 where "reserve (hn_id run) rn = Some r1" using split by blast
    then show ?thesis using assms c True by (simp add: submit_run_def) blast
  next
    case False
    have "run \<in> set (st_runs s) \<and> s1 = s"
    proof (rule ccontr)
      assume no: "\<not> (run \<in> set (st_runs s) \<and> s1 = s)"
      from create_harness_run_split [OF c] no obtain a conv s2 m s3 where
        n: "ensure_participant_conversation e now conv (rr_recipient q) s = Inr s2"
        "save_message e cf now (run_message q a (hn_message run)) True (draw (draw s2)) = Inr (m, s3)"
        "insert_run now (new_run e now q a (fresh_id e s2) (fresh_id e (draw s2))) s3 = Inr s1"
        "run = (new_run e now q a (fresh_id e s2) (fresh_id e (draw s2)))\<lparr>hn_created := now, hn_updated := now\<rparr>"
        by blast
      have "st_runs s3 = st_runs s"
        using save_message_frame(3) [OF n(2)] ensure_participant_frame(3) [OF n(1)] by simp
      moreover have "\<forall>x \<in> set (st_runs s3). hn_id x \<noteq> hn_id run"
        using n(3,4) by (auto simp: insert_run_def split: if_splits)
      ultimately show False using False by (auto simp: get_run_def tbl_find_None)
    qed
    moreover from this have "submit_run e cf now q s rn = (Inr run, s, rn)"
      using c False by (auto simp: submit_run_def)
    ultimately show ?thesis using assms by auto
  qed
qed

text \<open>
  The scheduler is the slot machine. A pass of the scheduler and a submission, whatever the
  database holds, do only what the machine allows: every run a pass launches was ready or got a free
  slot, and a submission that adds a run reserves its slot inside the transaction and marks it
  ready after.
\<close>
theorem scheduler_refines_slots:
  assumes "dispatch_pass now s (sl_runner x) = (ids, r)"
    and "submit_run e cf now2 q s2 (sl_runner y) = (res, s3, r2)"
  shows "slot_step\<^sup>*\<^sup>* x (x\<lparr>sl_runner := r, sl_driven := sl_driven x @ ids\<rparr>)
    \<and> slot_step\<^sup>*\<^sup>* y (y\<lparr>sl_runner := r2\<rparr>)"
proof
  show "slot_step\<^sup>*\<^sup>* x (x\<lparr>sl_runner := r, sl_driven := sl_driven x @ ids\<rparr>)"
    by (rule dispatch_pass_steps [OF assms(1)])
  from submit_run_cases [OF assms(2)] show "slot_step\<^sup>*\<^sup>* y (y\<lparr>sl_runner := r2\<rparr>)"
  proof
    assume "\<exists>run r1. res = Inr run \<and> get_run (hn_id run) s2 = None
         \<and> reserve (hn_id run) (sl_runner y) = Some r1 \<and> r2 = commit_slot (hn_id run) r1"
    then obtain i r1 where r: "reserve i (sl_runner y) = Some r1" "r2 = commit_slot i r1" by blast
    let ?z = "y\<lparr>sl_runner := r1, sl_held := i # sl_held y\<rparr>"
    have "slot_step y ?z" by (rule slot_step.hold [OF r(1)])
    moreover have "slot_step ?z (y\<lparr>sl_runner := r2\<rparr>)"
      using slot_step.keep [of i ?z] r(2) by simp
    ultimately show ?thesis by (meson r_into_rtranclp rtranclp.rtrancl_into_rtrancl)
  qed simp
qed

definition empty_runner :: runner where
  "empty_runner = \<lparr>rn_active = [], rn_cap = 1\<rparr>"

theorem scheduler_refines_slots_witness:
  "\<exists>ids r res s3 r2. dispatch_pass 5 live_store (sl_runner (slots_init 1)) = (ids, r)
     \<and> slot_step\<^sup>*\<^sup>* (slots_init 1) ((slots_init 1)\<lparr>sl_runner := r, sl_driven := ids\<rparr>)
     \<and> submit_run demo_env run_cf 5 live_request open_store (sl_runner (slots_init 1)) = (res, s3, r2)
     \<and> slot_step\<^sup>*\<^sup>* (slots_init 1) ((slots_init 1)\<lparr>sl_runner := r2\<rparr>)"
proof -
  obtain ids r where d: "dispatch_pass 5 live_store (sl_runner (slots_init 1)) = (ids, r)"
    by (cases "dispatch_pass 5 live_store (sl_runner (slots_init 1))")
  obtain res s3 r2 where q: "submit_run demo_env run_cf 5 live_request open_store (sl_runner (slots_init 1)) = (res, s3, r2)"
    by (cases "submit_run demo_env run_cf 5 live_request open_store (sl_runner (slots_init 1))")
  have "sl_driven (slots_init 1) = []" by (simp add: slots_init_def)
  then show ?thesis using scheduler_refines_slots [OF d q] d q by auto
qed

text \<open>
  A full server refuses new work and still answers repeated submissions: the database, the slots and
  the other runs stay as they are, and the only runs it returns are stored already.
\<close>
theorem full_server_adds_nothing:
  assumes "submit_run e cf now q s rn = (res, s', rn')" and "rn_cap rn \<le> int (length (rn_active rn))"
  shows "s' = s \<and> rn' = rn \<and> (\<forall>run. res = Inr run \<longrightarrow> run \<in> set (st_runs s))"
  using submit_run_cases [OF assms(1)] assms(2) by (auto simp: reserve_def)

theorem full_server_adds_nothing_witness:
  "\<exists>er. submit_run demo_env run_cf 5 live_request open_store \<lparr>rn_active = [], rn_cap = 0\<rparr>
     = (Inl er, open_store, \<lparr>rn_active = [], rn_cap = 0\<rparr>)"
proof -
  let ?rn = "\<lparr>rn_active = [], rn_cap = 0\<rparr>"
  obtain res s' rn' where q: "submit_run demo_env run_cf 5 live_request open_store ?rn = (res, s', rn')"
    by (cases "submit_run demo_env run_cf 5 live_request open_store ?rn")
  have "s' = open_store \<and> rn' = ?rn \<and> (\<forall>run. res = Inr run \<longrightarrow> run \<in> set (st_runs open_store))"
    using full_server_adds_nothing [OF q] by simp
  moreover have "st_runs open_store = []" by (simp add: open_store_def)
  ultimately show ?thesis using q by (cases res) auto
qed

section \<open>Driving is a sequence of transactions\<close>

definition any_step :: "env \<Rightarrow> config \<Rightarrow> store \<Rightarrow> store \<Rightarrow> bool" where
  "any_step e cf s s' \<longleftrightarrow> (\<exists>now. repo_step e cf now s s')"

abbreviation reaches :: "env \<Rightarrow> config \<Rightarrow> store \<Rightarrow> store \<Rightarrow> bool" where
  "reaches e cf \<equiv> (any_step e cf)\<^sup>*\<^sup>*"

text \<open>The other processes run the same repository.\<close>

definition others_ok :: "env \<Rightarrow> config \<Rightarrow> schedule \<Rightarrow> bool" where
  "others_ok e cf S \<longleftrightarrow> (\<forall>k s. reaches e cf s (sc_other S k s))"

definition commits :: "env \<Rightarrow> config \<Rightarrow> 'a act \<Rightarrow> bool" where
  "commits e cf m \<longleftrightarrow> (\<forall>d r d'. m d = (r, d') \<longrightarrow> reaches e cf (dv_store d) (dv_store d'))"

lemma reaches_step: "repo_step e cf now s s' \<Longrightarrow> reaches e cf s s'"
  by (rule r_into_rtranclp) (auto simp: any_step_def)

lemma commits_transact:
  assumes "others_ok e cf S" and "\<And>now s x s'. f now s = Inr (x, s') \<Longrightarrow> reaches e cf s s'"
  shows "commits e cf (transact S f)"
  unfolding commits_def
proof (intro allI impI)
  fix d r d' assume t: "transact S f d = (r, d')"
  let ?s = "sc_other S (dv_tick d) (dv_store d)"
  have "dv_store d' = ?s \<or> (\<exists>x. f (sc_clock S (dv_tick d)) ?s = Inr (x, dv_store d'))"
    using t by (auto simp: transact_def Let_def split: sum.splits prod.splits)
  moreover have "reaches e cf (dv_store d) ?s" using assms(1) by (simp add: others_ok_def)
  ultimately show "reaches e cf (dv_store d) (dv_store d')" using assms(2) rtranclp_trans by metis
qed

lemma commits_bind: "commits e cf m \<Longrightarrow> (\<And>x. commits e cf (f x)) \<Longrightarrow> commits e cf (bindD m f)"
  unfolding commits_def bindD_def by (auto split: prod.splits sum.splits) (metis rtranclp_trans)

lemma commits_publish [simp]: "commits e cf (publish_out i evs)"
  by (simp add: commits_def publish_out_def)

lemma done_unit_Inr: "done_unit r = Inr (x, s) \<longleftrightarrow> r = Inr s"
  by (cases r) (simp_all add: done_unit_def)

lemma commits_finish_run:
  assumes "others_ok e cf S" shows "commits e cf (finish_run e cf S t run phase res detail)"
  unfolding finish_run_def
  by (intro commits_bind commits_transact [OF assms] commits_publish) (blast intro: reaches_step repo_step.finish)

lemma commits_finish_error:
  assumes "others_ok e cf S" shows "commits e cf (finish_error e cf S t run er)"
proof -
  have "commits e cf (transact S (\<lambda>now s. done_unit (retry_harness_run cf now t (hn_id run) (e_err_text e er) s)))"
    by (rule commits_transact [OF assms]) (auto simp: done_unit_Inr intro: reaches_step repo_step.retry)
  then show ?thesis
    using commits_finish_run [OF assms, of t run "error_phase er" None "e_err_text e er"]
    unfolding commits_def finish_error_def by (auto split: option.splits if_splits)
qed

lemma commits_append_event:
  assumes "others_ok e cf S" shows "commits e cf (append_event e cf S t run index hash ev)"
  unfolding append_event_def
  by (intro commits_bind commits_transact [OF assms] commits_publish)
    (auto simp: done_unit_Inr intro: reaches_step repo_step.append)

lemma commits_finish_success:
  assumes "others_ok e cf S" shows "commits e cf (finish_success e cf S t run index call)"
  unfolding finish_success_def
  by (auto split: sum.split intro: commits_finish_error [OF assms] commits_finish_run [OF assms])

lemma commitsD: "commits e cf m \<Longrightarrow> m d = (r, d') \<Longrightarrow> reaches e cf (dv_store d) (dv_store d')"
  by (simp add: commits_def)

lemma transact_tick: "transact S f d = (r, d') \<Longrightarrow> dv_tick d \<le> dv_tick d'"
  by (auto simp: transact_def Let_def split: sum.splits prod.splits)

lemma append_event_tick:
  "append_event e cf S t run index hash ev d = (r, d') \<Longrightarrow> dv_tick d \<le> dv_tick d'"
  by (auto simp: append_event_def bindD_def publish_out_def split: sum.splits prod.splits dest: transact_tick)

text \<open>However the loop ends, it ends in one of the two final transactions or in an error.\<close>

definition loop_exit :: "env \<Rightarrow> config \<Rightarrow> schedule \<Rightarrow> token \<Rightarrow> harness_run \<Rightarrow> native_call \<Rightarrow> drive_state
    \<Rightarrow> unit result \<Rightarrow> drive_state \<Rightarrow> bool" where
  "loop_exit e cf S t run call d r d' \<longleftrightarrow>
     (\<exists>er. finish_error e cf S t run er d = (r, d')) \<or> (\<exists>n. finish_success e cf S t run n call d = (r, d'))
   \<or> (\<exists>er. r = Inl er \<and> d' = d)"

lemma drive_loop_exit:
  assumes "others_ok e cf S"
  shows "drive_loop e cf S t run call index hash raws d = (r, d') \<Longrightarrow>
    \<exists>d1. reaches e cf (dv_store d) (dv_store d1) \<and> dv_tick d \<le> dv_tick d1 \<and> loop_exit e cf S t run call d1 r d'"
proof (induction raws arbitrary: index hash d)
  case Nil
  then have "loop_exit e cf S t run call d r d'"
    by (auto simp: loop_exit_def split: option.splits)
  then show ?case by blast
next
  case (Cons raw raws)
  let ?n = "index + 1" and ?h = "e_sha e (hash @ c_raw raw)"
  show ?case
  proof (cases "(\<exists>er. finish_error e cf S t run er d = (r, d')) \<or> drive_loop e cf S t run call ?n ?h raws d = (r, d')")
    case True
    then show ?thesis
    proof
      assume "\<exists>er. finish_error e cf S t run er d = (r, d')"
      then show ?thesis unfolding loop_exit_def by blast
    qed (rule Cons.IH)
  next
    case False
    then obtain ev q d1 where ap: "append_event e cf S t run ?n ?h ev d = (q, d1)"
      and rest: "(case q of Inl er \<Rightarrow> if er = CtxCanceled \<or> er = ErrInvalidContent then finish_error e cf S t run er d1
             else (Inl er, d1)
         | Inr _ \<Rightarrow> drive_loop e cf S t run call ?n ?h raws d1) = (r, d')"
      using Cons.prems
      by (auto simp: Let_def split: option.splits if_splits sum.splits prod.splits)
    have d1: "reaches e cf (dv_store d) (dv_store d1)"
      by (rule commitsD [OF commits_append_event [OF assms] ap])
    have tick: "dv_tick d \<le> dv_tick d1" by (rule append_event_tick [OF ap])
    show ?thesis
    proof (cases q)
      case (Inl er)
      then have "loop_exit e cf S t run call d1 r d'"
        using rest by (auto simp: loop_exit_def split: if_splits)
      then show ?thesis using d1 tick by blast
    next
      case (Inr u)
      then obtain d2 where "reaches e cf (dv_store d1) (dv_store d2)" "dv_tick d1 \<le> dv_tick d2"
        "loop_exit e cf S t run call d2 r d'"
        using rest Cons.IH by fastforce
      then show ?thesis using d1 tick rtranclp_trans order_trans by metis
    qed
  qed
qed

lemma loop_exit_reaches:
  assumes "others_ok e cf S" and "loop_exit e cf S t run call d r d'"
  shows "reaches e cf (dv_store d) (dv_store d')"
  using assms(2) commitsD [OF commits_finish_error [OF assms(1)]] commitsD [OF commits_finish_success [OF assms(1)]]
  unfolding loop_exit_def by blast

lemma commits_drive_loop:
  assumes "others_ok e cf S" shows "commits e cf (drive_loop e cf S t run call index hash raws)"
  unfolding commits_def using drive_loop_exit [OF assms] loop_exit_reaches [OF assms] rtranclp_trans by metis

lemma commits_observe_call:
  assumes "others_ok e cf S" shows "commits e cf (observe_call e cf S t run q)"
proof -
  have "commits e cf (transact S (\<lambda>now s. done_unit (bind_harness_execution cf now t (hn_id run) x s)))" for x
    by (rule commits_transact [OF assms]) (auto simp: done_unit_Inr intro: reaches_step repo_step.bind)
  then show ?thesis
    unfolding observe_call_def
    by (auto split: sum.split option.split intro!: commits_finish_error [OF assms] commits_bind commits_drive_loop [OF assms])
qed

lemma commits_drive_started:
  assumes "others_ok e cf S" shows "commits e cf (drive_started e cf S adapters t run)"
  unfolding commits_def
proof (intro allI impI)
  fix d r d' assume "drive_started e cf S adapters t run d = (r, d')"
  then have "(\<exists>p x. finish_run e cf S t run p None x d = (r, d')) \<or> (\<exists>q. observe_call e cf S t run q d = (r, d'))"
    unfolding drive_started_def Let_def by (auto split: if_splits option.splits)
  then show "reaches e cf (dv_store d) (dv_store d')"
    using commitsD [OF commits_finish_run [OF assms]] commitsD [OF commits_observe_call [OF assms]] by blast
qed

lemma with_lease_reaches:
  assumes oth: "others_ok e cf S" and body: "\<And>t. commits e cf (body t)"
    and run: "with_lease e S res ttl body d = (r, d')"
  shows "reaches e cf (dv_store d) (dv_store d')"
proof (cases "ttl \<le> 0")
  case True
  then show ?thesis using run by (auto simp: with_lease_def)
next
  case False
  obtain q d1 where a: "transact S (\<lambda>now. acquire e now res ttl) d = (q, d1)"
    by (cases "transact S (\<lambda>now. acquire e now res ttl) d")
  have d1: "reaches e cf (dv_store d) (dv_store d1)"
    by (rule commitsD [OF commits_transact [OF oth] a]) (auto intro: reaches_step repo_step.acquire)
  show ?thesis
  proof (cases q)
    case (Inl er)
    then show ?thesis using run a d1 False by (auto simp: with_lease_def)
  next
    case (Inr t)
    obtain r2 d2 where b: "body t d1 = (r2, d2)" by (cases "body t d1")
    have d2: "reaches e cf (dv_store d1) (dv_store d2)" by (rule commitsD [OF body b])
    have "dv_store d' = unlock t (sc_other S (dv_tick d2) (dv_store d2))"
      using run a b Inr False by (auto simp: with_lease_def Let_def)
    moreover have "reaches e cf (dv_store d2) (sc_other S (dv_tick d2) (dv_store d2))"
      using oth by (simp add: others_ok_def)
    moreover have "reaches e cf x (unlock t x)" for x by (rule reaches_step, rule repo_step.unlock)
    ultimately show ?thesis using d1 d2 by (metis rtranclp_trans)
  qed
qed

lemma drive_reaches:
  assumes "others_ok e cf S" and "drive e cf S adapters ttl i d = (r, d')"
  shows "reaches e cf (dv_store d) (dv_store d')"
proof (rule with_lease_reaches [OF assms(1) _ assms(2) [unfolded drive_def]])
  show "commits e cf (bindD (transact S (\<lambda>now. start_harness_run cf now t i)) (drive_started e cf S adapters t))" for t
    by (intro commits_bind commits_drive_started [OF assms(1)] commits_transact [OF assms(1)])
      (blast intro: reaches_step repo_step.start)
qed

lemma reaches_repo_ok: "reaches e cf s s' \<Longrightarrow> toolkit_laws e \<Longrightarrow> repo_ok e s \<Longrightarrow> repo_ok e s'"
  by (induction rule: rtranclp_induct) (auto simp: any_step_def intro: repo_step_ok)

lemma reaches_finished:
  assumes "reaches e cf s s'" and "toolkit_laws e" and "repo_ok e s" and "finished_as i r m s"
  shows "finished_as i r m s'"
  using assms(1)
proof (induction rule: rtranclp_induct)
  case (step y z)
  have "repo_ok e y" using reaches_repo_ok [OF step(1)] assms(2,3) by blast
  then show ?case using step(2,3) repo_step_finished [OF _ assms(2)] unfolding any_step_def by blast
qed (rule assms(4))

text \<open>
  C23: driving a run, however it ends and whatever the adapter, the clock and the other servers do, is
  a sequence of committed transactions of the repository, its own and the others'; so it keeps
  every run in agreement with its message and every finished run as it is.
\<close>
theorem drive_is_transactions:
  assumes "drive e cf S adapters ttl i d = (r, d')" and "others_ok e cf S" and "toolkit_laws e" and "repo_ok e (dv_store d)"
  shows "reaches e cf (dv_store d) (dv_store d') \<and> repo_ok e (dv_store d') \<and> runs_ok (dv_store d')
    \<and> (\<forall>j run m. finished_as j run m (dv_store d) \<longrightarrow> finished_as j run m (dv_store d'))"
  using drive_reaches [OF assms(2,1)] reaches_repo_ok repo_okD(1) reaches_finished assms(3,4) by blast

section \<open>A drive that returns has settled its run\<close>

text \<open>The transaction that ends a drive: the run finishes, or its next attempt is set a second ahead.\<close>

definition settling :: "env \<Rightarrow> config \<Rightarrow> int \<Rightarrow> token \<Rightarrow> string \<Rightarrow> store \<Rightarrow> store \<Rightarrow> bool" where
  "settling e cf now t i s s' \<longleftrightarrow>
     (\<exists>phase res detail evs. finish_harness_run e cf now t i phase res detail s = Inr (evs, s'))
   \<or> (\<exists>detail. retry_harness_run cf now t i detail s = Inr s')"

text \<open>It is the last transaction of the act, at the last tick, under the drive's own token.\<close>

definition settles :: "env \<Rightarrow> config \<Rightarrow> schedule \<Rightarrow> token \<Rightarrow> string \<Rightarrow> unit act \<Rightarrow> bool" where
  "settles e cf S t i m \<longleftrightarrow>
     (\<forall>d d'. m d = (Inr (), d') \<longrightarrow> (\<exists>k s0. dv_tick d \<le> k \<and> dv_tick d' = Suc k \<and> reaches e cf (dv_store d) s0
        \<and> settling e cf (sc_clock S k) t i (sc_other S k s0) (dv_store d')))"

lemma settlesD: "settles e cf S t i m \<Longrightarrow> m d = (Inr (), d') \<Longrightarrow>
    \<exists>k s0. dv_tick d \<le> k \<and> dv_tick d' = Suc k \<and> reaches e cf (dv_store d) s0
        \<and> settling e cf (sc_clock S k) t i (sc_other S k s0) (dv_store d')"
  by (simp add: settles_def)

lemma settles_after:
  assumes "settles e cf S t i m" and "m d1 = (Inr (), d')"
    and "reaches e cf (dv_store d) (dv_store d1)" and "dv_tick d \<le> dv_tick d1"
  shows "\<exists>k s0. dv_tick d \<le> k \<and> dv_tick d' = Suc k \<and> reaches e cf (dv_store d) s0
        \<and> settling e cf (sc_clock S k) t i (sc_other S k s0) (dv_store d')"
  using settlesD [OF assms(1,2)] assms(3,4) rtranclp_trans order_trans by metis

lemma transact_Inr:
  assumes "transact S f d = (Inr x, d')"
  shows "f (sc_clock S (dv_tick d)) (sc_other S (dv_tick d) (dv_store d)) = Inr (x, dv_store d')"
    "dv_tick d' = Suc (dv_tick d)"
  using assms by (auto simp: transact_def Let_def split: sum.splits prod.splits)

lemma settling_run:
  assumes law: "end_law e" and run: "settling e cf now t i s s'"
  shows "\<exists>r. get_run i s' = Some r \<and> (phase_terminal (hn_phase r) \<or> hn_next_attempt r = now + 1000000000)"
  using run [unfolded settling_def]
proof (elim disjE exE)
  fix phase res detail evs assume "finish_harness_run e cf now t i phase res detail s = Inr (evs, s')"
  then show ?thesis
  proof (rule finish_harness_run_effect [OF law])
    fix r0 m p d x y z
    assume f: "get_run i s = Some r0" "phase_terminal p"
      "s' = put_run (r0\<lparr>hn_phase := p, hn_error := d, hn_updated := now\<rparr>) z" "st_runs z = st_runs s"
    have "get_run i z = Some r0" "hn_id r0 = i"
      using f(1,4) runs.find_key [OF f(1)] by (simp_all add: get_run_def)
    then show ?thesis using f(2,3) by (simp add: runs.find_put)
  qed
next
  fix detail assume "retry_harness_run cf now t i detail s = Inr s'"
  then obtain s1 r0 where "get_run i s1 = Some r0"
    "s' = touch_run now (r0\<lparr>hn_error := detail, hn_next_attempt := now + 1000000000\<rparr>) s1"
    unfolding retry_harness_run_def by (rule harness_transaction_ok) auto
  then show ?thesis using runs.find_key by (fastforce simp: touch_run_def runs.find_put)
qed

lemma finish_run_settles: "settles e cf S t (hn_id run) (finish_run e cf S t run phase res detail)"
  unfolding settles_def
proof (intro allI impI)
  fix d d' assume fr: "finish_run e cf S t run phase res detail d = (Inr (), d')"
  obtain evs d1 where tr: "transact S (\<lambda>now. finish_harness_run e cf now t (hn_id run) phase res detail) d = (Inr evs, d1)"
    and d': "dv_store d' = dv_store d1" "dv_tick d' = dv_tick d1"
    using fr by (auto simp: finish_run_def bindD_def publish_out_def split: sum.splits prod.splits)
  show "\<exists>k s0. dv_tick d \<le> k \<and> dv_tick d' = Suc k \<and> reaches e cf (dv_store d) s0
      \<and> settling e cf (sc_clock S k) t (hn_id run) (sc_other S k s0) (dv_store d')"
    using transact_Inr [OF tr] d'
    by (intro exI [of _ "dv_tick d"] exI [of _ "dv_store d"]) (auto simp: settling_def)
qed

lemma finish_error_settles: "settles e cf S t (hn_id run) (finish_error e cf S t run er)"
  unfolding settles_def
proof (intro allI impI)
  fix d d' assume fe: "finish_error e cf S t run er d = (Inr (), d')"
  show "\<exists>k s0. dv_tick d \<le> k \<and> dv_tick d' = Suc k \<and> reaches e cf (dv_store d) s0
      \<and> settling e cf (sc_clock S k) t (hn_id run) (sc_other S k s0) (dv_store d')"
  proof (cases "is_observation er")
    case True
    then have tr: "transact S (\<lambda>now s. done_unit (retry_harness_run cf now t (hn_id run) (e_err_text e er) s)) d = (Inr (), d')"
      using fe by (simp add: finish_error_def split: option.splits)
    show ?thesis
      using transact_Inr [OF tr]
      by (intro exI [of _ "dv_tick d"] exI [of _ "dv_store d"]) (auto simp: settling_def done_unit_Inr)
  next
    case False
    then have "finish_run e cf S t run (error_phase er) None (e_err_text e er) d = (Inr (), d')"
      using fe by (simp add: finish_error_def split: option.splits)
    then show ?thesis by (rule settlesD [OF finish_run_settles])
  qed
qed

lemma finish_success_settles: "settles e cf S t (hn_id run) (finish_success e cf S t run n call)"
  unfolding finish_success_def
  by (auto split: sum.split intro: finish_error_settles finish_run_settles)

lemma drive_loop_settles:
  assumes "others_ok e cf S"
  shows "settles e cf S t (hn_id run) (drive_loop e cf S t run call index hash raws)"
  unfolding settles_def
proof (intro allI impI)
  fix d d' assume "drive_loop e cf S t run call index hash raws d = (Inr (), d')"
  then obtain d1 where x: "loop_exit e cf S t run call d1 (Inr ()) d'"
    and r: "reaches e cf (dv_store d) (dv_store d1)" "dv_tick d \<le> dv_tick d1"
    using drive_loop_exit [OF assms] by blast
  then show "\<exists>k s0. dv_tick d \<le> k \<and> dv_tick d' = Suc k \<and> reaches e cf (dv_store d) s0
      \<and> settling e cf (sc_clock S k) t (hn_id run) (sc_other S k s0) (dv_store d')"
    using settles_after [OF finish_error_settles _ r] settles_after [OF finish_success_settles _ r]
    unfolding loop_exit_def by blast
qed

lemma settles_transact:
  assumes "commits e cf (transact S g)" and "\<And>x. settles e cf S t i (f x)"
  shows "settles e cf S t i (bindD (transact S g) f)"
  unfolding settles_def
proof (intro allI impI)
  fix d d' assume "bindD (transact S g) f d = (Inr (), d')"
  then obtain x d1 where b: "transact S g d = (Inr x, d1)" "f x d1 = (Inr (), d')"
    by (auto simp: bindD_def split: sum.splits prod.splits)
  show "\<exists>k s0. dv_tick d \<le> k \<and> dv_tick d' = Suc k \<and> reaches e cf (dv_store d) s0
      \<and> settling e cf (sc_clock S k) t i (sc_other S k s0) (dv_store d')"
    by (rule settles_after [OF assms(2) b(2) commitsD [OF assms(1) b(1)] transact_tick [OF b(1)]])
qed

lemma drive_started_settles:
  assumes "others_ok e cf S"
  shows "settles e cf S t (hn_id run) (drive_started e cf S adapters t run)"
proof -
  have bnd: "commits e cf (transact S (\<lambda>now s. done_unit (bind_harness_execution cf now t (hn_id run) x s)))" for x
    by (rule commits_transact [OF assms]) (auto simp: done_unit_Inr intro: reaches_step repo_step.bind)
  have obs: "settles e cf S t (hn_id run) (observe_call e cf S t run q)" for q
    unfolding observe_call_def
    by (auto split: sum.split option.split
        intro!: finish_error_settles settles_transact [OF bnd] drive_loop_settles [OF assms])
  show ?thesis
    unfolding settles_def
  proof (intro allI impI)
    fix d d' assume "drive_started e cf S adapters t run d = (Inr (), d')"
    then have "(\<exists>p x. finish_run e cf S t run p None x d = (Inr (), d')) \<or> (\<exists>q. observe_call e cf S t run q d = (Inr (), d'))"
      unfolding drive_started_def Let_def by (auto split: if_splits option.splits)
    then show "\<exists>k s0. dv_tick d \<le> k \<and> dv_tick d' = Suc k \<and> reaches e cf (dv_store d) s0
        \<and> settling e cf (sc_clock S k) t (hn_id run) (sc_other S k s0) (dv_store d')"
      using settlesD [OF finish_run_settles] settlesD [OF obs] by blast
  qed
qed

lemma start_harness_run_id: "start_harness_run cf now t i s = Inr (run, s') \<Longrightarrow> hn_id run = i"
  unfolding start_harness_run_def by (erule harness_transaction_ok) (auto dest: runs.find_key)

text \<open>The whole of a drive that returns: acquire, start, the body, the transaction that settles it, release.\<close>

lemma drive_settled:
  assumes oth: "others_ok e cf S" and run: "drive e cf S adapters ttl i d = (Inr (), d')"
  obtains t sa r sb k s0 s1 where
    "acquire e (sc_clock S (dv_tick d)) (harness_resource i) ttl (sc_other S (dv_tick d) (dv_store d)) = Inr (t, sa)"
    "start_harness_run cf (sc_clock S (Suc (dv_tick d))) t i (sc_other S (Suc (dv_tick d)) sa) = Inr (r, sb)"
    "dv_tick d + 2 \<le> k" "reaches e cf sb s0" "settling e cf (sc_clock S k) t i (sc_other S k s0) s1"
    "dv_tick d' = k + 2" "dv_store d' = unlock t (sc_other S (Suc k) s1)"
proof -
  obtain t d1 d2 where a: "transact S (\<lambda>now. acquire e now (harness_resource i) ttl) d = (Inr t, d1)" and b: "bindD (transact S (\<lambda>now. start_harness_run cf now t i)) (drive_started e cf S adapters t) d1 = (Inr (), d2)"
    and d': "dv_store d' = unlock t (sc_other S (dv_tick d2) (dv_store d2))" "dv_tick d' = Suc (dv_tick d2)"
    using run by (auto simp: drive_def with_lease_def Let_def split: if_splits sum.splits prod.splits option.splits)
  obtain r d3 where st: "transact S (\<lambda>now. start_harness_run cf now t i) d1 = (Inr r, d3)"
    and dr: "drive_started e cf S adapters t r d3 = (Inr (), d2)"
    using b by (auto simp: bindD_def split: sum.splits prod.splits)
  note A = transact_Inr [OF a] and T = transact_Inr [OF st]
  have "hn_id r = i" using start_harness_run_id [OF T(1)] .
  then obtain k s0 where k: "dv_tick d3 \<le> k" "dv_tick d2 = Suc k" "reaches e cf (dv_store d3) s0"
    "settling e cf (sc_clock S k) t i (sc_other S k s0) (dv_store d2)"
    using settlesD [OF drive_started_settles [OF oth] dr] by blast
  show thesis
    by (rule that [OF A(1) _ _ k(3,4)]) (use A T k d' in simp_all)
qed

text \<open>
  C24: a drive that returns without an error has settled its run itself. It acquired the run's resource and started
  the run, and its last transaction but the release, which is neither of these two and which runs at the last tick
  but one under the token it acquired, finished the run or set its next attempt to one second after that
  transaction; a run that was finished stays finished. An adapter that fails, ends early,
  answers with a wrong identity or cannot resume never leaves the run driven by nobody.
\<close>
theorem drive_settles_run:
  assumes "drive e cf S adapters ttl i d = (Inr (), d')" and "others_ok e cf S" and "toolkit_laws e"
    and "repo_ok e (dv_store d)"
  shows "\<exists>t sa run sb k s0 s1 r.
      acquire e (sc_clock S (dv_tick d)) (harness_resource i) ttl (sc_other S (dv_tick d) (dv_store d)) = Inr (t, sa)
    \<and> start_harness_run cf (sc_clock S (Suc (dv_tick d))) t i (sc_other S (Suc (dv_tick d)) sa) = Inr (run, sb)
    \<and> reaches e cf sb s0 \<and> dv_tick d + 2 \<le> k
    \<and> ((\<exists>phase res detail evs. finish_harness_run e cf (sc_clock S k) t i phase res detail (sc_other S k s0) = Inr (evs, s1))
       \<or> (\<exists>detail. retry_harness_run cf (sc_clock S k) t i detail (sc_other S k s0) = Inr s1))
    \<and> dv_tick d' = k + 2 \<and> dv_store d' = unlock t (sc_other S (Suc k) s1)
    \<and> get_run i s1 = Some r \<and> (phase_terminal (hn_phase r) \<or> hn_next_attempt r = sc_clock S k + 1000000000)
    \<and> (phase_terminal (hn_phase r) \<longrightarrow> get_run i (dv_store d') = Some r)"
proof -
  obtain t sa run sb k s0 s1 where f:
    "acquire e (sc_clock S (dv_tick d)) (harness_resource i) ttl (sc_other S (dv_tick d) (dv_store d)) = Inr (t, sa)"
    "start_harness_run cf (sc_clock S (Suc (dv_tick d))) t i (sc_other S (Suc (dv_tick d)) sa) = Inr (run, sb)"
    "dv_tick d + 2 \<le> k" "reaches e cf sb s0" "settling e cf (sc_clock S k) t i (sc_other S k s0) s1"
    "dv_tick d' = k + 2" "dv_store d' = unlock t (sc_other S (Suc k) s1)"
    by (rule drive_settled [OF assms(2,1)])
  obtain r where r: "get_run i s1 = Some r" "phase_terminal (hn_phase r) \<or> hn_next_attempt r = sc_clock S k + 1000000000"
    using settling_run [OF toolkit_lawsD(3) [OF assms(3)] f(5)] by blast
  have other: "reaches e cf x (sc_other S n x)" for n x using assms(2) by (simp add: others_ok_def)
  have "reaches e cf (sc_other S k s0) s1"
    using f(5) unfolding settling_def by (blast intro: reaches_step repo_step.finish repo_step.retry)
  moreover have "reaches e cf (dv_store d) (sc_other S k s0)"
  proof -
    have "reaches e cf (sc_other S (dv_tick d) (dv_store d)) sa"
      by (rule reaches_step, rule repo_step.acquire [OF f(1)])
    moreover have "reaches e cf (sc_other S (Suc (dv_tick d)) sa) sb"
      by (rule reaches_step, rule repo_step.start [OF f(2)])
    ultimately show ?thesis using other f(4) by (meson rtranclp_trans)
  qed
  ultimately have to1: "reaches e cf (dv_store d) s1" by (rule rtranclp_trans [rotated])
  have ok: "repo_ok e s1" by (rule reaches_repo_ok [OF to1 assms(3,4)])
  have to2: "reaches e cf s1 (dv_store d')"
    unfolding f(7) by (rule rtranclp_trans [OF other]) (rule reaches_step, rule repo_step.unlock)
  have "get_run i (dv_store d') = Some r" if "phase_terminal (hn_phase r)"
  proof -
    obtain m where "get_msg (hn_message r) s1 = Some m"
      using runs_okD [OF repo_okD(1) [OF ok]] get_run_mem [OF r(1)] by blast
    then have "finished_as i r m s1" using r(1) that by (simp add: finished_as_def)
    from reaches_finished [OF to2 assms(3) ok this] show ?thesis by (simp add: finished_as_def)
  qed
  then show ?thesis using f r unfolding settling_def by blast
qed

definition quiet_schedule :: schedule where
  "quiet_schedule = \<lparr>sc_clock = (\<lambda>_. 5), sc_other = (\<lambda>_ s. s), sc_observation = (\<lambda>_. None), sc_owned = (\<lambda>_. None),
     sc_renewal = (\<lambda>_. None)\<rparr>"

definition demo_drive_state :: drive_state where
  "demo_drive_state = \<lparr>dv_tick = 0, dv_store = live_store\<lparr>st_locks := []\<rparr>, dv_published = []\<rparr>"

lemma quiet_others: "others_ok e cf quiet_schedule"
  by (simp add: others_ok_def quiet_schedule_def)

lemma demo_driven: "(case drive demo_env run_cf quiet_schedule (\<lambda>_. None) 3000000000 ''r1'' demo_drive_state of
    (Inr u, d) \<Rightarrow> True | (Inl er, d) \<Rightarrow> False)"
  by code_simp

lemma demo_drive:
  obtains d where "drive demo_env run_cf quiet_schedule (\<lambda>_. None) 3000000000 ''r1'' demo_drive_state = (Inr (), d)"
  using demo_driven by (auto split: prod.splits sum.splits)

lemma demo_drive_ok: "repo_ok demo_env (dv_store demo_drive_state)"
proof -
  have "quiet live_store (live_store\<lparr>st_locks := []\<rparr>)" by (rule quiet_same) simp_all
  then show ?thesis
    using live_repo_ok quiet_runs_ok quiet_outputs by (auto simp: repo_ok_def demo_drive_state_def)
qed

theorem drive_is_transactions_witness:
  "\<exists>d :: drive_state. reaches demo_env run_cf (dv_store demo_drive_state) (dv_store d) \<and> runs_ok (dv_store d)"
proof -
  obtain d where d: "drive demo_env run_cf quiet_schedule (\<lambda>_. None) 3000000000 ''r1'' demo_drive_state = (Inr (), d)"
    by (rule demo_drive)
  show ?thesis using drive_is_transactions [OF d quiet_others demo_toolkit demo_drive_ok] by blast
qed

theorem drive_settles_run_witness:
  "\<exists>d t k s0 s1. drive demo_env run_cf quiet_schedule (\<lambda>_. None) 3000000000 ''r1'' demo_drive_state = (Inr (), d)
     \<and> 2 \<le> k \<and> dv_tick d = k + 2 \<and> dv_store d = unlock t s1
     \<and> ((\<exists>phase res detail evs. finish_harness_run demo_env run_cf 5 t ''r1'' phase res detail s0 = Inr (evs, s1))
        \<or> (\<exists>detail. retry_harness_run run_cf 5 t ''r1'' detail s0 = Inr s1))"
proof -
  obtain d where d: "drive demo_env run_cf quiet_schedule (\<lambda>_. None) 3000000000 ''r1'' demo_drive_state = (Inr (), d)"
    by (rule demo_drive)
  have S: "sc_clock quiet_schedule n = 5" "sc_other quiet_schedule n x = x" "dv_tick demo_drive_state = 0" for n x
    by (simp_all add: quiet_schedule_def demo_drive_state_def)
  note T = drive_settles_run [OF d quiet_others demo_toolkit demo_drive_ok, unfolded S add_0]
  show ?thesis using T d by blast
qed

section \<open>Replay\<close>

fun replay_hash :: "env \<Rightarrow> string \<Rightarrow> content list \<Rightarrow> string" where
  "replay_hash e h [] = h"
| "replay_hash e h (raw # raws) = replay_hash e (e_sha e (h @ c_raw raw)) raws"

lemma drive_loop_skips:
  assumes "sc_observation S (dv_tick d) = None"
  shows "index + length done < hn_checkpoint run \<Longrightarrow>
    drive_loop e cf S t run call index h (done @ raws) d
      = drive_loop e cf S t run call (index + length done) (replay_hash e h done) raws d"
  using assms by (induction "done" arbitrary: index h) (simp_all add: Let_def)

text \<open>
  C25: resuming is replaying. When the events an adapter delivers again start with those whose running
  hash was stored at the checkpoint, the loop writes nothing for them and goes on exactly as if it
  had stood at the checkpoint; when the hash differs, it writes no event and ends the run with an error.
\<close>
theorem replay_resumes_at_checkpoint:
  assumes "length done = hn_checkpoint run" and "done \<noteq> []" and "sc_observation S (dv_tick d) = None"
  shows "drive_loop e cf S t run call 0 [] (done @ raws) d
    = (if replay_hash e [] done = hn_replay_hash run
       then drive_loop e cf S t run call (hn_checkpoint run) (hn_replay_hash run) raws d
       else finish_error e cf S t run (ErrText ''Harness replay differs from persisted output'') d)"
proof -
  obtain ds x where ds: "done = ds @ [x]" using assms(2) by (metis append_butlast_last_id)
  have n: "hn_checkpoint run = Suc (length ds)" using assms(1) ds by simp
  have "replay_hash e h (ds @ [x]) = e_sha e (replay_hash e h ds @ c_raw x)" for h
    by (induction ds arbitrary: h) simp_all
  then show ?thesis
    using drive_loop_skips [OF assms(3), of 0 ds run e cf t call "[]" "x # raws"] assms(3) n
    by (simp add: ds Let_def)
qed

theorem replay_resumes_at_checkpoint_witness:
  "\<forall>c raws. drive_loop demo_env run_cf quiet_schedule live_token (live_run\<lparr>hn_checkpoint := 1, hn_replay_hash := ''x''\<rparr>) c 0 []
     ([Content None ''x''] @ raws) demo_drive_state
   = drive_loop demo_env run_cf quiet_schedule live_token (live_run\<lparr>hn_checkpoint := 1, hn_replay_hash := ''x''\<rparr>) c 1 ''x''
     raws demo_drive_state"
proof (intro allI)
  fix c raws
  show "drive_loop demo_env run_cf quiet_schedule live_token (live_run\<lparr>hn_checkpoint := 1, hn_replay_hash := ''x''\<rparr>) c 0 []
     ([Content None ''x''] @ raws) demo_drive_state
   = drive_loop demo_env run_cf quiet_schedule live_token (live_run\<lparr>hn_checkpoint := 1, hn_replay_hash := ''x''\<rparr>) c 1 ''x''
     raws demo_drive_state"
    using replay_resumes_at_checkpoint [of "[Content None ''x'']" "live_run\<lparr>hn_checkpoint := 1, hn_replay_hash := ''x''\<rparr>"
        quiet_schedule demo_drive_state demo_env run_cf live_token c raws]
    by (simp add: quiet_schedule_def)
qed

end
