(* ===== verification/Listeners.thy ===== *)
theory Listeners
  imports Services
begin

text \<open>
  The readers that follow output for one page (\<^verbatim>\<open>server/internal/component\<close>): \<open>MessageListener\<close>
  for one message, \<open>ConvListener\<close> for a conversation, and the sweep that expires inactive
  output. A listener is a state machine: its inputs are the timers, the deliveries of the event
  bridge and the end of a bridge reader, each with the store it reads, its outputs the events
  delivered to the page. A failed delivery ends the request and is not a step.
\<close>

section \<open>Expiry sweep\<close>

definition sweep :: "int \<Rightarrow> int \<Rightarrow> nat \<Rightarrow> store \<Rightarrow> string list \<times> store" where
  "sweep now ttl batch s = expire_messages (now - ttl) batch s"

section \<open>Following one message\<close>

record listener =
  ml_revision :: nat
  ml_reading :: bool
  ml_done :: bool
  ml_out :: "event list"

datatype listen_input =
    LHeartbeat
  | LTick store
  | LBridge store
  | LEvent event store

definition ping :: "nat \<Rightarrow> event" where
  "ping n = no_event\<lparr>ev_op := OpPing, ev_seq := n\<rparr>"

definition emit_out :: "event list \<Rightarrow> listener \<Rightarrow> listener" where
  "emit_out evs l = l\<lparr>ml_out := ml_out l @ evs\<rparr>"

definition listen_start :: "env \<Rightarrow> string \<Rightarrow> store \<Rightarrow> listener result" where
  "listen_start e i s =
     bindR (get_message e i s) (\<lambda>m.
     bindR (e_start e (m_content m) (m_revision m)) (\<lambda>start.
       if status_terminal (m_status m)
       then Inr \<lparr>ml_revision = m_revision m, ml_reading = False, ml_done = True,
                 ml_out = [start, e_end e (m_revision m)]\<rparr>
       else Inr \<lparr>ml_revision = m_revision m, ml_reading = True, ml_done = False, ml_out = [start]\<rparr>))"

text \<open>\<^verbatim>\<open>repair\<close>: a full snapshot when the database is ahead, and the end of an ended message.\<close>

definition repair :: "env \<Rightarrow> string \<Rightarrow> store \<Rightarrow> listener \<Rightarrow> listener result" where
  "repair e i s l =
     bindR (get_message_state i s) (\<lambda>st.
     bindR (if ml_revision l < ms_revision st then
              bindR (get_message e i s) (\<lambda>m.
              bindR (e_start e (m_content m) (m_revision m)) (\<lambda>ev.
                Inr ((emit_out [ev] l)\<lparr>ml_revision := m_revision m\<rparr>)))
            else Inr l) (\<lambda>l1.
       if ms_ended st then Inr ((emit_out [e_end e (ml_revision l1)] l1)\<lparr>ml_done := True\<rparr>) else Inr l1))"

fun listen_step :: "env \<Rightarrow> string \<Rightarrow> listen_input \<Rightarrow> listener \<Rightarrow> listener result" where
  "listen_step e i LHeartbeat l = Inr (emit_out [ping (ml_revision l)] l)"
| "listen_step e i (LTick s) l = repair e i s (l\<lparr>ml_reading := True\<rparr>)"
| "listen_step e i (LBridge s) l = repair e i s (l\<lparr>ml_reading := False\<rparr>)"
| "listen_step e i (LEvent ev s) l =
     (if ev_op ev = OpPing then Inr (emit_out [ev] l)
      else if ev_seq ev \<le> ml_revision l then Inr l
      else if ev_op ev \<noteq> OpStart \<and> ev_seq ev \<noteq> ml_revision l + 1 then repair e i s l
      else Inr ((emit_out [ev] l)\<lparr>ml_revision := ev_seq ev, ml_done := (ev_op ev = OpEnd)\<rparr>))"

fun listen_run :: "env \<Rightarrow> string \<Rightarrow> listen_input list \<Rightarrow> listener \<Rightarrow> listener result" where
  "listen_run e i [] l = Inr l"
| "listen_run e i (x # xs) l =
     (if ml_done l then Inr l else bindR (listen_step e i x l) (listen_run e i xs))"

section \<open>Following a conversation\<close>

record watch =
  wt_message :: message
  wt_revision :: nat
  wt_reader :: "nat option"
  wt_retry :: int

record conv_event =
  ce_id :: string
  ce_message :: "cmessage option"
  ce_event :: event

text \<open>\<open>cn_next\<close> names the next bridge reader; a delivery carries the name of its reader.\<close>

record conv_listener =
  cl_watching :: "(string \<times> watch) list"
  cl_after :: string
  cl_watermark :: string
  cl_next :: nat
  cl_out :: "conv_event list"

definition discovery_page_size :: nat where
  "discovery_page_size = 100"

definition new_watch :: "message \<Rightarrow> watch" where
  "new_watch m = \<lparr>wt_message = m, wt_revision = 0, wt_reader = None, wt_retry = zero_time\<rparr>"

definition addressed_event :: "env \<Rightarrow> string \<Rightarrow> event \<Rightarrow> event result" where
  "addressed_event e i ev =
     (let ev1 = ev\<lparr>ev_stream := i\<rparr> in bindR (e_marshal e ev1) (\<lambda>_. Inr ev1))"

definition start_reader :: "int \<Rightarrow> watch \<times> nat \<Rightarrow> watch \<times> nat" where
  "start_reader now wn =
     (let (w, n) = wn
      in if wt_reader w \<noteq> None \<or> now < wt_retry w then (w, n)
         else (w\<lparr>wt_retry := now + 1000000000, wt_reader := Some n\<rparr>, Suc n))"

text \<open>\<^verbatim>\<open>snapshot\<close>: the database's revision, unless the page already has it.\<close>

definition snapshot_out :: "env \<Rightarrow> message \<Rightarrow> watch \<Rightarrow> (watch \<times> conv_event list) result" where
  "snapshot_out e row w =
     (let revn = (if m_revision row = 0 then 1 else m_revision row)
      in if revn \<le> wt_revision w then Inr (w, [])
         else bindR (e_start e (m_content row) revn) (\<lambda>patch.
              bindR (addressed_event e (m_id row) patch) (\<lambda>st.
              let shown = \<lparr>ce_id = m_id row, ce_message = Some (message_from_model row), ce_event = st\<rparr>;
                  w1 = w\<lparr>wt_revision := revn\<rparr>
              in if status_terminal (m_status row) then
                   bindR (addressed_event e (m_id row) (e_end e revn)) (\<lambda>en.
                     Inr (w1, [shown, \<lparr>ce_id = m_id row, ce_message = None, ce_event = en\<rparr>]))
                 else Inr (w1, [shown]))))"

definition drop_watch :: "string \<Rightarrow> conv_listener \<Rightarrow> conv_listener" where
  "drop_watch i c = c\<lparr>cl_watching := filter (\<lambda>x. fst x \<noteq> i) (cl_watching c)\<rparr>"

definition observe :: "env \<Rightarrow> int \<Rightarrow> message \<Rightarrow> conv_listener \<Rightarrow> conv_listener result" where
  "observe e now row c =
     (let w = (case map_of (cl_watching c) (m_id row) of None \<Rightarrow> new_watch row | Some w \<Rightarrow> w)
      in bindR (snapshot_out e row w) (\<lambda>(w1, out).
         let w2 = w1\<lparr>wt_message := row\<rparr>; live = \<not> status_terminal (m_status row);
             c1 = c\<lparr>cl_out := cl_out c @ out\<rparr>
         in if live \<or> m_human_due row \<noteq> None then
              (let (w3, n) = (if live then start_reader now (w2, cl_next c) else (w2, cl_next c))
               in Inr (c1\<lparr>cl_watching := al_set (m_id row) w3 (cl_watching c), cl_next := n\<rparr>))
            else Inr (drop_watch (m_id row) c1)))"

definition observe_found :: "env \<Rightarrow> int \<Rightarrow> conv_listener \<Rightarrow> message \<Rightarrow> conv_listener result" where
  "observe_found e now c row = bindR (observe e now row c) (\<lambda>c1. Inr (c1\<lparr>cl_after := m_id row\<rparr>))"

definition discover ::
    "env \<Rightarrow> int \<Rightarrow> string \<Rightarrow> store \<Rightarrow> conv_listener \<Rightarrow> (nat \<times> conv_listener) result" where
  "discover e now conv s c =
     bindR (list_stream_messages e conv (cl_after c) (cl_watermark c) discovery_page_size s) (\<lambda>rows.
     bindR (foldR (observe_found e now) c rows) (\<lambda>c1. Inr (length rows, c1)))"

text \<open>The bootstrap reads pages until a short one; \<open>n\<close> bounds the number of pages.\<close>

fun bootstrap ::
    "env \<Rightarrow> int \<Rightarrow> string \<Rightarrow> store \<Rightarrow> nat \<Rightarrow> conv_listener \<Rightarrow> conv_listener option result" where
  "bootstrap e now conv s 0 c = Inr None"
| "bootstrap e now conv s (Suc n) c =
     bindR (discover e now conv s c) (\<lambda>(count, c1).
       if count < discovery_page_size
       then Inr (Some (c1\<lparr>cl_after := (if cl_after c1 < cl_watermark c1 then cl_watermark c1 else cl_after c1)\<rparr>))
       else bootstrap e now conv s n c1)"

text \<open>\<open>conv_open\<close> is the state after the bootstrap: a ping shows the page it is live.\<close>

definition conv_start :: "string \<Rightarrow> store \<Rightarrow> conv_listener" where
  "conv_start conv s =
     \<lparr>cl_watching = [], cl_after = [], cl_watermark = latest_message_id conv s, cl_next = 0, cl_out = []\<rparr>"

definition conv_open :: "env \<Rightarrow> int \<Rightarrow> string \<Rightarrow> nat \<Rightarrow> store \<Rightarrow> conv_listener option result" where
  "conv_open e now conv n s =
     bindR (bootstrap e now conv s n (conv_start conv s)) (\<lambda>found.
       Inr (map_option (\<lambda>c. c\<lparr>cl_out := cl_out c @ [\<lparr>ce_id = [], ce_message = None, ce_event = ping 0\<rparr>]\<rparr>) found))"

definition refresh_one ::
    "env \<Rightarrow> int \<Rightarrow> store \<Rightarrow> conv_listener \<Rightarrow> message_state \<Rightarrow> conv_listener result" where
  "refresh_one e now s c st =
     (case map_of (cl_watching c) (ms_id st) of
        None \<Rightarrow> Inl GoPanic
      | Some w \<Rightarrow>
          if wt_revision w < ms_revision st \<or> ms_status st \<noteq> m_status (wt_message w) then
            (case get_message e (ms_id st) s of
               Inl er \<Rightarrow> if er = ErrNotFound then Inr (drop_watch (ms_id st) c) else Inl er
             | Inr row \<Rightarrow> observe e now row c)
          else if ms_ended st \<and> ms_due st = None then Inr (drop_watch (ms_id st) c)
          else if \<not> ms_ended st then
            (let (w1, n) = start_reader now (w, cl_next c)
             in Inr (c\<lparr>cl_watching := al_set (ms_id st) w1 (cl_watching c), cl_next := n\<rparr>))
          else Inr c)"

definition refresh_batch ::
    "env \<Rightarrow> int \<Rightarrow> string \<Rightarrow> store \<Rightarrow> string list \<Rightarrow> conv_listener \<Rightarrow> conv_listener result" where
  "refresh_batch e now conv s batch c =
     (let states = get_message_states conv batch s
      in bindR (foldR (refresh_one e now s) c states) (\<lambda>c1.
           Inr (foldr drop_watch (filter (\<lambda>i. i \<notin> ms_id ` set states) batch) c1)))"

function refresh_ids ::
    "env \<Rightarrow> int \<Rightarrow> string \<Rightarrow> store \<Rightarrow> string list \<Rightarrow> conv_listener \<Rightarrow> conv_listener result" where
  "refresh_ids e now conv s ids c =
     (if ids = [] then Inr c
      else bindR (refresh_batch e now conv s (take discovery_page_size ids) c)
             (refresh_ids e now conv s (drop discovery_page_size ids)))"
  by pat_completeness auto
termination
  by (relation "measure (\<lambda>(e, now, conv, s, ids, c). length ids)")
    (auto simp: discovery_page_size_def)

declare refresh_ids.simps [simp del]

definition refresh_active ::
    "env \<Rightarrow> int \<Rightarrow> string \<Rightarrow> store \<Rightarrow> conv_listener \<Rightarrow> conv_listener result" where
  "refresh_active e now conv s c = refresh_ids e now conv s (map fst (cl_watching c)) c"

datatype conv_input =
    CHeartbeat
  | CTick int store
  | CDone string nat
  | CDelivery string nat event int store

definition conv_tick ::
    "env \<Rightarrow> int \<Rightarrow> string \<Rightarrow> store \<Rightarrow> conv_listener \<Rightarrow> conv_listener result" where
  "conv_tick e now conv s c =
     bindR (discover e now conv s c) (\<lambda>(_, c1). refresh_active e now conv s c1)"

definition deliver_patch ::
    "env \<Rightarrow> string \<Rightarrow> watch \<Rightarrow> event \<Rightarrow> conv_listener \<Rightarrow> conv_listener result" where
  "deliver_patch e i w ev c =
     bindR (addressed_event e i ev) (\<lambda>ev1.
       Inr (c\<lparr>cl_watching := al_set i (w\<lparr>wt_revision := ev_seq ev\<rparr>) (cl_watching c),
              cl_out := cl_out c @ [\<lparr>ce_id = i, ce_message = None, ce_event = ev1\<rparr>]\<rparr>))"

definition conv_delivery ::
    "env \<Rightarrow> string \<Rightarrow> watch \<Rightarrow> event \<Rightarrow> int \<Rightarrow> store \<Rightarrow> conv_listener \<Rightarrow> conv_listener result" where
  "conv_delivery e i w ev now s c =
     (if ev_op ev = OpEnd \<or> (ev_op ev = OpStart \<and> wt_revision w < ev_seq ev)
      then bindR (get_message e i s) (\<lambda>row. observe e now row c)
      else if ev_op ev = OpPing \<or> ev_seq ev \<le> wt_revision w then Inr c
      else if ev_op ev \<noteq> OpStart \<and> ev_seq ev \<noteq> wt_revision w + 1 then Inr c
      else deliver_patch e i w ev c)"

fun conv_input_step :: "env \<Rightarrow> string \<Rightarrow> conv_input \<Rightarrow> conv_listener \<Rightarrow> conv_listener result" where
  "conv_input_step e conv CHeartbeat c =
     Inr (c\<lparr>cl_out := cl_out c @ [\<lparr>ce_id = [], ce_message = None, ce_event = ping 0\<rparr>]\<rparr>)"
| "conv_input_step e conv (CTick now s) c = conv_tick e now conv s c"
| "conv_input_step e conv (CDone i n) c =
     (case map_of (cl_watching c) i of
        None \<Rightarrow> Inr c
      | Some w \<Rightarrow>
          if wt_reader w \<noteq> Some n then Inr c
          else Inr (c\<lparr>cl_watching := al_set i (w\<lparr>wt_reader := None\<rparr>) (cl_watching c)\<rparr>))"
| "conv_input_step e conv (CDelivery i n ev now s) c =
     (case map_of (cl_watching c) i of
        None \<Rightarrow> Inr c
      | Some w \<Rightarrow>
          if wt_reader w \<noteq> Some n then Inr c else conv_delivery e i w ev now s c)"

definition conv_run :: "env \<Rightarrow> string \<Rightarrow> conv_listener \<Rightarrow> conv_input list \<Rightarrow> conv_listener result" where
  "conv_run e conv c xs = foldR (\<lambda>c x. conv_input_step e conv x c) c xs"

end
