(* ===== verification/ListenerProps.thy ===== *)
theory ListenerProps
  imports ServiceFacts Listeners
begin

text \<open>
  The properties of the readers: what a page receives is a stream it can apply, an ended message
  ends its stream, and opening a conversation reads all of it.
\<close>

section \<open>Streams\<close>

text \<open>The events the UI package makes from a snapshot: their operation and sequence number.\<close>

definition stream_law :: "env \<Rightarrow> bool" where
  "stream_law e \<longleftrightarrow>
     (\<forall>c n ev. e_start e c n = Inr ev \<longrightarrow> ev_op ev = OpStart \<and> ev_seq ev = n)
   \<and> (\<forall>n. ev_op (e_end e n) = OpEnd \<and> ev_seq (e_end e n) = n)"

text \<open>
  A reader at revision \<open>n\<close>: a snapshot replaces what it has by something newer, a change extends it
  by exactly one revision, an end closes it where it is or with the next revision.
\<close>

definition apply_view :: "nat \<Rightarrow> event \<Rightarrow> nat option" where
  "apply_view n ev =
     (if ev_op ev = OpPing then Some n
      else if ev_op ev = OpStart then (if n < ev_seq ev then Some (ev_seq ev) else None)
      else if ev_op ev = OpEnd \<and> ev_seq ev = n then Some n
      else if ev_seq ev = n + 1 then Some (ev_seq ev) else None)"

fun read_view :: "nat \<Rightarrow> event list \<Rightarrow> nat option" where
  "read_view n [] = Some n"
| "read_view n (ev # evs) = (case apply_view n ev of None \<Rightarrow> None | Some k \<Rightarrow> read_view k evs)"

lemma read_view_append:
  "read_view n (xs @ ys) = (case read_view n xs of None \<Rightarrow> None | Some k \<Rightarrow> read_view k ys)"
  by (induction xs arbitrary: n) (auto split: option.splits)

lemma read_view_ge: "read_view n evs = Some k \<Longrightarrow> n \<le> k"
  by (induction evs arbitrary: n) (fastforce simp: apply_view_def split: option.splits if_splits)+

text \<open>What a listener has delivered: a snapshot, then a stream that brings the page to its revision.\<close>

definition stream_ok :: "listener \<Rightarrow> bool" where
  "stream_ok l \<longleftrightarrow>
     (\<exists>st rest. ml_out l = st # rest \<and> ev_op st = OpStart \<and> read_view (ev_seq st) rest = Some (ml_revision l)
        \<and> (if ml_done l then \<exists>evs z. rest = evs @ [z] \<and> ev_op z = OpEnd \<and> (\<forall>x \<in> set evs. ev_op x \<noteq> OpEnd)
           else \<forall>x \<in> set rest. ev_op x \<noteq> OpEnd))"

lemma get_message_row:
  assumes "get_message e i s = Inr m"
  shows "\<exists>row. get_msg i s = Some row \<and> same_row row m"
proof -
  let ?rows = "take 1 (filter (\<lambda>m. m_id m = i) (st_msgs s))"
  obtain hs where hs: "read_messages e s ?rows = Inr (m # hs)"
  proof -
    obtain hs where "read_messages e s ?rows = Inr hs" "(case hs of [] \<Rightarrow> Inl ErrNotFound | m # _ \<Rightarrow> Inr m) = Inr m"
      using assms unfolding get_message_def one_message_def bindR_eq_Inr by blast
    then show thesis using that by (cases hs) auto
  qed
  note A = read_messages_same [OF this]
  then obtain row where row: "?rows = [row]" "same_row row m"
  proof -
    show thesis using that A by (cases "filter (\<lambda>m. m_id m = i) (st_msgs s)") (auto simp: list_all2_Cons2)
  qed
  have "tbl_find m_id i ms = Some row" if "take 1 (filter (\<lambda>m. m_id m = i) ms) = [row]" for ms
    using that by (induction ms) (auto split: if_splits)
  then show ?thesis using row by (simp add: get_msg_def)
qed

lemma get_message_state_row:
  assumes "get_message_state i s = Inr st"
  obtains row where "get_msg i s = Some row" "st = state_of False row"
  using assms by (auto simp: get_message_state_def)

lemma stream_ok_more:
  assumes "stream_ok l" and "\<not> ml_done l" and "read_view (ml_revision l) evs = Some n"
    and "if d then \<exists>es z. evs = es @ [z] \<and> ev_op z = OpEnd \<and> (\<forall>x \<in> set es. ev_op x \<noteq> OpEnd)
         else \<forall>x \<in> set evs. ev_op x \<noteq> OpEnd"
    and "ml_out l' = ml_out l @ evs" and "ml_revision l' = n" and "ml_done l' = d"
  shows "stream_ok l'"
proof -
  obtain st rest where l: "ml_out l = st # rest" "ev_op st = OpStart"
    "read_view (ev_seq st) rest = Some (ml_revision l)" "\<forall>x \<in> set rest. ev_op x \<noteq> OpEnd"
    using assms(1,2) by (auto simp: stream_ok_def)
  have "read_view (ev_seq st) (rest @ evs) = Some n" using l(3) assms(3) by (simp add: read_view_append)
  moreover have "if d then \<exists>es z. rest @ evs = es @ [z] \<and> ev_op z = OpEnd \<and> (\<forall>x \<in> set es. ev_op x \<noteq> OpEnd)
      else \<forall>x \<in> set (rest @ evs). ev_op x \<noteq> OpEnd"
  proof (cases d)
    case True
    then obtain es z where "evs = es @ [z]" "ev_op z = OpEnd" "\<forall>x \<in> set es. ev_op x \<noteq> OpEnd" using assms(4) by auto
    then show ?thesis using True l(4) by (intro if_P [THEN iffD2, OF True] exI [of _ "rest @ es"] exI [of _ z]) auto
  next
    case False
    then show ?thesis using assms(4) l(4) by auto
  qed
  ultimately show ?thesis using l(1,2) assms(5-7) unfolding stream_ok_def by auto
qed

text \<open>What a repair delivers.\<close>

lemma repair_effect:
  assumes "stream_law e" and "repair e i s l = Inr l'"
  shows "\<exists>row evs. get_msg i s = Some row \<and> ml_out l' = ml_out l @ evs
    \<and> ml_revision l' = max (ml_revision l) (m_revision row)
    \<and> read_view (ml_revision l) evs = Some (ml_revision l')
    \<and> (if status_terminal (m_status row)
       then ml_done l' \<and> (\<exists>es. evs = es @ [e_end e (ml_revision l')] \<and> (\<forall>x \<in> set es. ev_op x \<noteq> OpEnd))
       else ml_done l' = ml_done l \<and> (\<forall>x \<in> set evs. ev_op x \<noteq> OpEnd))"
proof -
  obtain st where st: "get_message_state i s = Inr st" using assms(2) by (auto simp: repair_def bindR_eq_Inr)
  then obtain row where row: "get_msg i s = Some row" "st = state_of False row" by (rule get_message_state_row)
  have sel: "ms_revision st = m_revision row" "ms_ended st = status_terminal (m_status row)"
    by (simp_all add: row(2) state_of_def)
  have law: "ev_op (e_end e n) = OpEnd" "ev_seq (e_end e n) = n" for n using assms(1) by (simp_all add: stream_law_def)
  show ?thesis
  proof (cases "ml_revision l < m_revision row")
    case False
    then have "max (ml_revision l) (m_revision row) = ml_revision l" by simp
    moreover have "apply_view n (e_end e n) = Some n" for n using law by (simp add: apply_view_def)
    ultimately show ?thesis
      using assms(2) st sel row False
      by (intro exI [of _ row] exI [of _ "if status_terminal (m_status row) then [e_end e (ml_revision l)] else []"])
        (auto simp: repair_def emit_out_def split: if_splits)
  next
    case True
    obtain m ev where m: "get_message e i s = Inr m" "e_start e (m_content m) (m_revision m) = Inr ev"
      and l': "l' = (let l1 = (emit_out [ev] l)\<lparr>ml_revision := m_revision m\<rparr>
           in if ms_ended st then (emit_out [e_end e (ml_revision l1)] l1)\<lparr>ml_done := True\<rparr> else l1)"
      using assms(2) st sel True by (auto simp: repair_def bindR_eq_Inr split: if_splits)
    have mr: "m_revision m = m_revision row"
      using get_message_row [OF m(1)] row(1) by (auto dest: same_row_fields)
    have ev: "ev_op ev = OpStart" "ev_seq ev = m_revision row"
      using assms(1) m(2) mr by (auto simp: stream_law_def)
    have vs: "apply_view (ml_revision l) ev = Some (m_revision row)"
      "apply_view (m_revision row) (e_end e (m_revision row)) = Some (m_revision row)"
      using ev law True by (simp_all add: apply_view_def)
    show ?thesis
      using row sel l' mr True vs ev
      by (intro exI [of _ row] exI [of _ "if status_terminal (m_status row) then [ev, e_end e (m_revision row)] else [ev]"])
        (auto simp: emit_out_def Let_def)
  qed
qed

lemma repair_ok:
  assumes "stream_law e" and "repair e i s l = Inr l'" and "stream_ok l" and "\<not> ml_done l"
  shows "stream_ok l'"
proof -
  obtain row :: message and evs where R: "ml_out l' = ml_out l @ evs" "read_view (ml_revision l) evs = Some (ml_revision l')"
    "if status_terminal (m_status row)
       then ml_done l' \<and> (\<exists>es. evs = es @ [e_end e (ml_revision l')] \<and> (\<forall>x \<in> set es. ev_op x \<noteq> OpEnd))
       else ml_done l' = ml_done l \<and> (\<forall>x \<in> set evs. ev_op x \<noteq> OpEnd)"
    using repair_effect [OF assms(1,2)] by (elim exE conjE) (rule that, assumption+)
  have "ev_op (e_end e n) = OpEnd" for n using assms(1) by (simp add: stream_law_def)
  then have "if ml_done l' then \<exists>es z. evs = es @ [z] \<and> ev_op z = OpEnd \<and> (\<forall>x \<in> set es. ev_op x \<noteq> OpEnd)
         else \<forall>x \<in> set evs. ev_op x \<noteq> OpEnd"
    using R(3) assms(4) by (auto split: if_splits)
  from stream_ok_more [OF assms(3,4) R(2) this R(1) refl refl] show ?thesis .
qed

lemma reading_irrelevant [simp]: "stream_ok (l\<lparr>ml_reading := b\<rparr>) = stream_ok l"
  by (simp add: stream_ok_def)

lemma listen_step_ok:
  assumes "stream_law e" and "listen_step e i x l = Inr l'" and "stream_ok l" and "\<not> ml_done l"
  shows "stream_ok l'"
proof (cases x)
  case LHeartbeat
  then have "l' = emit_out [ping (ml_revision l)] l" using assms(2) by simp
  then show ?thesis
    by (intro stream_ok_more [OF assms(3,4), of "[ping (ml_revision l)]" "ml_revision l" False])
      (simp_all add: emit_out_def ping_def apply_view_def assms(4))
next
  case (LTick s)
  then show ?thesis using assms(2-4) repair_ok [OF assms(1), of i s "l\<lparr>ml_reading := True\<rparr>"] by simp
next
  case (LBridge s)
  then show ?thesis using assms(2-4) repair_ok [OF assms(1), of i s "l\<lparr>ml_reading := False\<rparr>"] by simp
next
  case (LEvent ev s)
  note st = assms(2) [unfolded LEvent listen_step.simps]
  consider "ev_op ev = OpPing" "l' = emit_out [ev] l" | "l' = l" | "repair e i s l = Inr l'"
    | "ev_op ev \<noteq> OpPing" "ml_revision l < ev_seq ev" "ev_op ev = OpStart \<or> ev_seq ev = ml_revision l + 1"
      "l' = (emit_out [ev] l)\<lparr>ml_revision := ev_seq ev, ml_done := (ev_op ev = OpEnd)\<rparr>"
  proof (cases "ev_op ev = OpPing")
    case True
    then show thesis using st that(1) by simp
  next
    case ping: False
    show thesis
    proof (cases "ev_seq ev \<le> ml_revision l")
      case True
      then show thesis using st ping that(2) by simp
    next
      case new: False
      show thesis
      proof (cases "ev_op ev = OpStart \<or> ev_seq ev = ml_revision l + 1")
        case True
        then show thesis using st ping new by (intro that(4)) auto
      next
        case False
        then show thesis using st ping new that(3) by simp
      qed
    qed
  qed
  then show ?thesis
  proof cases
    case 1
    then show ?thesis
      by (intro stream_ok_more [OF assms(3,4), of "[ev]" "ml_revision l" False])
        (simp_all add: emit_out_def apply_view_def assms(4))
  next
    case 4
    have "apply_view (ml_revision l) ev = Some (ev_seq ev)"
      using 4(1-3) by (cases "ev_op ev = OpStart") (simp_all add: apply_view_def)
    then show ?thesis
      unfolding 4(4)
      by (intro stream_ok_more [OF assms(3,4), of "[ev]" "ev_seq ev" "ev_op ev = OpEnd"])
        (simp_all add: emit_out_def)
  qed (use assms(3) repair_ok [OF assms(1) _ assms(3,4)] in auto)
qed

lemma listen_start_ok:
  assumes "stream_law e" and "listen_start e i s = Inr l"
  shows "stream_ok l"
  using assms by (auto simp: listen_start_def bindR_eq_Inr stream_ok_def stream_law_def apply_view_def split: if_splits)

lemma listen_run_ok:
  assumes "stream_law e" and "listen_start e i s = Inr l0" and "listen_run e i xs l0 = Inr l"
  shows "stream_ok l"
proof -
  have "stream_ok l1 \<Longrightarrow> listen_run e i xs l1 = Inr l \<Longrightarrow> stream_ok l" for l1
    by (induction xs arbitrary: l1) (auto simp: bindR_eq_Inr split: if_splits dest: listen_step_ok [OF assms(1)])
  then show ?thesis using listen_start_ok [OF assms(1,2)] assms(3) by blast
qed

text \<open>
  C26: a page following a message receives a stream it can apply. First a snapshot; then every event
  extends what the page has by exactly one revision or replaces it by a newer snapshot, so no
  change is lost, repeated or out of order, whatever the bridge delivers; an end is the last event and
  is delivered exactly when the listener is done.
\<close>
theorem listener_delivers_stream:
  assumes "listen_start e i s = Inr l0" and "listen_run e i xs l0 = Inr l" and "stream_law e"
  shows "\<exists>st rest. ml_out l = st # rest \<and> ev_op st = OpStart \<and> read_view (ev_seq st) rest = Some (ml_revision l)
    \<and> (if ml_done l then \<exists>evs z. rest = evs @ [z] \<and> ev_op z = OpEnd \<and> (\<forall>x \<in> set evs. ev_op x \<noteq> OpEnd)
       else \<forall>x \<in> set rest. ev_op x \<noteq> OpEnd)"
  using listen_run_ok [OF assms(3,1,2)] by (simp add: stream_ok_def)

text \<open>
  Once the database has the end of a message, the next tick or the end of the bridge reader ends the
  stream, at the message's last revision if the page was behind: a lost bridge event never leaves
  the page waiting.
\<close>
theorem ended_message_ends_stream:
  assumes "listen_step e i x l = Inr l'" and "x = LTick s \<or> x = LBridge s" and "stream_law e"
    and "get_msg i s = Some m" and "status_terminal (m_status m)"
  shows "ml_done l' \<and> ml_revision l' = max (ml_revision l) (m_revision m)
    \<and> last (ml_out l') = e_end e (ml_revision l')"
proof -
  obtain b where "repair e i s (l\<lparr>ml_reading := b\<rparr>) = Inr l'" using assms(1,2) by auto
  from repair_effect [OF assms(3) this] show ?thesis using assms(4,5) by auto
qed

lemma demo_stream_law: "stream_law demo_env"
  by (auto simp: stream_law_def demo_env_def no_event_def)

definition ended_store :: store where
  "ended_store = live_store\<lparr>st_msgs := [live_message\<lparr>m_revision := 3, m_status := MessageStatusCompleted\<rparr>]\<rparr>"

definition demo_inputs :: "listen_input list" where
  "demo_inputs = [LEvent (live_event\<lparr>ev_seq := 2\<rparr>) live_store, LHeartbeat, LTick ended_store]"

lemma demo_listened: "(case listen_start demo_env ''m1'' live_store of
    Inr l0 \<Rightarrow> (case listen_run demo_env ''m1'' demo_inputs l0 of Inr l \<Rightarrow> ml_done l | Inl _ \<Rightarrow> False) | Inl _ \<Rightarrow> False)"
  by code_simp

theorem listener_delivers_stream_witness:
  "\<exists>l0 l st rest. listen_start demo_env ''m1'' live_store = Inr l0 \<and> listen_run demo_env ''m1'' demo_inputs l0 = Inr l
     \<and> ml_out l = st # rest \<and> read_view (ev_seq st) rest = Some (ml_revision l)"
proof -
  obtain l0 l where l: "listen_start demo_env ''m1'' live_store = Inr l0" "listen_run demo_env ''m1'' demo_inputs l0 = Inr l"
    using demo_listened by (auto split: sum.splits)
  then show ?thesis using listener_delivers_stream [OF l demo_stream_law] by blast
qed

definition behind :: listener where
  "behind = \<lparr>ml_revision = 1, ml_reading = False, ml_done = False, ml_out = []\<rparr>"

lemma demo_tick: "(case listen_step demo_env ''m1'' (LTick ended_store) behind of Inr l \<Rightarrow> True | Inl _ \<Rightarrow> False)"
  by code_simp

theorem ended_message_ends_stream_witness:
  "\<exists>l. listen_step demo_env ''m1'' (LTick ended_store) behind = Inr l \<and> ml_done l \<and> ml_revision l = 3"
proof -
  obtain l where l: "listen_step demo_env ''m1'' (LTick ended_store) behind = Inr l"
    using demo_tick by (auto split: sum.splits)
  have m: "get_msg ''m1'' ended_store = Some (live_message\<lparr>m_revision := 3, m_status := MessageStatusCompleted\<rparr>)"
    by (simp add: ended_store_def get_msg_def live_message_def)
  show ?thesis
    using ended_message_ends_stream [OF l _ demo_stream_law m] l by (simp add: behind_def status_terminal_def)
qed

section \<open>Opening a conversation\<close>

abbreviation watched :: "conv_listener \<Rightarrow> string set" where
  "watched c \<equiv> fst ` set (cl_watching c)"

text \<open>A row the page keeps watching: its stream runs, or a question in it may still change.\<close>

definition shown :: "message \<Rightarrow> bool" where
  "shown m \<longleftrightarrow> \<not> status_terminal (m_status m) \<or> m_human_due m \<noteq> None"

lemma watched_drop [simp]: "watched (drop_watch i c) = watched c - {i}"
  by (auto simp: drop_watch_def image_iff)

lemma drop_watch_frame [simp]: "cl_after (drop_watch i c) = cl_after c" "cl_watermark (drop_watch i c) = cl_watermark c"
  "cl_out (drop_watch i c) = cl_out c"
  by (simp_all add: drop_watch_def)

definition watch_of :: "conv_listener \<Rightarrow> message \<Rightarrow> watch" where
  "watch_of c row = (case map_of (cl_watching c) (m_id row) of None \<Rightarrow> new_watch row | Some w \<Rightarrow> w)"

lemma start_reader_revision: "start_reader now (w, n) = (w', n') \<Longrightarrow> wt_revision w' = wt_revision w"
  by (auto simp: start_reader_def split: if_splits)

lemma observe_split:
  assumes "observe e now row c = Inr c'"
  shows "\<exists>w1 out. snapshot_out e row (watch_of c row) = Inr (w1, out)
    \<and> (if shown row
       then \<exists>w3 n. wt_revision w3 = wt_revision w1
         \<and> c' = c\<lparr>cl_out := cl_out c @ out, cl_watching := al_set (m_id row) w3 (cl_watching c), cl_next := n\<rparr>
       else c' = drop_watch (m_id row) (c\<lparr>cl_out := cl_out c @ out\<rparr>))"
proof -
  obtain w1 out where sn: "snapshot_out e row (watch_of c row) = Inr (w1, out)"
    using assms by (auto simp: observe_def watch_of_def Let_def bindR_eq_Inr)
  let ?w2 = "w1\<lparr>wt_message := row\<rparr>" and ?live = "\<not> status_terminal (m_status row)"
  obtain w3 n where w3: "(if ?live then start_reader now (?w2, cl_next c) else (?w2, cl_next c)) = (w3, n)"
    by (cases "if ?live then start_reader now (?w2, cl_next c) else (?w2, cl_next c)")
  have rev: "wt_revision w3 = wt_revision w1"
    using w3 start_reader_revision [of now ?w2 "cl_next c" w3 n] by (auto split: if_splits)
  have "(if shown row
      then Inr (c\<lparr>cl_out := cl_out c @ out, cl_watching := al_set (m_id row) w3 (cl_watching c), cl_next := n\<rparr>)
      else Inr (drop_watch (m_id row) (c\<lparr>cl_out := cl_out c @ out\<rparr>))) = (Inr c' :: conv_listener result)"
  proof (cases "status_terminal (m_status row)")
    case True
    then have "w3 = ?w2" "n = cl_next c" using w3 by simp_all
    then show ?thesis
      using assms sn True unfolding observe_def watch_of_def [symmetric] shown_def Let_def bindR_def
      by (cases "m_human_due row = None") auto
  next
    case False
    then have "start_reader now (?w2, cl_next c) = (w3, n)" using w3 by simp
    then show ?thesis
      using assms sn False unfolding observe_def watch_of_def [symmetric] shown_def Let_def bindR_def by simp
  qed
  then show ?thesis using sn rev by (cases "shown row") auto
qed

lemma observe_frame:
  assumes "observe e now row c = Inr c'"
  shows "cl_after c' = cl_after c" "cl_watermark c' = cl_watermark c"
    "watched c' = (if shown row then insert (m_id row) (watched c) else watched c - {m_id row})"
proof -
  obtain w1 :: watch and out where S: "if shown row
       then \<exists>w3 n. wt_revision w3 = wt_revision w1
         \<and> c' = c\<lparr>cl_out := cl_out c @ out, cl_watching := al_set (m_id row) w3 (cl_watching c), cl_next := n\<rparr>
       else c' = drop_watch (m_id row) (c\<lparr>cl_out := cl_out c @ out\<rparr>)"
    using observe_split [OF assms] by blast
  then have "cl_after c' = cl_after c \<and> cl_watermark c' = cl_watermark c
    \<and> watched c' = (if shown row then insert (m_id row) (watched c) else watched c - {m_id row})"
  proof (cases "shown row")
    case True
    then obtain w3 n where "c' = c\<lparr>cl_out := cl_out c @ out, cl_watching := al_set (m_id row) w3 (cl_watching c), cl_next := n\<rparr>"
      using S by auto
    then show ?thesis using True by (simp add: keys_al_set)
  next
    case False
    then have "c' = drop_watch (m_id row) (c\<lparr>cl_out := cl_out c @ out\<rparr>)" using S by simp
    then show ?thesis using False by (simp only: drop_watch_frame watched_drop) simp
  qed
  then show "cl_after c' = cl_after c" "cl_watermark c' = cl_watermark c"
    "watched c' = (if shown row then insert (m_id row) (watched c) else watched c - {m_id row})" by blast+
qed

lemma observe_rows:
  "foldR (observe_found e now) c rows = Inr c' \<Longrightarrow> distinct (map m_id rows) \<Longrightarrow>
    cl_watermark c' = cl_watermark c \<and> cl_after c' = (if rows = [] then cl_after c else m_id (last rows))
    \<and> watched c' = (watched c - m_id ` set rows) \<union> m_id ` {m \<in> set rows. shown m}"
proof (induction rows arbitrary: c)
  case (Cons row rows)
  obtain c1 where c1: "observe e now row c = Inr c1" "foldR (observe_found e now) (c1\<lparr>cl_after := m_id row\<rparr>) rows = Inr c'"
    using Cons.prems(1) unfolding foldR.simps observe_found_def [of _ _ _ row] bindR_eq_Inr by auto
  note F = observe_frame [OF c1(1)]
  have "m_id row \<notin> m_id ` set rows" using Cons.prems(2) by auto
  moreover have IH: "cl_watermark c' = cl_watermark c1" "cl_after c' = (if rows = [] then m_id row else m_id (last rows))"
    "watched c' = (watched c1 - m_id ` set rows) \<union> m_id ` {m \<in> set rows. shown m}"
    using Cons.IH [OF c1(2)] Cons.prems(2) by simp_all
  moreover have "m_id ` {m \<in> set (row # rows). shown m}
      = (if shown row then insert (m_id row) (m_id ` {m \<in> set rows. shown m}) else m_id ` {m \<in> set rows. shown m})"
    by auto
  moreover have "m_id ` {m \<in> set rows. shown m} \<subseteq> m_id ` set rows" by blast
  moreover have "m_id ` set (row # rows) = insert (m_id row) (m_id ` set rows)" by simp
  moreover have "(insert i W - R) \<union> S = (W - insert i R) \<union> insert i S" "(W - {i} - R) \<union> S = (W - insert i R) \<union> S"
    if "i \<notin> R" for i :: string and W R S using that by blast+
  ultimately show ?case using F by (cases "shown row") (simp_all only: if_True if_False, simp_all)
qed simp

definition found_rows :: "string \<Rightarrow> string \<Rightarrow> string \<Rightarrow> store \<Rightarrow> message list" where
  "found_rows conv after watermark s = sort_key m_id
       (filter (\<lambda>m. m_conv m = conv \<and> after < m_id m
          \<and> (after < watermark \<longrightarrow>
               watermark < m_id m \<or> m_status m = MessageStatusStreaming \<or> m_human_due m \<noteq> None))
          (st_msgs s))"

lemma list_stream_rows:
  assumes "list_stream_messages e conv after wm n s = Inr rows"
  shows "map m_id rows = map m_id (take n (found_rows conv after wm s))"
    "list_all2 same_row (take n (found_rows conv after wm s)) rows"
  using read_messages_ids read_messages_same assms
  unfolding list_stream_messages_def asc_limit_def found_rows_def by blast+

lemma found_rows_sorted: "ids_ok s \<Longrightarrow> sorted_wrt (<) (map m_id (found_rows conv after wm s))"
  by (simp add: found_rows_def ids_ok_def strict_sorted_iff distinct_map inj_on_def)

text \<open>The messages a page has to follow.\<close>

definition relevant :: "string \<Rightarrow> message \<Rightarrow> bool" where
  "relevant conv m \<longleftrightarrow> m_conv m = conv \<and> (m_status m = MessageStatusStreaming \<or> m_human_due m \<noteq> None)"

lemma relevant_shown: "relevant conv m \<Longrightarrow> shown m"
  by (auto simp: relevant_def shown_def status_terminal_def)

text \<open>One page of discovery keeps what was watched and adds all it passes.\<close>

lemma discover_complete:
  assumes "discover e now conv s c = Inr (n, c')" and "ids_ok s"
    and before: "\<forall>m \<in> set (st_msgs s). relevant conv m \<and> m_id m \<le> cl_after c \<longrightarrow> m_id m \<in> watched c"
  shows "cl_watermark c' = cl_watermark c" "cl_after c \<le> cl_after c'"
    "\<forall>m \<in> set (st_msgs s). relevant conv m \<and> (m_id m \<le> cl_after c' \<or> n < discovery_page_size) \<longrightarrow> m_id m \<in> watched c'"
    "n \<noteq> 0 \<Longrightarrow> \<exists>m \<in> set (st_msgs s). m_conv m = conv \<and> cl_after c < m_id m \<and> m_id m \<le> cl_after c'"
proof -
  let ?L = "found_rows conv (cl_after c) (cl_watermark c) s" and ?p = discovery_page_size
  obtain rows where rows: "list_stream_messages e conv (cl_after c) (cl_watermark c) ?p s = Inr rows"
    and fold: "foldR (observe_found e now) c rows = Inr c'" and n: "n = length rows"
    using assms(1) by (auto simp: discover_def bindR_eq_Inr)
  note ids = list_stream_rows(1) [OF rows] and same = list_stream_rows(2) [OF rows]
  note strict = found_rows_sorted [OF assms(2), of conv "cl_after c" "cl_watermark c"]
  have dist: "distinct (map m_id rows)"
    unfolding ids take_map [symmetric] using strict by (simp add: strict_sorted_iff)
  note O = observe_rows [OF fold dist]
  have inL: "m \<in> set ?L \<Longrightarrow> m \<in> set (st_msgs s) \<and> m_conv m = conv \<and> cl_after c < m_id m" for m
    by (auto simp: found_rows_def)
  have len: "length rows = length (take ?p ?L)" using list_all2_lengthD [OF same] by (rule sym)
  have idset: "m_id ` set rows = m_id ` set (take ?p ?L)" using ids by (metis list.set_map)
  show "cl_watermark c' = cl_watermark c" using O by blast
  have last: "m_id (last rows) = m_id (last (take ?p ?L))" "last (take ?p ?L) \<in> set ?L" if "rows \<noteq> []"
  proof -
    have ne: "take ?p ?L \<noteq> []" using that len by (metis length_0_conv)
    show "m_id (last rows) = m_id (last (take ?p ?L))" using ids that ne by (metis last_map)
    show "last (take ?p ?L) \<in> set ?L" using ne last_in_set in_set_takeD by fast
  qed
  show "cl_after c \<le> cl_after c'" using O last inL by (cases "rows = []") (auto intro: less_imp_le)
  show "\<exists>m \<in> set (st_msgs s). m_conv m = conv \<and> cl_after c < m_id m \<and> m_id m \<le> cl_after c'" if "n \<noteq> 0"
  proof -
    have "rows \<noteq> []" using that n by auto
    then show ?thesis using last inL O by (intro bexI [of _ "last (take ?p ?L)"]) auto
  qed
  have row: "\<exists>h \<in> set rows. same_row m h" if "m \<in> set (take ?p ?L)" for m
    using that same by (metis in_set_conv_nth list_all2_conv_all_nth)
  have "m_id m \<in> watched c'" if m: "m \<in> set (st_msgs s)" "relevant conv m"
    and reach: "m_id m \<le> cl_after c' \<or> n < ?p" for m
  proof (cases "m_id m \<le> cl_after c")
    case True
    then have w: "m_id m \<in> watched c" using before m by blast
    have "m_id m \<notin> m_id ` set rows" using True inL idset by (force dest: in_set_takeD)
    then show ?thesis using w O by auto
  next
    case False
    then have mem: "m \<in> set ?L" using m by (auto simp: found_rows_def relevant_def not_le)
    have "m_id m \<in> m_id ` set (take ?p ?L)"
    proof (cases "n < ?p")
      case True
      then have "take ?p ?L = ?L" using n len by (simp add: min_def split: if_splits)
      then show ?thesis using mem by simp
    next
      case full: False
      then have "rows \<noteq> []" using n by (auto simp: discovery_page_size_def)
      then have ne: "take ?p ?L \<noteq> []" using len by (metis length_0_conv)
      have "cl_after c' = m_id (last rows)" using O \<open>rows \<noteq> []\<close> by presburger
      then have "m_id m \<le> m_id (last (take ?p ?L))"
        using reach full last(1) [OF \<open>rows \<noteq> []\<close>] by simp
      moreover have "sorted (map m_id ?L)" using strict by (simp add: strict_sorted_iff)
      ultimately show ?thesis using sorted_prefix_closed [OF _ ne mem] by blast
    qed
    then obtain m2 where m2: "m2 \<in> set (take ?p ?L)" "m_id m2 = m_id m" by auto
    have "m2 = m"
      using m2(2) m(1) inL [OF in_set_takeD [OF m2(1)]] assms(2) unfolding ids_ok_def distinct_map inj_on_def by blast
    then obtain h where h: "h \<in> set rows" "same_row m h" using row m2(1) by blast
    then have "shown h" "m_id h = m_id m"
      using relevant_shown [OF m(2)] same_row_fields [OF h(2)] by (auto simp: shown_def)
    then have "m_id m \<in> m_id ` {m \<in> set rows. shown m}" using h(1) by (metis (mono_tags, lifting) image_eqI mem_Collect_eq)
    then show ?thesis using O by (metis UnI2)
  qed
  then show "\<forall>m \<in> set (st_msgs s). relevant conv m \<and> (m_id m \<le> cl_after c' \<or> n < ?p) \<longrightarrow> m_id m \<in> watched c'"
    by blast
qed

definition unread :: "string \<Rightarrow> string \<Rightarrow> store \<Rightarrow> message list" where
  "unread conv after s = filter (\<lambda>m. m_conv m = conv \<and> after < m_id m) (st_msgs s)"

lemma unread_shrinks:
  assumes "m \<in> set (st_msgs s)" and "m_conv m = conv" and "a < m_id m" and "m_id m \<le> b"
  shows "length (unread conv b s) < length (unread conv a s)"
proof -
  have "unread conv b s = filter (\<lambda>m. b < m_id m) (unread conv a s)"
    using assms(3,4) by (auto simp: unread_def intro!: filter_cong)
  moreover have "m \<in> set (unread conv a s)" "\<not> b < m_id m" using assms by (simp_all add: unread_def not_less)
  ultimately show ?thesis by (metis length_filter_less)
qed

lemma bootstrap_reads_all:
  assumes "ids_ok s"
  shows "bootstrap e now conv s n c = Inr r \<Longrightarrow> length (unread conv (cl_after c) s) < n \<Longrightarrow>
    \<forall>m \<in> set (st_msgs s). relevant conv m \<and> m_id m \<le> cl_after c \<longrightarrow> m_id m \<in> watched c \<Longrightarrow>
    \<exists>c'. r = Some c' \<and> (\<forall>m \<in> set (st_msgs s). relevant conv m \<longrightarrow> m_id m \<in> watched c')
      \<and> cl_watermark c \<le> cl_after c'"
proof (induction n arbitrary: c)
  case (Suc n)
  obtain k c1 where d: "discover e now conv s c = Inr (k, c1)"
    and next_: "(if k < discovery_page_size
       then Inr (Some (c1\<lparr>cl_after := (if cl_after c1 < cl_watermark c1 then cl_watermark c1 else cl_after c1)\<rparr>))
       else bootstrap e now conv s n c1) = Inr r"
    using Suc.prems(1) by (auto simp: bindR_eq_Inr)
  note D = discover_complete [OF d assms Suc.prems(3)]
  show ?case
  proof (cases "k < discovery_page_size")
    case True
    then have "r = Some (c1\<lparr>cl_after := (if cl_after c1 < cl_watermark c1 then cl_watermark c1 else cl_after c1)\<rparr>)"
      using next_ by simp
    then show ?thesis using D(1,3) True by (auto simp: not_less)
  next
    case False
    then have "k \<noteq> 0" by (auto simp: discovery_page_size_def)
    then obtain m where "m \<in> set (st_msgs s)" "m_conv m = conv" "cl_after c < m_id m" "m_id m \<le> cl_after c1"
      using D(4) by blast
    from unread_shrinks [OF this] have less: "length (unread conv (cl_after c1) s) < n" using Suc.prems(2) by simp
    have run: "bootstrap e now conv s n c1 = Inr r" using next_ False by simp
    have "\<forall>m \<in> set (st_msgs s). relevant conv m \<and> m_id m \<le> cl_after c1 \<longrightarrow> m_id m \<in> watched c1" using D(3) by blast
    then show ?thesis using Suc.IH [OF run less] D(1) by auto
  qed
qed simp

text \<open>
  C27: opening a conversation terminates and misses nothing. With more pages than there are messages the
  bootstrap ends; then every message that is streaming or holds an open question is watched, and
  discovery goes on after the last message there was.
\<close>
theorem bootstrap_complete:
  assumes "bootstrap e now conv s n (conv_start conv s) = Inr r" and "ids_ok s" and "length (st_msgs s) < n"
  shows "\<exists>c. r = Some c \<and> (\<forall>m \<in> set (st_msgs s). relevant conv m \<longrightarrow> m_id m \<in> fst ` set (cl_watching c))
    \<and> latest_message_id conv s \<le> cl_after c"
proof -
  have "length (unread conv (cl_after (conv_start conv s)) s) < n"
    using assms(3) length_filter_le [of "\<lambda>m. m_conv m = conv \<and> cl_after (conv_start conv s) < m_id m" "st_msgs s"]
    unfolding unread_def by linarith
  moreover have "\<forall>m \<in> set (st_msgs s). relevant conv m \<and> m_id m \<le> cl_after (conv_start conv s)
      \<longrightarrow> m_id m \<in> watched (conv_start conv s)"
    using assms(2) by (auto simp: conv_start_def ids_ok_def)
  ultimately show ?thesis using bootstrap_reads_all [OF assms(2,1)] by (simp add: conv_start_def)
qed

lemma demo_bootstrap: "(case bootstrap demo_env 5 ''c1'' live_store 3 (conv_start ''c1'' live_store) of Inr r \<Rightarrow> True | Inl _ \<Rightarrow> False)"
  by code_simp

theorem bootstrap_complete_witness:
  "\<exists>c. bootstrap demo_env 5 ''c1'' live_store 3 (conv_start ''c1'' live_store) = Inr (Some c)
     \<and> ''m1'' \<in> fst ` set (cl_watching c)"
proof -
  obtain r where r: "bootstrap demo_env 5 ''c1'' live_store 3 (conv_start ''c1'' live_store) = Inr r"
    using demo_bootstrap by (auto split: sum.splits)
  have "ids_ok live_store" "st_msgs live_store = [live_message]"
    by (simp_all add: ids_ok_def live_store_def live_message_def)
  moreover have "relevant ''c1'' live_message" "m_id live_message = ''m1''"
    by (simp_all add: relevant_def live_message_def)
  ultimately show ?thesis using bootstrap_complete [OF r] r by auto
qed

section \<open>Following a conversation\<close>

text \<open>
  What a page received for one message, and the invariant of the listener: every message's events
  form a stream from nothing, a watch stands where its stream stands, and what is neither watched
  nor passed by discovery has not been shown.
\<close>

definition stream_of :: "string \<Rightarrow> conv_listener \<Rightarrow> event list" where
  "stream_of i c = map ce_event (filter (\<lambda>x. ce_id x = i) (cl_out c))"

definition entry_ok :: "string \<Rightarrow> string \<Rightarrow> conv_listener \<Rightarrow> nat \<Rightarrow> bool" where
  "entry_ok a i c n \<longleftrightarrow> read_view 0 (stream_of i c) = Some n
     \<and> (i \<le> a \<or> (map_of (cl_watching c) i = None \<and> n = 0))
     \<and> (\<forall>w. map_of (cl_watching c) i = Some w \<longrightarrow> wt_revision w = n)"

definition page_ok :: "string \<Rightarrow> conv_listener \<Rightarrow> bool" where
  "page_ok a c \<longleftrightarrow> (\<forall>i. i \<noteq> [] \<longrightarrow> (\<exists>n. entry_ok a i c n))"

lemma page_ok_mono: "page_ok a c \<Longrightarrow> a \<le> b \<Longrightarrow> page_ok b c"
  unfolding page_ok_def entry_ok_def by (meson order_trans)

lemma page_ok_fields:
  assumes "cl_watching c' = cl_watching c" and "cl_out c' = cl_out c"
  shows "page_ok a c' = page_ok a c"
  using assms by (simp add: page_ok_def entry_ok_def stream_of_def)

lemma map_of_drop: "map_of (cl_watching (drop_watch i c)) j = (if j = i then None else map_of (cl_watching c) j)"
  by (simp add: drop_watch_def map_of_filter_fst)

lemma stream_of_drop [simp]: "stream_of j (drop_watch i c) = stream_of j c"
  by (simp add: stream_of_def)

lemma page_ok_drop: "page_ok a c \<Longrightarrow> page_ok a (drop_watch i c)"
  unfolding page_ok_def entry_ok_def map_of_drop stream_of_drop by (metis option.distinct(1))

text \<open>Writing a watch at its stream's revision.\<close>

lemma page_ok_watch:
  assumes "page_ok a c" and "map_of (cl_watching c) i = Some w" and "wt_revision w' = wt_revision w"
    and "cl_watching c' = al_set i w' (cl_watching c)" and "cl_out c' = cl_out c"
  shows "page_ok a c'"
  unfolding page_ok_def
proof (intro allI impI)
  fix j :: string assume "j \<noteq> []"
  then obtain n where n: "entry_ok a j c n" using assms(1) unfolding page_ok_def by blast
  have "entry_ok a j c' n"
    using n assms(2,3) by (cases "j = i") (simp_all add: entry_ok_def stream_of_def assms(4,5))
  then show "\<exists>n. entry_ok a j c' n" ..
qed

lemma addressed_event_fields:
  assumes "addressed_event e i ev = Inr ev'"
  shows "ev_op ev' = ev_op ev" "ev_seq ev' = ev_seq ev"
  using assms by (auto simp: addressed_event_def Let_def bindR_eq_Inr)

lemma apply_view_cong: "ev_op ev' = ev_op ev \<Longrightarrow> ev_seq ev' = ev_seq ev \<Longrightarrow> apply_view n ev' = apply_view n ev"
  by (simp add: apply_view_def)

lemma snapshot_out_view:
  assumes "stream_law e" and "snapshot_out e row w = Inr (w1, out)"
  shows "read_view (wt_revision w) (map ce_event out) = Some (wt_revision w1)"
    "\<forall>x \<in> set out. ce_id x = m_id row"
proof -
  let ?r = "if m_revision row = 0 then 1 else m_revision row"
  have "read_view (wt_revision w) (map ce_event out) = Some (wt_revision w1) \<and> (\<forall>x \<in> set out. ce_id x = m_id row)"
  proof (cases "?r \<le> wt_revision w")
    case True
    then show ?thesis using assms(2) by (simp add: snapshot_out_def Let_def)
  next
    case False
    obtain patch st where p: "e_start e (m_content row) ?r = Inr patch" "addressed_event e (m_id row) patch = Inr st"
      and rest: "(if status_terminal (m_status row) then
           bindR (addressed_event e (m_id row) (e_end e ?r)) (\<lambda>en.
             Inr (w\<lparr>wt_revision := ?r\<rparr>, [\<lparr>ce_id = m_id row, ce_message = Some (message_from_model row), ce_event = st\<rparr>,
                \<lparr>ce_id = m_id row, ce_message = None, ce_event = en\<rparr>]))
         else Inr (w\<lparr>wt_revision := ?r\<rparr>, [\<lparr>ce_id = m_id row, ce_message = Some (message_from_model row), ce_event = st\<rparr>]))
         = Inr (w1, out)"
      using assms(2) False unfolding snapshot_out_def Let_def by (simp only: if_False bindR_eq_Inr) blast
    have law: "ev_op (e_end e n) = OpEnd" "ev_seq (e_end e n) = n" "ev_op patch = OpStart" "ev_seq patch = ?r" for n
      using assms(1) p(1) by (auto simp: stream_law_def)
    have "apply_view (wt_revision w) st = Some ?r"
      using False law addressed_event_fields [OF p(2)] by (simp add: apply_view_def)
    moreover have "apply_view ?r en = Some ?r" if "addressed_event e (m_id row) (e_end e ?r) = Inr en" for en
      using law addressed_event_fields [OF that] by (simp add: apply_view_def)
    ultimately show ?thesis using rest by (auto simp: bindR_eq_Inr split: if_splits)
  qed
  then show "read_view (wt_revision w) (map ce_event out) = Some (wt_revision w1)"
    "\<forall>x \<in> set out. ce_id x = m_id row" by blast+
qed

lemma observe_page_ok:
  assumes law: "stream_law e" and run: "observe e now row c = Inr c'" and ok: "page_ok a c"
    and new: "a < m_id row \<or> map_of (cl_watching c) (m_id row) \<noteq> None"
  shows "page_ok (max a (m_id row)) c'"
  unfolding page_ok_def
proof (intro allI impI)
  fix j :: string assume j: "j \<noteq> []"
  let ?i = "m_id row"
  obtain w1 :: watch and out where sn: "snapshot_out e row (watch_of c row) = Inr (w1, out)"
    and S: "if shown row
       then \<exists>w3 n. wt_revision w3 = wt_revision w1
         \<and> c' = c\<lparr>cl_out := cl_out c @ out, cl_watching := al_set (m_id row) w3 (cl_watching c), cl_next := n\<rparr>
       else c' = drop_watch (m_id row) (c\<lparr>cl_out := cl_out c @ out\<rparr>)"
    using observe_split [OF run] by blast
  note V = snapshot_out_view [OF law sn]
  have out: "cl_out c' = cl_out c @ out"
    using S by (cases "shown row") auto
  have map': "map_of (cl_watching c') k = (if k = ?i then (if shown row then map_of (cl_watching c') ?i else None)
      else map_of (cl_watching c) k)" for k
    using S by (cases "shown row") (auto simp: drop_watch_def map_of_filter_fst)
  have w': "wt_revision w = wt_revision w1" if "map_of (cl_watching c') ?i = Some w" for w
    using S that by (cases "shown row") (auto simp: drop_watch_def map_of_filter_fst)
  obtain n where n: "entry_ok a j c n" using ok j unfolding page_ok_def by blast
  show "\<exists>n. entry_ok (max a ?i) j c' n"
  proof (cases "j = ?i")
    case False
    then have "filter (\<lambda>x. ce_id x = j) out = []" using V(2) by (auto simp: filter_empty_conv)
    then have "stream_of j c' = stream_of j c" by (simp add: stream_of_def out)
    moreover have "map_of (cl_watching c') j = map_of (cl_watching c) j" using map' [of j] False by simp
    ultimately have "entry_ok a j c' n" using n by (simp add: entry_ok_def)
    then show ?thesis by (auto simp: entry_ok_def le_max_iff_disj)
  next
    case True
    have "wt_revision (watch_of c row) = n"
      using n new True by (auto simp: watch_of_def entry_ok_def new_watch_def not_le split: option.splits)
    moreover have "filter (\<lambda>x. ce_id x = j) out = out" using V(2) True by (simp add: filter_id_conv)
    ultimately have "read_view 0 (stream_of j c') = Some (wt_revision w1)"
      using n V(1) by (simp add: stream_of_def out entry_ok_def read_view_append)
    then have "entry_ok (max a ?i) j c' (wt_revision w1)" using w' True by (simp add: entry_ok_def)
    then show ?thesis ..
  qed
qed

lemma observe_rows_page_ok:
  assumes "stream_law e"
  shows "foldR (observe_found e now) c rows = Inr c' \<Longrightarrow> sorted_wrt (<) (cl_after c # map m_id rows) \<Longrightarrow>
    page_ok (cl_after c) c \<Longrightarrow> page_ok (cl_after c') c'"
proof (induction rows arbitrary: c)
  case (Cons row rows)
  obtain c1 where c1: "observe e now row c = Inr c1"
    and rest: "foldR (observe_found e now) (c1\<lparr>cl_after := m_id row\<rparr>) rows = Inr c'"
    using Cons.prems(1) unfolding foldR.simps observe_found_def [of _ _ _ row] bindR_eq_Inr by auto
  have less: "cl_after c < m_id row" using Cons.prems(2) by simp
  have "page_ok (max (cl_after c) (m_id row)) c1"
    by (rule observe_page_ok [OF assms c1 Cons.prems(3)]) (use less in simp)
  then have "page_ok (cl_after (c1\<lparr>cl_after := m_id row\<rparr>)) (c1\<lparr>cl_after := m_id row\<rparr>)"
    using less page_ok_fields [of "c1\<lparr>cl_after := m_id row\<rparr>" c1 "m_id row"] by (simp add: max_def split: if_splits)
  then show ?case using Cons.IH [OF rest] Cons.prems(2) by simp
qed simp

lemma discover_page_ok:
  assumes "stream_law e" and "discover e now conv s c = Inr (n, c')" and "ids_ok s" and "page_ok (cl_after c) c"
  shows "page_ok (cl_after c') c'"
proof -
  let ?L = "found_rows conv (cl_after c) (cl_watermark c) s"
  obtain rows where rows: "list_stream_messages e conv (cl_after c) (cl_watermark c) discovery_page_size s = Inr rows"
    and fold: "foldR (observe_found e now) c rows = Inr c'"
    using assms(2) by (auto simp: discover_def bindR_eq_Inr)
  have "sorted_wrt (<) (map m_id rows)"
    unfolding list_stream_rows(1) [OF rows] take_map [symmetric]
    by (rule sorted_wrt_take [OF found_rows_sorted [OF assms(3)]])
  moreover have "cl_after c < x" if "x \<in> set (map m_id rows)" for x
    using that unfolding list_stream_rows(1) [OF rows] by (auto simp: found_rows_def dest!: in_set_takeD)
  ultimately show ?thesis using observe_rows_page_ok [OF assms(1) fold] assms(4) by simp
qed

definition kept_at :: "string \<Rightarrow> conv_listener \<Rightarrow> bool" where
  "kept_at a c \<longleftrightarrow> page_ok a c \<and> cl_after c = a \<and> (\<forall>i \<in> watched c. i \<le> a \<or> i = [])"

lemma kept_at_observe:
  assumes "stream_law e" and "observe e now row c = Inr c'" and "kept_at a c"
    and "map_of (cl_watching c) (m_id row) = Some w"
  shows "kept_at a c'"
proof -
  have mem: "m_id row \<in> watched c" using assms(4) by (metis map_of_eq_None_iff option.distinct(1))
  then have le: "m_id row \<le> a" using assms(3) by (auto simp: kept_at_def)
  have "page_ok (max a (m_id row)) c'"
    by (rule observe_page_ok [OF assms(1,2)]) (use assms(3,4) in \<open>simp_all add: kept_at_def\<close>)
  then show ?thesis
    using assms(3) le mem observe_frame [OF assms(2)] by (auto simp: kept_at_def max_def)
qed

lemma kept_at_drop: "kept_at a c \<Longrightarrow> kept_at a (drop_watch i c)"
  using page_ok_drop [of a c i] by (auto simp: kept_at_def)

lemma kept_at_watch:
  assumes "kept_at a c" and "map_of (cl_watching c) i = Some w" and "wt_revision w' = wt_revision w"
    and "cl_watching c' = al_set i w' (cl_watching c)" and "cl_out c' = cl_out c" and "cl_after c' = cl_after c"
  shows "kept_at a c'"
proof -
  have "i \<in> watched c" using assms(2) by (metis map_of_eq_None_iff option.distinct(1))
  then have "watched c' = watched c" using assms(4) by (simp add: keys_al_set insert_absorb)
  then show ?thesis using assms(1,6) page_ok_watch [OF _ assms(2-5)] unfolding kept_at_def by metis
qed

lemma get_message_id: "get_message e i s = Inr row \<Longrightarrow> m_id row = i"
  using get_message_row [of e i s row] by (auto dest: same_row_fields msgs.find_key)

lemma refresh_one_kept:
  assumes "stream_law e" and "refresh_one e now s c st = Inr c'" and "kept_at a c"
  shows "kept_at a c'"
proof -
  obtain w where w: "map_of (cl_watching c) (ms_id st) = Some w"
    using assms(2) by (cases "map_of (cl_watching c) (ms_id st)") (simp_all add: refresh_one_def)
  obtain w1 n where sr: "start_reader now (w, cl_next c) = (w1, n)" by (cases "start_reader now (w, cl_next c)")
  have "c' = c \<or> c' = drop_watch (ms_id st) c \<or> (\<exists>row. get_message e (ms_id st) s = Inr row \<and> observe e now row c = Inr c')
      \<or> c' = c\<lparr>cl_watching := al_set (ms_id st) w1 (cl_watching c), cl_next := n\<rparr>"
    using assms(2) w sr by (auto simp: refresh_one_def split: if_splits sum.splits)
  then show ?thesis
  proof (elim disjE exE conjE)
    fix row assume row: "get_message e (ms_id st) s = Inr row" "observe e now row c = Inr c'"
    show ?thesis
      by (rule kept_at_observe [OF assms(1) row(2) assms(3)]) (use w get_message_id [OF row(1)] in simp)
  next
    assume "c' = c\<lparr>cl_watching := al_set (ms_id st) w1 (cl_watching c), cl_next := n\<rparr>"
    then show ?thesis
      by (intro kept_at_watch [OF assms(3) w start_reader_revision [OF sr]]) simp_all
  qed (use assms(3) kept_at_drop in simp_all)
qed

lemma refresh_batch_kept:
  assumes "stream_law e" and "refresh_batch e now conv s batch c = Inr c'" and "kept_at a c"
  shows "kept_at a c'"
proof -
  obtain c1 where c1: "foldR (refresh_one e now s) c (get_message_states conv batch s) = Inr c1"
    and c': "c' = foldr drop_watch (filter (\<lambda>i. i \<notin> ms_id ` set (get_message_states conv batch s)) batch) c1"
    using assms(2) by (auto simp: refresh_batch_def Let_def bindR_eq_Inr)
  have "foldR (refresh_one e now s) c xs = Inr c1 \<Longrightarrow> kept_at a c \<Longrightarrow> kept_at a c1" for xs c
    by (induction xs arbitrary: c) (auto simp: bindR_eq_Inr dest: refresh_one_kept [OF assms(1)])
  then have "kept_at a c1" using c1 assms(3) by blast
  moreover have "kept_at a c1 \<Longrightarrow> kept_at a (foldr drop_watch xs c1)" for xs
    by (induction xs) (auto intro: kept_at_drop)
  ultimately show ?thesis using c' by blast
qed

lemma refresh_ids_kept:
  "refresh_ids e now conv s ids c = Inr c' \<Longrightarrow> kept_at a c \<Longrightarrow> stream_law e \<Longrightarrow> kept_at a c'"
proof (induction e now conv s ids c rule: refresh_ids.induct)
  case (1 e now conv s ids c)
  show ?case
  proof (cases "ids = []")
    case True
    then show ?thesis using 1(2,3) by (simp add: refresh_ids.simps)
  next
    case False
    then obtain c1 where c1: "refresh_batch e now conv s (take discovery_page_size ids) c = Inr c1"
      "refresh_ids e now conv s (drop discovery_page_size ids) c1 = Inr c'"
      using 1(2) by (subst (asm) refresh_ids.simps) (auto simp: bindR_eq_Inr)
    have "kept_at a c1" by (rule refresh_batch_kept [OF 1(4) c1(1) 1(3)])
    then show ?thesis using 1(1) [OF False c1] 1(4) by blast
  qed
qed

text \<open>The invariant of a listener between its inputs.\<close>

definition conv_ok :: "conv_listener \<Rightarrow> bool" where
  "conv_ok c \<longleftrightarrow> kept_at (cl_after c) c"

lemma discover_conv_ok:
  assumes "stream_law e" and "discover e now conv s c = Inr (n, c')" and "ids_ok s" and "conv_ok c"
  shows "conv_ok c'"
proof -
  let ?L = "found_rows conv (cl_after c) (cl_watermark c) s"
  obtain rows where rows: "list_stream_messages e conv (cl_after c) (cl_watermark c) discovery_page_size s = Inr rows"
    and fold: "foldR (observe_found e now) c rows = Inr c'"
    using assms(2) by (auto simp: discover_def bindR_eq_Inr)
  have sorted: "sorted_wrt (<) (map m_id rows)"
    unfolding list_stream_rows(1) [OF rows] take_map [symmetric]
    by (rule sorted_wrt_take [OF found_rows_sorted [OF assms(3)]])
  have above: "cl_after c < x" if "x \<in> set (map m_id rows)" for x
    using that unfolding list_stream_rows(1) [OF rows] by (auto simp: found_rows_def dest!: in_set_takeD)
  have "distinct (map m_id rows)" using sorted by (simp add: strict_sorted_iff)
  note O = observe_rows [OF fold this]
  have top: "x \<le> cl_after c'" if "x \<in> m_id ` set rows" for x
  proof -
    have ne: "rows \<noteq> []" using that by auto
    have "x \<in> set (map m_id rows)" using that by simp
    then obtain k where k: "k < length rows" "x = m_id (rows ! k)" by (auto simp: in_set_conv_nth simp del: set_map)
    have "sorted (map m_id rows)" using sorted by (simp add: strict_sorted_iff)
    then have "map m_id rows ! k \<le> map m_id rows ! (length rows - 1)" by (rule sorted_nth_mono) (use k in auto)
    then show ?thesis using O ne k by (simp add: last_conv_nth)
  qed
  have grow: "cl_after c \<le> cl_after c'"
    using O above by (cases "rows = []") (auto intro: less_imp_le)
  have "\<forall>i \<in> watched c'. i \<le> cl_after c' \<or> i = []"
  proof
    fix i assume "i \<in> watched c'"
    then have "i \<in> watched c \<or> i \<in> m_id ` set rows" using O by blast
    then show "i \<le> cl_after c' \<or> i = []"
      using assms(4) top grow unfolding conv_ok_def kept_at_def by (meson order_trans)
  qed
  moreover have "page_ok (cl_after c') c'"
    using discover_page_ok [OF assms(1-3)] assms(4) by (simp add: conv_ok_def kept_at_def)
  ultimately show ?thesis by (simp add: conv_ok_def kept_at_def)
qed

lemma kept_conv_ok: "kept_at a c \<Longrightarrow> conv_ok c"
  by (simp add: conv_ok_def kept_at_def)

lemma conv_tick_ok:
  assumes "stream_law e" and "conv_tick e now conv s c = Inr c'" and "ids_ok s" and "conv_ok c"
  shows "conv_ok c'"
proof -
  obtain n c1 where c1: "discover e now conv s c = Inr (n, c1)"
    "refresh_ids e now conv s (map fst (cl_watching c1)) c1 = Inr c'"
    using assms(2) by (auto simp: conv_tick_def refresh_active_def bindR_eq_Inr)
  have "conv_ok c1" by (rule discover_conv_ok [OF assms(1) c1(1) assms(3,4)])
  then show ?thesis using refresh_ids_kept [OF c1(2) _ assms(1)] kept_conv_ok unfolding conv_ok_def by blast
qed

lemma deliver_patch_ok:
  assumes "conv_ok c" and w: "map_of (cl_watching c) i = Some w" and run: "deliver_patch e i w ev c = Inr c'"
    and ev: "ev_op ev \<noteq> OpPing" "ev_op ev \<noteq> OpStart" "ev_op ev \<noteq> OpEnd" "ev_seq ev = wt_revision w + 1"
  shows "conv_ok c'"
proof -
  obtain ev1 where e1: "addressed_event e i ev = Inr ev1"
    and c': "c' = c\<lparr>cl_watching := al_set i (w\<lparr>wt_revision := ev_seq ev\<rparr>) (cl_watching c),
              cl_out := cl_out c @ [\<lparr>ce_id = i, ce_message = None, ce_event = ev1\<rparr>]\<rparr>"
    using run by (auto simp: deliver_patch_def bindR_eq_Inr)
  have ap: "apply_view (wt_revision w) ev1 = Some (ev_seq ev)"
    using ev addressed_event_fields [OF e1] by (simp add: apply_view_def)
  have mem: "i \<in> watched c" using w by (metis map_of_eq_None_iff option.distinct(1))
  have "page_ok (cl_after c) c'"
    unfolding page_ok_def
  proof (intro allI impI)
    fix j :: string assume "j \<noteq> []"
    then obtain n where n: "entry_ok (cl_after c) j c n"
      using assms(1) unfolding conv_ok_def kept_at_def page_ok_def by blast
    show "\<exists>n. entry_ok (cl_after c) j c' n"
    proof (cases "j = i")
      case False
      then have "entry_ok (cl_after c) j c' n" using n by (simp add: entry_ok_def stream_of_def c')
      then show ?thesis ..
    next
      case True
      then have "n = wt_revision w" "i \<le> cl_after c" using n w by (auto simp: entry_ok_def)
      then have "entry_ok (cl_after c) j c' (ev_seq ev)"
        using n ap True by (simp add: entry_ok_def stream_of_def c' read_view_append)
      then show ?thesis ..
    qed
  qed
  moreover have "watched c' = watched c" using mem by (simp add: c' keys_al_set insert_absorb)
  ultimately show ?thesis using assms(1) by (auto simp: conv_ok_def kept_at_def c')
qed

lemma conv_delivery_ok:
  assumes "stream_law e" and "conv_ok c" and w: "map_of (cl_watching c) i = Some w"
    and run: "conv_delivery e i w ev now s c = Inr c'"
  shows "conv_ok c'"
proof -
  have "c' = c \<or> (\<exists>row. get_message e i s = Inr row \<and> observe e now row c = Inr c')
    \<or> (deliver_patch e i w ev c = Inr c' \<and> ev_op ev \<noteq> OpPing \<and> ev_op ev \<noteq> OpStart \<and> ev_op ev \<noteq> OpEnd
        \<and> ev_seq ev = wt_revision w + 1)"
    using run unfolding conv_delivery_def by (auto simp: bindR_eq_Inr not_less split: if_splits)
  then show ?thesis
  proof (elim disjE exE conjE)
    fix row assume row: "get_message e i s = Inr row" "observe e now row c = Inr c'"
    have "kept_at (cl_after c) c'"
      by (rule kept_at_observe [OF assms(1) row(2) assms(2) [unfolded conv_ok_def]])
        (use w get_message_id [OF row(1)] in simp)
    then show ?thesis by (rule kept_conv_ok)
  next
    assume "deliver_patch e i w ev c = Inr c'" "ev_op ev \<noteq> OpPing" "ev_op ev \<noteq> OpStart" "ev_op ev \<noteq> OpEnd"
      "ev_seq ev = wt_revision w + 1"
    then show ?thesis by (rule deliver_patch_ok [OF assms(2) w])
  qed (use assms(2) in simp)
qed

definition input_ok :: "conv_input \<Rightarrow> bool" where
  "input_ok x \<longleftrightarrow> (case x of CTick now s \<Rightarrow> ids_ok s | _ \<Rightarrow> True)"

lemma ping_conv_ok:
  "conv_ok c \<Longrightarrow> conv_ok (c\<lparr>cl_out := cl_out c @ [\<lparr>ce_id = [], ce_message = None, ce_event = ping 0\<rparr>]\<rparr>)"
  by (simp add: conv_ok_def kept_at_def page_ok_def entry_ok_def stream_of_def)

lemma conv_input_step_ok:
  assumes "stream_law e" and "conv_input_step e conv x c = Inr c'" and "conv_ok c" and "input_ok x"
  shows "conv_ok c'"
proof (cases x)
  case CHeartbeat
  then show ?thesis using assms(2) ping_conv_ok [OF assms(3)] by auto
next
  case (CTick now s)
  then show ?thesis using conv_tick_ok [OF assms(1) _ _ assms(3)] assms(2,4) by (auto simp: input_ok_def)
next
  case (CDone i n)
  show ?thesis
  proof (cases "c' = c")
    case False
    then obtain w where w: "map_of (cl_watching c) i = Some w"
      "c' = c\<lparr>cl_watching := al_set i (w\<lparr>wt_reader := None\<rparr>) (cl_watching c)\<rparr>"
      using assms(2) CDone by (auto split: option.splits if_splits)
    have "kept_at (cl_after c) c'"
      by (rule kept_at_watch [OF assms(3) [unfolded conv_ok_def] w(1), of "w\<lparr>wt_reader := None\<rparr>"]) (simp_all add: w(2))
    then show ?thesis by (rule kept_conv_ok)
  qed (use assms(3) in simp)
next
  case (CDelivery i n ev now s)
  then have "c' = c \<or> (\<exists>w. map_of (cl_watching c) i = Some w \<and> conv_delivery e i w ev now s c = Inr c')"
    using assms(2) by (auto split: option.splits if_splits)
  then show ?thesis using conv_delivery_ok [OF assms(1,3)] assms(3) by blast
qed

lemma bootstrap_ok:
  assumes "stream_law e" and "ids_ok s"
  shows "bootstrap e now conv s n c = Inr (Some c') \<Longrightarrow> conv_ok c \<Longrightarrow> conv_ok c'"
proof (induction n arbitrary: c)
  case (Suc n)
  obtain k c1 where d: "discover e now conv s c = Inr (k, c1)"
    and next_: "(if k < discovery_page_size
       then Inr (Some (c1\<lparr>cl_after := (if cl_after c1 < cl_watermark c1 then cl_watermark c1 else cl_after c1)\<rparr>))
       else bootstrap e now conv s n c1) = Inr (Some c')"
    using Suc.prems(1) by (auto simp: bindR_eq_Inr)
  have ok: "conv_ok c1" by (rule discover_conv_ok [OF assms(1) d assms(2) Suc.prems(2)])
  show ?case
  proof (cases "k < discovery_page_size")
    case True
    let ?a = "if cl_after c1 < cl_watermark c1 then cl_watermark c1 else cl_after c1"
    have c': "c' = c1\<lparr>cl_after := ?a\<rparr>" using next_ True by simp
    have le: "cl_after c1 \<le> ?a" by (simp add: less_imp_le)
    have "page_ok ?a c1" using ok le page_ok_mono unfolding conv_ok_def kept_at_def by blast
    then have "page_ok ?a c'" unfolding c' by (subst page_ok_fields [of _ c1]) simp_all
    moreover have "\<forall>i \<in> watched c'. i \<le> ?a \<or> i = []"
      using ok le unfolding c' conv_ok_def kept_at_def by (auto intro: order_trans simp del: if_split)
    ultimately show ?thesis unfolding conv_ok_def kept_at_def by (simp add: c')
  next
    case False
    then show ?thesis using Suc.IH [OF _ ok] next_ by simp
  qed
qed simp

text \<open>
  C28: a page following a conversation receives, for every message, a stream it can apply: snapshots that
  are always newer, changes that extend by exactly one revision, ends at the revision shown, across
  discovery, refreshes, bridge readers that stop and restart, and deliveries of readers that are gone;
  and the listener never believes the page to be elsewhere than it is.
\<close>
theorem conversation_streams_in_order:
  assumes "conv_open e now conv n s = Inr (Some c0)" and "conv_run e conv c0 xs = Inr c" and "stream_law e"
    and "ids_ok s" and "list_all input_ok xs"
  shows "i \<noteq> [] \<longrightarrow> (\<exists>k. read_view 0 (stream_of i c) = Some k
    \<and> (\<forall>w. map_of (cl_watching c) i = Some w \<longrightarrow> wt_revision w = k))"
proof -
  obtain c1 where b: "bootstrap e now conv s n (conv_start conv s) = Inr (Some c1)"
    and c0: "c0 = c1\<lparr>cl_out := cl_out c1 @ [\<lparr>ce_id = [], ce_message = None, ce_event = ping 0\<rparr>]\<rparr>"
    using assms(1) by (auto simp: conv_open_def bindR_eq_Inr)
  have "conv_ok (conv_start conv s)"
    by (simp add: conv_ok_def kept_at_def page_ok_def entry_ok_def conv_start_def stream_of_def)
  then have "conv_ok c0" using bootstrap_ok [OF assms(3,4) b] ping_conv_ok c0 by blast
  moreover have "foldR (\<lambda>c x. conv_input_step e conv x c) c0 xs = Inr c \<Longrightarrow> conv_ok c0 \<Longrightarrow> list_all input_ok xs \<Longrightarrow> conv_ok c" for c0
    by (induction xs arbitrary: c0) (auto simp: bindR_eq_Inr dest: conv_input_step_ok [OF assms(3)])
  ultimately have "conv_ok c" using assms(2,5) by (simp add: conv_run_def)
  then show ?thesis unfolding conv_ok_def kept_at_def page_ok_def entry_ok_def by blast
qed

definition demo_conv_inputs :: "conv_input list" where
  "demo_conv_inputs = [CHeartbeat, CDelivery ''m1'' 0 (live_event\<lparr>ev_seq := 2\<rparr>) 6 live_store, CTick 7 ended_store]"

lemma demo_conv: "(case conv_open demo_env 5 ''c1'' 3 live_store of
    Inr (Some c) \<Rightarrow> (case conv_run demo_env ''c1'' c demo_conv_inputs of Inr c1 \<Rightarrow> length (cl_out c1) = 6 | Inl _ \<Rightarrow> False)
  | _ \<Rightarrow> False)"
  by code_simp

theorem conversation_streams_in_order_witness:
  "\<exists>c0 c k. conv_open demo_env 5 ''c1'' 3 live_store = Inr (Some c0)
     \<and> conv_run demo_env ''c1'' c0 demo_conv_inputs = Inr c \<and> read_view 0 (stream_of ''m1'' c) = Some k"
proof -
  obtain c0 where c0: "conv_open demo_env 5 ''c1'' 3 live_store = Inr (Some c0)"
    using demo_conv by (auto split: sum.splits option.splits)
  have "\<exists>c. conv_run demo_env ''c1'' c0 demo_conv_inputs = Inr c"
    using demo_conv unfolding c0 by (cases "conv_run demo_env ''c1'' c0 demo_conv_inputs") auto
  then obtain c where "conv_run demo_env ''c1'' c0 demo_conv_inputs = Inr c" ..
  note c = c0 this
  have "ids_ok live_store" "list_all input_ok demo_conv_inputs"
    by (simp_all add: ids_ok_def live_store_def live_message_def demo_conv_inputs_def input_ok_def ended_store_def)
  from conversation_streams_in_order [OF c demo_stream_law this, of "''m1''"] show ?thesis using c by blast
qed

end
