(* ===== verification/Effects.thy ===== *)
theory Effects
  imports Prelude
begin

text \<open>
  Code that calls services it does not own: a computation over a state returns \<open>None\<close> when its
  fuel is used up, and otherwise an error or a value together with the state it left, so what was
  done before an error stays done.
\<close>

type_synonym ('s, 'a) eff = "'s \<Rightarrow> ('a result \<times> 's) option"

definition retE :: "'a \<Rightarrow> ('s, 'a) eff" where
  "retE x s = Some (Inr x, s)"

definition failE :: "err \<Rightarrow> ('s, 'a) eff" where
  "failE er s = Some (Inl er, s)"

definition liftE :: "'a result \<Rightarrow> ('s, 'a) eff" where
  "liftE r s = Some (r, s)"

definition callE :: "('s \<Rightarrow> 'a result \<times> 's) \<Rightarrow> ('s, 'a) eff" where
  "callE f s = Some (f s)"

definition seqE :: "('s, 'a) eff \<Rightarrow> ('a \<Rightarrow> ('s, 'b) eff) \<Rightarrow> ('s, 'b) eff" where
  "seqE m f s =
     (case m s of
        None \<Rightarrow> None
      | Some (Inl er, s1) \<Rightarrow> Some (Inl er, s1)
      | Some (Inr x, s1) \<Rightarrow> f x s1)"

fun eachE :: "('a \<Rightarrow> ('s, 'b) eff) \<Rightarrow> 'a list \<Rightarrow> ('s, 'b list) eff" where
  "eachE f [] = retE []"
| "eachE f (x # xs) = seqE (f x) (\<lambda>y. seqE (eachE f xs) (\<lambda>ys. retE (y # ys)))"

named_theorems eff_simps

lemma retE_eq [eff_simps]: "retE x s = Some (r, t) \<longleftrightarrow> r = Inr x \<and> t = s"
  by (auto simp: retE_def)

lemma failE_eq [eff_simps]: "failE er s = Some (r, t) \<longleftrightarrow> r = Inl er \<and> t = s"
  by (auto simp: failE_def)

lemma liftE_eq [eff_simps]: "liftE x s = Some (r, t) \<longleftrightarrow> r = x \<and> t = s"
  by (auto simp: liftE_def)

lemma callE_eq [eff_simps]: "callE f s = Some (r, t) \<longleftrightarrow> f s = (r, t)"
  by (auto simp: callE_def)

lemma seqE_Inr [eff_simps]:
  "seqE m f s = Some (Inr y, t) \<longleftrightarrow> (\<exists>x s1. m s = Some (Inr x, s1) \<and> f x s1 = Some (Inr y, t))"
  by (auto simp: seqE_def split: option.splits sum.splits prod.splits)

lemma seqE_Inl [eff_simps]:
  "seqE m f s = Some (Inl er, t) \<longleftrightarrow>
     m s = Some (Inl er, t) \<or> (\<exists>x s1. m s = Some (Inr x, s1) \<and> f x s1 = Some (Inl er, t))"
  by (auto simp: seqE_def split: option.splits sum.splits prod.splits)

text \<open>A computation that always ends, and the states it can leave.\<close>

definition ends :: "('s, 'a) eff \<Rightarrow> bool" where
  "ends m \<longleftrightarrow> (\<forall>s. m s \<noteq> None)"

lemma ends_simple [simp]: "ends (retE x)" "ends (failE er)" "ends (liftE r)" "ends (callE f)"
  by (simp_all add: ends_def retE_def failE_def liftE_def callE_def)

lemma ends_seqE: "ends m \<Longrightarrow> (\<And>x. ends (f x)) \<Longrightarrow> ends (seqE m f)"
  by (auto simp: ends_def seqE_def split: option.splits sum.splits prod.splits)

lemma ends_eachE: "(\<And>x. ends (f x)) \<Longrightarrow> ends (eachE f xs)"
  by (induction xs) (simp_all add: ends_seqE)

lemma seqE_some:
  "m s \<noteq> None \<Longrightarrow> (\<And>x s1. m s = Some (Inr x, s1) \<Longrightarrow> f x s1 \<noteq> None) \<Longrightarrow> seqE m f s \<noteq> None"
  by (auto simp: seqE_def split: option.splits sum.splits prod.splits)

text \<open>More fuel: what one computation returns the other returns too.\<close>

definition less_fuel :: "('s, 'a) eff \<Rightarrow> ('s, 'a) eff \<Rightarrow> bool" where
  "less_fuel m m' \<longleftrightarrow> (\<forall>s v. m s = Some v \<longrightarrow> m' s = Some v)"

lemma less_fuel_refl [simp]: "less_fuel m m"
  by (simp add: less_fuel_def)

lemma less_fuel_seqE: "less_fuel m m' \<Longrightarrow> (\<And>x. less_fuel (f x) (f' x)) \<Longrightarrow> less_fuel (seqE m f) (seqE m' f')"
  unfolding less_fuel_def seqE_def by (auto split: option.splits sum.splits)

text \<open>A relation between the states before and after every computation.\<close>

definition moves :: "('s \<Rightarrow> 's \<Rightarrow> bool) \<Rightarrow> ('s, 'a) eff \<Rightarrow> bool" where
  "moves R m \<longleftrightarrow> (\<forall>s r t. m s = Some (r, t) \<longrightarrow> R s t)"

lemma moves_simple:
  assumes "reflp R"
  shows "moves R (retE x)" "moves R (failE er)" "moves R (liftE r)"
  using assms by (auto simp: moves_def eff_simps reflp_def)

lemma moves_seqE:
  assumes "transp R" and "moves R m" and "\<And>x. moves R (f x)"
  shows "moves R (seqE m f)"
  unfolding moves_def
proof (intro allI impI)
  fix s r t assume run: "seqE m f s = Some (r, t)"
  obtain p s1 where p: "m s = Some (p, s1)" using run by (auto simp: seqE_def split: option.splits)
  have 1: "R s s1" using assms(2) p by (auto simp: moves_def)
  show "R s t"
  proof (cases p)
    case (Inl er)
    then show ?thesis using run p 1 by (simp add: seqE_def)
  next
    case (Inr x)
    then have "f x s1 = Some (r, t)" using run p by (simp add: seqE_def)
    then have "R s1 t" using assms(3) by (auto simp: moves_def)
    then show ?thesis using 1 assms(1) by (auto dest: transpD)
  qed
qed

lemma moves_eachE:
  assumes "reflp R" and "transp R" and "\<And>x. moves R (f x)"
  shows "moves R (eachE f xs)"
  by (induction xs) (auto intro!: moves_seqE moves_simple assms)

end
