(* ===== verification/Router.thy ===== *)
theory Router
  imports Effects K8sSync Humans
begin

text \<open>
  The Router operator (\<^verbatim>\<open>operators/router/internal/router\<close>): it polls one input of a conversation,
  plans, dispatches a bounded batch of temporary Harness calls, takes further inputs in at the
  boundary after a batch and replans, then publishes one answer and commits what it took. The
  runtime's verbs are a parameter, a record \<open>ports\<close> of calls over an unknown state; the JSON
  parser of a plan is a parameter too. Logging and the cancellation of a reconcile are left out.
\<close>

section \<open>Identity and configuration\<close>

abbreviation OperatorKey :: string where "OperatorKey \<equiv> ''router''"

definition router_actor :: actor_ref where
  "router_actor = \<lparr>ar_kind = ActorKindOperator, ar_key = OperatorKey\<rparr>"

definition router_harness_actor :: "string \<Rightarrow> string \<Rightarrow> actor_ref" where
  "router_harness_actor input step = \<lparr>ar_kind = ''operator/'' @ OperatorKey @ ''/harness'', ar_key = input @ ''/'' @ step\<rparr>"

record router_config =
  rc_target :: string
  rc_max :: int

definition router_new :: "router_config \<Rightarrow> router_config result" where
  "router_new c =
     (let target = trim_space (rc_target c)
      in if target = [] then Inl (ErrText ''Router Harness target is required'')
         else Inr \<lparr>rc_target = target, rc_max = (if rc_max c \<le> 0 then 4 else rc_max c)\<rparr>)"

text \<open>The steps of an execution and the names that identify their Harness calls.\<close>

datatype router_step = PlanStep nat | WorkStep nat nat | SummaryStep nat

fun step_name :: "router_step \<Rightarrow> string" where
  "step_name (PlanStep r) = (if r = 0 then ''plan'' else ''plan/'' @ nat_str r)"
| "step_name (WorkStep r i) = (if r = 0 then ''work/'' @ nat_str i else ''work/'' @ nat_str r @ ''/'' @ nat_str i)"
| "step_name (SummaryStep n) = (if n = 0 then ''summarize'' else ''summarize/'' @ nat_str n)"

section \<open>Text of messages\<close>

text \<open>The text blocks in order, and the last one called \<^verbatim>\<open>answer\<close>.\<close>

fun text_values :: "json list \<Rightarrow> string list \<Rightarrow> string \<Rightarrow> string list \<times> string" where
  "text_values [] values answer = (values, answer)"
| "text_values (b # bs) values answer =
     (case (jstr (jget ''type'' b), jstr (jget ''content'' b)) of
        (Some t, Some v) \<Rightarrow>
          if t = ''text'' \<and> \<not> blank v
          then text_values bs (values @ [trim_space v])
                 (if jstr (jget ''id'' b) = Some ''answer'' then trim_space v else answer)
          else text_values bs values answer
      | _ \<Rightarrow> text_values bs values answer)"

definition model_text :: "content \<Rightarrow> string result" where
  "model_text c =
     bindR (struct_blocks (c_val c)) (\<lambda>bs.
       if \<not> list_all is_struct bs then Inl (ErrText ''json'')
       else
         let (values, answer) = text_values bs [] []
         in if answer \<noteq> [] then Inr answer
            else if values = [] then Inl (ErrText ''AgentUE model has no text content'')
            else Inr (join_with newline values))"

definition history_line :: "cmessage \<Rightarrow> string" where
  "history_line m =
     ar_kind (cm_source m) @ ''/'' @ ar_key (cm_source m) @ '': '' @
     (case model_text (cm_content m) of Inl _ \<Rightarrow> c_raw (cm_content m) | Inr v \<Rightarrow> v)"

definition conversation_text :: "cmessage list \<Rightarrow> string" where
  "conversation_text ms =
     (if ms = [] then ''(no earlier messages)'' else join_with newline (map history_line ms))"

section \<open>Prompts\<close>

definition planning_prompt :: "string \<Rightarrow> string \<Rightarrow> int \<Rightarrow> string" where
  "planning_prompt query history max_subtasks =
     ''You plan work for a Router Operator.'' @ newline @
     ''Classify the current request as simple when one execution Harness can answer it coherently.'' @
     newline @
     ''Classify it as complex only when it benefits from two or more independent subtasks that can run in parallel.'' @
     newline @ ''Return JSON only, using exactly this shape:'' @ newline @ ''{'' @ [CHR 0x22] @ ''kind'' @
     [CHR 0x22] @ '':'' @ [CHR 0x22] @ ''simple|complex'' @ [CHR 0x22] @ '','' @ [CHR 0x22] @ ''tasks'' @
     [CHR 0x22] @ '':['' @ [CHR 0x22] @ ''self-contained task'' @ [CHR 0x22] @ '']}'' @ newline @
     ''A simple plan must contain one task. A complex plan may contain at most '' @ int_str max_subtasks @
     '' tasks.'' @ newline @ newline @ ''Conversation history:'' @ newline @ history @ newline @ newline @
     ''Current request:'' @ newline @ query"

definition execution_prompt :: "string \<Rightarrow> string \<Rightarrow> string \<Rightarrow> string" where
  "execution_prompt query history subtask =
     ''You are a temporary execution Harness working for a Router Operator.'' @ newline @
     ''Complete the assigned subtask and return a self-contained factual result for the final synthesizer.'' @
     newline @ newline @ ''Conversation history:'' @ newline @ history @ newline @ newline @
     ''Original request:'' @ newline @ query @ newline @ newline @ ''Assigned subtask:'' @ newline @ subtask"

fun evidence :: "nat \<Rightarrow> string list \<Rightarrow> string list \<Rightarrow> string" where
  "evidence n (t # ts) (r # rs) =
     newline @ ''['' @ nat_str n @ ''] Task: '' @ t @ newline @ ''Result: '' @ r @ newline @ evidence (n + 1) ts rs"
| "evidence n _ _ = []"

definition summary_prompt :: "string \<Rightarrow> string \<Rightarrow> string list \<Rightarrow> string list \<Rightarrow> string" where
  "summary_prompt query history tasks results =
     ''You synthesize the final answer for a Router Operator.'' @ newline @ ''Answer the user'' @
     [CHR 0x27] @
     ''s current request directly from the execution results. Reconcile overlap or conflicts, preserve useful detail, and do not mention routing, subtasks, or Harnesses unless the user asks.'' @
     newline @ newline @ ''Conversation history:'' @ newline @ history @ newline @ newline @
     ''Current request:'' @ newline @ query @ newline @ newline @ ''Execution results:'' @
     evidence 1 tasks results"

definition replanning_prompt :: "string \<Rightarrow> string \<Rightarrow> string list \<Rightarrow> string list \<Rightarrow> int \<Rightarrow> string" where
  "replanning_prompt query history tasks results max_subtasks =
     ''You re-plan an active Router conversation after additional user input.'' @ newline @
     ''Use the completed results below; do not repeat work that already answers the updated request.'' @
     newline @ ''Return JSON only: {'' @ [CHR 0x22] @ ''kind'' @ [CHR 0x22] @ '':'' @ [CHR 0x22] @
     ''summary|simple|complex'' @ [CHR 0x22] @ '','' @ [CHR 0x22] @ ''tasks'' @ [CHR 0x22] @ '':['' @
     [CHR 0x22] @ ''self-contained task'' @ [CHR 0x22] @ '']}.'' @ newline @
     ''Choose summary with an empty tasks array if the existing results suffice.'' @ newline @
     ''Otherwise choose simple (one task) or complex (two to '' @ int_str max_subtasks @
     '' independent tasks).'' @ newline @
     ''Each new task must include relevant facts from the completed results.'' @ newline @ newline @
     summary_prompt query history tasks results"

section \<open>Plans\<close>

record plan =
  pl_kind :: string
  pl_tasks :: "string list"

definition code_fence :: string where
  "code_fence = [CHR 0x60, CHR 0x60, CHR 0x60]"

definition unfenced :: "string \<Rightarrow> string" where
  "unfenced raw =
     (let v = trim_space raw
      in if has_prefix v (code_fence @ ''json'')
         then trim_space (trim_suffix (trim_space (trim_prefix v (code_fence @ ''json''))) code_fence)
         else if has_prefix v code_fence
         then trim_space (trim_suffix (trim_space (trim_prefix v code_fence)) code_fence)
         else v)"

text \<open>\<open>parse\<close> reads the first JSON value of a text, as \<^verbatim>\<open>Decoder.Decode\<close> does.\<close>

definition decode_task :: "json \<Rightarrow> string result" where
  "decode_task v = (case v of JStr s \<Rightarrow> Inr s | JNull \<Rightarrow> Inr [] | _ \<Rightarrow> Inl (ErrText ''json''))"

definition plan_struct :: "(string \<Rightarrow> json option) \<Rightarrow> string \<Rightarrow> plan result" where
  "plan_struct parse text =
     bindR (option_or (ErrText ''json'') (parse text)) (\<lambda>v0.
     bindR (need_struct v0) (\<lambda>v.
       if \<not> only_fields [''kind'', ''tasks''] v then Inl (ErrText ''unknown field'')
       else bindR (jfield_str ''kind'' v) (\<lambda>k.
            bindR (jfield_list ''tasks'' v) (\<lambda>ts.
            bindR (mapR decode_task (case ts of None \<Rightarrow> [] | Some xs \<Rightarrow> xs)) (\<lambda>tasks.
              Inr \<lparr>pl_kind = k, pl_tasks = tasks\<rparr>)))))"

definition plan_shape :: "string \<Rightarrow> plan \<Rightarrow> plan result" where
  "plan_shape query p =
     (let tasks = pl_tasks p
      in if pl_kind p = ''summary'' then
           (if tasks \<noteq> [] then Inl (ErrText ''summary Router plan must not dispatch subtasks'') else Inr p)
         else if pl_kind p = ''simple'' then
           (let ts = (if tasks = [] then [query] else tasks)
            in if length ts \<noteq> 1 then Inl (ErrText ''simple Router plan must contain exactly one subtask'')
               else Inr (p\<lparr>pl_tasks := ts\<rparr>))
         else if pl_kind p = ''complex'' then
           (if length tasks < 2 then Inl (ErrText ''complex Router plan must contain at least two subtasks'')
            else Inr p)
         else Inl (ErrText ''Router plan has unsupported kind''))"

definition decode_plan :: "(string \<Rightarrow> json option) \<Rightarrow> string \<Rightarrow> string \<Rightarrow> int \<Rightarrow> plan result" where
  "decode_plan parse raw query max_subtasks =
     bindR (plan_struct parse (unfenced raw)) (\<lambda>p0.
       let p = p0\<lparr>pl_tasks := map trim_space (pl_tasks p0)\<rparr>
       in if [] \<in> set (pl_tasks p) then Inl (ErrText ''Router plan subtask is empty'')
          else bindR (plan_shape query p) (\<lambda>q.
                 if max_subtasks < int (length (pl_tasks q)) then Inl (ErrText ''Router plan exceeds the limit'')
                 else Inr q))"

section \<open>The verbs of the runtime\<close>

record 'w ports =
  vb_poll :: "string \<Rightarrow> poll_request \<Rightarrow> 'w \<Rightarrow> poll_result result \<times> 'w"
  vb_list :: "string \<Rightarrow> message_query \<Rightarrow> 'w \<Rightarrow> message_page result \<times> 'w"
  vb_snapshot :: "string \<Rightarrow> string \<Rightarrow> 'w \<Rightarrow> cmessage result \<times> 'w"
  vb_prompt :: "harness_run_request \<Rightarrow> 'w \<Rightarrow> string result \<times> 'w"
  vb_wait :: "string \<Rightarrow> 'w \<Rightarrow> harness_call result \<times> 'w"
  vb_speak :: "string \<Rightarrow> speak_request \<Rightarrow> 'w \<Rightarrow> unit result \<times> 'w"
  vb_commit :: "string \<Rightarrow> commit_request \<Rightarrow> 'w \<Rightarrow> unit result \<times> 'w"

text \<open>The state of an execution: the position it has polled to, and the world of the verbs.\<close>

record 'w exec =
  ex_position :: string
  ex_world :: 'w

definition verb :: "('w \<Rightarrow> 'a result \<times> 'w) \<Rightarrow> ('w exec, 'a) eff" where
  "verb f x = (case f (ex_world x) of (r, w) \<Rightarrow> Some (r, x\<lparr>ex_world := w\<rparr>))"

record execution_of =
  eo_input :: cmessage
  eo_workspace :: string
  eo_config :: router_config

definition step_request :: "execution_of \<Rightarrow> router_step \<Rightarrow> string \<Rightarrow> harness_run_request" where
  "step_request z st text =
     (let key = step_name st; input = cm_id (eo_input z)
      in \<lparr>rr_conv = eo_workspace z, rr_idempotency = input @ ''/'' @ key, rr_effect = key,
          rr_target = rc_target (eo_config z), rr_text = text, rr_tools = [],
          rr_actor = Some (router_harness_actor input key), rr_recipient = no_actor, rr_timeout = 0,
          rr_meta = None\<rparr>)"

definition start_step :: "'w ports \<Rightarrow> execution_of \<Rightarrow> router_step \<Rightarrow> string \<Rightarrow> ('w exec, string) eff" where
  "start_step P z st text = verb (vb_prompt P (step_request z st text))"

definition wait_step :: "'w ports \<Rightarrow> string \<Rightarrow> ('w exec, string) eff" where
  "wait_step P i =
     seqE (verb (vb_wait P i)) (\<lambda>call.
       let text = trim_space (result_text (hc_result call))
       in if text = [] then failE (ErrText ''Harness returned an empty result'') else retE text)"

definition router_call :: "'w ports \<Rightarrow> execution_of \<Rightarrow> router_step \<Rightarrow> string \<Rightarrow> ('w exec, string) eff" where
  "router_call P z st text = seqE (start_step P z st text) (wait_step P)"

text \<open>The whole batch is started before the first call is waited for.\<close>

definition execute_batch ::
    "'w ports \<Rightarrow> execution_of \<Rightarrow> string \<Rightarrow> string \<Rightarrow> nat \<Rightarrow> string list \<Rightarrow> ('w exec, string list) eff" where
  "execute_batch P z query history round tasks =
     seqE (eachE (\<lambda>(index, task). start_step P z (WorkStep round index) (execution_prompt query history task))
             (enumerate 0 tasks))
       (eachE (wait_step P))"

section \<open>Taking further inputs\<close>

fun addition_texts :: "cmessage list \<Rightarrow> string list result" where
  "addition_texts [] = Inr []"
| "addition_texts (m # ms) =
     (if ar_kind (cm_source m) \<noteq> ActorKindUser then addition_texts ms
      else bindR (model_text (cm_content m)) (\<lambda>t. bindR (addition_texts ms) (\<lambda>ts. Inr (t # ts))))"

definition poll_limit :: nat where
  "poll_limit = 100"

definition advance_position :: "string \<Rightarrow> ('w exec, unit) eff" where
  "advance_position p x = Some (Inr (), x\<lparr>ex_position := (if ex_position x < p then p else ex_position x)\<rparr>)"

definition poll_next :: "'w ports \<Rightarrow> string \<Rightarrow> ('w exec, poll_result) eff" where
  "poll_next P conv x =
     verb (vb_poll P conv \<lparr>pr_actor = router_actor, pr_limit = int poll_limit, pr_after = ex_position x\<rparr>) x"

text \<open>The polls of one boundary; \<open>n\<close> bounds their number.\<close>

fun poll_additions :: "nat \<Rightarrow> 'w ports \<Rightarrow> string \<Rightarrow> string list \<Rightarrow> ('w exec, string list) eff" where
  "poll_additions 0 P conv texts = (\<lambda>_. None)"
| "poll_additions (Suc n) P conv texts =
     seqE (poll_next P conv) (\<lambda>inbox.
     seqE (advance_position (po_position inbox)) (\<lambda>_.
     seqE (liftE (addition_texts (po_messages inbox))) (\<lambda>ts.
       if length (po_messages inbox) < poll_limit then retE (texts @ ts)
       else poll_additions n P conv (texts @ ts))))"

section \<open>What is published\<close>

definition text_model :: "string \<Rightarrow> string \<Rightarrow> (string \<times> json) list \<Rightarrow> content" where
  "text_model i text meta =
     marshal (JObj [(''biz'', JStr ''chat''),
       (''blocks'', JArr [JObj [(''content'', JStr text), (''id'', JStr i), (''type'', JStr ''text'')]]),
       (''meta'', JObj meta), (''version'', JStr ''1.1'')])"

definition router_speech :: "cmessage \<Rightarrow> string \<Rightarrow> string \<Rightarrow> content \<Rightarrow> speak_request" where
  "router_speech input ending status content =
     \<lparr>sr_status = status, sr_key = cm_id input @ ending, sr_actor = router_actor,
      sr_target = cm_source input, sr_reply_to = cm_id input, sr_content = content\<rparr>"

definition failure_text :: string where
  "failure_text =
     ''Router '' @
     utf8 [0xE6, 0x89, 0xA7, 0xE8, 0xA1, 0x8C, 0xE5, 0xA4, 0xB1, 0xE8, 0xB4, 0xA5, 0xEF, 0xBC, 0x8C, 0xE8,
        0xAF, 0xB7, 0xE9, 0x87, 0x8D, 0xE8, 0xAF, 0x95, 0xE3, 0x80, 0x82]"

definition failure_speech :: "cmessage \<Rightarrow> speak_request" where
  "failure_speech input = router_speech input ''/failure'' MessageStatusFailed
     (text_model ''failure'' failure_text
        [(''error'', JObj [(''code'', JStr ''router_failed''), (''message'', JStr failure_text)])])"

definition progress_speech :: "cmessage \<Rightarrow> nat \<Rightarrow> string \<Rightarrow> string list \<Rightarrow> speak_request" where
  "progress_speech input round through results = router_speech input (''/progress/'' @ nat_str round) []
     (text_model ''progress'' (utf8 [0xE9, 0x98, 0xB6, 0xE6, 0xAE, 0xB5, 0xE7, 0xBB, 0x93, 0xE6, 0x9E, 0x9C] @ newline @ newline @ join_with (newline @ newline) results)
        [(''phase'', JStr ''progress''), (''through_id'', JStr through)])"

definition answer_speech :: "cmessage \<Rightarrow> string \<Rightarrow> string \<Rightarrow> speak_request" where
  "answer_speech input through answer = router_speech input ''/answer'' []
     (text_model ''answer'' answer [(''through_id'', JStr through)])"

section \<open>The execution\<close>

record progress =
  pg_round :: nat
  pg_query :: string
  pg_tasks :: "string list"
  pg_results :: "string list"
  pg_summaries :: nat

definition plan_round_prompt :: "execution_of \<Rightarrow> string \<Rightarrow> progress \<Rightarrow> string" where
  "plan_round_prompt z history g =
     (if pg_round g = 0 then planning_prompt (pg_query g) history (rc_max (eo_config z))
      else replanning_prompt (pg_query g) history (pg_tasks g) (pg_results g) (rc_max (eo_config z)))"

definition plan_step ::
    "(string \<Rightarrow> json option) \<Rightarrow> 'w ports \<Rightarrow> execution_of \<Rightarrow> string \<Rightarrow> progress \<Rightarrow> ('w exec, plan) eff" where
  "plan_step parse P z history g =
     seqE (router_call P z (PlanStep (pg_round g)) (plan_round_prompt z history g)) (\<lambda>raw.
     seqE (liftE (decode_plan parse raw (pg_query g) (rc_max (eo_config z)))) (\<lambda>p.
       if pg_round g = 0 \<and> pl_kind p = ''summary''
       then failE (ErrText ''initial Router plan must dispatch work'') else retE p))"

definition work_step ::
    "'w ports \<Rightarrow> execution_of \<Rightarrow> string \<Rightarrow> progress \<Rightarrow> plan \<Rightarrow> ('w exec, progress) eff" where
  "work_step P z history g p =
     (if pl_kind p = ''summary'' then retE g
      else seqE (execute_batch P z (pg_query g) history (pg_round g) (pl_tasks p)) (\<lambda>batch.
             retE (g\<lparr>pg_tasks := pg_tasks g @ pl_tasks p, pg_results := pg_results g @ batch\<rparr>)))"

definition answer_step :: "'w ports \<Rightarrow> execution_of \<Rightarrow> string \<Rightarrow> progress \<Rightarrow> ('w exec, unit) eff" where
  "answer_step P z history g =
     seqE (router_call P z (SummaryStep (pg_summaries g))
             (summary_prompt (pg_query g) history (pg_tasks g) (pg_results g))) (\<lambda>answer. \<lambda>x.
       verb (vb_speak P (cm_conv (eo_input z)) (answer_speech (eo_input z) (ex_position x) answer)) x)"

definition next_round :: "progress \<Rightarrow> string list \<Rightarrow> progress" where
  "next_round g additions =
     g\<lparr>pg_round := pg_round g + 1,
       pg_query := pg_query g @ newline @ newline @ ''Additional user messages (in order):'' @ newline @ join_with newline additions\<rparr>"

text \<open>
  The boundary after a batch: without further inputs the answer, otherwise the progress so far and
  \<open>again\<close>. \<open>through\<close> is the position before the boundary was polled.
\<close>

definition after_batch ::
    "'w ports \<Rightarrow> execution_of \<Rightarrow> string \<Rightarrow> (progress \<Rightarrow> ('w exec, unit) eff) \<Rightarrow> progress \<Rightarrow> string
     \<Rightarrow> string list \<Rightarrow> ('w exec, unit) eff" where
  "after_batch P z history again g through additions =
     (if additions = [] then answer_step P z history g
      else seqE (verb (vb_speak P (cm_conv (eo_input z))
                  (progress_speech (eo_input z) (pg_round g) through (pg_results g)))) (\<lambda>_.
             again (next_round g additions)))"

definition boundary ::
    "nat \<Rightarrow> 'w ports \<Rightarrow> execution_of \<Rightarrow> string \<Rightarrow> (progress \<Rightarrow> ('w exec, unit) eff) \<Rightarrow> progress \<Rightarrow> ('w exec, unit) eff" where
  "boundary n P z history again g x =
     seqE (poll_additions n P (cm_conv (eo_input z)) []) (after_batch P z history again g (ex_position x)) x"

text \<open>One round per fuel: it ends with the answer, or goes on with the next round's progress.\<close>

fun router_rounds ::
    "nat \<Rightarrow> (string \<Rightarrow> json option) \<Rightarrow> 'w ports \<Rightarrow> execution_of \<Rightarrow> string \<Rightarrow> progress \<Rightarrow> ('w exec, unit) eff" where
  "router_rounds 0 parse P z history g = (\<lambda>_. None)"
| "router_rounds (Suc n) parse P z history g =
     seqE (plan_step parse P z history g) (\<lambda>p.
     seqE (work_step P z history g p)
       (boundary n P z history (\<lambda>h. router_rounds n parse P z history h)))"

definition router_body ::
    "nat \<Rightarrow> (string \<Rightarrow> json option) \<Rightarrow> 'w ports \<Rightarrow> execution_of \<Rightarrow> cmessage list \<Rightarrow> ('w exec, unit) eff" where
  "router_body n parse P z messages =
     seqE (liftE (model_text (cm_content (eo_input z)))) (\<lambda>query.
       router_rounds n parse P z (conversation_text messages)
         \<lparr>pg_round = 0, pg_query = query, pg_tasks = [], pg_results = [], pg_summaries = 0\<rparr>)"

text \<open>
  The deferred end of \<^verbatim>\<open>run\<close>: an error is reported to the user before the input is committed; when
  the report fails, nothing is committed. Joined errors are represented by the first.
\<close>

definition router_commit :: "'w ports \<Rightarrow> cmessage \<Rightarrow> string \<Rightarrow> 'w \<Rightarrow> unit result \<times> 'w" where
  "router_commit P input through =
     vb_commit P (cm_conv input) \<lparr>cr_actor = router_actor, cr_through = through\<rparr>"

definition router_run ::
    "nat \<Rightarrow> (string \<Rightarrow> json option) \<Rightarrow> 'w ports \<Rightarrow> execution_of \<Rightarrow> cmessage list \<Rightarrow> 'w \<Rightarrow> (unit result \<times> 'w) option" where
  "router_run n parse P z messages w =
     (case router_body n parse P z messages \<lparr>ex_position = cm_id (eo_input z), ex_world = w\<rparr> of
        None \<Rightarrow> None
      | Some (Inr _, x) \<Rightarrow> Some (router_commit P (eo_input z) (ex_position x) (ex_world x))
      | Some (Inl er, x) \<Rightarrow>
          (case vb_speak P (cm_conv (eo_input z)) (failure_speech (eo_input z)) (ex_world x) of
             (Inl _, w1) \<Rightarrow> Some (Inl er, w1)
           | (Inr _, w1) \<Rightarrow> Some (Inl er, snd (router_commit P (eo_input z) (ex_position x) w1))))"

section \<open>The reconcile\<close>

text \<open>The bounded tail of the conversation before the input, oldest first.\<close>

definition history_query :: "string \<Rightarrow> message_query" where
  "history_query before =
     \<lparr>mq_ids = [], mq_before = before, mq_after = [], mq_order = ''desc'', mq_limit = 100, mq_statuses = []\<rparr>"

definition read_history :: "'w ports \<Rightarrow> string \<Rightarrow> string \<Rightarrow> ('w, cmessage list) eff" where
  "read_history P conv before =
     seqE (callE (vb_list P conv (history_query before))) (\<lambda>page.
       eachE (\<lambda>m. callE (vb_snapshot P conv (mi_id m))) (rev (mp_data page)))"

text \<open>\<open>True\<close> is a reconcile that is queued again after a millisecond.\<close>

definition router_reconcile ::
    "nat \<Rightarrow> (string \<Rightarrow> json option) \<Rightarrow> 'w ports \<Rightarrow> router_config \<Rightarrow> string \<Rightarrow> kconv option result \<Rightarrow> ('w, bool) eff" where
  "router_reconcile n parse P c name found =
     (case found of
        Inl er \<Rightarrow> failE er
      | Inr None \<Rightarrow> retE False
      | Inr (Some conv) \<Rightarrow>
          if kc_deleting conv then retE False
          else case participant_state_of conv router_actor of
            None \<Rightarrow> retE False
          | Some part \<Rightarrow>
              if ps_conv part = [] then failE (ErrText ''Router detail conversation is not projected yet'')
              else seqE (callE (vb_poll P name \<lparr>pr_actor = router_actor, pr_limit = 1, pr_after = []\<rparr>)) (\<lambda>inbox.
                case po_messages inbox of
                  [] \<Rightarrow> retE False
                | message # _ \<Rightarrow>
                    if ar_kind (cm_source message) \<noteq> ActorKindUser then
                      seqE (callE (vb_commit P name \<lparr>cr_actor = router_actor, cr_through = po_position inbox\<rparr>))
                        (\<lambda>_. retE True)
                    else seqE (read_history P name (cm_id message)) (\<lambda>history.
                      if cm_conv message \<noteq> name then failE (ErrText ''Router input belongs to another conversation'')
                      else seqE (router_run n parse P
                                   \<lparr>eo_input = message, eo_workspace = ps_conv part, eo_config = c\<rparr> history)
                             (\<lambda>_. retE True))))"

end
