(* ===== verification/RouterProps.thy ===== *)
theory RouterProps
  imports Router
begin

text \<open>
  The properties of the Router. A run is observed through \<open>traced\<close> verbs, which behave as the
  given ones and record every call: what is published and committed and in which order, which
  Harness calls are started, and that a run ends when its inputs do.
\<close>

section \<open>Recording the calls\<close>

datatype verb_call =
    Polled "poll_result result"
  | Listed
  | Snapshotted string
  | Prompted harness_run_request
  | Waited string
  | Spoke speak_request bool
  | Committed commit_request bool

definition recorded ::
    "('a result \<Rightarrow> verb_call) \<Rightarrow> ('w \<Rightarrow> 'a result \<times> 'w) \<Rightarrow> 'w \<times> verb_call list
     \<Rightarrow> 'a result \<times> 'w \<times> verb_call list" where
  "recorded label f x = (case f (fst x) of (r, w) \<Rightarrow> (r, w, snd x @ [label r]))"

definition succeeded :: "'a result \<Rightarrow> bool" where
  "succeeded r = (case r of Inl _ \<Rightarrow> False | Inr _ \<Rightarrow> True)"

definition traced :: "'w ports \<Rightarrow> ('w \<times> verb_call list) ports" where
  "traced P =
     \<lparr>vb_poll = (\<lambda>c q. recorded Polled (vb_poll P c q)),
      vb_list = (\<lambda>c q. recorded (\<lambda>_. Listed) (vb_list P c q)),
      vb_snapshot = (\<lambda>c i. recorded (\<lambda>_. Snapshotted i) (vb_snapshot P c i)),
      vb_prompt = (\<lambda>q. recorded (\<lambda>_. Prompted q) (vb_prompt P q)),
      vb_wait = (\<lambda>i. recorded (\<lambda>_. Waited i) (vb_wait P i)),
      vb_speak = (\<lambda>c q. recorded (\<lambda>r. Spoke q (succeeded r)) (vb_speak P c q)),
      vb_commit = (\<lambda>c q. recorded (\<lambda>r. Committed q (succeeded r)) (vb_commit P c q))\<rparr>"

abbreviation trace_of :: "('w \<times> verb_call list) exec \<Rightarrow> verb_call list" where
  "trace_of x \<equiv> snd (ex_world x)"

lemma recorded_eq: "recorded label f x = (r, w) \<Longrightarrow> snd w = snd x @ [label r]"
  by (auto simp: recorded_def split: prod.splits)

lemma verb_recorded:
  assumes "verb (recorded label f) x = Some (r, y)"
  shows "ex_position y = ex_position x" and "trace_of y = trace_of x @ [label r]"
  using assms by (auto simp: verb_def recorded_def split: prod.splits)

section \<open>The steps of a run\<close>

lemma digits_no_slash: "CHR ''/'' \<notin> set (nat_str n)"
  by (rule nat_str_no_sep) simp

lemma slash_split:
  assumes "CHR ''/'' \<notin> set a" and "CHR ''/'' \<notin> set b"
  shows "a @ CHR ''/'' # s = b @ CHR ''/'' # t \<longleftrightarrow> a = b \<and> s = t"
  by (metis cut_at_append [OF assms(1)] cut_at_append [OF assms(2)] option.inject prod.inject)

lemma slash_part: "CHR ''/'' \<notin> set a \<Longrightarrow> a \<noteq> b @ CHR ''/'' # s"
  by auto

lemma step_name_work: "step_name (WorkStep r i) = step_name (WorkStep r' i') \<longleftrightarrow> r = r' \<and> i = i'"
proof (cases "r = 0"; cases "r' = 0")
  assume "r = 0" "r' = 0"
  then show ?thesis by (auto dest: nat_str_inj)
next
  assume "r = 0" "r' \<noteq> 0"
  then show ?thesis using slash_part [OF digits_no_slash, of i "nat_str r'" "nat_str i'"] by simp
next
  assume "r \<noteq> 0" "r' = 0"
  then show ?thesis using slash_part [OF digits_no_slash, of i' "nat_str r" "nat_str i"] by simp
next
  assume "r \<noteq> 0" "r' \<noteq> 0"
  then show ?thesis
    using slash_split [OF digits_no_slash digits_no_slash, of r "nat_str i" r' "nat_str i'"] by (auto dest: nat_str_inj)
qed

lemma step_name_inj: "step_name st = step_name st' \<longleftrightarrow> st = st'"
proof
  assume eq: "step_name st = step_name st'"
  show "st = st'"
  proof (cases st)
    case (WorkStep r i)
    then obtain r' i' where "st' = WorkStep r' i'" using eq by (cases st') (auto split: if_splits)
    then show ?thesis using eq WorkStep step_name_work by blast
  qed (use eq in \<open>cases st'; auto split: if_splits dest: nat_str_inj\<close>)+
qed simp

lemma step_request_key:
  "rr_idempotency (step_request z st text) = cm_id (eo_input z) @ ''/'' @ step_name st"
  by (simp add: step_request_def Let_def)

text \<open>The position a run stands at after its polls.\<close>

fun reached :: "string \<Rightarrow> verb_call list \<Rightarrow> string" where
  "reached p [] = p"
| "reached p (Polled (Inr res) # cs) = reached (if p < po_position res then po_position res else p) cs"
| "reached p (_ # cs) = reached p cs"

lemma reached_append [simp]: "reached p (a @ b) = reached (reached p a) b"
  by (induction p a rule: reached.induct) auto

lemma reached_le: "p \<le> reached p cs"
  by (induction p cs rule: reached.induct) (auto split: if_splits intro: order_trans less_imp_le)

text \<open>What a computation records, with the position it leaves.\<close>

definition emits :: "(verb_call list \<Rightarrow> bool) \<Rightarrow> (('w \<times> verb_call list) exec, 'a) eff \<Rightarrow> bool" where
  "emits C m \<longleftrightarrow> (\<forall>x r y. m x = Some (r, y) \<longrightarrow>
     (\<exists>cs. trace_of y = trace_of x @ cs \<and> ex_position y = reached (ex_position x) cs \<and> C cs))"

lemma emitsD: "emits C m \<Longrightarrow> m x = Some (r, y) \<Longrightarrow>
    \<exists>cs. trace_of y = trace_of x @ cs \<and> ex_position y = reached (ex_position x) cs \<and> C cs"
  unfolding emits_def by blast

lemma emits_simple: "C [] \<Longrightarrow> emits C (retE v)" "C [] \<Longrightarrow> emits C (failE er)" "C [] \<Longrightarrow> emits C (liftE w)"
  by (auto simp: emits_def eff_simps)

lemma emits_weaken: "emits C m \<Longrightarrow> (\<And>cs. C cs \<Longrightarrow> D cs) \<Longrightarrow> emits D m"
  unfolding emits_def by blast

lemma emits_at: "(\<And>x0. emits C (F x0)) \<Longrightarrow> emits C (\<lambda>x. F x x)"
  unfolding emits_def by blast

lemma emits_verb:
  assumes "\<And>r. C [label r]" and "\<And>p r. reached p [label r] = p"
  shows "emits C (verb (recorded label f))"
  unfolding emits_def
proof (intro allI impI)
  fix x r y assume "verb (recorded label f) x = Some (r, y)"
  note y = verb_recorded [OF this]
  show "\<exists>cs. trace_of y = trace_of x @ cs \<and> ex_position y = reached (ex_position x) cs \<and> C cs"
    by (rule exI [of _ "[label r]"]) (use y assms in simp)
qed

lemma emits_seq:
  assumes "emits C m" and "\<And>v s t. m s = Some (Inr v, t) \<Longrightarrow> emits D (f v)"
    and "\<And>a. C a \<Longrightarrow> E a" and "\<And>a b. C a \<Longrightarrow> D b \<Longrightarrow> E (a @ b)"
  shows "emits E (seqE m f)"
  unfolding emits_def
proof (intro allI impI)
  fix x r y assume run: "seqE m f x = Some (r, y)"
  obtain p s1 where p: "m x = Some (p, s1)" using run by (auto simp: seqE_def split: option.splits)
  obtain a where a: "trace_of s1 = trace_of x @ a" "ex_position s1 = reached (ex_position x) a" "C a"
    using emitsD [OF assms(1) p] by blast
  show "\<exists>cs. trace_of y = trace_of x @ cs \<and> ex_position y = reached (ex_position x) cs \<and> E cs"
  proof (cases p)
    case (Inl er)
    then have "y = s1" using run p by (simp add: seqE_def)
    then show ?thesis using a assms(3) by blast
  next
    case (Inr v)
    then have "f v s1 = Some (r, y)" using run p by (simp add: seqE_def)
    from emitsD [OF assms(2) this] p Inr obtain b
      where b: "trace_of y = trace_of s1 @ b" "ex_position y = reached (ex_position s1) b" "D b" by blast
    show ?thesis by (rule exI [of _ "a @ b"]) (use a b assms(4) in simp)
  qed
qed

section \<open>What a run may do before its end\<close>

text \<open>
  Before its end a run commits nothing and publishes neither its answer nor its failure, and the
  Harness calls it starts are of distinct steps.
\<close>

fun quiet_call :: "execution_of \<Rightarrow> verb_call \<Rightarrow> bool" where
  "quiet_call z (Committed q ok) = False"
| "quiet_call z (Spoke q ok) =
     (ok \<longrightarrow> sr_key q \<noteq> cm_id (eo_input z) @ ''/answer'' \<and> sr_key q \<noteq> cm_id (eo_input z) @ ''/failure'')"
| "quiet_call z q = True"

fun prompts :: "verb_call list \<Rightarrow> harness_run_request list" where
  "prompts [] = []"
| "prompts (Prompted q # cs) = q # prompts cs"
| "prompts (_ # cs) = prompts cs"

lemma prompts_append [simp]: "prompts (a @ b) = prompts a @ prompts b"
  by (induction a rule: prompts.induct) auto

definition calls_ok :: "execution_of \<Rightarrow> router_step set \<Rightarrow> verb_call list \<Rightarrow> bool" where
  "calls_ok z S cs \<longleftrightarrow> list_all (quiet_call z) cs
     \<and> (\<exists>sts. prompts cs = map (\<lambda>(st, text). step_request z st text) sts
          \<and> distinct (map fst sts) \<and> set (map fst sts) \<subseteq> S)"

lemma calls_ok_Nil [simp]: "calls_ok z S []"
  by (simp add: calls_ok_def)

lemma calls_ok_mono: "calls_ok z S cs \<Longrightarrow> S \<subseteq> T \<Longrightarrow> calls_ok z T cs"
  unfolding calls_ok_def by (meson subset_trans)

lemma calls_ok_append:
  assumes "calls_ok z S a" and "calls_ok z T b" and "S \<inter> T = {}"
  shows "calls_ok z (S \<union> T) (a @ b)"
proof -
  obtain u v where u: "prompts a = map (\<lambda>(st, text). step_request z st text) u" "distinct (map fst u)" "set (map fst u) \<subseteq> S"
    and v: "prompts b = map (\<lambda>(st, text). step_request z st text) v" "distinct (map fst v)" "set (map fst v) \<subseteq> T"
    using assms(1,2) unfolding calls_ok_def by blast
  have "distinct (map fst (u @ v))" using u v assms(3) by auto
  then show ?thesis unfolding calls_ok_def
    using assms(1,2) u v by (intro conjI exI [of _ "u @ v"]) (auto simp: calls_ok_def)
qed

lemma emits_ok_seq:
  assumes "emits (calls_ok z S) m" and "\<And>v s t. m s = Some (Inr v, t) \<Longrightarrow> emits (calls_ok z T) (f v)"
    and "S \<inter> T = {}"
  shows "emits (calls_ok z (S \<union> T)) (seqE m f)"
  by (rule emits_seq [OF assms(1,2)]) (auto intro: calls_ok_append [OF _ _ assms(3)] calls_ok_mono)

lemma emits_ok_then:
  assumes "emits (calls_ok z S) m" and "\<And>v s t. m s = Some (Inr v, t) \<Longrightarrow> emits (calls_ok z {}) (f v)"
  shows "emits (calls_ok z S) (seqE m f)"
  using emits_ok_seq [OF assms] by simp

lemma emits_ok_after:
  assumes "emits (calls_ok z {}) m" and "\<And>v s t. m s = Some (Inr v, t) \<Longrightarrow> emits (calls_ok z S) (f v)"
  shows "emits (calls_ok z S) (seqE m f)"
  using emits_ok_seq [OF assms] by simp

lemma emits_ok_mono: "emits (calls_ok z S) m \<Longrightarrow> S \<subseteq> T \<Longrightarrow> emits (calls_ok z T) m"
  by (erule emits_weaken) (erule calls_ok_mono)

lemma emits_ok_eachE:
  "(\<And>x. x \<in> set xs \<Longrightarrow> emits (calls_ok z (S x)) (f x)) \<Longrightarrow> (\<forall>x \<in> set xs. \<forall>y \<in> set xs. x \<noteq> y \<longrightarrow> S x \<inter> S y = {}) \<Longrightarrow>
     distinct xs \<Longrightarrow> emits (calls_ok z (\<Union>x \<in> set xs. S x)) (eachE f xs)"
proof (induction xs)
  case (Cons x xs)
  have "S x \<inter> (\<Union>y \<in> set xs. S y) = {}" using Cons.prems(2,3) by auto
  moreover have "emits (calls_ok z (\<Union>y \<in> set xs. S y)) (seqE (eachE f xs) (\<lambda>ys. retE (v # ys)))" for v
    using Cons by (intro emits_ok_then emits_simple) auto
  ultimately show ?case unfolding eachE.simps set_simps UN_insert
    by (intro emits_ok_seq Cons.prems(1)) auto
qed (simp add: emits_simple)

section \<open>The parts of a run\<close>

lemma start_step_ok: "emits (calls_ok z {st}) (start_step (traced P) z st text)"
proof -
  have "calls_ok z {st} [Prompted (step_request z st text)]"
    unfolding calls_ok_def by (intro conjI exI [of _ "[(st, text)]"]) auto
  then show ?thesis unfolding start_step_def traced_def by (simp add: emits_verb)
qed

lemma quiet_ok: "quiet_call z q \<Longrightarrow> (\<And>r. q \<noteq> Prompted r) \<Longrightarrow> calls_ok z S [q]"
  by (cases q) (auto simp: calls_ok_def)

lemma wait_step_ok: "emits (calls_ok z {}) (wait_step (traced P) i)"
proof -
  have "emits (calls_ok z {}) (verb (vb_wait (traced P) i))"
    unfolding traced_def by (simp add: emits_verb quiet_ok)
  then show ?thesis unfolding wait_step_def Let_def
    by (intro emits_ok_then) (simp_all add: emits_simple)
qed

lemma router_call_ok: "emits (calls_ok z {st}) (router_call (traced P) z st text)"
  unfolding router_call_def by (intro emits_ok_then start_step_ok wait_step_ok)

lemma execute_batch_ok:
  "emits (calls_ok z {WorkStep r i |i. i < length tasks}) (execute_batch (traced P) z query history r tasks)"
proof -
  let ?f = "\<lambda>(index, task). start_step (traced P) z (WorkStep r index) (execution_prompt query history task)"
  have "emits (calls_ok z (\<Union>x \<in> set (enumerate 0 tasks). {WorkStep r (fst x)})) (eachE ?f (enumerate 0 tasks))"
    by (rule emits_ok_eachE) (auto simp: start_step_ok in_set_enumerate_eq)
  moreover have "(\<Union>x \<in> set (enumerate 0 tasks). {WorkStep r (fst x)}) = WorkStep r ` set (map fst (enumerate 0 tasks))"
    unfolding set_map image_image UNION_singleton_eq_range ..
  moreover have "WorkStep r ` set (map fst (enumerate 0 tasks)) = {WorkStep r i |i. i < length tasks}"
    unfolding map_fst_enumerate by auto
  moreover have "emits (calls_ok z {}) (eachE (wait_step (traced P)) calls)" for calls
    by (induction calls) (auto intro!: emits_ok_then emits_simple wait_step_ok)
  ultimately show ?thesis unfolding execute_batch_def by (intro emits_ok_then) simp_all
qed

text \<open>A poll and the position taken from it.\<close>

lemma poll_step_ok:
  assumes "\<And>inbox. emits (calls_ok z S) (f inbox)"
  shows "emits (calls_ok z S) (seqE (poll_next (traced P) conv) (\<lambda>inbox. seqE (advance_position (po_position inbox)) (\<lambda>_. f inbox)))"
  unfolding emits_def
proof (intro allI impI)
  fix x r y
  assume run: "seqE (poll_next (traced P) conv) (\<lambda>inbox. seqE (advance_position (po_position inbox)) (\<lambda>_. f inbox)) x = Some (r, y)"
  obtain p s1 where p: "poll_next (traced P) conv x = Some (p, s1)"
    using run by (auto simp: seqE_def split: option.splits)
  have s1: "ex_position s1 = ex_position x" "trace_of s1 = trace_of x @ [Polled p]"
    using p verb_recorded unfolding poll_next_def traced_def by (simp_all, blast+)
  have ok: "calls_ok z {} [Polled p]" by (simp add: quiet_ok)
  show "\<exists>cs. trace_of y = trace_of x @ cs \<and> ex_position y = reached (ex_position x) cs \<and> calls_ok z S cs"
  proof (cases p)
    case (Inl er)
    then have "y = s1" using run p by (simp add: seqE_def)
    then show ?thesis using s1 ok Inl by (intro exI [of _ "[Polled p]"]) (auto intro: calls_ok_mono)
  next
    case (Inr inbox)
    let ?s = "s1\<lparr>ex_position := (if ex_position s1 < po_position inbox then po_position inbox else ex_position s1)\<rparr>"
    have "f inbox ?s = Some (r, y)" using run p Inr by (simp add: seqE_def advance_position_def)
    from emitsD [OF assms this] obtain b where b: "trace_of y = trace_of ?s @ b"
      "ex_position y = reached (ex_position ?s) b" "calls_ok z S b" by blast
    have "calls_ok z ({} \<union> S) ([Polled p] @ b)" by (rule calls_ok_append [OF ok b(3)]) simp
    then show ?thesis using b s1 Inr by (intro exI [of _ "Polled p # b"]) simp
  qed
qed

lemma poll_additions_ok: "emits (calls_ok z {}) (poll_additions n (traced P) conv texts)"
proof (induction n arbitrary: texts)
  case (Suc n)
  show ?case unfolding poll_additions.simps
    by (intro poll_step_ok emits_ok_then) (auto intro: Suc emits_simple)
qed (simp add: emits_def)

lemma decode_plan_bounded:
  assumes "decode_plan parse raw query n = Inr p"
  shows "int (length (pl_tasks p)) \<le> n"
  using assms by (auto simp: decode_plan_def Let_def bindR_eq_Inr not_less split: if_splits)

lemma plan_step_ok: "emits (calls_ok z {PlanStep (pg_round g)}) (plan_step parse (traced P) z history g)"
  unfolding plan_step_def by (intro emits_ok_then router_call_ok) (auto simp: emits_simple)

lemma plan_step_bounded:
  "plan_step parse (traced P) z history g s = Some (Inr p, t) \<Longrightarrow> int (length (pl_tasks p)) \<le> rc_max (eo_config z)"
  by (auto simp: plan_step_def eff_simps dest: decode_plan_bounded [OF sym] split: if_splits)

definition work_of :: "execution_of \<Rightarrow> nat \<Rightarrow> router_step set" where
  "work_of z r = {WorkStep r i |i. int i < rc_max (eo_config z)}"

lemma work_step_ok:
  assumes "int (length (pl_tasks p)) \<le> rc_max (eo_config z)"
  shows "emits (calls_ok z (work_of z (pg_round g))) (work_step (traced P) z history g p)"
proof -
  have "emits (calls_ok z (work_of z (pg_round g)))
      (execute_batch (traced P) z (pg_query g) history (pg_round g) (pl_tasks p))"
    by (rule emits_ok_mono [OF execute_batch_ok]) (use assms in \<open>auto simp: work_of_def\<close>)
  then show ?thesis unfolding work_step_def by (auto intro!: emits_ok_then simp: emits_simple)
qed

lemma work_step_round: "work_step P z history g p s = Some (Inr g1, t) \<Longrightarrow> pg_round g1 = pg_round g \<and> pg_summaries g1 = pg_summaries g"
  by (auto simp: work_step_def eff_simps split: if_splits)

lemma speech_key: "sr_key (router_speech input ending st c) = cm_id input @ ending"
  by (simp add: router_speech_def)

lemma progress_ok:
  "emits (calls_ok z {}) (verb (vb_speak (traced P) conv (progress_speech (eo_input z) r through results)))"
proof -
  have "calls_ok z {} [Spoke (progress_speech (eo_input z) r through results) ok]" for ok
    by (rule quiet_ok) (simp_all add: progress_speech_def speech_key)
  then show ?thesis unfolding traced_def by (simp add: emits_verb)
qed

section \<open>The whole of a run\<close>

definition answers :: "execution_of \<Rightarrow> router_step set \<Rightarrow> (('w \<times> verb_call list) exec, unit) eff \<Rightarrow> bool" where
  "answers z S m \<longleftrightarrow> (\<forall>x r y. m x = Some (r, y) \<longrightarrow>
     (\<exists>cs. calls_ok z S cs \<and> ex_position y = reached (ex_position x) cs
        \<and> (case r of Inl _ \<Rightarrow> trace_of y = trace_of x @ cs
            | Inr _ \<Rightarrow> \<exists>a. trace_of y = trace_of x @ cs @ [Spoke (answer_speech (eo_input z) (ex_position y) a) True])))"

lemma answersD: "answers z S m \<Longrightarrow> m x = Some (r, y) \<Longrightarrow>
    \<exists>cs. calls_ok z S cs \<and> ex_position y = reached (ex_position x) cs
        \<and> (case r of Inl _ \<Rightarrow> trace_of y = trace_of x @ cs
            | Inr _ \<Rightarrow> \<exists>a. trace_of y = trace_of x @ cs @ [Spoke (answer_speech (eo_input z) (ex_position y) a) True])"
  unfolding answers_def by blast

lemma answers_at: "(\<And>x0. answers z S (F x0)) \<Longrightarrow> answers z S (\<lambda>x. F x x)"
  unfolding answers_def by blast

lemma answers_mono: "answers z S m \<Longrightarrow> S \<subseteq> T \<Longrightarrow> answers z T m"
  unfolding answers_def by (meson calls_ok_mono)

lemma answers_seq:
  assumes "emits (calls_ok z S) m" and "\<And>v s t. m s = Some (Inr v, t) \<Longrightarrow> answers z T (f v)" and "S \<inter> T = {}"
  shows "answers z (S \<union> T) (seqE m f)"
  unfolding answers_def
proof (intro allI impI)
  fix x r y assume run: "seqE m f x = Some (r, y)"
  obtain p s1 where p: "m x = Some (p, s1)" using run by (auto simp: seqE_def split: option.splits)
  obtain a where a: "trace_of s1 = trace_of x @ a" "ex_position s1 = reached (ex_position x) a" "calls_ok z S a"
    using emitsD [OF assms(1) p] by blast
  show "\<exists>cs. calls_ok z (S \<union> T) cs \<and> ex_position y = reached (ex_position x) cs
        \<and> (case r of Inl _ \<Rightarrow> trace_of y = trace_of x @ cs
            | Inr _ \<Rightarrow> \<exists>a. trace_of y = trace_of x @ cs @ [Spoke (answer_speech (eo_input z) (ex_position y) a) True])"
  proof (cases p)
    case (Inl er)
    then have "y = s1" "r = Inl er" using run p by (simp_all add: seqE_def)
    then show ?thesis using a by (intro exI [of _ a]) (auto intro: calls_ok_mono)
  next
    case (Inr v)
    then have "f v s1 = Some (r, y)" using run p by (simp add: seqE_def)
    with assms(2) p Inr obtain b where b: "calls_ok z T b" "ex_position y = reached (ex_position s1) b"
      "case r of Inl _ \<Rightarrow> trace_of y = trace_of s1 @ b
       | Inr _ \<Rightarrow> \<exists>a. trace_of y = trace_of s1 @ b @ [Spoke (answer_speech (eo_input z) (ex_position y) a) True]"
      unfolding answers_def by blast
    show ?thesis
      by (rule exI [of _ "a @ b"]) (use a b calls_ok_append [OF a(3) b(1) assms(3)] in \<open>simp split: sum.splits\<close>)
  qed
qed

lemma answer_step_answers: "answers z {SummaryStep (pg_summaries g)} (answer_step (traced P) z history g)"
proof -
  have F: "answers z {} (\<lambda>x. verb (vb_speak (traced P) conv (answer_speech (eo_input z) (ex_position x) answer)) x)" for conv answer
    unfolding answers_def
  proof (intro allI impI)
    fix x r y
    assume "verb (vb_speak (traced P) conv (answer_speech (eo_input z) (ex_position x) answer)) x = Some (r, y)"
    then have y: "ex_position y = ex_position x"
      "trace_of y = trace_of x @ [Spoke (answer_speech (eo_input z) (ex_position x) answer) (succeeded r)]"
      using verb_recorded unfolding traced_def by (simp_all, blast+)
    show "\<exists>cs. calls_ok z {} cs \<and> ex_position y = reached (ex_position x) cs
        \<and> (case r of Inl _ \<Rightarrow> trace_of y = trace_of x @ cs
            | Inr _ \<Rightarrow> \<exists>a. trace_of y = trace_of x @ cs @ [Spoke (answer_speech (eo_input z) (ex_position y) a) True])"
    proof (cases r)
      case (Inl er)
      then show ?thesis using y
        by (intro exI [of _ "[Spoke (answer_speech (eo_input z) (ex_position x) answer) False]"])
          (simp add: succeeded_def quiet_ok)
    next
      case (Inr u)
      then show ?thesis using y by (intro exI [of _ "[]"]) (auto simp: succeeded_def)
    qed
  qed
  have "answers z ({SummaryStep (pg_summaries g)} \<union> {}) (answer_step (traced P) z history g)"
    unfolding answer_step_def by (intro answers_seq router_call_ok F) simp
  then show ?thesis by simp
qed

definition steps_from :: "execution_of \<Rightarrow> nat \<Rightarrow> nat \<Rightarrow> router_step set" where
  "steps_from z k n = {PlanStep r |r. n \<le> r} \<union> {WorkStep r i |r i. n \<le> r \<and> int i < rc_max (eo_config z)} \<union> {SummaryStep k}"

lemma after_batch_answers:
  assumes "\<And>h. pg_round h = pg_round g + 1 \<Longrightarrow> pg_summaries h = pg_summaries g \<Longrightarrow> answers z (steps_from z (pg_summaries g) (pg_round g + 1)) (again h)"
  shows "answers z (steps_from z (pg_summaries g) (pg_round g + 1)) (after_batch (traced P) z history again g through additions)"
proof (cases "additions = []")
  case True
  have "{SummaryStep (pg_summaries g)} \<subseteq> steps_from z (pg_summaries g) (pg_round g + 1)" by (simp add: steps_from_def)
  then show ?thesis using True answers_mono [OF answer_step_answers] by (simp add: after_batch_def)
next
  case False
  have "answers z (steps_from z (pg_summaries g) (pg_round g + 1)) (again (next_round g additions))"
    by (rule assms) (simp_all add: next_round_def)
  then have "answers z ({} \<union> steps_from z (pg_summaries g) (pg_round g + 1))
      (after_batch (traced P) z history again g through additions)"
    using False unfolding after_batch_def by (simp only: if_False) (intro answers_seq progress_ok, simp_all)
  then show ?thesis by simp
qed

lemma boundary_answers:
  assumes "\<And>h. pg_round h = pg_round g + 1 \<Longrightarrow> pg_summaries h = pg_summaries g \<Longrightarrow> answers z (steps_from z (pg_summaries g) (pg_round g + 1)) (again h)"
  shows "answers z (steps_from z (pg_summaries g) (pg_round g + 1)) (boundary n (traced P) z history again g)"
proof -
  have "answers z ({} \<union> steps_from z (pg_summaries g) (pg_round g + 1))
      (seqE (poll_additions n (traced P) conv []) (after_batch (traced P) z history again g through))" for conv through
    by (intro answers_seq poll_additions_ok after_batch_answers assms) simp_all
  then have "answers z (steps_from z (pg_summaries g) (pg_round g + 1))
      (seqE (poll_additions n (traced P) (cm_conv (eo_input z)) []) (after_batch (traced P) z history again g (ex_position x0)))" for x0
    by simp
  from answers_at [OF this] show ?thesis by (simp add: boundary_def [abs_def])
qed

lemma router_rounds_answers:
  "answers z (steps_from z (pg_summaries g) (pg_round g)) (router_rounds n parse (traced P) z history g)"
proof (induction n arbitrary: g)
  case (Suc n)
  let ?k = "pg_summaries g" and ?r = "pg_round g"
  have IH: "answers z (steps_from z ?k (?r + 1)) (router_rounds n parse (traced P) z history h)"
    if "pg_round h = ?r + 1" "pg_summaries h = ?k" for h
    using Suc [of h] that by simp
  have "answers z ({PlanStep ?r} \<union> (work_of z ?r \<union> steps_from z ?k (?r + 1)))
      (router_rounds (Suc n) parse (traced P) z history g)"
    unfolding router_rounds.simps
  proof (intro answers_seq plan_step_ok)
    fix p s t assume "plan_step parse (traced P) z history g s = Some (Inr p, t)"
    then show "emits (calls_ok z (work_of z ?r)) (work_step (traced P) z history g p)"
      by (intro work_step_ok plan_step_bounded)
  next
    fix p s t g1 s1 t1
    assume "work_step (traced P) z history g p s1 = Some (Inr g1, t1)"
    from work_step_round [OF this]
    show "answers z (steps_from z ?k (?r + 1))
        (boundary n (traced P) z history (\<lambda>h. router_rounds n parse (traced P) z history h) g1)"
      using boundary_answers [of g1 z "\<lambda>h. router_rounds n parse (traced P) z history h" n P history] IH by simp
  qed (auto simp: work_of_def steps_from_def)
  then show ?case by (rule answers_mono) (auto simp: work_of_def steps_from_def)
qed (simp add: answers_def)

lemma router_body_answers:
  "answers z (steps_from z 0 0) (router_body n parse (traced P) z messages)"
proof -
  let ?g = "\<lambda>query. \<lparr>pg_round = 0, pg_query = query, pg_tasks = [], pg_results = [], pg_summaries = 0\<rparr>"
  have "answers z (steps_from z 0 0) (router_rounds n parse (traced P) z history (?g query))" for history query
    using router_rounds_answers [of z "?g query"] by simp
  then have "answers z ({} \<union> steps_from z 0 0) (router_body n parse (traced P) z messages)"
    unfolding router_body_def by (intro answers_seq emits_simple) simp_all
  then show ?thesis by simp
qed

lemma router_run_trace:
  assumes "router_run n parse (traced P) z messages (w, []) = Some (r, w', tr)"
  shows "\<exists>cs through. calls_ok z (steps_from z 0 0) cs \<and> through = reached (cm_id (eo_input z)) cs
    \<and> ((\<exists>a ok. tr = cs @ [Spoke (answer_speech (eo_input z) through a) True,
                        Committed \<lparr>cr_actor = router_actor, cr_through = through\<rparr> ok] \<and> succeeded r = ok)
      \<or> (\<exists>ok. tr = cs @ [Spoke (failure_speech (eo_input z)) True,
                        Committed \<lparr>cr_actor = router_actor, cr_through = through\<rparr> ok] \<and> \<not> succeeded r)
      \<or> (tr = cs @ [Spoke (failure_speech (eo_input z)) False] \<and> \<not> succeeded r))"
proof -
  let ?x = "\<lparr>ex_position = cm_id (eo_input z), ex_world = (w, [])\<rparr>"
  have x: "trace_of ?x = []" "ex_position ?x = cm_id (eo_input z)" by simp_all
  obtain p x where p: "router_body n parse (traced P) z messages ?x = Some (p, x)"
    using assms by (auto simp: router_run_def split: option.splits)
  obtain cs where cs: "calls_ok z (steps_from z 0 0) cs" "ex_position x = reached (cm_id (eo_input z)) cs"
    and tr: "case p of Inl _ \<Rightarrow> trace_of x = cs
       | Inr _ \<Rightarrow> \<exists>a. trace_of x = cs @ [Spoke (answer_speech (eo_input z) (ex_position x) a) True]"
    using answersD [OF router_body_answers p] unfolding x append_Nil by blast
  show ?thesis
  proof (cases p)
    case (Inr u)
    then have c: "router_commit (traced P) (eo_input z) (ex_position x) (ex_world x) = (r, w', tr)"
      using assms p by (simp add: router_run_def)
    then have "tr = trace_of x @ [Committed \<lparr>cr_actor = router_actor, cr_through = ex_position x\<rparr> (succeeded r)]"
      unfolding router_commit_def traced_def using recorded_eq by fastforce
    then show ?thesis using tr cs Inr by auto
  next
    case (Inl er)
    obtain q v where s: "vb_speak (traced P) (cm_conv (eo_input z)) (failure_speech (eo_input z)) (ex_world x) = (q, v)"
      by (rule prod.exhaust)
    have v: "snd v = cs @ [Spoke (failure_speech (eo_input z)) (succeeded q)]"
      using s recorded_eq tr Inl unfolding traced_def by fastforce
    show ?thesis
    proof (cases q)
      case (Inl er2)
      then have "r = Inl er" "(w', tr) = v" using assms p s \<open>p = Inl er\<close> by (auto simp: router_run_def)
      then show ?thesis using v cs Inl by (auto simp: succeeded_def)
    next
      case (Inr u)
      obtain c v2 where c: "router_commit (traced P) (eo_input z) (ex_position x) v = (c, v2)" by (rule prod.exhaust)
      then have "r = Inl er" "(w', tr) = v2" using assms p s \<open>p = Inl er\<close> Inr by (auto simp: router_run_def)
      moreover have "snd v2 = snd v @ [Committed \<lparr>cr_actor = router_actor, cr_through = ex_position x\<rparr> (succeeded c)]"
        using c recorded_eq unfolding router_commit_def traced_def by fastforce
      ultimately show ?thesis using v cs Inr by (auto simp: succeeded_def)
    qed
  qed
qed

text \<open>
  C37: the Router answers before it commits and never twice. Whatever the verbs do, a run commits at most
  once, as its last call, right after it published either its answer or its failure, and exactly up to
  the position its polls reached; when not even the failure could be published nothing is committed,
  so the input is taken up again.
\<close>
theorem router_answers_then_commits:
  assumes "router_run n parse (traced P) z messages (w, []) = Some (r, w', tr)"
  shows "\<exists>cs through. list_all (quiet_call z) cs \<and> through = reached (cm_id (eo_input z)) cs
    \<and> ((\<exists>a ok. tr = cs @ [Spoke (answer_speech (eo_input z) through a) True,
                        Committed \<lparr>cr_actor = router_actor, cr_through = through\<rparr> ok] \<and> succeeded r = ok)
      \<or> (\<exists>ok. tr = cs @ [Spoke (failure_speech (eo_input z)) True,
                        Committed \<lparr>cr_actor = router_actor, cr_through = through\<rparr> ok] \<and> \<not> succeeded r)
      \<or> (tr = cs @ [Spoke (failure_speech (eo_input z)) False] \<and> \<not> succeeded r))"
  using router_run_trace [OF assms] unfolding calls_ok_def by blast

text \<open>
  C38: every Harness call of a run has its own identity and a round starts at most the configured number
  of subtasks. So repeating a run repeats the same submissions, and within a run no call replays another.
\<close>
theorem router_calls_are_distinct:
  assumes "router_run n parse (traced P) z messages (w, []) = Some (r, w', tr)"
  shows "distinct (map rr_idempotency (prompts tr))
    \<and> (\<forall>q \<in> set (prompts tr). \<exists>st body. q = step_request z st body
         \<and> (\<forall>k i. st = WorkStep k i \<longrightarrow> int i < rc_max (eo_config z)))"
proof -
  obtain cs rest where cs: "calls_ok z (steps_from z 0 0) cs" and tr: "tr = cs @ rest" "prompts rest = []"
    using router_run_trace [OF assms] by fastforce
  obtain sts where sts: "prompts cs = map (\<lambda>(st, text). step_request z st text) sts" "distinct (map fst sts)"
    "set (map fst sts) \<subseteq> steps_from z 0 0"
    using cs unfolding calls_ok_def by blast
  have "map rr_idempotency (prompts tr) = map (\<lambda>st. cm_id (eo_input z) @ ''/'' @ step_name st) (map fst sts)"
    by (simp add: tr sts(1) step_request_key comp_def split_def)
  moreover have "distinct (map (\<lambda>st. cm_id (eo_input z) @ ''/'' @ step_name st) (map fst sts))"
    using sts(2) by (simp only: distinct_map, auto simp: inj_on_def step_name_inj)
  moreover have "\<exists>st body. q = step_request z st body \<and> (\<forall>k i. st = WorkStep k i \<longrightarrow> int i < rc_max (eo_config z))"
    if "q \<in> set (prompts tr)" for q
  proof -
    have "q \<in> (\<lambda>(st, body). step_request z st body) ` set sts"
      using that unfolding tr(1) by (simp add: tr(2) sts(1))
    then obtain st body where st: "(st, body) \<in> set sts" "q = step_request z st body" by auto
    then have "st \<in> steps_from z 0 0" using sts(3) by force
    then have "\<forall>k i. st = WorkStep k i \<longrightarrow> int i < rc_max (eo_config z)" by (auto simp: steps_from_def)
    then show ?thesis using st by blast
  qed
  ultimately show ?thesis by simp
qed

section \<open>A run ends when its inputs do\<close>

text \<open>
  \<open>left\<close> bounds the inputs still to come: a poll that delivers messages uses one up and no verb adds
  to it. Users that never stop writing have no such bound.
\<close>

definition inputs_left :: "('w \<Rightarrow> nat) \<Rightarrow> 'w ports \<Rightarrow> bool" where
  "inputs_left left P \<longleftrightarrow>
     (\<forall>c q w r w1. vb_poll P c q w = (r, w1) \<longrightarrow>
        left w1 + (case r of Inr res \<Rightarrow> if po_messages res = [] then 0 else 1 | Inl _ \<Rightarrow> 0) \<le> left w)
   \<and> (\<forall>q w r w1. vb_prompt P q w = (r, w1) \<longrightarrow> left w1 \<le> left w)
   \<and> (\<forall>i w r w1. vb_wait P i w = (r, w1) \<longrightarrow> left w1 \<le> left w)
   \<and> (\<forall>c q w r w1. vb_speak P c q w = (r, w1) \<longrightarrow> left w1 \<le> left w)"

definition fewer :: "('w \<Rightarrow> nat) \<Rightarrow> 'w exec \<Rightarrow> 'w exec \<Rightarrow> bool" where
  "fewer left x y \<longleftrightarrow> left (ex_world y) \<le> left (ex_world x)"

lemma fewer_order [simp]: "reflp (fewer left)" "transp (fewer left)"
  by (auto simp: fewer_def reflp_def transp_def)

lemma moves_verb: "(\<And>w r w1. f w = (r, w1) \<Longrightarrow> left w1 \<le> left w) \<Longrightarrow> moves (fewer left) (verb f)"
  by (auto simp: moves_def fewer_def verb_def split: prod.splits)

lemma step_moves:
  assumes "inputs_left left P"
  shows "moves (fewer left) (router_call P z st text)" and "moves (fewer left) (work_step P z history g p)"
    and "moves (fewer left) (verb (vb_speak P c q))"
proof -
  have v: "moves (fewer left) (verb (vb_prompt P q))" "moves (fewer left) (verb (vb_wait P i))"
    "moves (fewer left) (verb (vb_speak P c u))" for q i c u
    using assms unfolding inputs_left_def by (auto intro!: moves_verb)
  have w: "moves (fewer left) (wait_step P i)" for i
    unfolding wait_step_def Let_def by (intro moves_seqE v) (simp_all add: moves_simple)
  show "moves (fewer left) (router_call P z st text)"
    unfolding router_call_def start_step_def by (intro moves_seqE v w) simp
  have "moves (fewer left) (execute_batch P z query history r tasks)" for query r tasks
    unfolding execute_batch_def start_step_def
    by (intro moves_seqE moves_eachE w) (auto simp: v split: prod.split)
  then show "moves (fewer left) (work_step P z history g p)"
    unfolding work_step_def by (auto intro!: moves_seqE simp: moves_simple)
  show "moves (fewer left) (verb (vb_speak P c q))" by (rule v)
qed

lemma plan_step_moves: "inputs_left left P \<Longrightarrow> moves (fewer left) (plan_step parse P z history g)"
  unfolding plan_step_def by (intro moves_seqE step_moves) (simp_all add: moves_simple)

lemma ends_verb [simp]: "ends (verb f)"
  by (simp add: ends_def verb_def split: prod.splits)

lemma step_ends: "ends (router_call P z st text)" "ends (work_step P z history g p)" "ends (answer_step P z history g)"
proof -
  have w: "ends (wait_step P i)" for i
    by (auto simp: wait_step_def Let_def intro!: ends_seqE)
  have c: "ends (router_call P z st body)" for st body
    by (auto simp: router_call_def start_step_def intro!: ends_seqE w)
  then show "ends (router_call P z st text)" .
  show "ends (work_step P z history g p)"
    by (auto simp: work_step_def execute_batch_def start_step_def intro!: ends_seqE ends_eachE w split: prod.split)
  have "ends (\<lambda>x. verb (vb_speak P conv (answer_speech i (ex_position x) a)) x)" for conv i a
    by (simp add: ends_def verb_def split: prod.splits)
  then show "ends (answer_step P z history g)"
    unfolding answer_step_def by (intro ends_seqE c)
qed

lemma plan_step_ends: "ends (plan_step parse P z history g)"
  unfolding plan_step_def by (intro ends_seqE step_ends) simp_all

lemma seqE_not_None:
  assumes "ends m" and "\<And>v t. m x = Some (Inr v, t) \<Longrightarrow> f v t \<noteq> None"
  shows "seqE m f x \<noteq> None"
  by (rule seqE_some) (use assms in \<open>auto simp: ends_def\<close>)

lemma addition_texts_Nil: "addition_texts ms = Inr ts \<Longrightarrow> ts \<noteq> [] \<Longrightarrow> ms \<noteq> []"
  by auto

text \<open>One poll of a boundary: what it used up, and how the boundary goes on.\<close>

lemma poll_additions_step:
  assumes "inputs_left left P"
  shows "\<exists>(r :: poll_result result) (y1 :: 'w exec). (\<forall>res. r = Inr res \<longrightarrow> left (ex_world y1) + (if po_messages res = [] then 0 else 1) \<le> left (ex_world x))
    \<and> (\<forall>er. r = Inl er \<longrightarrow> poll_additions (Suc n) P conv texts x = Some (Inl er, y1))
    \<and> (\<forall>res. r = Inr res \<longrightarrow> poll_additions (Suc n) P conv texts x =
        (case addition_texts (po_messages res) of
             Inl er \<Rightarrow> Some (Inl er, y1)
           | Inr ts \<Rightarrow> if length (po_messages res) < poll_limit then Some (Inr (texts @ ts), y1)
                      else poll_additions n P conv (texts @ ts) y1))"
proof -
  obtain r w where poll: "vb_poll P conv \<lparr>pr_actor = router_actor, pr_limit = int poll_limit, pr_after = ex_position x\<rparr> (ex_world x) = (r, w)"
    by (rule prod.exhaust)
  have used: "left w + (case r of Inr res \<Rightarrow> if po_messages res = [] then 0 else 1 | Inl _ \<Rightarrow> 0) \<le> left (ex_world x)"
    using assms poll unfolding inputs_left_def by blast
  let ?q = "\<lambda>res. if ex_position x < po_position res then po_position res else ex_position x"
  let ?y = "x\<lparr>ex_world := w, ex_position := (case r of Inl _ \<Rightarrow> ex_position x | Inr res \<Rightarrow> ?q res)\<rparr>"
  show ?thesis
    by (rule exI [of _ r], rule exI [of _ ?y])
      (use poll used in \<open>auto simp: seqE_def poll_next_def verb_def advance_position_def liftE_def retE_def split: sum.splits\<close>)
qed

lemma poll_additions_end:
  assumes "inputs_left left P"
  shows "left (ex_world x) < n \<Longrightarrow> poll_additions n P conv texts x \<noteq> None"
proof (induction n arbitrary: texts x)
  case (Suc n)
  obtain r :: "poll_result result" and y1 :: "'a exec" where y1: "\<forall>res. r = Inr res \<longrightarrow> left (ex_world y1) + (if po_messages res = [] then 0 else 1) \<le> left (ex_world x)"
    "\<forall>er. r = Inl er \<longrightarrow> poll_additions (Suc n) P conv texts x = Some (Inl er, y1)"
    "\<forall>res. r = Inr res \<longrightarrow> poll_additions (Suc n) P conv texts x =
        (case addition_texts (po_messages res) of Inl er \<Rightarrow> Some (Inl er, y1)
           | Inr ts \<Rightarrow> if length (po_messages res) < poll_limit then Some (Inr (texts @ ts), y1)
                      else poll_additions n P conv (texts @ ts) y1)"
    using poll_additions_step [OF assms, of x n conv texts] by blast
  show ?case
  proof (cases r)
    case (Inr res)
    show ?thesis
    proof (cases "length (po_messages res) < poll_limit")
      case False
      then have "po_messages res \<noteq> []" by (auto simp: poll_limit_def)
      then have "left (ex_world y1) < n" using y1(1) Inr Suc.prems by auto
      then show ?thesis using y1(3) Inr False Suc.IH by (simp split: sum.splits)
    qed (use y1(3) Inr in \<open>simp split: sum.splits\<close>)
  qed (use y1(2) in simp)
qed simp

lemma poll_additions_used:
  assumes "inputs_left left P"
  shows "poll_additions n P conv texts x = Some (Inr ts, y) \<Longrightarrow>
           left (ex_world y) + (if ts = texts then 0 else 1) \<le> left (ex_world x)"
proof (induction n arbitrary: texts x)
  case (Suc n)
  obtain r :: "poll_result result" and y1 :: "'a exec" where y1: "\<forall>res. r = Inr res \<longrightarrow> left (ex_world y1) + (if po_messages res = [] then 0 else 1) \<le> left (ex_world x)"
    "\<forall>er. r = Inl er \<longrightarrow> poll_additions (Suc n) P conv texts x = Some (Inl er, y1)"
    "\<forall>res. r = Inr res \<longrightarrow> poll_additions (Suc n) P conv texts x =
        (case addition_texts (po_messages res) of Inl er \<Rightarrow> Some (Inl er, y1)
           | Inr ts \<Rightarrow> if length (po_messages res) < poll_limit then Some (Inr (texts @ ts), y1)
                      else poll_additions n P conv (texts @ ts) y1)"
    using poll_additions_step [OF assms, of x n conv texts] by blast
  obtain res where res: "r = Inr res" using y1(2) Suc.prems by (cases r) auto
  then obtain t where t: "addition_texts (po_messages res) = Inr t" using y1(3) Suc.prems by (auto split: sum.splits)
  show ?case
  proof (cases "length (po_messages res) < poll_limit")
    case True
    then have "ts = texts @ t" "y = y1" using y1(3) res t Suc.prems by auto
    then show ?thesis using y1(1) res t by (auto split: if_splits)
  next
    case False
    then have ne: "po_messages res \<noteq> []" by (auto simp: poll_limit_def)
    have "poll_additions n P conv (texts @ t) y1 = Some (Inr ts, y)" using y1(3) res t False Suc.prems by simp
    from Suc.IH [OF this] show ?thesis using y1(1) res ne by (auto split: if_splits)
  qed
qed simp

lemma router_rounds_end:
  assumes "inputs_left left P"
  shows "left (ex_world x) + 1 < n \<Longrightarrow> router_rounds n parse P z history g x \<noteq> None"
proof (induction n arbitrary: g x)
  case (Suc n)
  show ?case unfolding router_rounds.simps
  proof (intro seqE_not_None plan_step_ends step_ends)
    fix p x1 g1 x2
    assume s: "plan_step parse P z history g x = Some (Inr p, x1)" "work_step P z history g p x1 = Some (Inr g1, x2)"
    have le: "left (ex_world x2) \<le> left (ex_world x)"
      using plan_step_moves [OF assms] step_moves(2) [OF assms] s unfolding moves_def fewer_def by (meson order_trans)
    then have lt: "left (ex_world x2) < n" using Suc.prems by simp
    let ?again = "\<lambda>h. router_rounds n parse P z history h"
    show "boundary n P z history ?again g1 x2 \<noteq> None"
      unfolding boundary_def
    proof (rule seqE_some [of _ x2 "after_batch P z history ?again g1 (ex_position x2)"])
      show "poll_additions n P (cm_conv (eo_input z)) [] x2 \<noteq> None" by (rule poll_additions_end [OF assms lt])
      fix additions x3 assume a: "poll_additions n P (cm_conv (eo_input z)) [] x2 = Some (Inr additions, x3)"
      show "after_batch P z history ?again g1 (ex_position x2) additions x3 \<noteq> None"
      proof (cases "additions = []")
        case True
        then show ?thesis using step_ends(3) [of P z history g1] by (simp add: after_batch_def ends_def)
      next
        case False
        have less: "left (ex_world x3) + 1 < n" using poll_additions_used [OF assms a] False le Suc.prems by simp
        show ?thesis unfolding after_batch_def if_not_P [OF False]
        proof (intro seqE_not_None ends_verb)
          fix u x4
          assume "verb (vb_speak P (cm_conv (eo_input z)) (progress_speech (eo_input z) (pg_round g1) (ex_position x2) (pg_results g1))) x3
                    = Some (Inr u, x4)"
          then have "left (ex_world x4) \<le> left (ex_world x3)"
            using step_moves(3) [OF assms] unfolding moves_def fewer_def by blast
          then show "router_rounds n parse P z history (next_round g1 additions) x4 \<noteq> None"
            by (intro Suc.IH) (use less in simp)
        qed
      qed
    qed
  qed
qed simp

lemma router_run_ends:
  assumes "inputs_left left P" and "left w + 1 < n"
  shows "router_run n parse P z messages w \<noteq> None"
proof -
  have "router_body n parse P z messages \<lparr>ex_position = cm_id (eo_input z), ex_world = w\<rparr> \<noteq> None"
    unfolding router_body_def by (intro seqE_not_None router_rounds_end [OF assms(1)]) (use assms(2) in \<open>auto simp: eff_simps\<close>)
  then show ?thesis by (auto simp: router_run_def split: option.splits sum.splits prod.splits)
qed

section \<open>More fuel changes nothing\<close>

lemma poll_additions_fuel: "n \<le> m \<Longrightarrow> less_fuel (poll_additions n P conv texts) (poll_additions m P conv texts)"
proof (induction n arbitrary: m texts)
  case (Suc n)
  then obtain k where k: "m = Suc k" "n \<le> k" by (cases m) auto
  show ?case unfolding k poll_additions.simps by (intro less_fuel_seqE less_fuel_refl) (simp add: Suc.IH [OF k(2)])
qed (simp add: less_fuel_def)

lemma boundary_fuel:
  assumes "n \<le> m" and "\<And>h. less_fuel (f h) (f' h)"
  shows "less_fuel (boundary n P z history f g) (boundary m P z history f' g)"
proof -
  have "less_fuel (after_batch P z history f g through additions) (after_batch P z history f' g through additions)" for through additions
    unfolding after_batch_def using assms(2) by (auto intro: less_fuel_seqE)
  then have "less_fuel (seqE (poll_additions n P conv []) (after_batch P z history f g through))
      (seqE (poll_additions m P conv []) (after_batch P z history f' g through))" for conv through
    by (intro less_fuel_seqE poll_additions_fuel assms(1))
  then show ?thesis by (simp add: less_fuel_def boundary_def)
qed

lemma router_rounds_fuel: "n \<le> m \<Longrightarrow> less_fuel (router_rounds n parse P z history g) (router_rounds m parse P z history g)"
proof (induction n arbitrary: m g)
  case (Suc n)
  then obtain k where k: "m = Suc k" "n \<le> k" by (cases m) auto
  show ?case unfolding k router_rounds.simps
    by (intro less_fuel_seqE less_fuel_refl boundary_fuel k(2)) (simp add: Suc.IH [OF k(2)])
qed (simp add: less_fuel_def)

lemma router_run_fuel:
  assumes "n \<le> m" and "router_run n parse P z messages w \<noteq> None"
  shows "router_run m parse P z messages w = router_run n parse P z messages w"
proof -
  have "less_fuel (router_body n parse P z messages) (router_body m parse P z messages)"
    unfolding router_body_def by (intro less_fuel_seqE less_fuel_refl router_rounds_fuel assms(1))
  then show ?thesis using assms(2) unfolding router_run_def less_fuel_def by (auto split: option.splits)
qed

text \<open>
  A Router run ends when its inputs do. With fuel for the inputs that are still to come and two
  rounds more it returns, and more fuel does not change what it returns; the verbs may fail at
  any point.
\<close>
theorem router_run_terminates:
  assumes "inputs_left left P" and "left w + 1 < n" and "n \<le> m"
  shows "\<exists>r w'. router_run n parse P z messages w = Some (r, w') \<and> router_run m parse P z messages w = Some (r, w')"
  using router_run_ends [OF assms(1,2)] router_run_fuel [OF assms(3)] by fastforce

section \<open>A run\<close>

text \<open>
  A world of pending inputs, all delivered by the next poll, whose Harness always plans one simple task.
\<close>

definition demo_verbs :: "cmessage list ports" where
  "demo_verbs =
     \<lparr>vb_poll = (\<lambda>c q w. (Inr \<lparr>po_end_offset = [], po_committed = [], po_messages = w,
                     po_position = (if w = [] then pr_after q else cm_id (last w))\<rparr>, [])),
      vb_list = (\<lambda>c q w. (Inr \<lparr>mp_data = [], mp_next = []\<rparr>, w)),
      vb_snapshot = (\<lambda>c i w. (Inl ErrNotFound, w)),
      vb_prompt = (\<lambda>q w. (Inr (rr_effect q), w)),
      vb_wait = (\<lambda>i w. (Inr \<lparr>hc_conv = ''c2'', hc_id = i, hc_effect = i, hc_target = ''h'', hc_phase = CallSucceeded,
                     hc_result = Some \<lparr>hr_format = ''text'', hr_content = Content (Some (JStr ''p'')) ''p''\<rparr>,
                     hc_message = [], hc_deadline = 0, hc_error = [], hc_created = 0, hc_updated = 0\<rparr>, w)),
      vb_speak = (\<lambda>c q w. (Inr (), w)),
      vb_commit = (\<lambda>c q w. (Inr (), w))\<rparr>"

definition demo_plan :: "string \<Rightarrow> json option" where
  "demo_plan t = (if t = ''p'' then Some (JObj [(''kind'', JStr ''simple'')]) else None)"

definition demo_request :: "string \<Rightarrow> cmessage" where
  "demo_request i = \<lparr>cm_id = i, cm_conv = ''c1'', cm_task = [], cm_source = \<lparr>ar_kind = ''user'', ar_key = ''u''\<rparr>,
     cm_target = router_actor, cm_reply_to = [], cm_status = ''completed'', cm_revision = 1,
     cm_content = Content (Some (JObj [(''blocks'', JArr [JObj [(''type'', JStr ''text''), (''content'', JStr ''q'')]])])) [],
     cm_created = 0, cm_updated = 0\<rparr>"

definition demo_execution :: execution_of where
  "demo_execution = \<lparr>eo_input = demo_request ''m1'', eo_workspace = ''c2'', eo_config = \<lparr>rc_target = ''h'', rc_max = 4\<rparr>\<rparr>"

lemma demo_inputs_left: "inputs_left length demo_verbs"
  by (auto simp: inputs_left_def demo_verbs_def Suc_le_eq)

lemma demo_texts: "trim_space ''p'' = ''p''" "unfenced ''p'' = ''p''" "(''m1'' :: string) < ''m2''"
  "model_text (cm_content (demo_request i)) = Inr ''q''" "result_text (Some \<lparr>hr_format = ''text'', hr_content = Content (Some (JStr ''p'')) ''p''\<rparr>) = ''p''"
  by (code_simp, code_simp, code_simp, simp add: demo_request_def, code_simp, code_simp)

lemma demo_decode: "decode_plan demo_plan ''p'' query 4 = Inr \<lparr>pl_kind = ''simple'', pl_tasks = [query]\<rparr>"
  by (simp add: decode_plan_def plan_struct_def demo_texts demo_plan_def option_or_def need_struct_def only_fields_def
      jfield_str_def jfield_list_def plan_shape_def)

lemmas demo_run_simps = router_run_def router_body_def router_call_def start_step_def wait_step_def plan_step_def work_step_def
  execute_batch_def boundary_def after_batch_def answer_step_def next_round_def poll_next_def advance_position_def poll_limit_def
  seqE_def retE_def failE_def liftE_def verb_def recorded_def traced_def demo_verbs_def demo_texts demo_decode router_commit_def

lemma demo_run:
  "\<exists>tr. router_run (Suc (Suc (Suc 0))) demo_plan (traced demo_verbs) demo_execution [] ([demo_request ''m2''], []) = Some (Inr (), [], tr)
     \<and> length (prompts tr) = 5"
  by (simp add: demo_run_simps demo_execution_def) (simp add: demo_request_def)

theorem router_answers_then_commits_witness:
  "\<exists>tr cs through a. router_run (Suc (Suc (Suc 0))) demo_plan (traced demo_verbs) demo_execution [] ([demo_request ''m2''], [])
       = Some (Inr (), [], tr)
     \<and> list_all (quiet_call demo_execution) cs
     \<and> tr = cs @ [Spoke (answer_speech (eo_input demo_execution) through a) True,
                    Committed \<lparr>cr_actor = router_actor, cr_through = through\<rparr> True]"
proof -
  obtain tr where tr: "router_run (Suc (Suc (Suc 0))) demo_plan (traced demo_verbs) demo_execution [] ([demo_request ''m2''], [])
      = Some (Inr (), [], tr)"
    using demo_run by blast
  have "succeeded (Inr ())" by (simp add: succeeded_def)
  with router_answers_then_commits [OF tr] tr show ?thesis by blast
qed

theorem router_calls_are_distinct_witness:
  "\<exists>tr. router_run (Suc (Suc (Suc 0))) demo_plan (traced demo_verbs) demo_execution [] ([demo_request ''m2''], [])
       = Some (Inr (), [], tr)
     \<and> length (prompts tr) = 5 \<and> distinct (map rr_idempotency (prompts tr))"
proof -
  obtain tr where tr: "router_run (Suc (Suc (Suc 0))) demo_plan (traced demo_verbs) demo_execution [] ([demo_request ''m2''], [])
      = Some (Inr (), [], tr)" and n: "length (prompts tr) = 5"
    using demo_run by blast
  show ?thesis using router_calls_are_distinct [OF tr] tr n by blast
qed

theorem router_run_terminates_witness:
  "\<exists>r w'. router_run 3 demo_plan demo_verbs demo_execution [] [demo_request ''m2''] = Some (r, w')
     \<and> router_run 9 demo_plan demo_verbs demo_execution [] [demo_request ''m2''] = Some (r, w')"
  by (rule router_run_terminates [OF demo_inputs_left]) simp_all

end
