(* ===== verification/ManagedAgent.thy ===== *)
theory ManagedAgent
  imports Runner
begin

text \<open>
  The adapter for Claude Managed Agents (\<^verbatim>\<open>pkg/harness/managedagent\<close>): a call is a remote Session
  whose events are read twice, from the live stream that is opened first and from the history that
  fills the gap, and projected to AgentUE events. The remote Sessions and the SDK's accumulator of
  previews are parameters. Timeouts, the HTTP client and logging are left out; the events a call
  delivers and the result of its \<^verbatim>\<open>Wait\<close> are one value, as in \<open>native_call\<close>.
\<close>

section \<open>Session events\<close>

text \<open>
  The SDK's union of session events: its type, and the members the projection reads. The
  accumulator of previews and the encoding of an AgentUE event as raw JSON are parameters.
\<close>

record session_event =
  se_type :: string
  se_id :: string
  se_start :: string
  se_delta :: string
  se_name :: string
  se_input :: json
  se_use :: string
  se_failed :: bool
  se_retry :: string
  se_error :: string
  se_stop :: string
  se_body :: json

record 'a previews =
  pv_empty :: 'a
  pv_add :: "session_event \<Rightarrow> 'a \<Rightarrow> 'a"
  pv_has :: "string \<Rightarrow> 'a \<Rightarrow> bool"
  pv_text :: "string \<Rightarrow> 'a \<Rightarrow> string"
  pv_drop :: "string \<Rightarrow> 'a \<Rightarrow> 'a"
  pv_encode :: "event \<Rightarrow> content result"

record 'a session_projection =
  sp_session :: string
  sp_started :: bool
  sp_seen :: "string list"
  sp_previews :: 'a
  sp_text :: string

definition new_projection :: "'a previews \<Rightarrow> string \<Rightarrow> 'a session_projection" where
  "new_projection V i = \<lparr>sp_session = i, sp_started = False, sp_seen = [], sp_previews = pv_empty V, sp_text = []\<rparr>"

section \<open>The projection\<close>

definition stop_error :: "string \<Rightarrow> string \<Rightarrow> err" where
  "stop_error i reason = ErrText (''managed Session '' @ i @ '' stopped: '' @ reason)"

definition session_block :: "'a session_projection \<Rightarrow> string \<Rightarrow> string" where
  "session_block p i = ''managed/'' @ sp_session p @ ''/'' @ i"

definition text_event :: "'a session_projection \<Rightarrow> string \<Rightarrow> string \<Rightarrow> event" where
  "text_event p i text = no_event\<lparr>ev_op := OpSet,
     ev_block := Some (JObj [(''id'', JStr (session_block p i)), (''type'', JStr ''text''), (''content'', JStr text)])\<rparr>"

definition tool_event :: "'a session_projection \<Rightarrow> session_event \<Rightarrow> event" where
  "tool_event p ev = no_event\<lparr>ev_op := OpSet,
     ev_block := Some (JObj [(''id'', JStr (session_block p (se_id ev))), (''type'', JStr ''tool''),
       (''name'', JStr (se_name ev)), (''input'', se_input ev), (''status'', JStr ''running'')])\<rparr>"

definition tool_result_event :: "'a session_projection \<Rightarrow> session_event \<Rightarrow> event" where
  "tool_result_event p ev = no_event\<lparr>ev_op := OpSet, ev_mask := ''block.status'',
     ev_block := Some (JObj [(''id'', JStr (session_block p (se_use ev))),
       (''status'', JStr (if se_failed ev then ''failed'' else ''completed''))])\<rparr>"

text \<open>What an event does: the updates it makes, and whether it ends the call and how.\<close>

type_synonym 'a projected = "event list \<times> unit result option \<times> 'a session_projection"

definition project_started :: "'a previews \<Rightarrow> session_event \<Rightarrow> 'a session_projection \<Rightarrow> 'a projected" where
  "project_started V ev p =
     (let t = se_type ev; added = p\<lparr>sp_previews := pv_add V ev (sp_previews p)\<rparr>
      in if t = ''user.message'' then
           ([], Some (Inl (stop_error (sp_session p) ''another input arrived in an exclusively bound Session'')), p)
         else if t = ''event_start'' then
           ([], None, if se_start ev \<in> set (sp_seen p) then p else added)
         else if t = ''event_delta'' then
           (if se_delta ev \<in> set (sp_seen p) then ([], None, p)
            else if pv_has V (se_delta ev) (sp_previews added)
            then ([text_event p (se_delta ev) (pv_text V (se_delta ev) (sp_previews added))], None, added)
            else ([], None, added))
         else if t = ''agent.message'' then
           (let text = pv_text V (se_id ev) (sp_previews added)
            in ([text_event p (se_id ev) text], None,
                added\<lparr>sp_text := text, sp_previews := pv_drop V (se_id ev) (sp_previews added)\<rparr>))
         else if t = ''span.model_request_end'' then ([], None, added)
         else if t = ''agent.tool_use'' \<or> t = ''agent.custom_tool_use'' \<or> t = ''agent.mcp_tool_use'' then
           ([tool_event p ev], None, p)
         else if t = ''agent.tool_result'' \<or> t = ''agent.mcp_tool_result'' then ([tool_result_event p ev], None, p)
         else if t = ''session.error'' then
           (if se_retry ev \<noteq> ''retrying''
            then ([], Some (Inl (stop_error (sp_session p) (''execution error: '' @ se_error ev))), p)
            else ([], None, p))
         else if t = ''session.status_idle'' then
           (if se_stop ev = ''end_turn'' then ([], Some (Inr ()), p)
            else ([], Some (Inl (stop_error (sp_session p) (se_stop ev))), p))
         else if t = ''session.status_terminated'' \<or> t = ''session.deleted'' then
           ([], Some (Inl (stop_error (sp_session p) t)), p)
         else ([], None, p))"

definition project_session :: "'a previews \<Rightarrow> session_event \<Rightarrow> 'a session_projection \<Rightarrow> 'a projected" where
  "project_session V ev p =
     (if \<not> sp_started p then
        ([], None, if se_type ev = ''user.message''
                   then p\<lparr>sp_started := True, sp_seen := se_id ev # sp_seen p\<rparr> else p)
      else if se_id ev \<noteq> [] \<and> se_id ev \<in> set (sp_seen p) then ([], None, p)
      else project_started V ev (if se_id ev \<noteq> [] then p\<lparr>sp_seen := se_id ev # sp_seen p\<rparr> else p))"

section \<open>Observing a Session\<close>

text \<open>
  \<^verbatim>\<open>consume\<close> delivers the updates one by one; an update that cannot be encoded ends the call.
\<close>

fun deliver :: "'a previews \<Rightarrow> event list \<Rightarrow> content list \<times> unit result option" where
  "deliver V [] = ([], None)"
| "deliver V (ev # evs) =
     (case pv_encode V ev of
        Inl er \<Rightarrow> ([], Some (Inl (ErrObservation ''encode managedagent projection'')))
      | Inr data \<Rightarrow> (let (ds, r) = deliver V evs in (data # ds, r)))"

definition consume ::
    "'a previews \<Rightarrow> session_event \<Rightarrow> 'a session_projection
     \<Rightarrow> content list \<times> unit result option \<times> 'a session_projection" where
  "consume V ev p =
     (let (evs, ended, p1) = project_session V ev p; (ds, failed) = deliver V evs
      in (ds, (case failed of Some r \<Rightarrow> Some r | None \<Rightarrow> ended), p1))"

fun consume_all ::
    "'a previews \<Rightarrow> session_event list \<Rightarrow> 'a session_projection
     \<Rightarrow> content list \<times> unit result option \<times> 'a session_projection" where
  "consume_all V [] p = ([], None, p)"
| "consume_all V (ev # evs) p =
     (case consume V ev p of
        (ds, Some r, p1) \<Rightarrow> (ds, Some r, p1)
      | (ds, None, p1) \<Rightarrow> (let (ds2, r, p2) = consume_all V evs p1 in (ds @ ds2, r, p2)))"

text \<open>
  What the backend shows one observer of a Session: whether the stream opens, the history with the
  error that cut it short, and the events of the stream with the error that ended it.
\<close>

record session_view =
  sv_open :: "err option"
  sv_history :: "session_event list"
  sv_history_error :: "err option"
  sv_stream :: "session_event list"
  sv_stream_error :: "err option"

definition observation :: "string \<Rightarrow> err" where
  "observation what = ErrObservation what"

definition observe_session ::
    "'a previews \<Rightarrow> string \<Rightarrow> session_view \<Rightarrow> content list \<times> native_result result" where
  "observe_session V i v =
     (let wait = (\<lambda>r p. case r of Inl er \<Rightarrow> Inl er | Inr _ \<Rightarrow> Inr \<lparr>nr_text = sp_text p, nr_json = None\<rparr>)
      in if sv_open v \<noteq> None then ([], Inl (observation ''open managedagent stream''))
         else case consume_all V (sv_history v) (new_projection V i) of
           (ds, Some r, p) \<Rightarrow> (ds, wait r p)
         | (ds, None, p) \<Rightarrow>
             if sv_history_error v \<noteq> None then (ds, Inl (observation ''read managedagent history''))
             else case consume_all V (sv_stream v) p of
               (ds2, Some r, p2) \<Rightarrow> (ds @ ds2, wait r p2)
             | (ds2, None, _) \<Rightarrow> (ds @ ds2, Inl (observation ''read managedagent stream'')))"

section \<open>The adapter\<close>

record managed_config =
  mc_idempotent :: bool
  mc_api_key :: string
  mc_agent :: string
  mc_environment :: string
  mc_configure :: "(native_request \<Rightarrow> unit result) option"
  mc_http_timeout :: int
  mc_stream_timeout :: int
  mc_connections :: int
  mc_previews :: bool

definition managed_new :: "managed_config \<Rightarrow> managed_config result" where
  "managed_new c =
     (if mc_api_key c = [] \<or> mc_agent c = [] \<or> mc_environment c = []
      then Inl (ErrText ''managedagent API key, agent ID and environment ID are required'')
      else if mc_http_timeout c < 0 \<or> mc_stream_timeout c < 0 \<or> mc_connections c < 0
      then Inl (ErrText ''managedagent timeouts and connection limit must not be negative'')
      else Inr (c\<lparr>mc_http_timeout := (if mc_http_timeout c = 0 then 30000000000 else mc_http_timeout c),
                  mc_stream_timeout := (if mc_stream_timeout c = 0 then 1800000000000 else mc_stream_timeout c),
                  mc_connections := (if mc_connections c = 0 then 32 else mc_connections c)\<rparr>))"

text \<open>
  The backend: \<open>mb_create\<close> answers a submission, with the idempotency key the backend is given,
  and \<open>mb_view\<close> shows a Session.
\<close>

record backend =
  mb_create :: "string option \<Rightarrow> string \<Rightarrow> string result"
  mb_view :: "string \<Rightarrow> session_view"

definition managed_session :: "managed_config \<Rightarrow> backend \<Rightarrow> native_request \<Rightarrow> string result" where
  "managed_session c B q =
     (if nq_ref q \<noteq> [] then Inr (nq_ref q)
      else case mb_create B (if mc_idempotent c then Some (nq_idempotency q) else None) (nq_prompt q) of
        Inl _ \<Rightarrow> Inl (ErrObservation ''create managedagent session'')
      | Inr i \<Rightarrow> Inr i)"

definition managed_prompt ::
    "'a previews \<Rightarrow> managed_config \<Rightarrow> backend \<Rightarrow> native_request \<Rightarrow> native_call option result" where
  "managed_prompt V c B q =
     (if nq_call q = [] \<or> nq_idempotency q = [] \<or> nq_prompt q = []
      then Inl (ErrText ''call ID, idempotency key, and prompt are required'')
      else if nq_timeout q < 0 then Inl (ErrText ''managedagent call timeout must not be negative'')
      else if nq_tools q \<noteq> [] \<and> mc_configure c = None
      then Inl (ErrText ''managedagent request tools require ConfigureSession to resolve remote toolsets'')
      else bindR (case mc_configure c of None \<Rightarrow> Inr () | Some f \<Rightarrow> f q) (\<lambda>_.
           bindR (managed_session c B q) (\<lambda>i.
             let seen = observe_session V i (mb_view B i)
             in Inr (Some \<lparr>nc_id = nq_call q, nc_ref = Some i, nc_events = fst seen, nc_wait = snd seen\<rparr>))))"

definition managed_resume ::
    "'a previews \<Rightarrow> managed_config \<Rightarrow> backend \<Rightarrow> native_request \<Rightarrow> native_call option result" where
  "managed_resume V c B q =
     (if mc_previews c \<or> (nq_ref q = [] \<and> \<not> mc_idempotent c) then Inl ErrRecoveryUnsupported
      else managed_prompt V c B q)"

definition managed_adapter :: "'a previews \<Rightarrow> managed_config \<Rightarrow> backend \<Rightarrow> adapter" where
  "managed_adapter V c B =
     \<lparr>ad_prompt = managed_prompt V c B, ad_resume = Some (managed_resume V c B)\<rparr>"

end
