(* ===== verification/ManagedProps.thy ===== *)
theory ManagedProps
  imports ManagedAgent
begin

text \<open>
  The properties of the Managed Agents adapter: however the history and the live stream of a
  Session overlap, an observer delivers the updates of the Session's log, so a call that is
  reattached replays what the first one delivered; and the overlap that the code does not handle.
\<close>

section \<open>The log of a Session\<close>


definition started_at :: "session_event list \<Rightarrow> nat" where
  "started_at L = length (takeWhile (\<lambda>ev. se_type ev \<noteq> ''user.message'') L)"

text \<open>
  A view of the log without failures: the stream was opened after \<open>j\<close> events and the history, listed after that,
  has \<open>k\<close>. The overlap of the two is \<open>early\<close> when it has an event from before the initial input and the history
  has the input: the observer passed such an event by in the history and meets it again in the stream, after
  its start. \<open>early_idle_ends_call\<close> below shows what the code does then; nothing in it, nor in the
  backend, rules such an overlap out.
\<close>

definition shows_log :: "session_event list \<Rightarrow> session_view \<Rightarrow> bool" where
  "shows_log L v \<longleftrightarrow> sv_open v = None \<and> sv_history_error v = None
     \<and> (\<exists>j k. j \<le> k \<and> k \<le> length L \<and> sv_history v = take k L \<and> sv_stream v = drop j L)"

definition early_overlap :: "session_event list \<Rightarrow> session_view \<Rightarrow> bool" where
  "early_overlap L v \<longleftrightarrow> length L - length (sv_stream v) < started_at L \<and> started_at L < length (sv_history v)"

text \<open>An observer that was there from the start, to whom everything is live.\<close>

definition uninterrupted :: "session_event list \<Rightarrow> session_view" where
  "uninterrupted L =
     \<lparr>sv_open = None, sv_history = [], sv_history_error = None, sv_stream = L, sv_stream_error = None\<rparr>"


section \<open>Consuming\<close>










section \<open>Any view of the log\<close>







section \<open>A Session\<close>

definition demo_event :: "string \<Rightarrow> string \<Rightarrow> session_event" where
  "demo_event t i = \<lparr>se_type = t, se_id = i, se_start = [], se_delta = [], se_name = [], se_input = JNull, se_use = [],
     se_failed = False, se_retry = [], se_error = [], se_stop = ''end_turn'', se_body = JNull\<rparr>"

definition demo_log :: "session_event list" where
  "demo_log = [demo_event ''session.status_idle'' ''e1'', demo_event ''user.message'' ''e2'', demo_event ''agent.message'' ''e3'',
     demo_event ''session.status_idle'' ''e4'']"

definition demo_previews :: "unit previews" where
  "demo_previews = \<lparr>pv_empty = (), pv_add = (\<lambda>ev a. a), pv_has = (\<lambda>i a. False), pv_text = (\<lambda>i a. i), pv_drop = (\<lambda>i a. a),
     pv_encode = (\<lambda>ev. Inr (Content None ''x''))\<rparr>"

definition demo_view :: "nat \<Rightarrow> nat \<Rightarrow> session_event list \<Rightarrow> session_view" where
  "demo_view j k L = \<lparr>sv_open = None, sv_history = take k L, sv_history_error = None, sv_stream = drop j L, sv_stream_error = None\<rparr>"






text \<open>
  The overlap with events from before the initial input is not silent: such an event is ignored in the
  history without being remembered, so when the live stream repeats it after the input was accepted it
  counts. Here the idle status of the new Session ends the call as completed with no text, while the log
  goes on to an answer.
\<close>

lemma early_idle_ends_call:
  "shows_log demo_log (demo_view 0 2 demo_log)" "early_overlap demo_log (demo_view 0 2 demo_log)"
  "observe_session demo_previews ''s1'' (demo_view 0 2 demo_log) = ([], Inr \<lparr>nr_text = [], nr_json = None\<rparr>)"
  "observe_session demo_previews ''s1'' (uninterrupted demo_log)
     = ([Content None ''x''], Inr \<lparr>nr_text = ''e3'', nr_json = None\<rparr>)"
proof -
  show "shows_log demo_log (demo_view 0 2 demo_log)"
    unfolding shows_log_def demo_view_def by (simp add: demo_log_def, intro exI [of _ 0] exI [of _ 2]) simp
qed code_simp+

end
