(* ===== verification/AgentGo.thy ===== *)
theory AgentGo
  imports Runner
begin

text \<open>
  The in-process demo adapter (\<^verbatim>\<open>pkg/harness/agentgo\<close>): it subscribes to the events of an agent,
  projects them to AgentUE events and ends the call with the agent's end. The agent (what the factory
  builds and the events it emits, the last of which is its end) and the encoding of an AgentUE
  event are parameters; cancellation is left out.
\<close>

section \<open>Agent events\<close>

datatype agent_event_type = MessageUpdate | MessageEnd | ToolExecStart | ToolExecEnd | AgentEnd | OtherEvent

record agent_message =
  am_assistant :: bool
  am_text :: string

record agent_event =
  ae_type :: agent_event_type
  ae_delta :: string
  ae_text_delta :: bool
  ae_message :: "agent_message option"
  ae_tool :: string
  ae_tool_id :: string
  ae_error :: bool
  ae_err :: "err option"

definition tool_block_id :: "string \<Rightarrow> string \<Rightarrow> string" where
  "tool_block_id call tool = ''harness/'' @ call @ ''/tool/'' @ (if tool = [] then ''unknown'' else tool)"

definition assistant :: "agent_event \<Rightarrow> agent_message option" where
  "assistant ev = (case ae_message ev of Some m \<Rightarrow> if am_assistant m then Some m else None | None \<Rightarrow> None)"

definition project_agent :: "string \<Rightarrow> agent_event \<Rightarrow> event option" where
  "project_agent call ev =
     (let answer = ''harness/'' @ call @ ''/answer''
      in case ae_type ev of
        MessageUpdate \<Rightarrow>
          if ae_delta ev = [] \<or> \<not> ae_text_delta ev then None
          else Some (no_event\<lparr>ev_op := OpAppend, ev_mask := ''block.content'',
                 ev_block := Some (JObj [(''id'', JStr answer), (''type'', JStr ''text''), (''content'', JStr (ae_delta ev))])\<rparr>)
      | MessageEnd \<Rightarrow>
          (case assistant ev of
             None \<Rightarrow> None
           | Some m \<Rightarrow> Some (no_event\<lparr>ev_op := OpSet,
                 ev_block := Some (JObj [(''id'', JStr answer), (''type'', JStr ''text''), (''content'', JStr (am_text m))])\<rparr>))
      | ToolExecStart \<Rightarrow> Some (no_event\<lparr>ev_op := OpSet,
          ev_block := Some (JObj [(''id'', JStr (tool_block_id call (ae_tool_id ev))), (''type'', JStr ''tool''),
            (''name'', JStr (ae_tool ev)), (''status'', JStr ''running'')])\<rparr>)
      | ToolExecEnd \<Rightarrow> Some (no_event\<lparr>ev_op := OpSet, ev_mask := ''block.status'',
          ev_block := Some (JObj [(''id'', JStr (tool_block_id call (ae_tool_id ev))),
            (''status'', JStr (if ae_error ev then ''failed'' else ''completed''))])\<rparr>)
      | _ \<Rightarrow> None)"

section \<open>A call\<close>

record agent_call =
  ag_text :: string
  ag_projection :: "err option"
  ag_events :: "content list"

text \<open>
  \<^verbatim>\<open>consume\<close>: an event that cannot be encoded is dropped with a note and aborts the agent, which
  then emits its end. The errors joined at the end are represented by the first.
\<close>

definition consume_agent :: "(event \<Rightarrow> content result) \<Rightarrow> string \<Rightarrow> agent_event \<Rightarrow> agent_call \<Rightarrow> agent_call" where
  "consume_agent encode call ev s =
     (let s1 = (if ae_type ev = MessageEnd then (case assistant ev of Some m \<Rightarrow> s\<lparr>ag_text := am_text m\<rparr> | None \<Rightarrow> s) else s)
      in case project_agent call ev of
        None \<Rightarrow> s1
      | Some out \<Rightarrow>
          (case encode out of
             Inl er \<Rightarrow> s1\<lparr>ag_projection := Some (ErrText ''encode AgentGo projection'')\<rparr>
           | Inr data \<Rightarrow> s1\<lparr>ag_events := ag_events s1 @ [data]\<rparr>))"

definition joined :: "err option \<Rightarrow> err option \<Rightarrow> err option" where
  "joined a b = (case a of Some er \<Rightarrow> Some er | None \<Rightarrow> b)"

text \<open>The call of an agent that emits the given events and then its end.\<close>

definition agent_result :: "(event \<Rightarrow> content result) \<Rightarrow> string \<Rightarrow> agent_event list \<Rightarrow> err option \<Rightarrow> native_call" where
  "agent_result encode call evs stopped =
     (let s = fold (consume_agent encode call) evs \<lparr>ag_text = [], ag_projection = None, ag_events = []\<rparr>
      in \<lparr>nc_id = call, nc_ref = None, nc_events = ag_events s,
          nc_wait = (case joined (ag_projection s) stopped of
                       Some er \<Rightarrow> Inl er | None \<Rightarrow> Inr \<lparr>nr_text = ag_text s, nr_json = None\<rparr>)\<rparr>)"

text \<open>
  \<^verbatim>\<open>Prompt\<close>: the factory may fail or build no agent, and the agent may refuse the prompt; otherwise it
  emits events up to its end.
\<close>

type_synonym agent = "string \<Rightarrow> (agent_event list \<times> err option) result"

definition agentgo_prompt ::
    "(event \<Rightarrow> content result) \<Rightarrow> (native_request \<Rightarrow> agent option result) \<Rightarrow> native_request \<Rightarrow> native_call option result" where
  "agentgo_prompt encode factory q =
     (if nq_call q = [] \<or> nq_idempotency q = [] \<or> nq_prompt q = []
      then Inl (ErrText ''call ID, idempotency key, and prompt are required'')
      else bindR (factory q) (\<lambda>built.
        case built of
          None \<Rightarrow> Inl (ErrText ''agentgo harness factory returned nil'')
        | Some agent \<Rightarrow>
            bindR (agent (nq_prompt q)) (\<lambda>(evs, stopped). Inr (Some (agent_result encode (nq_call q) evs stopped)))))"

text \<open>The adapter has no \<^verbatim>\<open>Resume\<close>.\<close>

definition agentgo_adapter ::
    "(event \<Rightarrow> content result) \<Rightarrow> (native_request \<Rightarrow> agent option result) \<Rightarrow> adapter" where
  "agentgo_adapter encode factory = \<lparr>ad_prompt = agentgo_prompt encode factory, ad_resume = None\<rparr>"

section \<open>What a call delivers\<close>

text \<open>The result of a call that ends well is the text of the agent's last message.\<close>

lemma consume_agent_text:
  "ag_text (fold (consume_agent encode call) evs s) =
     (case filter (\<lambda>ev. ae_type ev = MessageEnd \<and> assistant ev \<noteq> None) evs of
        [] \<Rightarrow> ag_text s | xs \<Rightarrow> am_text (the (assistant (last xs))))"
proof (induction evs arbitrary: s)
  case (Cons ev evs)
  have 1: "ag_text (consume_agent encode call ev s) =
      (if ae_type ev = MessageEnd \<and> assistant ev \<noteq> None then am_text (the (assistant ev)) else ag_text s)"
    by (auto simp: consume_agent_def Let_def split: option.splits sum.splits)
  show ?case using Cons 1 by (auto split: list.splits)
qed simp

text \<open>Every event the agent emits becomes at most one update, in order.\<close>

lemma consume_agent_events:
  assumes "\<And>ev. \<exists>data. encode ev = Inr data"
  shows "ag_events (fold (consume_agent encode call) evs s) =
    ag_events s @ map (\<lambda>ev. projr (encode ev)) (List.map_filter (project_agent call) evs)"
    and "ag_projection (fold (consume_agent encode call) evs s) = ag_projection s"
proof (induction evs arbitrary: s)
  case (Cons ev evs)
  have c: "ag_events (consume_agent encode call ev s) =
      ag_events s @ (case project_agent call ev of None \<Rightarrow> [] | Some out \<Rightarrow> [projr (encode out)])"
    "ag_projection (consume_agent encode call ev s) = ag_projection s" for s
    using assms by (auto simp: consume_agent_def Let_def split: option.splits sum.splits) (metis sum.distinct(1))+
  {
    case 1
    show ?case using Cons(1) c by (simp add: map_filter_simps split: option.splits)
  next
    case 2
    show ?case using Cons(2) c by simp
  }
qed (simp_all add: map_filter_simps)

end
