(* ===== verification/RuntimeClient.thy ===== *)
theory RuntimeClient
  imports Services
begin

text \<open>
  The toolkit operators embed (\<^verbatim>\<open>runtime\<close>) and the errors of the HTTP API that it meets
  (\<^verbatim>\<open>server/internal/api\<close>): the classification of failures, bounded retries of publications, the
  writer of a streaming message, handles of Harness calls and questions, and the Speak, Tell, Ask
  and Confirm verbs. The HTTP transport is a parameter: a call over an unknown state with an
  \<open>outcome\<close>. Contexts, timers and logging are left out.
\<close>

section \<open>Errors\<close>

record rt_error =
  re_status :: int
  re_type :: string
  re_message :: string
  re_retryable :: bool

type_synonym 'a rt = "rt_error + 'a"

definition plain_error :: "string \<Rightarrow> rt_error" where
  "plain_error text = \<lparr>re_status = 0, re_type = [], re_message = text, re_retryable = False\<rparr>"

definition ErrCallConflict :: rt_error where
  "ErrCallConflict = (plain_error ''Harness call conflicts with an existing submission'')\<lparr>re_status := 409\<rparr>"

definition ErrRegistrationKeyRequired :: rt_error where
  "ErrRegistrationKeyRequired = plain_error ''registration key is required''"

definition ErrSpeakStatusInvalid :: rt_error where
  "ErrSpeakStatusInvalid = plain_error ''Speak requires a terminal message status; use Tell for streaming''"

definition ErrTellStatusInvalid :: rt_error where
  "ErrTellStatusInvalid = plain_error ''Tell starts a streaming message; pass terminal status to End''"

definition ErrMessageEnded :: rt_error where
  "ErrMessageEnded = plain_error ''message has ended''"

definition ErrInvalidEmit :: rt_error where
  "ErrInvalidEmit = plain_error ''Emit requires set or append; use End to finish sending''"

definition ErrEndStatusCount :: rt_error where
  "ErrEndStatusCount = plain_error ''End accepts at most one status''"

definition ErrEndStatusInvalid :: rt_error where
  "ErrEndStatusInvalid = plain_error ''End requires a terminal message status''"

definition ErrEndStatusConflict :: rt_error where
  "ErrEndStatusConflict = plain_error ''message already ended with a different status''"

definition ErrPendingMessageUpdate :: rt_error where
  "ErrPendingMessageUpdate = plain_error ''previous message update is unresolved; retry it before sending another update''"

definition is_conflict :: "rt_error \<Rightarrow> bool" where
  "is_conflict er \<longleftrightarrow> re_status er = 409"

definition is_capacity_exceeded :: "rt_error \<Rightarrow> bool" where
  "is_capacity_exceeded er \<longleftrightarrow> re_status er = 429 \<and> re_type er = ''harness_capacity_exceeded''"

section \<open>Responses\<close>

datatype failure = Cancelled | Network | Eof | OtherFailure

definition transport_error :: "failure \<Rightarrow> string \<Rightarrow> rt_error" where
  "transport_error k text =
     \<lparr>re_status = 0, re_type = [], re_message = text, re_retryable = (k = Network \<or> k = Eof)\<rparr>"

text \<open>
  A request fails in transport or is answered with a status, its text, the error envelope if there is
  one, and the decoded body or the failure to decode it.
\<close>

datatype 'a outcome =
    TransportFailed failure string
  | Answered int string "(string \<times> string) option" "(failure \<times> string) + 'a"

definition response_error :: "int \<Rightarrow> string \<Rightarrow> (string \<times> string) option \<Rightarrow> rt_error option" where
  "response_error status text envelope =
     (if 200 \<le> status \<and> status < 300 then None
      else
        let base = \<lparr>re_status = status, re_type = [], re_message = text,
                    re_retryable = (status = 429 \<or> 500 \<le> status)\<rparr>
        in case envelope of
             Some (t, m) \<Rightarrow> Some (if m \<noteq> [] then base\<lparr>re_type := t, re_message := m\<rparr> else base)
           | None \<Rightarrow> Some base)"

text \<open>\<open>zero\<close> is the value the caller's output variable keeps for an answer without content.\<close>

definition do_request :: "'a \<Rightarrow> 'a outcome \<Rightarrow> 'a rt" where
  "do_request zero out =
     (case out of
        TransportFailed k text \<Rightarrow> Inl (transport_error k text)
      | Answered status text envelope body \<Rightarrow>
          (case response_error status text envelope of
             Some er \<Rightarrow> Inl er
           | None \<Rightarrow>
               if status = 204 then Inr zero
               else (case body of Inl (k, m) \<Rightarrow> Inl (transport_error k m) | Inr x \<Rightarrow> Inr x)))"

text \<open>The API's answer to an error of a handler.\<close>

definition api_status :: "err \<Rightarrow> int \<times> string" where
  "api_status er =
     (if er = ErrContentTooLarge then (413, ''content_too_large'')
      else if er = ErrForbidden then (403, ''forbidden'')
      else if er = SvcInvalid \<or> er = ErrInvalidContent then (400, ''invalid_request'')
      else if er = SvcConflict \<or> er = ErrConflict then (409, ''conflict'')
      else if er = ErrHarnessCapacity then (429, ''harness_capacity_exceeded'')
      else if er = SvcUnavailable then (503, ''service_unavailable'')
      else if er = ErrNotFound then (404, ''not_found'')
      else (500, ''internal_error''))"

definition api_answer :: "env \<Rightarrow> int \<Rightarrow> 'a result \<Rightarrow> 'a outcome" where
  "api_answer e ok r =
     (case r of
        Inl er \<Rightarrow> (case api_status er of (status, t) \<Rightarrow> Answered status [] (Some (t, e_err_text e er)) (Inl (OtherFailure, [])))
      | Inr x \<Rightarrow> Answered ok [] None (Inr x))"

section \<open>Retries\<close>

text \<open>\<^verbatim>\<open>write\<close>: at most three attempts; \<open>n\<close> counts those that remain after this one.\<close>

fun write_attempts :: "nat \<Rightarrow> ('w \<Rightarrow> 'a rt \<times> 'w) \<Rightarrow> 'w \<Rightarrow> 'a rt \<times> 'w" where
  "write_attempts n f w =
     (case f w of
        (Inr x, w1) \<Rightarrow> (Inr x, w1)
      | (Inl er, w1) \<Rightarrow>
          (case n of
             0 \<Rightarrow> (Inl er, w1)
           | Suc k \<Rightarrow> if re_retryable er \<and> \<not> is_capacity_exceeded er then write_attempts k f w1 else (Inl er, w1)))"

declare write_attempts.simps [simp del]

definition write_request :: "('w \<Rightarrow> 'a rt \<times> 'w) \<Rightarrow> 'w \<Rightarrow> 'a rt \<times> 'w" where
  "write_request f w = write_attempts 2 f w"

section \<open>The writer of a streaming message\<close>

record update =
  up_event :: content
  up_seq :: nat
  up_status :: string

record writer =
  wr_id :: string
  wr_next :: nat
  wr_ended :: bool
  wr_status :: string
  wr_revision :: nat
  wr_pending :: "update option"

definition new_writer :: "message_info \<Rightarrow> writer" where
  "new_writer i =
     \<lparr>wr_id = mi_id i, wr_next = (if mi_revision i + 1 < 2 then 2 else mi_revision i + 1),
      wr_ended = status_terminal (mi_status i), wr_status = mi_status i, wr_revision = mi_revision i, wr_pending = None\<rparr>"

text \<open>
  \<^verbatim>\<open>emit\<close>. \<open>encode\<close> is the marshalled event, \<open>post\<close> the request to the server; the sequence number is
  kept beside the bytes that contain it.
\<close>

definition writer_emit ::
    "(event \<Rightarrow> content rt) \<Rightarrow> (string \<Rightarrow> update \<Rightarrow> 'w \<Rightarrow> unit rt \<times> 'w) \<Rightarrow> event \<Rightarrow> string
     \<Rightarrow> writer \<times> 'w \<Rightarrow> unit rt \<times> writer \<times> 'w" where
  "writer_emit encode post ev status x =
     (case x of (m, w) \<Rightarrow>
      case encode (ev\<lparr>ev_seq := wr_next m\<rparr>) of
        Inl er \<Rightarrow> (Inl er, m, w)
      | Inr data \<Rightarrow>
          (let u = \<lparr>up_event = data, up_seq = wr_next m, up_status = status\<rparr>
           in if wr_pending m \<noteq> None \<and> wr_pending m \<noteq> Some u then (Inl ErrPendingMessageUpdate, m, w)
              else case write_request (post (wr_id m) u) w of
                (Inl er, w1) \<Rightarrow> (Inl er, m\<lparr>wr_pending := Some u\<rparr>, w1)
              | (Inr _, w1) \<Rightarrow>
                  (Inr (), m\<lparr>wr_pending := None, wr_next := wr_next m + 1,
                     wr_status := (if ev_op ev = OpEnd then status else wr_status m), wr_revision := wr_next m\<rparr>, w1)))"

definition emit_update ::
    "(event \<Rightarrow> content rt) \<Rightarrow> (string \<Rightarrow> update \<Rightarrow> 'w \<Rightarrow> unit rt \<times> 'w) \<Rightarrow> event \<Rightarrow> writer \<times> 'w \<Rightarrow> unit rt \<times> writer \<times> 'w" where
  "emit_update encode post ev x =
     (if wr_ended (fst x) then (Inl ErrMessageEnded, x)
      else if ev_op ev \<noteq> OpSet \<and> ev_op ev \<noteq> OpAppend then (Inl ErrInvalidEmit, x)
      else writer_emit encode post ev [] x)"

definition end_update ::
    "(event \<Rightarrow> content rt) \<Rightarrow> (string \<Rightarrow> update \<Rightarrow> 'w \<Rightarrow> unit rt \<times> 'w) \<Rightarrow> string list \<Rightarrow> writer \<times> 'w \<Rightarrow> unit rt \<times> writer \<times> 'w" where
  "end_update encode post statuses x =
     (if 1 < length statuses then (Inl ErrEndStatusCount, x)
      else
        let status = (case statuses of [st] \<Rightarrow> st | _ \<Rightarrow> MessageStatusCompleted)
        in if \<not> status_terminal status then (Inl ErrEndStatusInvalid, x)
           else if wr_ended (fst x) then
             (if wr_status (fst x) \<noteq> status then (Inl ErrEndStatusConflict, x) else (Inr (), x))
           else case writer_emit encode post (no_event\<lparr>ev_op := OpEnd\<rparr>) status x of
             (Inl er, y) \<Rightarrow> (Inl er, y)
           | (Inr _, (m, w)) \<Rightarrow> (Inr (), m\<lparr>wr_ended := True\<rparr>, w))"

section \<open>Harness calls\<close>

text \<open>What the client asks the server for, as calls over an unknown state.\<close>

record 'w rt_client =
  cl_submit :: "harness_run_request \<Rightarrow> 'w \<Rightarrow> harness_call rt \<times> 'w"
  cl_call :: "string \<Rightarrow> 'w \<Rightarrow> harness_call rt \<times> 'w"
  cl_block :: "string \<Rightarrow> string \<Rightarrow> string \<Rightarrow> 'w \<Rightarrow> json rt \<times> 'w"
  cl_cancel :: "string \<Rightarrow> 'w \<Rightarrow> unit rt \<times> 'w"
  cl_publish :: "string \<Rightarrow> speak_request \<Rightarrow> 'w \<Rightarrow> message_info rt \<times> 'w"
  cl_create_human :: "human_request \<Rightarrow> 'w \<Rightarrow> human_result rt \<times> 'w"
  cl_human :: "string \<Rightarrow> 'w \<Rightarrow> human_result rt \<times> 'w"
  cl_blocks :: "string \<Rightarrow> string \<Rightarrow> string \<Rightarrow> 'w \<Rightarrow> block_page rt \<times> 'w"
  cl_register :: "string \<Rightarrow> string \<Rightarrow> string \<Rightarrow> string \<Rightarrow> int \<Rightarrow> 'w \<Rightarrow> unit rt \<times> 'w"

definition submit_prompt :: "'w rt_client \<Rightarrow> harness_run_request \<Rightarrow> 'w \<Rightarrow> string rt \<times> 'w" where
  "submit_prompt C p w =
     (case write_request (cl_submit C p) w of
        (Inl er, w1) \<Rightarrow> (Inl (if is_conflict er then ErrCallConflict else er), w1)
      | (Inr call, w1) \<Rightarrow> (Inr (hc_id call), w1))"

text \<open>A finished call keeps its result in the \<^verbatim>\<open>result\<close> block of its message.\<close>

definition block_answer :: "env \<Rightarrow> harness_call \<Rightarrow> json \<Rightarrow> harness_call rt" where
  "block_answer e call b =
     (case extract_result (marshal (JObj [(''blocks'', JArr [b])])) of
        Inl er \<Rightarrow> Inl (plain_error (e_err_text e er))
      | Inr None \<Rightarrow> Inl (plain_error ''completed Harness call has no result block'')
      | Inr (Some r) \<Rightarrow> Inr (call\<lparr>hc_result := Some r\<rparr>))"

definition call_get :: "env \<Rightarrow> 'w rt_client \<Rightarrow> string \<Rightarrow> 'w \<Rightarrow> harness_call rt \<times> 'w" where
  "call_get e C i w =
     (case cl_call C i w of
        (Inl er, w1) \<Rightarrow> (Inl er, w1)
      | (Inr call, w1) \<Rightarrow>
          if hc_phase call \<noteq> CallSucceeded \<or> hc_result call \<noteq> None then (Inr call, w1)
          else (case cl_block C (hc_conv call) (hc_message call) ''result'' w1 of
                  (Inl er, w2) \<Rightarrow> (Inl er, w2)
                | (Inr b, w2) \<Rightarrow> (block_answer e call b, w2)))"

text \<open>\<^verbatim>\<open>Wait\<close> observes until the call is terminal; three failures in a row end it.\<close>

fun call_wait :: "nat \<Rightarrow> env \<Rightarrow> 'w rt_client \<Rightarrow> string \<Rightarrow> nat \<Rightarrow> 'w \<Rightarrow> (harness_call rt \<times> 'w) option" where
  "call_wait 0 e C i failures w = None"
| "call_wait (Suc n) e C i failures w =
     (case call_get e C i w of
        (Inr call, w1) \<Rightarrow>
          if phase_terminal (hc_phase call)
          then Some (if hc_phase call \<noteq> CallSucceeded then Inl (plain_error (hc_error call)) else Inr call, w1)
          else call_wait n e C i 0 w1
      | (Inl er, w1) \<Rightarrow>
          if \<not> re_retryable er \<or> 3 \<le> failures + 1 then Some (Inl er, w1)
          else call_wait n e C i (failures + 1) w1)"

section \<open>Questions\<close>

definition ask_human :: "env \<Rightarrow> 'w rt_client \<Rightarrow> human_request \<Rightarrow> 'w \<Rightarrow> string rt \<times> 'w" where
  "ask_human e C r w =
     (case human_validate r of
        Inl er \<Rightarrow> (Inl (plain_error (e_err_text e er)), w)
      | Inr _ \<Rightarrow>
          (case cl_create_human C r w of
             (Inl er, w1) \<Rightarrow> (Inl er, w1)
           | (Inr res, w1) \<Rightarrow> (Inr (cm_id (hs_message res)), w1)))"

fun human_wait :: "nat \<Rightarrow> 'w rt_client \<Rightarrow> string \<Rightarrow> 'w \<Rightarrow> (human_result rt \<times> 'w) option" where
  "human_wait 0 C i w = None"
| "human_wait (Suc n) C i w =
     (case cl_human C i w of
        (Inl er, w1) \<Rightarrow> Some (Inl er, w1)
      | (Inr res, w1) \<Rightarrow> if human_terminal (hs_status res) then Some (Inr res, w1) else human_wait n C i w1)"

section \<open>Publishing\<close>

definition verb_speak :: "'w rt_client \<Rightarrow> string \<Rightarrow> speak_request \<Rightarrow> 'w \<Rightarrow> string rt \<times> 'w" where
  "verb_speak C conv r w =
     (let r1 = (if sr_status r = [] then r\<lparr>sr_status := MessageStatusCompleted\<rparr> else r)
      in if \<not> status_terminal (sr_status r1) then (Inl ErrSpeakStatusInvalid, w)
         else case write_request (cl_publish C conv r1) w of
           (Inl er, w1) \<Rightarrow> (Inl er, w1)
         | (Inr i, w1) \<Rightarrow> (Inr (mi_id i), w1))"

definition verb_tell :: "'w rt_client \<Rightarrow> string \<Rightarrow> speak_request \<Rightarrow> 'w \<Rightarrow> writer rt \<times> 'w" where
  "verb_tell C conv r w =
     (if sr_status r \<noteq> [] \<and> sr_status r \<noteq> MessageStatusStreaming then (Inl ErrTellStatusInvalid, w)
      else case write_request (cl_publish C conv (r\<lparr>sr_status := MessageStatusStreaming\<rparr>)) w of
        (Inl er, w1) \<Rightarrow> (Inl er, w1)
      | (Inr i, w1) \<Rightarrow> (Inr (new_writer i), w1))"

text \<open>The blocks of a message page by page; \<open>n\<close> bounds the number of pages.\<close>

fun read_blocks :: "nat \<Rightarrow> 'w rt_client \<Rightarrow> string \<Rightarrow> string \<Rightarrow> string \<Rightarrow> 'w \<Rightarrow> ((nat \<times> json) list rt \<times> 'w) option" where
  "read_blocks 0 C conv i cursor w = None"
| "read_blocks (Suc n) C conv i cursor w =
     (case cl_blocks C conv i cursor w of
        (Inl er, w1) \<Rightarrow> Some (Inl er, w1)
      | (Inr page, w1) \<Rightarrow>
          (let seen = map (Pair (bp_revision page)) (bp_data page)
           in if bp_next page = [] then Some (Inr seen, w1)
              else case read_blocks n C conv i (bp_next page) w1 of
                None \<Rightarrow> None
              | Some (Inl er, w2) \<Rightarrow> Some (Inl er, w2)
              | Some (Inr rest, w2) \<Rightarrow> Some (Inr (seen @ rest), w2)))"

section \<open>Registration\<close>

definition lease_duration :: "int \<Rightarrow> int" where
  "lease_duration d = (if d \<le> 0 then 30000000000 else d)"

definition renew_registration ::
    "'w rt_client \<Rightarrow> string \<Rightarrow> int \<Rightarrow> string \<Rightarrow> string \<Rightarrow> string \<Rightarrow> 'w \<Rightarrow> unit rt \<times> 'w" where
  "renew_registration C path lease key name description w =
     cl_register C path key name description (lease div 1000000000) w"

definition register_actor ::
    "'w rt_client \<Rightarrow> string \<Rightarrow> int \<Rightarrow> string \<Rightarrow> string \<Rightarrow> string \<Rightarrow> 'w \<Rightarrow> unit rt \<times> 'w" where
  "register_actor C path lease key name description w =
     (if trim_space key = [] then (Inl ErrRegistrationKeyRequired, w)
      else renew_registration C path (lease_duration lease) (trim_space key) (trim_space name) (trim_space description) w)"

definition renewal_interval :: "int \<Rightarrow> int" where
  "renewal_interval lease = (if lease div 3 \<le> 0 then 1000000000 else lease div 3)"

end
