(* ===== verification/RuntimeProps.thy ===== *)
theory RuntimeProps
  imports ServiceFacts RuntimeClient
begin

text \<open>
  The properties of the toolkit: over a network that loses requests and responses the updates of a
  writer reach the stored message exactly once and in order, and a call that is waited for
  returns only what the server stored as its end.
\<close>

section \<open>A server of updates\<close>

text \<open>
  What a writer relies on: a request either has no effect or is the next update of a message that has
  not ended, and success means that the update is there.
\<close>

locale update_server =
  fixes post :: "update \<Rightarrow> 'w \<Rightarrow> unit rt \<times> 'w"
    and good :: "update \<Rightarrow> bool"
    and rev_of :: "'w \<Rightarrow> nat"
    and log_of :: "'w \<Rightarrow> update list"
    and live :: "'w \<Rightarrow> bool"
  assumes effect: "good u \<Longrightarrow> post u w = (r, w') \<Longrightarrow>
      (rev_of w' = rev_of w \<and> log_of w' = log_of w \<and> live w' = live w)
    \<or> (up_seq u = rev_of w + 1 \<and> rev_of w' = up_seq u \<and> log_of w' = log_of w @ [u] \<and> live w'= (up_status u = []))"
    and confirmed: "good u \<Longrightarrow> post u w = (Inr (), w') \<Longrightarrow> live w \<or> up_seq u \<le> rev_of w \<Longrightarrow> up_seq u \<le> rev_of w'"
begin

lemma attempts_effect:
  "good u \<Longrightarrow> write_attempts n (post u) w = (r, w') \<Longrightarrow> up_seq u = rev_of w + 1 \<Longrightarrow>
      (rev_of w' = rev_of w \<and> log_of w' = log_of w \<and> live w' = live w)
    \<or> (rev_of w' = up_seq u \<and> log_of w' = log_of w @ [u] \<and> live w' = (up_status u = []))"
  and attempts_settled:
  "good u \<Longrightarrow> write_attempts n (post u) w = (r, w') \<Longrightarrow> up_seq u \<le> rev_of w \<Longrightarrow>
      rev_of w' = rev_of w \<and> log_of w' = log_of w \<and> live w' = live w"
proof -
  have settled: "good u \<Longrightarrow> write_attempts n (post u) w = (r, w') \<Longrightarrow> up_seq u \<le> rev_of w \<Longrightarrow>
      rev_of w' = rev_of w \<and> log_of w' = log_of w \<and> live w' = live w" for n w r w'
  proof (induction n arbitrary: w)
    case 0
    obtain q v where v: "post u w = (q, v)" by (rule prod.exhaust)
    then have "w' = v" using 0(2) by (cases q) (simp_all add: write_attempts.simps [of 0])
    then show ?case using effect [OF 0(1) v] 0(3) by auto
  next
    case (Suc n)
    obtain q v where v: "post u w = (q, v)" by (rule prod.exhaust)
    have same: "rev_of v = rev_of w \<and> log_of v = log_of w \<and> live v = live w"
      using effect [OF Suc.prems(1) v] Suc.prems(3) by auto
    have "w' = v \<or> write_attempts n (post u) v = (r, w')"
      using Suc.prems(2) v by (cases q) (auto simp: write_attempts.simps [of "Suc n"] split: if_splits)
    then show ?case using same Suc.IH [OF Suc.prems(1)] Suc.prems(3) by auto
  qed
  show "good u \<Longrightarrow> write_attempts n (post u) w = (r, w') \<Longrightarrow> up_seq u \<le> rev_of w \<Longrightarrow>
      rev_of w' = rev_of w \<and> log_of w' = log_of w \<and> live w' = live w"
    by (rule settled)
  show "good u \<Longrightarrow> write_attempts n (post u) w = (r, w') \<Longrightarrow> up_seq u = rev_of w + 1 \<Longrightarrow>
      (rev_of w' = rev_of w \<and> log_of w' = log_of w \<and> live w' = live w)
    \<or> (rev_of w' = up_seq u \<and> log_of w' = log_of w @ [u] \<and> live w' = (up_status u = []))"
  proof (induction n arbitrary: w)
    case 0
    obtain q v where v: "post u w = (q, v)" by (rule prod.exhaust)
    then have "w' = v" using 0(2) by (cases q) (simp_all add: write_attempts.simps [of 0])
    then show ?case using effect [OF 0(1) v] by auto
  next
    case (Suc n)
    obtain q v where v: "post u w = (q, v)" by (rule prod.exhaust)
    have "w' = v \<or> write_attempts n (post u) v = (r, w')"
      using Suc.prems(2) v by (cases q) (auto simp: write_attempts.simps [of "Suc n"] split: if_splits)
    moreover have ?case if "write_attempts n (post u) v = (r, w')"
      using effect [OF Suc.prems(1) v]
    proof (elim disjE conjE)
      assume same: "rev_of v = rev_of w" "log_of v = log_of w" "live v = live w"
      then have "up_seq u = rev_of v + 1" using Suc.prems(3) by simp
      from Suc.IH [OF Suc.prems(1) that this] show ?thesis unfolding same .
    next
      assume new: "rev_of v = up_seq u" "log_of v = log_of w @ [u]" "live v = (up_status u = [])"
      then have "up_seq u \<le> rev_of v" by simp
      from settled [OF Suc.prems(1) that this] show ?thesis unfolding new by blast
    qed
    ultimately show ?case using effect [OF Suc.prems(1) v] by blast
  qed
qed

lemma attempts_confirmed:
  "good u \<Longrightarrow> write_attempts n (post u) w = (Inr (), w') \<Longrightarrow> up_seq u = rev_of w + 1 \<Longrightarrow> live w \<Longrightarrow> up_seq u \<le> rev_of w'"
proof (induction n arbitrary: w)
  case 0
  then have "post u w = (Inr (), w')" by (auto simp: write_attempts.simps [of 0] split: prod.splits sum.splits)
  then show ?case using confirmed 0 by blast
next
  case (Suc n)
  obtain q v where v: "post u w = (q, v)" by (rule prod.exhaust)
  show ?case
  proof (cases q)
    case (Inr x)
    then have "post u w = (Inr (), w')" using Suc.prems(2) v by (auto simp: write_attempts.simps [of "Suc n"])
    then show ?thesis using confirmed Suc.prems by blast
  next
    case (Inl er)
    then have again: "write_attempts n (post u) v = (Inr (), w')"
      using Suc.prems(2) v by (auto simp: write_attempts.simps [of "Suc n"] split: if_splits)
    from effect [OF Suc.prems(1) v] show ?thesis
    proof (elim disjE conjE)
      assume "rev_of v = rev_of w" "log_of v = log_of w" "live v = live w"
      then show ?thesis using Suc.IH [OF Suc.prems(1) again] Suc.prems by simp
    next
      assume "rev_of v = up_seq u"
      then show ?thesis using attempts_settled [OF Suc.prems(1) again] by simp
    qed
  qed
qed

text \<open>The revision counts the updates.\<close>

lemma attempts_count:
  "good u \<Longrightarrow> write_attempts n (post u) w = (r, w') \<Longrightarrow> rev_of w' + length (log_of w) = rev_of w + length (log_of w')"
proof (induction n arbitrary: w)
  case 0
  obtain q v where v: "post u w = (q, v)" by (rule prod.exhaust)
  then have "w' = v" using 0(2) by (cases q) (simp_all add: write_attempts.simps [of 0])
  then show ?case using effect [OF 0(1) v] by auto
next
  case (Suc n)
  obtain q v where v: "post u w = (q, v)" by (rule prod.exhaust)
  have "w' = v \<or> write_attempts n (post u) v = (r, w')"
    using Suc.prems(2) v by (cases q) (auto simp: write_attempts.simps [of "Suc n"] split: if_splits)
  moreover have "rev_of v + length (log_of w) = rev_of w + length (log_of v)" using effect [OF Suc.prems(1) v] by auto
  ultimately show ?case using Suc.IH [OF Suc.prems(1), of v] by auto
qed

text \<open>
  Where a writer and its message stand: in step, or one update ahead that is still pending.
\<close>

definition in_step :: "writer \<Rightarrow> 'w \<Rightarrow> bool" where
  "in_step m w \<longleftrightarrow> wr_next m = rev_of w + 1 \<and> (wr_ended m \<or> live w)"

definition ahead :: "update list \<Rightarrow> writer \<Rightarrow> 'w \<Rightarrow> bool" where
  "ahead sent m w \<longleftrightarrow> wr_next m = rev_of w \<and> \<not> wr_ended m
     \<and> (\<exists>u. wr_pending m = Some u \<and> up_seq u = wr_next m \<and> log_of w = sent @ [u] \<and> live w = (up_status u = []))"

definition in_order :: "update list \<Rightarrow> writer \<Rightarrow> 'w \<Rightarrow> bool" where
  "in_order sent m w \<longleftrightarrow> (in_step m w \<and> log_of w = sent) \<or> ahead sent m w"

text \<open>One update: it is sent, or it fails and the writer is still in order.\<close>

lemma emit_in_order:
  assumes "in_order sent m w" and "\<not> wr_ended m"
    and run: "writer_emit encode (\<lambda>_. post) ev st (m, w) = (r, m', w')"
    and good: "\<And>data. encode (ev\<lparr>ev_seq := wr_next m\<rparr>) = Inr data \<Longrightarrow> good \<lparr>up_event = data, up_seq = wr_next m, up_status = st\<rparr>"
  shows "(\<exists>data. r = Inr () \<and> encode (ev\<lparr>ev_seq := wr_next m\<rparr>) = Inr data \<and> wr_next m' = wr_next m + 1
            \<and> wr_next m' = rev_of w' + 1 \<and> live w' = (st = []) \<and> wr_ended m' = wr_ended m
            \<and> log_of w' = sent @ [\<lparr>up_event = data, up_seq = wr_next m, up_status = st\<rparr>])
       \<or> (\<exists>er. r = Inl er \<and> wr_next m' = wr_next m \<and> in_order sent m' w')"
proof (cases "encode (ev\<lparr>ev_seq := wr_next m\<rparr>)")
  case (Inl er)
  then show ?thesis using run assms(1) by (auto simp: writer_emit_def)
next
  case (Inr data)
  let ?u = "\<lparr>up_event = data, up_seq = wr_next m, up_status = st\<rparr>"
  note enc = Inr
  have g: "good ?u" by (rule good [OF enc])
  show ?thesis
  proof (cases "wr_pending m \<noteq> None \<and> wr_pending m \<noteq> Some ?u")
    case True
    then show ?thesis using run assms(1) Inr by (auto simp: writer_emit_def Let_def)
  next
    case False
    obtain q v where v: "write_attempts 2 (post ?u) w = (q, v)" by (rule prod.exhaust)
    have w': "w' = v" "r = q" "m' = (case q of Inl _ \<Rightarrow> m\<lparr>wr_pending := Some ?u\<rparr>
        | Inr _ \<Rightarrow> m\<lparr>wr_pending := None, wr_next := wr_next m + 1,
             wr_status := (if ev_op ev = OpEnd then st else wr_status m), wr_revision := wr_next m\<rparr>)"
      using run False Inr v by (auto simp: writer_emit_def write_request_def Let_def split: sum.splits)
    from assms(1) [unfolded in_order_def] show ?thesis
    proof (elim disjE conjE)
      assume i: "in_step m w" and l: "log_of w = sent"
      then have seq: "up_seq ?u = rev_of w + 1" and live: "live w" using assms(2) by (auto simp: in_step_def)
      note E = attempts_effect [OF g v seq]
      show ?thesis
      proof (cases q)
        case (Inr x)
        then have "wr_next m \<le> rev_of v" using attempts_confirmed [OF g _ seq live] v by simp
        then have "rev_of v = wr_next m \<and> log_of v = log_of w @ [?u] \<and> live v = (st = [])" using E seq by auto
        then show ?thesis using w' Inr l enc by simp
      next
        case (Inl er)
        from E show ?thesis
        proof (elim disjE conjE)
          assume "rev_of v = rev_of w" "log_of v = log_of w" "live v = live w"
          then have "in_order sent m' w'" using w' Inl i l by (simp add: in_order_def in_step_def)
          then show ?thesis using w' Inl by simp
        next
          assume "rev_of v = up_seq ?u" "log_of v = log_of w @ [?u]" "live v = (up_status ?u = [])"
          then have "ahead sent m' w'" using w' Inl l assms(2) by (simp add: ahead_def)
          then show ?thesis using w' Inl by (simp add: in_order_def)
        qed
      qed
    next
      assume a: "ahead sent m w"
      then have p: "wr_pending m = Some ?u" and rv: "rev_of w = wr_next m" and l: "log_of w = sent @ [?u]" "live w = (st = [])"
        using False by (auto simp: ahead_def)
      have same: "rev_of v = rev_of w \<and> log_of v = log_of w \<and> live v = live w"
        by (rule attempts_settled [OF g v]) (simp add: rv)
      show ?thesis
      proof (cases q)
        case (Inr x)
        then show ?thesis using w' same l rv enc by simp
      next
        case (Inl er)
        then have "ahead sent m' w'" using a w' same by (simp add: ahead_def p)
        then show ?thesis using w' Inl by (simp add: in_order_def)
      qed
    qed
  qed
qed

end

section \<open>Runs of a writer\<close>

datatype write_op = Emit event | EndStream "string list"

definition end_status :: "string list \<Rightarrow> string" where
  "end_status statuses = (case statuses of [st] \<Rightarrow> st | _ \<Rightarrow> MessageStatusCompleted)"

fun perform ::
    "(event \<Rightarrow> content rt) \<Rightarrow> (string \<Rightarrow> update \<Rightarrow> 'w \<Rightarrow> unit rt \<times> 'w) \<Rightarrow> write_op \<Rightarrow> writer \<times> 'w \<Rightarrow> unit rt \<times> writer \<times> 'w" where
  "perform encode post (Emit ev) x = emit_update encode post ev x"
| "perform encode post (EndStream statuses) x = end_update encode post statuses x"

text \<open>The update an operation makes when the writer stands at \<open>n\<close>.\<close>

fun op_update :: "(event \<Rightarrow> content rt) \<Rightarrow> nat \<Rightarrow> write_op \<Rightarrow> update" where
  "op_update encode n (Emit ev) = \<lparr>up_event = projr (encode (ev\<lparr>ev_seq := n\<rparr>)), up_seq = n, up_status = []\<rparr>"
| "op_update encode n (EndStream statuses) =
     \<lparr>up_event = projr (encode (no_event\<lparr>ev_op := OpEnd, ev_seq := n\<rparr>)), up_seq = n, up_status = end_status statuses\<rparr>"

text \<open>
  The operations in order, with the updates that were reported as done: an operation that succeeded and
  moved the writer.
\<close>

fun run_writer ::
    "(event \<Rightarrow> content rt) \<Rightarrow> (string \<Rightarrow> update \<Rightarrow> 'w \<Rightarrow> unit rt \<times> 'w) \<Rightarrow> write_op list \<Rightarrow> writer \<times> 'w
     \<Rightarrow> update list \<times> writer \<times> 'w" where
  "run_writer encode post [] x = ([], x)"
| "run_writer encode post (p # ps) x =
     (case perform encode post p x of (r, y) \<Rightarrow>
      case run_writer encode post ps y of (sent, z) \<Rightarrow>
        ((if r = Inr () \<and> wr_next (fst y) \<noteq> wr_next (fst x) then [op_update encode (wr_next (fst x)) p] else []) @ sent, z))"

context update_server
begin

lemma op_in_order:
  assumes ok: "in_order sent m w" and run: "perform encode (\<lambda>_. post) p (m, w) = (r, m', w')"
    and good: "\<And>ev n data st. encode (ev\<lparr>ev_seq := n\<rparr>) = Inr data \<Longrightarrow> (ev_op ev = OpEnd) = (st \<noteq> []) \<Longrightarrow>
        good \<lparr>up_event = data, up_seq = n, up_status = st\<rparr>"
  shows "in_order (sent @ (if r = Inr () \<and> wr_next m' \<noteq> wr_next m then [op_update encode (wr_next m) p] else [])) m' w'"
proof (cases p)
  case (Emit ev)
  show ?thesis
  proof (cases "wr_ended m \<or> (ev_op ev \<noteq> OpSet \<and> ev_op ev \<noteq> OpAppend)")
    case True
    then show ?thesis using run ok Emit by (auto simp: emit_update_def split: if_splits)
  next
    case False
    then have e: "writer_emit encode (\<lambda>_. post) ev [] (m, w) = (r, m', w')" and op: "ev_op ev \<noteq> OpEnd"
      using run Emit by (auto simp: emit_update_def split: if_splits)
    have g: "good \<lparr>up_event = data, up_seq = wr_next m, up_status = []\<rparr>"
      if "encode (ev\<lparr>ev_seq := wr_next m\<rparr>) = Inr data" for data
      by (rule good [OF that]) (simp add: op)
    from emit_in_order [OF ok _ e g] False show ?thesis
      by (auto simp: Emit in_order_def in_step_def)
  qed
next
  case (EndStream statuses)
  let ?st = "end_status statuses" and ?ev = "no_event\<lparr>ev_op := OpEnd\<rparr>"
  show ?thesis
  proof (cases "1 < length statuses \<or> \<not> status_terminal ?st \<or> wr_ended m")
    case True
    then have "m' = m \<and> w' = w" using run EndStream
      by (auto simp: end_update_def end_status_def Let_def split: if_splits)
    then show ?thesis using ok by simp
  next
    case False
    obtain q m1 w1 where e: "writer_emit encode (\<lambda>_. post) ?ev ?st (m, w) = (q, m1, w1)" by (rule prod_cases3)
    have y: "r = q" "w' = w1" "m' = (case q of Inl _ \<Rightarrow> m1 | Inr _ \<Rightarrow> m1\<lparr>wr_ended := True\<rparr>)"
      using run False EndStream e by (auto simp: end_update_def end_status_def Let_def split: sum.splits if_splits)
    have st: "?st \<noteq> []" using False by (auto simp: status_terminal_def)
    have g: "good \<lparr>up_event = data, up_seq = wr_next m, up_status = ?st\<rparr>"
      if "encode (?ev\<lparr>ev_seq := wr_next m\<rparr>) = Inr data" for data
      by (rule good [OF that]) (simp add: st)
    from emit_in_order [OF ok _ e g] False y show ?thesis
      by (auto simp: EndStream in_order_def in_step_def)
  qed
qed

lemma run_count:
  assumes good: "\<And>ev n data st. encode (ev\<lparr>ev_seq := n\<rparr>) = Inr data \<Longrightarrow> (ev_op ev = OpEnd) = (st \<noteq> []) \<Longrightarrow>
        good \<lparr>up_event = data, up_seq = n, up_status = st\<rparr>"
  shows "run_writer encode (\<lambda>_. post) ps (m, w) = (done, m', w') \<Longrightarrow>
    rev_of w' + length (log_of w) = rev_of w + length (log_of w')"
proof (induction ps arbitrary: m w "done")
  case (Cons p ps)
  have emit: "rev_of w1 + length (log_of w) = rev_of w + length (log_of w1)"
    if e: "writer_emit encode (\<lambda>_. post) ev st (m, w) = (r, m1, w1)" and op: "(ev_op ev = OpEnd) = (st \<noteq> [])" for ev st r m1 w1
  proof (cases "encode (ev\<lparr>ev_seq := wr_next m\<rparr>)")
    case (Inr data)
    from attempts_count [OF good [OF Inr op]] e Inr show ?thesis
      by (auto simp: writer_emit_def write_request_def Let_def split: if_splits prod.splits sum.splits)
  qed (use e in \<open>simp add: writer_emit_def\<close>)
  obtain r m1 w1 where step: "perform encode (\<lambda>_. post) p (m, w) = (r, m1, w1)" by (rule prod_cases3)
  have one: "rev_of w1 + length (log_of w) = rev_of w + length (log_of w1)"
  proof (cases p)
    case (Emit ev)
    then have "w1 = w \<or> (writer_emit encode (\<lambda>_. post) ev [] (m, w) = (r, m1, w1) \<and> ev_op ev \<noteq> OpEnd)"
      using step by (auto simp: emit_update_def split: if_splits)
    then show ?thesis using emit [of ev "[]"] by auto
  next
    case (EndStream statuses)
    obtain q m2 w2 where e: "writer_emit encode (\<lambda>_. post) (no_event\<lparr>ev_op := OpEnd\<rparr>) (end_status statuses) (m, w) = (q, m2, w2)"
      by (rule prod_cases3)
    have "w1 = w \<or> (w1 = w2 \<and> end_status statuses \<noteq> [])"
      using step e EndStream
      by (auto simp: end_update_def end_status_def Let_def status_terminal_def split: if_splits sum.splits)
    then show ?thesis using emit [OF e] by auto
  qed
  obtain rest where "run_writer encode (\<lambda>_. post) ps (m1, w1) = (rest, m', w')"
    using Cons.prems step by (auto split: prod.splits)
  from Cons.IH [OF this] one show ?case by simp
qed simp

lemma run_in_order:
  assumes good: "\<And>ev n data st. encode (ev\<lparr>ev_seq := n\<rparr>) = Inr data \<Longrightarrow> (ev_op ev = OpEnd) = (st \<noteq> []) \<Longrightarrow>
        good \<lparr>up_event = data, up_seq = n, up_status = st\<rparr>"
  shows "in_order sent m w \<Longrightarrow> run_writer encode (\<lambda>_. post) ps (m, w) = (done, m', w') \<Longrightarrow> in_order (sent @ done) m' w'"
proof (induction ps arbitrary: sent m w "done")
  case (Cons p ps)
  obtain r m1 w1 where op: "perform encode (\<lambda>_. post) p (m, w) = (r, m1, w1)" by (rule prod_cases3)
  obtain rest where rest: "run_writer encode (\<lambda>_. post) ps (m1, w1) = (rest, m', w')"
    "done = (if r = Inr () \<and> wr_next m1 \<noteq> wr_next m then [op_update encode (wr_next m) p] else []) @ rest"
    using Cons.prems(2) op by (auto split: prod.splits)
  have "in_order (sent @ (if r = Inr () \<and> wr_next m1 \<noteq> wr_next m then [op_update encode (wr_next m) p] else [])) m1 w1"
    by (rule op_in_order [OF Cons.prems(1) op]) (rule good)
  from Cons.IH [OF this rest(1)] show ?case by (simp add: rest(2))
qed simp

end

section \<open>The server behind a network\<close>

text \<open>
  The repository behind a network that may lose a request, or the response of a request it served. Other
  transactions run in between; the message has one writer, so they leave its row alone. The log
  keeps the updates that changed the row.
\<close>

datatype fault = Delivered | RequestLost | ResponseLost

record 'b net =
  nt_tick :: nat
  nt_store :: store
  nt_bridge :: 'b
  nt_log :: "update list"

definition beside :: "string \<Rightarrow> (store \<Rightarrow> store) \<Rightarrow> store \<Rightarrow> store" where
  "beside i f s = (if get_msg i (f s) = get_msg i s then f s else s)"

definition stored_revision :: "string \<Rightarrow> 'b net \<Rightarrow> nat" where
  "stored_revision i w = (case get_msg i (nt_store w) of Some m \<Rightarrow> m_revision m | None \<Rightarrow> 0)"

definition streaming :: "string \<Rightarrow> 'b net \<Rightarrow> bool" where
  "streaming i w \<longleftrightarrow> (\<exists>m. get_msg i (nt_store w) = Some m \<and> \<not> status_terminal (m_status m))"

definition server_post ::
    "env \<Rightarrow> config \<Rightarrow> 'b bridge \<Rightarrow> (nat \<Rightarrow> int) \<Rightarrow> (nat \<Rightarrow> fault) \<Rightarrow> (nat \<Rightarrow> store \<Rightarrow> store) \<Rightarrow> string
     \<Rightarrow> update \<Rightarrow> 'b net \<Rightarrow> unit rt \<times> 'b net" where
  "server_post e cf B clock faults others i u w =
     (let k = nt_tick w; w0 = w\<lparr>nt_tick := Suc k, nt_store := beside i (others k) (nt_store w)\<rparr>
      in if faults k = RequestLost then (Inl (transport_error Network []), w0)
         else case emit_message e cf (clock k) B i (up_event u) [up_status u] (nt_store w0) (nt_bridge w0) of
           (r, s, b) \<Rightarrow>
             let w1 = w0\<lparr>nt_store := s, nt_bridge := b\<rparr>;
                 w2 = (if stored_revision i w1 \<noteq> stored_revision i w0 then w1\<lparr>nt_log := nt_log w1 @ [u]\<rparr> else w1)
             in (if faults k = ResponseLost then Inl (transport_error Eof [])
                 else do_request () (api_answer e 202 (bindR r (\<lambda>_. Inr ()))), w2))"

definition good_update :: "env \<Rightarrow> update \<Rightarrow> bool" where
  "good_update e u \<longleftrightarrow> (\<exists>ev. e_parse e (up_event u) = Inr ev \<and> ev_seq ev = up_seq u \<and> (ev_op ev = OpEnd) = (up_status u \<noteq> []))"

lemma beside_msg [simp]: "get_msg i (beside i f s) = get_msg i s"
  by (simp add: beside_def)

text \<open>What emitting does to the store, without the bridge.\<close>

lemma emit_message_store:
  assumes "emit_message e cf now B i data [st] s b = (r, s', b')" and "e_parse e data = Inr ev"
  shows "(s' = s \<and> (\<forall>x. r = Inr x \<longrightarrow> (\<exists>m. get_msg i s = Some m \<and> status_terminal (m_status m))))
    \<or> (\<exists>st1. project_event e cf now i ev st1 False s = Inr s' \<and> (ev_op ev = OpEnd \<longrightarrow> status_terminal st1))"
proof -
  consider (refused) er where "accept_emit e i data [st] s = Inl er"
    | (over) "accept_emit e i data [st] s = Inr None"
    | (taken) ev1 st1 where "accept_emit e i data [st] s = Inr (Some (ev1, st1))"
    by (cases "accept_emit e i data [st] s") (auto, metis option.exhaust surj_pair)
  then show ?thesis
  proof cases
    case refused
    then show ?thesis using assms(1) by (auto simp: emit_message_def)
  next
    case over
    then have "s' = s" using assms(1) by (simp add: emit_message_def)
    moreover have "\<exists>m. get_msg i s = Some m \<and> status_terminal (m_status m)"
      using over by (auto simp: accept_emit_def bindR_eq_Inr get_message_state_def state_of_def split: if_splits option.splits)
    ultimately show ?thesis by blast
  next
    case taken
    have ev: "ev1 = ev" and st: "emit_status ev [st] = Inr st1"
      using taken assms(2) by (auto simp: accept_emit_def parse_output_event_def bindR_eq_Inr split: if_splits)
    show ?thesis
    proof (cases "project_output e cf now i ev [st1] s")
      case (Inl er)
      then show ?thesis using assms(1) taken ev by (auto simp: emit_message_def)
    next
      case (Inr s1)
      have "s' = s1" using assms(1) taken ev Inr by (auto simp: emit_message_def split: sum.splits prod.splits)
      moreover obtain st2 where "project_event e cf now i ev st2 False s = Inr s1" "ev_op ev = OpEnd \<longrightarrow> status_terminal st2"
        using Inr by (auto simp: project_output_def output_status_def bindR_eq_Inr Let_def split: if_splits)
      ultimately show ?thesis by blast
    qed
  qed
qed

lemma api_answer_error: "do_request zero (api_answer e 202 r) = Inr x \<Longrightarrow> \<exists>y. r = Inr y"
  by (cases r) (auto simp: api_answer_def api_status_def do_request_def response_error_def split: if_splits option.splits)

text \<open>One request: what it does to the message, and what its success says.\<close>

lemma server_post_effect:
  assumes "good_update e u" and "server_post e cf B clock faults others i u w = (r, w')"
  shows "((stored_revision i w' = stored_revision i w \<and> nt_log w' = nt_log w \<and> streaming i w' = streaming i w)
     \<or> (up_seq u = stored_revision i w + 1 \<and> stored_revision i w' = up_seq u \<and> nt_log w' = nt_log w @ [u]
         \<and> streaming i w' = (up_status u = [])))
    \<and> (r = Inr () \<longrightarrow> streaming i w \<or> up_seq u \<le> stored_revision i w \<longrightarrow> up_seq u \<le> stored_revision i w')"
proof -
  let ?k = "nt_tick w"
  let ?w0 = "w\<lparr>nt_tick := Suc ?k, nt_store := beside i (others ?k) (nt_store w)\<rparr>"
  have w0: "stored_revision i ?w0 = stored_revision i w" "streaming i ?w0 = streaming i w" "nt_log ?w0 = nt_log w"
    by (simp_all add: stored_revision_def streaming_def)
  show ?thesis
  proof (cases "faults ?k = RequestLost")
    case True
    then have "w' = ?w0" "r \<noteq> Inr ()" using assms(2) by (auto simp: server_post_def Let_def)
    then show ?thesis using w0 by simp
  next
    case False
    obtain q s b where em: "emit_message e cf (clock ?k) B i (up_event u) [up_status u] (nt_store ?w0) (nt_bridge ?w0) = (q, s, b)"
      by (rule prod_cases3)
    let ?w1 = "?w0\<lparr>nt_store := s, nt_bridge := b\<rparr>"
    have w': "w' = (if stored_revision i ?w1 \<noteq> stored_revision i ?w0 then ?w1\<lparr>nt_log := nt_log ?w1 @ [u]\<rparr> else ?w1)"
      and ok: "r = Inr () \<Longrightarrow> \<exists>x. q = Inr x"
      using assms(2) False em
      by (auto simp: server_post_def Let_def bindR_eq_Inr split: if_splits dest!: api_answer_error)
    obtain ev where ev: "e_parse e (up_event u) = Inr ev" "ev_seq ev = up_seq u" "(ev_op ev = OpEnd) = (up_status u \<noteq> [])"
      using assms(1) by (auto simp: good_update_def)
    from emit_message_store [OF em ev(1)] show ?thesis
    proof (elim disjE conjE exE)
      assume s: "s = nt_store ?w0" and over: "\<forall>x. q = Inr x \<longrightarrow> (\<exists>m. get_msg i (nt_store ?w0) = Some m \<and> status_terminal (m_status m))"
      have same: "stored_revision i w' = stored_revision i w" "nt_log w' = nt_log w" "streaming i w' = streaming i w"
        using w' s w0 by (simp_all add: stored_revision_def streaming_def)
      moreover have "\<not> streaming i w" if "r = Inr ()"
        using ok [OF that] over by (auto simp: streaming_def)
      ultimately show ?thesis by auto
    next
      fix st1 assume pr: "project_event e cf (clock ?k) i ev st1 False (nt_store ?w0) = Inr s"
        and fin: "ev_op ev = OpEnd \<longrightarrow> status_terminal st1"
      from project_event_cases [OF pr] obtain m where m: "get_msg i (nt_store ?w0) = Some m"
        and alt: "(s = nt_store ?w0 \<and> ev_seq ev = m_revision m) \<or> output_accepted (clock ?k) i ev st1 (cf_max cf) (nt_store ?w0) s m"
        by blast
      have rw: "stored_revision i w = m_revision m" using m by (simp add: stored_revision_def)
      from alt show ?thesis
      proof (elim disjE conjE)
        assume s: "s = nt_store ?w0" and seq: "ev_seq ev = m_revision m"
        have same: "stored_revision i w' = stored_revision i w" "nt_log w' = nt_log w" "streaming i w' = streaming i w"
          using w' s w0 by (simp_all add: stored_revision_def streaming_def)
        then show ?thesis using seq ev rw by simp
      next
        assume "output_accepted (clock ?k) i ev st1 (cf_max cf) (nt_store ?w0) s m"
        then obtain content where a: "ev_seq ev = m_revision m + 1" "\<not> status_terminal (m_status m)"
          "get_msg i s = Some (accept_output (clock ?k) ev st1 content m)"
          by (auto simp: output_accepted_def)
        have rev1: "stored_revision i ?w1 = up_seq u" using a ev by (simp add: stored_revision_def accept_output_def)
        have st1: "streaming i ?w1 = (up_status u = [])"
          using a ev fin by (auto simp: streaming_def accept_output_def)
        have new: "up_seq u = stored_revision i w + 1" using a(1) ev rw by simp
        then have "stored_revision i ?w1 \<noteq> stored_revision i ?w0" using rev1 w0 by simp
        then have w2: "w' = ?w1\<lparr>nt_log := nt_log ?w1 @ [u]\<rparr>" using w' by (simp only: if_True simp_thms)
        have "stored_revision i w' = up_seq u" "streaming i w' = (up_status u = [])" "nt_log w' = nt_log w @ [u]"
          unfolding w2 using rev1 st1 by (simp_all add: stored_revision_def streaming_def)
        then show ?thesis using new by simp
      qed
    qed
  qed
qed

interpretation net: update_server "server_post e cf B clock faults others i" "good_update e" "stored_revision i" nt_log "streaming i"
  for e cf B clock faults others i
proof
  fix u w r w' assume "good_update e u" "server_post e cf B clock faults others i u w = (r, w')"
  then show "(stored_revision i w' = stored_revision i w \<and> nt_log w' = nt_log w \<and> streaming i w' = streaming i w)
     \<or> (up_seq u = stored_revision i w + 1 \<and> stored_revision i w' = up_seq u \<and> nt_log w' = nt_log w @ [u]
         \<and> streaming i w' = (up_status u = []))"
    using server_post_effect by blast
next
  fix u w w' assume "good_update e u" "server_post e cf B clock faults others i u w = (Inr (), w')"
    "streaming i w \<or> up_seq u \<le> stored_revision i w"
  then show "up_seq u \<le> stored_revision i w'" using server_post_effect by blast
qed

section \<open>Exactly once\<close>

text \<open>The event a client marshals is the event the server parses.\<close>

definition codec_law :: "env \<Rightarrow> (event \<Rightarrow> content rt) \<Rightarrow> bool" where
  "codec_law e encode \<longleftrightarrow> (\<forall>ev data. encode ev = Inr data \<longrightarrow> e_parse e data = Inr ev)"

text \<open>
  C32: the updates of a writer are applied exactly once and in order. From the handle of a streaming
  message, over any number of updates and ends, and whatever requests and responses the network loses, the
  updates that changed the stored message are those reported as done, in their order, and
  at most one more, which the writer still holds as pending and will send again; the stored revision
  counts them.
\<close>
theorem updates_apply_exactly_once:
  assumes "get_msg i (nt_store w) = Some m" and "\<not> status_terminal (m_status m)" and "1 \<le> m_revision m"
    and "codec_law e encode" and "nt_log w = []"
    and "run_writer encode (\<lambda>_. server_post e cf B clock faults others i) ops
           (new_writer (info (message_from_model m)), w) = (sent, h, w')"
  shows "((nt_log w' = sent \<and> wr_next h = stored_revision i w' + 1)
    \<or> (\<exists>u. wr_pending h = Some u \<and> nt_log w' = sent @ [u] \<and> wr_next h = stored_revision i w'))
    \<and> stored_revision i w' = m_revision m + length (nt_log w')"
proof -
  let ?h0 = "new_writer (info (message_from_model m))"
  have "net.in_order i [] ?h0 w"
    using assms(1-3,5) by (auto simp: net.in_order_def net.in_step_def new_writer_def info_def message_from_model_def
        stored_revision_def streaming_def)
  from net.run_in_order [OF _ this assms(6)]
  have "net.in_order i ([] @ sent) h w'"
    using assms(4) by (auto simp: good_update_def codec_law_def)
  then have log: "(nt_log w' = sent \<and> wr_next h = stored_revision i w' + 1)
    \<or> (\<exists>u. wr_pending h = Some u \<and> nt_log w' = sent @ [u] \<and> wr_next h = stored_revision i w')"
    by (auto simp: net.in_order_def net.in_step_def net.ahead_def)
  from net.run_count [OF _ assms(6)] assms(4)
  have "stored_revision i w' + length (nt_log w) = stored_revision i w + length (nt_log w')"
    by (auto simp: good_update_def codec_law_def)
  then have "stored_revision i w' = m_revision m + length (nt_log w')"
    using assms(1,5) by (simp add: stored_revision_def)
  with log show ?thesis by blast
qed

section \<open>A lossy network\<close>

text \<open>The response of the first request is lost; the update it carried is sent again.\<close>

definition first_update :: event where
  "first_update = live_event\<lparr>ev_seq := 2\<rparr>"

definition second_update :: event where
  "second_update = no_event\<lparr>ev_op := OpEnd, ev_seq := 3\<rparr>"

definition demo_encode :: "event \<Rightarrow> content rt" where
  "demo_encode ev = (if ev = first_update then Inr (Content None ''a'')
     else if ev = second_update then Inr (Content None ''b'') else Inl (plain_error ''encode''))"

definition codec_env :: env where
  "codec_env = demo_env\<lparr>e_parse := (\<lambda>c. Inr (if c_raw c = ''a'' then first_update else second_update))\<rparr>"

definition no_bridge :: "unit bridge" where
  "no_bridge = \<lparr>br_state = (\<lambda>k b. (Inl BridgeNotFound, b)), br_init = (\<lambda>k c d n b. (Inl BridgeConflict, b)),
     br_publish = (\<lambda>k d n b. (Inl BridgeNotFound, b)), br_end = (\<lambda>k b. (Inl BridgeNotFound, b))\<rparr>"

definition lossy_net :: "unit net" where
  "lossy_net = \<lparr>nt_tick = 0, nt_store = live_store\<lparr>st_runs := []\<rparr>, nt_bridge = (), nt_log = []\<rparr>"

definition lossy_post :: "string \<Rightarrow> update \<Rightarrow> unit net \<Rightarrow> unit rt \<times> unit net" where
  "lossy_post i = server_post codec_env run_cf no_bridge (\<lambda>k. 5) (\<lambda>k. if k = 0 then ResponseLost else Delivered) (\<lambda>k s. s) ''m1''"

definition lossy_run :: "update list \<times> writer \<times> unit net" where
  "lossy_run = run_writer demo_encode lossy_post [Emit live_event]
     (new_writer (info (message_from_model live_message)), lossy_net)"

lemma lossy_run_sent: "map up_seq (fst lossy_run) = [2] \<and> nt_tick (snd (snd lossy_run)) = 2"
  by code_simp

lemma demo_codec: "codec_law codec_env demo_encode"
  by (auto simp: codec_law_def demo_encode_def codec_env_def split: if_splits)

theorem updates_apply_exactly_once_witness:
  "map up_seq (fst lossy_run) = [2]
     \<and> stored_revision ''m1'' (snd (snd lossy_run)) = 1 + length (nt_log (snd (snd lossy_run)))
     \<and> (nt_log (snd (snd lossy_run)) = fst lossy_run \<or> length (nt_log (snd (snd lossy_run))) = 2)"
proof -
  obtain sent h w' where run: "lossy_run = (sent, h, w')" by (rule prod_cases3)
  have "get_msg ''m1'' (nt_store lossy_net) = Some live_message"
    by (simp add: lossy_net_def live_store_def get_msg_def live_message_def new_message_def)
  moreover have "\<not> status_terminal (m_status live_message)" "1 \<le> m_revision live_message" "nt_log lossy_net = []"
    by (simp_all add: live_message_def status_terminal_def lossy_net_def)
  ultimately have F: "(nt_log w' = sent \<and> wr_next h = stored_revision ''m1'' w' + 1)
    \<or> (\<exists>u. wr_pending h = Some u \<and> nt_log w' = sent @ [u] \<and> wr_next h = stored_revision ''m1'' w')"
    "stored_revision ''m1'' w' = m_revision live_message + length (nt_log w')"
    using updates_apply_exactly_once [of "''m1''" lossy_net live_message codec_env demo_encode] demo_codec run
    unfolding lossy_run_def lossy_post_def by (blast+)
  have "map up_seq sent = [2]" using lossy_run_sent by (simp add: run)
  then have "length sent = 1" by (cases sent) auto
  then show ?thesis using F lossy_run_sent by (auto simp: run live_message_def)
qed

end
