(* ===== verification/Interaction.thy ===== *)
theory Interaction
  imports Effects Humans
begin

text \<open>
  The Interaction operator (\<^verbatim>\<open>operators/interaction/internal/interaction\<close>): it takes one input of a
  conversation, asks how to treat it, asks for a confirmation of the choice, publishes a summary and
  commits the input. Nothing is kept between two reconciles: the questions are named after the
  input, so a later reconcile finds them again. The runtime's verbs are a parameter, calls over
  an unknown state; logging is left out.
\<close>

section \<open>The verbs\<close>

record 'w cards =
  cd_poll :: "string \<Rightarrow> poll_request \<Rightarrow> 'w \<Rightarrow> poll_result result \<times> 'w"
  cd_ask :: "human_request \<Rightarrow> 'w \<Rightarrow> string result \<times> 'w"
  cd_get :: "string \<Rightarrow> 'w \<Rightarrow> human_result result \<times> 'w"
  cd_speak :: "string \<Rightarrow> speak_request \<Rightarrow> 'w \<Rightarrow> unit result \<times> 'w"
  cd_commit :: "string \<Rightarrow> commit_request \<Rightarrow> 'w \<Rightarrow> unit result \<times> 'w"

definition interaction_actor :: actor_ref where
  "interaction_actor = \<lparr>ar_kind = ActorKindOperator, ar_key = ''interaction''\<rparr>"

section \<open>Texts\<close>

text \<open>\<open>answer_of\<close> is the code's \<^verbatim>\<open>outcome\<close>.\<close>

definition answer_of :: "human_result \<Rightarrow> string" where
  "answer_of r =
     (if hs_status r = HumanDismissed then utf8 [0xE5, 0xB7, 0xB2, 0xE5, 0x8F, 0x96, 0xE6, 0xB6, 0x88]
      else if hs_status r = HumanTimeout then utf8 [0xE5, 0xB7, 0xB2, 0xE8, 0xB6, 0x85, 0xE6, 0x97, 0xB6, 0xEF, 0xBC, 0x88, 0xE6, 0x9C, 0xAA, 0xE5,
        0x9C, 0xA8] @ '' 10 '' @ utf8 [0xE7, 0xA7, 0x92, 0xE5, 0x86, 0x85, 0xE6, 0x93, 0x8D, 0xE4, 0xBD, 0x9C, 0xEF, 0xBC, 0x89]
      else if hs_status r = HumanFailure then utf8 [0xE4, 0xBA, 0xA4, 0xE4, 0xBA, 0x92, 0xE5, 0xA4, 0xB1, 0xE8, 0xB4, 0xA5, 0xEF, 0xBC, 0x9A] @ hs_reason r
      else if hs_status r = HumanSuccess then
        (if hs_value r = ''brief'' then utf8 [0xE7, 0xAE, 0x80, 0xE8, 0xA6, 0x81, 0xE8, 0xAF, 0xB4, 0xE6, 0x98, 0x8E]
         else if hs_value r = ''steps'' then utf8 [0xE5, 0x88, 0x86, 0xE6, 0xAD, 0xA5, 0xE9, 0xAA, 0xA4, 0xE8, 0xAF, 0xB4, 0xE6, 0x98, 0x8E]
         else if hs_value r = ''examples'' then utf8 [0xE4, 0xB8, 0xBE, 0xE4, 0xBE, 0x8B, 0xE8, 0xAF, 0xB4, 0xE6, 0x98, 0x8E]
         else if hs_value r = ''accepted'' then utf8 [0xE5, 0xB7, 0xB2, 0xE7, 0xA1, 0xAE, 0xE8, 0xAE, 0xA4]
         else if hs_value r = ''declined'' then utf8 [0xE5, 0xB7, 0xB2, 0xE5, 0x8F, 0x96, 0xE6, 0xB6, 0x88]
         else hs_status r)
      else hs_status r)"

definition query_part :: "json \<Rightarrow> string list result" where
  "query_part b0 =
     bindR (need_struct b0) (\<lambda>b. bindR (jfield_str ''type'' b) (\<lambda>t. bindR (jfield_str ''content'' b) (\<lambda>c.
       Inr (if t = ''text'' \<and> c \<noteq> [] then [c] else []))))"

definition input_query :: "content \<Rightarrow> string result" where
  "input_query c =
     bindR (struct_blocks (c_val c)) (\<lambda>bs. bindR (mapR query_part bs) (\<lambda>ps. Inr (join_with newline (concat ps))))"

definition ask_prompt :: "string \<Rightarrow> string" where
  "ask_prompt query =
     utf8 [0xE5, 0x85, 0xB3, 0xE4, 0xBA, 0x8E, 0xE4, 0xBD, 0xA0, 0xE7, 0x9A, 0x84, 0xE9, 0x97, 0xAE, 0xE9,
        0xA2, 0x98, 0xEF, 0xBC, 0x9A] @
     query @ newline @
     utf8 [0xE4, 0xBD, 0xA0, 0xE5, 0xB8, 0x8C, 0xE6, 0x9C, 0x9B, 0xE4, 0xBB, 0xA5, 0xE5, 0x93, 0xAA, 0xE7,
        0xA7, 0x8D, 0xE6, 0x96, 0xB9, 0xE5, 0xBC, 0x8F, 0xE5, 0xA4, 0x84, 0xE7, 0x90, 0x86, 0xEF, 0xBC,
        0x9F]"

definition confirm_prompt :: "string \<Rightarrow> string" where
  "confirm_prompt choice =
     utf8 [0xE4, 0xBD, 0xA0, 0xE9, 0x80, 0x89, 0xE6, 0x8B, 0xA9, 0xE4, 0xBA, 0x86, 0xE3, 0x80, 0x8C] @
     choice @
     utf8 [0xE3, 0x80, 0x8D, 0xE3, 0x80, 0x82, 0xE6, 0x98, 0xAF, 0xE5, 0x90, 0xA6, 0xE7, 0xA1, 0xAE, 0xE8,
        0xAE, 0xA4, 0xE6, 0x8C, 0x89, 0xE8, 0xBF, 0x99, 0xE4, 0xB8, 0xAA, 0xE6, 0x96, 0xB9, 0xE5, 0xBC,
        0x8F, 0xE5, 0xA4, 0x84, 0xE7, 0x90, 0x86, 0xEF, 0xBC, 0x9F, 0xEF, 0xBC, 0x88, 0xE6, 0x9C, 0xAC,
        0xE4, 0xBE, 0x8B, 0xE5, 0x8F, 0xAA, 0xE6, 0xB1, 0x87, 0xE6, 0x80, 0xBB, 0xE4, 0xBA, 0xA4, 0xE4,
        0xBA, 0x92, 0xEF, 0xBC, 0x8C, 0xE4, 0xB8, 0x8D, 0xE8, 0xB0, 0x83, 0xE7, 0x94, 0xA8, 0xE6, 0xA8,
        0xA1, 0xE5, 0x9E, 0x8B, 0xE6, 0x88, 0x96, 0xE6, 0x89, 0xA7, 0xE8, 0xA1, 0x8C, 0xE5, 0xA4, 0x96,
        0xE9, 0x83, 0xA8, 0xE6, 0x93, 0x8D, 0xE4, 0xBD, 0x9C, 0xE3, 0x80, 0x82, 0xEF, 0xBC, 0x89]"

section \<open>Questions\<close>

definition style_choices :: "human_choice list" where
  "style_choices =
     [\<lparr>ch_value = ''brief'', ch_label = utf8 [0xE7, 0xAE, 0x80, 0xE8, 0xA6, 0x81, 0xE8, 0xAF, 0xB4, 0xE6, 0x98, 0x8E], ch_description = []\<rparr>,
      \<lparr>ch_value = ''steps'', ch_label = utf8 [0xE5, 0x88, 0x86, 0xE6, 0xAD, 0xA5, 0xE9, 0xAA, 0xA4, 0xE8, 0xAF, 0xB4, 0xE6, 0x98, 0x8E], ch_description = []\<rparr>,
      \<lparr>ch_value = ''examples'', ch_label = utf8 [0xE4, 0xB8, 0xBE, 0xE4, 0xBE, 0x8B, 0xE8, 0xAF, 0xB4, 0xE6, 0x98, 0x8E], ch_description = []\<rparr>]"

definition ten_seconds :: int where
  "ten_seconds = 10 * 1000000000"

definition style_question :: "string \<Rightarrow> cmessage \<Rightarrow> string \<Rightarrow> human_request" where
  "style_question conv m query =
     \<lparr>hq_conv = conv, hq_actor = interaction_actor,
      hq_target = \<lparr>ar_kind = ActorKindUser, ar_key = ar_key (cm_source m)\<rparr>, hq_reply_to = cm_id m,
      hq_effect = cm_id m @ ''/answer-style'', hq_type = ''ask'',
      hq_title = utf8 [0xE9, 0x80, 0x89, 0xE6, 0x8B, 0xA9, 0xE5, 0xA4, 0x84, 0xE7, 0x90, 0x86, 0xE6, 0x96, 0xB9, 0xE5,
        0xBC, 0x8F],
      hq_prompt = ask_prompt query, hq_timeout = ten_seconds, hq_choices = Some style_choices,
      hq_allow_other = False, hq_confirm = [], hq_decline = []\<rparr>"

definition consent_question :: "string \<Rightarrow> cmessage \<Rightarrow> string \<Rightarrow> human_request" where
  "consent_question conv m choice =
     \<lparr>hq_conv = conv, hq_actor = interaction_actor,
      hq_target = \<lparr>ar_kind = ActorKindUser, ar_key = ar_key (cm_source m)\<rparr>, hq_reply_to = cm_id m,
      hq_effect = cm_id m @ ''/confirm-style'', hq_type = ''confirm'',
      hq_title = utf8 [0xE7, 0xA1, 0xAE, 0xE8, 0xAE, 0xA4, 0xE5, 0xA4, 0x84, 0xE7, 0x90, 0x86, 0xE6, 0x96, 0xB9, 0xE5,
        0xBC, 0x8F],
      hq_prompt = confirm_prompt choice, hq_timeout = ten_seconds, hq_choices = None,
      hq_allow_other = False, hq_confirm = utf8 [0xE7, 0xA1, 0xAE, 0xE8, 0xAE, 0xA4],
      hq_decline = utf8 [0xE5, 0x8F, 0x96, 0xE6, 0xB6, 0x88]\<rparr>"

section \<open>The summary\<close>

definition summary_head :: "string \<Rightarrow> human_result \<Rightarrow> string list" where
  "summary_head query choice =
     [utf8 [0xE4, 0xBA, 0xA4, 0xE4, 0xBA, 0x92, 0xE7, 0xBB, 0x93, 0xE6, 0x9E, 0x9C],
      utf8 [0xE5, 0x8E, 0x9F, 0xE5, 0xA7, 0x8B, 0xE9, 0x97, 0xAE, 0xE9, 0xA2, 0x98, 0xEF, 0xBC, 0x9A] @ query,
      ''Ask'' @ utf8 [0xEF, 0xBC, 0x9A] @ ask_prompt query,
      utf8 [0xE4, 0xBD, 0xA0, 0xE7, 0x9A, 0x84, 0xE9, 0x80, 0x89, 0xE6, 0x8B, 0xA9, 0xEF, 0xBC, 0x9A] @ answer_of choice]"

definition confirmed_lines :: "human_result \<Rightarrow> human_result \<Rightarrow> string list" where
  "confirmed_lines choice decision =
     [''Confirm'' @ utf8 [0xEF, 0xBC, 0x9A] @ confirm_prompt (answer_of choice),
      utf8 [0xE4, 0xBD, 0xA0, 0xE7, 0x9A, 0x84, 0xE7, 0xA1, 0xAE, 0xE8, 0xAE, 0xA4, 0xEF, 0xBC, 0x9A] @ answer_of decision]"

definition unconfirmed_line :: string where
  "unconfirmed_line =
     ''Confirm'' @
     utf8 [0xEF, 0xBC, 0x9A, 0xE6, 0x9C, 0xAA, 0xE5, 0x8F, 0x91, 0xE8, 0xB5, 0xB7, 0xEF, 0xBC, 0x8C, 0xE5,
        0x9B, 0xA0, 0xE4, 0xB8, 0xBA] @
     '' Ask '' @
     utf8 [0xE6, 0x9C, 0xAA, 0xE5, 0xBE, 0x97, 0xE5, 0x88, 0xB0, 0xE9, 0x80, 0x89, 0xE6, 0x8B, 0xA9, 0xE3,
        0x80, 0x82]"

definition summary_content :: "string list \<Rightarrow> content" where
  "summary_content lines =
     marshal (JObj [(''biz'', JStr ''chat''),
       (''blocks'', JArr [JObj [(''content'', JStr (join_with (newline @ newline) lines)), (''id'', JStr ''answer''),
          (''type'', JStr ''text'')]]),
       (''meta'', JObj []), (''version'', JStr ''1.1'')])"

definition summary_speech :: "cmessage \<Rightarrow> string list \<Rightarrow> speak_request" where
  "summary_speech m lines =
     \<lparr>sr_status = [], sr_key = cm_id m @ ''/summary'', sr_actor = interaction_actor,
      sr_target = \<lparr>ar_kind = ActorKindUser, ar_key = ar_key (cm_source m)\<rparr>, sr_reply_to = cm_id m,
      sr_content = summary_content lines\<rparr>"

section \<open>A reconcile\<close>

text \<open>A question is asked and looked at once: the answer so far.\<close>

definition put_question :: "'w cards \<Rightarrow> human_request \<Rightarrow> ('w, human_result) eff" where
  "put_question P r = seqE (callE (cd_ask P r)) (\<lambda>i. callE (cd_get P i))"

text \<open>The lines of the summary, or nothing while a question is pending.\<close>

definition gather_answers :: "'w cards \<Rightarrow> string \<Rightarrow> cmessage \<Rightarrow> string \<Rightarrow> ('w, string list option) eff" where
  "gather_answers P conv m query =
     seqE (put_question P (style_question conv m query)) (\<lambda>choice.
       if \<not> human_terminal (hs_status choice) then retE None
       else if hs_status choice = HumanSuccess then
         seqE (put_question P (consent_question conv m (answer_of choice))) (\<lambda>decision.
           if \<not> human_terminal (hs_status decision) then retE None
           else retE (Some (summary_head query choice @ confirmed_lines choice decision)))
       else retE (Some (summary_head query choice @ [unconfirmed_line])))"

definition interact :: "'w cards \<Rightarrow> string \<Rightarrow> cmessage \<Rightarrow> ('w, bool) eff" where
  "interact P conv m =
     seqE (liftE (input_query (cm_content m))) (\<lambda>query.
     seqE (gather_answers P conv m query) (\<lambda>found.
       case found of
         None \<Rightarrow> retE True
       | Some lines \<Rightarrow> seqE (callE (cd_speak P conv (summary_speech m lines))) (\<lambda>_. retE False)))"

text \<open>When the conversation is looked at again: not before it changes, soon, or at once.\<close>

datatype revisit = WhenChanged | InASecond | AtOnce

definition user_utterance :: "cmessage \<Rightarrow> bool" where
  "user_utterance m \<longleftrightarrow> ar_kind (cm_source m) = ActorKindUser \<and> \<not> is_human_reply (cm_content m)"

definition take_input :: "'w cards \<Rightarrow> string \<Rightarrow> string \<Rightarrow> ('w, revisit) eff" where
  "take_input P conv through =
     seqE (callE (cd_commit P conv \<lparr>cr_actor = interaction_actor, cr_through = through\<rparr>)) (\<lambda>_. retE AtOnce)"

definition interaction_reconcile :: "'w cards \<Rightarrow> string \<Rightarrow> ('w, revisit) eff" where
  "interaction_reconcile P conv =
     seqE (callE (cd_poll P conv \<lparr>pr_actor = interaction_actor, pr_limit = 1, pr_after = []\<rparr>)) (\<lambda>inbox.
       case po_messages inbox of
         [] \<Rightarrow> retE WhenChanged
       | m # _ \<Rightarrow>
           if user_utterance m
           then seqE (interact P conv m) (\<lambda>pending. if pending then retE InASecond else take_input P conv (po_position inbox))
           else take_input P conv (po_position inbox))"

end
