(* ===== verification/InteractionProps.thy ===== *)
theory InteractionProps
  imports Interaction
begin

text \<open>
  The properties of the Interaction operator. A reconcile is observed through verbs that record
  every call: nothing is published before the questions have their answers, and nothing is committed
  before the summary is published.
\<close>

section \<open>Recording the calls\<close>

datatype card_call =
    PolledInbox "poll_result result"
  | Asked human_request "string result"
  | Looked string "human_result result"
  | Said speak_request bool
  | Took commit_request bool

definition noted ::
    "('a result \<Rightarrow> card_call) \<Rightarrow> ('w \<Rightarrow> 'a result \<times> 'w) \<Rightarrow> 'w \<times> card_call list
     \<Rightarrow> 'a result \<times> 'w \<times> card_call list" where
  "noted label f x = (case f (fst x) of (r, w) \<Rightarrow> (r, w, snd x @ [label r]))"

definition done_well :: "'a result \<Rightarrow> bool" where
  "done_well r = (case r of Inl _ \<Rightarrow> False | Inr _ \<Rightarrow> True)"

definition watched_cards :: "'w cards \<Rightarrow> ('w \<times> card_call list) cards" where
  "watched_cards P =
     \<lparr>cd_poll = (\<lambda>c q. noted PolledInbox (cd_poll P c q)),
      cd_ask = (\<lambda>q. noted (Asked q) (cd_ask P q)),
      cd_get = (\<lambda>i. noted (Looked i) (cd_get P i)),
      cd_speak = (\<lambda>c q. noted (\<lambda>r. Said q (done_well r)) (cd_speak P c q)),
      cd_commit = (\<lambda>c q. noted (\<lambda>r. Took q (done_well r)) (cd_commit P c q))\<rparr>"

lemma done_well_simps [simp]: "done_well (Inr x)" "\<not> done_well (Inl er)"
  by (simp_all add: done_well_def)

text \<open>A verb adds its call to the record.\<close>

lemma noted_eq [eff_simps]:
  "noted label f x = (r, y) \<longleftrightarrow> f (fst x) = (r, fst y) \<and> snd y = snd x @ [label r]"
  by (cases "f (fst x)"; cases y) (auto simp: noted_def)

lemmas card_verbs = watched_cards_def cards.simps

section \<open>Questions\<close>

text \<open>What asking and looking records.\<close>

fun about_question :: "card_call \<Rightarrow> bool" where
  "about_question (Asked q r) = True"
| "about_question (Looked i r) = True"
| "about_question c = False"

definition answer_calls :: "human_request \<Rightarrow> human_result \<Rightarrow> card_call list \<Rightarrow> bool" where
  "answer_calls q x cs \<longleftrightarrow> (\<exists>i. cs = [Asked q (Inr i), Looked i (Inr x)])"

lemma put_question_calls:
  assumes "put_question (watched_cards P) q x = Some (r, y)"
  shows "\<exists>cs. snd y = snd x @ cs \<and> list_all about_question cs \<and> (\<forall>v. r = Inr v \<longrightarrow> answer_calls q v cs)"
proof (cases r)
  case (Inl er)
  then show ?thesis using assms by (auto simp: put_question_def eff_simps card_verbs)
next
  case (Inr v)
  then show ?thesis using assms by (auto simp: put_question_def eff_simps card_verbs answer_calls_def)
qed

text \<open>Questions whose answers determine the lines of the summary.\<close>

definition settled_by :: "string \<Rightarrow> cmessage \<Rightarrow> string list \<Rightarrow> card_call list \<Rightarrow> bool" where
  "settled_by conv m lines cs \<longleftrightarrow>
     (\<exists>query choice a. input_query (cm_content m) = Inr query
        \<and> answer_calls (style_question conv m query) choice a \<and> human_terminal (hs_status choice)
        \<and> ((hs_status choice \<noteq> HumanSuccess \<and> cs = a \<and> lines = summary_head query choice @ [unconfirmed_line])
           \<or> (\<exists>decision b. hs_status choice = HumanSuccess \<and> cs = a @ b
                \<and> answer_calls (consent_question conv m (answer_of choice)) decision b
                \<and> human_terminal (hs_status decision)
                \<and> lines = summary_head query choice @ confirmed_lines choice decision)))"

lemma settled_unconfirmed:
  "input_query (cm_content m) = Inr query \<Longrightarrow> answer_calls (style_question conv m query) choice a
    \<Longrightarrow> human_terminal (hs_status choice) \<Longrightarrow> hs_status choice \<noteq> HumanSuccess
    \<Longrightarrow> settled_by conv m (summary_head query choice @ [unconfirmed_line]) a"
  unfolding settled_by_def by blast

lemma settled_confirmed:
  "input_query (cm_content m) = Inr query \<Longrightarrow> answer_calls (style_question conv m query) choice a
    \<Longrightarrow> human_terminal (hs_status choice) \<Longrightarrow> hs_status choice = HumanSuccess
    \<Longrightarrow> answer_calls (consent_question conv m (answer_of choice)) decision b
    \<Longrightarrow> human_terminal (hs_status decision)
    \<Longrightarrow> settled_by conv m (summary_head query choice @ confirmed_lines choice decision) (a @ b)"
  unfolding settled_by_def by blast

lemma gather_answers_calls:
  assumes "gather_answers (watched_cards P) conv m query x = Some (r, y)" and "input_query (cm_content m) = Inr query"
  shows "\<exists>cs. snd y = snd x @ cs \<and> list_all about_question cs \<and> (\<forall>lines. r = Inr (Some lines) \<longrightarrow> settled_by conv m lines cs)"
proof -
  obtain p s where p: "put_question (watched_cards P) (style_question conv m query) x = Some (p, s)"
    using assms(1) by (auto simp: gather_answers_def seqE_def split: option.splits)
  from put_question_calls [OF p] obtain a where a: "snd s = snd x @ a" "list_all about_question a"
    "\<And>v. p = Inr v \<Longrightarrow> answer_calls (style_question conv m query) v a" by blast
  show ?thesis
  proof (cases p)
    case (Inl er)
    then show ?thesis using assms(1) p a by (auto simp: gather_answers_def seqE_def)
  next
    case (Inr choice)
    show ?thesis
    proof (cases "human_terminal (hs_status choice) \<and> hs_status choice = HumanSuccess")
      case False
      then show ?thesis using assms p a Inr
        by (auto simp: gather_answers_def seqE_def [of "put_question _ _"] eff_simps split: if_splits intro: settled_unconfirmed)
    next
      case True
      then have "seqE (put_question (watched_cards P) (consent_question conv m (answer_of choice))) (\<lambda>decision.
           if \<not> human_terminal (hs_status decision) then retE None
           else retE (Some (summary_head query choice @ confirmed_lines choice decision))) s = Some (r, y)"
        (is "seqE ?m ?f s = _")
        using assms(1) p Inr by (simp add: gather_answers_def seqE_def human_terminal_def)
      moreover obtain p2 s2 where p2: "?m s = Some (p2, s2)"
        using calculation by (auto simp: seqE_def split: option.splits)
      moreover from put_question_calls [OF p2] obtain b where b: "snd s2 = snd s @ b" "list_all about_question b"
        "\<And>v. p2 = Inr v \<Longrightarrow> answer_calls (consent_question conv m (answer_of choice)) v b" by blast
      ultimately show ?thesis using a b True assms(2) Inr
        by (cases p2) (auto simp: seqE_def eff_simps split: if_splits intro: settled_confirmed)
    qed
  qed
qed

text \<open>What working on an utterance records: the questions, then the summary if they were settled.\<close>

lemma interact_calls:
  assumes "interact (watched_cards P) conv m x = Some (r, y)"
  shows "\<exists>qs. list_all about_question qs
    \<and> ((snd y = snd x @ qs \<and> (\<forall>pending. r = Inr pending \<longrightarrow> pending))
       \<or> (\<exists>lines ok. settled_by conv m lines qs \<and> snd y = snd x @ qs @ [Said (summary_speech m lines) ok]
            \<and> r = (if ok then Inr False else r) \<and> (\<not> ok \<longrightarrow> \<not> done_well r)))"
proof (cases "input_query (cm_content m)")
  case (Inl er)
  then have "r = Inl er \<and> y = x" using assms by (auto simp: interact_def seqE_def liftE_def)
  then show ?thesis by (intro exI [of _ "[]"]) simp
next
  case (Inr query)
  then obtain p s where p: "gather_answers (watched_cards P) conv m query x = Some (p, s)"
    using assms by (auto simp: interact_def liftE_def seqE_def split: option.splits)
  from gather_answers_calls [OF p Inr] obtain qs where qs: "snd s = snd x @ qs" "list_all about_question qs"
    "\<And>lines. p = Inr (Some lines) \<Longrightarrow> settled_by conv m lines qs" by blast
  have rest: "seqE (\<lambda>_. Some (p, s)) (\<lambda>found. case found of None \<Rightarrow> retE True
       | Some lines \<Rightarrow> seqE (callE (cd_speak (watched_cards P) conv (summary_speech m lines))) (\<lambda>_. retE False)) x
     = Some (r, y)"
    using assms Inr p by (simp add: interact_def liftE_def seqE_def)
  show ?thesis
  proof (cases "\<exists>lines. p = Inr (Some lines)")
    case False
    then have "y = s \<and> (\<forall>pending. r = Inr pending \<longrightarrow> pending)"
      using rest by (cases p) (auto simp: seqE_def retE_def split: option.splits)
    then show ?thesis using qs by blast
  next
    case True
    then obtain lines where lines: "p = Inr (Some lines)" ..
    obtain q v where q: "cd_speak (watched_cards P) conv (summary_speech m lines) s = (q, v)" by (rule prod.exhaust)
    then have v: "snd v = snd s @ [Said (summary_speech m lines) (done_well q)]"
      by (simp add: card_verbs eff_simps)
    moreover have "y = v" "r = (case q of Inl er \<Rightarrow> Inl er | Inr _ \<Rightarrow> Inr False)"
      using rest lines q by (auto simp: seqE_def callE_def retE_def split: sum.splits)
    ultimately show ?thesis using qs lines
      by (intro exI [of _ qs] conjI disjI2 exI [of _ lines] exI [of _ "done_well q"]) (auto split: sum.splits)
  qed
qed

section \<open>A reconcile\<close>

lemma take_input_calls:
  assumes "take_input (watched_cards P) conv through x = Some (r, y)"
  shows "\<exists>ok. snd y = snd x @ [Took \<lparr>cr_actor = interaction_actor, cr_through = through\<rparr> ok]
    \<and> (if ok then r = Inr AtOnce else \<not> done_well r)"
proof -
  obtain q v where q: "cd_commit (watched_cards P) conv \<lparr>cr_actor = interaction_actor, cr_through = through\<rparr> x = (q, v)"
    by (rule prod.exhaust)
  then have "snd v = snd x @ [Took \<lparr>cr_actor = interaction_actor, cr_through = through\<rparr> (done_well q)]"
    by (simp add: card_verbs eff_simps)
  moreover have "y = v" "r = (case q of Inl er \<Rightarrow> Inl er | Inr _ \<Rightarrow> Inr AtOnce)"
    using assms q by (auto simp: take_input_def seqE_def callE_def retE_def split: sum.splits)
  ultimately show ?thesis by (intro exI [of _ "done_well q"]) (auto split: sum.splits)
qed

text \<open>
  What may follow a poll: a publication only of the summary of an utterance, after the questions that
  settle it; a commit only of the polled position, after a successful publication or for an input that
  is no utterance.
\<close>

definition said_after_answers :: "string \<Rightarrow> poll_result result \<Rightarrow> card_call list \<Rightarrow> card_call list \<Rightarrow> bool" where
  "said_after_answers conv p qs ss \<longleftrightarrow> ss = []
     \<or> (\<exists>inbox m rest lines ok. p = Inr inbox \<and> po_messages inbox = m # rest \<and> user_utterance m
          \<and> settled_by conv m lines qs \<and> ss = [Said (summary_speech m lines) ok])"

definition taken_after_summary ::
    "poll_result result \<Rightarrow> card_call list \<Rightarrow> card_call list \<Rightarrow> card_call list \<Rightarrow> bool" where
  "taken_after_summary p qs ss cs \<longleftrightarrow> cs = []
     \<or> (\<exists>inbox m rest ok. p = Inr inbox \<and> po_messages inbox = m # rest
          \<and> cs = [Took \<lparr>cr_actor = interaction_actor, cr_through = po_position inbox\<rparr> ok]
          \<and> (if user_utterance m then \<exists>q. ss = [Said q True] else qs = [] \<and> ss = []))"

definition paced :: "string \<Rightarrow> poll_result result \<Rightarrow> revisit result \<Rightarrow> card_call list \<Rightarrow> bool" where
  "paced conv p r calls \<longleftrightarrow> (\<exists>qs ss cs. calls = qs @ ss @ cs \<and> list_all about_question qs
     \<and> said_after_answers conv p qs ss \<and> taken_after_summary p qs ss cs
     \<and> (r = Inr InASecond \<longrightarrow> ss = [] \<and> cs = []) \<and> (r = Inr AtOnce \<longleftrightarrow> (\<exists>q. cs = [Took q True])))"

lemma utterance_paced:
  assumes run: "seqE (interact (watched_cards P) conv m)
      (\<lambda>pending. if pending then retE InASecond else take_input (watched_cards P) conv (po_position inbox)) v = Some (r, y)"
    and inbox: "p = Inr inbox" "po_messages inbox = m # rest" "user_utterance m"
  shows "\<exists>calls. snd y = snd v @ calls \<and> paced conv p r calls"
proof -
  obtain q s where q: "interact (watched_cards P) conv m v = Some (q, s)"
    using run by (auto simp: seqE_def split: option.splits)
  from interact_calls [OF q] obtain qs where qs: "list_all about_question qs" and
    "(snd s = snd v @ qs \<and> (\<forall>pending. q = Inr pending \<longrightarrow> pending))
     \<or> (\<exists>lines ok. settled_by conv m lines qs \<and> snd s = snd v @ qs @ [Said (summary_speech m lines) ok]
          \<and> q = (if ok then Inr False else q) \<and> (\<not> ok \<longrightarrow> \<not> done_well q))" by blast
  then consider (waiting) "snd s = snd v @ qs" "\<forall>pending. q = Inr pending \<longrightarrow> pending"
    | (failed) lines where "settled_by conv m lines qs" "snd s = snd v @ qs @ [Said (summary_speech m lines) False]"
        "\<not> done_well q"
    | (told) lines where "settled_by conv m lines qs" "snd s = snd v @ qs @ [Said (summary_speech m lines) True]"
        "q = Inr False"
    by (metis (full_types))
  then show ?thesis
  proof cases
    case waiting
    then have "y = s" "r = Inr InASecond \<or> \<not> done_well r"
      using run q by (cases q; auto simp: seqE_def retE_def split: if_splits)+
    then show ?thesis using waiting qs unfolding paced_def
      by (intro exI [of _ qs] conjI exI [of _ qs] exI [of _ "[]"]) (auto simp: said_after_answers_def taken_after_summary_def)
  next
    case failed
    then obtain er where "q = Inl er" by (cases q) auto
    then have "y = s" "r = Inl er" using run q by (auto simp: seqE_def)
    then show ?thesis using failed qs inbox unfolding paced_def
      by (intro exI [of _ "qs @ [_]"] conjI exI [of _ qs] exI [of _ "[_]"] exI [of _ "[]"])
        (auto simp: said_after_answers_def taken_after_summary_def)
  next
    case told
    then have "take_input (watched_cards P) conv (po_position inbox) s = Some (r, y)" using run q by (simp add: seqE_def)
    from take_input_calls [OF this] obtain ok where
      "snd y = snd s @ [Took \<lparr>cr_actor = interaction_actor, cr_through = po_position inbox\<rparr> ok]"
      "if ok then r = Inr AtOnce else \<not> done_well r" by auto
    then show ?thesis using told qs inbox unfolding paced_def
      by (intro exI [of _ "qs @ [_, _]"] conjI exI [of _ qs] exI [of _ "[_]"] exI [of _ "[_]"])
        (auto simp: said_after_answers_def taken_after_summary_def split: if_splits)
  qed
qed

text \<open>
  C40: the Interaction operator publishes and commits only on answers. Whatever the verbs do, a reconcile
  polls once; it publishes only the summary of a user's utterance, and only after its choice was seen to
  be over and, where it was made, its confirmation too; a choice or confirmation that was cancelled or
  ran out is reported as such. It commits at most once, as the last call, the position it polled, and an
  utterance only after its summary was published. While a question is pending neither happens.
\<close>
theorem interaction_needs_answers:
  assumes "interaction_reconcile (watched_cards P) conv (w, []) = Some (r, w', tr)"
  shows "\<exists>p qs ss cs. tr = PolledInbox p # qs @ ss @ cs \<and> list_all about_question qs
    \<and> said_after_answers conv p qs ss \<and> taken_after_summary p qs ss cs
    \<and> (r = Inr InASecond \<longrightarrow> ss = [] \<and> cs = []) \<and> (r = Inr AtOnce \<longleftrightarrow> (\<exists>q. cs = [Took q True]))"
proof -
  let ?req = "\<lparr>pr_actor = interaction_actor, pr_limit = 1, pr_after = []\<rparr>"
  obtain p v where p: "cd_poll (watched_cards P) conv ?req (w, []) = (p, v)" by (rule prod.exhaust)
  then have v: "snd v = [PolledInbox p]" by (simp add: card_verbs eff_simps)
  show ?thesis
  proof (cases "\<exists>inbox m rest. p = Inr inbox \<and> po_messages inbox = m # rest")
    case False
    then have "(w', tr) = v" "r = (case p of Inl er \<Rightarrow> Inl er | Inr _ \<Rightarrow> Inr WhenChanged)"
      using assms p by (auto simp: interaction_reconcile_def seqE_def callE_def retE_def split: sum.splits list.splits)
    then show ?thesis using v
      by (intro exI [of _ p] exI [of _ "[]"]) (auto simp: said_after_answers_def taken_after_summary_def split: sum.splits)
  next
    case True
    then obtain inbox m rest where inbox: "p = Inr inbox" "po_messages inbox = m # rest" by blast
    show ?thesis
    proof (cases "user_utterance m")
      case False
      then have "take_input (watched_cards P) conv (po_position inbox) v = Some (r, w', tr)"
        using assms p inbox by (simp add: interaction_reconcile_def seqE_def callE_def)
      from take_input_calls [OF this] obtain ok where
        "tr = [PolledInbox p, Took \<lparr>cr_actor = interaction_actor, cr_through = po_position inbox\<rparr> ok]"
        "if ok then r = Inr AtOnce else \<not> done_well r" using v by auto
      then show ?thesis using inbox False
        by - (rule exI [of _ p], rule exI [of _ "[]"], rule exI [of _ "[]"],
            rule exI [of _ "[Took \<lparr>cr_actor = interaction_actor, cr_through = po_position inbox\<rparr> ok]"],
            auto simp: said_after_answers_def taken_after_summary_def split: if_splits)
    next
      case True
      have "seqE (interact (watched_cards P) conv m)
          (\<lambda>pending. if pending then retE InASecond else take_input (watched_cards P) conv (po_position inbox)) v
        = Some (r, w', tr)"
        using assms p inbox True by (simp add: interaction_reconcile_def seqE_def callE_def)
      from utterance_paced [OF this inbox True] obtain calls where "tr = PolledInbox p # calls" "paced conv p r calls"
        using v by auto
      then show ?thesis unfolding paced_def by blast
    qed
  qed
qed

section \<open>A reconcile of a cancelled question\<close>

definition demo_utterance :: cmessage where
  "demo_utterance = \<lparr>cm_id = ''m1'', cm_conv = ''c1'', cm_task = [], cm_source = \<lparr>ar_kind = ''user'', ar_key = ''u''\<rparr>,
     cm_target = interaction_actor, cm_reply_to = [], cm_status = ''completed'', cm_revision = 1,
     cm_content = Content (Some (JObj [(''blocks'', JArr [JObj [(''type'', JStr ''text''), (''content'', JStr ''q'')]])])) [],
     cm_created = 0, cm_updated = 0\<rparr>"

text \<open>Every question is answered with the given status.\<close>

definition demo_cards :: "string \<Rightarrow> nat cards" where
  "demo_cards status =
     \<lparr>cd_poll = (\<lambda>c q w. (Inr \<lparr>po_end_offset = [], po_committed = [], po_messages = [demo_utterance], po_position = ''m1''\<rparr>, w)),
      cd_ask = (\<lambda>q w. (Inr (hq_effect q), w)),
      cd_get = (\<lambda>i w. (Inr \<lparr>hs_message = demo_utterance, hs_reply = None, hs_status = status, hs_value = ''brief'',
                    hs_reason = [], hs_deadline = 0\<rparr>, w)),
      cd_speak = (\<lambda>c q w. (Inr (), w + 1)),
      cd_commit = (\<lambda>c q w. (Inr (), w))\<rparr>"

lemma demo_utterance_simps:
  "user_utterance demo_utterance" "input_query (cm_content demo_utterance) = Inr ''q''"
  by (simp_all add: user_utterance_def demo_utterance_def is_human_reply_def input_query_def struct_blocks_def query_part_def
      need_struct_def jfield_str_def is_struct_def)

lemma demo_reconcile:
  "\<exists>tr. interaction_reconcile (watched_cards (demo_cards HumanDismissed)) ''c1'' (0, []) = Some (Inr AtOnce, 1, tr) \<and> length tr = 5"
  by (simp add: interaction_reconcile_def interact_def gather_answers_def put_question_def take_input_def seqE_def callE_def
      retE_def liftE_def watched_cards_def noted_def demo_cards_def demo_utterance_simps human_terminal_def)

theorem interaction_needs_answers_witness:
  "\<exists>tr p qs ss q. interaction_reconcile (watched_cards (demo_cards HumanDismissed)) ''c1'' (0, []) = Some (Inr AtOnce, 1, tr)
     \<and> tr = PolledInbox p # qs @ ss @ [Took q True] \<and> length qs = 2 \<and> list_all about_question qs
     \<and> said_after_answers ''c1'' p qs ss \<and> taken_after_summary p qs ss [Took q True]"
proof -
  obtain tr where tr: "interaction_reconcile (watched_cards (demo_cards HumanDismissed)) ''c1'' (0, []) = Some (Inr AtOnce, 1, tr)"
    and n: "length tr = 5"
    using demo_reconcile by blast
  from interaction_needs_answers [OF tr] obtain p qs ss cs q where c: "tr = PolledInbox p # qs @ ss @ cs" "list_all about_question qs"
    "said_after_answers ''c1'' p qs ss" "taken_after_summary p qs ss cs" "cs = [Took q True]" by blast
  have "length ss \<le> 1" using c(3) by (auto simp: said_after_answers_def)
  moreover have "ss \<noteq> [] \<or> qs = []" using c(4,5) by (auto simp: taken_after_summary_def split: if_splits)
  ultimately have "length qs = 2" using n c(1,5) by (cases ss) auto
  then show ?thesis using tr c by blast
qed

end
