(* ===== verification/Api.thy ===== *)
theory Api
  imports Runner RuntimeClient "HOL-Library.Word"
begin

text \<open>
  The HTTP API (\<^verbatim>\<open>server/internal/api\<close>): one request of every route but the two event streams, from
  the decoded request to the answer and the state of the server after it. Routing, the transport
  and the JSON decoding of bodies are left out: a request is a constructor with its path and query
  parameters, and a body is absent, undecodable or a value.
\<close>

section \<open>The server\<close>

text \<open>\<open>dp_identity\<close> is the host's resolver of authenticated principals, if it has one; services that are not
  configured answer as unavailable.\<close>

record ('w, 'b) deployment =
  dp_env :: env
  dp_config :: config
  dp_kube :: "'w kube"
  dp_steps :: nat
  dp_bridge :: "'b bridge"
  dp_adapters :: "string \<Rightarrow> adapter option"
  dp_runs :: bool
  dp_poll :: bool
  dp_human :: bool
  dp_identity :: "(string \<Rightarrow> string result) option"

record ('w, 'b) server =
  sv_store :: store
  sv_kube :: 'w
  sv_bridge :: 'b
  sv_runner :: runner

section \<open>Requests\<close>

datatype 'a body = NoBody | Undecodable | Body 'a

definition decode_body :: "'a body \<Rightarrow> 'a result" where
  "decode_body b = (case b of Body x \<Rightarrow> Inr x | _ \<Rightarrow> Inl SvcInvalid)"

record registration_request =
  gr_name :: string
  gr_description :: string
  gr_lease :: int

record create_message_request =
  mr_speak :: speak_request
  mr_user_key :: string

record message_list_query =
  ql_limit :: string
  ql_watch :: string
  ql_after :: string
  ql_before :: string
  ql_order :: string
  ql_ids :: string
  ql_statuses :: "string list"

datatype request =
    SubmitRun "harness_run_request body"
  | ObserveRun string
  | CancelRun string
  | ListActors
  | RegisterOperator string "registration_request body"
  | RegisterHarness string "registration_request body"
  | CreateConversation string "string body"
  | ListConversations string string string string string
  | GetConversation string
  | GetMessageInfo string string
  | GetMessageContent string string
  | GetMessageBlocks string string string string
  | ListMessages string message_list_query
  | PollConversation string "poll_request body"
  | CommitConversation string "commit_request body"
  | PublishMessage string string "create_message_request body"
  | EmitEvent string "(content \<times> string) body"
  | CreateHuman string "human_request body"
  | GetHuman string
  | ReplyHuman string string string "human_reply body"

section \<open>Answers\<close>

datatype view =
    NoContent
  | CallView harness_call
  | ActorsView "actor list"
  | ActorView actor
  | ConversationView contract_conversation
  | ConversationsView "contract_conversation list"
  | InfoView message_info
  | MessageView cmessage
  | MessagesView "cmessage list"
  | PageView message_page
  | BlocksView block_page
  | BlockView nat json
  | InboxView poll_result
  | EventView string
  | HumanView human_result

datatype answer = Refused int string string | Answer int view

definition refuse :: "env \<Rightarrow> err \<Rightarrow> answer" where
  "refuse e er = (case api_status er of (status, t) \<Rightarrow> Refused status t (e_err_text e er))"

definition respond :: "env \<Rightarrow> int \<Rightarrow> ('a \<Rightarrow> view) \<Rightarrow> 'a result \<Rightarrow> answer" where
  "respond e status f r = (case r of Inl er \<Rightarrow> refuse e er | Inr x \<Rightarrow> Answer status (f x))"

section \<open>Query parameters\<close>

definition query_limit :: "string \<Rightarrow> int result" where
  "query_limit value =
     (if value = [] then Inr 100
      else case atoi value of
        None \<Rightarrow> Inl SvcInvalid
      | Some n \<Rightarrow> if n \<le> 0 then Inl SvcInvalid else Inr n)"

definition watch_item :: "string \<Rightarrow> (string \<times> nat) result" where
  "watch_item item =
     (case cut_at CHR '':'' item of
        None \<Rightarrow> Inl SvcInvalid
      | Some (i, revision) \<Rightarrow>
          if i = [] then Inl SvcInvalid
          else (case parse_uint64 revision of None \<Rightarrow> Inl SvcInvalid | Some n \<Rightarrow> Inr (i, n)))"

definition parse_message_watch :: "string \<Rightarrow> (string \<times> nat) list result" where
  "parse_message_watch raw =
     (let items = split_at CHR '','' raw
      in if 100 < length items then Inl SvcInvalid
         else bindR (mapR watch_item items) (\<lambda>kvs. Inr (fold (\<lambda>(i, n) acc. al_set i n acc) kvs [])))"

definition list_query :: "message_list_query \<Rightarrow> int \<Rightarrow> message_query" where
  "list_query q limit =
     \<lparr>mq_ids = (if ql_ids q = [] then [] else split_at CHR '','' (ql_ids q)),
      mq_before = ql_before q, mq_after = ql_after q, mq_order = ql_order q, mq_limit = limit,
      mq_statuses = ql_statuses q\<rparr>"

definition list_messages_view :: "env \<Rightarrow> string \<Rightarrow> message_list_query \<Rightarrow> store \<Rightarrow> view result" where
  "list_messages_view e conv q s =
     bindR (query_limit (ql_limit q)) (\<lambda>limit.
       if ql_watch q \<noteq> [] then
         bindR (parse_message_watch (ql_watch q)) (\<lambda>revisions.
         bindR (message_changes e conv revisions s) (\<lambda>ms. Inr (MessagesView ms)))
       else bindR (query_page conv (list_query q limit) s) (\<lambda>p. Inr (PageView p)))"

definition blocks_view :: "env \<Rightarrow> string \<Rightarrow> string \<Rightarrow> string \<Rightarrow> string \<Rightarrow> store \<Rightarrow> view result" where
  "blocks_view e conv i block cursor s =
     bindR (message_blocks e conv i block cursor s) (\<lambda>page.
       if block = [] then Inr (BlocksView page)
       else case bp_data page of
         [] \<Rightarrow> Inl GoPanic
       | b # _ \<Rightarrow> Inr (BlockView (bp_revision page) b))"

definition list_conversations_view :: "string \<Rightarrow> string \<Rightarrow> string \<Rightarrow> string \<Rightarrow> string \<Rightarrow> store \<Rightarrow> view result" where
  "list_conversations_view parent kind key before limit s =
     (if parent \<noteq> [] then bindR (svc_find_actor_conversation parent kind key s) (\<lambda>cs. Inr (ConversationsView cs))
      else bindR (query_limit limit) (\<lambda>n. Inr (ConversationsView (svc_list_conversations before n s))))"

text \<open>\<^verbatim>\<open>time.Duration(seconds) * time.Second\<close> is a 64-bit product.\<close>

definition seconds_duration :: "int \<Rightarrow> int" where
  "seconds_duration n = sint (word_of_int n * 1000000000 :: 64 word)"

section \<open>Identity\<close>

text \<open>
  The principal of a request. Without a resolver it is the digest of an opaque browser cookie; a request
  without a well-formed one gets the freshly drawn \<open>token\<close>, which the answer sets as its cookie.
\<close>

definition hex_char :: "char \<Rightarrow> bool" where
  "hex_char c \<longleftrightarrow> c \<in> set ''0123456789abcdefABCDEF''"

definition browser_token :: "string \<Rightarrow> string \<Rightarrow> string" where
  "browser_token token cookie = (if length cookie = 64 \<and> list_all hex_char cookie then cookie else token)"

definition identity :: "('w, 'b) deployment \<Rightarrow> string \<Rightarrow> string \<Rightarrow> string result" where
  "identity D token cookie =
     (case dp_identity D of
        Some known \<Rightarrow> known cookie
      | None \<Rightarrow> Inr (''human-'' @ e_sha (dp_env D) (browser_token token cookie)))"

section \<open>Handlers\<close>

definition submit_handler ::
    "('w, 'b) deployment \<Rightarrow> int \<Rightarrow> harness_run_request body \<Rightarrow> ('w, 'b) server \<Rightarrow> answer \<times> ('w, 'b) server" where
  "submit_handler D now b sv =
     (if \<not> dp_runs D then (refuse (dp_env D) SvcUnavailable, sv)
      else case decode_body b of
        Inl er \<Rightarrow> (refuse (dp_env D) er, sv)
      | Inr r \<Rightarrow>
          (case svc_submit_run (dp_env D) (dp_config D) now (dp_adapters D) (dp_bridge D) r
                  (sv_store sv) (sv_runner sv) (sv_bridge sv) of
             (res, s, rn, br) \<Rightarrow>
               (respond (dp_env D) 202 CallView res, sv\<lparr>sv_store := s, sv_runner := rn, sv_bridge := br\<rparr>)))"

text \<open>A write of the store that fails changes nothing.\<close>

definition store_handler ::
    "('w, 'b) deployment \<Rightarrow> int \<Rightarrow> ('a \<Rightarrow> view) \<Rightarrow> (store \<Rightarrow> ('a \<times> store) result) \<Rightarrow> ('w, 'b) server
     \<Rightarrow> answer \<times> ('w, 'b) server" where
  "store_handler D status f body sv =
     (case body (sv_store sv) of
        Inl er \<Rightarrow> (refuse (dp_env D) er, sv)
      | Inr (x, s) \<Rightarrow> (Answer status (f x), sv\<lparr>sv_store := s\<rparr>))"

definition register_handler ::
    "('w, 'b) deployment \<Rightarrow> (string \<Rightarrow> string \<Rightarrow> string \<Rightarrow> int \<Rightarrow> store \<Rightarrow> (actor \<times> store) result)
     \<Rightarrow> string \<Rightarrow> registration_request body \<Rightarrow> ('w, 'b) server \<Rightarrow> answer \<times> ('w, 'b) server" where
  "register_handler D reg key b = store_handler D 200 ActorView (\<lambda>s.
     bindR (decode_body b) (\<lambda>r. reg key (gr_name r) (gr_description r) (seconds_duration (gr_lease r)) s))"

definition create_conversation_handler ::
    "('w, 'b) deployment \<Rightarrow> int \<Rightarrow> string \<Rightarrow> string \<Rightarrow> string body \<Rightarrow> ('w, 'b) server \<Rightarrow> answer \<times> ('w, 'b) server" where
  "create_conversation_handler D now token cookie b = store_handler D 201 ConversationView (\<lambda>s.
     bindR (decode_body b) (\<lambda>name.
     bindR (identity D token cookie) (\<lambda>user. svc_create_conversation (dp_env D) now name user s)))"

definition poll_handler ::
    "('w, 'b) deployment \<Rightarrow> string \<Rightarrow> poll_request body \<Rightarrow> ('w, 'b) server \<Rightarrow> answer \<times> ('w, 'b) server" where
  "poll_handler D conv b sv =
     (if \<not> dp_poll D then (refuse (dp_env D) SvcUnavailable, sv)
      else case decode_body b of
        Inl er \<Rightarrow> (refuse (dp_env D) er, sv)
      | Inr r \<Rightarrow>
          (case svc_poll (dp_env D) (dp_kube D) (dp_steps D) conv r (sv_store sv) (sv_kube sv) of
             (res, w) \<Rightarrow> (respond (dp_env D) 200 InboxView res, sv\<lparr>sv_kube := w\<rparr>)))"

definition commit_handler ::
    "('w, 'b) deployment \<Rightarrow> string \<Rightarrow> commit_request body \<Rightarrow> ('w, 'b) server \<Rightarrow> answer \<times> ('w, 'b) server" where
  "commit_handler D conv b sv =
     (if \<not> dp_poll D then (refuse (dp_env D) SvcUnavailable, sv)
      else case decode_body b of
        Inl er \<Rightarrow> (refuse (dp_env D) er, sv)
      | Inr r \<Rightarrow>
          (case svc_commit (dp_kube D) (dp_steps D) conv r (sv_kube sv) of
             (res, w) \<Rightarrow> (respond (dp_env D) 204 (\<lambda>_. NoContent) res, sv\<lparr>sv_kube := w\<rparr>)))"

text \<open>
  \<^verbatim>\<open>publishMessage\<close>: a user's message is attributed to the request's identity when the Human service is
  configured, and otherwise to the key it submits; other actors publish under their own name.
\<close>

definition by_user :: "create_message_request \<Rightarrow> bool" where
  "by_user r \<longleftrightarrow> ar_kind (sr_actor (mr_speak r)) = [] \<or> ar_kind (sr_actor (mr_speak r)) = ActorKindUser"

definition publishing_user ::
    "('w, 'b) deployment \<Rightarrow> string \<Rightarrow> string \<Rightarrow> create_message_request \<Rightarrow> string result" where
  "publishing_user D token cookie r =
     (if dp_human D then identity D token cookie
      else Inr (if ar_key (sr_actor (mr_speak r)) = [] then mr_user_key r else ar_key (sr_actor (mr_speak r))))"

definition publish_user ::
    "('w, 'b) deployment \<Rightarrow> int \<Rightarrow> string \<Rightarrow> string \<Rightarrow> string \<Rightarrow> create_message_request \<Rightarrow> ('w, 'b) server
     \<Rightarrow> answer \<times> ('w, 'b) server" where
  "publish_user D now token conv cookie r sv =
     (if sr_status (mr_speak r) \<noteq> [] \<and> sr_status (mr_speak r) \<noteq> MessageStatusCompleted
      then (refuse (dp_env D) SvcInvalid, sv)
      else case publishing_user D token cookie r of
        Inl er \<Rightarrow> (refuse (dp_env D) er, sv)
      | Inr user \<Rightarrow>
          (case chat_create (dp_env D) (dp_config D) now (dp_kube D) (dp_steps D) conv user
                  (sr_target (mr_speak r)) (sr_content (mr_speak r)) (sv_store sv) (sv_kube sv) of
             (res, s, w) \<Rightarrow>
               (respond (dp_env D) 200 (\<lambda>m. InfoView (info m)) res, sv\<lparr>sv_store := s, sv_kube := w\<rparr>)))"

definition publish_handler ::
    "('w, 'b) deployment \<Rightarrow> int \<Rightarrow> string \<Rightarrow> string \<Rightarrow> string \<Rightarrow> create_message_request body \<Rightarrow> ('w, 'b) server
     \<Rightarrow> answer \<times> ('w, 'b) server" where
  "publish_handler D now token conv cookie b sv =
     (case decode_body b of
        Inl er \<Rightarrow> (refuse (dp_env D) er, sv)
      | Inr r \<Rightarrow>
          if by_user r then publish_user D now token conv cookie r sv
          else store_handler D 200 (\<lambda>m. InfoView (info m))
                 (publish (dp_env D) (dp_config D) now conv (mr_speak r)) sv)"

definition emit_handler ::
    "('w, 'b) deployment \<Rightarrow> int \<Rightarrow> string \<Rightarrow> (content \<times> string) body \<Rightarrow> ('w, 'b) server
     \<Rightarrow> answer \<times> ('w, 'b) server" where
  "emit_handler D now i b sv =
     (case decode_body b of
        Inl er \<Rightarrow> (refuse (dp_env D) er, sv)
      | Inr (event, status) \<Rightarrow>
          (case emit_message (dp_env D) (dp_config D) now (dp_bridge D) i event [status] (sv_store sv) (sv_bridge sv) of
             (res, s, br) \<Rightarrow> (respond (dp_env D) 202 EventView res, sv\<lparr>sv_store := s, sv_bridge := br\<rparr>)))"

definition create_human_body ::
    "('w, 'b) deployment \<Rightarrow> int \<Rightarrow> string \<Rightarrow> human_request body \<Rightarrow> store \<Rightarrow> (human_result \<times> store) result" where
  "create_human_body D now conv b s =
     (if \<not> dp_human D then Inl SvcUnavailable
      else bindR (decode_body b) (\<lambda>r.
        if hq_conv r \<noteq> [] \<and> hq_conv r \<noteq> conv then Inl SvcInvalid
        else svc_create_human (dp_env D) (dp_config D) now (r\<lparr>hq_conv := conv\<rparr>) s))"

definition reply_handler ::
    "('w, 'b) deployment \<Rightarrow> int \<Rightarrow> string \<Rightarrow> string \<Rightarrow> string \<Rightarrow> string \<Rightarrow> human_reply body \<Rightarrow> ('w, 'b) server
     \<Rightarrow> answer \<times> ('w, 'b) server" where
  "reply_handler D now token conv cookie content_type b sv =
     (if \<not> dp_human D then (refuse (dp_env D) SvcUnavailable, sv)
      else if content_type \<noteq> ''application/json'' then (refuse (dp_env D) SvcInvalid, sv)
      else case bindR (identity D token cookie) (\<lambda>user.
                  if user = [] then Inl ErrForbidden else bindR (decode_body b) (\<lambda>r. Inr (user, r))) of
        Inl er \<Rightarrow> (refuse (dp_env D) er, sv)
      | Inr (user, r) \<Rightarrow>
          (case svc_reply_human (dp_env D) (dp_config D) now conv user r (sv_store sv) of
             (res, s) \<Rightarrow> (respond (dp_env D) 200 HumanView res, sv\<lparr>sv_store := s\<rparr>)))"

section \<open>Routes\<close>

definition reads :: "('w, 'b) deployment \<Rightarrow> view result \<Rightarrow> ('w, 'b) server \<Rightarrow> answer \<times> ('w, 'b) server" where
  "reads D r sv = (respond (dp_env D) 200 (\<lambda>v. v) r, sv)"

definition available_runs :: "('w, 'b) deployment \<Rightarrow> 'a result \<Rightarrow> 'a result" where
  "available_runs D r = (if dp_runs D then r else Inl SvcUnavailable)"

text \<open>One request at time \<open>now\<close>; \<open>token\<close> is the random token it may draw.\<close>

fun serve ::
    "('w, 'b) deployment \<Rightarrow> int \<Rightarrow> string \<Rightarrow> request \<Rightarrow> ('w, 'b) server \<Rightarrow> answer \<times> ('w, 'b) server" where
  "serve D now token (SubmitRun b) sv = submit_handler D now b sv"
| "serve D now token (ObserveRun i) sv =
     reads D (available_runs D (bindR (svc_get_run i (sv_store sv)) (\<lambda>c. Inr (CallView c)))) sv"
| "serve D now token (CancelRun i) sv =
     store_handler D 202 (\<lambda>_. NoContent)
       (\<lambda>s. available_runs D (bindR (svc_cancel_run now i s) (\<lambda>s1. Inr ((), s1)))) sv"
| "serve D now token ListActors sv = reads D (Inr (ActorsView (list_actors now (sv_store sv)))) sv"
| "serve D now token (RegisterOperator key b) sv =
     register_handler D (svc_register_operator (dp_env D) now) key b sv"
| "serve D now token (RegisterHarness key b) sv =
     register_handler D (svc_register_harness (dp_env D) now) key b sv"
| "serve D now token (CreateConversation cookie b) sv = create_conversation_handler D now token cookie b sv"
| "serve D now token (ListConversations parent kind key before limit) sv =
     reads D (list_conversations_view parent kind key before limit (sv_store sv)) sv"
| "serve D now token (GetConversation i) sv =
     reads D (bindR (get_conversation i (sv_store sv)) (\<lambda>c. Inr (ConversationView (conversation_from_model c)))) sv"
| "serve D now token (GetMessageInfo conv i) sv =
     reads D (bindR (svc_message_info conv i (sv_store sv)) (\<lambda>m. Inr (InfoView m))) sv"
| "serve D now token (GetMessageContent conv i) sv =
     reads D (bindR (svc_message_snapshot (dp_env D) conv i (sv_store sv)) (\<lambda>m. Inr (MessageView m))) sv"
| "serve D now token (GetMessageBlocks conv i block cursor) sv =
     reads D (blocks_view (dp_env D) conv i block cursor (sv_store sv)) sv"
| "serve D now token (ListMessages conv q) sv = reads D (list_messages_view (dp_env D) conv q (sv_store sv)) sv"
| "serve D now token (PollConversation conv b) sv = poll_handler D conv b sv"
| "serve D now token (CommitConversation conv b) sv = commit_handler D conv b sv"
| "serve D now token (PublishMessage conv cookie b) sv = publish_handler D now token conv cookie b sv"
| "serve D now token (EmitEvent i b) sv = emit_handler D now i b sv"
| "serve D now token (CreateHuman conv b) sv = store_handler D 200 HumanView (create_human_body D now conv b) sv"
| "serve D now token (GetHuman i) sv =
     store_handler D 200 HumanView
       (\<lambda>s. if dp_human D then get_human (dp_env D) (dp_config D) now i s else Inl SvcUnavailable) sv"
| "serve D now token (ReplyHuman conv cookie content_type b) sv = reply_handler D now token conv cookie content_type b sv"

end
