(* ===== verification/ApiProps.thy ===== *)
theory ApiProps
  imports RunnerProps Api
begin

text \<open>
  The properties of the HTTP API: what a request does to the database is a sequence of transactions
  of the repository, and a key a client submits is not a credential.
\<close>

section \<open>Requests are transactions\<close>

lemma reaches_draw: "reaches e cf s (draw s)"
  by (rule reaches_step) (rule repo_step.drawn)

lemma reaches_from: "repo_step e cf now (draw s) s' \<Longrightarrow> reaches e cf s s'"
  by (rule rtranclp_trans [OF reaches_draw]) (rule reaches_step)

lemma publish_reaches:
  assumes "publish e cf now conv r s = Inr (m, s')"
  shows "reaches e cf s s'"
  using assms by (auto simp: publish_def Let_def bindR_eq_Inr split: if_splits intro!: reaches_step [where now = now] intro: repo_step.speak)

lemma notify_reaches:
  assumes "notify e K steps m s w = (r, s', w')"
  shows "reaches e cf s s'"
proof -
  have "s' = s \<or> s' = acknowledge_dispatch (m_id m) s"
    using assms by (auto simp: notify_def split: sum.splits prod.splits)
  then show ?thesis using reaches_step [OF repo_step.dispatched] by auto
qed

lemma chat_create_cases:
  assumes "chat_create e cf now K steps conv user target content s w = (res, s', w')"
  shows "(s' = s \<and> (\<exists>er. res = Inl er))
    \<or> (\<exists>m s2. create_chat_input e cf now (chat_input conv (trim_space user) (target\<lparr>ar_key := trim_space (ar_key target)\<rparr>)
                content (fresh_id e s) (fresh_id e (draw s))) (draw (draw s)) = Inr (m, s2)
         \<and> res = Inr (message_from_model m) \<and> (\<exists>r. notify e K steps m s2 w = (r, s', w')))"
  using assms
  by (auto simp: chat_create_def Let_def split: if_splits sum.splits prod.splits)

lemma chat_create_reaches:
  assumes "chat_create e cf now K steps conv user target content s w = (res, s', w')"
  shows "reaches e cf s s'"
  using chat_create_cases [OF assms]
proof
  assume "\<exists>m s2. create_chat_input e cf now (chat_input conv (trim_space user) (target\<lparr>ar_key := trim_space (ar_key target)\<rparr>)
                content (fresh_id e s) (fresh_id e (draw s))) (draw (draw s)) = Inr (m, s2)
         \<and> res = Inr (message_from_model m) \<and> (\<exists>r. notify e K steps m s2 w = (r, s', w'))"
  then obtain m s2 r where c: "create_chat_input e cf now (chat_input conv (trim_space user) (target\<lparr>ar_key := trim_space (ar_key target)\<rparr>)
                content (fresh_id e s) (fresh_id e (draw s))) (draw (draw s)) = Inr (m, s2)"
    and n: "notify e K steps m s2 w = (r, s', w')" by blast
  have "reaches e cf s s2"
    by (rule rtranclp_trans [OF reaches_draw]) (rule reaches_from, rule repo_step.chat [OF c])
  then show ?thesis using notify_reaches [OF n] by (rule rtranclp_trans)
qed auto

lemma emit_message_reaches:
  assumes "emit_message e cf now B i data statuses s b = (r, s', b')"
  shows "reaches e cf s s'"
proof -
  have "s' = s \<or> (\<exists>ev st. project_output e cf now i ev st s = Inr s')"
    using assms by (auto simp: emit_message_def split: sum.splits option.splits prod.splits)
  then show ?thesis by (auto intro: reaches_step repo_step.project)
qed

lemma register_reaches:
  "svc_register_operator e now key name description lease s = Inr (a, s') \<Longrightarrow> reaches e cf s s'"
  "svc_register_harness e now key name description lease s = Inr (a, s') \<Longrightarrow> reaches e cf s s'"
  by (auto simp: svc_register_operator_def svc_register_harness_def bindR_eq_Inr
      intro: reaches_from repo_step.operator repo_step.harness)

lemma create_conversation_reaches:
  "svc_create_conversation e now name user s = Inr (c, s') \<Longrightarrow> reaches e cf s s'"
  by (auto simp: svc_create_conversation_def bindR_eq_Inr split: if_splits intro: reaches_from repo_step.conversation)

lemma submit_reaches:
  assumes "svc_submit_run e cf now adapters B r s rn b = (res, s', rn', b')"
  shows "reaches e cf s s'"
proof -
  have "s' = s \<or> (\<exists>run. create_harness_run e cf now (run_request_defaults r)
      (\<lambda>i. guardR (reserve i rn \<noteq> None) ErrHarnessCapacity) s = Inr (run, s'))"
    using assms by (auto simp: svc_submit_run_def submit_run_def split: if_splits sum.splits prod.splits)
  then show ?thesis by (auto intro: reaches_step repo_step.create)
qed

text \<open>A handler that writes the store by one operation.\<close>

lemma store_handler_reaches:
  assumes "store_handler D status f body sv = (a, sv')"
    and "\<And>x s. body (sv_store sv) = Inr (x, s) \<Longrightarrow> reaches e cf (sv_store sv) s"
  shows "reaches e cf (sv_store sv) (sv_store sv')"
  using assms by (auto simp: store_handler_def split: sum.splits prod.splits)

lemma publish_user_reaches:
  assumes "publish_user D now token conv cookie r sv = (a, sv')"
  shows "reaches (dp_env D) (dp_config D) (sv_store sv) (sv_store sv')"
  using assms by (auto simp: publish_user_def split: if_splits sum.splits prod.splits intro: chat_create_reaches)

lemma create_human_reaches:
  assumes "create_human_body D now conv b s = Inr (x, s')"
  shows "reaches (dp_env D) (dp_config D) s s'"
proof -
  obtain r where b: "b = Body r" and r: "svc_create_human (dp_env D) (dp_config D) now (r\<lparr>hq_conv := conv\<rparr>) s = Inr (x, s')"
    using assms by (auto simp: create_human_body_def bindR_eq_Inr decode_body_def split: if_splits body.splits)
  have "create_human (dp_env D) (dp_config D) now (r\<lparr>hq_conv := conv\<rparr>) s = Inr (x, s')"
    using r by (auto simp: svc_create_human_def split: sum.splits)
  then show ?thesis using reaches_step [OF repo_step.question] by fastforce
qed

lemma reply_reaches:
  assumes "reply_handler D now token conv cookie ct b sv = (a, sv')"
  shows "reaches (dp_env D) (dp_config D) (sv_store sv) (sv_store sv')"
proof -
  have "sv_store sv' = sv_store sv \<or> (\<exists>user r res. b = Body r
      \<and> svc_reply_human (dp_env D) (dp_config D) now conv user r (sv_store sv) = (res, sv_store sv'))"
    using assms by (auto simp: reply_handler_def bindR_eq_Inr decode_body_def split: if_splits sum.splits prod.splits body.splits)
  then show ?thesis
  proof
    assume "\<exists>user r res. b = Body r \<and> svc_reply_human (dp_env D) (dp_config D) now conv user r (sv_store sv) = (res, sv_store sv')"
    then obtain user r res where b: "b = Body r"
      and c: "svc_reply_human (dp_env D) (dp_config D) now conv user r (sv_store sv) = (res, sv_store sv')" by blast
    have "sv_store sv' = sv_store sv
        \<or> (\<exists>y. reply_human (dp_env D) (dp_config D) now conv user r (sv_store sv) = (y, sv_store sv'))"
      using c by (auto simp: svc_reply_human_def split: if_splits sum.splits prod.splits)
    then show ?thesis using reaches_step [OF repo_step.reply] by auto
  qed simp
qed

lemma serve_reaches:
  assumes "serve D now token rq sv = (a, sv')"
  shows "reaches (dp_env D) (dp_config D) (sv_store sv) (sv_store sv')"
proof (cases rq)
  case (SubmitRun b)
  then show ?thesis using assms
    by (auto simp: submit_handler_def split: if_splits sum.splits prod.splits intro: submit_reaches)
next
  case (CancelRun i)
  then show ?thesis using assms
    by (auto elim!: store_handler_reaches simp: available_runs_def svc_cancel_run_def bindR_eq_Inr split: if_splits
        intro: reaches_step [OF repo_step.cancel])
next
  case (RegisterOperator key b)
  then show ?thesis using assms
    by (auto elim!: store_handler_reaches simp: register_handler_def bindR_eq_Inr intro: register_reaches)
next
  case (RegisterHarness key b)
  then show ?thesis using assms
    by (auto elim!: store_handler_reaches simp: register_handler_def bindR_eq_Inr intro: register_reaches)
next
  case (CreateConversation cookie b)
  then show ?thesis using assms
    by (auto elim!: store_handler_reaches simp: create_conversation_handler_def bindR_eq_Inr
        intro: create_conversation_reaches)
next
  case (PublishMessage conv cookie b)
  then show ?thesis using assms
    by (auto simp: publish_handler_def split: if_splits sum.splits
        intro: publish_user_reaches store_handler_reaches [OF _ publish_reaches])
next
  case (EmitEvent i b)
  then show ?thesis using assms
    by (auto simp: emit_handler_def split: sum.splits prod.splits intro: emit_message_reaches)
next
  case (PollConversation conv b)
  then show ?thesis using assms by (auto simp: poll_handler_def split: if_splits sum.splits prod.splits)
next
  case (CommitConversation conv b)
  then show ?thesis using assms by (auto simp: commit_handler_def split: if_splits sum.splits prod.splits)
next
  case (CreateHuman conv b)
  then show ?thesis using assms by (auto elim!: store_handler_reaches intro: create_human_reaches)
next
  case (GetHuman i)
  then show ?thesis using assms
    by (auto elim!: store_handler_reaches split: if_splits intro: reaches_step [OF repo_step.observed])
next
  case (ReplyHuman conv cookie ct b)
  then show ?thesis using assms reply_reaches by simp
qed (use assms in \<open>auto simp: reads_def\<close>)

text \<open>A refused request leaves the database as it was; a late reply commits the timeout it observed.\<close>

fun replies :: "request \<Rightarrow> bool" where
  "replies (ReplyHuman conv cookie ct b) = True"
| "replies rq = False"

lemma emit_refused:
  assumes "emit_message e cf now B i data statuses s b = (Inl er, s', b')"
  shows "s' = s"
proof (rule ccontr)
  assume ne: "s' \<noteq> s"
  then obtain ev st er' where p: "project_output e cf now i ev st s = Inr s'" and g: "get_message_state i s' = Inl er'"
    using assms by (auto simp: emit_message_def split: sum.splits option.splits prod.splits)
  obtain status where "project_event e cf now i ev status False s = Inr s'"
    using p by (auto simp: project_output_def bindR_eq_Inr)
  from project_event_cases [OF this] obtain m where "get_msg i s' = Some m"
    by (auto simp: output_accepted_def)
  then show False using g by (simp add: get_message_state_def mapped_def option_or_def)
qed

lemma store_handler_refused: "store_handler D status f body sv = (Refused st t txt, sv') \<Longrightarrow> sv' = sv"
  by (auto simp: store_handler_def split: sum.splits prod.splits)

lemma respond_refused: "respond e status f r = Refused st t txt \<Longrightarrow> \<exists>er. r = Inl er"
  by (auto simp: respond_def split: sum.splits)

lemma chat_create_refused: "chat_create e cf now K steps conv user target content s w = (Inl er, s', w') \<Longrightarrow> s' = s"
  by (auto dest: chat_create_cases)

lemma submit_refused: "svc_submit_run e cf now adapters B r s rn b = (Inl er, s', rn', b') \<Longrightarrow> s' = s"
  by (auto simp: svc_submit_run_def submit_run_def split: if_splits sum.splits prod.splits)

lemma publish_user_refused:
  assumes "publish_user D now token conv cookie r sv = (Refused st t txt, sv')"
  shows "sv_store sv' = sv_store sv"
  using assms by (auto simp: publish_user_def split: if_splits sum.splits prod.splits
      dest!: respond_refused intro: chat_create_refused)

lemma serve_refused:
  assumes "serve D now token rq sv = (Refused st t txt, sv')" and "\<not> replies rq"
  shows "sv_store sv' = sv_store sv"
proof (cases rq)
  case (SubmitRun b)
  then show ?thesis using assms(1)
    by (auto simp: submit_handler_def split: if_splits sum.splits prod.splits dest!: respond_refused intro: submit_refused)
next
  case (PublishMessage conv cookie b)
  then show ?thesis using assms(1)
    by (auto simp: publish_handler_def split: if_splits sum.splits dest: publish_user_refused store_handler_refused)
next
  case (EmitEvent i b)
  then show ?thesis using assms(1)
    by (auto simp: emit_handler_def split: sum.splits prod.splits dest!: respond_refused intro: emit_refused)
next
  case (PollConversation conv b)
  then show ?thesis using assms(1) by (auto simp: poll_handler_def split: if_splits sum.splits prod.splits)
next
  case (CommitConversation conv b)
  then show ?thesis using assms(1) by (auto simp: commit_handler_def split: if_splits sum.splits prod.splits)
qed (use assms in \<open>auto simp: reads_def register_handler_def create_conversation_handler_def dest: store_handler_refused\<close>)

text \<open>Requests one after the other, each at its time and with the token it may draw.\<close>

fun serve_all ::
    "('w, 'b) deployment \<Rightarrow> (int \<times> string \<times> request) list \<Rightarrow> ('w, 'b) server \<Rightarrow> answer list \<times> ('w, 'b) server" where
  "serve_all D [] sv = ([], sv)"
| "serve_all D ((now, token, rq) # rqs) sv =
     (case serve D now token rq sv of (a, sv1) \<Rightarrow> case serve_all D rqs sv1 of (as, sv2) \<Rightarrow> (a # as, sv2))"

lemma serve_all_reaches:
  "serve_all D rqs sv = (as, sv') \<Longrightarrow> reaches (dp_env D) (dp_config D) (sv_store sv) (sv_store sv')"
proof (induction rqs arbitrary: as sv)
  case (Cons x rqs)
  obtain now token rq where x: "x = (now, token, rq)" by (rule prod_cases3)
  obtain a sv1 where a: "serve D now token rq sv = (a, sv1)" by (rule prod.exhaust)
  obtain bs sv2 where b: "serve_all D rqs sv1 = (bs, sv2)" by (rule prod.exhaust)
  have "sv2 = sv'" using Cons.prems a b by (simp add: x)
  have "reaches (dp_env D) (dp_config D) (sv_store sv) (sv_store sv1)"
    by (rule serve_reaches [OF a])
  moreover have "reaches (dp_env D) (dp_config D) (sv_store sv1) (sv_store sv2)"
    by (rule Cons.IH [OF b [unfolded \<open>sv2 = sv'\<close>], folded \<open>sv2 = sv'\<close>])
  ultimately show ?case unfolding \<open>sv2 = sv'\<close> by (rule rtranclp_trans)
qed simp

text \<open>
  C30: the HTTP API changes the database only by transactions of the repository. Whatever requests clients
  send, in whatever order and with whatever contents, questions that name the output of a run
  included, every run stays in agreement with its message and what has finished
  stays as it is; and a request that is refused changes nothing in the database, a reply apart, which
  may commit the timeout it observed.
\<close>
theorem requests_are_transactions:
  assumes "serve_all D rqs sv = (as, sv1)" and "serve D now token rq sv1 = (a, sv')"
    and "toolkit_laws (dp_env D)" and "repo_ok (dp_env D) (sv_store sv)"
  shows "reaches (dp_env D) (dp_config D) (sv_store sv) (sv_store sv') \<and> repo_ok (dp_env D) (sv_store sv')
    \<and> runs_ok (sv_store sv')
    \<and> (\<forall>i r m. finished_as i r m (sv_store sv1) \<longrightarrow> finished_as i r m (sv_store sv'))
    \<and> (\<forall>status t txt. \<not> replies rq \<and> a = Refused status t txt \<longrightarrow> sv_store sv' = sv_store sv1)"
proof -
  have 1: "reaches (dp_env D) (dp_config D) (sv_store sv) (sv_store sv1)"
    by (rule serve_all_reaches [OF assms(1)])
  have 2: "reaches (dp_env D) (dp_config D) (sv_store sv1) (sv_store sv')"
    by (rule serve_reaches [OF assms(2)])
  have ok: "repo_ok (dp_env D) (sv_store sv1)" by (rule reaches_repo_ok [OF 1 assms(3,4)])
  then have "repo_ok (dp_env D) (sv_store sv')" by (rule reaches_repo_ok [OF 2 assms(3)])
  moreover have "finished_as i r m (sv_store sv')" if "finished_as i r m (sv_store sv1)" for i r m
    by (rule reaches_finished [OF 2 assms(3) ok that])
  ultimately show ?thesis using rtranclp_trans [OF 1 2] serve_refused [of D now token rq sv1] assms(2) repo_okD(1) by blast
qed

section \<open>Identity\<close>

text \<open>
  C31: a submitted key is not a credential. With the Human service configured, the message a user publishes
  is stored under the identity of the request, and the answer and everything else the request does
  are the same whatever actor key or user key its body holds.
\<close>
theorem submitted_key_is_no_credential:
  assumes "dp_human D" and "by_user r"
    and "serve D now token (PublishMessage conv cookie (Body r)) sv = (a, sv')"
  shows "(\<forall>kind k u. (kind = [] \<or> kind = ActorKindUser) \<longrightarrow>
        serve D now token (PublishMessage conv cookie
          (Body (r\<lparr>mr_speak := (mr_speak r)\<lparr>sr_actor := \<lparr>ar_kind = kind, ar_key = k\<rparr>\<rparr>, mr_user_key := u\<rparr>))) sv = (a, sv'))
    \<and> (\<forall>status i. a = Answer status (InfoView i) \<longrightarrow>
        (\<exists>user row. identity D token cookie = Inr user \<and> get_msg (mi_id i) (sv_store sv') = Some row
           \<and> m_conv row = conv \<and> m_source row = \<lparr>ar_kind = ActorKindUser, ar_key = trim_space user\<rparr>))"
proof (intro conjI allI impI)
  fix kind k u assume "kind = [] \<or> kind = ActorKindUser"
  then show "serve D now token (PublishMessage conv cookie
      (Body (r\<lparr>mr_speak := (mr_speak r)\<lparr>sr_actor := \<lparr>ar_kind = kind, ar_key = k\<rparr>\<rparr>, mr_user_key := u\<rparr>))) sv = (a, sv')"
    using assms by (auto simp: publish_handler_def decode_body_def publish_user_def publishing_user_def by_user_def split: sum.splits)
next
  fix status i assume a: "a = Answer status (InfoView i)"
  have run: "publish_user D now token conv cookie r sv = (Answer status (InfoView i), sv')"
    using assms a by (simp add: publish_handler_def decode_body_def)
  then obtain user m w where id: "identity D token cookie = Inr user" and i: "i = info m" and
    c: "chat_create (dp_env D) (dp_config D) now (dp_kube D) (dp_steps D) conv user
          (sr_target (mr_speak r)) (sr_content (mr_speak r)) (sv_store sv) (sv_kube sv) = (Inr m, sv_store sv', w)"
    using assms(1) by (auto simp: publish_user_def publishing_user_def respond_def refuse_def split: if_splits sum.splits prod.splits)
  have "mi_id i = cm_id m" by (simp add: i info_def)
  then show "\<exists>user row. identity D token cookie = Inr user \<and> get_msg (mi_id i) (sv_store sv') = Some row
      \<and> m_conv row = conv \<and> m_source row = \<lparr>ar_kind = ActorKindUser, ar_key = trim_space user\<rparr>"
    using id chat_create_stored [where e = "dp_env D" and cf = "dp_config D" and now = now and K = "dp_kube D" and steps = "dp_steps D"
        and conv = conv and user = user and target = "sr_target (mr_speak r)" and content = "sr_content (mr_speak r)"
        and s = "sv_store sv" and w = "sv_kube sv"] c by auto
qed

section \<open>A server\<close>

definition demo_deployment :: "(kconv list, unit) deployment" where
  "demo_deployment =
     \<lparr>dp_env = demo_env, dp_config = run_cf, dp_kube = demo_kube, dp_steps = 3,
      dp_bridge = \<lparr>br_state = (\<lambda>k b. (Inl BridgeNotFound, b)), br_init = (\<lambda>k c d n b. (Inl BridgeConflict, b)),
        br_publish = (\<lambda>k d n b. (Inl BridgeNotFound, b)), br_end = (\<lambda>k b. (Inl BridgeNotFound, b))\<rparr>,
      dp_adapters = (\<lambda>_. None), dp_runs = True, dp_poll = True, dp_human = True, dp_identity = None\<rparr>"

definition demo_server :: "(kconv list, unit) server" where
  "demo_server = \<lparr>sv_store = live_store, sv_kube = [], sv_bridge = (), sv_runner = \<lparr>rn_active = [], rn_cap = 1\<rparr>\<rparr>"

lemma demo_cancel: "fst (serve demo_deployment 7 ''t'' (CancelRun ''r1'') demo_server) = Answer 202 NoContent"
  by code_simp

definition demo_question :: human_request where
  "demo_question =
     \<lparr>hq_conv = [], hq_actor = \<lparr>ar_kind = ActorKindOperator, ar_key = ''op''\<rparr>,
      hq_target = \<lparr>ar_kind = ActorKindUser, ar_key = ''me''\<rparr>, hq_reply_to = [], hq_effect = ''e'', hq_type = ''ask'',
      hq_title = ''title'', hq_prompt = ''prompt'', hq_timeout = 60, hq_choices = None, hq_allow_other = True,
      hq_confirm = [], hq_decline = []\<rparr>"

definition demo_requests :: "(int \<times> string \<times> request) list" where
  "demo_requests = [(7, ''t'', CancelRun ''r1''), (8, ''t'', CreateHuman ''c1'' (Body demo_question))]"

theorem requests_are_transactions_witness:
  "\<exists>a as sv1 sv'. serve_all demo_deployment demo_requests demo_server = (Answer 202 NoContent # as, sv1)
     \<and> serve demo_deployment 9 ''t'' ListActors sv1 = (a, sv')
     \<and> reaches demo_env run_cf live_store (sv_store sv') \<and> runs_ok (sv_store sv')"
proof -
  obtain sv0 where sv0: "serve demo_deployment 7 ''t'' (CancelRun ''r1'') demo_server = (Answer 202 NoContent, sv0)"
    using demo_cancel by (cases "serve demo_deployment 7 ''t'' (CancelRun ''r1'') demo_server") simp
  obtain b sv1 where sv1: "serve demo_deployment 8 ''t'' (CreateHuman ''c1'' (Body demo_question)) sv0 = (b, sv1)"
    by (rule prod.exhaust)
  obtain a sv' where sv': "serve demo_deployment 9 ''t'' ListActors sv1 = (a, sv')" by (rule prod.exhaust)
  have d: "dp_env demo_deployment = demo_env" "dp_config demo_deployment = run_cf" "sv_store demo_server = live_store"
    by (simp_all add: demo_deployment_def demo_server_def)
  have all: "serve_all demo_deployment demo_requests demo_server = ([Answer 202 NoContent, b], sv1)"
    by (simp add: demo_requests_def sv0 sv1 del: serve.simps)
  from requests_are_transactions [OF all sv'] all sv' show ?thesis
    using demo_toolkit live_repo_ok by (simp add: d)
qed

definition demo_publication :: create_message_request where
  "demo_publication = \<lparr>mr_speak = \<lparr>sr_status = [], sr_key = [], sr_actor = \<lparr>ar_kind = [], ar_key = ''boss''\<rparr>,
     sr_target = \<lparr>ar_kind = ''operator'', ar_key = ''op''\<rparr>, sr_reply_to = [], sr_content = default_content\<rparr>, mr_user_key = ''boss''\<rparr>"

lemma demo_published:
  "(case fst (serve demo_deployment 7 ''t'' (PublishMessage ''c1'' ''k'' (Body demo_publication)) demo_server) of
      Answer st (InfoView i) \<Rightarrow> st = 200 | _ \<Rightarrow> False)"
  by code_simp

theorem submitted_key_is_no_credential_witness:
  "\<exists>i sv' row. serve demo_deployment 7 ''t'' (PublishMessage ''c1'' ''k'' (Body demo_publication)) demo_server
       = (Answer 200 (InfoView i), sv')
     \<and> get_msg (mi_id i) (sv_store sv') = Some row \<and> m_source row = \<lparr>ar_kind = ActorKindUser, ar_key = ''human-t''\<rparr>"
proof -
  obtain i sv' where r: "serve demo_deployment 7 ''t'' (PublishMessage ''c1'' ''k'' (Body demo_publication)) demo_server
      = (Answer 200 (InfoView i), sv')"
    using demo_published
    by (cases "serve demo_deployment 7 ''t'' (PublishMessage ''c1'' ''k'' (Body demo_publication)) demo_server")
      (simp split: answer.splits view.splits)
  have id: "identity demo_deployment ''t'' ''k'' = Inr ''human-t''"
    by (simp add: identity_def demo_deployment_def browser_token_def demo_env_def)
  have "dp_human demo_deployment" "by_user demo_publication"
    by (simp_all add: demo_deployment_def by_user_def demo_publication_def)
  from submitted_key_is_no_credential [OF this r] id
  obtain row where "get_msg (mi_id i) (sv_store sv') = Some row"
    "m_source row = \<lparr>ar_kind = ActorKindUser, ar_key = trim_space ''human-t''\<rparr>" by auto
  moreover have "trim_space ''human-t'' = ''human-t''" by code_simp
  ultimately show ?thesis using r by simp
qed

text \<open>
  A lease in seconds is multiplied to nanoseconds without a check for overflow: some registration that
  asks for more than five centuries passes the limit of five minutes, as a third of a second.
\<close>

lemma long_lease_wraps: "seconds_duration 18446744074 = 290448384"
  by (simp add: seconds_duration_def)

end
