(* ===== verification/BlockPages.thy ===== *)
theory BlockPages
  imports ServiceFacts RuntimeClient
begin

text \<open>
  Reading a message block by block. The server's page loop loads the parts a page needs; the toolkit's
  iterator follows the cursors through the HTTP API. Together they deliver the blocks that reading
  the whole message delivers, in their order, each once.
\<close>

section \<open>A content that is being materialized\<close>

text \<open>
  \<open>fs\<close> are the bodies and \<open>bs\<close> the stored root of a message: every block of the snapshot is one or the
  other, and every loaded part is the stored one.
\<close>

definition loading :: "env \<Rightarrow> store \<Rightarrow> string \<Rightarrow> json list \<Rightarrow> json list \<Rightarrow> mcontent \<Rightarrow> bool" where
  "loading e s owner fs bs c \<longleftrightarrow>
     mc_owner c = owner \<and> has_blocks (mc_snap c) \<and> length (jblocks (mc_snap c)) = length bs
   \<and> (\<forall>j < length bs. map_of (mc_pos c) (bid (bs ! j)) = Some j
        \<and> (jblocks (mc_snap c) ! j = fs ! j \<or> jblocks (mc_snap c) ! j = bs ! j))
   \<and> (\<forall>k p. map_of (mc_parts c) k = Some p \<longrightarrow> stored_part e s owner k = Inr p)"

lemma loadingD:
  assumes "loading e s owner fs bs c"
  shows "mc_owner c = owner" "has_blocks (mc_snap c)" "length (jblocks (mc_snap c)) = length bs"
    "\<And>j. j < length bs \<Longrightarrow> map_of (mc_pos c) (bid (bs ! j)) = Some j"
    "\<And>j. j < length bs \<Longrightarrow> jblocks (mc_snap c) ! j = fs ! j \<or> jblocks (mc_snap c) ! j = bs ! j"
    "\<And>k p. map_of (mc_parts c) k = Some p \<Longrightarrow> stored_part e s owner k = Inr p"
  using assms unfolding loading_def by blast+

lemma open_content_loading:
  assumes "ui_laws e" and "open_content e owner content n = Inr c" and "leads_to e s owner fs (jblocks (mc_snap c))"
  shows "loading e s owner fs (jblocks (mc_snap c)) c"
  using open_content_ok [OF assms(1,2)] model_has_blocks [OF assms(1)] unfolding loading_def by simp

lemma load_stored_part:
  assumes "loading e s owner fs bs c" and "stored_part e s owner r = Inr p"
  shows "\<exists>c1. load_part e s r c = Inr (p, c1) \<and> loading e s owner fs bs c1 \<and> mc_snap c1 = mc_snap c"
proof (cases "map_of (mc_parts c) r")
  case None
  then have "load_part e s r c = Inr (p, c\<lparr>mc_parts := al_set r p (mc_parts c)\<rparr>)"
    using assms loadingD(1) [OF assms(1)] by (simp add: load_part_def stored_part_def)
  moreover have "loading e s owner fs bs (c\<lparr>mc_parts := al_set r p (mc_parts c)\<rparr>)"
    using assms unfolding loading_def by simp
  ultimately show ?thesis by simp
next
  case (Some q)
  then have "q = p" using loadingD(6) [OF assms(1)] assms(2) by fastforce
  then show ?thesis using Some assms(1) by (simp add: load_part_def)
qed

lemma materialize_block:
  assumes ld: "loading e s owner fs bs c" and leads: "leads_to e s owner fs bs" and j: "j < length bs"
  shows "\<exists>c1. materialize e s (bid (jblocks (mc_snap c) ! j)) c = Inr c1 \<and> loading e s owner fs bs c1
    \<and> jblocks (mc_snap c1) ! j = fs ! j"
proof -
  note L = loadingD [OF ld] and F = leads_to_nth [OF leads]
  let ?x = "jblocks (mc_snap c) ! j"
  have id: "bid ?x = bid (bs ! j)" using L(5) [OF j] F(2) [OF j] by auto
  have pos: "map_of (mc_pos c) (bid ?x) = Some j" using L(4) [OF j] id by simp
  show ?thesis
  proof (cases "bref ?x")
    case None
    then have "?x = fs ! j" using L(5) [OF j] F(4) [OF j] by auto
    moreover have "materialize e s (bid ?x) c = Inr c" by (rule materialize_inline [OF pos None])
    ultimately show ?thesis using ld by blast
  next
    case (Some r)
    then have "?x \<noteq> fs ! j" using F(3) [OF j] bref_has_ref by force
    then have x: "?x = bs ! j" using L(5) [OF j] by blast
    then obtain p where p: "stored_part e s owner r = Inr p" "find_block (bid (fs ! j)) (cp_blocks p) = Some (fs ! j)"
      using F(5) [OF j] Some by metis
    obtain c1 where c1: "load_part e s r c = Inr (p, c1)" "loading e s owner fs bs c1" "mc_snap c1 = mc_snap c"
      using load_stored_part [OF ld p(1)] by blast
    let ?c2 = "c1\<lparr>mc_snap := set_blocks ((jblocks (mc_snap c1))[j := fs ! j]) (mc_snap c1)\<rparr>"
    have "find_block (bid ?x) (cp_blocks p) = Some (fs ! j)" using p(2) F(2) [OF j] x by simp
    then have "materialize e s (bid ?x) c = Inr ?c2"
      using pos Some c1(1) by (simp add: materialize_def)
    moreover have "loading e s owner fs bs ?c2" "jblocks (mc_snap ?c2) ! j = fs ! j"
      using c1(2) j loadingD(2,3) [OF c1(2)] unfolding loading_def by (auto simp: nth_list_update)
    ultimately show ?thesis by blast
  qed
qed

section \<open>One page\<close>

definition page_cursor :: "nat \<Rightarrow> nat \<Rightarrow> string" where
  "page_cursor revision i = nat_str revision @ '':'' @ nat_str i"

lemma parse_page_cursor:
  assumes "revision < 2 ^ 64" and "i < 2 ^ 63"
  shows "parse_block_cursor (page_cursor revision i) = Inr (revision, i)"
proof -
  have "CHR '':'' \<notin> set (nat_str revision)" by (rule nat_str_no_sep) simp
  from cut_at_append [OF this, of "nat_str i"]
  have "cut_at CHR '':'' (page_cursor revision i) = Some (nat_str revision, nat_str i)"
    by (simp add: page_cursor_def)
  then show ?thesis
    using assms by (simp add: parse_block_cursor_def page_cursor_def parse_uint64_nat_str atoi_nat_str)
qed

text \<open>From block \<open>i\<close> on a page takes blocks up to its end or to the block its cursor names.\<close>

lemma page_loop_blocks:
  assumes "loading e s owner fs bs c" and leads: "leads_to e s owner fs bs" and "i + n = length bs"
  shows "\<exists>k. k \<le> n \<and> page_loop e s revision False n i tot data c = Inr (data @ take k (drop i fs),
           if k = n then [] else page_cursor revision (i + k)) \<and> (data = [] \<longrightarrow> n > 0 \<longrightarrow> k > 0)"
  using assms(1,3)
proof (induction n arbitrary: i tot data c)
  case (Suc n)
  have i: "i < length bs" using Suc.prems(2) by simp
  obtain c1 where c1: "materialize e s (bid (jblocks (mc_snap c) ! i)) c = Inr c1" "loading e s owner fs bs c1"
    "jblocks (mc_snap c1) ! i = fs ! i"
    using materialize_block [OF Suc.prems(1) leads i] by blast
  have len: "length fs = length bs" by (rule leads_to_nth(1) [OF leads])
  show ?case
  proof (cases "100 \<le> length data \<or> (data \<noteq> [] \<and> max_block_page_bytes < tot + jlen (fs ! i))")
    case True
    then have "page_loop e s revision False (Suc n) i tot data c = Inr (data, page_cursor revision i)"
      using c1 by (simp add: page_cursor_def)
    then show ?thesis using True by (intro exI [of _ 0]) auto
  next
    case False
    then have step: "page_loop e s revision False (Suc n) i tot data c
        = page_loop e s revision False n (Suc i) (tot + jlen (fs ! i)) (data @ [fs ! i]) c1"
      using c1 by (auto simp: Let_def)
    obtain k where k: "k \<le> n" "page_loop e s revision False n (Suc i) (tot + jlen (fs ! i)) (data @ [fs ! i]) c1
        = Inr ((data @ [fs ! i]) @ take k (drop (Suc i) fs), if k = n then [] else page_cursor revision (Suc i + k))"
      using Suc.IH [OF c1(2), of "Suc i"] Suc.prems(2) by (metis add_Suc add_Suc_right)
    have "take (Suc k) (drop i fs) = fs ! i # take k (drop (Suc i) fs)"
      using i len by (simp add: Cons_nth_drop_Suc [symmetric])
    then show ?thesis using step k by (intro exI [of _ "Suc k"]) simp
  qed
qed simp

lemma find_in_conversation:
  "tbl_find m_id i ms = Some m \<Longrightarrow> find (\<lambda>x. m_conv x = m_conv m \<and> m_id x = i) ms = Some m"
  by (induction ms) (auto split: if_splits)

lemma message_page:
  assumes laws: "ui_laws e" and m: "get_msg i s = Some m" and op: "open_content e (m_id m) (m_content m) (st_uuid s) = Inr c"
    and leads: "leads_to e s (m_id m) fs (jblocks (mc_snap c))" and small: "m_revision m < 2 ^ 64" "length fs < 2 ^ 63"
    and at: "(cursor = [] \<and> j = 0) \<or> (cursor = page_cursor (m_revision m) j)" "j < length fs \<or> j = 0"
  shows "\<exists>k. j + k \<le> length fs \<and> (j < length fs \<longrightarrow> 0 < k)
    \<and> message_blocks e (m_conv m) i [] cursor s = Inr \<lparr>bp_revision = m_revision m, bp_data = take k (drop j fs),
         bp_next = (if j + k = length fs then [] else page_cursor (m_revision m) (j + k))\<rparr>"
proof -
  have len: "length fs = length (jblocks (mc_snap c))" by (rule leads_to_nth(1) [OF leads])
  then have j: "j \<le> length fs" using at(2) by auto
  have parse: "\<exists>r. parse_block_cursor cursor = Inr (r, j) \<and> (cursor \<noteq> [] \<longrightarrow> r = m_revision m)"
    using at parse_page_cursor [OF small(1), of j] small(2) j by (auto simp: parse_block_cursor_def)
  obtain k where k: "k \<le> length fs - j" "page_loop e s (m_revision m) False (length fs - j) j 0 [] c
      = Inr (take k (drop j fs), if k = length fs - j then [] else page_cursor (m_revision m) (j + k))"
    "length fs - j > 0 \<longrightarrow> k > 0"
    using page_loop_blocks [OF open_content_loading [OF laws op leads] leads, of j "length fs - j" "m_revision m" 0 "[]"]
      len j by auto
  then show ?thesis
    using parse find_in_conversation [OF m [unfolded get_msg_def]] op len j
    by (intro exI [of _ k]) (auto simp: message_blocks_def Let_def)
qed

section \<open>All pages\<close>

text \<open>The bodies of a stored message.\<close>

lemma message_leads_to:
  assumes laws: "ui_laws e" and ok: "message_ok e s m"
  shows "\<exists>c fs. open_content e (m_id m) (m_content m) (st_uuid s) = Inr c \<and> leads_to e s (m_id m) fs (jblocks (mc_snap c))"
proof -
  obtain c0 where c0: "open_content e (m_id m) (m_content m) 0 = Inr c0"
    and view: "view_ok e (orig_ref c0) (row_view e s (m_id m)) {}"
    and refs: "\<And>b. b \<in> set (jblocks (mc_snap c0)) \<Longrightarrow> has_ref b \<Longrightarrow>
             \<exists>r bs f. bref b = Some r \<and> r \<noteq> [] \<and> row_view e s (m_id m) r = Some bs \<and> f \<in> set bs \<and> bid f = bid b"
    using ok unfolding message_ok_def by blast
  note O = open_content_ok [OF laws c0]
  obtain c where c: "open_content e (m_id m) (m_content m) (st_uuid s) = Inr c" "mc_snap c = mc_snap c0"
    using open_content_total [OF laws O(1,2)] by blast
  note model = ui_laws_model [OF laws O(2)]
  define target where "target = (\<lambda>f b. bid b = bid f \<and> block_shape f \<and> (has_ref b \<longleftrightarrow> bref b \<noteq> None) \<and> \<not> has_ref f
        \<and> (case bref b of None \<Rightarrow> b = f
           | Some r \<Rightarrow> (\<exists>p. stored_part e s (m_id m) r = Inr p \<and> find_block (bid f) (cp_blocks p) = Some f)))"
  have body: "\<exists>f. target f b" if b: "b \<in> set (jblocks (mc_snap c0))" for b
  proof (cases "has_ref b")
    case False
    have "block_shape b" using snapshot_shape_blocks [OF model(1)] b by (simp add: list_all_iff)
    then show ?thesis using False not_has_ref_bref [OF False] by (intro exI [of _ b]) (simp add: target_def)
  next
    case True
    obtain r bs f where f: "bref b = Some r" "row_view e s (m_id m) r = Some bs" "f \<in> set bs" "bid f = bid b"
      using refs [OF b True] by blast
    obtain p where p: "stored_part e s (m_id m) r = Inr p" "cp_blocks p = bs" using row_view_stored [OF f(2)] by blast
    have part: "list_all (logical e) bs" "distinct (map bid bs)"
      using view_ok_part [OF view f(2)] unfolding part_ok_def by blast+
    then have "list_all block_shape bs" by (auto simp: list_all_iff logical_def)
    then have "find_block (bid f) bs = Some f" by (rule find_block_member [OF _ part(2) f(3)])
    moreover have "block_shape f" "\<not> has_ref f" using part(1) f(3) by (auto simp: list_all_iff logical_def)
    ultimately show ?thesis using f True p by (intro exI [of _ f]) (simp add: target_def)
  qed
  have "\<exists>fs. list_all2 target fs bs" if "\<forall>b \<in> set bs. \<exists>f. target f b" for bs
    using that by (induction bs) (auto intro: list_all2_Cons [THEN iffD2])
  then obtain fs where "list_all2 target fs (jblocks (mc_snap c0))" using body by blast
  then show ?thesis using c unfolding leads_to_def target_def by auto
qed

text \<open>The client's block pages, served by the API over a store.\<close>

definition block_route :: "env \<Rightarrow> store \<Rightarrow> string \<Rightarrow> string \<Rightarrow> string \<Rightarrow> 'w \<Rightarrow> block_page rt \<times> 'w" where
  "block_route e s conv i cursor w =
     (do_request \<lparr>bp_revision = 0, bp_data = [], bp_next = []\<rparr> (api_answer e 200 (message_blocks e conv i [] cursor s)), w)"

lemma block_route_Inr: "message_blocks e conv i [] cursor s = Inr page \<Longrightarrow> block_route e s conv i cursor w = (Inr page, w)"
  by (simp add: block_route_def api_answer_def do_request_def response_error_def)

lemma read_pages:
  assumes laws: "ui_laws e" and m: "get_msg i s = Some m" and op: "open_content e (m_id m) (m_content m) (st_uuid s) = Inr c"
    and leads: "leads_to e s (m_id m) fs (jblocks (mc_snap c))" and small: "m_revision m < 2 ^ 64" "length fs < 2 ^ 63"
    and route: "cl_blocks C = block_route e s"
  shows "(cursor = [] \<and> j = 0) \<or> (cursor = page_cursor (m_revision m) j) \<Longrightarrow> j < length fs \<or> j = 0 \<Longrightarrow> length fs < n + j \<Longrightarrow>
     read_blocks n C (m_conv m) i cursor w = Some (Inr (map (Pair (m_revision m)) (drop j fs)), w)"
proof (induction n arbitrary: j cursor)
  case (Suc n)
  obtain k where k: "j + k \<le> length fs" "j < length fs \<longrightarrow> 0 < k"
    "message_blocks e (m_conv m) i [] cursor s = Inr \<lparr>bp_revision = m_revision m, bp_data = take k (drop j fs),
         bp_next = (if j + k = length fs then [] else page_cursor (m_revision m) (j + k))\<rparr>"
    using message_page [OF laws m op leads small Suc.prems(1,2)] by blast
  have page: "cl_blocks C (m_conv m) i cursor w = (Inr \<lparr>bp_revision = m_revision m, bp_data = take k (drop j fs),
         bp_next = (if j + k = length fs then [] else page_cursor (m_revision m) (j + k))\<rparr>, w)"
    unfolding route by (rule block_route_Inr [OF k(3)])
  show ?case
  proof (cases "j + k = length fs")
    case True
    then show ?thesis using page by (simp add: Let_def)
  next
    case False
    then have "j + k < length fs" "0 < k" using k(1,2) by auto
    then have "read_blocks n C (m_conv m) i (page_cursor (m_revision m) (j + k)) w
        = Some (Inr (map (Pair (m_revision m)) (drop (j + k) fs)), w)"
      using Suc.prems(3) by (intro Suc.IH) auto
    moreover have "page_cursor (m_revision m) (j + k) \<noteq> []" by (simp add: page_cursor_def)
    moreover have "take k (drop j fs) @ drop (j + k) fs = drop j fs"
      by (metis append_take_drop_id drop_drop add.commute)
    ultimately show ?thesis using False page by (simp add: Let_def flip: map_append)
  qed
qed simp

text \<open>
  C33: reading a message block by block reads the message. Over tables that hold the invariant, the client's
  iterator through the server's pages ends, after at most as many requests as there are blocks and
  one, and delivers the blocks of the whole message in their order, each once, all at its revision.
\<close>
theorem block_pages_read_message:
  assumes "ui_laws e" and "tables_ok e s" and "get_msg i s = Some m" and "m_revision m < 2 ^ 64"
    and "cl_blocks C = block_route e s"
  shows "\<exists>h v. hydrate_message e s m = Inr h \<and> decode_object (m_content h) = Inr v
    \<and> (length (jblocks v) < 2 ^ 63 \<longrightarrow> length (jblocks v) < n \<longrightarrow>
         read_blocks n C (m_conv m) i [] w = Some (Inr (map (Pair (m_revision m)) (jblocks v)), w))"
proof -
  have ok: "message_ok e s m" using assms(2,3) unfolding tables_ok_def by blast
  obtain c fs where op: "open_content e (m_id m) (m_content m) (st_uuid s) = Inr c"
    and leads: "leads_to e s (m_id m) fs (jblocks (mc_snap c))"
    using message_leads_to [OF assms(1) ok] by blast
  have groups: "\<exists>p. stored_part e s (m_id m) k = Inr p" if "group_rows s (m_id m) k \<noteq> []" for k
    using ok that row_view_stored unfolding message_ok_def by (metis option.exhaust)
  note O = open_content_ok [OF assms(1) op]
  have hb: "has_blocks (mc_snap c)" by (rule model_has_blocks [OF assms(1) O(2)])
  note hyd = hydrate_message_ok [OF assms(1) op groups leads]
  have "\<exists>h v. hydrate_message e s m = Inr h \<and> decode_object (m_content h) = Inr v \<and> jblocks v = fs"
  proof (cases "mc_refs c = []")
    case True
    then have "jblocks (mc_snap c) = fs"
      using leads_to_inline [OF leads] open_content_refs_Nil [OF assms(1) op] by simp
    then show ?thesis using hyd True O(1) by simp
  next
    case False
    have "is_obj (set_blocks fs (mc_snap c))" using hb by (simp add: set_blocks_def has_blocks_def)
    then have "decode_object (marshal (set_blocks fs (mc_snap c))) = Inr (set_blocks fs (mc_snap c))"
      by (simp add: decode_marshal)
    then show ?thesis using hyd False hb by simp
  qed
  then obtain h v where h: "hydrate_message e s m = Inr h" "decode_object (m_content h) = Inr v" "jblocks v = fs" by blast
  have "read_blocks n C (m_conv m) i [] w = Some (Inr (map (Pair (m_revision m)) fs), w)"
    if "length fs < 2 ^ 63" "length fs < n"
    using read_pages [OF assms(1,3) op leads assms(4) that(1) assms(5), of "[]" 0 n w] that by simp
  then show ?thesis using h by blast
qed

section \<open>A message of two blocks\<close>

definition demo_reader :: "store \<Rightarrow> unit rt_client" where
  "demo_reader s = \<lparr>cl_submit = (\<lambda>r w. (Inl ErrCallConflict, w)), cl_call = (\<lambda>i w. (Inl ErrCallConflict, w)),
     cl_block = (\<lambda>c i b w. (Inl ErrCallConflict, w)), cl_cancel = (\<lambda>i w. (Inr (), w)),
     cl_publish = (\<lambda>c r w. (Inl ErrCallConflict, w)), cl_create_human = (\<lambda>r w. (Inl ErrCallConflict, w)),
     cl_human = (\<lambda>i w. (Inl ErrCallConflict, w)), cl_blocks = block_route demo_env s,
     cl_register = (\<lambda>p k n d l w. (Inr (), w))\<rparr>"

lemma demo_stored: "(case demo_saved of Inr (m, s) \<Rightarrow>
    (case get_msg ''m1'' s of Some row \<Rightarrow> m_revision row = 1
       \<and> (case hydrate_message demo_env s row of Inr h \<Rightarrow>
            (case decode_object (m_content h) of Inr v \<Rightarrow> length (jblocks v) = 2 | Inl _ \<Rightarrow> False) | Inl _ \<Rightarrow> False)
     | None \<Rightarrow> False) | Inl _ \<Rightarrow> False)"
  by code_simp

theorem block_pages_read_message_witness:
  "\<exists>m' s row h v. demo_saved = Inr (m', s) \<and> get_msg ''m1'' s = Some row \<and> hydrate_message demo_env s row = Inr h
     \<and> decode_object (m_content h) = Inr v \<and> length (jblocks v) = 2
     \<and> read_blocks 3 (demo_reader s) (m_conv row) ''m1'' [] () = Some (Inr (map (Pair 1) (jblocks v)), ())"
proof -
  obtain m' s where run: "save_message demo_env demo_cf 7 demo_message True empty_store = Inr (m', s)"
    by (rule demo_saved_Inr)
  then have saved: "demo_saved = Inr (m', s)" by (simp add: demo_saved_def)
  obtain row where row: "get_msg ''m1'' s = Some row" "m_revision row = 1"
    and two: "case hydrate_message demo_env s row of Inr h \<Rightarrow>
            (case decode_object (m_content h) of Inr v \<Rightarrow> length (jblocks v) = 2 | Inl _ \<Rightarrow> False) | Inl _ \<Rightarrow> False"
    using demo_stored unfolding saved by (auto split: option.splits)
  have ok: "tables_ok demo_env s" by (rule save_message_tables_ok [OF demo_laws tables_ok_empty run])
  have "cl_blocks (demo_reader s) = block_route demo_env s" by (simp add: demo_reader_def)
  from block_pages_read_message [OF demo_laws ok row(1) _ this, of 3 "()"] row(2) obtain h v where
    h: "hydrate_message demo_env s row = Inr h" "decode_object (m_content h) = Inr v"
    and r: "length (jblocks v) < 2 ^ 63 \<longrightarrow> length (jblocks v) < 3 \<longrightarrow>
      read_blocks 3 (demo_reader s) (m_conv row) ''m1'' [] () = Some (Inr (map (Pair 1) (jblocks v)), ())" by auto
  have two: "length (jblocks v) = 2" using two h by simp
  then have "read_blocks 3 (demo_reader s) (m_conv row) ''m1'' [] () = Some (Inr (map (Pair 1) (jblocks v)), ())"
    using r by simp
  then show ?thesis using saved row(1) h two by blast
qed

end
