(* ===== verification/Streams.thy ===== *)
theory Streams
  imports ListenerProps ApiProps
begin

text \<open>
  The event streams: the two routes that write server-sent events
  (\<^verbatim>\<open>streamHarnessRun\<close> and \<^verbatim>\<open>streamConversation\<close> of \<^verbatim>\<open>server/internal/api\<close>) and the reader of the toolkit
  (\<^verbatim>\<open>runtime/infra/sse.go\<close>). Between them is the network, which may break anywhere: what a caller of
  \<^verbatim>\<open>Call.Stream\<close> has received is a stream it can apply.
\<close>

section \<open>Writing\<close>

text \<open>
  \<open>frame\<close> is the text the HTTP framework writes for an event with data and neither type nor identifier. A
  response starts with the first event that is written, so a failure before it is answered as one;
  a later failure only ends the response.
\<close>

fun written :: "('a \<Rightarrow> string result) \<Rightarrow> 'a list \<Rightarrow> string list \<times> err option" where
  "written data [] = ([], None)"
| "written data (x # xs) =
     (case data x of
        Inl er \<Rightarrow> ([], Some er)
      | Inr d \<Rightarrow> (case written data xs of (ds, er) \<Rightarrow> (d # ds, er)))"

definition stream_response ::
    "env \<Rightarrow> (string \<Rightarrow> string) \<Rightarrow> ('a \<Rightarrow> string result) \<Rightarrow> 'a list \<Rightarrow> err option \<Rightarrow> answer + string" where
  "stream_response e frame data xs stop =
     (case written data xs of (ds, er) \<Rightarrow>
        if ds \<noteq> [] then Inr (concat (map frame ds))
        else Inl (case er of Some x \<Rightarrow> refuse e x | None \<Rightarrow>
               (case stop of Some x \<Rightarrow> refuse e x | None \<Rightarrow> Answer 200 NoContent)))"

text \<open>The listener runs until it is done or a step fails; what was delivered before stays delivered.\<close>

fun follow :: "env \<Rightarrow> string \<Rightarrow> listen_input list \<Rightarrow> listener \<Rightarrow> listener \<times> err option" where
  "follow e i [] l = (l, None)"
| "follow e i (x # xs) l =
     (if ml_done l then (l, None)
      else case listen_step e i x l of Inl er \<Rightarrow> (l, Some er) | Inr l1 \<Rightarrow> follow e i xs l1)"

text \<open>
  A harness run is looked up, then its message is followed: \<open>s\<close> and \<open>s1\<close> are what the two reads see, \<open>xs\<close>
  what happens to the listener.
\<close>

definition svc_stream_run ::
    "env \<Rightarrow> string \<Rightarrow> store \<Rightarrow> store \<Rightarrow> listen_input list \<Rightarrow> event list \<times> err option" where
  "svc_stream_run e i s s1 xs =
     (case get_harness_run_state i s of
        Inl er \<Rightarrow> ([], Some er)
      | Inr run \<Rightarrow>
          (case listen_start e (hn_message run) s1 of
             Inl er \<Rightarrow> ([], Some er)
           | Inr l0 \<Rightarrow> (case follow e (hn_message run) xs l0 of (l, er) \<Rightarrow> (ml_out l, er))))"

definition stream_run_handler ::
    "('w, 'b) deployment \<Rightarrow> (string \<Rightarrow> string) \<Rightarrow> string \<Rightarrow> store \<Rightarrow> store \<Rightarrow> listen_input list \<Rightarrow> answer + string" where
  "stream_run_handler D frame i s s1 xs =
     (if \<not> dp_runs D then Inl (refuse (dp_env D) SvcUnavailable)
      else case svc_stream_run (dp_env D) i s s1 xs of
        (outs, er) \<Rightarrow> stream_response (dp_env D) frame (e_marshal (dp_env D)) outs er)"

text \<open>
  The stream of a conversation carries the events of all its messages; the first event of a message is
  written together with the message (\<open>wrap\<close> is the encoding of the pair). \<open>outs\<close> is what the listener of
  the conversation delivered, \<open>stop\<close> how it ended.
\<close>

definition conv_data :: "env \<Rightarrow> (cmessage \<Rightarrow> string \<Rightarrow> string result) \<Rightarrow> conv_event \<Rightarrow> string result" where
  "conv_data e wrap ev =
     bindR (e_marshal e (ce_event ev)) (\<lambda>d. case ce_message ev of None \<Rightarrow> Inr d | Some m \<Rightarrow> wrap m d)"

definition stream_conversation_handler ::
    "('w, 'b) deployment \<Rightarrow> (string \<Rightarrow> string) \<Rightarrow> (cmessage \<Rightarrow> string \<Rightarrow> string result) \<Rightarrow> string \<Rightarrow> store
     \<Rightarrow> conv_event list \<Rightarrow> err option \<Rightarrow> answer + string" where
  "stream_conversation_handler D frame wrap conv s outs stop =
     (case get_conversation conv s of
        Inl er \<Rightarrow> Inl (refuse (dp_env D) er)
      | Inr _ \<Rightarrow> stream_response (dp_env D) frame (conv_data (dp_env D) wrap) outs stop)"

section \<open>Reading\<close>

text \<open>
  \<^verbatim>\<open>bufio.Scanner\<close> splits what has arrived at line feeds and drops one carriage return before them; a line
  that does not fit its buffer of 32 MiB ends the scan. \<open>fin\<close> says how the body ended: with its end or a failure.
\<close>

definition line_feed :: char where "line_feed = CHR 0x0A"

definition carriage_return :: char where "carriage_return = CHR 0x0D"

definition raw_lines :: "string \<Rightarrow> string list" where
  "raw_lines body = (let ls = split_at line_feed body in if last ls = [] then butlast ls else ls)"

definition drop_cr :: "string \<Rightarrow> string" where
  "drop_cr l = (if l \<noteq> [] \<and> last l = carriage_return then butlast l else l)"

definition broken_off :: "(failure \<times> string) option \<Rightarrow> rt_error" where
  "broken_off fin = (case fin of None \<Rightarrow> transport_error Eof ''unexpected EOF'' | Some (k, t) \<Rightarrow> transport_error k t)"

fun read_lines ::
    "(string \<Rightarrow> string + event) \<Rightarrow> (failure \<times> string) option \<Rightarrow> string list \<Rightarrow> string \<Rightarrow> event list \<times> unit rt" where
  "read_lines parse fin [] data = ([], Inl (broken_off fin))"
| "read_lines parse fin (raw # ls) data =
     (if 33554432 \<le> int (length raw) then ([], Inl (transport_error OtherFailure ''bufio.Scanner: token too long''))
      else
        let line = drop_cr raw
        in if has_prefix line ''data:'' then
             read_lines parse fin ls
               (data @ (if data \<noteq> [] then newline else []) @ trim_prefix (trim_prefix line ''data:'') '' '')
           else if line \<noteq> [] \<or> data = [] then read_lines parse fin ls data
           else case parse data of
             Inl t \<Rightarrow> ([], Inl (plain_error t))
           | Inr ev \<Rightarrow>
               if ev_op ev = OpEnd then ([ev], Inr ())
               else (case read_lines parse fin ls [] of (evs, r) \<Rightarrow> (ev # evs, r)))"

definition read_events ::
    "(string \<Rightarrow> string + event) \<Rightarrow> (failure \<times> string) option \<Rightarrow> string \<Rightarrow> event list \<times> unit rt" where
  "read_events parse fin body = read_lines parse fin (raw_lines body) []"

text \<open>\<^verbatim>\<open>Call.Stream\<close>: the request fails, is refused, or its body is read.\<close>

datatype opened =
    OpenFailed failure string
  | Opened int string "(string \<times> string) option" string "(failure \<times> string) option"

definition call_stream :: "(string \<Rightarrow> string + event) \<Rightarrow> opened \<Rightarrow> event list \<times> unit rt" where
  "call_stream parse out =
     (case out of
        OpenFailed k t \<Rightarrow> ([], Inl (transport_error k t))
      | Opened status t envelope body fin \<Rightarrow>
          (case response_error status t envelope of
             Some er \<Rightarrow> ([], Inl er)
           | None \<Rightarrow> read_events parse fin body))"

section \<open>From the listener to the caller\<close>

text \<open>
  What the parts outside the repository promise: an event is marshalled into one line that parses back to
  it, and a frame is that line as the data of one event, as the format of server-sent events has it.
\<close>

definition one_line :: "string \<Rightarrow> bool" where
  "one_line d \<longleftrightarrow> d \<noteq> [] \<and> line_feed \<notin> set d \<and> carriage_return \<notin> set d \<and> hd d \<noteq> CHR '' ''"

definition wire_law :: "(event \<Rightarrow> string result) \<Rightarrow> (string \<Rightarrow> string + event) \<Rightarrow> (string \<Rightarrow> string) \<Rightarrow> bool" where
  "wire_law enc parse frame \<longleftrightarrow>
     (\<forall>ev d. enc ev = Inr d \<longrightarrow> one_line d \<and> parse d = Inr ev)
   \<and> (\<forall>d. one_line d \<longrightarrow> (\<exists>sp \<in> {[], '' ''}. frame d = ''data:'' @ sp @ d @ newline @ newline))"

lemma raw_lines_line: "line_feed \<notin> set l \<Longrightarrow> raw_lines (l @ line_feed # rest) = l # raw_lines rest"
proof -
  assume "line_feed \<notin> set l"
  then have "split_at line_feed (l @ line_feed # rest) = l # split_at line_feed rest"
    by (induction l) auto
  then show ?thesis using split_at_nonempty [of line_feed rest] by (simp add: raw_lines_def Let_def)
qed

lemma raw_lines_open: "line_feed \<notin> set l \<Longrightarrow> raw_lines l = (if l = [] then [] else [l])"
proof -
  assume "line_feed \<notin> set l"
  then have "split_at line_feed l = [l]" by (induction l) auto
  then show ?thesis by (simp add: raw_lines_def)
qed

lemma data_line:
  assumes "one_line d" and "sp \<in> {[], '' ''}"
  shows "line_feed \<notin> set (''data:'' @ sp @ d)" "drop_cr (''data:'' @ sp @ d) = ''data:'' @ sp @ d"
    "has_prefix (''data:'' @ sp @ d) ''data:''"
    "trim_prefix (trim_prefix (''data:'' @ sp @ d) ''data:'') '' '' = d"
proof -
  have d: "d \<noteq> []" "line_feed \<notin> set d" "carriage_return \<notin> set d" "hd d \<noteq> CHR '' ''"
    using assms(1) by (auto simp: one_line_def)
  then have cr: "last d \<noteq> carriage_return" using last_in_set by fastforce
  show "line_feed \<notin> set (''data:'' @ sp @ d)" using d(2) assms(2) by (auto simp: line_feed_def)
  show "drop_cr (''data:'' @ sp @ d) = ''data:'' @ sp @ d" using d(1) cr by (simp add: drop_cr_def)
  show "has_prefix (''data:'' @ sp @ d) ''data:''" by (simp add: has_prefix_def)
  obtain c cs where c: "d = c # cs" "c \<noteq> CHR '' ''" using d(1,4) by (cases d) auto
  show "trim_prefix (trim_prefix (''data:'' @ sp @ d) ''data:'') '' '' = d"
    using assms(2) c by (auto simp: trim_prefix_def has_prefix_def)
qed

text \<open>A whole frame is one event; a frame that has not arrived in full is none.\<close>

lemma read_frame:
  assumes "wire_law enc parse frame" and "enc ev = Inr d"
  shows "read_events parse fin (frame d @ rest) =
     (if 33554432 \<le> int (length (frame d)) - 2 then ([], Inl (transport_error OtherFailure ''bufio.Scanner: token too long''))
      else if ev_op ev = OpEnd then ([ev], Inr ())
      else case read_events parse fin rest of (evs, r) \<Rightarrow> (ev # evs, r))"
proof -
  have law: "one_line d" "parse d = Inr ev" using assms by (auto simp: wire_law_def)
  then obtain sp where sp: "sp \<in> {[], '' ''}" "frame d = ''data:'' @ sp @ d @ newline @ newline"
    using assms(1) by (auto simp: wire_law_def)
  let ?x = "''data:'' @ sp @ d"
  note L = data_line [OF law(1) sp(1)]
  have "frame d @ rest = ?x @ line_feed # ([] @ line_feed # rest)"
    using sp(2) by (simp add: newline_def line_feed_def)
  then have "raw_lines (frame d @ rest) = ?x # [] # raw_lines rest"
    by (simp only: raw_lines_line [OF L(1)] raw_lines_line [of "[]", simplified] append_Nil)
  moreover have "d \<noteq> []" using law(1) by (simp add: one_line_def)
  moreover have "int (length ?x) = int (length (frame d)) - 2" using sp(2) by (simp add: newline_def)
  moreover have "drop_cr [] = []" "\<not> has_prefix [] ''data:''" by (simp_all add: drop_cr_def has_prefix_def)
  ultimately show ?thesis
    using law(2) by (simp add: read_events_def Let_def L(2-4) del: append_Cons)
qed

lemma read_open:
  assumes "line_feed \<notin> set x" and "prefix p (x @ newline)"
  shows "fst (read_events parse fin p) = []" "snd (read_events parse fin p) \<noteq> Inr ()"
proof -
  have "raw_lines p = [] \<or> (\<exists>l. raw_lines p = [l])"
  proof (cases "p = x @ newline")
    case True
    then have "raw_lines p = x # raw_lines []" using raw_lines_line [OF assms(1), of "[]"] by (simp add: newline_def line_feed_def)
    then show ?thesis by (simp add: raw_lines_open)
  next
    case False
    then have "prefix p x" using assms(2) by (auto simp: newline_def prefix_snoc)
    then have "line_feed \<notin> set p" using assms(1) by (auto simp: prefix_def)
    then show ?thesis by (simp add: raw_lines_open)
  qed
  then show "fst (read_events parse fin p) = []" "snd (read_events parse fin p) \<noteq> Inr ()"
    by (elim disjE exE; simp add: read_events_def Let_def)+
qed

text \<open>Where the marshalling of a listener's output stopped.\<close>

lemma written_prefix:
  assumes "written data xs = (ds, er)"
  shows "\<exists>ys. prefix ys xs \<and> map data ys = map Inr ds \<and> (er = None \<longrightarrow> ys = xs)"
  using assms
proof (induction xs arbitrary: ds er)
  case (Cons x xs)
  show ?case
  proof (cases "data x")
    case (Inl y)
    then show ?thesis using Cons.prems by (intro exI [of _ "[]"]) auto
  next
    case (Inr d)
    obtain ds1 er1 where w: "written data xs = (ds1, er1)" by (rule prod.exhaust)
    then obtain ys where "prefix ys xs" "map data ys = map Inr ds1" "er1 = None \<longrightarrow> ys = xs" using Cons.IH by blast
    then show ?thesis using Cons.prems Inr w by (intro exI [of _ "x # ys"]) auto
  qed
qed simp

lemma follow_run:
  assumes "follow e i xs l0 = (l, er)"
  shows "\<exists>ys. prefix ys xs \<and> listen_run e i ys l0 = Inr l"
  using assms
proof (induction xs arbitrary: l0)
  case (Cons x xs)
  show ?case
  proof (cases "ml_done l0 \<or> (\<exists>y. listen_step e i x l0 = Inl y)")
    case True
    then have "l = l0" using Cons.prems by (auto split: if_splits)
    then show ?thesis by (intro exI [of _ "[]"]) simp
  next
    case False
    then obtain l1 where l1: "listen_step e i x l0 = Inr l1" by (cases "listen_step e i x l0") auto
    then obtain ys where "prefix ys xs" "listen_run e i ys l1 = Inr l" using Cons False by auto
    then show ?thesis using False l1 by (intro exI [of _ "x # ys"]) simp
  qed
qed simp

text \<open>What is read of a broken response.\<close>

definition fits :: "(string \<Rightarrow> string) \<Rightarrow> string \<Rightarrow> bool" where
  "fits frame d \<longleftrightarrow> int (length (frame d)) - 2 < 33554432"

lemma read_frames:
  assumes "wire_law enc parse frame" and "map enc evs = map Inr ds" and "prefix part (concat (map frame ds))"
    and "read_events parse fin part = (got, r)"
  shows "prefix got evs \<and> (r = Inr () \<longleftrightarrow> (\<exists>xs z. got = xs @ [z] \<and> ev_op z = OpEnd))
    \<and> (\<forall>x \<in> set (butlast got). ev_op x \<noteq> OpEnd)
    \<and> (part = concat (map frame ds) \<longrightarrow> list_all (fits frame) ds \<longrightarrow> (\<forall>x \<in> set (butlast evs). ev_op x \<noteq> OpEnd)
         \<longrightarrow> got = evs)"
  using assms(2-4)
proof (induction evs arbitrary: ds part got r)
  case Nil
  then have "got = []" "r = Inl (broken_off fin)" by (auto simp: read_events_def raw_lines_def)
  then show ?case by simp
next
  case (Cons ev evs)
  then obtain d ds1 where ds: "ds = d # ds1" "enc ev = Inr d" "map enc evs = map Inr ds1" by (cases ds) auto
  have law: "one_line d" using assms(1) ds(2) by (auto simp: wire_law_def)
  then obtain sp where sp: "sp \<in> {[], '' ''}" "frame d = (''data:'' @ sp @ d @ newline) @ newline"
    using assms(1) by (auto simp: wire_law_def)
  show ?case
  proof (cases "prefix (frame d) part")
    case False
    then have "prefix part (frame d)" "part \<noteq> frame d" using Cons.prems(2) ds(1) by (auto simp: prefix_append)
    then have "prefix part (''data:'' @ sp @ d @ newline)"
      unfolding sp(2) newline_def prefix_snoc by (simp add: newline_def)
    then have "prefix part ((''data:'' @ sp @ d) @ newline)" by simp
    from read_open [OF data_line(1) [OF law sp(1)] this, of parse fin] Cons.prems(3)
    have "got = []" "r \<noteq> Inr ()" by auto
    then show ?thesis using False ds(1) by auto
  next
    case True
    then obtain rest where rest: "part = frame d @ rest" "prefix rest (concat (map frame ds1))"
      using Cons.prems(2) ds(1) by (auto simp: prefix_def)
    obtain got1 r1 where g: "read_events parse fin rest = (got1, r1)" by (rule prod.exhaust)
    note F = read_frame [OF assms(1) ds(2), of fin rest, folded rest(1), unfolded Cons.prems(3) g]
    note IH = Cons.IH [OF ds(3) rest(2) g]
    show ?thesis
    proof (cases "fits frame d \<and> ev_op ev \<noteq> OpEnd")
      case True
      then have "got = ev # got1" "r = r1" using F by (auto simp: fits_def)
      moreover have "(\<exists>xs z. ev # got1 = xs @ [z] \<and> ev_op z = OpEnd) \<longleftrightarrow> (\<exists>xs z. got1 = xs @ [z] \<and> ev_op z = OpEnd)"
        using True by (auto simp: Cons_eq_append_conv)
      ultimately show ?thesis using IH True ds(1) rest(1) by (auto split: if_splits)
    next
      case False
      then have "(got = [] \<and> r \<noteq> Inr () \<and> \<not> fits frame d) \<or> (got = [ev] \<and> r = Inr () \<and> ev_op ev = OpEnd)"
        using F by (auto simp: fits_def split: if_splits)
      then show ?thesis using ds(1) by (auto split: if_splits)
    qed
  qed
qed

text \<open>
  C29: what a caller of \<^verbatim>\<open>Call.Stream\<close> receives is the listener's stream, as far as the connection carried it.
  Wherever the response breaks off and whatever the network does then, the events received are a front
  part of those the listener delivered: they start with a snapshot and apply one after the other. The
  stream reports success exactly when it received the end, and then it received everything; a whole
  response of a finished message whose events fit the reader's buffer is received as a success.
\<close>
theorem stream_reaches_caller:
  assumes "stream_run_handler D frame i s s1 xs = Inr body"
    and "stream_law (dp_env D)" and "wire_law (e_marshal (dp_env D)) parse frame"
    and "prefix part body" and "call_stream parse (Opened 200 t envelope part fin) = (evs, r)"
  shows "\<exists>run l0 ys l. get_harness_run_state i s = Inr run \<and> listen_start (dp_env D) (hn_message run) s1 = Inr l0
    \<and> prefix ys xs \<and> listen_run (dp_env D) (hn_message run) ys l0 = Inr l \<and> prefix evs (ml_out l)
    \<and> (evs \<noteq> [] \<longrightarrow> ev_op (hd evs) = OpStart
         \<and> (\<exists>n \<le> ml_revision l. read_view (ev_seq (hd evs)) (tl evs) = Some n))
    \<and> (r = Inr () \<longleftrightarrow> evs \<noteq> [] \<and> ev_op (last evs) = OpEnd) \<and> (r = Inr () \<longrightarrow> evs = ml_out l \<and> ml_done l)
    \<and> (part = body \<and> ml_done l \<and> (\<forall>ev \<in> set (ml_out l). \<exists>d. e_marshal (dp_env D) ev = Inr d \<and> fits frame d)
         \<longrightarrow> r = Inr ())"
proof -
  let ?e = "dp_env D"
  obtain outs er where o: "svc_stream_run ?e i s s1 xs = (outs, er)" by (rule prod.exhaust)
  obtain ds er1 where w: "written (e_marshal ?e) outs = (ds, er1)" by (rule prod.exhaust)
  have body: "body = concat (map frame ds)" "ds \<noteq> []"
    using assms(1) o w by (auto simp: stream_run_handler_def stream_response_def split: if_splits)
  obtain us where us: "prefix us outs" "map (e_marshal ?e) us = map Inr ds" "er1 = None \<longrightarrow> us = outs"
    using written_prefix [OF w] by blast
  have "outs \<noteq> []" using w body(2) by auto
  then obtain run l0 l where l: "get_harness_run_state i s = Inr run" "listen_start ?e (hn_message run) s1 = Inr l0"
    "follow ?e (hn_message run) xs l0 = (l, er)" "outs = ml_out l"
    using o by (auto simp: svc_stream_run_def split: sum.splits prod.splits)
  obtain ys where ys: "prefix ys xs" "listen_run ?e (hn_message run) ys l0 = Inr l"
    using follow_run [OF l(3)] by blast
  have "read_events parse fin part = (evs, r)" using assms(5) by (simp add: call_stream_def response_error_def)
  note R = read_frames [OF assms(3) us(2) assms(4) [unfolded body] this, folded body(1)]
  obtain st rest where S: "outs = st # rest" "ev_op st = OpStart" "read_view (ev_seq st) rest = Some (ml_revision l)"
    "if ml_done l then \<exists>es z. rest = es @ [z] \<and> ev_op z = OpEnd \<and> (\<forall>x \<in> set es. ev_op x \<noteq> OpEnd)
       else \<forall>x \<in> set rest. ev_op x \<noteq> OpEnd"
    using listen_run_ok [OF assms(2) l(2) ys(2)] l(4) unfolding stream_ok_def by auto
  have pre: "prefix evs outs" using R us(1) by (meson prefix_order.trans)
  have applies: "ev_op (hd evs) = OpStart \<and> (\<exists>n \<le> ml_revision l. read_view (ev_seq (hd evs)) (tl evs) = Some n)" if ne: "evs \<noteq> []"
  proof -
    obtain more where more: "rest = tl evs @ more" "hd evs = st" using pre ne S(1) by (cases evs) (auto simp: prefix_def)
    then obtain n where "read_view (ev_seq st) (tl evs) = Some n" "read_view n more = Some (ml_revision l)"
      using S(3) by (auto simp: read_view_append split: option.splits)
    then show ?thesis using more(2) S(2) read_view_ge by auto
  qed
  have ends: "evs = outs \<and> ml_done l" if ok: "r = Inr ()"
  proof -
    obtain us' z where z: "evs = us' @ [z]" "ev_op z = OpEnd" using R ok by blast
    then obtain vs where vs: "outs = us' @ z # vs" using pre by (auto simp: prefix_def)
    then have "us' \<noteq> []" using S(1,2) z(2) by (cases us') auto
    then obtain us1 where rest: "rest = us1 @ z # vs" "us' = st # us1" using vs S(1) by (cases us') auto
    have over: "ml_done l" using S(4) rest z(2) by (auto split: if_splits)
    then obtain es z' where es: "rest = es @ [z']" "\<forall>x \<in> set es. ev_op x \<noteq> OpEnd" using S(4) by auto
    have "vs = []"
    proof (rule ccontr)
      assume "vs \<noteq> []"
      then have "es = us1 @ z # butlast vs" using es(1) rest(1) by (metis butlast_append butlast_snoc butlast.simps(2) list.distinct(1))
      then show False using es(2) z(2) by auto
    qed
    then show ?thesis using vs z(1) over by simp
  qed
  have whole: "r = Inr ()" if same: "part = body" and over: "ml_done l"
    and good: "\<forall>ev \<in> set outs. \<exists>d. e_marshal ?e ev = Inr d \<and> fits frame d"
  proof -
    have "written (e_marshal ?e) vs = (es, x) \<Longrightarrow> \<forall>ev \<in> set vs. \<exists>d. e_marshal ?e ev = Inr d \<and> fits frame d
        \<Longrightarrow> x = None \<and> list_all (fits frame) es" for vs es x
      by (induction vs arbitrary: es) (auto split: prod.splits)
    from this [OF w good] have "us = outs" "list_all (fits frame) ds" using us(3) by auto
    moreover obtain es z where "outs = st # es @ [z]" "ev_op z = OpEnd" "\<forall>x \<in> set es. ev_op x \<noteq> OpEnd"
      using S(1,4) over by auto
    ultimately show ?thesis using R same S(2) by (auto simp: butlast_append)
  qed
  have "r = Inr () \<longleftrightarrow> evs \<noteq> [] \<and> ev_op (last evs) = OpEnd"
    using R by (cases evs rule: rev_cases) auto
  then have "get_harness_run_state i s = Inr run \<and> listen_start ?e (hn_message run) s1 = Inr l0
    \<and> prefix ys xs \<and> listen_run ?e (hn_message run) ys l0 = Inr l \<and> prefix evs (ml_out l)
    \<and> (evs \<noteq> [] \<longrightarrow> ev_op (hd evs) = OpStart
         \<and> (\<exists>n \<le> ml_revision l. read_view (ev_seq (hd evs)) (tl evs) = Some n))
    \<and> (r = Inr () \<longleftrightarrow> evs \<noteq> [] \<and> ev_op (last evs) = OpEnd) \<and> (r = Inr () \<longrightarrow> evs = ml_out l \<and> ml_done l)
    \<and> (part = body \<and> ml_done l \<and> (\<forall>ev \<in> set (ml_out l). \<exists>d. e_marshal ?e ev = Inr d \<and> fits frame d)
         \<longrightarrow> r = Inr ())"
    using l(1,2) ys pre applies ends whole unfolding l(4) by blast
  then show ?thesis by blast
qed

text \<open>Events without a payload, written as a letter and the sequence number, on one line.\<close>

fun op_letter :: "ui_op \<Rightarrow> string" where
  "op_letter OpStart = ''s''"
| "op_letter OpEnd = ''e''"
| "op_letter OpPing = ''p''"
| "op_letter OpSet = ''t''"
| "op_letter OpAppend = ''a''"
| "op_letter (OpOther t) = []"

definition demo_wire :: "event \<Rightarrow> string result" where
  "demo_wire ev =
     (if ev = no_event\<lparr>ev_op := ev_op ev, ev_seq := ev_seq ev\<rparr> \<and> op_letter (ev_op ev) \<noteq> []
      then Inr (op_letter (ev_op ev) @ nat_str (ev_seq ev)) else Inl (ErrText ''event''))"

definition demo_unwire :: "string \<Rightarrow> string + event" where
  "demo_unwire d =
     (case d of
        [] \<Rightarrow> Inl ''empty''
      | c # cs \<Rightarrow>
          (case digits_val 0 cs of
             None \<Rightarrow> Inl ''number''
           | Some n \<Rightarrow> Inr (no_event\<lparr>ev_op := (if c = CHR ''s'' then OpStart else if c = CHR ''e'' then OpEnd
               else if c = CHR ''p'' then OpPing else if c = CHR ''t'' then OpSet else OpAppend), ev_seq := n\<rparr>)))"

definition demo_frame_text :: "string \<Rightarrow> string" where
  "demo_frame_text d = ''data: '' @ d @ newline @ newline"

lemma demo_wire_law: "wire_law demo_wire demo_unwire demo_frame_text"
proof -
  have "demo_unwire d = Inr ev \<and> one_line d" if "demo_wire ev = Inr d" for ev d
  proof -
    have ev: "ev = no_event\<lparr>ev_op := ev_op ev, ev_seq := ev_seq ev\<rparr>" "op_letter (ev_op ev) \<noteq> []"
      and d: "d = op_letter (ev_op ev) @ nat_str (ev_seq ev)"
      using that by (auto simp: demo_wire_def split: if_splits)
    have "line_feed \<notin> set (nat_str n)" "carriage_return \<notin> set (nat_str n)" for n
      by (rule nat_str_no_sep; simp add: line_feed_def carriage_return_def)+
    then have "one_line d" using ev(2) unfolding d one_line_def
      by (cases "ev_op ev") (simp_all add: line_feed_def carriage_return_def)
    moreover have "demo_unwire d = Inr (no_event\<lparr>ev_op := ev_op ev, ev_seq := ev_seq ev\<rparr>)"
      using ev(2) unfolding d demo_unwire_def by (cases "ev_op ev") (simp_all add: digits_val_nat_str)
    ultimately show ?thesis using ev by simp
  qed
  then show ?thesis by (auto simp: wire_law_def demo_frame_text_def)
qed

definition demo_streams :: "(kconv list, unit) deployment" where
  "demo_streams = demo_deployment\<lparr>dp_env := demo_env\<lparr>e_marshal := demo_wire\<rparr>\<rparr>"

definition demo_body :: string where
  "demo_body = concat (map demo_frame_text [''s1'', ''p1'', ''s3'', ''e3''])"

lemma demo_streamed:
  "stream_run_handler demo_streams demo_frame_text ''r1'' live_store live_store [LHeartbeat, LTick ended_store] = Inr demo_body"
  by code_simp

definition demo_got :: "event list" where
  "demo_got = map (\<lambda>(t, n). no_event\<lparr>ev_op := t, ev_seq := n\<rparr>) [(OpStart, 1), (OpPing, 1), (OpStart, 3), (OpEnd, 3)]"

lemma demo_received: "call_stream demo_unwire (Opened 200 [] None demo_body None) = (demo_got, Inr ())"
  by code_simp

lemma demo_streams_law: "stream_law (dp_env demo_streams)" "wire_law (e_marshal (dp_env demo_streams)) demo_unwire demo_frame_text"
  using demo_wire_law by (simp_all add: demo_streams_def stream_law_def demo_env_def no_event_def)

theorem stream_reaches_caller_witness:
  "\<exists>l0 ys l. call_stream demo_unwire (Opened 200 [] None demo_body None) = (demo_got, Inr ())
     \<and> listen_run (dp_env demo_streams) ''m1'' ys l0 = Inr l \<and> demo_got = ml_out l \<and> ml_done l"
proof -
  have run: "get_harness_run_state ''r1'' live_store = Inr run \<Longrightarrow> hn_message run = ''m1''" for run
    by (auto simp: get_harness_run_state_def live_store_def live_run_def get_run_def no_request_def mapped_def option_or_def)
  show ?thesis
    using stream_reaches_caller [OF demo_streamed demo_streams_law prefix_order.refl demo_received] run demo_received by metis
qed

end
