(* ===== verification/Startup.thy ===== *)
theory Startup
  imports LongHorizon Router ManagedAgent
begin

text \<open>
  Starting the processes: the server's settings from the environment (\<^verbatim>\<open>cmd/loop-server\<close>), its assembly
  (\<^verbatim>\<open>server/server.go\<close>), the opening of the database with its schema checks and renames
  (\<^verbatim>\<open>repo.Open\<close>, \<^verbatim>\<open>server/internal/migrations\<close>), and the settings of the operators. The environment is a
  function from names to values; \<open>duration\<close> is \<^verbatim>\<open>time.ParseDuration\<close>; the database driver, Redis and the
  schema migrator of the ORM are calls over an unknown state. Quoted values are left out of error texts.
\<close>

section \<open>The environment\<close>

definition env_or :: "(string \<Rightarrow> string) \<Rightarrow> string \<Rightarrow> string \<Rightarrow> string" where
  "env_or getenv name fallback = (if getenv name \<noteq> [] then getenv name else fallback)"

definition env_positive :: "(string \<Rightarrow> string) \<Rightarrow> string \<Rightarrow> int \<Rightarrow> int result" where
  "env_positive getenv name fallback =
     (if getenv name = [] then Inr fallback
      else case atoi (getenv name) of
        None \<Rightarrow> Inl (ErrText (name @ '' must be a positive integer''))
      | Some n \<Rightarrow> if n \<le> 0 then Inl (ErrText (name @ '' must be a positive integer'')) else Inr n)"

definition env_duration :: "(string \<Rightarrow> string) \<Rightarrow> (string \<Rightarrow> int option) \<Rightarrow> string \<Rightarrow> int \<Rightarrow> int result" where
  "env_duration getenv duration name fallback =
     (if getenv name = [] then Inr fallback
      else case duration (getenv name) of
        None \<Rightarrow> Inl (ErrText (name @ '' must be a positive duration''))
      | Some d \<Rightarrow> if d \<le> 0 then Inl (ErrText (name @ '' must be a positive duration'')) else Inr d)"

text \<open>
  \<^verbatim>\<open>strings.ToLower\<close> on the bytes of a name. Two letters outside ASCII have an ASCII lower case, the dotted
  capital I and the Kelvin sign; the case of the others does not matter to a comparison with an ASCII word.
\<close>

definition ascii_lower :: "char \<Rightarrow> char" where
  "ascii_lower c = (if CHR ''A'' \<le> c \<and> c \<le> CHR ''Z'' then char_of ((of_char c :: nat) + 32) else c)"

fun to_lower :: "string \<Rightarrow> string" where
  "to_lower [] = []"
| "to_lower (a # cs) =
     (case cs of
        b # rest \<Rightarrow>
          if a = CHR 0xC4 \<and> b = CHR 0xB0 then CHR ''i'' # to_lower rest
          else (case rest of
              c # others \<Rightarrow>
                if a = CHR 0xE2 \<and> b = CHR 0x84 \<and> c = CHR 0xAA then CHR ''k'' # to_lower others
                else ascii_lower a # to_lower cs
            | [] \<Rightarrow> ascii_lower a # to_lower cs)
      | [] \<Rightarrow> [ascii_lower a])"

section \<open>The server's settings\<close>

record cmd_config =
  cc_concurrency :: int
  cc_message_ttl :: int
  cc_content_max :: int
  cc_address :: string
  cc_driver :: string
  cc_dsn :: string
  cc_redis_address :: string
  cc_redis_username :: string
  cc_redis_password :: string
  cc_namespace :: string
  cc_client_timeout :: int
  cc_read_timeout :: int
  cc_idle_timeout :: int
  cc_shutdown_timeout :: int

text \<open>Settings of earlier versions, each with what replaced it: a start that would ignore one is refused.\<close>

definition legacy_settings :: "(string \<times> string) list" where
  "legacy_settings =
     [(''LOOP_SERVER_MYSQL_DSN'', ''DATABASE_DRIVER=mysql and DATABASE_DSN''),
      (''LOOP_SERVER_SQLITE_PATH'', ''DATABASE_DRIVER=sqlite and DATABASE_DSN''),
      (''LOOP_SERVER_ADDR'', ''SERVER_ADDRESS''),
      (''LOOP_SERVER_REDIS_ADDR'', ''REDIS_ADDRESS''),
      (''LOOP_SERVER_REDIS_USERNAME'', ''REDIS_USERNAME''),
      (''LOOP_SERVER_REDIS_PASSWORD'', ''REDIS_PASSWORD''),
      (''LOOP_SERVER_TASK_NAMESPACE'', ''TASK_NAMESPACE'')]"

definition default_concurrency :: int where "default_concurrency = 50"

definition default_message_ttl :: int where "default_message_ttl = 24 * 60 * 60 * 1000000000"

definition default_content_max :: int where "default_content_max = 64 * 1024"

definition seconds :: "int \<Rightarrow> int" where "seconds n = n * 1000000000"

definition database_settings :: "(string \<Rightarrow> string) \<Rightarrow> (string \<times> string) result" where
  "database_settings getenv =
     (let driver = to_lower (trim_space (env_or getenv ''DATABASE_DRIVER'' ''sqlite''));
          dsn = getenv ''DATABASE_DSN''
      in if driver = ''sqlite'' then Inr (driver, if dsn = [] then ''loopd.db'' else dsn)
         else if driver = ''mysql'' then
           (if dsn = [] then Inl (ErrText ''DATABASE_DSN is required when DATABASE_DRIVER is set'') else Inr (driver, dsn))
         else Inl (ErrText ''unsupported DATABASE_DRIVER''))"

definition load_config :: "(string \<Rightarrow> string) \<Rightarrow> (string \<Rightarrow> int option) \<Rightarrow> cmd_config result" where
  "load_config getenv duration =
     (case find (\<lambda>(name, _). getenv name \<noteq> []) legacy_settings of
        Some (name, replacement) \<Rightarrow>
          Inl (ErrText (name @ '' is no longer supported; remove it and configure '' @ replacement))
      | None \<Rightarrow>
          bindR (database_settings getenv) (\<lambda>(driver, dsn).
          bindR (env_duration getenv duration ''MESSAGE_TTL'' default_message_ttl) (\<lambda>ttl.
          bindR (env_duration getenv duration ''TASK_CLIENT_TIMEOUT'' (seconds 10)) (\<lambda>client.
          bindR (env_duration getenv duration ''HTTP_READ_TIMEOUT'' (seconds 30)) (\<lambda>read.
          bindR (env_duration getenv duration ''HTTP_IDLE_TIMEOUT'' (seconds 90)) (\<lambda>idle.
          bindR (env_duration getenv duration ''SHUTDOWN_TIMEOUT'' (seconds 15)) (\<lambda>shutdown.
          bindR (env_positive getenv ''HARNESS_RUN_CONCURRENCY'' default_concurrency) (\<lambda>concurrency.
          bindR (env_positive getenv ''CONTENT_MAX_BYTES'' default_content_max) (\<lambda>content.
            if default_content_max < content
            then Inl (ErrText ''CONTENT_MAX_BYTES must not exceed 65536'')
            else Inr
              \<lparr>cc_concurrency = concurrency, cc_message_ttl = ttl, cc_content_max = content,
               cc_address = env_or getenv ''SERVER_ADDRESS'' '':8080'', cc_driver = driver, cc_dsn = dsn,
               cc_redis_address = env_or getenv ''REDIS_ADDRESS'' ''127.0.0.1:6379'',
               cc_redis_username = getenv ''REDIS_USERNAME'', cc_redis_password = getenv ''REDIS_PASSWORD'',
               cc_namespace = env_or getenv ''TASK_NAMESPACE'' ''default'', cc_client_timeout = client,
               cc_read_timeout = read, cc_idle_timeout = idle, cc_shutdown_timeout = shutdown\<rparr>)))))))))"

section \<open>The configured harnesses\<close>

text \<open>
  The file named by \<^verbatim>\<open>HARNESS_CONFIG_FILE\<close> maps keys to settings; \<open>read\<close> is its content, decoded, in the order
  in which the map is gone through. \<open>model\<close> is the error of building a model for a provider.
\<close>

record harness_config =
  hc_provider :: string
  hc_model_provider :: string
  hc_model :: string
  hc_api_key_env :: string
  hc_base_url :: string
  hc_agent :: string
  hc_environment :: string
  hc_idempotent :: bool
  hc_workspace :: string
  hc_tools :: string

datatype configured_harness = ManagedHarness managed_config | AgentgoHarness harness_config

definition file_tools :: "string \<Rightarrow> bool" where
  "file_tools mode \<longleftrightarrow> mode = ''read'' \<or> mode = ''write''"

definition configured :: 
    "(string \<Rightarrow> string) \<Rightarrow> (harness_config \<Rightarrow> err option) \<Rightarrow> string \<times> harness_config \<Rightarrow> configured_harness result" where
  "configured getenv model kc =
     (case kc of (key, c) \<Rightarrow>
      if key = [] then Inl (ErrText ''Harness key is required'')
      else if hc_provider c = ''managedagent'' then
        bindR (managed_new
          \<lparr>mc_idempotent = hc_idempotent c, mc_api_key = getenv (hc_api_key_env c), mc_agent = hc_agent c,
           mc_environment = hc_environment c, mc_configure = None, mc_http_timeout = 0, mc_stream_timeout = 0,
           mc_connections = 0, mc_previews = False\<rparr>) (\<lambda>m. Inr (ManagedHarness m))
      else if hc_provider c = ''agentgo'' then
        (if hc_tools c \<noteq> [] \<and> hc_tools c \<noteq> ''none'' \<and> \<not> file_tools (hc_tools c)
         then Inl (ErrText (''Harness '' @ key @ '': invalid tools mode''))
         else if file_tools (hc_tools c) \<and> hc_workspace c = []
         then Inl (ErrText (''Harness '' @ key @ '': workspace_root is required for file tools''))
         else case model c of Some er \<Rightarrow> Inl er | None \<Rightarrow> Inr (AgentgoHarness c))
      else Inl (ErrText (''Harness '' @ key @ '': unknown provider'')))"

definition load_harnesses ::
    "(string \<Rightarrow> string) \<Rightarrow> (string \<Rightarrow> (string \<times> harness_config) list result) \<Rightarrow> (harness_config \<Rightarrow> err option)
     \<Rightarrow> (string \<times> configured_harness) list result" where
  "load_harnesses getenv read model =
     (if getenv ''HARNESS_CONFIG_FILE'' = [] then Inr []
      else bindR (read (getenv ''HARNESS_CONFIG_FILE'')) (\<lambda>cs.
        foldR (\<lambda>hs kc. bindR (configured getenv model kc) (\<lambda>h. Inr (hs @ [(fst kc, h)]))) [] cs))"

text \<open>
  The tools of one call to an agent: those of the deployment, in a directory of the call's scope, which \<open>dir\<close>
  creates.
\<close>

definition agent_tools :: "harness_config \<Rightarrow> unit result \<Rightarrow> string list \<Rightarrow> string list result" where
  "agent_tools c dir requested =
     (if requested \<noteq> [] then Inl (ErrText ''agentgo demo uses deployment-configured tools'')
      else if \<not> file_tools (hc_tools c) then Inr []
      else bindR dir (\<lambda>_. Inr ([''read'', ''ls'', ''glob'', ''grep'']
             @ (if hc_tools c = ''write'' then [''bash'', ''write'', ''edit''] else []))))"

section \<open>The schema\<close>

text \<open>The migrator of the ORM, over the state of a database: tables and columns by name.\<close>

record 'w migrator =
  mg_table :: "string \<Rightarrow> 'w \<Rightarrow> bool"
  mg_column :: "string \<Rightarrow> string \<Rightarrow> 'w \<Rightarrow> bool"
  mg_columns :: "string \<Rightarrow> 'w \<Rightarrow> string list result"
  mg_rename :: "string \<Rightarrow> string \<Rightarrow> string \<Rightarrow> 'w \<Rightarrow> unit result \<times> 'w"
  mg_index :: "string \<Rightarrow> string \<Rightarrow> 'w \<Rightarrow> bool"
  mg_rename_index :: "string \<Rightarrow> string \<Rightarrow> string \<Rightarrow> 'w \<Rightarrow> unit result \<times> 'w"

definition obsolete_columns :: "(string \<times> string list) list" where
  "obsolete_columns =
     [(''conversations'', [''parent_message_id'', ''task_id'', ''parent_conversation_id'']),
      (''messages'', [''reply_to_message_id'', ''purpose'', ''kind'', ''actor_key'', ''key'', ''sender_key''])]"

definition recreate :: "string \<Rightarrow> err" where
  "recreate what = ErrText (''incompatible development schema '' @ what
     @ '': explicitly recreate the development database before starting this version'')"

definition no_obsolete :: "'w migrator \<Rightarrow> 'w \<Rightarrow> string \<times> string list \<Rightarrow> unit result" where
  "no_obsolete M w x =
     (case x of (table, names) \<Rightarrow>
      if \<not> mg_table M table w then Inr ()
      else bindR (mg_columns M table w) (\<lambda>cs.
        case find (\<lambda>c. c \<in> set names) cs of
          Some c \<Rightarrow> Inl (recreate (table @ ''.'' @ c))
        | None \<Rightarrow> Inr ()))"

definition current_schema :: "'w migrator \<Rightarrow> 'w \<Rightarrow> unit result" where
  "current_schema M w =
     (if mg_table M ''message_parts'' w \<and> \<not> mg_column M ''message_parts'' ''group_id'' w
      then Inl (recreate ''message_parts'')
      else foldR (\<lambda>_ x. no_obsolete M w x) () obsolete_columns)"

text \<open>One legacy column is renamed in place, then its index, unless the new one is there already.\<close>

definition index_name :: "string \<Rightarrow> string \<Rightarrow> string" where
  "index_name table column = ''idx_'' @ table @ ''_'' @ column"

definition rename_index :: "'w migrator \<Rightarrow> string \<Rightarrow> string \<Rightarrow> string \<Rightarrow> 'w \<Rightarrow> unit result \<times> 'w" where
  "rename_index M table old new w =
     (if mg_index M table (index_name table old) w \<and> \<not> mg_index M table (index_name table new) w
      then mg_rename_index M table (index_name table old) (index_name table new) w
      else (Inr (), w))"

definition rename_column :: "'w migrator \<Rightarrow> string \<Rightarrow> string \<Rightarrow> string \<Rightarrow> 'w \<Rightarrow> unit result \<times> 'w" where
  "rename_column M table old new w =
     (if \<not> mg_table M table w then (Inr (), w)
      else case mg_columns M table w of
        Inl er \<Rightarrow> (Inl er, w)
      | Inr cs \<Rightarrow>
          if old \<in> set cs \<and> new \<in> set cs
          then (Inl (ErrText (table @ '' has both '' @ old @ '' and '' @ new
                  @ ''; resolve the conflicting columns before startup'')), w)
          else case (if old \<in> set cs then mg_rename M table old new w else (Inr (), w)) of
            (Inl er, w1) \<Rightarrow> (Inl er, w1)
          | (Inr _, w1) \<Rightarrow> rename_index M table old new w1)"

definition domain_keys :: "'w migrator \<Rightarrow> 'w \<Rightarrow> unit result \<times> 'w" where
  "domain_keys M w =
     (case rename_column M ''operators'' ''key'' ''operator_key'' w of
        (Inl er, w1) \<Rightarrow> (Inl er, w1)
      | (Inr _, w1) \<Rightarrow> rename_column M ''harnesses'' ''key'' ''harness_key'' w1)"

section \<open>Opening the database\<close>

record db_config =
  db_content_max :: int
  db_driver :: string
  db_dsn :: string
  db_timeout :: int
  db_max_open :: int
  db_max_idle :: int
  db_lifetime :: int
  db_idle_time :: int

definition default_to :: "int \<Rightarrow> int \<Rightarrow> int" where
  "default_to d x = (if x \<le> 0 then d else x)"

text \<open>
  \<open>mysql\<close> parses a MySQL data source name, sets its time zone, character set and timeouts, and prints it;
  SQLite is held to one connection.
\<close>

definition database_dialector :: "(string \<Rightarrow> int \<Rightarrow> string result) \<Rightarrow> db_config \<Rightarrow> (string \<times> string) result" where
  "database_dialector mysql c =
     (let driver = (let d = to_lower (trim_space (db_driver c)) in if d = [] then ''sqlite'' else d)
      in if driver = ''sqlite'' then Inr (driver, if db_dsn c = [] then ''loopd.db'' else db_dsn c)
         else if driver = ''mysql'' then bindR (mysql (db_dsn c) (db_timeout c)) (\<lambda>dsn. Inr (driver, dsn))
         else Inl (ErrText ''unsupported database driver''))"

definition open_config :: "(string \<Rightarrow> int \<Rightarrow> string result) \<Rightarrow> db_config \<Rightarrow> db_config result" where
  "open_config mysql c =
     (let content = (if db_content_max c = 0 then default_content_max else db_content_max c)
      in if content < 0 \<or> default_content_max < content
         then Inl (ErrText ''content max bytes must be between 1 and 65536'')
         else
           let c1 = c\<lparr>db_content_max := content, db_timeout := default_to (seconds 10) (db_timeout c),
                  db_lifetime := default_to (seconds 1800) (db_lifetime c),
                  db_idle_time := default_to (seconds 300) (db_idle_time c)\<rparr>
           in bindR (database_dialector mysql c1) (\<lambda>(driver, dsn).
              let opened = (if driver = ''sqlite'' then 1 else default_to 32 (db_max_open c));
                  idle = (if driver = ''sqlite'' then 1 else default_to 8 (db_max_idle c))
              in if opened < idle
                 then Inl (ErrText ''database max idle connections exceeds max open connections'')
                 else Inr (c1\<lparr>db_driver := driver, db_dsn := dsn, db_max_open := opened, db_max_idle := idle\<rparr>)))"

text \<open>
  What a process holds open: \<open>ho_open\<close> is \<^verbatim>\<open>gorm.Open\<close>, \<open>ho_pool\<close> is \<^verbatim>\<open>db.DB\<close>, which gives the pool, with its limits
  then set; \<open>ho_redis\<close> builds a Redis client, \<open>ho_pong\<close> is its answer to a ping; \<open>ho_auto\<close> creates the
  missing tables and columns.
\<close>

record redis_config =
  rx_address :: string
  rx_username :: string
  rx_password :: string
  rx_db :: int
  rx_dial :: int
  rx_read :: int
  rx_write :: int
  rx_pool :: int
  rx_min_idle :: int
  rx_block :: int
  rx_count :: int
  rx_prefix :: string

record 'w host =
  ho_open :: "db_config \<Rightarrow> 'w \<Rightarrow> unit result \<times> 'w"
  ho_pool :: "db_config \<Rightarrow> 'w \<Rightarrow> unit result \<times> 'w"
  ho_ping :: "'w \<Rightarrow> unit result \<times> 'w"
  ho_migrator :: "'w migrator"
  ho_auto :: "'w \<Rightarrow> unit result \<times> 'w"
  ho_close :: "'w \<Rightarrow> 'w"
  ho_redis :: "redis_config \<Rightarrow> 'w \<Rightarrow> 'w"
  ho_pong :: "'w \<Rightarrow> unit result \<times> 'w"
  ho_close_redis :: "'w \<Rightarrow> 'w"

text \<open>
  Every step from the ping on that fails closes the database. A failure of \<^verbatim>\<open>gorm.Open\<close> or of \<^verbatim>\<open>db.DB\<close> returns
  as it is: there is no pool yet to close.
\<close>

definition or_close :: "('w \<Rightarrow> 'w) \<Rightarrow> unit result \<times> 'w \<Rightarrow> ('w \<Rightarrow> 'a result \<times> 'w) \<Rightarrow> 'a result \<times> 'w" where
  "or_close close x go = (case x of (Inl er, w) \<Rightarrow> (Inl er, close w) | (Inr _, w) \<Rightarrow> go w)"

definition repo_open ::
    "'w host \<Rightarrow> (string \<Rightarrow> int \<Rightarrow> string result) \<Rightarrow> db_config \<Rightarrow> 'w \<Rightarrow> db_config result \<times> 'w" where
  "repo_open H mysql c w =
     (case open_config mysql c of
        Inl er \<Rightarrow> (Inl er, w)
      | Inr c1 \<Rightarrow>
          (case ho_open H c1 w of
             (Inl er, w1) \<Rightarrow> (Inl er, w1)
           | (Inr _, w1) \<Rightarrow>
               (case ho_pool H c1 w1 of
                  (Inl er, w2) \<Rightarrow> (Inl er, w2)
                | (Inr _, w2) \<Rightarrow>
                    or_close (ho_close H) (ho_ping H w2) (\<lambda>w3.
                    or_close (ho_close H) (current_schema (ho_migrator H) w3, w3) (\<lambda>w4.
                    or_close (ho_close H) (domain_keys (ho_migrator H) w4) (\<lambda>w5.
                    or_close (ho_close H) (ho_auto H w5) (\<lambda>w6. (Inr c1, w6))))))))"

section \<open>The server\<close>

definition redis_defaults :: "redis_config \<Rightarrow> redis_config" where
  "redis_defaults c =
     c\<lparr>rx_address := (if rx_address c = [] then ''127.0.0.1:6379'' else rx_address c),
       rx_dial := default_to (seconds 5) (rx_dial c), rx_read := default_to (seconds 5) (rx_read c),
       rx_write := default_to (seconds 5) (rx_write c), rx_pool := default_to 20 (rx_pool c),
       rx_min_idle := (if rx_min_idle c < 0 then 0 else rx_min_idle c),
       rx_block := default_to (seconds 1) (rx_block c), rx_count := default_to 100 (rx_count c),
       rx_prefix := (if rx_prefix c = [] then ''loopd:agentue'' else rx_prefix c)\<rparr>"

definition new_event_bridge :: "'w host \<Rightarrow> redis_config \<Rightarrow> 'w \<Rightarrow> redis_config result \<times> 'w" where
  "new_event_bridge H c w =
     (let c1 = redis_defaults c
      in or_close (ho_close_redis H) (ho_pong H (ho_redis H c1 w)) (\<lambda>w1. (Inr c1, w1)))"

record server_config =
  sg_concurrency :: int
  sg_message_ttl :: int
  sg_conversations :: bool
  sg_database :: db_config
  sg_redis :: redis_config

text \<open>The settings the assembled components run with.\<close>

record assembled =
  am_concurrency :: int
  am_message_ttl :: int
  am_sweep_interval :: int
  am_sweep_batch :: nat
  am_database :: db_config
  am_bridge :: redis_config

definition server_new ::
    "'w host \<Rightarrow> (string \<Rightarrow> int \<Rightarrow> string result) \<Rightarrow> server_config \<Rightarrow> 'w \<Rightarrow> assembled result \<times> 'w" where
  "server_new H mysql c w =
     (if sg_concurrency c < 0 then (Inl (ErrText ''Harness run concurrency must be positive''), w)
      else if sg_message_ttl c < 0 then (Inl (ErrText ''message TTL must be positive''), w)
      else if \<not> sg_conversations c then (Inl (ErrText ''conversation coordinator is required''), w)
      else case repo_open H mysql (sg_database c) w of
        (Inl er, w1) \<Rightarrow> (Inl er, w1)
      | (Inr db, w1) \<Rightarrow>
          (case new_event_bridge H (sg_redis c) w1 of
             (Inl er, w2) \<Rightarrow> (Inl er, ho_close H w2)
           | (Inr bridge, w2) \<Rightarrow>
               (Inr \<lparr>am_concurrency = (if sg_concurrency c = 0 then default_concurrency else sg_concurrency c),
                     am_message_ttl = (if sg_message_ttl c = 0 then default_message_ttl else sg_message_ttl c),
                     am_sweep_interval = seconds 1, am_sweep_batch = 100,
                     am_database = db, am_bridge = bridge\<rparr>, w2)))"

definition config_of :: "cmd_config \<Rightarrow> server_config" where
  "config_of c =
     \<lparr>sg_concurrency = cc_concurrency c, sg_message_ttl = cc_message_ttl c, sg_conversations = True,
      sg_database = \<lparr>db_content_max = cc_content_max c, db_driver = cc_driver c, db_dsn = cc_dsn c, db_timeout = 0,
        db_max_open = 0, db_max_idle = 0, db_lifetime = 0, db_idle_time = 0\<rparr>,
      sg_redis = \<lparr>rx_address = cc_redis_address c, rx_username = cc_redis_username c,
        rx_password = cc_redis_password c, rx_db = 0, rx_dial = 0, rx_read = 0, rx_write = 0, rx_pool = 0,
        rx_min_idle = 0, rx_block = 0, rx_count = 0, rx_prefix = []\<rparr>\<rparr>"

text \<open>\<open>kube\<close> is the error of building the Kubernetes client. The server is returned before it serves.\<close>

definition start_server ::
    "(string \<Rightarrow> string) \<Rightarrow> (string \<Rightarrow> int option) \<Rightarrow> (string \<Rightarrow> (string \<times> harness_config) list result)
     \<Rightarrow> (harness_config \<Rightarrow> err option) \<Rightarrow> err option \<Rightarrow> (string \<Rightarrow> int \<Rightarrow> string result) \<Rightarrow> 'w host \<Rightarrow> 'w
     \<Rightarrow> (cmd_config \<times> (string \<times> configured_harness) list \<times> assembled) result \<times> 'w" where
  "start_server getenv duration read model kube mysql H w =
     (case load_config getenv duration of
        Inl er \<Rightarrow> (Inl er, w)
      | Inr c \<Rightarrow>
          (case kube of
             Some er \<Rightarrow> (Inl er, w)
           | None \<Rightarrow>
               (case load_harnesses getenv read model of
                  Inl er \<Rightarrow> (Inl er, w)
                | Inr hs \<Rightarrow>
                    (case server_new H mysql (config_of c) w of
                       (Inl er, w1) \<Rightarrow> (Inl er, w1)
                     | (Inr a, w1) \<Rightarrow> (Inr (c, hs, a), w1)))))"

section \<open>The operators' settings\<close>

definition load_router :: "(string \<Rightarrow> string) \<Rightarrow> (router_config \<times> int) result" where
  "load_router getenv =
     bindR (env_positive getenv ''LOOP_ROUTER_MAX_SUBTASKS'' 4) (\<lambda>subtasks.
     bindR (router_new \<lparr>rc_target = env_or getenv ''LOOP_ROUTER_HARNESS_TARGET'' ''agentgo'', rc_max = subtasks\<rparr>) (\<lambda>c.
     bindR (env_positive getenv ''LOOP_ROUTER_CONCURRENCY'' 4) (\<lambda>n. Inr (c, n))))"

text \<open>
  \<^verbatim>\<open>Atoi\<close> of the number of rounds is checked before it becomes an \<^verbatim>\<open>int32\<close>; a timeout that is not set stays
  zero and is given its default by \<^verbatim>\<open>Setup\<close>.
\<close>

definition longhorizon_setup :: "lh_config \<Rightarrow> lh_config result" where
  "longhorizon_setup c =
     (let c1 = config_defaults c
      in if 1000 < lf_max_rounds c1 then Inl (ErrText ''max rounds must not exceed 1000'') else Inr c1)"

definition load_longhorizon :: "(string \<Rightarrow> string) \<Rightarrow> (string \<Rightarrow> int option) \<Rightarrow> lh_config result" where
  "load_longhorizon getenv duration =
     (case atoi (env_or getenv ''LOOP_LH_MAX_ROUNDS'' ''25'') of
        None \<Rightarrow> Inl (ErrText ''LOOP_LH_MAX_ROUNDS must be between 1 and 1000'')
      | Some n \<Rightarrow>
          if n < 1 \<or> 1000 < n then Inl (ErrText ''LOOP_LH_MAX_ROUNDS must be between 1 and 1000'')
          else
            bindR (env_duration getenv duration ''LOOP_LH_RUN_TIMEOUT'' 0) (\<lambda>run.
            bindR (env_duration getenv duration ''LOOP_LH_RETENTION_TTL'' 0) (\<lambda>retention.
            bindR (env_duration getenv duration ''LOOP_LH_MANAGER_TIMEOUT'' 0) (\<lambda>manager.
            bindR (env_duration getenv duration ''LOOP_LH_EXECUTOR_TIMEOUT'' 0) (\<lambda>executor.
            bindR (env_duration getenv duration ''LOOP_LH_AUDITOR_TIMEOUT'' 0) (\<lambda>auditor.
            bindR (env_duration getenv duration ''LOOP_LH_HUMAN_TIMEOUT'' 0) (\<lambda>human.
              longhorizon_setup
                \<lparr>lf_run_timeout = run, lf_retention = retention, lf_max_rounds = n, lf_manager = [], lf_executor = [],
                 lf_auditor = [], lf_manager_timeout = manager, lf_executor_timeout = executor,
                 lf_auditor_timeout = auditor, lf_human_timeout = human\<rparr>)))))))"

end
