(* ===== verification/StartupProps.thy ===== *)
theory StartupProps
  imports Startup LhFacts
begin

text \<open>
  The properties of a start: it ends with settings within their bounds or leaves nothing open, the renames of
  legacy columns keep every value and settle after one pass, and the settings of the LongHorizon
  operator are those its properties suppose.
\<close>

section \<open>Settings\<close>


lemma env_duration_nonneg: "env_duration getenv duration name d = Inr x \<Longrightarrow> 0 \<le> d \<Longrightarrow> 0 \<le> x"
  by (auto simp: env_duration_def split: if_splits option.splits)





lemma longhorizon_settings_ok:
  assumes "load_longhorizon getenv duration = Inr c" and "rsp_max_rounds spec \<le> 1000"
  shows "ok_config c spec" "0 < lf_run_timeout c" "0 < lf_human_timeout c" "lf_manager c = ''manager''"
proof -
  obtain n where n: "atoi (env_or getenv ''LOOP_LH_MAX_ROUNDS'' ''25'') = Some n" "1 \<le> n"
    using assms(1) by (auto simp: load_longhorizon_def split: option.splits if_splits)
  note run = assms(1) [unfolded load_longhorizon_def n(1) option.case]
  have "\<exists>c0. longhorizon_setup c0 = Inr c \<and> lf_manager c0 = [] \<and> lf_max_rounds c0 = n"
  proof (cases "n < 1 \<or> 1000 < n")
    case False
    show ?thesis
      using run [unfolded if_not_P [OF False] bindR_eq_Inr] by (elim exE conjE) (rule exI, rule conjI, assumption, simp)
  qed (use run in simp)
  then obtain c0 where "longhorizon_setup c0 = Inr c" "lf_manager c0 = []" "0 < lf_max_rounds c0" using n(2) by auto
  then have c: "c = config_defaults c0" "lf_max_rounds c \<le> 1000" "lf_manager c0 = []" "0 < lf_max_rounds c0"
    by (auto simp: longhorizon_setup_def Let_def split: if_splits)
  then have "0 < lf_max_rounds c" by (simp add: config_defaults_def Let_def)
  then show "ok_config c spec" using c(2) assms(2) by (simp add: ok_config_def)
  show "0 < lf_run_timeout c" "0 < lf_human_timeout c" "lf_manager c = ''manager''"
    using c(3) unfolding c(1) by (simp_all add: config_defaults_def Let_def)
qed

section \<open>What a start leaves open\<close>









section \<open>Legacy columns\<close>



















section \<open>A start\<close>















end
