(* ===== verification/Identifiers.thy ===== *)
theory Identifiers
  imports Outputs
begin

text \<open>
  The identifiers of the two message tables. A message and a part are rows under a primary key, and the first
  row of a group is stored under the group's own identifier, so that no two messages share a group although
  a group is only a column. Every identifier that is not a group's was drawn; with \<open>tables_ok\<close> none is one that
  has yet to be drawn, so that a later insert does not collide.
\<close>

section \<open>The invariant\<close>

definition row_keyed :: "env \<Rightarrow> store \<Rightarrow> message_part \<Rightarrow> bool" where
  "row_keyed e s p \<longleftrightarrow>
     (\<exists>q \<in> set (st_parts s). p_id q = p_group p \<and> p_group q = p_group p \<and> p_message q = p_message p)
   \<and> (p_id p = p_group p \<or> (\<exists>k < st_uuid s. p_id p = e_uuid e k))"

definition parts_keyed :: "env \<Rightarrow> store \<Rightarrow> bool" where
  "parts_keyed e s \<longleftrightarrow> distinct (map p_id (st_parts s)) \<and> (\<forall>p \<in> set (st_parts s). row_keyed e s p)"

lemma parts_keyed_group:
  assumes "parts_keyed e s" and "p \<in> set (st_parts s)" "q \<in> set (st_parts s)" and "p_group p = p_group q"
  shows "p_message p = p_message q"
proof -
  obtain a where a: "a \<in> set (st_parts s)" "p_id a = p_group p" "p_message a = p_message p"
    using assms(1,2) unfolding parts_keyed_def row_keyed_def by blast
  obtain b where b: "b \<in> set (st_parts s)" "p_id b = p_group q" "p_message b = p_message q"
    using assms(1,3) unfolding parts_keyed_def row_keyed_def by blast
  have "inj_on p_id (set (st_parts s))" using assms(1) by (simp add: parts_keyed_def distinct_map)
  then have "a = b" using a(1,2) b(1,2) assms(4) by (simp add: inj_onD)
  then show ?thesis using a(3) b(3) by simp
qed

lemma parts_keyed_undrawn:
  assumes "parts_keyed e s" and "tables_ok e s" and "uuid_ok e" and "p \<in> set (st_parts s)" and "st_uuid s \<le> n"
  shows "p_id p \<noteq> e_uuid e n"
proof -
  have "p_group p \<noteq> e_uuid e n" using assms(2,4,5) unfolding tables_ok_def by blast
  moreover have "p_id p = p_group p \<or> (\<exists>k < st_uuid s. p_id p = e_uuid e k)"
    using assms(1,4) unfolding parts_keyed_def row_keyed_def by blast
  ultimately show ?thesis using uuid_ok_eq [OF assms(3)] assms(5) by auto
qed

lemma parts_keyed_cong:
  "st_parts s' = st_parts s \<Longrightarrow> st_uuid s \<le> st_uuid s' \<Longrightarrow> parts_keyed e s \<Longrightarrow> parts_keyed e s'"
  unfolding parts_keyed_def row_keyed_def by (metis order_less_le_trans)

section \<open>It is kept\<close>

lemma parts_keyed_filter:
  assumes "parts_keyed e s" and "\<And>p q. p_message p = p_message q \<Longrightarrow> p_group p = p_group q \<Longrightarrow> P p = P q"
  shows "parts_keyed e (s\<lparr>st_parts := filter P (st_parts s)\<rparr>)"
  unfolding parts_keyed_def
proof (intro conjI ballI)
  show "distinct (map p_id (st_parts (s\<lparr>st_parts := filter P (st_parts s)\<rparr>)))"
    using assms(1) by (simp add: parts_keyed_def distinct_map_filter)
  fix p assume "p \<in> set (st_parts (s\<lparr>st_parts := filter P (st_parts s)\<rparr>))"
  then have p: "p \<in> set (st_parts s)" "P p" by auto
  then have K: "row_keyed e s p" using assms(1) by (simp add: parts_keyed_def)
  then obtain q where q: "q \<in> set (st_parts s)" "p_id q = p_group p" "p_group q = p_group p" "p_message q = p_message p"
    unfolding row_keyed_def by blast
  then have "q \<in> set (filter P (st_parts s))" using assms(2) [of q p] p(2) by simp
  moreover have "p_id p = p_group p \<or> (\<exists>k < st_uuid s. p_id p = e_uuid e k)" using K unfolding row_keyed_def by blast
  ultimately show "row_keyed e (s\<lparr>st_parts := filter P (st_parts s)\<rparr>) p"
    unfolding row_keyed_def using q(2-4) by auto
qed

lemma insert_payloads_keyed:
  assumes "insert_payloads e cf owner g first vs s = Inr s'" and "distinct (map p_id (st_parts s))"
    and "\<forall>p \<in> set (st_parts s). row_keyed e s p"
    and "first \<longrightarrow> vs \<noteq> []"
    and "\<not> first \<longrightarrow> (\<exists>q \<in> set (st_parts s). p_id q = g \<and> p_group q = g \<and> p_message q = owner)"
  shows "parts_keyed e s'"
  using assms
proof (induction vs arbitrary: first s)
  case Nil
  then show ?case by (simp add: parts_keyed_def)
next
  case (Cons v vs)
  let ?s1 = "if first then s else draw s"
  let ?row = "\<lparr>p_id = (if first then g else fresh_id e s), p_message = owner, p_group = g,
               p_content = marshal v, p_size = jlen v\<rparr>"
  have "bindR (insert_part ?row ?s1) (insert_payloads e cf owner g False vs) = Inr s'"
    using Cons.prems(1) by (auto simp: Let_def split: if_splits)
  then obtain s2 where s2: "insert_part ?row ?s1 = Inr s2"
    and rest: "insert_payloads e cf owner g False vs s2 = Inr s'"
    by (rule bindR_obtain)
  have parts: "st_parts s2 = st_parts s @ [?row]" and new: "p_id ?row \<notin> p_id ` set (st_parts s)"
    and uu: "st_uuid s2 = (if first then st_uuid s else Suc (st_uuid s))"
    using s2 by (auto simp: insert_part_def draw_def split: if_splits)
  have key: "\<exists>q \<in> set (st_parts s2). p_id q = g \<and> p_group q = g \<and> p_message q = owner"
    using Cons.prems(5) parts by (cases first) auto
  show ?case
  proof (rule Cons.IH [OF rest])
    show "distinct (map p_id (st_parts s2))" using Cons.prems(2) new by (simp add: parts)
    show "\<forall>p \<in> set (st_parts s2). row_keyed e s2 p"
    proof
      fix p assume "p \<in> set (st_parts s2)"
      then consider "p \<in> set (st_parts s)" | "p = ?row" by (auto simp: parts)
      then show "row_keyed e s2 p"
      proof cases
        case 1
        then have "row_keyed e s p" using Cons.prems(3) by blast
        moreover have "st_uuid s \<le> st_uuid s2" by (simp add: uu)
        ultimately show ?thesis unfolding row_keyed_def parts by (auto dest: order_less_le_trans)
      next
        case 2
        have "p_id ?row = g \<or> (\<exists>k < st_uuid s2. p_id ?row = e_uuid e k)" by (auto simp: uu fresh_id_def)
        then show ?thesis using 2 key by (simp add: row_keyed_def)
      qed
    qed
  qed (use key in simp_all)
qed

lemma persist_keyed:
  assumes laws: "ui_laws e" and "persist e cf c s = Inr s'" and "parts_keyed e s"
  shows "parts_keyed e s'"
  using assms(2) unfolding persist_def
proof (rule foldR_invariant)
  fix t t' x assume t: "parts_keyed e t" "persist_part e cf (mc_owner c) t x = Inr t'"
  show "parts_keyed e t'"
  proof (cases "cp_dirty x")
    case False
    then show ?thesis using t by (simp add: persist_part_def)
  next
    case True
    then obtain vs where vs: "part_payloads e cf (cp_blocks x) = Inr vs"
      and ins: "insert_payloads e cf (mc_owner c) (cp_group x) True vs (delete_group (mc_owner c) (cp_group x) t) = Inr t'"
      using t(2) by (auto simp: persist_part_def elim!: bindR_obtain)
    have "vs \<noteq> []"
      using vs ui_laws_frame(1) [OF laws] by (auto simp: part_payloads_def split: if_splits list.splits sum.splits)
    moreover have "parts_keyed e (delete_group (mc_owner c) (cp_group x) t)"
      unfolding delete_group_def by (rule parts_keyed_filter [OF t(1)]) auto
    ultimately show ?thesis using insert_payloads_keyed [OF ins] by (simp add: parts_keyed_def)
  qed
qed (rule assms(3))

lemma save_message_keyed:
  assumes laws: "ui_laws e" and ok: "tables_ok e s" and keyed: "parts_keyed e s"
    and run: "save_message e cf now m create s = Inr (m', s')"
  shows "parts_keyed e s'"
proof -
  obtain c0 c packed c1 m1 s1 c2 s2 content where
    c0: "open_logical e m (st_uuid s) = Inr c0" and c: "adopt_layout e m create s c0 = Inr c"
    and pack: "pack_content e s cf c = Inr (packed, c1)"
    and w: "write_row now (m\<lparr>m_content := stored_content cf (m_content m) packed c1\<rparr>) create
       (s\<lparr>st_uuid := mc_uuid c1\<rparr>) = Inr (m1, s1)"
    and s2: "persist e cf c2 s1 = Inr s2"
    and out: "s' = delete_unkept (m_id m) (save_keys c1) s2"
    by (rule save_message_split [OF run]) blast
  note OL = open_logical_ok [OF laws c0]
  note O = open_content_ok [OF laws OL(1)]
  have exists: "create \<or> get_msg (m_id m) s \<noteq> None"
    using c by (cases create; cases "get_msg (m_id m) s") (simp_all add: adopt_layout_def)
  then have pre: "create \<or> get_msg (m_id (m\<lparr>m_content := stored_content cf (m_content m) packed c1\<rparr>))
      (s\<lparr>st_uuid := mc_uuid c1\<rparr>) \<noteq> None" by simp
  note W = write_row_frame [OF w pre]
  have new: "create \<longrightarrow> get_msg (m_id m) s = None" using W(8) by simp
  note A = adopted_layout [OF laws ok OL(1) c new]
  let ?fs = "jblocks (mc_snap c0)"
  have "resolves {} ?fs ?fs"
    unfolding resolves_def list_all2_conv_all_nth resolves1_def using OL(3) by (simp add: logical_def)
  moreover have "set_blocks ?fs (mc_snap c0) = mc_snap c0" using model_has_blocks [OF laws O(2)] by simp
  ultimately have "packing e s (mc_snap c) ?fs c {}"
    using A(1,2) O(2) OL(3) unfolding packing_def by (auto simp: inline_free_def)
  from pack_content_ok [OF laws pack this] have "same_home c c1" by blast
  then have "st_uuid s \<le> mc_uuid c1" using A(5) by (simp add: same_home_iff)
  then have "parts_keyed e s1" using parts_keyed_cong [OF _ _ keyed, of s1] W(1,2) by simp
  then have "parts_keyed e s2" by (rule persist_keyed [OF laws s2])
  then show ?thesis unfolding out delete_unkept_def by (rule parts_keyed_filter) auto
qed

lemma parts_keyed_empty: "parts_keyed e empty_store"
  by (simp add: parts_keyed_def empty_store_def)

end
