(* ===== verification/Spec2Isabelle.thy ===== *)
theory Spec2Isabelle
  imports LhProps RunProps MessageProps ServiceProps RunnerProps ListenerProps RouterProps ManagedProps AgentGo
    RuntimeProps InteractionProps ApiProps BlockPages Streams StartupProps Identifiers
begin

text \<open>
  A verification development for loopd: a server that holds conversations, delivers them to
  Kubernetes operators, drives the runs of agent harnesses and streams their output, with the
  operators and the toolkit they embed.

  The program. Operators register with the server, poll their Conversation for inputs, act, publish
  messages and commit the position up to which they have taken inputs. All durable state is in an SQL
  database (\<^verbatim>\<open>server/internal/repo\<close>); a Conversation object in Kubernetes carries the wake-up signals and
  the positions (\<^verbatim>\<open>server/internal/k8s\<close>). A harness run is one prompt to an external agent: the server
  creates a row and an empty streaming message for it, the scheduler
  (\<^verbatim>\<open>server/internal/component/harness_runner.go\<close>) takes a lease on the row, calls an adapter
  (\<^verbatim>\<open>pkg/harness\<close>), appends the adapter's events to the message and finishes both. Pages follow messages
  through listeners. Services (\<^verbatim>\<open>server/internal/service\<close>) stand between the HTTP API and the repository. The
  operators are Router, LongHorizon and Interaction (\<^verbatim>\<open>operators\<close>), on the toolkit \<^verbatim>\<open>runtime\<close>.

  The theories, in the order in which the code stacks up.

  \<^item> \<open>Prelude\<close>: Go errors (\<open>err\<close>, one constructor per sentinel), \<open>result\<close> with \<open>bindR\<close> for early returns, keyed
    tables, the locale \<open>row_store\<close>. \<open>GoStd\<close>: the string functions of the standard library. \<open>Json\<close>:
    JSON values and the canonical text that fingerprints hash. \<open>Contract\<close>: \<^verbatim>\<open>pkg/contract\<close>.
  \<^item> \<open>Store\<close>: \<^verbatim>\<open>server/internal/model\<close>, one record per row and the database as the record \<open>store\<close>; three
    interpretations of \<open>row_store\<close>.
  \<^item> \<open>Locks\<close>: \<^verbatim>\<open>resource_lock.go\<close>, leases and fences. The locale \<open>lease_system\<close> states what a lease promises, over time,
    and is interpreted on the lock table under any steps of other servers.
  \<^item> \<open>Parts\<close>, \<open>Layout\<close>, \<open>Saving\<close>: \<^verbatim>\<open>message_part.go\<close>. Content is split into parts and frames; \<open>tables_ok\<close> is the
    invariant, and saving and hydrating are shown to be inverse over it.
  \<^item> \<open>Messages\<close>, \<open>Conversations\<close>: \<^verbatim>\<open>message.go\<close>, \<^verbatim>\<open>projection.go\<close>, \<^verbatim>\<open>publication.go\<close>, \<^verbatim>\<open>chat.go\<close>, \<^verbatim>\<open>inbox.go\<close>,
    \<^verbatim>\<open>conversation.go\<close>.
  \<^item> \<open>Runs\<close>, \<open>RunFacts\<close>: \<^verbatim>\<open>harness_run.go\<close>. \<open>RepoSteps\<close>: the repository as a transition system, one constructor of
    \<open>repo_step\<close> per transaction, for any number of servers; the locale \<open>run_system\<close> carries its invariant
    \<open>runs_ok\<close> (a run and its message agree).
  \<^item> \<open>HumanDomain\<close>, \<open>Humans\<close>: \<^verbatim>\<open>domain/human.go\<close>, \<^verbatim>\<open>human.go\<close>, \<^verbatim>\<open>human_context.go\<close> and the registries.
  \<^item> \<open>K8sConv\<close>, \<open>K8sSync\<close>: the Conversation resource and its client with conflict retries; the locale
    \<open>cursor_system\<close>; \<open>kube_laws\<close> is what an API server with optimistic concurrency guarantees.
  \<^item> \<open>Services\<close>, \<open>ServiceFacts\<close>: \<^verbatim>\<open>server/internal/service\<close>. \<open>Runner\<close>: the scheduler, the lease loop of
    \<^verbatim>\<open>internal/lock/lease.go\<close> and the drive of one run. \<open>Listeners\<close>: \<^verbatim>\<open>message_listener.go\<close>, \<^verbatim>\<open>conv_listener.go\<close>.
  \<^item> \<open>RuntimeClient\<close>: the toolkit. \<open>Api\<close>: \<^verbatim>\<open>server/internal/api\<close>, \<open>serve\<close> is one request. \<open>BlockPages\<close>: the client's
    block iterator over the server's pages. The locale \<open>update_server\<close> (\<open>RuntimeProps\<close>) is what a writer
    needs of the server, interpreted on the server's own emission path behind a network that loses messages.
    \<open>Streams\<close>: the event-stream routes and the client's reader of them. \<open>Startup\<close>: settings from the environment,
    the opening and upgrade of the database and the assembly of the server (\<^verbatim>\<open>cmd/loop-server\<close>, \<^verbatim>\<open>server.go\<close>,
    \<^verbatim>\<open>repo.Open\<close>, \<^verbatim>\<open>internal/migrations\<close>) and the settings of the operators.
  \<^item> \<open>ManagedAgent\<close>, \<open>AgentGo\<close>: the adapters. \<open>Effects\<close>: computations that call foreign services. \<open>LongHorizon\<close>,
    \<open>LhWork\<close>, \<open>LhFacts\<close>: the LongHorizon operator. \<open>Router\<close>, \<open>Interaction\<close>: the other two.
  \<^item> \<open>Samples\<close>, \<open>RunSamples\<close>: concrete parameters that satisfy the laws, and inputs, for the witnesses.
  \<^item> The properties stand in \<open>RunProps\<close>, \<open>LhProps\<close>, this theory, \<open>MessageProps\<close>, \<open>ServiceProps\<close>, \<open>RunnerProps\<close>,
    \<open>ListenerProps\<close>, \<open>Streams\<close>, \<open>ApiProps\<close>, \<open>RuntimeProps\<close>, \<open>BlockPages\<close>, \<open>StartupProps\<close>, \<open>RouterProps\<close>,
    \<open>ManagedProps\<close> and \<open>InteractionProps\<close>, each under its number.

  What is shown. Runs: over every interleaving of transactions of any servers a run and its message agree,
  a finished run is final, only the holder of a live lease writes, and retries and repeated submissions
  change nothing. Content: what is saved is read back, whole or block by block, and the tables stay well
  formed. Delivery: a message is in the inbox and stays marked until its signal has succeeded, a signal
  is in the object against concurrent writers, polls have no gaps, positions only grow. Scheduling:
  capacity, one drive per run, a drive is a sequence of transactions and settles its run, replay
  resumes at the checkpoint. Reading: pages and listeners deliver streams that apply. Toolkit: an update
  is applied exactly once, a broken stream is a front part of the listener's. Start: sound settings or
  nothing left open, an upgrade keeps every value. Operators: LongHorizon succeeds only on accepted evidence and stays in its
  bounds, Router and Interaction commit only after they have answered.

  Conventions. Time is \<open>int\<close> nanoseconds and an operation reads the clock once (\<open>now\<close>). A transaction is a function from
  the store to a result: an error leaves no store, which is the rollback. Revisions, generations and
  sequence numbers (\<open>uint64\<close>) are \<open>nat\<close> where the code only counts up; where the code parses or multiplies
  at a fixed width the width is written out (cursors below \<open>2 ^ 64\<close>, \<open>seconds_duration\<close> at 64 bits).
  Rounds and failures (\<open>int32\<close>) are \<open>int\<close>, and \<open>LhProps\<close> bounds them by 1001. Errors wrapped with
  \<open>%w\<close> are identified with their sentinel, joined errors with the first. Iteration over a
  Go map takes one arbitrary fixed order. Identifiers are drawn from a counter of the store and named by
  a parameter that is injective in it. All reads of one listener tick see one store.

  Parameters. The record \<open>env\<close> holds what is not in the repository: the model functions and frames of
  the UI toolkit and the content storage (laws \<open>ui_laws\<close>, \<open>end_law\<close>), identifiers, SHA-256. Other parameters are the
  event bridge, the Kubernetes API (\<open>kube_laws\<close>), adapters and the remote Session of a managed agent (a
  log shown as a history and a live stream, \<open>shows_log\<close>), the SDK's preview accumulator, the encoding of
  events (\<open>codec_law\<close>), the wire format of a stream (\<open>wire_law\<close>), the machine that holds the database (\<open>host_laws\<close>,
  \<open>schema_laws\<close>), the text of errors, the parsing of JSON text that a model writes, and the verbs of
  the toolkit towards an operator. Retry loops of \<^verbatim>\<open>client-go\<close> run a parameter number of steps.

  Fuel. \<open>call_wait\<close>, \<open>human_wait\<close>, \<open>read_blocks\<close>, \<open>bootstrap\<close> and \<open>router_rounds\<close> take fuel and return \<open>None\<close>
  without it: the first two follow calls that need not end; \<open>BlockPages\<close> gives enough fuel for \<open>read_blocks\<close> (the blocks of
  the message and one), \<open>ListenerProps\<close> for \<open>bootstrap\<close> (one page for every message and one), \<open>RouterProps\<close>
  for the Router (the inputs still to come and two). \<open>retry_on\<close> and \<open>write_attempts\<close> count attempts, as the code does. Every other loop is a total
  function over the data it reads.

  Not modelled. The route multiplexer, the decoding of request bodies (a body is absent, undecodable or a
  value) and the HTTP transport below requests and event-stream frames. Serving, signals and shutdown,
  logging, tickers and timers, and the cancellation of a request's context, which end a computation but have no
  effect of their own. The object-relational mapper: queries are functions of the store, and automatic
  migration is a parameter. The parsing of durations is a parameter. Goroutines are interleavings of
  the critical sections that touch shared state. The instruction text of the LongHorizon prompts is a
  parameter; those of Router and Interaction are written out. Transition times of conditions. Deletion and
  recreation of a Conversation object. Generated deep copies, scheme registration and test support.
\<close>

section \<open>Content storage\<close>

text \<open>
  C11: saving a message and reading its row back gives the saved message: every stored field
  agrees and the content decodes to the content that was saved, however its blocks were
  spread over parts and frames.
\<close>
theorem saved_message_reads_back:
  assumes "ui_laws e" and "tables_ok e s" and "save_message e cf now m create s = Inr (m', s')"
  shows "\<exists>row h. get_msg (m_id m) s' = Some row \<and> hydrate_message e s' row = Inr h
       \<and> h\<lparr>m_content := m_content m'\<rparr> = m'
       \<and> decode_object (m_content h) = decode_object (m_content m')"
  using assms by (rule save_message_reads_back)

theorem saved_message_reads_back_witness:
  "\<exists>m' s' row h. demo_saved = Inr (m', s') \<and> get_msg ''m1'' s' = Some row
     \<and> hydrate_message demo_env s' row = Inr h \<and> decode_object (m_content h) = decode_object (m_content m')"
proof -
  obtain m' s' where run: "save_message demo_env demo_cf 7 demo_message True empty_store = Inr (m', s')"
    by (rule demo_saved_Inr)
  show ?thesis
    using saved_message_reads_back [OF demo_laws tables_ok_empty run] run
    unfolding demo_saved_def demo_message_id by blast
qed

text \<open>
  C34: the message tables stay well formed and their identifiers unique. Whatever messages are saved one after
  the other, new or again, with whatever contents, every stored message opens, every reference leads to
  the part that holds its block and to no other, and no part is without its message; no two messages
  and no two parts have the same identifier, no two messages share a group of parts, and no identifier is
  in use that has yet to be drawn. The store before the saves has the same properties, as the empty one has.
\<close>
theorem message_tables_well_formed:
  assumes "ui_laws e" and "tables_ok e s" and "parts_keyed e s" and "tidy s"
    and "foldR (\<lambda>s (now, m, create). bindR (save_message e cf now m create s) (\<lambda>(_, s1). Inr s1)) s saves = Inr s'"
  shows "tables_ok e s' \<and> parts_keyed e s' \<and> tidy s'
    \<and> distinct (map m_id (st_msgs s')) \<and> distinct (map p_id (st_parts s'))
    \<and> (\<forall>p \<in> set (st_parts s'). \<forall>q \<in> set (st_parts s'). p_group p = p_group q \<longrightarrow> p_message p = p_message q)
    \<and> (\<forall>p \<in> set (st_parts s'). \<forall>n \<ge> st_uuid s'. p_id p \<noteq> e_uuid e n \<and> p_group p \<noteq> e_uuid e n)"
proof -
  have "tables_ok e s' \<and> parts_keyed e s' \<and> tidy s'"
    using assms(5)
  proof (rule foldR_invariant)
    fix t t' x assume t: "tables_ok e t \<and> parts_keyed e t \<and> tidy t"
      "(\<lambda>s (now, m, create). bindR (save_message e cf now m create s) (\<lambda>(_, s1). Inr s1)) t x = Inr t'"
    obtain now m create where x: "x = (now, m, create)" by (rule prod_cases3)
    then obtain m1 where run: "save_message e cf now m create t = Inr (m1, t')"
      using t(2) by (auto simp: bindR_eq_Inr)
    show "tables_ok e t' \<and> parts_keyed e t' \<and> tidy t'"
      using save_message_tables_ok [OF assms(1) _ run] save_message_keyed [OF assms(1) _ _ run]
        save_message_tidy [OF run] t(1) by blast
  qed (use assms in blast)
  then show ?thesis
    using parts_keyed_group [of e s'] parts_keyed_undrawn [OF _ _ ui_laws_uuid(2) [OF assms(1)]]
    unfolding tables_ok_def tidy_def parts_keyed_def by blast
qed

theorem message_tables_well_formed_witness:
  "\<exists>m' s'. demo_saved = Inr (m', s') \<and> st_parts s' \<noteq> [] \<and> tables_ok demo_env s' \<and> distinct (map p_id (st_parts s'))"
proof -
  obtain m' s' where run: "save_message demo_env demo_cf 7 demo_message True empty_store = Inr (m', s')"
    by (rule demo_saved_Inr)
  have fold: "foldR (\<lambda>s (now, m, create). bindR (save_message demo_env demo_cf now m create s) (\<lambda>(_, s1). Inr s1)) empty_store
      [(7, demo_message, True)] = Inr s'"
    by (simp add: run)
  have "tidy empty_store" by (simp add: tidy_def empty_store_def)
  then have "tables_ok demo_env s' \<and> distinct (map p_id (st_parts s'))"
    using message_tables_well_formed [OF demo_laws tables_ok_empty parts_keyed_empty _ fold] by blast
  moreover have "st_parts s' \<noteq> []" using demo_saved_part run unfolding demo_saved_def by auto
  ultimately show ?thesis using run unfolding demo_saved_def by blast
qed

end
